(* ===== verification/Prelude.thy ===== *)
theory Prelude
  imports Complex_Main "HOL-Library.Multiset" "HOL-Library.List_Lexorder"
    "HOL-Library.Char_ord" "HOL-Library.Product_Lexorder"
begin

text \<open>
  What every component shares: the exceptions a Python statement can raise and the
  result of a statement that may raise (a sum, the exception on the left together with
  the state it leaves behind), loops over lists that stop at the first exception,
  insertion-ordered dictionaries, Python's decimal rendering of integers, ceiling
  division, and the generic lemmas on lists and sums. The two interfaces stated here are
  \<open>ordered_dict\<close> (what a dictionary promises its clients) and \<open>event_system\<close> (handlers
  that keep an invariant, also when they raise).
\<close>

named_theorems keeps_intro \<open>invariant rules for statements that may raise\<close>
named_theorems dict_simps \<open>lookup, keys and well-formedness of dictionaries\<close>

section \<open>Exceptions and statements that may raise\<close>

text \<open>
  The exceptions the modelled code raises or meets. \<open>Blocks\<close> is not an exception: it is
  the outcome of a call that never returns, such as \<open>Queue.get\<close> on an empty queue.
\<close>

datatype py_error =
    AssertionError
  | KeyError
  | ValueError
  | TypeError
  | IndexError
  | AttributeError
  | ZeroDivisionError
  | RuntimeError
  | NotImplementedError
  | StopIteration
  | GenericException
  | Blocks

type_synonym 's outcome = "(py_error \<times> 's) + 's"

definition bindR :: "'e + 'a \<Rightarrow> ('a \<Rightarrow> 'e + 'b) \<Rightarrow> 'e + 'b" where
  "bindR m k = (case m of Inl e \<Rightarrow> Inl e | Inr x \<Rightarrow> k x)"

lemma bindR_simps [simp]:
  "bindR (Inl e) k = Inl e"
  "bindR (Inr x) k = k x"
  by (simp_all add: bindR_def)

lemma bindR_Inr_iff: "bindR m k = Inr y \<longleftrightarrow> (\<exists>x. m = Inr x \<and> k x = Inr y)"
  by (cases m) auto

lemma bindR_InrE [elim]:
  assumes "bindR m k = Inr y"
  obtains x where "m = Inr x" and "k x = Inr y"
  using assms by (auto simp: bindR_Inr_iff)

lemma bindR_assoc: "bindR (bindR m k) h = bindR m (\<lambda>x. bindR (k x) h)"
  by (cases m) auto

text \<open>\<open>assert c\<close> as a statement on a state: the exception keeps the state reached.\<close>

definition py_assert :: "bool \<Rightarrow> 's \<Rightarrow> 's outcome" where
  "py_assert c s = (if c then Inr s else Inl (AssertionError, s))"

lemma py_assert_simps [simp]:
  "py_assert True s = Inr s"
  "py_assert False s = Inl (AssertionError, s)"
  by (simp_all add: py_assert_def)

lemma py_assert_Inr [simp]: "py_assert c s = Inr s' \<longleftrightarrow> c \<and> s' = s"
  by (auto simp: py_assert_def)

text \<open>A \<open>for\<close> loop whose body may raise: it stops at the first exception.\<close>

primrec forR :: "'x list \<Rightarrow> ('x \<Rightarrow> 's \<Rightarrow> 'e + 's) \<Rightarrow> 's \<Rightarrow> 'e + 's" where
  "forR [] f s = Inr s"
| "forR (x # xs) f s = bindR (f x s) (forR xs f)"

lemma forR_append: "forR (xs @ ys) f s = bindR (forR xs f s) (forR ys f)"
proof (induction xs arbitrary: s)
  case Nil
  then show ?case by simp
next
  case (Cons x xs)
  have "forR (xs @ ys) f = (\<lambda>s. bindR (forR xs f s) (forR ys f))"
    using Cons.IH by blast
  then show ?case by (simp add: bindR_assoc)
qed

lemma forR_cong [fundef_cong]:
  "xs = ys \<Longrightarrow> s = t \<Longrightarrow> (\<And>x u. x \<in> set ys \<Longrightarrow> f x u = g x u) \<Longrightarrow> forR xs f s = forR ys g t"
proof (induction xs arbitrary: ys s t)
  case Nil
  then show ?case by simp
next
  case (Cons x xs)
  then obtain zs where ys: "ys = x # zs" and zs: "xs = zs" by auto
  have "forR xs f u = forR zs g u" for u
    using Cons.prems(3) ys by (intro Cons.IH [OF zs refl]) auto
  moreover have "f x s = g x t"
    using Cons.prems(2,3) ys by simp
  ultimately show ?case
    by (simp add: ys bindR_def split: sum.splits)
qed

lemma forR_total: "(\<And>x s. x \<in> set xs \<Longrightarrow> f x s = Inr (g x s)) \<Longrightarrow> forR xs f s = Inr (fold g xs s)"
  by (induction xs arbitrary: s) auto

text \<open>A list comprehension whose element expression may raise.\<close>

fun mapR :: "('a \<Rightarrow> 'e + 'b) \<Rightarrow> 'a list \<Rightarrow> 'e + 'b list" where
  "mapR f [] = Inr []"
| "mapR f (x # xs) = bindR (f x) (\<lambda>y. bindR (mapR f xs) (\<lambda>ys. Inr (y # ys)))"

lemma mapR_total: "(\<And>x. x \<in> set xs \<Longrightarrow> f x = Inr (g x)) \<Longrightarrow> mapR f xs = Inr (map g xs)"
  by (induction xs) auto

lemma mapR_map: "(\<And>x. f (h x) = Inr (g x)) \<Longrightarrow> mapR f (map h xs) = Inr (map g xs)"
  by (induction xs) auto

lemma mapR_Inr_iff: "mapR f xs = Inr ys \<longleftrightarrow> list_all2 (\<lambda>x y. f x = Inr y) xs ys"
proof (induction xs arbitrary: ys)
  case Nil
  then show ?case by auto
next
  case (Cons x xs)
  then show ?case by (cases "f x"; cases ys) (auto simp: bindR_Inr_iff)
qed

lemma mapR_totals:
  assumes "\<And>x. x \<in> set xs \<Longrightarrow> \<exists>y. f x = Inr y"
  shows "mapR f xs = Inr (map (projr \<circ> f) xs)"
proof (rule mapR_total)
  fix x assume "x \<in> set xs"
  then show "f x = Inr ((projr \<circ> f) x)" using assms by fastforce
qed

text \<open>
  \<open>keeps I r\<close>: the state that \<open>r\<close> leaves satisfies \<open>I\<close>, whether the statement
  returned or raised. This is what an HTTP handler that catches every exception needs.
\<close>

definition after :: "'s outcome \<Rightarrow> 's" where
  "after r = (case r of Inl es \<Rightarrow> snd es | Inr s \<Rightarrow> s)"

definition keeps :: "('s \<Rightarrow> bool) \<Rightarrow> 's outcome \<Rightarrow> bool" where
  "keeps I r \<longleftrightarrow> I (after r)"

lemma after_simps [simp]: "after (Inl (e, s)) = s" "after (Inr s) = s"
  by (simp_all add: after_def)

lemma keeps_simps [simp]: "keeps I (Inl (e, s)) = I s" "keeps I (Inr s) = I s"
  by (simp_all add: keeps_def)

lemma keeps_bindR [keeps_intro]:
  assumes "keeps I m" and "\<And>s. I s \<Longrightarrow> keeps I (k s)"
  shows "keeps I (bindR m k)"
  using assms by (cases m) (auto simp: keeps_def after_def)

lemma keeps_assert [keeps_intro]: "I s \<Longrightarrow> keeps I (py_assert c s)"
  by (simp add: py_assert_def)

lemma keeps_if [keeps_intro]:
  "(c \<Longrightarrow> keeps I a) \<Longrightarrow> (\<not> c \<Longrightarrow> keeps I b) \<Longrightarrow> keeps I (if c then a else b)"
  by simp

lemma keeps_forR [keeps_intro]:
  assumes "I s" and "\<And>x s. x \<in> set xs \<Longrightarrow> I s \<Longrightarrow> keeps I (f x s)"
  shows "keeps I (forR xs f s)"
  using assms
proof (induction xs arbitrary: s)
  case Nil
  then show ?case by simp
next
  case (Cons x xs)
  from Cons.prems show ?case
    by (auto intro!: keeps_bindR Cons.IH)
qed

text \<open>
  The same for statements that carry more than the state while they run, such as a loop
  with an accumulator: \<open>g\<close> reads the state off the running value.
\<close>

definition keeps_via :: "('t \<Rightarrow> 's) \<Rightarrow> ('s \<Rightarrow> bool) \<Rightarrow> (py_error \<times> 's) + 't \<Rightarrow> bool" where
  "keeps_via g I r \<longleftrightarrow> (case r of Inl es \<Rightarrow> I (snd es) | Inr t \<Rightarrow> I (g t))"

lemma keeps_via_simps [simp]:
  "keeps_via g I (Inl (e, s)) = I s" "keeps_via g I (Inr t) = I (g t)"
  by (simp_all add: keeps_via_def)

lemma keeps_via_bind:
  assumes "keeps_via g I m" and "\<And>t. I (g t) \<Longrightarrow> keeps_via h I (k t)"
  shows "keeps_via h I (bindR m k)"
  using assms by (cases m) (auto simp: keeps_via_def)

lemma keeps_keeps_via: "keeps I r = keeps_via (\<lambda>s. s) I r"
  by (auto simp: keeps_def keeps_via_def after_def split: sum.splits)

lemma keeps_bind_via:
  assumes "keeps_via g I m" and "\<And>t. I (g t) \<Longrightarrow> keeps I (k t)"
  shows "keeps I (bindR m k)"
  using assms by (simp add: keeps_keeps_via keeps_via_bind)

lemma keeps_via_bind_plain:
  assumes "keeps I m" and "\<And>s. I s \<Longrightarrow> keeps_via g I (k s)"
  shows "keeps_via g I (bindR m k)"
  using assms by (simp add: keeps_keeps_via keeps_via_bind)

lemma keeps_via_forR:
  assumes "I (g t)" and "\<And>x t. x \<in> set xs \<Longrightarrow> I (g t) \<Longrightarrow> keeps_via g I (f x t)"
  shows "keeps_via g I (forR xs f t)"
  using assms
proof (induction xs arbitrary: t)
  case Nil
  then show ?case by simp
next
  case (Cons x xs)
  from Cons.prems show ?case
    by (auto intro!: keeps_via_bind Cons.IH)
qed

section \<open>Event systems\<close>

text \<open>
  Handlers of one state that may raise; the surrounding server catches the exception and
  goes on from the state that was left. An invariant every handler keeps holds after any
  sequence of events.
\<close>

primrec serve :: "('ev \<Rightarrow> 's \<Rightarrow> 's outcome) \<Rightarrow> 'ev list \<Rightarrow> 's \<Rightarrow> 's" where
  "serve handle [] s = s"
| "serve handle (ev # evs) s = serve handle evs (after (handle ev s))"

primrec admissible :: "('ev \<Rightarrow> 's \<Rightarrow> 's outcome) \<Rightarrow> ('ev \<Rightarrow> 's \<Rightarrow> bool) \<Rightarrow> 'ev list \<Rightarrow> 's \<Rightarrow> bool" where
  "admissible handle enabled [] s \<longleftrightarrow> True"
| "admissible handle enabled (ev # evs) s \<longleftrightarrow>
     enabled ev s \<and> admissible handle enabled evs (after (handle ev s))"

lemma serve_append: "serve handle (xs @ ys) s = serve handle ys (serve handle xs s)"
  by (induction xs arbitrary: s) auto

lemma admissible_True [simp]: "admissible handle (\<lambda>_ _. True) evs s"
  by (induction evs arbitrary: s) auto

locale event_system =
  fixes handle :: "'ev \<Rightarrow> 's \<Rightarrow> 's outcome"
    and inv :: "'s \<Rightarrow> bool"
    and enabled :: "'ev \<Rightarrow> 's \<Rightarrow> bool"
  assumes handle_keeps: "inv s \<Longrightarrow> enabled ev s \<Longrightarrow> keeps inv (handle ev s)"
begin

lemma serve_inv: "inv s \<Longrightarrow> admissible handle enabled evs s \<Longrightarrow> inv (serve handle evs s)"
proof (induction evs arbitrary: s)
  case Nil
  then show ?case by simp
next
  case (Cons ev evs)
  have "inv (after (handle ev s))"
    using handle_keeps [of s ev] Cons.prems by (simp add: keeps_def)
  then show ?case
    using Cons.prems by (auto intro: Cons.IH)
qed

end

section \<open>Insertion-ordered dictionaries\<close>

type_synonym ('k, 'v) dict = "('k \<times> 'v) list"

primrec dict_set :: "'k \<Rightarrow> 'v \<Rightarrow> ('k, 'v) dict \<Rightarrow> ('k, 'v) dict" where
  "dict_set k v [] = [(k, v)]"
| "dict_set k v (p # ps) = (if fst p = k then (k, v) # ps else p # dict_set k v ps)"

definition dict_get :: "('k, 'v) dict \<Rightarrow> 'k \<Rightarrow> 'v option" where
  "dict_get d k = map_of d k"

definition dict_pop :: "'k \<Rightarrow> ('k, 'v) dict \<Rightarrow> ('k, 'v) dict" where
  "dict_pop k d = filter (\<lambda>p. fst p \<noteq> k) d"

definition dict_keys :: "('k, 'v) dict \<Rightarrow> 'k list" where
  "dict_keys d = map fst d"

definition dict_values :: "('k, 'v) dict \<Rightarrow> 'v list" where
  "dict_values d = map snd d"

definition wf_dict :: "('k, 'v) dict \<Rightarrow> bool" where
  "wf_dict d \<longleftrightarrow> distinct (map fst d)"

text \<open>Mutating the object stored under a key, through a reference to it.\<close>

definition dict_upd :: "'k \<Rightarrow> ('v \<Rightarrow> 'v) \<Rightarrow> ('k, 'v) dict \<Rightarrow> ('k, 'v) dict" where
  "dict_upd k f d = map (\<lambda>p. (fst p, if fst p = k then f (snd p) else snd p)) d"

abbreviation dict_has :: "('k, 'v) dict \<Rightarrow> 'k \<Rightarrow> bool" where
  "dict_has d k \<equiv> dict_get d k \<noteq> None"

text \<open>\<open>d.get(k, default)\<close>.\<close>

definition dict_get_or :: "('k, 'v) dict \<Rightarrow> 'k \<Rightarrow> 'v \<Rightarrow> 'v" where
  "dict_get_or d k v = (case dict_get d k of None \<Rightarrow> v | Some x \<Rightarrow> x)"

lemma dict_get_simps [simp, dict_simps]:
  "dict_get [] k = None"
  "dict_get (p # d) k = (if fst p = k then Some (snd p) else dict_get d k)"
  by (cases p, simp_all add: dict_get_def)

lemma dict_get_set [simp, dict_simps]:
  "dict_get (dict_set k v d) k' = (if k' = k then Some v else dict_get d k')"
  by (induction d) auto

lemma dict_get_pop [simp, dict_simps]:
  "dict_get (dict_pop k d) k' = (if k' = k then None else dict_get d k')"
  by (induction d) (auto simp: dict_pop_def)

lemma dict_get_upd [simp, dict_simps]:
  "dict_get (dict_upd k f d) k' = (if k' = k then map_option f (dict_get d k) else dict_get d k')"
  by (induction d) (auto simp: dict_upd_def)

lemma dict_get_None_iff: "dict_get d k = None \<longleftrightarrow> k \<notin> fst ` set d"
  by (induction d) auto

lemma dict_get_None_keys: "dict_get d k = None \<longleftrightarrow> k \<notin> set (dict_keys d)"
  by (simp add: dict_get_None_iff dict_keys_def)

lemma dict_has_iff: "dict_has d k \<longleftrightarrow> k \<in> set (dict_keys d)"
  by (simp add: dict_get_None_keys)

lemma fst_set_dict_set: "fst ` set (dict_set k v d) = insert k (fst ` set d)"
  by (induction d) auto

lemma dict_keys_set [dict_simps]:
  "dict_keys (dict_set k v d) = (if dict_has d k then dict_keys d else dict_keys d @ [k])"
  by (induction d) (auto simp: dict_keys_def)

lemma dict_keys_upd [simp, dict_simps]: "dict_keys (dict_upd k f d) = dict_keys d"
  by (simp add: dict_keys_def dict_upd_def)

lemma dict_keys_pop [dict_simps]: "dict_keys (dict_pop k d) = filter (\<lambda>x. x \<noteq> k) (dict_keys d)"
  by (induction d) (auto simp: dict_keys_def dict_pop_def)

lemma wf_dict_keys: "wf_dict d \<longleftrightarrow> distinct (dict_keys d)"
  by (simp add: wf_dict_def dict_keys_def)

lemma wf_dict_empty [simp, dict_simps]: "wf_dict []"
  by (simp add: wf_dict_def)

lemma wf_dict_set [simp, dict_simps]: "wf_dict d \<Longrightarrow> wf_dict (dict_set k v d)"
  using dict_get_None_keys [of d k] by (auto simp: wf_dict_keys dict_keys_set)

lemma wf_dict_pop [simp, dict_simps]: "wf_dict d \<Longrightarrow> wf_dict (dict_pop k d)"
  by (simp add: wf_dict_keys dict_keys_pop)

lemma wf_dict_upd [simp, dict_simps]: "wf_dict d \<Longrightarrow> wf_dict (dict_upd k f d)"
  by (simp add: wf_dict_keys)

lemma length_dict_upd [simp]: "length (dict_upd k f d) = length d"
  by (simp add: dict_upd_def)

lemma dict_upd_Cons [simp]:
  "dict_upd k f (p # d) = (fst p, if fst p = k then f (snd p) else snd p) # dict_upd k f d"
  "dict_upd k f [] = []"
  by (simp_all add: dict_upd_def)

lemma dict_values_Cons [simp]: "dict_values [] = []" "dict_values (p # d) = snd p # dict_values d"
  by (simp_all add: dict_values_def)

lemma dict_set_new: "dict_get d k = None \<Longrightarrow> dict_set k v d = d @ [(k, v)]"
  by (induction d) (auto split: if_splits)

lemma dict_get_in_values: "dict_get d k = Some v \<Longrightarrow> v \<in> set (dict_values d)"
  by (induction d) (auto split: if_splits)

lemma wf_dict_values_get: "wf_dict d \<Longrightarrow> v \<in> set (dict_values d) \<Longrightarrow> \<exists>k. dict_get d k = Some v"
proof (induction d)
  case Nil
  then show ?case by simp
next
  case (Cons p d)
  show ?case
  proof (cases "v = snd p")
    case True
    then show ?thesis by (intro exI [of _ "fst p"]) simp
  next
    case False
    with Cons obtain k where k: "dict_get d k = Some v"
      by (auto simp: wf_dict_def)
    then have "k \<noteq> fst p"
      using Cons.prems(1) dict_get_None_iff [of d "fst p"] by (auto simp: wf_dict_def)
    with k show ?thesis by (intro exI [of _ k]) simp
  qed
qed

text \<open>
  The interface. A client that only builds a dictionary by successive assignments knows
  both its contents (the last assignment to a key wins) and its iteration order (first
  assignment first), from these laws alone.
\<close>

locale ordered_dict =
  fixes empty :: 'd
    and get :: "'d \<Rightarrow> 'k \<Rightarrow> 'v option"
    and put :: "'k \<Rightarrow> 'v \<Rightarrow> 'd \<Rightarrow> 'd"
    and keys :: "'d \<Rightarrow> 'k list"
  assumes get_empty: "get empty k = None"
    and get_put: "get (put k v d) k' = (if k' = k then Some v else get d k')"
    and keys_get: "k \<in> set (keys d) \<longleftrightarrow> get d k \<noteq> None"
    and keys_empty: "keys empty = []"
    and keys_put: "keys (put k v d) = (if get d k = None then keys d @ [k] else keys d)"
begin

lemma get_fold_put: "get (fold (\<lambda>(k, v). put k v) kvs d) k =
  (case map_of (rev kvs) k of None \<Rightarrow> get d k | Some v \<Rightarrow> Some v)"
  by (induction kvs arbitrary: d) (auto simp: get_put map_add_def split: option.splits)

lemma distinct_keys_put: "distinct (keys d) \<Longrightarrow> distinct (keys (put k v d))"
  using keys_get [of k d] by (auto simp: keys_put)

lemma distinct_keys_fold: "distinct (keys d) \<Longrightarrow> distinct (keys (fold (\<lambda>(k, v). put k v) kvs d))"
  by (induction kvs arbitrary: d) (auto intro: distinct_keys_put)

lemma keys_fold_put: "set (keys (fold (\<lambda>(k, v). put k v) kvs d)) = set (keys d) \<union> fst ` set kvs"
proof (induction kvs arbitrary: d)
  case Nil
  then show ?case by simp
next
  case (Cons p kvs)
  obtain k v where p: "p = (k, v)" by (cases p)
  show ?case
    using keys_get [of k d] by (auto simp: Cons.IH p keys_put)
qed

end

interpretation pd: ordered_dict "[]" dict_get dict_set dict_keys
  by unfold_locales
    (simp_all add: dict_get_None_keys dict_keys_set, simp add: dict_keys_def)

section \<open>Rendering integers, ceiling division\<close>

text \<open>\<open>str(n)\<close> for a Python \<open>int\<close>.\<close>

definition digit_char :: "nat \<Rightarrow> char" where
  "digit_char n = char_of (48 + n)"

fun nat_str :: "nat \<Rightarrow> string" where
  "nat_str n = (if n < 10 then [digit_char n] else nat_str (n div 10) @ [digit_char (n mod 10)])"

declare nat_str.simps [simp del]

definition int_str :: "int \<Rightarrow> string" where
  "int_str i = (if i < 0 then CHR ''-'' # nat_str (nat (- i)) else nat_str (nat i))"

lemma digit_char_inj: "m < 10 \<Longrightarrow> n < 10 \<Longrightarrow> digit_char m = digit_char n \<Longrightarrow> m = n"
proof -
  assume m: "m < 10" and n: "n < 10" and eq: "digit_char m = digit_char n"
  from eq have "of_char (digit_char m) = (of_char (digit_char n) :: nat)" by simp
  with m n show ?thesis by (simp add: digit_char_def of_char_of)
qed

lemma of_digit_char: "n < 10 \<Longrightarrow> of_char (digit_char n) = 48 + n"
  by (simp add: digit_char_def of_char_of)

lemma digit_char_neq [simp]:
  assumes "n < 10"
  shows "digit_char n \<noteq> CHR ''-''" and "digit_char n \<noteq> CHR '']''"
proof -
  have n: "of_char (digit_char n) = 48 + n"
    using assms by (rule of_digit_char)
  have minus: "of_char (CHR ''-'') = (45::nat)" by code_simp
  have bracket: "of_char (CHR '']'') = (93::nat)" by code_simp
  show "digit_char n \<noteq> CHR ''-''"
    using n minus by (intro notI) simp
  show "digit_char n \<noteq> CHR '']''"
    using n bracket assms by (intro notI) simp
qed

lemma nat_str_nonempty [simp]: "nat_str n \<noteq> []" "[] \<noteq> nat_str n"
  by (subst nat_str.simps, simp)+

lemma nat_str_last: "\<exists>d < 10. last (nat_str n) = digit_char d"
proof (cases "n < 10")
  case True
  then show ?thesis by (subst nat_str.simps) auto
next
  case False
  then show ?thesis
    by (subst nat_str.simps) (auto intro!: exI [of _ "n mod 10"])
qed

lemma nat_str_no_minus: "CHR ''-'' \<notin> set (nat_str n)"
proof (induction n rule: nat_str.induct)
  case (1 n)
  show ?case
  proof (cases "n < 10")
    case True
    then show ?thesis
      using digit_char_neq(1) [of n] by (subst nat_str.simps) (auto dest: sym)
  next
    case False
    then show ?thesis
      using 1 digit_char_neq(1) [of "n mod 10"] by (subst nat_str.simps) (auto dest: sym)
  qed
qed

lemma nat_str_inj: "nat_str m = nat_str n \<Longrightarrow> m = n"
proof (induction m arbitrary: n rule: nat_str.induct)
  case (1 m)
  note m = nat_str.simps [of m] and n = nat_str.simps [of n]
  show ?case
  proof (cases "m < 10")
    case True
    with "1.prems" m n have "n < 10"
      by (auto split: if_splits)
    with True "1.prems" m n show ?thesis
      by (auto dest: digit_char_inj)
  next
    case False
    with "1.prems" m n have n10: "\<not> n < 10"
      by (auto split: if_splits)
    with False "1.prems" m n have eq: "nat_str (m div 10) = nat_str (n div 10)"
      and last: "digit_char (m mod 10) = digit_char (n mod 10)"
      by auto
    from "1.IH" [OF False eq] have "m div 10 = n div 10" .
    moreover from last have "m mod 10 = n mod 10"
      by (rule digit_char_inj [rotated 2]) auto
    ultimately show ?thesis
      by (metis div_mult_mod_eq)
  qed
qed

lemma int_str_inj: "int_str i = int_str j \<Longrightarrow> i = j"
proof -
  assume eq: "int_str i = int_str j"
  have minus: "CHR ''-'' # xs \<noteq> nat_str n" for xs n
    using nat_str_no_minus [of n] by (metis list.set_intros(1))
  from eq have "(i < 0) = (j < 0)"
    using minus minus [symmetric] by (auto simp: int_str_def split: if_splits)
  with eq show "i = j"
    by (auto simp: int_str_def dest!: nat_str_inj split: if_splits)
qed

lemma int_str_last: "\<exists>d < 10. last (int_str i) = digit_char d"
  using nat_str_last by (simp add: int_str_def)

text \<open>\<open>math.ceil(a / b)\<close> on integers, and \<open>-(a // -b)\<close>, which is the same number.\<close>

definition ceil_div :: "int \<Rightarrow> int \<Rightarrow> int" where
  "ceil_div a b = - ((- a) div b)"

lemma ceil_div_le: "0 < b \<Longrightarrow> a \<le> ceil_div a b * b"
proof -
  assume b: "0 < b"
  have "(- a) div b * b \<le> - a"
    using b by (metis div_mult_mod_eq le_add_same_cancel1 pos_mod_sign)
  then show ?thesis by (simp add: ceil_div_def)
qed

lemma ceil_div_tight: "0 < b \<Longrightarrow> (ceil_div a b - 1) * b < a"
proof -
  assume b: "0 < b"
  have "(- a) mod b < b" using b by simp
  moreover have "- a = (- a) div b * b + (- a) mod b" by (rule div_mult_mod_eq [symmetric])
  ultimately have "- a < (- a) div b * b + b" by linarith
  then show ?thesis
    by (simp add: ceil_div_def algebra_simps)
qed

lemma ceil_div_unique: "0 < b \<Longrightarrow> (q - 1) * b < a \<Longrightarrow> a \<le> q * b \<Longrightarrow> ceil_div a b = q"
proof -
  assume b: "0 < b" and lo: "(q - 1) * b < a" and hi: "a \<le> q * b"
  have "(q - 1) * b < ceil_div a b * b"
    using lo ceil_div_le [OF b, of a] by linarith
  then have "q - 1 < ceil_div a b" using b by (simp add: mult_less_cancel_right_pos)
  moreover have "(ceil_div a b - 1) * b < q * b"
    using hi ceil_div_tight [OF b, of a] by linarith
  then have "ceil_div a b - 1 < q" using b by (simp add: mult_less_cancel_right_pos)
  ultimately show ?thesis by linarith
qed

section \<open>Lists\<close>

lemma list_all_sum_nonneg: "(\<forall>x \<in> set xs. (0::int) \<le> x) \<Longrightarrow> 0 \<le> sum_list xs"
  by (induction xs) auto

lemma set_sort_key_subset [simp]: "set (sort_key f xs) = set xs"
  by simp

lemma mset_concat_map_filter:
  "mset (filter P xs) + mset (filter (\<lambda>x. \<not> P x) xs) = mset xs"
  by (induction xs) auto

lemma length_filter_partition: "length (filter P xs) + length (filter (\<lambda>x. \<not> P x) xs) = length xs"
  by (induction xs) auto

lemma prod_list_pos: "(\<forall>x \<in> set xs. (0::int) < x) \<Longrightarrow> 0 < prod_list xs"
  by (induction xs) auto

end
