(* ===== verification/Schema.thy ===== *)
theory Schema
  imports Prelude
begin

text \<open>
  The data the components exchange: Python values of type \<open>Any\<close>, chat messages, the
  request payload \<open>RLPayload\<close> and the flattened \<open>Rollout\<close>
  (cosmos_rl/dispatcher/data/schema.py), and the extraction of rollouts from payloads
  (cosmos_rl/utils/payload.py). Floats are rationals: rounding is not modelled, and no
  control decision of the modelled code depends on it.
\<close>

section \<open>Python values and messages\<close>

datatype pyval =
    PNone
  | PBool bool
  | PInt int
  | PFloat rat
  | PStr string
  | PList "pyval list"
  | PTuple "pyval list"
  | PArray "pyval list"  \<comment> \<open>an array or tensor with at least one axis, along its first axis\<close>
  | PDict "(string \<times> pyval) list"

type_synonym pydict = "(string, pyval) dict"

datatype content = Text string | Parts "pyval list"

record chat_message =
  msg_role :: string
  msg_content :: content

type_synonym conversation = "chat_message list"

text \<open>\<open>content += s\<close>: a string is appended to a string; a list is extended by the
  characters of the string, as Python's list extension does.\<close>

fun content_append :: "content \<Rightarrow> string \<Rightarrow> content" where
  "content_append (Text t) s = Text (t @ s)"
| "content_append (Parts ps) s = Parts (ps @ map (\<lambda>c. PStr [c]) s)"

section \<open>Payloads and rollouts\<close>

record rl_payload =
  pl_prompt :: pyval
  pl_prompt_idx :: int
  pl_conversation :: "conversation option"
  pl_reference_answer :: "string option"
  pl_weight_version :: int
  pl_completions :: "pyval list option"
  pl_completed_conversations :: "conversation option list option"
  pl_n_ignore_prefix_tokens :: "int list option"
  pl_rewards :: "rat list option"
  pl_advantages :: "rat list option"
  pl_valid :: "bool option"
  pl_filter_rewards :: "rat list option"
  pl_completion_token_ids :: "int list list list option"
  pl_completion_logprobs :: "rat list list list option"
  pl_prompt_logprobs :: "rat list list option"
  pl_prompt_token_ids :: "int list list option"
  pl_cumulative_logprob :: "rat list option"
  pl_extra_info :: "pydict option"
  pl_report_metrics :: "pydict list option"
  pl_teacher_result_uuids :: "string list option"

record rollout =
  ro_prompt :: pyval
  ro_prompt_idx :: int
  ro_conversation :: "conversation option"
  ro_completion :: pyval
  ro_teacher_result_uuid :: string
  ro_teacher_logprobs :: "rat list list option"
  ro_completed_conversation :: "conversation option"
  ro_is_end :: bool
  ro_reward :: rat
  ro_advantage :: rat
  ro_n_ignore_prefix_tokens :: int
  ro_filter_reward :: rat
  ro_completion_token_ids :: "int list list option"
  ro_completion_logprobs :: "rat list list option"
  ro_prompt_logprobs :: "rat list list option"
  ro_prompt_token_ids :: "int list list option"
  ro_extra_info :: "pydict option"
  ro_weight_version :: int
  ro_report_metrics :: "pydict option"

definition collate_fn :: "(int \<times> rl_payload) list \<Rightarrow> int list \<times> rl_payload list" where
  "collate_fn batch = (map fst batch, map snd batch)"

section \<open>Extraction of rollouts\<close>

definition fill :: "'a list option \<Rightarrow> 'a list \<Rightarrow> 'a list option" where
  "fill xs d = (case xs of None \<Rightarrow> Some d | Some ys \<Rightarrow> Some ys)"

definition populate_for_none_fields :: "rl_payload \<Rightarrow> py_error + rl_payload" where
  "populate_for_none_fields p =
     (case pl_rewards p of
        None \<Rightarrow> Inl TypeError
      | Some rs \<Rightarrow>
          let n = length rs in
          Inr (p\<lparr>pl_filter_rewards := fill (pl_filter_rewards p) (replicate n 0),
                 pl_completion_logprobs := fill (pl_completion_logprobs p) (replicate n []),
                 pl_completion_token_ids := fill (pl_completion_token_ids p) (replicate n []),
                 pl_report_metrics := fill (pl_report_metrics p) (replicate n []),
                 pl_teacher_result_uuids := fill (pl_teacher_result_uuids p) (replicate n ''''),
                 pl_completions := fill (pl_completions p) (replicate n PNone),
                 pl_completed_conversations :=
                   fill (pl_completed_conversations p) (replicate n None),
                 pl_n_ignore_prefix_tokens :=
                   fill (pl_n_ignore_prefix_tokens p) (replicate n 0)\<rparr>))"

text \<open>The length checks made before a training payload is flattened.\<close>

definition check_lengths :: "rl_payload \<Rightarrow> py_error + unit" where
  "check_lengths p =
     (case pl_completions p of None \<Rightarrow> Inl TypeError | Some cs \<Rightarrow>
      case pl_rewards p of None \<Rightarrow> Inl TypeError | Some rs \<Rightarrow>
      if length cs \<noteq> length rs then Inl AssertionError else
      case pl_advantages p of None \<Rightarrow> Inl TypeError | Some as \<Rightarrow>
      if length rs \<noteq> length as then Inl AssertionError else
      if (case pl_completed_conversations p of None \<Rightarrow> False | Some cc \<Rightarrow> length cs \<noteq> length cc)
      then Inl AssertionError else
      if (case pl_n_ignore_prefix_tokens p of None \<Rightarrow> False | Some ni \<Rightarrow> length cs \<noteq> length ni)
      then Inl AssertionError else Inr ())"

text \<open>The item of one \<open>extra_info\<close> value that belongs to rollout \<open>idx\<close> of \<open>n\<close>.\<close>

fun extra_item :: "nat \<Rightarrow> nat \<Rightarrow> pyval \<Rightarrow> pyval" where
  "extra_item n idx (PList vs) = (if length vs = n then vs ! idx else PList vs)"
| "extra_item n idx (PTuple vs) = (if length vs = n then vs ! idx else PTuple vs)"
| "extra_item n idx (PArray vs) = (if length vs = n then vs ! idx else PArray vs)"
| "extra_item n idx v = v"

definition mk_rollout :: "rl_payload \<Rightarrow> bool \<Rightarrow> nat \<Rightarrow> nat \<Rightarrow> rollout" where
  "mk_rollout p is_end n i = \<lparr>
     ro_prompt = pl_prompt p,
     ro_prompt_idx = pl_prompt_idx p,
     ro_conversation = pl_conversation p,
     ro_completion = the (pl_completions p) ! i,
     ro_teacher_result_uuid = the (pl_teacher_result_uuids p) ! i,
     ro_teacher_logprobs = None,
     ro_completed_conversation = the (pl_completed_conversations p) ! i,
     ro_is_end = is_end,
     ro_reward = the (pl_rewards p) ! i,
     ro_advantage = the (pl_advantages p) ! i,
     ro_n_ignore_prefix_tokens = the (pl_n_ignore_prefix_tokens p) ! i,
     ro_filter_reward = the (pl_filter_rewards p) ! i,
     ro_completion_token_ids = Some (the (pl_completion_token_ids p) ! i),
     ro_completion_logprobs = Some (the (pl_completion_logprobs p) ! i),
     ro_prompt_logprobs = pl_prompt_logprobs p,
     ro_prompt_token_ids = pl_prompt_token_ids p,
     ro_extra_info = Some (case pl_extra_info p of None \<Rightarrow> []
        | Some d \<Rightarrow> map (\<lambda>kv. (fst kv, extra_item n i (snd kv))) d),
     ro_weight_version = pl_weight_version p,
     ro_report_metrics = Some (the (pl_report_metrics p) ! i)\<rparr>"

text \<open>\<open>zip\<close> over the ten lists stops at the shortest of them.\<close>

definition zip_length :: "rl_payload \<Rightarrow> nat" where
  "zip_length p = Min (set
     [length (the (pl_completions p)), length (the (pl_completed_conversations p)),
      length (the (pl_rewards p)), length (the (pl_advantages p)),
      length (the (pl_n_ignore_prefix_tokens p)), length (the (pl_filter_rewards p)),
      length (the (pl_completion_token_ids p)), length (the (pl_completion_logprobs p)),
      length (the (pl_report_metrics p)), length (the (pl_teacher_result_uuids p))])"

definition extract_one :: "bool \<Rightarrow> bool \<Rightarrow> rl_payload \<Rightarrow> py_error + rollout list" where
  "extract_one is_end is_validation p =
     bindR (if is_validation then Inr () else check_lengths p) (\<lambda>_.
     bindR (populate_for_none_fields p) (\<lambda>q.
       if pl_advantages q = None then Inl TypeError else
       let n = zip_length q; rs = map (mk_rollout q is_end n) [0..<n] in
       if \<forall>r \<in> set rs. 0 \<le> ro_prompt_idx r then Inr rs else Inl AssertionError))"

primrec extract_rollouts :: "rl_payload list \<Rightarrow> bool \<Rightarrow> bool \<Rightarrow> py_error + rollout list list" where
  "extract_rollouts [] is_end is_validation = Inr []"
| "extract_rollouts (p # ps) is_end is_validation =
     bindR (extract_one is_end is_validation p) (\<lambda>rs.
     bindR (extract_rollouts ps is_end is_validation) (\<lambda>rss. Inr (rs # rss)))"

section \<open>What extraction guarantees\<close>

lemma fill_simps [simp]: "fill None d = Some d" "fill (Some xs) d = Some xs"
  by (simp_all add: fill_def)

lemma length_fill:
  "(\<forall>ys. xs = Some ys \<longrightarrow> length ys = n) \<Longrightarrow> length (the (fill xs (replicate n d))) = n"
  by (cases xs) auto

lemma check_lengths_Inr: "check_lengths p = Inr () \<Longrightarrow>
  \<exists>cs rs as. pl_completions p = Some cs \<and> pl_rewards p = Some rs \<and> pl_advantages p = Some as
    \<and> length rs = length cs \<and> length as = length cs
    \<and> (\<forall>cc. pl_completed_conversations p = Some cc \<longrightarrow> length cc = length cs)
    \<and> (\<forall>ni. pl_n_ignore_prefix_tokens p = Some ni \<longrightarrow> length ni = length cs)"
  by (auto simp: check_lengths_def split: option.splits if_splits)

lemma extract_one_prompt_idx:
  assumes "extract_one e v p = Inr rs" and "r \<in> set rs"
  shows "ro_prompt_idx r = pl_prompt_idx p \<and> 0 \<le> ro_prompt_idx r
    \<and> ro_weight_version r = pl_weight_version p \<and> ro_is_end r = e"
proof -
  obtain q where q: "populate_for_none_fields p = Inr q"
    and rs: "rs = map (mk_rollout q e (zip_length q)) [0..<zip_length q]"
    and idx: "\<forall>r \<in> set rs. 0 \<le> ro_prompt_idx r"
    using assms(1) by (auto simp: extract_one_def Let_def split: if_splits elim!: bindR_InrE)
  from q have "pl_prompt_idx q = pl_prompt_idx p" "pl_weight_version q = pl_weight_version p"
    by (auto simp: populate_for_none_fields_def Let_def split: option.splits)
  with rs idx assms(2) show ?thesis
    by (auto simp: mk_rollout_def)
qed

text \<open>
  A training payload whose optional per-completion lists, where present, are as long as
  its completions is flattened without loss: one rollout per completion, in order.
\<close>

definition lists_match :: "rl_payload \<Rightarrow> bool" where
  "lists_match p \<longleftrightarrow> (\<forall>n. map_option length (pl_completions p) = Some n \<longrightarrow>
     (\<forall>xs. pl_filter_rewards p = Some xs \<longrightarrow> length xs = n) \<and>
     (\<forall>xs. pl_completion_token_ids p = Some xs \<longrightarrow> length xs = n) \<and>
     (\<forall>xs. pl_completion_logprobs p = Some xs \<longrightarrow> length xs = n) \<and>
     (\<forall>xs. pl_report_metrics p = Some xs \<longrightarrow> length xs = n) \<and>
     (\<forall>xs. pl_teacher_result_uuids p = Some xs \<longrightarrow> length xs = n))"

lemma zip_length_populated:
  assumes q: "populate_for_none_fields p = Inr q" and len: "check_lengths p = Inr ()"
    and "lists_match p"
  shows "zip_length q = length (the (pl_completions p))"
proof -
  obtain cs rs as where p: "pl_completions p = Some cs" "pl_rewards p = Some rs"
      "pl_advantages p = Some as" "length rs = length cs" "length as = length cs"
    and opt: "\<forall>cc. pl_completed_conversations p = Some cc \<longrightarrow> length cc = length cs"
      "\<forall>ni. pl_n_ignore_prefix_tokens p = Some ni \<longrightarrow> length ni = length cs"
    using check_lengths_Inr [OF len] by blast
  have q_def: "length (the (pl_completions q)) = length cs"
      "length (the (pl_completed_conversations q)) = length cs"
      "length (the (pl_rewards q)) = length cs" "length (the (pl_advantages q)) = length cs"
      "length (the (pl_n_ignore_prefix_tokens q)) = length cs"
      "length (the (pl_filter_rewards q)) = length cs"
      "length (the (pl_completion_token_ids q)) = length cs"
      "length (the (pl_completion_logprobs q)) = length cs"
      "length (the (pl_report_metrics q)) = length cs"
      "length (the (pl_teacher_result_uuids q)) = length cs"
    using q p opt assms(3)
    by (auto simp: populate_for_none_fields_def Let_def lists_match_def intro!: length_fill)
  then show ?thesis by (simp add: zip_length_def p)
qed

lemma extract_one_lossless:
  assumes ok: "extract_one e False p = Inr rs" and "lists_match p"
  shows "map ro_completion rs = the (pl_completions p)
    \<and> map ro_reward rs = the (pl_rewards p) \<and> map ro_advantage rs = the (pl_advantages p)"
proof -
  obtain q where len: "check_lengths p = Inr ()" and q: "populate_for_none_fields p = Inr q"
    and rs: "rs = map (mk_rollout q e (zip_length q)) [0..<zip_length q]"
    using ok by (auto simp: extract_one_def Let_def split: if_splits elim!: bindR_InrE)
  note n = zip_length_populated [OF q len assms(2)]
  obtain cs rws as where p: "pl_completions p = Some cs" "pl_rewards p = Some rws"
      "pl_advantages p = Some as" "length rws = length cs" "length as = length cs"
    using check_lengths_Inr [OF len] by blast
  have "pl_completions q = Some cs" "pl_rewards q = Some rws" "pl_advantages q = Some as"
    using q p by (auto simp: populate_for_none_fields_def fill_def Let_def)
  with n p show ?thesis
    by (auto simp: rs mk_rollout_def intro!: nth_equalityI)
qed

lemma extract_rollouts_Inr_iff:
  "extract_rollouts ps e v = Inr rss \<longleftrightarrow> list_all2 (\<lambda>p rs. extract_one e v p = Inr rs) ps rss"
proof (induction ps arbitrary: rss)
  case Nil
  then show ?case by auto
next
  case (Cons p ps)
  show ?case
    by (cases rss) (auto simp: bindR_Inr_iff Cons.IH)
qed

end
