(* ===== verification/Replica_Model.thy ===== *)
theory Replica_Model
  imports Schema
begin

text \<open>
  Registration requests and replicas: the mesh names and the validator of
  \<open>RegisterRequest\<close> (cosmos_rl/dispatcher/protocol.py), atoms, replica status and
  replicas (cosmos_rl/dispatcher/replica.py). A replica is complete once as many atoms
  arrived as the product of its group sizes. Lemmas: what the validator accepts, that
  atom keys are injective in the rank, that arrival keeps a replica well formed and
  never overshoots, and that looking an atom up by its mesh coordinates never succeeds.
\<close>

section \<open>Registration requests\<close>

definition MESH_NAMES :: "string list" where
  "MESH_NAMES = [''pp'', ''dp_shard'', ''cp'', ''tp'']"

abbreviation POLICY :: string where "POLICY \<equiv> ''POLICY''"
abbreviation ROLLOUT :: string where "ROLLOUT \<equiv> ''ROLLOUT''"
abbreviation REFERENCE :: string where "REFERENCE \<equiv> ''REFERENCE''"

definition Role_ALL :: "string list" where
  "Role_ALL = [POLICY, ROLLOUT, REFERENCE]"

record register_request =
  rq_replica_name :: string
  rq_role :: string
  rq_mesh_names :: "string list"
  rq_global_rank :: int
  rq_host_ip :: string
  rq_host_name :: string
  rq_ranks :: "int list"
  rq_group_size :: "int list"

definition original_map :: "register_request \<Rightarrow> (string, int \<times> int) dict" where
  "original_map rq = fold (\<lambda>(m, rg). dict_set m rg)
     (zip (rq_mesh_names rq) (zip (rq_ranks rq) (rq_group_size rq))) []"

definition validate_mesh_names :: "register_request \<Rightarrow> py_error + register_request" where
  "validate_mesh_names rq =
     (if \<not> (length (rq_mesh_names rq) = length (rq_ranks rq)
            \<and> length (rq_ranks rq) = length (rq_group_size rq)) then Inl AssertionError
      else if \<not> set (rq_mesh_names rq) \<subseteq> set MESH_NAMES then Inl AssertionError
      else if rq_role rq \<notin> set Role_ALL then Inl AssertionError
      else if rq_replica_name rq = [] then Inl AssertionError
      else if \<exists>m \<in> set MESH_NAMES. dict_get (original_map rq) m = None then Inl KeyError
      else Inr (rq\<lparr>rq_mesh_names := MESH_NAMES,
                   rq_ranks := map (\<lambda>m. fst (the (dict_get (original_map rq) m))) MESH_NAMES,
                   rq_group_size := map (\<lambda>m. snd (the (dict_get (original_map rq) m))) MESH_NAMES\<rparr>))"

lemma original_map_keys:
  assumes "length (rq_mesh_names rq) = length (rq_ranks rq)"
    and "length (rq_ranks rq) = length (rq_group_size rq)"
  shows "dict_get (original_map rq) m = None \<longleftrightarrow> m \<notin> set (rq_mesh_names rq)"
proof -
  have "set (dict_keys (original_map rq)) = set (rq_mesh_names rq)"
    using assms unfolding original_map_def pd.keys_fold_put
    by (simp add: dict_keys_def flip: set_map)
  then show ?thesis by (simp add: dict_get_None_keys)
qed

lemma validate_mesh_names_Inr_iff:
  "(\<exists>rq'. validate_mesh_names rq = Inr rq') \<longleftrightarrow>
     length (rq_mesh_names rq) = length (rq_ranks rq)
     \<and> length (rq_ranks rq) = length (rq_group_size rq)
     \<and> set (rq_mesh_names rq) = set MESH_NAMES
     \<and> rq_role rq \<in> set Role_ALL \<and> rq_replica_name rq \<noteq> []"
  by (auto simp: validate_mesh_names_def original_map_keys)

lemma validate_mesh_names_canonical:
  "validate_mesh_names rq = Inr rq' \<Longrightarrow> rq_mesh_names rq' = MESH_NAMES
     \<and> length (rq_ranks rq') = 4 \<and> length (rq_group_size rq') = 4
     \<and> rq_replica_name rq' = rq_replica_name rq \<and> rq_role rq' = rq_role rq"
  by (auto simp: validate_mesh_names_def MESH_NAMES_def split: if_splits)

lemma validate_mesh_names_entry:
  assumes ok: "validate_mesh_names rq = Inr rq'" and "distinct (rq_mesh_names rq)"
    and i: "i < length (rq_mesh_names rq)" and j: "j < length MESH_NAMES"
    and same: "rq_mesh_names rq ! i = MESH_NAMES ! j"
  shows "rq_ranks rq' ! j = rq_ranks rq ! i \<and> rq_group_size rq' ! j = rq_group_size rq ! i"
proof -
  let ?kvs = "zip (rq_mesh_names rq) (zip (rq_ranks rq) (rq_group_size rq))"
  have len: "length (rq_mesh_names rq) = length (rq_ranks rq)"
      "length (rq_ranks rq) = length (rq_group_size rq)"
    using ok by (auto simp: validate_mesh_names_def split: if_splits)
  have d: "distinct (map fst (rev ?kvs))"
    using assms(2) len by (simp add: rev_map [symmetric])
  have mem: "(rq_mesh_names rq ! i, rq_ranks rq ! i, rq_group_size rq ! i) \<in> set (rev ?kvs)"
    using i len by (auto simp: set_zip)
  have "map_of (rev ?kvs) (MESH_NAMES ! j) = Some (rq_ranks rq ! i, rq_group_size rq ! i)"
    using map_of_is_SomeI [OF d mem] same by simp
  then have "dict_get (original_map rq) (MESH_NAMES ! j)
      = Some (rq_ranks rq ! i, rq_group_size rq ! i)"
    by (simp add: original_map_def pd.get_fold_put)
  moreover have "rq_ranks rq' = map (\<lambda>m. fst (the (dict_get (original_map rq) m))) MESH_NAMES"
      "rq_group_size rq' = map (\<lambda>m. snd (the (dict_get (original_map rq) m))) MESH_NAMES"
    using ok by (auto simp: validate_mesh_names_def split: if_splits)
  ultimately show ?thesis
    using j by simp
qed

section \<open>Atoms\<close>

record atom =
  at_replica_name :: string
  at_ranks :: "int list"
  at_group_size :: "int list"
  at_global_rank :: int
  at_host_ip :: string
  at_host_name :: string
  at_trace_path :: "string option"
  at_rollout_queue :: "rollout list"

definition from_register_request :: "register_request \<Rightarrow> atom" where
  "from_register_request rq = \<lparr>at_replica_name = rq_replica_name rq, at_ranks = rq_ranks rq,
     at_group_size = rq_group_size rq, at_global_rank = rq_global_rank rq,
     at_host_ip = rq_host_ip rq, at_host_name = rq_host_name rq, at_trace_path = None,
     at_rollout_queue = []\<rparr>"

text \<open>\<open>xs[i]\<close> for a non-negative index.\<close>

definition nth_py :: "'a list \<Rightarrow> nat \<Rightarrow> py_error + 'a" where
  "nth_py xs i = (if i < length xs then Inr (xs ! i) else Inl IndexError)"

primrec index_of :: "'a \<Rightarrow> 'a list \<Rightarrow> nat" where
  "index_of x [] = 0"
| "index_of x (y # ys) = (if y = x then 0 else Suc (index_of x ys))"

definition tp_rank :: "atom \<Rightarrow> py_error + int" where
  "tp_rank a = nth_py (at_ranks a) (index_of ''tp'' MESH_NAMES)"

definition cp_rank :: "atom \<Rightarrow> py_error + int" where
  "cp_rank a = nth_py (at_ranks a) (index_of ''cp'' MESH_NAMES)"

definition pp_rank :: "atom \<Rightarrow> py_error + int" where
  "pp_rank a = nth_py (at_ranks a) (index_of ''pp'' MESH_NAMES)"

definition dp_shard_rank :: "atom \<Rightarrow> py_error + int" where
  "dp_shard_rank a = nth_py (at_ranks a) (index_of ''dp_shard'' MESH_NAMES)"

definition atom_str :: "atom \<Rightarrow> string" where
  "atom_str a = at_replica_name a @ ''_'' @ int_str (at_global_rank a)"

text \<open>\<open>tp_rank() == 0 and cp_rank() == 0 and pp_rank() == 0\<close>, evaluated left to right.\<close>

definition dp_shard_master :: "atom \<Rightarrow> py_error + bool" where
  "dp_shard_master a =
     bindR (tp_rank a) (\<lambda>t. if t \<noteq> 0 then Inr False else
     bindR (cp_rank a) (\<lambda>c. if c \<noteq> 0 then Inr False else
     bindR (pp_rank a) (\<lambda>p. Inr (p = 0))))"

definition atom_put_rollout :: "rollout \<Rightarrow> atom \<Rightarrow> py_error + atom" where
  "atom_put_rollout r a = bindR (dp_shard_master a) (\<lambda>m.
     if m then Inr (a\<lparr>at_rollout_queue := at_rollout_queue a @ [r]\<rparr>) else Inl AssertionError)"

definition atom_fetch_rollouts :: "atom \<Rightarrow> py_error + (rollout list \<times> atom)" where
  "atom_fetch_rollouts a = bindR (dp_shard_master a) (\<lambda>m.
     if m then Inr (at_rollout_queue a, a\<lparr>at_rollout_queue := []\<rparr>) else Inl AssertionError)"

lemma atom_put_fetch:
  assumes "atom_put_rollout r a = Inr a'"
  shows "atom_fetch_rollouts a' = Inr (at_rollout_queue a @ [r], a\<lparr>at_rollout_queue := []\<rparr>)"
proof -
  have m: "dp_shard_master a = Inr True"
    and a': "a' = a\<lparr>at_rollout_queue := at_rollout_queue a @ [r]\<rparr>"
    using assms by (auto simp: atom_put_rollout_def split: if_splits elim!: bindR_InrE)
  have "dp_shard_master a' = dp_shard_master a"
    by (simp add: a' dp_shard_master_def tp_rank_def cp_rank_def pp_rank_def
        cong del: if_weak_cong)
  with m show ?thesis by (simp add: atom_fetch_rollouts_def a')
qed

lemma atom_str_inj:
  "at_replica_name a = at_replica_name b \<Longrightarrow> atom_str a = atom_str b
     \<longleftrightarrow> at_global_rank a = at_global_rank b"
  by (auto simp: atom_str_def dest: int_str_inj)

section \<open>Replicas\<close>

record replica_status =
  heartbeat_timestamp :: rat
  nccl_error_timestamp :: "rat option"
  mesh_rank :: int
  ended :: bool

definition init_status :: "rat \<Rightarrow> replica_status" where
  "init_status now = \<lparr>heartbeat_timestamp = now, nccl_error_timestamp = None,
     mesh_rank = -1, ended = False\<rparr>"

record sub_profiler_config =
  do_profile :: bool
  active_steps :: int
  warmup_steps :: int
  wait_steps :: int
  rank_filter :: "int list"
  record_shape :: bool
  profile_memory :: bool
  with_stack :: bool
  with_modules :: bool

definition default_profiler :: sub_profiler_config where
  "default_profiler = \<lparr>do_profile = False, active_steps = 1, warmup_steps = 1,
     wait_steps = 1, rank_filter = [], record_shape = False, profile_memory = False, with_stack = False, with_modules = False\<rparr>"

record replica =
  rp_name :: string
  rp_role :: string
  rp_atoms :: "(string, atom) dict"
  weights_loaded_in_view_of_command :: bool
  start_time :: int
  rp_status :: replica_status
  sub_profiler_cfg :: sub_profiler_config

definition new_replica :: "string \<Rightarrow> string \<Rightarrow> atom list \<Rightarrow> rat \<Rightarrow> replica" where
  "new_replica nm rl as now = \<lparr>rp_name = nm, rp_role = rl,
     rp_atoms = fold (\<lambda>(k, a). dict_set k a) (map (\<lambda>a. (atom_str a, a)) as) [],
     weights_loaded_in_view_of_command = False, start_time = -1,
     rp_status = init_status now, sub_profiler_cfg = default_profiler\<rparr>"

definition in_mesh :: "replica \<Rightarrow> bool" where
  "in_mesh r \<longleftrightarrow> 0 \<le> mesh_rank (rp_status r)"

text \<open>
  \<open>n_atoms_per_replica\<close> and \<open>all_atoms_arrived\<close> assert that the replica has an atom.
  \<open>arrived\<close> is the latter's value where that holds; replicas are created with one
  atom and atoms are never removed, so it always does (\<open>arrive_wf\<close> below).
\<close>

definition n_atoms_per_replica :: "replica \<Rightarrow> py_error + int" where
  "n_atoms_per_replica r = (case rp_atoms r of
     [] \<Rightarrow> Inl AssertionError | p # _ \<Rightarrow> Inr (prod_list (at_group_size (snd p))))"

definition all_atoms_arrived :: "replica \<Rightarrow> py_error + bool" where
  "all_atoms_arrived r = (case rp_atoms r of
     [] \<Rightarrow> Inl AssertionError
   | p # _ \<Rightarrow> Inr (int (length (rp_atoms r)) = prod_list (at_group_size (snd p))))"

definition arrived :: "replica \<Rightarrow> bool" where
  "arrived r \<longleftrightarrow> all_atoms_arrived r = Inr True"

text \<open>\<open>str(ranks)\<close> of a list of integers, as \<open>get_atom\<close> uses it for its key.\<close>

fun list_str_tail :: "int list \<Rightarrow> string" where
  "list_str_tail [] = '']''"
| "list_str_tail (x # xs) = '', '' @ int_str x @ list_str_tail xs"

fun list_str :: "int list \<Rightarrow> string" where
  "list_str [] = ''[]''"
| "list_str (x # xs) = ''['' @ int_str x @ list_str_tail xs"

definition get_atom :: "int list \<Rightarrow> replica \<Rightarrow> py_error + atom" where
  "get_atom rks r =
     (if length rks \<noteq> length MESH_NAMES then Inl AssertionError
      else case dict_get (rp_atoms r) (list_str rks) of None \<Rightarrow> Inl KeyError | Some a \<Rightarrow> Inr a)"

text \<open>The size of one mesh dimension, read off the group sizes in mesh order.\<close>

definition group_sizes_consistent :: "int list \<Rightarrow> nat \<Rightarrow> bool" where
  "group_sizes_consistent gs n \<longleftrightarrow>
     gs ! index_of ''tp'' MESH_NAMES * gs ! index_of ''cp'' MESH_NAMES
     * gs ! index_of ''dp_shard'' MESH_NAMES * gs ! index_of ''pp'' MESH_NAMES = int n"

definition arrive :: "atom \<Rightarrow> replica \<Rightarrow> replica outcome" where
  "arrive a r =
     bindR (py_assert (dict_get (rp_atoms r) (atom_str a) = None) r) (\<lambda>r.
     bindR (case rp_atoms r of [] \<Rightarrow> Inr r
            | p # _ \<Rightarrow> py_assert (at_group_size a = at_group_size (snd p)) r) (\<lambda>r.
     let r = r\<lparr>rp_atoms := dict_set (atom_str a) a (rp_atoms r)\<rparr> in
     if rp_role r = POLICY \<and> arrived r then
       let gs = at_group_size (snd (hd (rp_atoms r))) in
       bindR (py_assert (length gs = length MESH_NAMES) r)
         (py_assert (group_sizes_consistent gs (length (rp_atoms r))))
     else Inr r))"

definition find_atom :: "int \<Rightarrow> replica \<Rightarrow> atom option" where
  "find_atom rank r = dict_get (rp_atoms r) (rp_name r @ ''_'' @ int_str rank)"

text \<open>The trace path is stored in the atom found; with no such atom the attribute
  assignment on \<open>None\<close> raises.\<close>

definition replica_set_trace_path :: "string \<Rightarrow> int \<Rightarrow> replica \<Rightarrow> py_error + (string \<times> replica)" where
  "replica_set_trace_path path rank r =
     (case find_atom rank r of
        None \<Rightarrow> Inl AttributeError
      | Some a \<Rightarrow> Inr (atom_str a, r\<lparr>rp_atoms :=
          dict_upd (rp_name r @ ''_'' @ int_str rank) (at_trace_path_update (\<lambda>_. Some path)) (rp_atoms r)\<rparr>))"

section \<open>Properties of replicas\<close>

text \<open>Well-formedness: at least one atom, every atom of this replica under its own key,
  and one group size shared by all, of the mesh's dimension.\<close>

definition wf_replica :: "replica \<Rightarrow> bool" where
  "wf_replica r \<longleftrightarrow> rp_atoms r \<noteq> [] \<and> wf_dict (rp_atoms r)
     \<and> length (at_group_size (snd (hd (rp_atoms r)))) = length MESH_NAMES
     \<and> (\<forall>(k, a) \<in> set (rp_atoms r). k = atom_str a \<and> at_replica_name a = rp_name r
          \<and> at_group_size a = at_group_size (snd (hd (rp_atoms r))))"

lemma arrived_wf: "wf_replica r \<Longrightarrow>
  arrived r \<longleftrightarrow> int (length (rp_atoms r)) = prod_list (at_group_size (snd (hd (rp_atoms r))))"
  by (auto simp: wf_replica_def arrived_def all_atoms_arrived_def split: list.splits)

lemma wf_replica_hd:
  "wf_replica r \<Longrightarrow> length (at_group_size (snd (hd (rp_atoms r)))) = length MESH_NAMES"
  by (simp add: wf_replica_def)

lemma wf_new_replica:
  assumes "length (at_group_size a) = length MESH_NAMES"
  shows "wf_replica (new_replica (at_replica_name a) rl [a] now)"
  using assms by (simp add: wf_replica_def new_replica_def wf_dict_def)

lemma mesh_indices:
  "index_of ''pp'' MESH_NAMES = 0" "index_of ''dp_shard'' MESH_NAMES = 1"
  "index_of ''cp'' MESH_NAMES = 2" "index_of ''tp'' MESH_NAMES = 3"
  by (simp_all add: MESH_NAMES_def)

lemma group_sizes_consistent_prod:
  assumes "length gs = length MESH_NAMES"
  shows "group_sizes_consistent gs n \<longleftrightarrow> prod_list gs = int n"
proof -
  obtain p d c t where gs: "gs = [p, d, c, t]"
    using assms by (auto simp: MESH_NAMES_def length_Suc_conv)
  show ?thesis
    by (simp add: gs group_sizes_consistent_def mesh_indices mult.commute mult.left_commute)
qed

text \<open>A new atom of a well-formed replica arrives without any assertion failing, and the
  replica stays well formed with one more atom.\<close>

lemma arrive_wf:
  assumes wf: "wf_replica r" and new: "dict_get (rp_atoms r) (atom_str a) = None"
    and name: "at_replica_name a = rp_name r"
    and gs: "at_group_size a = at_group_size (snd (hd (rp_atoms r)))"
  defines "r' \<equiv> r\<lparr>rp_atoms := rp_atoms r @ [(atom_str a, a)]\<rparr>"
  shows "arrive a r = Inr r' \<and> wf_replica r'"
proof -
  obtain p ps where atoms: "rp_atoms r = p # ps"
    using wf by (cases "rp_atoms r") (auto simp: wf_replica_def)
  have wf': "wf_replica r'"
  proof -
    have "wf_dict (dict_set (atom_str a) a (rp_atoms r))"
      using wf by (simp add: wf_replica_def)
    then have "wf_dict (rp_atoms r @ [(atom_str a, a)])"
      by (simp add: dict_set_new [OF new])
    moreover have "hd (rp_atoms r') = hd (rp_atoms r)"
      by (simp add: r'_def atoms)
    ultimately show ?thesis
      using wf name gs wf_replica_hd [OF wf]
      unfolding wf_replica_def r'_def by simp
  qed
  have hd: "hd (rp_atoms r') = p" by (simp add: r'_def atoms)
  have set: "dict_set (atom_str a) a (rp_atoms r) = rp_atoms r @ [(atom_str a, a)]"
    using new by (rule dict_set_new)
  have len: "length (at_group_size (snd p)) = length MESH_NAMES"
    using wf_replica_hd [OF wf] by (simp add: atoms)
  have consistent: "arrived r' \<Longrightarrow>
      group_sizes_consistent (at_group_size (snd p)) (length (rp_atoms r'))"
    using arrived_wf [OF wf'] hd by (simp add: group_sizes_consistent_prod [OF len])
  have first: "(case rp_atoms r of [] \<Rightarrow> Inr r
      | p # _ \<Rightarrow> py_assert (at_group_size a = at_group_size (snd p)) r) = Inr r"
    using gs by (simp add: atoms)
  have "arrive a r = (if rp_role r' = POLICY \<and> arrived r' then
      bindR (py_assert (length (at_group_size (snd p)) = length MESH_NAMES) r')
        (py_assert (group_sizes_consistent (at_group_size (snd p)) (length (rp_atoms r'))))
      else Inr r')"
    unfolding arrive_def Let_def new first py_assert_simps bindR_simps simp_thms set
    using hd by (simp add: r'_def)
  with consistent len have "arrive a r = Inr r'" by simp
  with wf' show ?thesis by blast
qed

lemma list_str_last: "last (list_str rks) = CHR '']''"
proof -
  have "last (list_str_tail xs) = CHR '']'' \<and> list_str_tail xs \<noteq> []" for xs
    by (induction xs) auto
  then show ?thesis by (cases rks) auto
qed

lemma atom_str_last: "\<exists>d < 10. last (atom_str a) = digit_char d"
proof -
  have "int_str (at_global_rank a) \<noteq> []" by (simp add: int_str_def)
  then show ?thesis
    using int_str_last [of "at_global_rank a"] by (simp add: atom_str_def)
qed

lemma atom_str_not_list_str: "atom_str a \<noteq> list_str rks"
proof
  assume eq: "atom_str a = list_str rks"
  obtain d where d: "d < 10" "last (atom_str a) = digit_char d"
    using atom_str_last [of a] by auto
  then have "digit_char d = CHR '']''"
    using list_str_last [of rks] eq by simp
  with d(1) show False by simp
qed

lemma get_atom_never_finds: "wf_replica r \<Longrightarrow> get_atom rks r \<noteq> Inr a"
proof
  assume wf: "wf_replica r" and "get_atom rks r = Inr a"
  then have "dict_get (rp_atoms r) (list_str rks) = Some a"
    by (auto simp: get_atom_def split: if_splits option.splits)
  then have "(list_str rks, a) \<in> set (rp_atoms r)"
    by (simp add: dict_get_def map_of_SomeD)
  with wf have "list_str rks = atom_str a"
    by (auto simp: wf_replica_def)
  then show False using atom_str_not_list_str [of a rks] by simp
qed

lemma find_atom_wf:
  assumes "wf_replica r" and "(k, a) \<in> set (rp_atoms r)"
  shows "find_atom (at_global_rank a) r = Some a"
proof -
  have k: "k = atom_str a" and n: "at_replica_name a = rp_name r"
    using assms by (auto simp: wf_replica_def)
  have "dict_get (rp_atoms r) k = Some a"
    using assms by (auto simp: wf_replica_def wf_dict_def dict_get_def)
  then show ?thesis
    by (simp add: find_atom_def k atom_str_def n)
qed

end
