(* ===== verification/Command_Model.thy ===== *)
theory Command_Model
  imports Replica_Model
begin

text \<open>
  The commands the controller publishes to its replicas
  (cosmos_rl/dispatcher/command.py): their fields, the dictionary they are packed as, the
  class dispatch of \<open>deserialize\<close>, and the \<open>trigger\<close> class methods, which publish a
  command and mutate the replicas they are given. The redis command and rollout streams
  (cosmos_rl/utils/redis_stream.py) are append-only logs in the \<open>bus\<close> record, next to the
  class attribute of the weight-sync check and the source of fresh uuids. Lemmas: the
  round trip through the dictionary, and for every trigger who receives what and which
  replica flags change.
\<close>

section \<open>Commands\<close>

record profile_args =
  pa_do_profile :: "bool option"
  pa_active_steps :: "int option"
  pa_rank_filter :: "int list option"
  pa_record_shape :: "bool option"
  pa_profile_memory :: "bool option"
  pa_with_stack :: "bool option"
  pa_with_modules :: "bool option"

definition no_profile :: profile_args where
  "no_profile = \<lparr>pa_do_profile = None, pa_active_steps = None, pa_rank_filter = None,
     pa_record_shape = None, pa_profile_memory = None, pa_with_stack = None,
     pa_with_modules = None\<rparr>"

record p2r_args =
  p2r_src :: string
  p2r_dst :: string
  p2r_src_size :: int
  p2r_dst_size :: int
  p2r_do_weight_sync_check :: bool
  p2r_trainable_only :: bool
  p2r_weight_step :: "int option"
  p2r_total_steps :: "int option"

record r2r_args =
  r2r_src :: string
  r2r_dsts :: "string list"
  r2r_weight_step :: "int option"
  r2r_total_steps :: "int option"
  r2r_trainable_only :: bool

record data_fetch_args =
  dfa_replica_name :: string
  dfa_items_count :: int
  dfa_global_step :: "int option"
  dfa_total_steps :: "int option"
  dfa_remain_samples_num :: int
  dfa_do_save :: bool
  dfa_profile :: profile_args

record training_complete_args =
  tca_replica_name :: string
  tca_global_step :: int
  tca_total_steps :: int
  tca_final_step :: int
  tca_checkpoint_total_steps :: int
  tca_remain_samples_num :: int
  tca_do_save :: bool
  tca_profile :: profile_args

datatype command_body =
    WeightResume string
  | BuildMesh "(string, int) dict"
  | PolicyToPolicyBroadcast string "string list" "int option"
  | PolicyToPolicyUnicast string string "int option"
  | PolicyToRolloutUnicast p2r_args
  | RolloutToRolloutBroadcast r2r_args
  | Stop string
  | DataFetch data_fetch_args
  | TrainingComplete training_complete_args

record command =
  uuid_value :: string
  cmd_body :: command_body

datatype command_scope = GLOBAL | LOCAL

fun scope_int :: "command_scope \<Rightarrow> int" where
  "scope_int GLOBAL = 0"
| "scope_int LOCAL = 1"

fun command_type :: "command_body \<Rightarrow> string" where
  "command_type (WeightResume _) = ''WEIGHT_RESUME''"
| "command_type (BuildMesh _) = ''BUILD_MESH''"
| "command_type (PolicyToPolicyBroadcast _ _ _) = ''POLICY_TO_POLICY_BROADCAST''"
| "command_type (PolicyToPolicyUnicast _ _ _) = ''POLICY_TO_POLICY_UNICAST''"
| "command_type (PolicyToRolloutUnicast _) = ''POLICY_TO_ROLLOUT_UNICAST''"
| "command_type (RolloutToRolloutBroadcast _) = ''ROLLOUT_TO_ROLLOUT_BROADCAST''"
| "command_type (Stop _) = ''STOP''"
| "command_type (DataFetch _) = ''DATA_FETCH''"
| "command_type (TrainingComplete _) = ''TRAINING_COMPLETE''"

fun command_scope_of :: "command_body \<Rightarrow> command_scope" where
  "command_scope_of (WeightResume _) = LOCAL"
| "command_scope_of (BuildMesh _) = GLOBAL"
| "command_scope_of (PolicyToPolicyBroadcast _ _ _) = GLOBAL"
| "command_scope_of (PolicyToPolicyUnicast _ _ _) = LOCAL"
| "command_scope_of (PolicyToRolloutUnicast _) = LOCAL"
| "command_scope_of (RolloutToRolloutBroadcast _) = GLOBAL"
| "command_scope_of (Stop _) = GLOBAL"
| "command_scope_of (DataFetch _) = LOCAL"
| "command_scope_of (TrainingComplete _) = LOCAL"

text \<open>\<open>TrainingCompleteCommand.__init__\<close> defaults its last two fields.\<close>

definition training_complete_init ::
  "string \<Rightarrow> int \<Rightarrow> int \<Rightarrow> int \<Rightarrow> bool \<Rightarrow> profile_args \<Rightarrow> int option \<Rightarrow> int option \<Rightarrow> training_complete_args" where
  "training_complete_init nm gs ts remain sv prof final ckpt = \<lparr>
     tca_replica_name = nm, tca_global_step = gs, tca_total_steps = ts,
     tca_final_step = (case final of None \<Rightarrow> gs - 1 | Some f \<Rightarrow> f),
     tca_checkpoint_total_steps = (case ckpt of None \<Rightarrow> ts | Some c \<Rightarrow> c),
     tca_remain_samples_num = remain, tca_do_save = sv, tca_profile = prof\<rparr>"

text \<open>\<open>replica_should_stop\<close> of the three command classes that define it.\<close>

definition step_should_stop :: "int option \<Rightarrow> int option \<Rightarrow> bool" where
  "step_should_stop step tot = (case (step, tot) of (Some s, Some t) \<Rightarrow> t \<le> s | _ \<Rightarrow> False)"

fun replica_should_stop :: "command_body \<Rightarrow> bool" where
  "replica_should_stop (RolloutToRolloutBroadcast a) =
     step_should_stop (r2r_weight_step a) (r2r_total_steps a)"
| "replica_should_stop (DataFetch a) = step_should_stop (dfa_global_step a) (dfa_total_steps a)"
| "replica_should_stop (TrainingComplete a) =
     step_should_stop (Some (tca_global_step a)) (Some (tca_total_steps a))"
| "replica_should_stop _ = False"

section \<open>Packing\<close>

definition popt :: "('a \<Rightarrow> pyval) \<Rightarrow> 'a option \<Rightarrow> pyval" where
  "popt f x = (case x of None \<Rightarrow> PNone | Some y \<Rightarrow> f y)"

definition pints :: "int list \<Rightarrow> pyval" where
  "pints xs = PList (map PInt xs)"

definition pstrs :: "string list \<Rightarrow> pyval" where
  "pstrs xs = PList (map PStr xs)"

definition profile_dict :: "profile_args \<Rightarrow> pydict" where
  "profile_dict a =
     [(''do_profile'', popt PBool (pa_do_profile a)),
      (''active_steps'', popt PInt (pa_active_steps a)),
      (''rank_filter'', popt pints (pa_rank_filter a)),
      (''record_shape'', popt PBool (pa_record_shape a)),
      (''profile_memory'', popt PBool (pa_profile_memory a)),
      (''with_stack'', popt PBool (pa_with_stack a)),
      (''with_modules'', popt PBool (pa_with_modules a))]"

text \<open>The instance attributes in the order the constructors assign them.\<close>

fun body_dict :: "command_body \<Rightarrow> pydict" where
  "body_dict (WeightResume nm) = [(''replica_name'', PStr nm)]"
| "body_dict (BuildMesh d) =
     [(''replica_name_to_rank'', PDict (map (\<lambda>(k, v). (k, PInt v)) d))]"
| "body_dict (PolicyToPolicyBroadcast s ds t) =
     [(''src_replica_name'', PStr s), (''dst_replica_names'', pstrs ds),
      (''total_steps'', popt PInt t)]"
| "body_dict (PolicyToPolicyUnicast s d t) =
     [(''src_replica_name'', PStr s), (''dst_replica_name'', PStr d),
      (''total_steps'', popt PInt t)]"
| "body_dict (PolicyToRolloutUnicast a) =
     [(''src_replica_name'', PStr (p2r_src a)), (''dst_replica_name'', PStr (p2r_dst a)),
      (''src_replica_size'', PInt (p2r_src_size a)), (''dst_replica_size'', PInt (p2r_dst_size a)),
      (''do_weight_sync_check'', PBool (p2r_do_weight_sync_check a)),
      (''trainable_only'', PBool (p2r_trainable_only a)),
      (''weight_step'', popt PInt (p2r_weight_step a)),
      (''total_steps'', popt PInt (p2r_total_steps a))]"
| "body_dict (RolloutToRolloutBroadcast a) =
     [(''src_replica_name'', PStr (r2r_src a)), (''dst_replica_names'', pstrs (r2r_dsts a)),
      (''weight_step'', popt PInt (r2r_weight_step a)),
      (''total_steps'', popt PInt (r2r_total_steps a)),
      (''trainable_only'', PBool (r2r_trainable_only a))]"
| "body_dict (Stop nm) = [(''replica_name'', PStr nm)]"
| "body_dict (DataFetch a) =
     [(''replica_name'', PStr (dfa_replica_name a)), (''items_count'', PInt (dfa_items_count a)),
      (''global_step'', popt PInt (dfa_global_step a)),
      (''total_steps'', popt PInt (dfa_total_steps a)),
      (''remain_samples_num'', PInt (dfa_remain_samples_num a)),
      (''do_save'', PBool (dfa_do_save a))] @ profile_dict (dfa_profile a)"
| "body_dict (TrainingComplete a) =
     [(''replica_name'', PStr (tca_replica_name a)), (''global_step'', PInt (tca_global_step a)),
      (''total_steps'', PInt (tca_total_steps a)), (''final_step'', PInt (tca_final_step a)),
      (''checkpoint_total_steps'', PInt (tca_checkpoint_total_steps a)),
      (''remain_samples_num'', PInt (tca_remain_samples_num a)),
      (''do_save'', PBool (tca_do_save a))] @ profile_dict (tca_profile a)"

definition serialize :: "command \<Rightarrow> pydict" where
  "serialize c = [(''uuid_value'', PStr (uuid_value c)),
     (''scope'', PInt (scope_int (command_scope_of (cmd_body c)))),
     (''command_type'', PStr (command_type (cmd_body c)))] @ body_dict (cmd_body c)"

section \<open>Unpacking\<close>

text \<open>
  \<open>cls(**dict_v)\<close>: the keys must be parameters of the constructor or of
  \<open>Command.__init__\<close>, and every parameter without default must be present; both failures
  are a \<open>TypeError\<close>. Values are read at their declared types; \<open>None\<close> stands for a
  dictionary whose values have other types, which the constructors store unchecked.
\<close>

fun as_str :: "pyval \<Rightarrow> string option" where
  "as_str (PStr s) = Some s"
| "as_str _ = None"

fun as_int :: "pyval \<Rightarrow> int option" where
  "as_int (PInt i) = Some i"
| "as_int _ = None"

fun as_bool :: "pyval \<Rightarrow> bool option" where
  "as_bool (PBool b) = Some b"
| "as_bool _ = None"

fun as_list :: "(pyval \<Rightarrow> 'a option) \<Rightarrow> pyval \<Rightarrow> 'a list option" where
  "as_list f (PList vs) = those (map f vs)"
| "as_list f _ = None"

fun as_opt :: "(pyval \<Rightarrow> 'a option) \<Rightarrow> pyval \<Rightarrow> 'a option option" where
  "as_opt f PNone = Some None"
| "as_opt f v = map_option Some (f v)"

fun as_int_dict :: "pyval \<Rightarrow> (string, int) dict option" where
  "as_int_dict (PDict kvs) = those (map (\<lambda>(k, v). map_option (Pair k) (as_int v)) kvs)"
| "as_int_dict _ = None"

text \<open>A field with a default: absent means the default.\<close>

definition field_or :: "'a \<Rightarrow> (pyval \<Rightarrow> 'a option) \<Rightarrow> pydict \<Rightarrow> string \<Rightarrow> 'a option" where
  "field_or d f dict k = (case dict_get dict k of None \<Rightarrow> Some d | Some v \<Rightarrow> f v)"

definition field :: "(pyval \<Rightarrow> 'a option) \<Rightarrow> pydict \<Rightarrow> string \<Rightarrow> 'a option" where
  "field f dict k = Option.bind (dict_get dict k) f"

definition base_params :: "string list" where
  "base_params = [''scope'', ''command_type'', ''uuid_value'']"

definition profile_params :: "string list" where
  "profile_params = [''do_profile'', ''active_steps'', ''rank_filter'', ''record_shape'',
     ''profile_memory'', ''with_stack'', ''with_modules'']"

definition profile_from :: "pydict \<Rightarrow> profile_args option" where
  "profile_from d =
     Option.bind (field_or None (as_opt as_bool) d ''do_profile'') (\<lambda>a.
     Option.bind (field_or None (as_opt as_int) d ''active_steps'') (\<lambda>b.
     Option.bind (field_or None (as_opt (as_list as_int)) d ''rank_filter'') (\<lambda>c.
     Option.bind (field_or None (as_opt as_bool) d ''record_shape'') (\<lambda>e.
     Option.bind (field_or None (as_opt as_bool) d ''profile_memory'') (\<lambda>f.
     Option.bind (field_or None (as_opt as_bool) d ''with_stack'') (\<lambda>g.
     Option.bind (field_or None (as_opt as_bool) d ''with_modules'') (\<lambda>h.
       Some \<lparr>pa_do_profile = a, pa_active_steps = b, pa_rank_filter = c, pa_record_shape = e,
         pa_profile_memory = f, pa_with_stack = g, pa_with_modules = h\<rparr>)))))))"

text \<open>Required and optional parameters of the class a command type selects.\<close>

definition params_of :: "string \<Rightarrow> (string list \<times> string list) option" where
  "params_of t =
     (if t = ''WEIGHT_RESUME'' then Some ([''replica_name''], [])
      else if t = ''BUILD_MESH'' then Some ([''replica_name_to_rank''], [])
      else if t = ''POLICY_TO_POLICY_BROADCAST'' then
        Some ([''src_replica_name'', ''dst_replica_names''], [''total_steps''])
      else if t = ''POLICY_TO_POLICY_UNICAST'' then
        Some ([''src_replica_name'', ''dst_replica_name''], [''total_steps''])
      else if t = ''POLICY_TO_ROLLOUT_UNICAST'' then
        Some ([''src_replica_name'', ''dst_replica_name'', ''src_replica_size'', ''dst_replica_size''],
              [''do_weight_sync_check'', ''trainable_only'', ''weight_step'', ''total_steps''])
      else if t = ''ROLLOUT_TO_ROLLOUT_BROADCAST'' then
        Some ([''src_replica_name'', ''dst_replica_names'', ''weight_step'', ''total_steps'',
               ''trainable_only''], [])
      else if t = ''DATA_FETCH'' then
        Some ([''replica_name'', ''items_count'', ''global_step'', ''total_steps'',
               ''remain_samples_num''], ''do_save'' # profile_params)
      else if t = ''TRAINING_COMPLETE'' then
        Some ([''replica_name'', ''global_step'', ''total_steps'', ''remain_samples_num''],
              ''do_save'' # profile_params @ [''final_step'', ''checkpoint_total_steps''])
      else if t = ''STOP'' then Some ([''replica_name''], [])
      else None)"

definition body_from :: "string \<Rightarrow> pydict \<Rightarrow> command_body option" where
  "body_from t d =
     (if t = ''WEIGHT_RESUME'' then map_option WeightResume (field as_str d ''replica_name'')
      else if t = ''BUILD_MESH'' then map_option BuildMesh (field as_int_dict d ''replica_name_to_rank'')
      else if t = ''POLICY_TO_POLICY_BROADCAST'' then
        Option.bind (field as_str d ''src_replica_name'') (\<lambda>s.
        Option.bind (field (as_list as_str) d ''dst_replica_names'') (\<lambda>ds.
        Option.bind (field_or None (as_opt as_int) d ''total_steps'') (\<lambda>ts.
          Some (PolicyToPolicyBroadcast s ds ts))))
      else if t = ''POLICY_TO_POLICY_UNICAST'' then
        Option.bind (field as_str d ''src_replica_name'') (\<lambda>s.
        Option.bind (field as_str d ''dst_replica_name'') (\<lambda>ds.
        Option.bind (field_or None (as_opt as_int) d ''total_steps'') (\<lambda>ts.
          Some (PolicyToPolicyUnicast s ds ts))))
      else if t = ''POLICY_TO_ROLLOUT_UNICAST'' then
        Option.bind (field as_str d ''src_replica_name'') (\<lambda>s.
        Option.bind (field as_str d ''dst_replica_name'') (\<lambda>ds.
        Option.bind (field as_int d ''src_replica_size'') (\<lambda>ss.
        Option.bind (field as_int d ''dst_replica_size'') (\<lambda>dz.
        Option.bind (field_or False as_bool d ''do_weight_sync_check'') (\<lambda>ck.
        Option.bind (field_or False as_bool d ''trainable_only'') (\<lambda>tr.
        Option.bind (field_or None (as_opt as_int) d ''weight_step'') (\<lambda>ws.
        Option.bind (field_or None (as_opt as_int) d ''total_steps'') (\<lambda>ts.
          Some (PolicyToRolloutUnicast \<lparr>p2r_src = s, p2r_dst = ds, p2r_src_size = ss,
            p2r_dst_size = dz, p2r_do_weight_sync_check = ck, p2r_trainable_only = tr,
            p2r_weight_step = ws, p2r_total_steps = ts\<rparr>)))))))))
      else if t = ''ROLLOUT_TO_ROLLOUT_BROADCAST'' then
        Option.bind (field as_str d ''src_replica_name'') (\<lambda>s.
        Option.bind (field (as_list as_str) d ''dst_replica_names'') (\<lambda>ds.
        Option.bind (field (as_opt as_int) d ''weight_step'') (\<lambda>ws.
        Option.bind (field (as_opt as_int) d ''total_steps'') (\<lambda>ts.
        Option.bind (field as_bool d ''trainable_only'') (\<lambda>tr.
          Some (RolloutToRolloutBroadcast \<lparr>r2r_src = s, r2r_dsts = ds, r2r_weight_step = ws,
            r2r_total_steps = ts, r2r_trainable_only = tr\<rparr>))))))
      else if t = ''DATA_FETCH'' then
        Option.bind (field as_str d ''replica_name'') (\<lambda>n.
        Option.bind (field as_int d ''items_count'') (\<lambda>ic.
        Option.bind (field (as_opt as_int) d ''global_step'') (\<lambda>gs.
        Option.bind (field (as_opt as_int) d ''total_steps'') (\<lambda>ts.
        Option.bind (field as_int d ''remain_samples_num'') (\<lambda>rm.
        Option.bind (field_or False as_bool d ''do_save'') (\<lambda>sv.
        Option.bind (profile_from d) (\<lambda>pr.
          Some (DataFetch \<lparr>dfa_replica_name = n, dfa_items_count = ic, dfa_global_step = gs,
            dfa_total_steps = ts, dfa_remain_samples_num = rm, dfa_do_save = sv,
            dfa_profile = pr\<rparr>))))))))
      else if t = ''TRAINING_COMPLETE'' then
        Option.bind (field as_str d ''replica_name'') (\<lambda>n.
        Option.bind (field as_int d ''global_step'') (\<lambda>gs.
        Option.bind (field as_int d ''total_steps'') (\<lambda>ts.
        Option.bind (field as_int d ''remain_samples_num'') (\<lambda>rm.
        Option.bind (field_or False as_bool d ''do_save'') (\<lambda>sv.
        Option.bind (profile_from d) (\<lambda>pr.
        Option.bind (field_or None (as_opt as_int) d ''final_step'') (\<lambda>fs.
        Option.bind (field_or None (as_opt as_int) d ''checkpoint_total_steps'') (\<lambda>ct.
          Some (TrainingComplete (training_complete_init n gs ts rm sv pr fs ct))))))))))
      else if t = ''STOP'' then map_option Stop (field as_str d ''replica_name'')
      else None)"

text \<open>\<open>Command.deserialize\<close>, with \<open>fresh\<close> the uuid drawn when the dictionary has none.\<close>

definition deserialize :: "string \<Rightarrow> pydict \<Rightarrow> (py_error + command) option" where
  "deserialize fresh d =
     (case dict_get d ''command_type'' of
        None \<Rightarrow> Some (Inl KeyError)
      | Some tv \<Rightarrow> Option.bind (as_str tv) (\<lambda>t.
          case params_of t of
            None \<Rightarrow> Some (Inl ValueError)
          | Some (req, opt) \<Rightarrow>
              if \<not> set (dict_keys d) \<subseteq> set (base_params @ req @ opt)
                 \<or> \<not> set req \<subseteq> set (dict_keys d) then Some (Inl TypeError)
              else Option.bind (field_or fresh as_str d ''uuid_value'') (\<lambda>u.
                   map_option (\<lambda>b. Inr \<lparr>uuid_value = u, cmd_body = b\<rparr>) (body_from t d))))"

text \<open>\<open>pack\<close> and \<open>depack\<close>, over msgpack's two functions.\<close>

definition pack :: "(pydict \<Rightarrow> 'b) \<Rightarrow> command \<Rightarrow> 'b" where
  "pack packb c = packb (serialize c)"

definition depack :: "('b \<Rightarrow> pydict) \<Rightarrow> string \<Rightarrow> 'b \<Rightarrow> (py_error + command) option" where
  "depack unpackb fresh bytes = deserialize fresh (unpackb bytes)"

lemma those_map_Some [simp]: "those (map Some xs) = Some xs"
  by (induction xs) auto

lemma as_comp [simp]: "as_int \<circ> PInt = Some" "as_str \<circ> PStr = Some"
  by (auto simp: fun_eq_iff)

lemma as_opt_popt_int [simp]: "as_opt as_int (popt PInt x) = Some x"
  by (cases x) (simp_all add: popt_def)

lemma as_opt_popt_bool [simp]: "as_opt as_bool (popt PBool b) = Some b"
  by (cases b) (simp_all add: popt_def)

lemma as_opt_popt_ints [simp]: "as_opt (as_list as_int) (popt pints xs) = Some xs"
  by (cases xs) (simp_all add: popt_def pints_def)

lemma as_list_pstrs [simp]: "as_list as_str (pstrs xs) = Some xs"
  by (simp add: pstrs_def)

lemma as_int_dict_BuildMesh: "as_int_dict (PDict (map (\<lambda>(k, v). (k, PInt v)) d)) = Some d"
  by (induction d) auto

lemma training_complete_init_id:
  "training_complete_init (tca_replica_name a) (tca_global_step a) (tca_total_steps a)
     (tca_remain_samples_num a) (tca_do_save a) (tca_profile a)
     (Some (tca_final_step a)) (Some (tca_checkpoint_total_steps a)) = a"
  by (simp add: training_complete_init_def)

lemma body_from_serialize:
  "body_from (command_type (cmd_body c)) (serialize c) = Some (cmd_body c)"
proof (cases "cmd_body c")
  case (TrainingComplete a)
  have "profile_from (serialize c) = Some (tca_profile a)"
    by (simp add: profile_from_def serialize_def TrainingComplete profile_dict_def field_or_def)
  then show ?thesis
    by (simp add: body_from_def TrainingComplete field_def field_or_def serialize_def
        training_complete_init_id)
next
  case (DataFetch a)
  have "profile_from (serialize c) = Some (dfa_profile a)"
    by (simp add: profile_from_def serialize_def DataFetch profile_dict_def field_or_def)
  then show ?thesis
    by (simp add: body_from_def DataFetch field_def field_or_def serialize_def)
next
  case (BuildMesh d)
  then show ?thesis
    by (simp add: body_from_def field_def serialize_def as_int_dict_BuildMesh
        del: as_int_dict.simps)
qed (simp_all add: body_from_def field_def field_or_def serialize_def)

lemma deserialize_serialize: "deserialize fresh (serialize c) = Some (Inr c)"
proof -
  have t: "dict_get (serialize c) ''command_type'' = Some (PStr (command_type (cmd_body c)))"
    and u: "field_or fresh as_str (serialize c) ''uuid_value'' = Some (uuid_value c)"
    by (simp_all add: serialize_def field_or_def)
  obtain req opt where ps: "params_of (command_type (cmd_body c)) = Some (req, opt)"
    and keys: "set (dict_keys (serialize c)) \<subseteq> set (base_params @ req @ opt)"
      "set req \<subseteq> set (dict_keys (serialize c))"
    by (cases "cmd_body c")
      (simp_all add: params_of_def serialize_def dict_keys_def base_params_def profile_dict_def
        profile_params_def)
  show ?thesis
    using keys by (simp add: deserialize_def t u ps body_from_serialize)
qed

section \<open>The bus and the triggers\<close>

record bus =
  command_log :: "(string \<times> command) list"
  rollout_log :: "(string \<times> rollout) list"
  teacher_log :: "(pydict \<times> string) list"
  do_weight_sync_check_flag :: bool
  uuid_gen :: "nat \<Rightarrow> string"
  uuid_next :: nat

definition publish_command :: "command \<Rightarrow> string \<Rightarrow> bus \<Rightarrow> bus" where
  "publish_command c stream b = b\<lparr>command_log := command_log b @ [(stream, c)]\<rparr>"

definition publish_rollout :: "rollout \<Rightarrow> string \<Rightarrow> bus \<Rightarrow> bus" where
  "publish_rollout r stream b = b\<lparr>rollout_log := rollout_log b @ [(stream, r)]\<rparr>"

text \<open>Constructing a command draws a uuid.\<close>

definition new_command :: "command_body \<Rightarrow> bus \<Rightarrow> command \<times> bus" where
  "new_command body b = (\<lparr>uuid_value = uuid_gen b (uuid_next b), cmd_body = body\<rparr>,
     b\<lparr>uuid_next := Suc (uuid_next b)\<rparr>)"

definition publish_to :: "command_body \<Rightarrow> string list \<Rightarrow> bus \<Rightarrow> bus" where
  "publish_to body streams b = (let (c, b) = new_command body b in fold (publish_command c) streams b)"

definition set_loaded :: "replica \<Rightarrow> replica" where
  "set_loaded r = r\<lparr>weights_loaded_in_view_of_command := True\<rparr>"

definition trigger_weight_resume :: "replica \<Rightarrow> bus \<Rightarrow> py_error + (replica \<times> bus)" where
  "trigger_weight_resume r b =
     (if rp_role r \<noteq> POLICY then Inl AssertionError
      else Inr (set_loaded r, publish_to (WeightResume (rp_name r)) [rp_name r] b))"

definition set_mesh_rank :: "int \<Rightarrow> replica \<Rightarrow> replica" where
  "set_mesh_rank i r = r\<lparr>rp_status := (rp_status r)\<lparr>mesh_rank := i\<rparr>\<rparr>"

definition replicas_to_rank :: "replica list \<Rightarrow> (string, int) dict" where
  "replicas_to_rank rs = fold (\<lambda>(k, v). dict_set k v)
     (zip (map rp_name rs) (map int [0..<length rs])) []"

definition trigger_build_mesh :: "replica list \<Rightarrow> bus \<Rightarrow> py_error + (replica list \<times> bus)" where
  "trigger_build_mesh rs b =
     (if \<not> list_all arrived rs then Inl AssertionError
      else Inr (map (\<lambda>(i, r). set_mesh_rank (int i) r) (zip [0..<length rs] rs),
                publish_to (BuildMesh (replicas_to_rank rs)) (map rp_name rs) b))"

definition trigger_p2p_broadcast :: "replica \<Rightarrow> replica list \<Rightarrow> int option \<Rightarrow> bus \<Rightarrow> replica list \<times> bus" where
  "trigger_p2p_broadcast src dsts ts b = (map set_loaded dsts,
     publish_to (PolicyToPolicyBroadcast (rp_name src) (map rp_name dsts) ts) (map rp_name dsts) b)"

definition trigger_p2p_unicast :: "replica \<Rightarrow> replica \<Rightarrow> int option \<Rightarrow> bus \<Rightarrow> replica \<times> bus" where
  "trigger_p2p_unicast src dst ts b = (set_loaded dst,
     publish_to (PolicyToPolicyUnicast (rp_name src) (rp_name dst) ts) [rp_name src, rp_name dst] b)"

definition trigger_p2r ::
  "replica \<Rightarrow> replica \<Rightarrow> int \<Rightarrow> int \<Rightarrow> int option \<Rightarrow> int option \<Rightarrow> bus \<Rightarrow> replica \<times> bus" where
  "trigger_p2r src dst ssz dsz ws ts b =
     (let a = \<lparr>p2r_src = rp_name src, p2r_dst = rp_name dst, p2r_src_size = ssz, p2r_dst_size = dsz,
                p2r_do_weight_sync_check = do_weight_sync_check_flag b,
                p2r_trainable_only = weights_loaded_in_view_of_command dst,
                p2r_weight_step = ws, p2r_total_steps = ts\<rparr>
      in (set_loaded dst,
          (publish_to (PolicyToRolloutUnicast a) [rp_name src, rp_name dst] b)
            \<lparr>do_weight_sync_check_flag := False\<rparr>))"

definition trigger_r2r ::
  "replica \<Rightarrow> replica list \<Rightarrow> int option \<Rightarrow> int option \<Rightarrow> bus \<Rightarrow> replica list \<times> bus" where
  "trigger_r2r src dsts ws ts b =
     (if \<not> in_mesh src then (dsts, b)
      else (map (\<lambda>r. if in_mesh r then set_loaded r else r) dsts,
            publish_to (RolloutToRolloutBroadcast \<lparr>r2r_src = rp_name src,
                r2r_dsts = map rp_name dsts, r2r_weight_step = ws, r2r_total_steps = ts,
                r2r_trainable_only = list_all weights_loaded_in_view_of_command dsts\<rparr>)
              (map rp_name (filter in_mesh dsts)) b))"

definition trigger_stop :: "replica list \<Rightarrow> bus \<Rightarrow> bus" where
  "trigger_stop rs b = fold (\<lambda>r. publish_to (Stop (rp_name r)) [rp_name r]) rs b"

definition profile_of :: "replica \<Rightarrow> profile_args" where
  "profile_of r = (let s = sub_profiler_cfg r in
     \<lparr>pa_do_profile = Some (do_profile s), pa_active_steps = Some (active_steps s),
      pa_rank_filter = Some (rank_filter s), pa_record_shape = Some (record_shape s),
      pa_profile_memory = Some (profile_memory s), pa_with_stack = Some (with_stack s),
      pa_with_modules = Some (with_modules s)\<rparr>)"

definition trigger_data_fetch :: "replica \<Rightarrow> int \<Rightarrow> int \<Rightarrow> int \<Rightarrow> int \<Rightarrow> bool \<Rightarrow> bus \<Rightarrow> bus" where
  "trigger_data_fetch r items gs ts remain sv b =
     publish_to (DataFetch \<lparr>dfa_replica_name = rp_name r, dfa_items_count = items,
       dfa_global_step = Some gs, dfa_total_steps = Some ts, dfa_remain_samples_num = remain,
       dfa_do_save = sv, dfa_profile = profile_of r\<rparr>) [rp_name r] b"

definition trigger_training_complete_cmd ::
  "replica \<Rightarrow> int \<Rightarrow> int \<Rightarrow> int \<Rightarrow> bool \<Rightarrow> int option \<Rightarrow> int option \<Rightarrow> bus \<Rightarrow> bus" where
  "trigger_training_complete_cmd r gs ts remain sv final ckpt b =
     publish_to (TrainingComplete (training_complete_init (rp_name r) gs ts remain sv
       (profile_of r) final ckpt)) [rp_name r] b"

text \<open>\<open>Replica.put_rollout\<close>.\<close>

definition replica_put_rollout :: "replica \<Rightarrow> rollout \<Rightarrow> bus \<Rightarrow> bus outcome" where
  "replica_put_rollout r ro b =
     bindR (py_assert (rp_role r = POLICY) b) (\<lambda>b.
     bindR (py_assert (arrived r) b) (\<lambda>b. Inr (publish_rollout ro (rp_name r) b)))"

text \<open>The command registries: handlers per command class, for rollouts also per backend.\<close>

type_synonym ('c, 'h) command_registry = "('c, 'h) dict"
type_synonym ('c, 'h) rollout_registry = "(string, ('c, 'h) dict) dict"

definition registry_register :: "'c \<Rightarrow> 'h \<Rightarrow> ('c, 'h) command_registry \<Rightarrow> ('c, 'h) command_registry" where
  "registry_register k f reg = dict_set k f reg"

definition registry_handler :: "'c \<Rightarrow> ('c, 'h) command_registry \<Rightarrow> 'h option" where
  "registry_handler k reg = dict_get reg k"

definition rollout_register :: "'c \<Rightarrow> 'h \<Rightarrow> string \<Rightarrow> ('c, 'h) rollout_registry \<Rightarrow> ('c, 'h) rollout_registry" where
  "rollout_register k f backend reg =
     (let reg = (if dict_has reg backend then reg else dict_set backend [] reg)
      in dict_upd backend (dict_set k f) reg)"

definition rollout_handler :: "'c \<Rightarrow> string \<Rightarrow> ('c, 'h) rollout_registry \<Rightarrow> 'h option" where
  "rollout_handler k backend reg = dict_get (dict_get_or reg backend []) k"

section \<open>Who receives what\<close>

text \<open>The commands on one replica's stream, in publication order.\<close>

definition received :: "string \<Rightarrow> bus \<Rightarrow> command_body list" where
  "received nm b = map (\<lambda>p. cmd_body (snd p)) (filter (\<lambda>p. fst p = nm) (command_log b))"

lemma command_log_fold_publish:
  "command_log (fold (publish_command c) streams b) = command_log b @ map (\<lambda>s. (s, c)) streams"
  by (induction streams arbitrary: b) (auto simp: publish_command_def)

lemma fold_publish_frame [simp]:
  "rollout_log (fold (publish_command c) streams b) = rollout_log b"
  "teacher_log (fold (publish_command c) streams b) = teacher_log b"
  "do_weight_sync_check_flag (fold (publish_command c) streams b) = do_weight_sync_check_flag b"
  "uuid_gen (fold (publish_command c) streams b) = uuid_gen b"
  "uuid_next (fold (publish_command c) streams b) = uuid_next b"
  by (induction streams arbitrary: b; simp add: publish_command_def)+

lemma publish_to_frame [simp]:
  "rollout_log (publish_to body streams b) = rollout_log b"
  "teacher_log (publish_to body streams b) = teacher_log b"
  "do_weight_sync_check_flag (publish_to body streams b) = do_weight_sync_check_flag b"
  by (simp_all add: publish_to_def new_command_def)

lemma received_publish_to:
  "received nm (publish_to body streams b) = received nm b @ replicate (count_list streams nm) body"
proof -
  have "map (\<lambda>p. cmd_body (snd p)) (filter (\<lambda>p. fst p = nm) (map (\<lambda>s. (s, c)) streams))
      = replicate (count_list streams nm) (cmd_body c)" for c :: command
    by (induction streams) auto
  then show ?thesis
    by (simp add: received_def publish_to_def new_command_def command_log_fold_publish)
qed

lemma received_trigger_stop:
  "received nm (trigger_stop rs b) =
     received nm b @ replicate (count_list (map rp_name rs) nm) (Stop nm)"
proof (induction rs arbitrary: b)
  case Nil
  then show ?case by (simp add: trigger_stop_def)
next
  case (Cons r rs)
  have step: "trigger_stop (r # rs) b = trigger_stop rs (publish_to (Stop (rp_name r)) [rp_name r] b)"
    by (simp add: trigger_stop_def)
  show ?case
    by (simp add: step Cons.IH received_publish_to)
qed

lemma replicas_to_rank_distinct:
  assumes "distinct (map rp_name rs)" and "i < length rs"
  shows "dict_get (replicas_to_rank rs) (rp_name (rs ! i)) = Some (int i)"
proof -
  let ?kvs = "zip (map rp_name rs) (map int [0..<length rs])"
  have d: "distinct (map fst (rev ?kvs))"
    using assms(1) by (simp add: rev_map [symmetric])
  have "(rp_name (rs ! i), int i) \<in> set (rev ?kvs)"
    using assms(2) by (auto simp: set_zip intro!: exI [of _ i])
  then have "map_of (rev ?kvs) (rp_name (rs ! i)) = Some (int i)"
    using d by (intro map_of_is_SomeI)
  then show ?thesis
    by (simp add: replicas_to_rank_def pd.get_fold_put)
qed

lemma build_mesh_spec:
  assumes "trigger_build_mesh rs b = Inr (rs', b')"
  shows "map rp_name rs' = map rp_name rs
    \<and> map (\<lambda>r. mesh_rank (rp_status r)) rs' = map int [0..<length rs]
    \<and> list_all in_mesh rs'
    \<and> (\<forall>nm. received nm b' = received nm b
          @ replicate (count_list (map rp_name rs) nm) (BuildMesh (replicas_to_rank rs)))"
proof -
  have rs': "rs' = map (\<lambda>(i, r). set_mesh_rank (int i) r) (zip [0..<length rs] rs)"
    and b': "b' = publish_to (BuildMesh (replicas_to_rank rs)) (map rp_name rs) b"
    using assms by (auto simp: trigger_build_mesh_def split: if_splits)
  show ?thesis
    by (auto simp: rs' b' received_publish_to list_all_iff in_mesh_def set_mesh_rank_def set_zip
        intro!: nth_equalityI)
qed

lemma rollout_registry_roundtrip:
  "rollout_handler k' backend' (rollout_register k f backend reg) =
     (if backend' = backend \<and> k' = k then Some f else rollout_handler k' backend' reg)"
  by (cases "dict_get reg backend")
    (auto simp: rollout_handler_def rollout_register_def dict_get_or_def split: option.splits)

end
