(* ===== verification/Rollout_Admission.thy ===== *)
theory Rollout_Admission
  imports Command_Model
begin

unbundle bit_operations_syntax

text \<open>
  What both loops of the rollout worker share (cosmos_rl/rollout/__init__.py and
  cosmos_rl/rollout/worker/rollout_control.py): the flag word of \<open>State\<close>, the decision
  whether a batch of prompts may run on the live weights, the part of the configuration the
  worker reads, and the bookkeeping that publishes a weight version after a broadcast.
  Lemmas: the flags are independent bits, admission depends on the versions alone and only
  strict on-policy mode ever drops.
\<close>

section \<open>The flag word\<close>

definition WEIGHT_SYNCED :: int where "WEIGHT_SYNCED = 1"

definition PROMPT_FETCH_END :: int where "PROMPT_FETCH_END = push_bit 1 1"

definition PROMPT_CONSUME_END :: int where "PROMPT_CONSUME_END = push_bit 2 1"

lemmas flag_defs = WEIGHT_SYNCED_def PROMPT_FETCH_END_def PROMPT_CONSUME_END_def

text \<open>\<open>UNINITIALIZED\<close>, with which \<open>__init__\<close> starts.\<close>

definition UNINITIALIZED :: int where "UNINITIALIZED = 0"

definition weight_synced :: "int \<Rightarrow> bool" where
  "weight_synced st \<longleftrightarrow> st AND WEIGHT_SYNCED \<noteq> 0"

definition set_weight_synced :: "int \<Rightarrow> int" where
  "set_weight_synced st = st OR WEIGHT_SYNCED"

definition prompt_fetch_end :: "int \<Rightarrow> bool" where
  "prompt_fetch_end st \<longleftrightarrow> st AND PROMPT_FETCH_END \<noteq> 0"

definition set_prompt_fetch_end :: "int \<Rightarrow> int" where
  "set_prompt_fetch_end st = st OR PROMPT_FETCH_END"

definition prompt_consume_end :: "int \<Rightarrow> bool" where
  "prompt_consume_end st \<longleftrightarrow> st AND PROMPT_CONSUME_END \<noteq> 0"

definition set_prompt_consume_end :: "int \<Rightarrow> py_error + int" where
  "set_prompt_consume_end st =
     (if prompt_consume_end st then Inl AssertionError else Inr (st OR PROMPT_CONSUME_END))"

text \<open>The three flags are bits 0, 1 and 2 of the word.\<close>

lemma flag_bits:
  "weight_synced st \<longleftrightarrow> bit st 0"
  "prompt_fetch_end st \<longleftrightarrow> bit st 1"
  "prompt_consume_end st \<longleftrightarrow> bit st 2"
proof -
  have mask: "st AND push_bit n 1 \<noteq> 0 \<longleftrightarrow> bit st n" for n
    using and_exp_eq_0_iff_not_bit [of st n] by (simp add: push_bit_eq_mult)
  show "weight_synced st \<longleftrightarrow> bit st 0"
    using mask [of 0] by (simp add: weight_synced_def WEIGHT_SYNCED_def)
  show "prompt_fetch_end st \<longleftrightarrow> bit st 1"
    using mask [of 1] by (simp add: prompt_fetch_end_def PROMPT_FETCH_END_def)
  show "prompt_consume_end st \<longleftrightarrow> bit st 2"
    using mask [of 2] by (simp add: prompt_consume_end_def PROMPT_CONSUME_END_def)
qed

lemma set_flag_bits:
  "bit (set_weight_synced st) n \<longleftrightarrow> bit st n \<or> n = 0"
  "bit (set_prompt_fetch_end st) n \<longleftrightarrow> bit st n \<or> n = 1"
  "bit (st OR PROMPT_CONSUME_END) n \<longleftrightarrow> bit st n \<or> n = 2"
proof -
  have pow: "bit (2 :: int) n \<longleftrightarrow> n = 1" "bit (4 :: int) n \<longleftrightarrow> n = 2"
    using bit_exp_iff [of 1 n, where 'a = int] bit_exp_iff [of 2 n, where 'a = int] by simp_all
  show "bit (set_weight_synced st) n \<longleftrightarrow> bit st n \<or> n = 0"
    by (auto simp: set_weight_synced_def flag_defs bit_or_iff bit_1_iff)
  show "bit (set_prompt_fetch_end st) n \<longleftrightarrow> bit st n \<or> n = 1"
    "bit (st OR PROMPT_CONSUME_END) n \<longleftrightarrow> bit st n \<or> n = 2"
    by (auto simp: set_prompt_fetch_end_def flag_defs bit_or_iff pow)
qed

text \<open>Setting one flag leaves the others; a flag is never cleared.\<close>

lemma flags_simps [simp]:
  "weight_synced (set_weight_synced st)"
  "prompt_fetch_end (set_weight_synced st) = prompt_fetch_end st"
  "prompt_consume_end (set_weight_synced st) = prompt_consume_end st"
  "weight_synced (set_prompt_fetch_end st) = weight_synced st"
  "prompt_fetch_end (set_prompt_fetch_end st)"
  "prompt_consume_end (set_prompt_fetch_end st) = prompt_consume_end st"
  "weight_synced (st OR PROMPT_CONSUME_END) = weight_synced st"
  "prompt_fetch_end (st OR PROMPT_CONSUME_END) = prompt_fetch_end st"
  "prompt_consume_end (st OR PROMPT_CONSUME_END)"
  "\<not> weight_synced UNINITIALIZED"
  "\<not> prompt_fetch_end UNINITIALIZED"
  "\<not> prompt_consume_end UNINITIALIZED"
  by (simp_all add: flag_bits set_flag_bits UNINITIALIZED_def)

lemma set_prompt_consume_end_Inr:
  "set_prompt_consume_end st = Inr st' \<longleftrightarrow> \<not> prompt_consume_end st \<and> st' = st OR PROMPT_CONSUME_END"
  by (auto simp: set_prompt_consume_end_def)

section \<open>Admission of prompts\<close>

datatype version_decision = SERVE | WAIT | DROP

definition prompt_version_decision :: "int \<Rightarrow> int \<Rightarrow> int \<Rightarrow> bool \<Rightarrow> version_decision" where
  "prompt_version_decision requested live allowed_outdated_steps on_policy =
     (if on_policy then
        (if requested = live then SERVE else if requested < live then DROP else WAIT)
      else if requested \<le> live + allowed_outdated_steps then SERVE else WAIT)"

lemma prompt_version_decision_eq:
  "prompt_version_decision r l a p = SERVE \<longleftrightarrow> (if p then r = l else r \<le> l + a)"
  "prompt_version_decision r l a p = DROP \<longleftrightarrow> p \<and> r < l"
  "prompt_version_decision r l a p = WAIT \<longleftrightarrow> (if p then l < r else l + a < r)"
  by (auto simp: prompt_version_decision_def)

text \<open>A served request stays served, and a waiting one is never dropped while the live version
  stays at or below it: what a \<open>WAIT\<close> waits for can happen.\<close>

lemma waiting_prompt_served_at:
  assumes "prompt_version_decision r l a p = WAIT"
  shows "prompt_version_decision r (if p then r else r - a) a p = SERVE"
    and "l < (if p then r else r - a)"
  using assms by (auto simp: prompt_version_decision_eq split: if_splits)

text \<open>\<open>_batch_requested_weight_version\<close>: the set of versions must be a singleton.\<close>

definition batch_requested_weight_version :: "rl_payload list \<Rightarrow> py_error + int" where
  "batch_requested_weight_version payloads =
     (let versions = remdups (map pl_weight_version payloads) in
      if length versions \<noteq> 1 then Inl RuntimeError else Inr (hd versions))"

lemma batch_requested_weight_version_Inr:
  "batch_requested_weight_version ps = Inr v \<longleftrightarrow> ps \<noteq> [] \<and> (\<forall>p \<in> set ps. pl_weight_version p = v)"
proof -
  let ?vs = "remdups (map pl_weight_version ps)"
  have "batch_requested_weight_version ps = Inr v \<longleftrightarrow> ?vs = [v]"
    by (cases ?vs) (auto simp: batch_requested_weight_version_def Let_def length_Suc_conv)
  also have "\<dots> \<longleftrightarrow> set ?vs = {v}"
  proof
    assume "set ?vs = {v}"
    then show "?vs = [v]"
      using distinct_remdups [of "map pl_weight_version ps"]
      by (metis card_1_singleton_iff distinct_card length_0_conv length_Suc_conv One_nat_def
          is_singletonI is_singleton_altdef list.set_intros(1) singletonD)
  qed simp
  also have "\<dots> \<longleftrightarrow> ps \<noteq> [] \<and> (\<forall>p \<in> set ps. pl_weight_version p = v)"
    by (cases ps) auto
  finally show ?thesis .
qed

lemma batch_requested_weight_version_Inl:
  "batch_requested_weight_version ps = Inl e \<Longrightarrow> e = RuntimeError"
  by (auto simp: batch_requested_weight_version_def Let_def split: if_splits)

lemma batch_requested_weight_version_empty [simp]:
  "batch_requested_weight_version [] = Inl RuntimeError"
  by (simp add: batch_requested_weight_version_def)

section \<open>What the worker reads of its configuration\<close>

record worker_config =
  wc_replica_name :: string
  wc_batch_size :: int
  wc_global_rank :: int
  wc_world_size :: int
  wc_dp_size :: nat
  wc_dp_rank :: nat
  wc_should_report :: bool
  wc_on_policy :: bool
  wc_allowed_outdated_steps :: int
  wc_n_generation :: int
  wc_prefetch_rollout :: bool
  wc_prefetch_queue_maxsize :: int
  wc_data_dispatch_as_rank_in_mesh :: bool
  wc_local_dataset :: bool
  wc_non_text :: bool
  wc_multi_turn :: bool
  wc_dapo :: bool
  wc_rollout_as_token_ids :: bool
  wc_bypass_reward :: bool
  wc_broadcast_all_params :: bool
  wc_isolates_generation :: bool
  wc_max_concurrent_requests :: int
  wc_colocated :: bool
  wc_eos_token :: string
  wc_validation_enable :: bool
  wc_val_before_train :: bool
  wc_validation_freq :: int

text \<open>Whether a validation is due after the weights of a step arrived. The periodic case is
  computed whether or not validation is enabled, and divides by the configured frequency.\<close>

definition should_do_validation :: "worker_config \<Rightarrow> int \<Rightarrow> int option \<Rightarrow> py_error + bool" where
  "should_do_validation c current_step total_steps =
     (if 0 < current_step \<and> wc_validation_freq c = 0 then Inl ZeroDivisionError
      else
        let is_initial = current_step = 0 \<and> wc_val_before_train c;
            is_periodic = 0 < current_step \<and> current_step mod wc_validation_freq c = 0;
            is_final = total_steps = Some current_step in
        Inr (wc_validation_enable c \<and> (is_initial \<or> is_periodic \<or> is_final)))"

end
