(* ===== verification/Task_Scheduler.thy ===== *)
theory Task_Scheduler
  imports Rollout_Admission
begin

text \<open>
  The scheduler of asynchronous rollouts
  (cosmos_rl/rollout/worker/asynchronous/rollout_task_scheduler.py): the queue of admitted
  tasks, the tasks the event loop runs, the queue of results, and the four events that gate
  them. An operation below is what runs between two \<open>await\<close>s of the event loop, or one
  call of the control thread that holds the admission lock; \<open>sched_step\<close> interleaves them.
  A task of the event loop is created, then starts (the generation function stamps its
  payload), then finishes. Lemmas: no more tasks run than allowed, no admitted task is lost or
  duplicated, and a drained scheduler runs nothing until it is resumed.
\<close>

section \<open>State\<close>

record rollout_task =
  rt_idx :: int
  rt_payload :: rl_payload
  rt_is_validation :: bool

record 'r completed_rollout =
  cr_idx :: int
  cr_payload :: rl_payload
  cr_result :: 'r
  cr_behavior_weight_version :: int

text \<open>An \<open>asyncio\<close> task: created, suspended in the generation with the version frozen at
  its start, or done.\<close>

datatype task_phase = Created | Generating int | Finished

text \<open>The state of the call \<open>quiesce_after_drain\<close> the control thread may be in.\<close>

datatype quiesce = NotQuiescing | Draining | QuiesceFailed py_error

record 'r scheduler =
  ts_task_queue :: "rollout_task list"
  ts_complete_queue :: "'r completed_rollout list"
  ts_active :: "(rollout_task \<times> task_phase) list"
  ts_max_concurrent_requests :: int
  ts_running :: bool
  ts_paused :: bool
  ts_accepting :: bool
  ts_poisoned :: bool
  ts_fatal_error :: "py_error option"
  ts_total_processed :: int
  ts_total_submitted :: int
  ts_quiesce :: quiesce

text \<open>\<open>__init__\<close>.\<close>

definition init_scheduler :: "int \<Rightarrow> 'r scheduler" where
  "init_scheduler m = \<lparr>ts_task_queue = [], ts_complete_queue = [], ts_active = [],
     ts_max_concurrent_requests = m, ts_running = False, ts_paused = False, ts_accepting = False,
     ts_poisoned = False, ts_fatal_error = None, ts_total_processed = 0, ts_total_submitted = 0,
     ts_quiesce = NotQuiescing\<rparr>"

section \<open>Operations of the control thread\<close>

text \<open>\<open>start\<close>, with the engine initialised by the hook: the worker thread opens admission
  and marks the scheduler as running.\<close>

definition sched_start :: "'r scheduler \<Rightarrow> 'r scheduler" where
  "sched_start s = (if ts_running s then s else s\<lparr>ts_accepting := True, ts_running := True\<rparr>)"

definition sched_stop :: "'r scheduler \<Rightarrow> 'r scheduler" where
  "sched_stop s = (if ts_running s then s\<lparr>ts_running := False, ts_accepting := False\<rparr> else s)"

definition require_admission :: "'r scheduler \<Rightarrow> 'r scheduler outcome" where
  "require_admission s =
     (if ts_poisoned s then Inl (RuntimeError, s)
      else if \<not> ts_accepting s then Inl (RuntimeError, s)
      else if \<not> ts_running s then Inl (RuntimeError, s)
      else Inr s)"

definition sched_put_rollout :: "rollout_task \<Rightarrow> 'r scheduler \<Rightarrow> 'r scheduler outcome" where
  "sched_put_rollout t s = bindR (require_admission s) (\<lambda>s.
     Inr (s\<lparr>ts_task_queue := ts_task_queue s @ [t], ts_total_submitted := ts_total_submitted s + 1\<rparr>))"

definition put_rollout_batch :: "rollout_task list \<Rightarrow> 'r scheduler \<Rightarrow> 'r scheduler outcome" where
  "put_rollout_batch tasks s = bindR (require_admission s) (\<lambda>s.
     Inr (s\<lparr>ts_task_queue := ts_task_queue s @ tasks,
            ts_total_submitted := ts_total_submitted s + int (length tasks)\<rparr>))"

definition poison :: "py_error \<Rightarrow> 'r scheduler \<Rightarrow> 'r scheduler" where
  "poison e s = s\<lparr>ts_fatal_error := (case ts_fatal_error s of None \<Rightarrow> Some e | Some d \<Rightarrow> Some d),
     ts_accepting := False, ts_paused := True, ts_poisoned := True\<rparr>"

definition raise_if_failed :: "'r scheduler \<Rightarrow> 'r scheduler outcome" where
  "raise_if_failed s = (if ts_fatal_error s \<noteq> None then Inl (RuntimeError, s) else Inr s)"

definition sched_pause :: "'r scheduler \<Rightarrow> 'r scheduler" where
  "sched_pause s =
     (if \<not> ts_running s then s
      else if ts_paused s then s
      else if \<not> ts_accepting s then s
      else s\<lparr>ts_paused := True\<rparr>)"

definition sched_resume :: "'r scheduler \<Rightarrow> 'r scheduler outcome" where
  "sched_resume s =
     (if \<not> ts_running s then Inr s
      else if \<not> ts_paused s then Inr s
      else if ts_poisoned s then Inl (RuntimeError, s)
      else Inr (s\<lparr>ts_paused := False, ts_accepting := True\<rparr>))"

text \<open>
  \<open>quiesce_after_drain\<close> up to the point where it waits for the drain coroutine: it either
  raises, returns because the fence is already closed, or closes admission, reopens dispatch
  and waits. The checks of the calling thread hold for the control thread.
\<close>

definition quiesce_begin :: "'r scheduler \<Rightarrow> 'r scheduler outcome" where
  "quiesce_begin s =
     (if \<not> ts_running s then Inl (RuntimeError, s)
      else if ts_poisoned s then Inl (RuntimeError, s)
      else if \<not> ts_accepting s \<and> ts_paused s then Inr s
      else Inr (s\<lparr>ts_accepting := False, ts_paused := False, ts_quiesce := Draining\<rparr>))"

text \<open>The \<open>except\<close> branch of the wait: the coroutine raised, or the wait timed out.\<close>

definition quiesce_abort :: "py_error \<Rightarrow> 'r scheduler \<Rightarrow> 'r scheduler" where
  "quiesce_abort e s = s\<lparr>ts_paused := True, ts_poisoned := True, ts_quiesce := QuiesceFailed e\<rparr>"

definition get_all :: "'r scheduler \<Rightarrow> 'r completed_rollout list \<times> 'r scheduler" where
  "get_all s = (ts_complete_queue s, s\<lparr>ts_complete_queue := []\<rparr>)"

definition is_all_tasks_completed :: "'r scheduler \<Rightarrow> bool" where
  "is_all_tasks_completed s \<longleftrightarrow> ts_task_queue s = [] \<and> ts_active s = []"

definition is_busy :: "'r scheduler \<Rightarrow> bool" where
  "is_busy s \<longleftrightarrow> ts_running s \<and> ts_max_concurrent_requests s \<le> int (length (ts_active s))"

definition is_idle :: "'r scheduler \<Rightarrow> bool" where
  "is_idle s \<longleftrightarrow> ts_running s \<and> ts_active s = [] \<and> ts_task_queue s = [] \<and> ts_complete_queue s = []"

section \<open>Steps of the event loop\<close>

text \<open>The inner loop that starts tasks while there is capacity.\<close>

fun launch :: "int \<Rightarrow> rollout_task list \<Rightarrow> (rollout_task \<times> task_phase) list \<Rightarrow>
    rollout_task list \<times> (rollout_task \<times> task_phase) list" where
  "launch m [] active = ([], active)"
| "launch m (t # q) active =
     (if int (length active) < m then launch m q (active @ [(t, Created)]) else (t # q, active))"

text \<open>One iteration of \<open>_worker_loop\<close>.\<close>

definition worker_iteration :: "'r scheduler \<Rightarrow> 'r scheduler" where
  "worker_iteration s =
     (if \<not> ts_running s then s
      else
        let active = filter (\<lambda>a. snd a \<noteq> Finished) (ts_active s) in
        if ts_paused s then s\<lparr>ts_active := active\<rparr>
        else
          let (q, started) = launch (ts_max_concurrent_requests s) (ts_task_queue s) active in
          s\<lparr>ts_task_queue := q, ts_active := started\<rparr>)"

definition set_phase :: "nat \<Rightarrow> rollout_task \<Rightarrow> task_phase \<Rightarrow> 'r scheduler \<Rightarrow> 'r scheduler" where
  "set_phase i t ph s = s\<lparr>ts_active := (ts_active s)[i := (t, ph)]\<rparr>"

text \<open>
  \<open>_generate_single\<close> up to its \<open>await\<close>: the generation function \<open>stamp\<close> writes the live
  version into the payload, and the version found there is frozen.
\<close>

definition generation_begin :: "(rl_payload \<Rightarrow> rl_payload) \<Rightarrow> nat \<Rightarrow> 'r scheduler \<Rightarrow> 'r scheduler" where
  "generation_begin stamp i s =
     (if i < length (ts_active s) then
        case ts_active s ! i of
          (t, Created) \<Rightarrow>
            let p = stamp (rt_payload t) in
            set_phase i (t\<lparr>rt_payload := p\<rparr>) (Generating (pl_weight_version p)) s
        | _ \<Rightarrow> s
      else s)"

text \<open>The rest of \<open>_generate_single\<close>, when the generation returned its results.\<close>

definition generation_end :: "'r list \<Rightarrow> nat \<Rightarrow> 'r scheduler \<Rightarrow> 'r scheduler" where
  "generation_end results i s =
     (if i < length (ts_active s) then
        case ts_active s ! i of
          (t, Generating v) \<Rightarrow>
            (case results of
               [] \<Rightarrow> poison RuntimeError (set_phase i t Finished s)
             | r # _ \<Rightarrow>
                 let cr = \<lparr>cr_idx = rt_idx t, cr_payload = rt_payload t, cr_result = r,
                           cr_behavior_weight_version = v\<rparr> in
                 (set_phase i t Finished s)\<lparr>ts_complete_queue := ts_complete_queue s @ [cr],
                   ts_total_processed := ts_total_processed s + 1\<rparr>)
        | _ \<Rightarrow> s
      else s)"

text \<open>The same when the generation, or the call that creates it, raised.\<close>

definition generation_raise :: "py_error \<Rightarrow> nat \<Rightarrow> 'r scheduler \<Rightarrow> 'r scheduler" where
  "generation_raise e i s =
     (if i < length (ts_active s) then
        case ts_active s ! i of
          (t, Finished) \<Rightarrow> s
        | (t, _) \<Rightarrow> poison e (set_phase i t Finished s)
      else s)"

text \<open>One round of \<open>_drain_then_pause_on_loop\<close>, with what the waiting control thread makes
  of its end.\<close>

definition drain_poll :: "'r scheduler \<Rightarrow> 'r scheduler" where
  "drain_poll s =
     (if ts_quiesce s \<noteq> Draining then s
      else if \<not> ts_running s then quiesce_abort RuntimeError s
      else
        case raise_if_failed s of
          Inl (e, s) \<Rightarrow> quiesce_abort e s
        | Inr s \<Rightarrow>
            if ts_task_queue s = [] \<and> \<not> list_ex (\<lambda>a. snd a \<noteq> Finished) (ts_active s)
            then s\<lparr>ts_paused := True, ts_quiesce := NotQuiescing\<rparr>
            else s)"

datatype 'r loop_event =
    LoopIterate
  | LoopBegin nat
  | LoopEnd nat "'r list"
  | LoopRaise nat py_error
  | LoopDrain

fun loop_step :: "(rl_payload \<Rightarrow> rl_payload) \<Rightarrow> 'r loop_event \<Rightarrow> 'r scheduler \<Rightarrow> 'r scheduler" where
  "loop_step stamp LoopIterate s = worker_iteration s"
| "loop_step stamp (LoopBegin i) s = generation_begin stamp i s"
| "loop_step stamp (LoopEnd i rs) s = generation_end rs i s"
| "loop_step stamp (LoopRaise i e) s = generation_raise e i s"
| "loop_step stamp LoopDrain s = drain_poll s"

definition loop_run :: "(rl_payload \<Rightarrow> rl_payload) \<Rightarrow> 'r loop_event list \<Rightarrow> 'r scheduler \<Rightarrow> 'r scheduler" where
  "loop_run stamp = fold (loop_step stamp)"

text \<open>An invariant that every step of the event loop keeps holds after any run.\<close>

lemma loop_run_invariant:
  assumes "\<And>ev s. P s \<Longrightarrow> P (loop_step stamp ev s)" and "P s"
  shows "P (loop_run stamp evs s)"
  using assms(2) by (induction evs arbitrary: s) (auto simp: loop_run_def assms(1))

section \<open>Capacity\<close>

definition unfinished :: "'r scheduler \<Rightarrow> rollout_task list" where
  "unfinished s = map fst (filter (\<lambda>a. snd a \<noteq> Finished) (ts_active s))"

lemma launch_split:
  "launch m q active = (q', active') \<Longrightarrow>
     \<exists>ts. q = ts @ q' \<and> active' = active @ map (\<lambda>t. (t, Created)) ts"
proof (induction m q active rule: launch.induct)
  case (2 m t q active)
  show ?case
  proof (cases "int (length active) < m")
    case True
    then obtain ts where "q = ts @ q'" "active' = active @ [(t, Created)] @ map (\<lambda>t. (t, Created)) ts"
      using 2 by auto
    then show ?thesis by (intro exI [of _ "t # ts"]) simp
  next
    case False
    then show ?thesis using 2 by simp
  qed
qed simp

lemma launch_capacity:
  "launch m q active = (q', active') \<Longrightarrow> int (length active) \<le> max m b \<Longrightarrow>
     int (length active') \<le> max m b"
  by (induction m q active rule: launch.induct) (auto split: if_splits)

text \<open>What an iteration of the worker loop does to the queue and the running tasks.\<close>

lemma worker_iteration_cases:
  obtains (Stopped) "\<not> ts_running s" "worker_iteration s = s"
  | (Reaped) ts q' where "ts_running s" "ts_task_queue s = ts @ q'" "ts_paused s \<Longrightarrow> ts = []"
      "worker_iteration s = s\<lparr>ts_task_queue := q',
         ts_active := filter (\<lambda>a. snd a \<noteq> Finished) (ts_active s) @ map (\<lambda>t. (t, Created)) ts\<rparr>"
proof (cases "ts_running s")
  case False
  then show ?thesis by (intro Stopped) (simp_all add: worker_iteration_def)
next
  case running: True
  show ?thesis
  proof (cases "ts_paused s")
    case True
    then show ?thesis
      using running by (intro Reaped [of "[]" "ts_task_queue s"]) (simp_all add: worker_iteration_def Let_def)
  next
    case False
    obtain q' active' where l: "launch (ts_max_concurrent_requests s) (ts_task_queue s)
        (filter (\<lambda>a. snd a \<noteq> Finished) (ts_active s)) = (q', active')"
      by (metis surj_pair)
    obtain ts where "ts_task_queue s = ts @ q'"
      "active' = filter (\<lambda>a. snd a \<noteq> Finished) (ts_active s) @ map (\<lambda>t. (t, Created)) ts"
      using launch_split [OF l] by auto
    then show ?thesis
      using running False l by (intro Reaped [of ts q']) (simp_all add: worker_iteration_def Let_def)
  qed
qed

definition within_capacity :: "'r scheduler \<Rightarrow> bool" where
  "within_capacity s \<longleftrightarrow> int (length (ts_active s)) \<le> max (ts_max_concurrent_requests s) 0"

lemma worker_iteration_capacity: "within_capacity s \<Longrightarrow> within_capacity (worker_iteration s)"
  using launch_capacity [of "ts_max_concurrent_requests s" "ts_task_queue s"
      "filter (\<lambda>a. snd a \<noteq> Finished) (ts_active s)" _ _ 0]
    length_filter_le [of "\<lambda>a. snd a \<noteq> Finished" "ts_active s"]
  by (auto simp: within_capacity_def worker_iteration_def Let_def split: prod.splits
      simp del: length_filter_le)

lemmas loop_defs = generation_begin_def generation_end_def generation_raise_def drain_poll_def
  set_phase_def poison_def raise_if_failed_def quiesce_abort_def

lemmas loop_splits = prod.splits task_phase.splits list.splits if_splits

lemma loop_step_max [simp]:
  "ts_max_concurrent_requests (loop_step stamp ev s) = ts_max_concurrent_requests s"
  by (cases ev) (auto simp: loop_defs worker_iteration_def Let_def split: loop_splits)

lemma loop_step_capacity: "within_capacity s \<Longrightarrow> within_capacity (loop_step stamp ev s)"
  by (cases ev) (auto simp: within_capacity_def loop_defs Let_def split: loop_splits
      intro: worker_iteration_capacity [unfolded within_capacity_def])

section \<open>The fence\<close>

text \<open>What a successful \<open>quiesce_after_drain\<close> acknowledges: no admission, no dispatch, and
  nothing of what was admitted before is left or still running.\<close>

definition quiet :: "'r scheduler \<Rightarrow> bool" where
  "quiet s \<longleftrightarrow> ts_paused s \<and> \<not> ts_accepting s \<and> ts_task_queue s = [] \<and> unfinished s = []
     \<and> ts_quiesce s \<noteq> Draining"

lemma unfinished_Nil: "unfinished s = [] \<longleftrightarrow> (\<forall>a \<in> set (ts_active s). snd a = Finished)"
  by (auto simp: unfinished_def filter_empty_conv)

lemma finished_nth: "unfinished s = [] \<Longrightarrow> i < length (ts_active s) \<Longrightarrow> snd (ts_active s ! i) = Finished"
  by (simp add: unfinished_Nil)

text \<open>Nothing the event loop does ends the fence: only \<open>resume\<close> can.\<close>

lemma quiet_loop_step:
  assumes "quiet s"
  shows "quiet (loop_step stamp ev s)"
    and "ts_complete_queue (loop_step stamp ev s) = ts_complete_queue s"
proof -
  have fin: "\<And>t ph i. i < length (ts_active s) \<Longrightarrow> ts_active s ! i = (t, ph) \<Longrightarrow> ph = Finished"
    using assms finished_nth by (fastforce simp: quiet_def)
  have work: "quiet (worker_iteration s) \<and> ts_complete_queue (worker_iteration s) = ts_complete_queue s"
    using assms by (cases s rule: worker_iteration_cases) (auto simp: quiet_def unfinished_Nil)
  show "quiet (loop_step stamp ev s)"
    using assms work by (cases ev) (auto simp: loop_defs quiet_def split: loop_splits dest!: fin)
  show "ts_complete_queue (loop_step stamp ev s) = ts_complete_queue s"
    using assms work by (cases ev) (auto simp: loop_defs quiet_def split: loop_splits dest!: fin)
qed

text \<open>A drain that is acknowledged leaves a quiet scheduler, provided admission was closed.\<close>

lemma drain_poll_quiet:
  assumes "ts_quiesce s = Draining" "ts_quiesce (drain_poll s) = NotQuiescing" "\<not> ts_accepting s"
  shows "quiet (drain_poll s)"
  using assms
  by (auto simp: drain_poll_def raise_if_failed_def quiesce_abort_def quiet_def unfinished_Nil
      list_ex_iff split: if_splits)

lemma quiesce_begin_closes:
  assumes "quiesce_begin s = Inr s'" "ts_quiesce s = NotQuiescing"
  shows "\<not> ts_accepting s'"
    and "ts_quiesce s' = Draining \<or> (ts_quiesce s' = NotQuiescing \<and> s' = s)"
  using assms by (auto simp: quiesce_begin_def split: if_splits)

section \<open>No admitted task is lost\<close>

lemma list_update_split:
  assumes "i < length xs"
  obtains us vs where "xs = us @ xs ! i # vs" and "\<And>v. xs[i := v] = us @ v # vs"
  using assms id_take_nth_drop [OF assms] upd_conv_take_nth_drop [OF assms] by blast

definition pending_idxs :: "'r scheduler \<Rightarrow> int multiset" where
  "pending_idxs s = mset (map rt_idx (ts_task_queue s)) + mset (map rt_idx (unfinished s))"

definition completed_idxs :: "'r scheduler \<Rightarrow> int multiset" where
  "completed_idxs s = mset (map cr_idx (ts_complete_queue s))"

lemma unfinished_set_phase:
  assumes "i < length (ts_active s)" "ts_active s ! i = (t, ph)" "ph \<noteq> Finished"
    and "rt_idx t' = rt_idx t"
  shows "ph' \<noteq> Finished \<Longrightarrow>
           mset (map rt_idx (unfinished (set_phase i t' ph' s))) = mset (map rt_idx (unfinished s))"
    and "add_mset (rt_idx t) (mset (map rt_idx (unfinished (set_phase i t' Finished s))))
           = mset (map rt_idx (unfinished s))"
proof -
  obtain us vs where split: "ts_active s = us @ (t, ph) # vs" "\<And>v. (ts_active s)[i := v] = us @ v # vs"
    using assms(1,2) by (metis list_update_split)
  show "mset (map rt_idx (unfinished (set_phase i t' ph' s))) = mset (map rt_idx (unfinished s))"
    if "ph' \<noteq> Finished"
    using assms(3,4) that split by (simp add: unfinished_def set_phase_def)
  show "add_mset (rt_idx t) (mset (map rt_idx (unfinished (set_phase i t' Finished s))))
      = mset (map rt_idx (unfinished s))"
    using assms(3,4) split by (simp add: unfinished_def set_phase_def)
qed

lemma set_phase_simps [simp]:
  "ts_task_queue (set_phase i t ph s) = ts_task_queue s"
  "ts_complete_queue (set_phase i t ph s) = ts_complete_queue s"
  "ts_fatal_error (set_phase i t ph s) = ts_fatal_error s"
  by (simp_all add: set_phase_def)

lemma unfinished_update [simp]:
  "unfinished (s\<lparr>ts_complete_queue := cs\<rparr>) = unfinished s"
  "unfinished (s\<lparr>ts_total_processed := n\<rparr>) = unfinished s"
  "unfinished (s\<lparr>ts_paused := b\<rparr>) = unfinished s"
  "unfinished (s\<lparr>ts_quiesce := k\<rparr>) = unfinished s"
  "unfinished (s\<lparr>ts_poisoned := b\<rparr>) = unfinished s"
  "unfinished (s\<lparr>ts_accepting := b\<rparr>) = unfinished s"
  by (simp_all add: unfinished_def)

text \<open>A step of the event loop that does not fail moves indices from the queue to the running
  tasks and from there to the results, and nowhere else.\<close>

lemma loop_step_conserves:
  assumes "ts_fatal_error (loop_step stamp ev s) = None"
  shows "pending_idxs (loop_step stamp ev s) + completed_idxs (loop_step stamp ev s)
       = pending_idxs s + completed_idxs s"
proof (cases ev)
  case LoopIterate
  then show ?thesis
    by (cases s rule: worker_iteration_cases)
      (auto simp: pending_idxs_def completed_idxs_def unfinished_def comp_def)
next
  case (LoopBegin i)
  show ?thesis
    using LoopBegin unfinished_set_phase(1) [of i s _ Created]
    by (auto simp: pending_idxs_def completed_idxs_def generation_begin_def Let_def split: loop_splits)
next
  case (LoopEnd i rs)
  show ?thesis
  proof (cases "i < length (ts_active s) \<and> (\<exists>t v. ts_active s ! i = (t, Generating v)) \<and> rs \<noteq> []")
    case True
    then obtain t v r rs' where a: "i < length (ts_active s)" "ts_active s ! i = (t, Generating v)"
      and rs: "rs = r # rs'" by (auto simp: neq_Nil_conv)
    show ?thesis
      using LoopEnd rs a unfinished_set_phase(2) [OF a, of t]
      by (auto simp: pending_idxs_def completed_idxs_def generation_end_def Let_def)
  next
    case False
    then have "loop_step stamp ev s = s"
      using LoopEnd assms
      by (auto simp: generation_end_def poison_def Let_def split: loop_splits option.splits)
    then show ?thesis by simp
  qed
next
  case (LoopRaise i e)
  then have "loop_step stamp ev s = s"
    using assms by (auto simp: generation_raise_def poison_def split: loop_splits option.splits)
  then show ?thesis by simp
next
  case LoopDrain
  then show ?thesis
    by (auto simp: pending_idxs_def completed_idxs_def drain_poll_def raise_if_failed_def quiesce_abort_def)
qed

section \<open>Failures stay\<close>

lemma fatal_error_sticky:
  "ts_fatal_error s = Some e \<Longrightarrow> ts_fatal_error (loop_step stamp ev s) = Some e"
  by (cases ev; cases s rule: worker_iteration_cases)
    (auto simp: loop_defs Let_def split: loop_splits)

lemma loop_run_conserves:
  assumes "ts_fatal_error (loop_run stamp evs s) = None"
  shows "pending_idxs (loop_run stamp evs s) + completed_idxs (loop_run stamp evs s)
       = pending_idxs s + completed_idxs s"
  using assms
proof (induction evs arbitrary: s)
  case Nil
  then show ?case by (simp add: loop_run_def)
next
  case (Cons ev evs)
  have run: "loop_run stamp (ev # evs) s = loop_run stamp evs (loop_step stamp ev s)"
    by (simp add: loop_run_def)
  have "ts_fatal_error (loop_run stamp evs (loop_step stamp ev s)) = Some e"
    if "ts_fatal_error (loop_step stamp ev s) = Some e" for e
    using loop_run_invariant [where P = "\<lambda>s. ts_fatal_error s = Some e"] fatal_error_sticky that by blast
  then have "ts_fatal_error (loop_step stamp ev s) = None"
    using Cons.prems run by (cases "ts_fatal_error (loop_step stamp ev s)") auto
  then show ?case
    using Cons run loop_step_conserves [of stamp ev s] by simp
qed

section \<open>The drain ends\<close>

text \<open>One round of the event loop: an iteration of the worker loop, then every running task
  starts if it has not yet, and returns a result.\<close>

definition round_events :: "(nat \<Rightarrow> 'r) \<Rightarrow> nat \<Rightarrow> 'r loop_event list" where
  "round_events res n = LoopIterate # concat (map (\<lambda>i. [LoopBegin i, LoopEnd i [res i]]) [0..<n])"

definition drain_rounds :: "(nat \<Rightarrow> 'r) \<Rightarrow> nat \<Rightarrow> nat \<Rightarrow> 'r loop_event list" where
  "drain_rounds res n k = concat (replicate k (round_events res n)) @ [LoopDrain]"

lemma loop_run_append: "loop_run stamp (xs @ ys) s = loop_run stamp ys (loop_run stamp xs s)"
  by (simp add: loop_run_def)

lemma finish_one:
  assumes "i < length (ts_active s)"
  shows "\<exists>t cs n. loop_run stamp [LoopBegin i, LoopEnd i [r]] s
     = s\<lparr>ts_active := (ts_active s)[i := (t, Finished)], ts_complete_queue := cs, ts_total_processed := n\<rparr>"
proof (cases "ts_active s ! i")
  case (Pair t ph)
  show ?thesis
  proof (cases "ph = Finished")
    case True
    then have "(ts_active s)[i := (t, Finished)] = ts_active s"
      using Pair list_update_id [of "ts_active s" i] by simp
    then show ?thesis
      using Pair True assms
      by (intro exI [of _ t] exI [of _ "ts_complete_queue s"] exI [of _ "ts_total_processed s"])
        (simp add: loop_run_def generation_begin_def generation_end_def)
  next
    case False
    then show ?thesis
      using Pair assms
      by (cases ph) (auto simp: loop_run_def generation_begin_def generation_end_def set_phase_def Let_def)
  qed
qed

lemma finish_all:
  "\<exists>as cs m. loop_run stamp (concat (map (\<lambda>i. [LoopBegin i, LoopEnd i [res i]]) [0..<n])) s
      = s\<lparr>ts_active := as, ts_complete_queue := cs, ts_total_processed := m\<rparr>
     \<and> length as = length (ts_active s) \<and> (\<forall>i < n. i < length as \<longrightarrow> snd (as ! i) = Finished)"
proof (induction n)
  case 0
  show ?case
    by (intro exI [of _ "ts_active s"] exI [of _ "ts_complete_queue s"] exI [of _ "ts_total_processed s"])
      (simp add: loop_run_def)
next
  case (Suc n)
  let ?evs = "\<lambda>n. concat (map (\<lambda>i. [LoopBegin i, LoopEnd i [res i]]) [0..<n])"
  obtain as cs m where
    run: "loop_run stamp (?evs n) s = s\<lparr>ts_active := as, ts_complete_queue := cs, ts_total_processed := m\<rparr>"
    and as: "length as = length (ts_active s)" "\<forall>i < n. i < length as \<longrightarrow> snd (as ! i) = Finished"
    using Suc by blast
  let ?s = "s\<lparr>ts_active := as, ts_complete_queue := cs, ts_total_processed := m\<rparr>"
  have both: "loop_run stamp (?evs (Suc n)) s = loop_run stamp [LoopBegin n, LoopEnd n [res n]] ?s"
    using run by (simp add: loop_run_append)
  show ?case
  proof (cases "n < length as")
    case True
    then obtain t cs' m' where one: "loop_run stamp [LoopBegin n, LoopEnd n [res n]] ?s
        = ?s\<lparr>ts_active := as[n := (t, Finished)], ts_complete_queue := cs', ts_total_processed := m'\<rparr>"
      using finish_one [of n ?s stamp "res n"] by auto
    show ?thesis
      unfolding both one using as
      by (intro exI [of _ "as[n := (t, Finished)]"] exI [of _ cs'] exI [of _ m'])
        (auto simp: less_Suc_eq nth_list_update)
  next
    case False
    then have "loop_run stamp [LoopBegin n, LoopEnd n [res n]] ?s = ?s"
      by (simp add: loop_run_def generation_begin_def generation_end_def)
    then show ?thesis
      unfolding both using as False
      by (intro exI [of _ as] exI [of _ cs] exI [of _ m]) (auto simp: less_Suc_eq)
  qed
qed

text \<open>A round that starts with nothing running takes at least one task off the queue, and leaves
  nothing running.\<close>

definition draining :: "'r scheduler \<Rightarrow> bool" where
  "draining s \<longleftrightarrow> ts_running s \<and> \<not> ts_paused s \<and> \<not> ts_accepting s \<and> ts_fatal_error s = None
     \<and> ts_quiesce s = Draining \<and> within_capacity s"

lemma drain_iterate:
  assumes d: "draining s" and m: "0 < ts_max_concurrent_requests s"
  obtains q active where "worker_iteration s = s\<lparr>ts_task_queue := q, ts_active := active\<rparr>"
    and "length active \<le> nat (ts_max_concurrent_requests s)"
    and "length q \<le> length (ts_task_queue s) - (if unfinished s = [] then 1 else 0)"
proof -
  let ?left = "filter (\<lambda>a. snd a \<noteq> Finished) (ts_active s)"
  obtain q active where l: "launch (ts_max_concurrent_requests s) (ts_task_queue s) ?left = (q, active)"
    by (metis surj_pair)
  have step: "worker_iteration s = s\<lparr>ts_task_queue := q, ts_active := active\<rparr>"
    using d l by (simp add: worker_iteration_def draining_def Let_def)
  then have "within_capacity (s\<lparr>ts_task_queue := q, ts_active := active\<rparr>)"
    using worker_iteration_capacity [of s] d by (simp add: draining_def)
  then have cap: "length active \<le> nat (ts_max_concurrent_requests s)"
    using m by (simp add: within_capacity_def)
  have "length q \<le> length (ts_task_queue s) - (if unfinished s = [] then 1 else 0)"
  proof (cases "ts_task_queue s")
    case Nil
    then show ?thesis using l by auto
  next
    case (Cons t ts)
    have len: "length q \<le> length (ts_task_queue s)"
      using launch_split [OF l] by auto
    show ?thesis
    proof (cases "unfinished s = []")
      case True
      then have none: "?left = []" by (simp add: unfinished_def)
      then have "launch (ts_max_concurrent_requests s) ts [(t, Created)] = (q, active)"
        using l m Cons by simp
      then have "length q \<le> length ts" using launch_split by fastforce
      then show ?thesis using True Cons by simp
    next
      case False
      then show ?thesis using len by simp
    qed
  qed
  with step cap that show ?thesis by blast
qed

lemma drain_round:
  fixes s :: "'r scheduler" and stamp res
  assumes d: "draining s" and m: "0 < ts_max_concurrent_requests s"
  defines "n \<equiv> nat (ts_max_concurrent_requests s)"
  defines "s' \<equiv> loop_run stamp (round_events res n) s"
  shows "draining s'" and "ts_max_concurrent_requests s' = ts_max_concurrent_requests s"
    and "unfinished s' = []"
    and "length (ts_task_queue s') \<le> length (ts_task_queue s) - (if unfinished s = [] then 1 else 0)"
proof -
  obtain q active where it: "worker_iteration s = s\<lparr>ts_task_queue := q, ts_active := active\<rparr>"
    and cap: "length active \<le> n"
    and q: "length q \<le> length (ts_task_queue s) - (if unfinished s = [] then 1 else 0)"
    using drain_iterate [OF d m] by (metis n_def)
  let ?s = "s\<lparr>ts_task_queue := q, ts_active := active\<rparr>"
  obtain as cs k where fin: "loop_run stamp (concat (map (\<lambda>i. [LoopBegin i, LoopEnd i [res i]]) [0..<n])) ?s
      = ?s\<lparr>ts_active := as, ts_complete_queue := cs, ts_total_processed := k\<rparr>"
    and as: "length as = length active" "\<forall>i < n. i < length as \<longrightarrow> snd (as ! i) = Finished"
    using finish_all [of stamp res n ?s] by auto
  have s': "s' = ?s\<lparr>ts_active := as, ts_complete_queue := cs, ts_total_processed := k\<rparr>"
    using it fin by (simp add: s'_def round_events_def loop_run_def)
  show "draining s'"
    using d cap as(1) m by (simp add: s' draining_def within_capacity_def n_def)
  show "unfinished s' = []"
  proof -
    have "snd a = Finished" if "a \<in> set as" for a
      using as cap that by (metis in_set_conv_nth le_trans not_less)
    then show ?thesis by (simp add: s' unfinished_Nil)
  qed
  show "ts_max_concurrent_requests s' = ts_max_concurrent_requests s"
    "length (ts_task_queue s') \<le> length (ts_task_queue s) - (if unfinished s = [] then 1 else 0)"
    using q by (simp_all add: s')
qed

text \<open>After one round per queued task, and one for what was running, the drain is acknowledged.\<close>

lemma drain_all_rounds:
  assumes "draining s" "0 < ts_max_concurrent_requests s" "unfinished s = []"
    and "length (ts_task_queue s) \<le> k" and "n = nat (ts_max_concurrent_requests s)"
  shows "draining (loop_run stamp (concat (replicate k (round_events res n))) s)
    \<and> unfinished (loop_run stamp (concat (replicate k (round_events res n))) s) = []
    \<and> ts_task_queue (loop_run stamp (concat (replicate k (round_events res n))) s) = []"
  using assms
proof (induction k arbitrary: s)
  case 0
  then show ?case by (simp add: loop_run_def)
next
  case (Suc k)
  let ?s = "loop_run stamp (round_events res n) s"
  have "draining ?s" "0 < ts_max_concurrent_requests ?s" "unfinished ?s = []"
    "length (ts_task_queue ?s) \<le> k" "n = nat (ts_max_concurrent_requests ?s)"
    using drain_round [OF Suc.prems(1,2), of stamp res] Suc.prems by auto
  then show ?case
    using Suc.IH [of ?s] by (simp add: loop_run_append)
qed

lemma drain_rounds_quiet:
  assumes d: "draining s" and m: "0 < ts_max_concurrent_requests s"
  defines "n \<equiv> nat (ts_max_concurrent_requests s)" and "k \<equiv> length (ts_task_queue s) + 1"
  shows "quiet (loop_run stamp (drain_rounds res n k) s)"
    and "ts_quiesce (loop_run stamp (drain_rounds res n k) s) = NotQuiescing"
    and "ts_fatal_error (loop_run stamp (drain_rounds res n k) s) = None"
proof -
  let ?s = "loop_run stamp (round_events res n) s"
  let ?t = "loop_run stamp (concat (replicate (length (ts_task_queue s)) (round_events res n))) ?s"
  have one: "draining ?s" "0 < ts_max_concurrent_requests ?s" "unfinished ?s = []"
    "length (ts_task_queue ?s) \<le> length (ts_task_queue s)" "n = nat (ts_max_concurrent_requests ?s)"
    using drain_round [OF d m, of stamp res] m unfolding n_def by auto
  have t: "draining ?t" "unfinished ?t = []" "ts_task_queue ?t = []"
    using drain_all_rounds [OF one] by blast+
  have end_t: "loop_run stamp (drain_rounds res n k) s = drain_poll ?t"
    by (simp add: drain_rounds_def k_def loop_run_append) (simp add: loop_run_def)
  have "drain_poll ?t = ?t\<lparr>ts_paused := True, ts_quiesce := NotQuiescing\<rparr>"
    using t by (auto simp: drain_poll_def draining_def raise_if_failed_def unfinished_Nil list_ex_iff)
  then show "quiet (loop_run stamp (drain_rounds res n k) s)"
    "ts_quiesce (loop_run stamp (drain_rounds res n k) s) = NotQuiescing"
    "ts_fatal_error (loop_run stamp (drain_rounds res n k) s) = None"
    using t by (auto simp: end_t quiet_def draining_def)
qed

end
