(* ===== verification/Reward_Dispatch.thy ===== *)
theory Reward_Dispatch
  imports Rollout_Admission
begin

text \<open>
  The reward dispatcher of a rollout worker (cosmos_rl/reward/dispatcher.py) and the request
  book-keeping of the remote calculator (cosmos_rl/reward/remote_calculator.py): batches of
  payloads are queued as finished tuples, as futures of an executor, or as identifiers of
  requests to a remote service, and taken from the head of the queue when they are ready.
  The local calculator, the remote service and the tensor arithmetic on its scores are
  parameters. Lemmas: batching neither loses nor reorders payloads and respects the limit of
  the remote service; the queue is served in order; and what the polling of the remote service
  does when nothing is ready, or when batches of different steps are.
\<close>

section \<open>State\<close>

type_synonym reward_result = "rl_payload list \<times> bool \<times> int"

datatype reward_task =
    Done reward_result
  | Submitted "rl_payload list" bool int
  | RemoteRequest string

text \<open>The entries of the five \<open>uuid2...\<close> tables under one identifier.\<close>

record remote_entry =
  re_payloads :: "rl_payload list"
  re_is_validation :: bool
  re_step :: int
  re_completions_per_payload :: "nat list"

record reward_dispatcher =
  rd_task_queue :: "reward_task list"
  rd_requests :: "(string, remote_entry) dict"
  rd_sent :: nat

text \<open>
  What is configured and what is given: the executor's \<open>compute_rewards\<close>, the request
  to the remote service (its identifier; it depends on how many requests were sent), and the
  normalisation of the scores of one payload.
\<close>

record reward_env =
  rv_is_remote :: bool
  rv_payload_per_task :: nat
  rv_remote_batch_size :: nat
  rv_compute :: "rl_payload list \<Rightarrow> bool \<Rightarrow> int \<Rightarrow> py_error + reward_result"
  rv_request :: "rl_payload list \<Rightarrow> bool \<Rightarrow> nat \<Rightarrow> py_error + string"
  rv_advantages :: "rat list \<Rightarrow> rat list"

definition init_dispatcher :: reward_dispatcher where
  "init_dispatcher = \<lparr>rd_task_queue = [], rd_requests = [], rd_sent = 0\<rparr>"

text \<open>\<open>RLPayload()\<close> with its defaults.\<close>

definition default_payload :: rl_payload where
  "default_payload = \<lparr>pl_prompt = PNone, pl_prompt_idx = -1, pl_conversation = None,
     pl_reference_answer = None, pl_weight_version = 0, pl_completions = None,
     pl_completed_conversations = None, pl_n_ignore_prefix_tokens = None, pl_rewards = None,
     pl_advantages = None, pl_valid = Some True, pl_filter_rewards = None,
     pl_completion_token_ids = None, pl_completion_logprobs = None, pl_prompt_logprobs = None,
     pl_prompt_token_ids = None, pl_cumulative_logprob = None, pl_extra_info = None,
     pl_report_metrics = None, pl_teacher_result_uuids = None\<rparr>"

section \<open>Enqueuing\<close>

text \<open>The slices \<open>payloads[i : i + k]\<close> for \<open>i in range(0, len(payloads), k)\<close>; a step
  of zero makes \<open>range\<close> raise.\<close>

fun payload_slices :: "nat \<Rightarrow> 'a list \<Rightarrow> 'a list list" where
  "payload_slices k [] = []"
| "payload_slices k (x # xs) = (if k = 0 then [] else take k (x # xs) # payload_slices k (drop k (x # xs)))"

definition put_task :: "reward_task \<Rightarrow> reward_dispatcher \<Rightarrow> reward_dispatcher" where
  "put_task t d = d\<lparr>rd_task_queue := rd_task_queue d @ [t]\<rparr>"

text \<open>The fields a bypassed payload gets.\<close>

definition bypass_payload :: "rl_payload \<Rightarrow> py_error + rl_payload" where
  "bypass_payload p =
     (case pl_completions p of
        None \<Rightarrow> Inl TypeError
      | Some cs \<Rightarrow>
          let n = length cs in
          Inr (p\<lparr>pl_rewards := Some (replicate n 0), pl_advantages := Some (replicate n 0),
                 pl_filter_rewards := Some (replicate n 0), pl_report_metrics := Some (replicate n []),
                 pl_completed_conversations := fill (pl_completed_conversations p) (replicate n (Some [])),
                 pl_completion_logprobs := fill (pl_completion_logprobs p) (replicate n []),
                 pl_completion_token_ids := fill (pl_completion_token_ids p) (replicate n []),
                 pl_n_ignore_prefix_tokens := fill (pl_n_ignore_prefix_tokens p) (replicate n 0)\<rparr>))"

definition enqueue_bypassed ::
  "bool \<Rightarrow> int \<Rightarrow> rl_payload list \<Rightarrow> reward_dispatcher \<Rightarrow> reward_dispatcher outcome" where
  "enqueue_bypassed is_validation step chunk d =
     (case mapR bypass_payload chunk of
        Inl e \<Rightarrow> Inl (e, d)
      | Inr ps \<Rightarrow> Inr (put_task (Done (ps, is_validation, step)) d))"

text \<open>\<open>RemoteRewardCalculator.compute_rewards\<close>: send the request, then remember the batch
  under its identifier; and the queueing of that identifier.\<close>

definition send_remote ::
  "reward_env \<Rightarrow> bool \<Rightarrow> int \<Rightarrow> rl_payload list \<Rightarrow> reward_dispatcher \<Rightarrow> reward_dispatcher outcome" where
  "send_remote env is_validation step batch d =
     (case mapR (\<lambda>p. case pl_completions p of None \<Rightarrow> Inl TypeError | Some cs \<Rightarrow> Inr (length cs)) batch of
        Inl e \<Rightarrow> Inl (e, d)
      | Inr ns \<Rightarrow>
      case rv_request env batch is_validation (rd_sent d) of
        Inl e \<Rightarrow> Inl (e, d)
      | Inr uuid \<Rightarrow>
          Inr (put_task (RemoteRequest uuid)
            (d\<lparr>rd_requests := dict_set uuid \<lparr>re_payloads = batch, re_is_validation = is_validation,
               re_step = step, re_completions_per_payload = ns\<rparr> (rd_requests d),
               rd_sent := rd_sent d + 1\<rparr>)))"

text \<open>The loop that fills a batch up to the limit of completions; a batch never stays empty
  because one payload is too large.\<close>

fun remote_loop ::
  "reward_env \<Rightarrow> bool \<Rightarrow> int \<Rightarrow> rl_payload list \<Rightarrow> rl_payload list \<Rightarrow> nat \<Rightarrow> reward_dispatcher \<Rightarrow>
   reward_dispatcher outcome" where
  "remote_loop env v step [] batch n d =
     (if batch \<noteq> [] then send_remote env v step batch d else Inr d)"
| "remote_loop env v step (p # ps) batch n d =
     (case pl_completions p of
        None \<Rightarrow> Inl (TypeError, d)
      | Some cs \<Rightarrow>
          if batch \<noteq> [] \<and> rv_remote_batch_size env < n + length cs
          then bindR (send_remote env v step batch d) (remote_loop env v step ps [p] (length cs))
          else remote_loop env v step ps (batch @ [p]) (n + length cs) d)"

definition enqueue_rewards_cal ::
  "reward_env \<Rightarrow> rl_payload list \<Rightarrow> bool \<Rightarrow> int \<Rightarrow> bool \<Rightarrow> reward_dispatcher \<Rightarrow> reward_dispatcher outcome" where
  "enqueue_rewards_cal env payloads is_validation step bypass d =
     (let k = rv_payload_per_task env in
      if bypass then
        if k = 0 then Inl (ValueError, d)
        else forR (payload_slices k payloads) (enqueue_bypassed is_validation step) d
      else if rv_is_remote env then remote_loop env is_validation step payloads [] 0 d
      else if k = 0 then Inl (ValueError, d)
      else Inr (fold (\<lambda>chunk. put_task (Submitted chunk is_validation step)) (payload_slices k payloads) d))"

section \<open>Dequeuing\<close>

text \<open>The scores \<open>fetch_reward\<close> returns for the requests whose rewards are ready; for the
  others it raises.\<close>

type_synonym fetch = "string \<Rightarrow> rat list option"

text \<open>The scores of a batch, cut by the completions of its payloads.\<close>

fun split_rewards :: "rat list \<Rightarrow> nat list \<Rightarrow> rat list list" where
  "split_rewards rs [] = []"
| "split_rewards rs (n # ns) = take n rs # split_rewards (drop n rs) ns"

text \<open>The \<open>while\<close> loop of \<open>get_results\<close>: the requests at the head of the queue that
  are ready, with their payloads, and the tables without them. A task that is not a remote
  request has no entry under it, so it counts as not ready.\<close>

fun fetch_ready ::
  "fetch \<Rightarrow> reward_task list \<Rightarrow> (string, remote_entry) dict \<Rightarrow>
   (rl_payload \<times> rat list \<times> bool \<times> int) list \<times> reward_task list \<times> (string, remote_entry) dict" where
  "fetch_ready f (RemoteRequest u # q) reqs =
     (case dict_get reqs u of
        None \<Rightarrow> ([], RemoteRequest u # q, reqs)
      | Some e \<Rightarrow>
      case f u of
        None \<Rightarrow> ([], RemoteRequest u # q, reqs)
      | Some rewards \<Rightarrow>
          let items = map (\<lambda>(p, rs). (p, rs, re_is_validation e, re_step e))
                (zip (re_payloads e) (split_rewards rewards (re_completions_per_payload e)));
              (rest, q', reqs') = fetch_ready f q (dict_pop u reqs) in
          (items @ rest, q', reqs'))"
| "fetch_ready f q reqs = ([], q, reqs)"

definition remote_payload :: "reward_env \<Rightarrow> rl_payload \<Rightarrow> rat list \<Rightarrow> rl_payload" where
  "remote_payload env p rewards = default_payload\<lparr>pl_prompt := pl_prompt p,
     pl_prompt_idx := pl_prompt_idx p, pl_completions := pl_completions p,
     pl_rewards := Some rewards, pl_advantages := Some (rv_advantages env rewards),
     pl_extra_info := pl_extra_info p\<rparr>"

definition get_results :: "reward_env \<Rightarrow> fetch \<Rightarrow> reward_dispatcher \<Rightarrow>
    (py_error \<times> reward_dispatcher) + (reward_result \<times> reward_dispatcher)" where
  "get_results env f d =
     (let (items, q, reqs) = fetch_ready f (rd_task_queue d) (rd_requests d);
          d = d\<lparr>rd_task_queue := q, rd_requests := reqs\<rparr>;
          stages = map (\<lambda>(p, rs, v, s). v) items;
          steps = map (\<lambda>(p, rs, v, s). s) items in
      if \<not> list_all (\<lambda>(p, rs, v, s). 0 \<le> pl_prompt_idx p) items then Inl (AssertionError, d)
      else if \<not> list_all (\<lambda>v. v = hd stages) stages then Inl (AssertionError, d)
      else if \<not> list_all (\<lambda>s. s = hd steps) steps then Inl (AssertionError, d)
      else if stages = [] then Inl (IndexError, d)
      else Inr ((map (\<lambda>(p, rs, v, s). remote_payload env p rs) items, hd stages, hd steps), d))"

text \<open>
  \<open>dequeue_rewards_cal\<close>, with \<open>ready\<close> saying whether the future at the head is done.
  The four components are those of the code: payloads, validation, step, and whether the
  queue was empty.
\<close>

type_synonym dequeued = "rl_payload list option \<times> bool \<times> int \<times> bool"

definition dequeue_rewards_cal :: "reward_env \<Rightarrow> bool \<Rightarrow> fetch \<Rightarrow> reward_dispatcher \<Rightarrow>
    (py_error \<times> reward_dispatcher) + (dequeued \<times> reward_dispatcher)" where
  "dequeue_rewards_cal env ready f d =
     (case rd_task_queue d of
        [] \<Rightarrow> Inr ((None, False, -1, True), d)
      | t # q \<Rightarrow>
          if rv_is_remote env then
            bindR (get_results env f d) (\<lambda>((ps, v, s), d). Inr ((Some ps, v, s, False), d))
          else
            (case t of
               Done (ps, v, s) \<Rightarrow> Inr ((Some ps, v, s, False), d\<lparr>rd_task_queue := q\<rparr>)
             | Submitted ps v s \<Rightarrow>
                 if ready then
                   (case rv_compute env ps v s of
                      Inl e \<Rightarrow> Inl (e, d\<lparr>rd_task_queue := q\<rparr>)
                    | Inr (ps, v, s) \<Rightarrow> Inr ((Some ps, v, s, False), d\<lparr>rd_task_queue := q\<rparr>))
                 else Inr ((None, False, -1, False), d)
             | RemoteRequest u \<Rightarrow> Inl (AssertionError, d)))"

definition is_empty :: "reward_dispatcher \<Rightarrow> bool" where
  "is_empty d \<longleftrightarrow> rd_task_queue d = []"

section \<open>Batching\<close>

lemma concat_payload_slices: "0 < k \<Longrightarrow> concat (payload_slices k xs) = xs"
  by (induction k xs rule: payload_slices.induct) auto

lemma slices_length: "ys \<in> set (payload_slices k xs) \<Longrightarrow> ys \<noteq> [] \<and> length ys \<le> k"
  by (induction k xs rule: payload_slices.induct) (auto split: if_splits)

lemma fold_put_task:
  "fold (\<lambda>c. put_task (g c)) cs d = d\<lparr>rd_task_queue := rd_task_queue d @ map g cs\<rparr>"
  by (induction cs arbitrary: d) (auto simp: put_task_def)

text \<open>What a successful call queues for a local or a bypassed calculation.\<close>

lemma enqueue_local:
  assumes "0 < rv_payload_per_task env" "\<not> rv_is_remote env"
  shows "enqueue_rewards_cal env ps v s False d = Inr (d\<lparr>rd_task_queue := rd_task_queue d
    @ map (\<lambda>c. Submitted c v s) (payload_slices (rv_payload_per_task env) ps)\<rparr>)"
  using assms by (simp add: enqueue_rewards_cal_def Let_def fold_put_task)

text \<open>The identifiers a service hands out are fresh: the table knows only earlier ones.\<close>

definition completions_of :: "rl_payload \<Rightarrow> nat" where
  "completions_of p = (case pl_completions p of None \<Rightarrow> 0 | Some cs \<Rightarrow> length cs)"

definition fresh_requests :: "reward_env \<Rightarrow> (nat \<Rightarrow> string) \<Rightarrow> reward_dispatcher \<Rightarrow> bool" where
  "fresh_requests env uid d \<longleftrightarrow> inj uid
     \<and> (\<forall>batch v n u. rv_request env batch v n = Inr u \<longrightarrow> u = uid n)
     \<and> (\<forall>u. dict_has (rd_requests d) u \<longrightarrow> (\<exists>n < rd_sent d. u = uid n))"

text \<open>One batch under its identifier.\<close>

definition holds_batch :: "reward_dispatcher \<Rightarrow> bool \<Rightarrow> int \<Rightarrow> string \<Rightarrow> rl_payload list \<Rightarrow> bool" where
  "holds_batch d v s u batch \<longleftrightarrow> dict_get (rd_requests d) u = Some \<lparr>re_payloads = batch,
     re_is_validation = v, re_step = s, re_completions_per_payload = map completions_of batch\<rparr>"

lemma send_remote_Inr:
  assumes ok: "send_remote env v s batch d = Inr d'" and fresh: "fresh_requests env uid d"
  obtains "rd_task_queue d' = rd_task_queue d @ [RemoteRequest (uid (rd_sent d))]"
    and "rd_sent d' = rd_sent d + 1"
    and "holds_batch d' v s (uid (rd_sent d)) batch"
    and "\<And>n. n < rd_sent d \<Longrightarrow> dict_get (rd_requests d') (uid n) = dict_get (rd_requests d) (uid n)"
    and "fresh_requests env uid d'"
proof -
  from ok obtain ns u where
    ns: "mapR (\<lambda>p. case pl_completions p of None \<Rightarrow> Inl TypeError | Some cs \<Rightarrow> Inr (length cs)) batch = Inr ns"
    and u: "rv_request env batch v (rd_sent d) = Inr u"
    and d': "d' = put_task (RemoteRequest u) (d\<lparr>rd_requests := dict_set u \<lparr>re_payloads = batch,
       re_is_validation = v, re_step = s, re_completions_per_payload = ns\<rparr> (rd_requests d),
       rd_sent := rd_sent d + 1\<rparr>)"
    by (auto simp: send_remote_def split: sum.splits)
  have "ns = map completions_of batch"
    using ns by (auto simp: mapR_Inr_iff list_all2_conv_all_nth completions_of_def
        intro!: nth_equalityI split: option.splits)
  moreover have uid: "u = uid (rd_sent d)" "inj uid"
    using fresh u by (auto simp: fresh_requests_def)
  moreover have "fresh_requests env uid d'"
    using fresh uid unfolding fresh_requests_def d' put_task_def by (auto simp: less_Suc_eq)
  ultimately show thesis
    using that d' by (auto simp: put_task_def holds_batch_def inj_eq)
qed

text \<open>The batches the loop forms: all payloads in order, and none over the limit unless it is
  a single payload.\<close>

definition batch_ok :: "nat \<Rightarrow> rl_payload list \<Rightarrow> bool" where
  "batch_ok limit batch \<longleftrightarrow> batch \<noteq> [] \<and>
     (sum_list (map completions_of batch) \<le> limit \<or> length batch = 1)"

lemma remote_loop_batches:
  assumes "remote_loop env v s ps batch n d = Inr d'" and "fresh_requests env uid d"
    and "n = sum_list (map completions_of batch)"
    and "batch \<noteq> [] \<Longrightarrow> batch_ok (rv_remote_batch_size env) batch"
  shows "\<exists>bs. concat bs = batch @ ps \<and> list_all (batch_ok (rv_remote_batch_size env)) bs
     \<and> rd_task_queue d' = rd_task_queue d @ map (\<lambda>i. RemoteRequest (uid (rd_sent d + i))) [0..<length bs]
     \<and> (\<forall>i < length bs. holds_batch d' v s (uid (rd_sent d + i)) (bs ! i))
     \<and> (\<forall>m < rd_sent d. dict_get (rd_requests d') (uid m) = dict_get (rd_requests d) (uid m))"
  using assms
proof (induction env v s ps batch n d rule: remote_loop.induct)
  case (1 env v s batch n d)
  show ?case
  proof (cases "batch = []")
    case True
    then show ?thesis using 1 by (intro exI [of _ "[]"]) auto
  next
    case False
    then have "send_remote env v s batch d = Inr d'" using 1 by simp
    then show ?thesis
      using 1 False by (elim send_remote_Inr) (auto intro!: exI [of _ "[batch]"])
  qed
next
  case (2 env v s p ps batch n d)
  obtain cs where cs: "pl_completions p = Some cs"
    using "2.prems"(1) by (cases "pl_completions p") auto
  then have c: "completions_of p = length cs" by (simp add: completions_of_def)
  show ?case
  proof (cases "batch \<noteq> [] \<and> rv_remote_batch_size env < n + length cs")
    case True
    then obtain d1 where d1: "send_remote env v s batch d = Inr d1"
      and rest: "remote_loop env v s ps [p] (length cs) d1 = Inr d'"
      using "2.prems"(1) cs by auto
    have single: "batch_ok (rv_remote_batch_size env) [p]" by (simp add: batch_ok_def)
    obtain
      sent1: "rd_task_queue d1 = rd_task_queue d @ [RemoteRequest (uid (rd_sent d))]"
        "rd_sent d1 = rd_sent d + 1"
      and h1: "holds_batch d1 v s (uid (rd_sent d)) batch"
      and k1: "\<And>n. n < rd_sent d \<Longrightarrow> dict_get (rd_requests d1) (uid n) = dict_get (rd_requests d) (uid n)"
      and f1: "fresh_requests env uid d1"
      by (rule send_remote_Inr [OF d1 "2.prems"(2)]) blast
    obtain bs where bs: "concat bs = [p] @ ps" "list_all (batch_ok (rv_remote_batch_size env)) bs"
      "rd_task_queue d' = rd_task_queue d1 @ map (\<lambda>i. RemoteRequest (uid (rd_sent d1 + i))) [0..<length bs]"
      "\<forall>i < length bs. holds_batch d' v s (uid (rd_sent d1 + i)) (bs ! i)"
      "\<forall>m < rd_sent d1. dict_get (rd_requests d') (uid m) = dict_get (rd_requests d1) (uid m)"
      using "2.IH"(1) [OF cs True rest f1] c single by auto
    have tasks: "RemoteRequest (uid (rd_sent d)) # map (\<lambda>i. RemoteRequest (uid (rd_sent d + 1 + i))) [0..<length bs]
        = map (\<lambda>i. RemoteRequest (uid (rd_sent d + i))) [0..<length (batch # bs)]"
      by (simp add: upt_conv_Cons map_Suc_upt [symmetric] comp_def del: upt_Suc)
    show ?thesis
    proof (intro exI [of _ "batch # bs"] conjI allI impI)
      show "rd_task_queue d' = rd_task_queue d @ map (\<lambda>i. RemoteRequest (uid (rd_sent d + i))) [0..<length (batch # bs)]"
        using bs(3) sent1 tasks by simp
      show "holds_batch d' v s (uid (rd_sent d + i)) ((batch # bs) ! i)" if "i < length (batch # bs)" for i
        using that bs(4,5) h1 sent1 by (cases i) (auto simp: holds_batch_def)
    qed (use bs k1 sent1 "2.prems"(4) True in auto)
  next
    case False
    have rest: "remote_loop env v s ps (batch @ [p]) (n + length cs) d = Inr d'"
      using "2.prems"(1) cs False by simp
    have "batch_ok (rv_remote_batch_size env) (batch @ [p])"
      using False "2.prems"(3) c by (auto simp: batch_ok_def)
    then show ?thesis
      using "2.IH"(2) [OF cs False rest "2.prems"(2)] "2.prems"(3) c by simp
  qed
qed

section \<open>Properties\<close>

text \<open>
  Batches for the remote reward service. When payloads are queued, the requests that are
  sent hold all of them, each once and in order, and no request asks for more completions
  than the limit unless it holds a single payload; every request is queued behind what was
  there, its batch is remembered under its identifier together with the step and the counts
  the scores are split by, and the earlier requests keep their entries. The service is relied
  on for identifiers that differ between requests.
\<close>

theorem remote_batches:
  assumes "rv_is_remote env" and "fresh_requests env uid d"
    and "enqueue_rewards_cal env ps v s False d = Inr d'"
  shows "\<exists>bs. concat bs = ps
     \<and> (\<forall>b \<in> set bs. b \<noteq> [] \<and>
          (sum_list (map completions_of b) \<le> rv_remote_batch_size env \<or> length b = 1))
     \<and> rd_task_queue d' = rd_task_queue d @ map (\<lambda>i. RemoteRequest (uid (rd_sent d + i))) [0..<length bs]
     \<and> (\<forall>i < length bs. holds_batch d' v s (uid (rd_sent d + i)) (bs ! i))
     \<and> (\<forall>m < rd_sent d. dict_get (rd_requests d') (uid m) = dict_get (rd_requests d) (uid m))"
proof -
  have "remote_loop env v s ps [] 0 d = Inr d'"
    using assms(1,3) by (simp add: enqueue_rewards_cal_def Let_def)
  then show ?thesis
    using remote_loop_batches [of env v s ps "[]" 0 d d' uid] assms(2)
    by (auto simp: batch_ok_def list_all_iff)
qed

text \<open>
  Polling the remote rewards before they are ready. If the rewards of the request at the
  head of the queue are not there yet, the poll raises \<open>IndexError\<close> and changes nothing,
  where the code means to return nothing and retry later.
\<close>

theorem remote_poll_not_ready:
  assumes "rv_is_remote env" and "rd_task_queue d = RemoteRequest u # q" and "f u = None"
  shows "dequeue_rewards_cal env ready f d = Inl (IndexError, d)"
  using assms by (simp add: dequeue_rewards_cal_def get_results_def split: option.splits)

text \<open>The tables of a request that was sent for at least one payload.\<close>

definition cut_ok :: "remote_entry \<Rightarrow> bool" where
  "cut_ok e \<longleftrightarrow> re_payloads e \<noteq> [] \<and> length (re_completions_per_payload e) = length (re_payloads e)
     \<and> list_all (\<lambda>p. 0 \<le> pl_prompt_idx p) (re_payloads e)"

lemma length_split_rewards [simp]: "length (split_rewards rs ns) = length ns"
  by (induction rs ns rule: split_rewards.induct) auto

lemma cut_ok_items:
  assumes "cut_ok e"
  shows "zip (re_payloads e) (split_rewards rs (re_completions_per_payload e)) \<noteq> []"
    and "(p, r) \<in> set (zip (re_payloads e) (split_rewards rs (re_completions_per_payload e))) \<Longrightarrow> 0 \<le> pl_prompt_idx p"
proof -
  have "length (zip (re_payloads e) (split_rewards rs (re_completions_per_payload e))) \<noteq> 0"
    using assms by (simp add: cut_ok_def)
  then show "zip (re_payloads e) (split_rewards rs (re_completions_per_payload e)) \<noteq> []"
    by (metis length_0_conv)
  show "0 \<le> pl_prompt_idx p"
    if "(p, r) \<in> set (zip (re_payloads e) (split_rewards rs (re_completions_per_payload e)))"
    using assms that by (auto simp: cut_ok_def list_all_iff dest: set_zip_leftD)
qed

text \<open>
  Rewards of two steps that are ready together. If the two requests in the queue are
  both ready and belong to the same stage but to different steps, the poll raises
  \<open>AssertionError\<close> after both have left the queue and their batches the tables: those
  payloads are lost.
\<close>

theorem mixed_steps_lost:
  assumes "rv_is_remote env" and "rd_task_queue d = [RemoteRequest u, RemoteRequest u']" and "u' \<noteq> u"
    and "dict_get (rd_requests d) u = Some e" and "dict_get (rd_requests d) u' = Some e'"
    and "cut_ok e" and "cut_ok e'" and "f u = Some r" and "f u' = Some r'"
    and "re_is_validation e' = re_is_validation e" and "re_step e' \<noteq> re_step e"
  shows "\<exists>d'. dequeue_rewards_cal env ready f d = Inl (AssertionError, d') \<and> rd_task_queue d' = []
     \<and> dict_get (rd_requests d') u = None \<and> dict_get (rd_requests d') u' = None"
proof -
  define tag where "tag = (\<lambda>(e :: remote_entry) (p :: rl_payload, rs :: rat list). (p, rs, re_is_validation e, re_step e))"
  define xs where "xs = zip (re_payloads e) (split_rewards r (re_completions_per_payload e))"
  define ys where "ys = zip (re_payloads e') (split_rewards r' (re_completions_per_payload e'))"
  have ne: "xs \<noteq> []" "ys \<noteq> []"
    using cut_ok_items(1) assms(6,7) by (auto simp: xs_def ys_def)
  have ready: "fetch_ready f (rd_task_queue d) (rd_requests d)
      = (map (tag e) xs @ map (tag e') ys, [], dict_pop u' (dict_pop u (rd_requests d)))"
    using assms by (simp add: xs_def ys_def tag_def case_prod_unfold Let_def)
  obtain x xs' y ys' where split: "xs = x # xs'" "ys = y # ys'"
    using ne by (auto simp: neq_Nil_conv)
  show ?thesis
    using assms unfolding dequeue_rewards_cal_def get_results_def ready
    by (simp add: split tag_def case_prod_unfold Let_def assms(2))
qed

section \<open>Witnesses\<close>

definition ex_uid :: "nat \<Rightarrow> string" where
  "ex_uid n = replicate n (CHR ''r'')"

definition ex_remote :: reward_env where
  "ex_remote = \<lparr>rv_is_remote = True, rv_payload_per_task = 64, rv_remote_batch_size = 3,
     rv_compute = (\<lambda>ps v s. Inr (ps, v, s)), rv_request = (\<lambda>batch v n. Inr (ex_uid n)),
     rv_advantages = map (\<lambda>r. r)\<rparr>"

definition ex_sample :: "nat \<Rightarrow> rl_payload" where
  "ex_sample n = default_payload\<lparr>pl_prompt_idx := int n, pl_completions := Some (replicate n (PStr ''a''))\<rparr>"

text \<open>Two batches of steps 6 and 7 in the queue.\<close>

definition ex_queued :: reward_dispatcher where
  "ex_queued = projr (bindR (enqueue_rewards_cal ex_remote [ex_sample 2] False 6 False init_dispatcher)
     (enqueue_rewards_cal ex_remote [ex_sample 1] False 7 False))"

lemma ex_remote_fresh: "fresh_requests ex_remote ex_uid init_dispatcher"
proof -
  have "inj ex_uid" by (rule injI) (metis ex_uid_def length_replicate)
  then show ?thesis by (simp add: fresh_requests_def ex_remote_def init_dispatcher_def)
qed

theorem remote_batches_witness:
  "\<exists>d'. enqueue_rewards_cal ex_remote [ex_sample 2, ex_sample 2, ex_sample 1, ex_sample 5] False 6 False init_dispatcher
       = Inr d' \<and> length (rd_task_queue d') = 3 \<and> (\<exists>bs. concat bs = [ex_sample 2, ex_sample 2, ex_sample 1, ex_sample 5])"
proof -
  let ?ps = "[ex_sample 2, ex_sample 2, ex_sample 1, ex_sample 5]"
  define d' where "d' = projr (enqueue_rewards_cal ex_remote ?ps False 6 False init_dispatcher)"
  have ok: "enqueue_rewards_cal ex_remote ?ps False 6 False init_dispatcher = Inr d'"
    and len: "length (rd_task_queue d') = 3"
    unfolding d'_def by code_simp+
  have "rv_is_remote ex_remote" by code_simp
  from remote_batches [OF this ex_remote_fresh ok] show ?thesis
    using ok len by blast
qed

theorem remote_poll_not_ready_witness:
  "dequeue_rewards_cal ex_remote True (\<lambda>u. None) ex_queued = Inl (IndexError, ex_queued)"
proof -
  have "rd_task_queue ex_queued = RemoteRequest (ex_uid 0) # [RemoteRequest (ex_uid 1)]" "rv_is_remote ex_remote"
    by code_simp+
  then show ?thesis by (intro remote_poll_not_ready) auto
qed

theorem mixed_steps_lost_witness:
  "\<exists>d'. dequeue_rewards_cal ex_remote True (\<lambda>u. Some [1, 0]) ex_queued = Inl (AssertionError, d')
     \<and> rd_task_queue d' = []"
proof -
  define e where "e = the (dict_get (rd_requests ex_queued) (ex_uid 0))"
  define e' where "e' = the (dict_get (rd_requests ex_queued) (ex_uid 1))"
  have facts: "rv_is_remote ex_remote" "rd_task_queue ex_queued = [RemoteRequest (ex_uid 0), RemoteRequest (ex_uid 1)]"
    "ex_uid 1 \<noteq> ex_uid 0" "dict_get (rd_requests ex_queued) (ex_uid 0) = Some e"
    "dict_get (rd_requests ex_queued) (ex_uid 1) = Some e'" "cut_ok e" "cut_ok e'"
    "re_is_validation e' = re_is_validation e" "re_step e' \<noteq> re_step e"
    unfolding e_def e'_def by code_simp+
  then show ?thesis
    using mixed_steps_lost [of ex_remote ex_queued "ex_uid 0" "ex_uid 1" e e' "\<lambda>u. Some [1, 0]" "[1, 0]" "[1, 0]" True]
    by blast
qed

end
