(* ===== verification/Prefix_Groups.thy ===== *)
theory Prefix_Groups
  imports Prelude "HOL-Library.Sublist"
begin

text \<open>
  Groups of sequences that share a maximal prefix (\<open>TrieNode\<close>, \<open>build_trie\<close> and
  \<open>find_maximal_prefix_groups\<close> of cosmos_rl/utils/util.py). The reward calculator asks for them
  to find completions with a common start and different rewards. A node of the trie is a value;
  the walk of the code that mutates the nodes of a path becomes an insertion that rebuilds it.
  Lemmas: what the trie stores at a path, and that the traversal with its explicit stack
  visits every node.
\<close>

section \<open>The trie\<close>

datatype trie_node = TrieNode (idxs: "nat list") (children: "(int \<times> trie_node) list")

definition new_node :: trie_node where
  "new_node = TrieNode [] []"

text \<open>The inner loop of \<open>build_trie\<close>, with the \<open>append\<close> after it.\<close>

fun insert_seq :: "nat \<Rightarrow> int list \<Rightarrow> trie_node \<Rightarrow> trie_node" where
  "insert_seq i [] (TrieNode is cs) = TrieNode (is @ [i]) cs"
| "insert_seq i (x # s) (TrieNode is cs) =
     (let child = (case dict_get cs x of None \<Rightarrow> new_node | Some c \<Rightarrow> c) in
      TrieNode (is @ [i]) (dict_set x (insert_seq i s child) cs))"

definition build_trie :: "int list list \<Rightarrow> trie_node" where
  "build_trie seqs = fold (\<lambda>(i, s). insert_seq i s) (enumerate 0 seqs) new_node"

section \<open>The traversal\<close>

text \<open>What is done with a node whose children have been visited.\<close>

definition decide_group :: "int \<Rightarrow> int list \<Rightarrow> trie_node \<Rightarrow> (int list, nat list) dict \<Rightarrow> (int list, nat list) dict" where
  "decide_group N p node result =
     (if N \<le> int (length p) \<and> 1 < length (idxs node)
         \<and> \<not> list_ex (\<lambda>(x, c). 1 < length (idxs c)) (children node)
      then dict_set p (idxs node) result
      else result)"

fun nodes :: "trie_node \<Rightarrow> nat" where
  "nodes (TrieNode is cs) = Suc (sum_list (map (\<lambda>(x, c). nodes c) cs))"

text \<open>The \<open>while\<close> loop; the top of the stack is the head of the list. A frame is a node, its
  prefix, and whether its children have been pushed.\<close>

type_synonym frame = "trie_node \<times> int list \<times> bool"

definition frame_weight :: "frame \<Rightarrow> nat" where
  "frame_weight f = (case f of (node, p, visited) \<Rightarrow> if visited then 1 else 2 * nodes node)"

lemma sum_list_frames:
  "sum_list (map (frame_weight \<circ> (\<lambda>(x, c). (c, p @ [x], False))) cs) = 2 * sum_list (map (\<lambda>(x, c). nodes c) cs)"
  by (induction cs) (auto simp: frame_weight_def)

function (sequential) traverse :: "int \<Rightarrow> frame list \<Rightarrow> (int list, nat list) dict \<Rightarrow> (int list, nat list) dict" where
  "traverse N [] result = result"
| "traverse N ((node, p, False) # stack) result =
     traverse N (rev (map (\<lambda>(x, c). (c, p @ [x], False)) (children node)) @ (node, p, True) # stack) result"
| "traverse N ((node, p, True) # stack) result = traverse N stack (decide_group N p node result)"
  by pat_completeness auto

termination
proof (relation "measure (\<lambda>(N, stack, result). sum_list (map frame_weight stack))")
  fix N node p stack result
  show "((N, rev (map (\<lambda>(x, c). (c, p @ [x], False)) (children node)) @ (node, p, True) # stack, result),
      N, (node, p, False) # stack, result) \<in> measure (\<lambda>(N, stack, result). sum_list (map frame_weight stack))"
    by (cases node) (simp add: sum_list_frames rev_map [symmetric] sum_list_rev, simp add: frame_weight_def)
qed (auto simp: frame_weight_def)

definition find_maximal_prefix_groups :: "int list list \<Rightarrow> int option \<Rightarrow> (int list, nat list) dict" where
  "find_maximal_prefix_groups seqs N =
     (case N of
        None \<Rightarrow> []
      | Some n \<Rightarrow> if n < 1 then [] else traverse n [(build_trie seqs, [], False)] [])"

section \<open>What the trie stores\<close>

fun node_at :: "trie_node \<Rightarrow> int list \<Rightarrow> trie_node option" where
  "node_at t [] = Some t"
| "node_at t (x # p) = (case dict_get (children t) x of None \<Rightarrow> None | Some c \<Rightarrow> node_at c p)"

definition idxs_at :: "trie_node \<Rightarrow> int list \<Rightarrow> nat list" where
  "idxs_at t p = (case node_at t p of None \<Rightarrow> [] | Some n \<Rightarrow> idxs n)"

lemma idxs_at_simps [simp]:
  "idxs_at t [] = idxs t"
  "idxs_at t (x # p) = (case dict_get (children t) x of None \<Rightarrow> [] | Some c \<Rightarrow> idxs_at c p)"
  by (simp_all add: idxs_at_def split: option.splits)

lemma idxs_at_new_node [simp]: "idxs_at new_node p = []"
  by (cases p) (simp_all add: new_node_def)

lemma idxs_at_insert: "idxs_at (insert_seq i s t) p = idxs_at t p @ (if prefix p s then [i] else [])"
proof (induction i s t arbitrary: p rule: insert_seq.induct)
  case (1 i "is" cs)
  then show ?case by (cases p) auto
next
  case (2 i x s "is" cs)
  then show ?case
    by (cases p) (auto simp: Let_def split: option.splits)
qed

lemma idxs_at_fold:
  "idxs_at (fold (\<lambda>(i, s). insert_seq i s) xs t) p
     = idxs_at t p @ map fst (filter (\<lambda>(i, s). prefix p s) xs)"
  by (induction xs arbitrary: t) (auto simp: idxs_at_insert)

lemma idxs_at_build: "idxs_at (build_trie seqs) p = filter (\<lambda>i. prefix p (seqs ! i)) [0..<length seqs]"
proof -
  have "enumerate 0 seqs = map (\<lambda>i. (i, seqs ! i)) [0..<length seqs]"
    by (rule nth_equalityI) (auto simp: nth_enumerate_eq)
  then show ?thesis
    by (simp add: build_trie_def idxs_at_fold filter_map comp_def)
qed

text \<open>No node has two children under one key.\<close>

fun wf_trie :: "trie_node \<Rightarrow> bool" where
  "wf_trie (TrieNode is cs) \<longleftrightarrow> wf_dict cs \<and> (\<forall>(x, c) \<in> set cs. wf_trie c)"

lemma dict_set_entries: "set (dict_set k v d) \<subseteq> insert (k, v) (set d)"
  by (induction d) auto

lemma dict_get_Some_set: "dict_get d k = Some v \<Longrightarrow> (k, v) \<in> set d"
  by (simp add: dict_get_def map_of_SomeD)

lemma wf_trie_insert: "wf_trie t \<Longrightarrow> wf_trie (insert_seq i s t)"
proof (induction i s t rule: insert_seq.induct)
  case (2 i x s "is" cs)
  let ?child = "case dict_get cs x of None \<Rightarrow> new_node | Some c \<Rightarrow> c"
  have "wf_trie ?child"
    using "2.prems" dict_get_Some_set [of cs x] by (auto simp: new_node_def split: option.splits)
  then have "wf_trie (insert_seq i s ?child)" by (rule "2.IH" [OF refl])
  then show ?case
    using "2.prems" dict_set_entries [of x "insert_seq i s ?child" cs] by (auto simp: Let_def)
qed simp

lemma wf_trie_build: "wf_trie (build_trie seqs)"
proof -
  have "wf_trie (fold (\<lambda>(i, s). insert_seq i s) xs t)" if "wf_trie t" for xs t
    using that by (induction xs arbitrary: t) (auto simp: wf_trie_insert)
  then show ?thesis by (simp add: build_trie_def new_node_def)
qed

section \<open>The traversal visits every node\<close>

fun post_order :: "int list \<Rightarrow> trie_node \<Rightarrow> (int list \<times> trie_node) list" where
  "post_order p (TrieNode is cs) =
     concat (rev (map (\<lambda>(x, c). post_order (p @ [x]) c) cs)) @ [(p, TrieNode is cs)]"

definition frame_nodes :: "frame \<Rightarrow> (int list \<times> trie_node) list" where
  "frame_nodes f = (case f of (node, p, visited) \<Rightarrow> if visited then [(p, node)] else post_order p node)"

lemma traverse_fold:
  "traverse N stack result
     = fold (\<lambda>(p, node). decide_group N p node) (concat (map frame_nodes stack)) result"
proof (induction N stack result rule: traverse.induct)
  case (2 N node p stack result)
  then show ?case
    by (cases node) (simp add: frame_nodes_def rev_map [symmetric] comp_def case_prod_unfold)
qed (simp_all add: frame_nodes_def)

lemma set_post_order:
  "wf_trie t \<Longrightarrow> (q, n) \<in> set (post_order p t) \<longleftrightarrow> (\<exists>r. q = p @ r \<and> node_at t r = Some n)"
proof (induction p t arbitrary: q n rule: post_order.induct)
  case (1 p "is" cs)
  have "(q, n) \<in> set (post_order p (TrieNode is cs)) \<longleftrightarrow>
      (q = p \<and> n = TrieNode is cs) \<or> (\<exists>(x, c) \<in> set cs. (q, n) \<in> set (post_order (p @ [x]) c))"
    by auto
  also have "\<dots> \<longleftrightarrow> (q = p \<and> n = TrieNode is cs) \<or>
      (\<exists>(x, c) \<in> set cs. \<exists>r. q = p @ x # r \<and> node_at c r = Some n)"
    using 1 by fastforce
  also have "\<dots> \<longleftrightarrow> (\<exists>r. q = p @ r \<and> node_at (TrieNode is cs) r = Some n)" (is "?l \<longleftrightarrow> ?r")
  proof
    assume ?l
    then show ?r
      using "1.prems" by (force simp: dict_get_def wf_dict_def)
  next
    assume ?r
    then obtain r where r: "q = p @ r" "node_at (TrieNode is cs) r = Some n" by blast
    then show ?l
      using dict_get_Some_set by (cases r) (fastforce split: option.splits)+
  qed
  finally show ?case .
qed

definition group_at :: "int \<Rightarrow> int list \<Rightarrow> trie_node \<Rightarrow> bool" where
  "group_at N p node \<longleftrightarrow> N \<le> int (length p) \<and> 1 < length (idxs node)
     \<and> \<not> list_ex (\<lambda>(x, c). 1 < length (idxs c)) (children node)"

lemma dict_get_decide:
  "dict_get (decide_group N p node result) q
     = (if q = p \<and> group_at N p node then Some (idxs node) else dict_get result q)"
  by (simp add: decide_group_def group_at_def)

lemma dict_get_fold_decide:
  assumes "\<And>n m. (q, n) \<in> set xs \<Longrightarrow> (q, m) \<in> set xs \<Longrightarrow> n = m"
  shows "dict_get (fold (\<lambda>(p, n). decide_group N p n) xs result) q = Some v \<longleftrightarrow>
     (\<exists>n. (q, n) \<in> set xs \<and> group_at N q n \<and> v = idxs n) \<or>
     ((\<nexists>n. (q, n) \<in> set xs \<and> group_at N q n) \<and> dict_get result q = Some v)"
  using assms
proof (induction xs arbitrary: result)
  case Nil
  then show ?case by simp
next
  case (Cons x xs)
  obtain p n where x: "x = (p, n)" by fastforce
  have IH: "dict_get (fold (\<lambda>(p, n). decide_group N p n) xs r) q = Some v \<longleftrightarrow>
     (\<exists>n. (q, n) \<in> set xs \<and> group_at N q n \<and> v = idxs n) \<or>
     ((\<nexists>n. (q, n) \<in> set xs \<and> group_at N q n) \<and> dict_get r q = Some v)" for r
    using Cons.prems by (intro Cons.IH) auto
  have same: "m = n" if "p = q" "(q, m) \<in> set xs" for m
    using Cons.prems that x by auto
  show ?case
    using same by (auto simp: x IH dict_get_decide)
qed

text \<open>Some child of the node at \<open>p\<close> has two sequences iff some longer prefix has.\<close>

lemma deeper_child:
  assumes "wf_trie t" and "node_at t p = Some n"
  shows "list_ex (\<lambda>(x, c). 1 < length (idxs c)) (children n) \<longleftrightarrow> (\<exists>x. 1 < length (idxs_at t (p @ [x])))"
proof -
  have at: "wf_trie n \<and> idxs_at t (p @ q) = idxs_at n q" for q
    using assms
  proof (induction t p rule: node_at.induct)
    case (2 t x p)
    then obtain c where c: "dict_get (children t) x = Some c" "node_at c p = Some n"
      by (auto split: option.splits)
    moreover have "wf_trie c"
      using "2.prems"(1) dict_get_Some_set [OF c(1)] by (cases t) auto
    ultimately show ?case using "2.IH" [of c] by simp
  qed simp
  obtain ks cs where n: "n = TrieNode ks cs" by (cases n)
  have "wf_dict cs" using at n by simp
  then have mem: "(x, c) \<in> set cs \<longleftrightarrow> dict_get cs x = Some c" for x c
    by (simp add: dict_get_def wf_dict_def)
  have "list_ex (\<lambda>(x, c). 1 < length (idxs c)) cs \<longleftrightarrow> (\<exists>x. 1 < length (idxs_at n [x]))"
  proof
    assume "list_ex (\<lambda>(x, c). 1 < length (idxs c)) cs"
    then obtain x c where "dict_get cs x = Some c" "1 < length (idxs c)"
      using mem by (auto simp: list_ex_iff)
    then show "\<exists>x. 1 < length (idxs_at n [x])" by (intro exI [of _ x]) (simp add: n)
  next
    assume "\<exists>x. 1 < length (idxs_at n [x])"
    then obtain x c where "dict_get cs x = Some c" "1 < length (idxs c)"
      by (auto simp: n split: option.splits)
    then show "list_ex (\<lambda>(x, c). 1 < length (idxs c)) cs"
      using mem by (auto simp: list_ex_iff)
  qed
  then show ?thesis using at n by simp
qed

section \<open>Correctness\<close>

definition with_prefix :: "int list list \<Rightarrow> int list \<Rightarrow> nat list" where
  "with_prefix seqs p = filter (\<lambda>i. prefix p (seqs ! i)) [0..<length seqs]"

lemma prefix_groups_at:
  assumes n: "1 \<le> n"
  shows "dict_get (find_maximal_prefix_groups seqs (Some n)) p = Some is \<longleftrightarrow> n \<le> int (length p)
     \<and> 1 < length (with_prefix seqs p) \<and> (\<forall>x. length (with_prefix seqs (p @ [x])) \<le> 1)
     \<and> is = with_prefix seqs p"
proof -
  let ?t = "build_trie seqs"
  have at: "idxs_at ?t q = with_prefix seqs q" for q
    by (simp add: idxs_at_build with_prefix_def)
  have visits: "(q, m) \<in> set (post_order [] ?t) \<longleftrightarrow> node_at ?t q = Some m" for q m
    using set_post_order [OF wf_trie_build] by simp
  have node: "idxs m = with_prefix seqs p \<and> (group_at n p m \<longleftrightarrow> n \<le> int (length p)
      \<and> 1 < length (with_prefix seqs p) \<and> (\<forall>x. length (with_prefix seqs (p @ [x])) \<le> 1))"
    if m: "node_at ?t p = Some m" for m
  proof -
    have "idxs m = with_prefix seqs p" using m at [of p] by (simp add: idxs_at_def)
    then show ?thesis
      using deeper_child [OF wf_trie_build m] by (auto simp: group_at_def at not_less)
  qed
  have "dict_get (find_maximal_prefix_groups seqs (Some n)) p = Some is \<longleftrightarrow>
      (\<exists>m. node_at ?t p = Some m \<and> group_at n p m \<and> is = idxs m)"
    using n dict_get_fold_decide [of p "post_order [] ?t" n "[]" "is"]
    by (simp add: find_maximal_prefix_groups_def traverse_fold frame_nodes_def visits)
  also have "\<dots> \<longleftrightarrow> n \<le> int (length p) \<and> 1 < length (with_prefix seqs p)
      \<and> (\<forall>x. length (with_prefix seqs (p @ [x])) \<le> 1) \<and> is = with_prefix seqs p"
    using node at [of p] by (cases "node_at ?t p") (auto simp: idxs_at_def)
  finally show ?thesis .
qed

lemma wf_prefix_groups: "wf_dict (find_maximal_prefix_groups seqs N)"
proof -
  have "wf_dict (fold (\<lambda>(p, n). decide_group m p n) xs result)" if "wf_dict result" for m xs result
    using that by (induction xs arbitrary: result) (auto simp: decide_group_def)
  then show ?thesis
    by (auto simp: find_maximal_prefix_groups_def traverse_fold split: option.splits)
qed

text \<open>
  C34: The groups of sequences with a maximal common prefix. For a positive length \<open>n\<close> the
  result maps a prefix to a list of indices exactly if the prefix has at least \<open>n\<close> tokens,
  at least two sequences start with it, no longer prefix is shared by two sequences that
  start with it, and the list has the indices of all sequences that start with it, in order;
  without a positive length the result is empty.
\<close>

theorem maximal_prefix_groups:
  "dict_get (find_maximal_prefix_groups seqs N) p = Some is \<longleftrightarrow>
     (case N of None \<Rightarrow> False | Some n \<Rightarrow> 1 \<le> n \<and> n \<le> int (length p)
        \<and> 1 < length (with_prefix seqs p) \<and> (\<forall>x. length (with_prefix seqs (p @ [x])) \<le> 1)
        \<and> is = with_prefix seqs p)"
  by (cases "\<exists>n. N = Some n \<and> 1 \<le> n")
    (auto simp: prefix_groups_at, auto simp: find_maximal_prefix_groups_def split: option.splits)

end
