(* ===== verification/Reward_Local.thy ===== *)
theory Reward_Local
  imports Reward_Dispatch Prefix_Groups
begin

text \<open>
  The local reward calculator (cosmos_rl/reward/base.py and cosmos_rl/reward/local_calculator.py):
  the rollouts of one payload with their rewards and advantages, the validity of a group for
  dynamic sampling, and the prefix tokens that are ignored in training because completions with
  different rewards start with them. The registered algorithm and the tokenizer are parameters.
  Lemmas: rewards stay with their completions, and a prefix is ignored only where two
  completions of different reward share it.
\<close>

section \<open>What is given from outside\<close>

text \<open>The algorithm: \<open>compute_reward\<close> gives rewards, filter rewards and metrics.\<close>

record reward_algo =
  al_compute_reward :: "pyval list \<Rightarrow> string \<Rightarrow> pyval \<Rightarrow> py_error + (rat list \<times> rat list \<times> pydict list)"
  al_compute_advantage :: "rat list \<Rightarrow> rat list"

record reward_tokenizer =
  rt_encode :: "pyval \<Rightarrow> int list"
  rt_decode :: "int list \<Rightarrow> pyval"
  rt_eos_token_id :: int

record reward_config =
  rc_non_text :: bool
  rc_rollout_as_token_ids :: bool
  rc_min_filter_prefix_tokens :: "int option"

section \<open>The rollouts of one payload\<close>

definition default_rollout :: rollout where
  "default_rollout = \<lparr>ro_prompt = PNone, ro_prompt_idx = -1, ro_conversation = None, ro_completion = PStr '''',
     ro_teacher_result_uuid = '''', ro_teacher_logprobs = None, ro_completed_conversation = None,
     ro_is_end = False, ro_reward = 0, ro_advantage = 0, ro_n_ignore_prefix_tokens = 0, ro_filter_reward = 0,
     ro_completion_token_ids = None, ro_completion_logprobs = None, ro_prompt_logprobs = None,
     ro_prompt_token_ids = None, ro_extra_info = None, ro_weight_version = 0, ro_report_metrics = None\<rparr>"

text \<open>The reward of the completion of highest cumulative log-probability; the first one wins.\<close>

fun best_reward :: "(rat \<times> rat) list \<Rightarrow> (rat \<times> rat) option \<Rightarrow> rat option" where
  "best_reward [] best = map_option fst best"
| "best_reward ((r, l) # xs) best =
     best_reward xs (case best of None \<Rightarrow> Some (r, l) | Some (b, m) \<Rightarrow> if m < l then Some (r, l) else Some (b, m))"

definition mode_metrics :: "rl_payload \<Rightarrow> rat list \<Rightarrow> pydict list \<Rightarrow> py_error + pydict list" where
  "mode_metrics p rewards metrics =
     (case pl_cumulative_logprob p of
        None \<Rightarrow> Inr metrics
      | Some ls \<Rightarrow>
          if length ls \<noteq> length rewards then Inl AssertionError
          else
            case best_reward (zip rewards ls) None of
              None \<Rightarrow> Inr metrics
            | Some b \<Rightarrow>
                Inr (dict_set ''most_likely_mode_reward_count'' (PInt 1)
                  (dict_set ''most_likely_mode_reward_mean'' (PFloat b) (hd metrics)) # tl metrics))"

text \<open>\<open>RolloutGroup.compute_rollouts\<close>.\<close>

definition compute_rollouts :: "reward_algo \<Rightarrow> bool \<Rightarrow> rl_payload \<Rightarrow> py_error + rollout list" where
  "compute_rollouts algo is_end p =
     (case pl_reference_answer p of None \<Rightarrow> Inl AssertionError | Some ref \<Rightarrow>
      case pl_completions p of None \<Rightarrow> Inl AssertionError | Some cs \<Rightarrow>
      if cs = [] then Inl AssertionError else
      bindR (al_compute_reward algo cs ref (pl_prompt p)) (\<lambda>(rewards, filters, metrics).
      if length rewards \<noteq> length filters \<or> length filters \<noteq> length metrics \<or> length metrics \<noteq> length cs
      then Inl AssertionError else
      let advantages = al_compute_advantage algo rewards in
      bindR (mode_metrics p rewards metrics) (\<lambda>metrics.
      let n = length cs;
          convs = the (fill (pl_completed_conversations p) (replicate n (Some [])));
          logprobs = the (fill (pl_completion_logprobs p) (replicate n []));
          ids = the (fill (pl_completion_token_ids p) (replicate n [])) in
      Inr (map (\<lambda>(c, conv, r, fr, m, a, lp, ti). default_rollout\<lparr>ro_prompt := pl_prompt p,
             ro_conversation := pl_conversation p, ro_completion := c, ro_completed_conversation := conv,
             ro_is_end := is_end, ro_reward := r, ro_advantage := a, ro_prompt_idx := pl_prompt_idx p,
             ro_filter_reward := fr, ro_completion_logprobs := Some lp, ro_completion_token_ids := Some ti,
             ro_report_metrics := Some m\<rparr>)
           (zip cs (zip convs (zip rewards (zip filters (zip metrics (zip advantages (zip logprobs ids)))))))))))"

section \<open>Ignored prefixes\<close>

definition first_token :: "int list \<Rightarrow> py_error + int" where
  "first_token t = (case t of [] \<Rightarrow> Inl IndexError | x # _ \<Rightarrow> Inr x)"

definition rollout_tokens :: "reward_config \<Rightarrow> reward_tokenizer \<Rightarrow> rollout list \<Rightarrow> py_error + int list list" where
  "rollout_tokens c tok rs =
     (if rc_non_text c then Inr []
      else mapR (\<lambda>r. if rc_rollout_as_token_ids c
          then (case ro_completion_token_ids r of None \<Rightarrow> Inl TypeError | Some ids \<Rightarrow> mapR first_token ids)
          else Inr (rt_encode tok (ro_completion r))) rs)"

text \<open>The body of the loop over the shared prefixes.\<close>

definition ignore_prefix :: "reward_tokenizer \<Rightarrow> int list \<times> nat list \<Rightarrow> rollout list \<Rightarrow> py_error + rollout list" where
  "ignore_prefix tok g rs =
     (let (prefix, is) = g in
      if length is \<le> 1 then Inl AssertionError
      else if length (remdups (map (\<lambda>i. ro_reward (rs ! i)) is)) \<le> 1 then Inr rs
      else
        let shown = (if List.last prefix = rt_eos_token_id tok then butlast prefix else prefix);
            text' = rt_decode tok shown in
        Inr (fold (\<lambda>i rs. if text' \<noteq> ro_completion (rs ! i)
                then rs[i := (rs ! i)\<lparr>ro_n_ignore_prefix_tokens := int (length prefix)\<rparr>] else rs) is rs))"

definition mark_prefixes :: "reward_config \<Rightarrow> reward_tokenizer \<Rightarrow> int list list \<Rightarrow> rollout list \<Rightarrow> py_error + rollout list" where
  "mark_prefixes c tok tokens rs =
     forR (find_maximal_prefix_groups tokens (rc_min_filter_prefix_tokens c)) (ignore_prefix tok) rs"

section \<open>The payloads sent back\<close>

text \<open>The fields both kinds of result have.\<close>

definition group_payload :: "rl_payload \<Rightarrow> rollout list \<Rightarrow> py_error + rl_payload" where
  "group_payload p rs = (if rs = [] then Inl IndexError else Inr (default_payload\<lparr>pl_prompt := ro_prompt (hd rs), pl_prompt_idx := ro_prompt_idx (hd rs),
     pl_conversation := ro_conversation (hd rs), pl_completions := Some (map ro_completion rs),
     pl_completed_conversations := Some (map ro_completed_conversation rs),
     pl_n_ignore_prefix_tokens := Some (map ro_n_ignore_prefix_tokens rs),
     pl_rewards := Some (map ro_reward rs), pl_advantages := Some (map ro_advantage rs),
     pl_filter_rewards := Some (map ro_filter_reward rs), pl_weight_version := pl_weight_version p,
     pl_report_metrics := Some (map (\<lambda>r. the (fill (ro_report_metrics r) [])) rs),
     pl_cumulative_logprob := pl_cumulative_logprob p, pl_teacher_result_uuids := pl_teacher_result_uuids p,
     pl_prompt_logprobs := pl_prompt_logprobs p, pl_prompt_token_ids := pl_prompt_token_ids p\<rparr>))"

definition training_payload :: "reward_config \<Rightarrow> reward_tokenizer \<Rightarrow> rl_payload \<Rightarrow> rollout list \<Rightarrow> py_error + rl_payload" where
  "training_payload c tok p rs =
     bindR (rollout_tokens c tok rs) (\<lambda>tokens.
     let valid = 1 < length (remdups (map ro_filter_reward rs)) in
     bindR (if valid then mark_prefixes c tok tokens rs else Inr rs) (\<lambda>rs.
     bindR (group_payload p rs) (\<lambda>q.
     Inr (q\<lparr>pl_valid := Some valid,
       pl_completion_logprobs := Some (map (\<lambda>r. the (fill (ro_completion_logprobs r) [])) rs),
       pl_completion_token_ids := Some (map (\<lambda>r. the (fill (ro_completion_token_ids r) [])) rs)\<rparr>))))"

definition compute_rewards ::
  "reward_config \<Rightarrow> reward_tokenizer \<Rightarrow> reward_algo \<Rightarrow> reward_algo \<Rightarrow> rl_payload list \<Rightarrow> bool \<Rightarrow> int \<Rightarrow>
   py_error + reward_result" where
  "compute_rewards c tok algo val_algo payloads is_validation step =
     (if \<not> list_all (\<lambda>p. 0 \<le> pl_prompt_idx p) payloads then Inl AssertionError
      else if is_validation then
        bindR (mapR (compute_rollouts val_algo True) payloads) (\<lambda>groups.
        bindR (mapR (\<lambda>(p, rs). bindR (group_payload p rs) (\<lambda>q. Inr (q\<lparr>pl_valid := Some True\<rparr>)))
          (zip payloads groups)) (\<lambda>ps. Inr (ps, True, step)))
      else
        bindR (mapR (compute_rollouts algo False) payloads) (\<lambda>groups.
        bindR (mapR (\<lambda>(p, rs). training_payload c tok p rs) (zip payloads groups)) (\<lambda>ps.
        Inr (ps, False, step))))"

section \<open>Rewards stay with their completions\<close>

text \<open>The optional lists of a payload, where present, are as long as its completions.\<close>

definition result_lists_match :: "rl_payload \<Rightarrow> bool" where
  "result_lists_match p \<longleftrightarrow>
     list_all (\<lambda>n. n = completions_of p)
       (map length (case pl_completed_conversations p of None \<Rightarrow> [] | Some xs \<Rightarrow> [xs])
        @ map length (case pl_completion_logprobs p of None \<Rightarrow> [] | Some xs \<Rightarrow> [xs])
        @ map length (case pl_completion_token_ids p of None \<Rightarrow> [] | Some xs \<Rightarrow> [xs]))"

lemma length_fill_match:
  assumes "result_lists_match p" "pl_completions p = Some cs"
  shows "length (the (fill (pl_completed_conversations p) (replicate (length cs) d))) = length cs"
    and "length (the (fill (pl_completion_logprobs p) (replicate (length cs) e))) = length cs"
    and "length (the (fill (pl_completion_token_ids p) (replicate (length cs) e'))) = length cs"
  using assms by (auto simp: result_lists_match_def completions_of_def fill_def split: option.splits)

lemma mode_metrics_length:
  "mode_metrics p rewards metrics = Inr ms \<Longrightarrow> metrics \<noteq> [] \<Longrightarrow> length ms = length metrics"
  by (auto simp: mode_metrics_def split: option.splits if_splits)

lemma compute_rollouts_Inr:
  assumes ok: "compute_rollouts algo e p = Inr rs"
    and adv: "\<And>xs. length (al_compute_advantage algo xs) = length xs" and len: "result_lists_match p"
  obtains cs ref rewards filters metrics where
    "pl_completions p = Some cs" "cs \<noteq> []" "pl_reference_answer p = Some ref"
    "al_compute_reward algo cs ref (pl_prompt p) = Inr (rewards, filters, metrics)"
    "map ro_completion rs = cs" "map ro_reward rs = rewards" "map ro_filter_reward rs = filters"
    "map ro_advantage rs = al_compute_advantage algo rewards"
    "\<And>r. r \<in> set rs \<Longrightarrow> ro_prompt r = pl_prompt p \<and> ro_prompt_idx r = pl_prompt_idx p
       \<and> ro_conversation r = pl_conversation p \<and> ro_n_ignore_prefix_tokens r = 0"
proof -
  from ok obtain cs ref where cs: "pl_completions p = Some cs" "cs \<noteq> []" "pl_reference_answer p = Some ref"
    by (auto simp: compute_rollouts_def split: option.splits if_splits)
  with ok obtain rewards filters metrics ms where
    cr: "al_compute_reward algo cs ref (pl_prompt p) = Inr (rewards, filters, metrics)"
    and lens: "length rewards = length filters" "length filters = length metrics" "length metrics = length cs"
    and ms: "mode_metrics p rewards metrics = Inr ms"
    and rs: "rs = map (\<lambda>(c, conv, r, fr, m, a, lp, ti). default_rollout\<lparr>ro_prompt := pl_prompt p,
             ro_conversation := pl_conversation p, ro_completion := c, ro_completed_conversation := conv,
             ro_is_end := e, ro_reward := r, ro_advantage := a, ro_prompt_idx := pl_prompt_idx p,
             ro_filter_reward := fr, ro_completion_logprobs := Some lp, ro_completion_token_ids := Some ti,
             ro_report_metrics := Some m\<rparr>)
         (zip cs (zip (the (fill (pl_completed_conversations p) (replicate (length cs) (Some []))))
           (zip rewards (zip filters (zip ms (zip (al_compute_advantage algo rewards)
             (zip (the (fill (pl_completion_logprobs p) (replicate (length cs) [])))
               (the (fill (pl_completion_token_ids p) (replicate (length cs) []))))))))))"
    by (auto simp: compute_rollouts_def Let_def split: option.splits if_splits elim!: bindR_InrE)
  have m: "length ms = length cs"
    using mode_metrics_length [OF ms] lens cs by (cases metrics) auto
  note lengths = lens m adv length_fill_match [OF len cs(1)]
  show thesis
  proof (rule that [OF cs cr])
    show "map ro_completion rs = cs" "map ro_reward rs = rewards" "map ro_filter_reward rs = filters"
      "map ro_advantage rs = al_compute_advantage algo rewards"
      using lengths by (auto simp: rs intro!: nth_equalityI)
    show "ro_prompt r = pl_prompt p \<and> ro_prompt_idx r = pl_prompt_idx p
       \<and> ro_conversation r = pl_conversation p \<and> ro_n_ignore_prefix_tokens r = 0" if "r \<in> set rs" for r
      using that by (auto simp: rs default_rollout_def)
  qed
qed

section \<open>What marking a prefix changes\<close>

text \<open>Two rollouts that differ at most in the number of ignored tokens.\<close>

definition same_but_ignored :: "rollout \<Rightarrow> rollout \<Rightarrow> bool" where
  "same_but_ignored r r' \<longleftrightarrow> r' = r\<lparr>ro_n_ignore_prefix_tokens := ro_n_ignore_prefix_tokens r'\<rparr>"

lemma same_but_ignored_refl [simp]: "same_but_ignored r r"
  by (simp add: same_but_ignored_def)

lemma same_but_ignored_trans: "same_but_ignored a b \<Longrightarrow> same_but_ignored b c \<Longrightarrow> same_but_ignored a c"
  unfolding same_but_ignored_def by (metis rollout.update_convs(11) rollout.surjective)

text \<open>\<open>marks P rs rs'\<close>: \<open>rs'\<close> are the rollouts \<open>rs\<close>, some with a new number of ignored
  tokens, which then satisfies \<open>P\<close> at that position.\<close>

definition marks :: "(nat \<Rightarrow> int \<Rightarrow> bool) \<Rightarrow> rollout list \<Rightarrow> rollout list \<Rightarrow> bool" where
  "marks P rs rs' \<longleftrightarrow> length rs' = length rs \<and> (\<forall>i < length rs. same_but_ignored (rs ! i) (rs' ! i)
     \<and> (ro_n_ignore_prefix_tokens (rs' ! i) = ro_n_ignore_prefix_tokens (rs ! i)
        \<or> P i (ro_n_ignore_prefix_tokens (rs' ! i))))"

lemma marks_refl [simp]: "marks P rs rs"
  by (simp add: marks_def)

lemma marks_trans: "marks P rs rs' \<Longrightarrow> marks P rs' rs'' \<Longrightarrow> marks P rs rs''"
  unfolding marks_def by (metis same_but_ignored_trans)

lemma marks_update:
  assumes "P i k"
  shows "marks P rs (rs[i := (rs ! i)\<lparr>ro_n_ignore_prefix_tokens := k\<rparr>])"
  using assms
  by (cases "i < length rs") (auto simp: marks_def nth_list_update same_but_ignored_def list_update_beyond)

lemma marks_fields:
  assumes "marks P rs rs'"
  shows "map ro_completion rs' = map ro_completion rs" "map ro_reward rs' = map ro_reward rs"
    "map ro_advantage rs' = map ro_advantage rs" "map ro_filter_reward rs' = map ro_filter_reward rs"
    "map ro_prompt rs' = map ro_prompt rs" "map ro_prompt_idx rs' = map ro_prompt_idx rs"
    "map ro_conversation rs' = map ro_conversation rs" "length rs' = length rs"
  using assms unfolding marks_def same_but_ignored_def
  by (auto intro!: nth_equalityI) (metis rollout.select_convs rollout.surjective rollout.update_convs(11))+

text \<open>A prefix of \<open>k\<close> tokens may be ignored in a rollout: it is long enough, and two rollouts
  with different rewards start with it.\<close>

definition may_ignore :: "int option \<Rightarrow> int list list \<Rightarrow> rollout list \<Rightarrow> nat \<Rightarrow> int \<Rightarrow> bool" where
  "may_ignore N tokens rs i k \<longleftrightarrow> (\<exists>q j j'. k = int (length q) \<and> (\<exists>n. N = Some n \<and> 1 \<le> n \<and> n \<le> k)
     \<and> j < length tokens \<and> j' < length tokens \<and> prefix q (tokens ! i) \<and> prefix q (tokens ! j)
     \<and> prefix q (tokens ! j') \<and> ro_reward (rs ! j) \<noteq> ro_reward (rs ! j'))"

lemma fold_ignore_marks:
  assumes "\<And>i. i \<in> set is \<Longrightarrow> P i k"
  shows "marks P rs (fold (\<lambda>i rs. if t \<noteq> ro_completion (rs ! i)
      then rs[i := (rs ! i)\<lparr>ro_n_ignore_prefix_tokens := k\<rparr>] else rs) is rs)"
  using assms
proof (induction "is" arbitrary: rs)
  case (Cons i "is")
  let ?rs = "if t \<noteq> ro_completion (rs ! i) then rs[i := (rs ! i)\<lparr>ro_n_ignore_prefix_tokens := k\<rparr>] else rs"
  have "marks P rs ?rs" using Cons.prems marks_update by simp
  moreover have "marks P ?rs (fold (\<lambda>i rs. if t \<noteq> ro_completion (rs ! i)
      then rs[i := (rs ! i)\<lparr>ro_n_ignore_prefix_tokens := k\<rparr>] else rs) is ?rs)"
    using Cons.prems by (intro Cons.IH) simp
  ultimately show ?case by (auto dest: marks_trans)
qed simp

lemma two_values:
  assumes "\<not> length (remdups xs) \<le> 1"
  obtains x y where "x \<in> set xs" "y \<in> set xs" "x \<noteq> y"
proof -
  obtain x y zs where "remdups xs = x # y # zs"
    using assms by (cases "remdups xs" rule: remdups_adj.cases) auto
  then have "x \<in> set xs" "y \<in> set xs" "x \<noteq> y"
    using distinct_remdups [of xs] set_remdups [of xs] by auto
  then show thesis by (rule that)
qed

lemma ignore_prefix_marks:
  assumes "ignore_prefix tok (q, is) rs = Inr rs'" and "is = with_prefix tokens q"
    and "N = Some n" "1 \<le> n" "n \<le> int (length q)" and "length tokens = length rs0"
    and "marks P rs0 rs"
  shows "marks (may_ignore N tokens rs0) rs rs'"
proof (cases "length (remdups (map (\<lambda>i. ro_reward (rs ! i)) is)) \<le> 1")
  case True
  then show ?thesis using assms(1) by (auto simp: ignore_prefix_def split: if_splits)
next
  case False
  obtain x y where "x \<in> set (map (\<lambda>i. ro_reward (rs ! i)) is)" "y \<in> set (map (\<lambda>i. ro_reward (rs ! i)) is)" "x \<noteq> y"
    by (rule two_values [OF False])
  then obtain j j' where j: "j \<in> set is" "j' \<in> set is" "ro_reward (rs ! j) \<noteq> ro_reward (rs ! j')"
    by auto
  have mem: "i < length tokens \<and> prefix q (tokens ! i)" if "i \<in> set is" for i
    using that by (simp add: assms(2) with_prefix_def)
  have "ro_reward (rs ! i) = ro_reward (rs0 ! i)" if "i \<in> set is" for i
    using marks_fields(2,8) [OF assms(7)] mem [OF that] assms(6) by (metis nth_map)
  then have "may_ignore N tokens rs0 i (int (length q))" if "i \<in> set is" for i
    unfolding may_ignore_def using j mem that assms(3-5) by metis
  then show ?thesis
    using assms(1) False by (auto simp: ignore_prefix_def Let_def split: if_splits intro!: fold_ignore_marks)
qed

lemma mark_prefixes_any:
  assumes "mark_prefixes c tok tokens rs = Inr rs'"
  shows "marks (\<lambda>_ _. True) rs rs'"
proof -
  have one: "marks (\<lambda>_ _. True) r r'" if "ignore_prefix tok g r = Inr r'" for g r r'
    using that by (auto simp: ignore_prefix_def Let_def split: prod.splits if_splits intro!: fold_ignore_marks)
  have "marks (\<lambda>_ _. True) r r'" if "forR gs (ignore_prefix tok) r = Inr r'" for gs r r'
    using that by (induction gs arbitrary: r) (auto elim!: bindR_InrE dest: one intro: marks_trans)
  then show ?thesis using assms by (simp add: mark_prefixes_def)
qed

lemma mark_prefixes_marks:
  assumes "mark_prefixes c tok tokens rs = Inr rs'" and "length tokens = length rs"
  shows "marks (may_ignore (rc_min_filter_prefix_tokens c) tokens rs) rs rs'"
proof -
  let ?P = "may_ignore (rc_min_filter_prefix_tokens c) tokens rs"
  have "marks ?P rs r'" if "forR gs (ignore_prefix tok) r = Inr r'" "marks ?P rs r"
    "set gs \<subseteq> set (find_maximal_prefix_groups tokens (rc_min_filter_prefix_tokens c))" for gs r r'
    using that
  proof (induction gs arbitrary: r)
    case (Cons g gs)
    obtain q "is" where g: "g = (q, is)" by fastforce
    then have "dict_get (find_maximal_prefix_groups tokens (rc_min_filter_prefix_tokens c)) q = Some is"
      using Cons.prems(3) wf_prefix_groups [of tokens "rc_min_filter_prefix_tokens c"]
      by (simp add: dict_get_def wf_dict_def)
    moreover from this obtain n where n: "rc_min_filter_prefix_tokens c = Some n" "1 \<le> n"
      by (auto simp: find_maximal_prefix_groups_def split: option.splits if_splits)
    ultimately have q: "is = with_prefix tokens q" "n \<le> int (length q)"
      using prefix_groups_at [OF n(2)] by auto
    obtain r1 where r1: "ignore_prefix tok (q, is) r = Inr r1" "forR gs (ignore_prefix tok) r1 = Inr r'"
      using Cons.prems(1) g by auto
    have "marks ?P rs r1"
      using ignore_prefix_marks [OF r1(1) q(1) n q(2) assms(2) Cons.prems(2)] Cons.prems(2) marks_trans by blast
    then show ?case
      using Cons.IH [OF r1(2)] Cons.prems(3) by simp
  qed simp
  then show ?thesis using assms(1) by (simp add: mark_prefixes_def)
qed

section \<open>Properties\<close>

definition aligned :: "reward_algo \<Rightarrow> rl_payload \<Rightarrow> rl_payload \<Rightarrow> bool" where
  "aligned algo p q \<longleftrightarrow> (\<exists>cs ref rewards filters metrics.
     pl_completions p = Some cs \<and> pl_reference_answer p = Some ref
     \<and> al_compute_reward algo cs ref (pl_prompt p) = Inr (rewards, filters, metrics)
     \<and> pl_completions q = Some cs \<and> pl_rewards q = Some rewards \<and> pl_filter_rewards q = Some filters
     \<and> pl_advantages q = Some (al_compute_advantage algo rewards)
     \<and> pl_prompt q = pl_prompt p \<and> pl_prompt_idx q = pl_prompt_idx p \<and> pl_conversation q = pl_conversation p
     \<and> pl_weight_version q = pl_weight_version p
     \<and> pl_valid q = Some (\<exists>x \<in> set filters. \<exists>y \<in> set filters. x \<noteq> y))"

lemma one_value: "1 < length (remdups xs) \<longleftrightarrow> (\<exists>x \<in> set xs. \<exists>y \<in> set xs. x \<noteq> y)"
proof
  assume "1 < length (remdups xs)"
  then show "\<exists>x \<in> set xs. \<exists>y \<in> set xs. x \<noteq> y" using two_values [of xs] by (metis not_less)
next
  assume "\<exists>x \<in> set xs. \<exists>y \<in> set xs. x \<noteq> y"
  then have "\<not> card (set xs) \<le> 1" by (auto simp: card_le_Suc0_iff_eq)
  then show "1 < length (remdups xs)" by (simp add: length_remdups_card_conv)
qed

lemma training_payload_aligned:
  assumes rs: "compute_rollouts algo False p = Inr rs" and q: "training_payload c tok p rs = Inr q"
    and adv: "\<And>xs. length (al_compute_advantage algo xs) = length xs" and len: "result_lists_match p"
  shows "aligned algo p q"
proof -
  obtain cs ref rewards filters metrics where r: "pl_completions p = Some cs" "cs \<noteq> []"
    "pl_reference_answer p = Some ref" "al_compute_reward algo cs ref (pl_prompt p) = Inr (rewards, filters, metrics)"
    "map ro_completion rs = cs" "map ro_reward rs = rewards" "map ro_filter_reward rs = filters"
    "map ro_advantage rs = al_compute_advantage algo rewards"
    "\<And>r. r \<in> set rs \<Longrightarrow> ro_prompt r = pl_prompt p \<and> ro_prompt_idx r = pl_prompt_idx p
       \<and> ro_conversation r = pl_conversation p \<and> ro_n_ignore_prefix_tokens r = 0"
    by (rule compute_rollouts_Inr [OF rs adv len]) blast
  obtain tokens rs' q0 where t: "rollout_tokens c tok rs = Inr tokens"
    "(if 1 < length (remdups (map ro_filter_reward rs)) then mark_prefixes c tok tokens rs else Inr rs) = Inr rs'"
    "group_payload p rs' = Inr q0"
    "q = q0\<lparr>pl_valid := Some (1 < length (remdups (map ro_filter_reward rs))),
       pl_completion_logprobs := Some (map (\<lambda>r. the (fill (ro_completion_logprobs r) [])) rs'),
       pl_completion_token_ids := Some (map (\<lambda>r. the (fill (ro_completion_token_ids r) [])) rs')\<rparr>"
    using q by (auto simp: training_payload_def Let_def elim!: bindR_InrE)
  have "marks (\<lambda>_ _. True) rs rs'"
    using t(2) mark_prefixes_any by (auto split: if_splits)
  note f = marks_fields [OF this]
  have ne: "rs' \<noteq> []" using t(3) by (auto simp: group_payload_def split: if_splits)
  have "ro_prompt (hd rs') = pl_prompt p" "ro_prompt_idx (hd rs') = pl_prompt_idx p"
    "ro_conversation (hd rs') = pl_conversation p"
    using f(5-7) r(9) [of "hd rs"] ne f(8) by (metis hd_map hd_in_set length_0_conv)+
  then show ?thesis
    unfolding aligned_def using t(3) t(4) [unfolded one_value] r f ne
    by - (rule exI [of _ cs], rule exI [of _ ref], rule exI [of _ rewards], rule exI [of _ filters],
        rule exI [of _ metrics], auto simp: group_payload_def simp del: set_map)
qed

text \<open>
  Rewards stay with their completions. If the advantages of an algorithm are as many as
  its rewards and the optional lists of the payloads fit their completions, then the training
  rewards of a batch, when they can be computed, come back as one payload per payload, in
  order: with the same prompt, completions and weight version, the rewards, filter rewards
  and advantages the algorithm gave to those completions, and marked as valid exactly if two
  of the filter rewards differ.
\<close>

theorem local_rewards_aligned:
  assumes "\<forall>xs. length (al_compute_advantage algo xs) = length xs"
    and "list_all result_lists_match payloads"
    and "compute_rewards c tok algo val_algo payloads False step = Inr (out, v, s)"
  shows "\<not> v \<and> s = step \<and> list_all2 (aligned algo) payloads out"
proof -
  from assms(3) obtain groups where v: "\<not> v" "s = step"
    and groups: "list_all2 (\<lambda>p rs. compute_rollouts algo False p = Inr rs) payloads groups"
    and out: "list_all2 (\<lambda>(p, rs) q. training_payload c tok p rs = Inr q) (zip payloads groups) out"
    by (auto simp: compute_rewards_def mapR_Inr_iff case_prod_unfold split: if_splits elim!: bindR_InrE)
  have "aligned algo (payloads ! i) (out ! i)" if "i < length payloads" for i
    using groups out assms(1,2) that
    by (intro training_payload_aligned [of algo _ "groups ! i" c tok])
      (auto simp: list_all2_conv_all_nth list_all_length)
  then show ?thesis
    using v groups out by (auto simp: list_all2_conv_all_nth)
qed

text \<open>
  C33: Ignored prefixes. A training payload ignores the first \<open>k > 0\<close> tokens of a completion
  only if \<open>k\<close> is at least the configured minimum, and two completions of the group with
  different rewards start with the same \<open>k\<close> tokens as it does.
\<close>

theorem ignored_prefix_sound:
  assumes "\<forall>xs. length (al_compute_advantage algo xs) = length xs" and "result_lists_match p"
    and "compute_rollouts algo False p = Inr rs" and "training_payload c tok p rs = Inr q"
    and "\<not> rc_non_text c" and "rollout_tokens c tok rs = Inr tokens"
  shows "\<exists>ks. pl_n_ignore_prefix_tokens q = Some ks \<and> length ks = length rs \<and>
    (\<forall>i < length rs. ks ! i = 0 \<or> (\<exists>t j j'. ks ! i = int (length t)
       \<and> (\<exists>n. rc_min_filter_prefix_tokens c = Some n \<and> n \<le> ks ! i)
       \<and> j < length rs \<and> j' < length rs \<and> ro_reward (rs ! j) \<noteq> ro_reward (rs ! j')
       \<and> prefix t (tokens ! i) \<and> prefix t (tokens ! j) \<and> prefix t (tokens ! j')))"
proof -
  have zero: "r \<in> set rs \<Longrightarrow> ro_n_ignore_prefix_tokens r = 0" for r
    using compute_rollouts_Inr [OF assms(3) _ assms(2)] assms(1) by metis
  have len: "length tokens = length rs"
    using assms(5,6) by (auto simp: rollout_tokens_def mapR_Inr_iff dest: list_all2_lengthD)
  obtain rs' where rs': "pl_n_ignore_prefix_tokens q = Some (map ro_n_ignore_prefix_tokens rs')"
    and mark: "(if 1 < length (remdups (map ro_filter_reward rs)) then mark_prefixes c tok tokens rs else Inr rs) = Inr rs'"
    using assms(4,6) by (auto simp: training_payload_def group_payload_def Let_def split: if_splits elim!: bindR_InrE)
  have m: "marks (may_ignore (rc_min_filter_prefix_tokens c) tokens rs) rs rs'"
    using mark mark_prefixes_marks [OF _ len] by (auto split: if_splits)
  have "ro_n_ignore_prefix_tokens (rs' ! i) = 0 \<or>
      may_ignore (rc_min_filter_prefix_tokens c) tokens rs i (ro_n_ignore_prefix_tokens (rs' ! i))"
    if "i < length rs" for i
    using m that zero [of "rs ! i"] by (auto simp: marks_def)
  then show ?thesis
    using m rs' len unfolding may_ignore_def marks_def
    by (intro exI [of _ "map ro_n_ignore_prefix_tokens rs'"]) (simp, meson)
qed

section \<open>Witnesses\<close>

definition ex_algo :: reward_algo where
  "ex_algo = \<lparr>al_compute_reward = (\<lambda>cs ref prompt. Inr (map (\<lambda>c. if c = PStr ref then 1 else 0) cs,
     map (\<lambda>c. if c = PStr ref then 1 else 0) cs, map (\<lambda>_. []) cs)),
     al_compute_advantage = map (\<lambda>r. r - 1 / 2)\<rparr>"

definition ex_tokenizer :: reward_tokenizer where
  "ex_tokenizer = \<lparr>rt_encode = (\<lambda>v. case v of PStr s \<Rightarrow> map (\<lambda>c. int (of_char c)) s | _ \<Rightarrow> []),
     rt_decode = (\<lambda>ts. PStr (map (\<lambda>t. char_of (nat t)) ts)), rt_eos_token_id = 0\<rparr>"

definition ex_config :: reward_config where
  "ex_config = \<lparr>rc_non_text = False, rc_rollout_as_token_ids = False, rc_min_filter_prefix_tokens = Some 2\<rparr>"

definition ex_answers :: rl_payload where
  "ex_answers = default_payload\<lparr>pl_prompt := PStr ''q'', pl_prompt_idx := 4, pl_reference_answer := Some ''abc'',
     pl_weight_version := 3, pl_completions := Some [PStr ''abc'', PStr ''abd'', PStr ''x'']\<rparr>"

theorem local_rewards_aligned_witness:
  "\<exists>out. compute_rewards ex_config ex_tokenizer ex_algo ex_algo [ex_answers] False 3 = Inr (out, False, 3)
     \<and> list_all2 (aligned ex_algo) [ex_answers] out"
proof -
  have "case compute_rewards ex_config ex_tokenizer ex_algo ex_algo [ex_answers] False 3 of
      Inl e \<Rightarrow> False | Inr (out, v, s) \<Rightarrow> \<not> v \<and> s = 3"
    by code_simp
  then obtain out where "compute_rewards ex_config ex_tokenizer ex_algo ex_algo [ex_answers] False 3 = Inr (out, False, 3)"
    by (auto split: sum.splits)
  moreover have "list_all result_lists_match [ex_answers]" by code_simp
  ultimately show ?thesis
    using local_rewards_aligned [of ex_algo "[ex_answers]" ex_config ex_tokenizer ex_algo 3 out False 3]
    by (simp add: ex_algo_def)
qed

theorem ignored_prefix_sound_witness:
  "\<exists>rs q. compute_rollouts ex_algo False ex_answers = Inr rs
     \<and> training_payload ex_config ex_tokenizer ex_answers rs = Inr q
     \<and> pl_n_ignore_prefix_tokens q = Some [2, 2, 0]
     \<and> (\<exists>(t :: int list) j j'. length t = 2 \<and> j < 3 \<and> j' < 3 \<and> ro_reward (rs ! j) \<noteq> ro_reward (rs ! j'))"
proof -
  define rs where "rs = projr (compute_rollouts ex_algo False ex_answers)"
  define q where "q = projr (training_payload ex_config ex_tokenizer ex_answers rs)"
  define tokens where "tokens = projr (rollout_tokens ex_config ex_tokenizer rs)"
  have ok: "compute_rollouts ex_algo False ex_answers = Inr rs"
    "training_payload ex_config ex_tokenizer ex_answers rs = Inr q"
    "rollout_tokens ex_config ex_tokenizer rs = Inr tokens"
    unfolding tokens_def q_def rs_def by code_simp+
  have vals: "pl_n_ignore_prefix_tokens q = Some [2, 2, 0] \<and> length rs = 3"
    unfolding q_def rs_def by code_simp
  have "result_lists_match ex_answers" "\<not> rc_non_text ex_config" by code_simp+
  with ok have "\<exists>ks. pl_n_ignore_prefix_tokens q = Some ks \<and> length ks = length rs \<and>
    (\<forall>i < length rs. ks ! i = 0 \<or> (\<exists>t j j'. ks ! i = int (length t)
       \<and> (\<exists>n. rc_min_filter_prefix_tokens ex_config = Some n \<and> n \<le> ks ! i)
       \<and> j < length rs \<and> j' < length rs \<and> ro_reward (rs ! j) \<noteq> ro_reward (rs ! j')
       \<and> prefix t (tokens ! i) \<and> prefix t (tokens ! j) \<and> prefix t (tokens ! j')))"
    by (intro ignored_prefix_sound [of ex_algo ex_answers rs ex_config ex_tokenizer q tokens])
      (simp_all add: ex_algo_def)
  then obtain ks where ks: "ks = [2, 2, 0]" and
    sound: "\<forall>i < length rs. ks ! i = 0 \<or> (\<exists>t j j'. ks ! i = int (length t)
       \<and> (\<exists>n. rc_min_filter_prefix_tokens ex_config = Some n \<and> n \<le> ks ! i)
       \<and> j < length rs \<and> j' < length rs \<and> ro_reward (rs ! j) \<noteq> ro_reward (rs ! j')
       \<and> prefix t (tokens ! i) \<and> prefix t (tokens ! j) \<and> prefix t (tokens ! j'))"
    using vals by (metis option.inject)
  obtain t :: "int list" and j j' where t: "ks ! 0 = int (length t)" "j < 3" "j' < 3"
    "ro_reward (rs ! j) \<noteq> ro_reward (rs ! j')"
    using sound [rule_format, of 0] vals ks by (metis nth_Cons_0 zero_less_numeral zero_neq_numeral)
  then have "length t = 2" using ks by simp
  then show ?thesis
    using ok vals t by blast
qed

end
