(* ===== verification/Rollout_Worker.thy ===== *)
theory Rollout_Worker
  imports Reward_Dispatch
begin

text \<open>
  The disaggregated rollout worker (class \<open>DisaggregatedRolloutControlWorker\<close> of
  cosmos_rl/rollout/worker/rollout_control.py), up to its main loop: fetching prompts, scattering
  them over the data-parallel ranks, filtering generated results, reporting rewards and
  discards to the controller, the end signal, and the weight commands. The generation engine,
  the data packer, the local dataset, the controller's answers and the reward service are
  inputs. Teacher requests (distillation) and the transfer of tensors are not modelled.
\<close>

section \<open>State\<close>

record rollout_result =
  rr_completions :: "pyval list option"
  rr_completed_conversations :: "conversation list option"
  rr_completion_logprobs :: "rat list list list option"
  rr_prompt_logprobs :: "rat list list option"
  rr_completion_token_ids :: "int list list list option"
  rr_cumulative_logprob :: "rat list option"
  rr_prompt_token_ids :: "int list list option"
  rr_extra_info :: "pydict option"

text \<open>What the worker posts to the controller. \<open>rw_prefetched\<close> below is the batch the prefetch
  thread has fetched and not yet put into the queue (a local variable of its loop).\<close>

datatype worker_post =
    PostRollouts "rl_payload list" "(string, nat) dict"
  | PostDiscarded int nat
  | PostEnd
  | PostValidation "int option" "rl_payload list"

record rollout_worker =
  rw_state :: int
  rw_current_weight_version :: int
  rw_current_step :: "int option"
  rw_validation_flag :: bool
  rw_shutdown :: bool
  rw_p2r_received :: bool
  rw_non_trainable_params_received :: bool
  rw_rollout_end_acknowledged :: bool
  rw_replica_name_to_rank :: "(string, int) dict"
  rw_rank_in_rollout_repicas :: int
  rw_prompt_queue :: "rl_payload list list"
  rw_prefetched :: "rl_payload list option"
  rw_rewards :: reward_dispatcher
  rw_posts :: "worker_post list"
  rw_uuids :: nat

text \<open>\<open>__init__\<close>.\<close>

definition init_worker :: rollout_worker where
  "init_worker = \<lparr>rw_state = UNINITIALIZED, rw_current_weight_version = 0, rw_current_step = None,
     rw_validation_flag = False, rw_shutdown = False, rw_p2r_received = False,
     rw_non_trainable_params_received = False, rw_rollout_end_acknowledged = False,
     rw_replica_name_to_rank = [], rw_rank_in_rollout_repicas = -1, rw_prompt_queue = [], rw_prefetched = None,
     rw_rewards = init_dispatcher, rw_posts = [], rw_uuids = 0\<rparr>"

text \<open>The local dataset (prompt, conversation and reference answer of an index, for training
  or validation), the data packer's conversion of a payload's output, and the rewards.\<close>

record worker_env =
  we_prompt :: "bool \<Rightarrow> int \<Rightarrow> pyval \<times> conversation option"
  we_reference_answer :: "bool \<Rightarrow> int \<Rightarrow> string option"
  we_rollout_output :: "rl_payload \<Rightarrow> rl_payload"
  we_rewards :: reward_env

type_synonym 'a step_result = "(py_error \<times> rollout_worker) + ('a \<times> rollout_worker)"

definition post :: "worker_post \<Rightarrow> rollout_worker \<Rightarrow> rollout_worker" where
  "post p w = w\<lparr>rw_posts := rw_posts w @ [p]\<rparr>"

definition single_producer_mode :: "worker_config \<Rightarrow> bool" where
  "single_producer_mode c \<longleftrightarrow> wc_prefetch_rollout c \<and> wc_world_size c = 1"

definition prompt_fetch_target_depth :: "worker_config \<Rightarrow> bool \<Rightarrow> int" where
  "prompt_fetch_target_depth c prep_overlap = (if prep_overlap then wc_prefetch_queue_maxsize c else 1)"

section \<open>Fetching prompts\<close>

text \<open>The slice \<open>prompts[rank::n]\<close>.\<close>

definition stride :: "nat \<Rightarrow> nat \<Rightarrow> 'a list \<Rightarrow> 'a list" where
  "stride rank n xs = map ((!) xs) (filter (\<lambda>i. i mod n = rank) [0..<length xs])"

definition localise :: "worker_env \<Rightarrow> worker_config \<Rightarrow> bool \<Rightarrow> rl_payload \<Rightarrow> rl_payload" where
  "localise env c is_validation p =
     (if wc_local_dataset c then
        let (prompt, conv) = we_prompt env is_validation (pl_prompt_idx p) in
        p\<lparr>pl_prompt := prompt, pl_conversation := conv\<rparr>
      else p)"

text \<open>The part on global rank 0: the answer of the controller is only asked for when the queue
  is below the bound.\<close>

definition worker_fetch_prompts ::
  "worker_env \<Rightarrow> worker_config \<Rightarrow> bool \<Rightarrow> rl_payload list \<times> bool \<Rightarrow> nat \<Rightarrow> int \<Rightarrow> rollout_worker \<Rightarrow>
   py_error + (rl_payload list option \<times> bool)" where
  "worker_fetch_prompts env c is_validation answer qsize max_pending_batches w =
     (if int qsize < max_pending_batches then
        let (payloads, is_end) = answer;
            n = int (length (rw_replica_name_to_rank w)) in
        if \<not> list_all (\<lambda>p. 0 \<le> pl_prompt_idx p) payloads then Inl AssertionError
        else if wc_data_dispatch_as_rank_in_mesh c \<and> payloads \<noteq> [] \<and> n = 0 then Inl ZeroDivisionError
        else if wc_data_dispatch_as_rank_in_mesh c
            \<and> \<not> list_all (\<lambda>p. pl_prompt_idx p mod n = rw_rank_in_rollout_repicas w) payloads
        then Inl AssertionError
        else
          let payloads = map (localise env c is_validation) payloads in
          Inr (if payloads \<noteq> [] then Some payloads else None, is_end)
      else Inr (None, False))"

text \<open>The broadcast to all ranks and the scatter over the data-parallel ranks, as this rank
  sees it.\<close>

definition scatter_prompts :: "worker_config \<Rightarrow> rl_payload list option \<Rightarrow> rl_payload list option" where
  "scatter_prompts c prompts =
     (if 1 < wc_dp_size c then map_option (stride (wc_dp_rank c) (wc_dp_size c)) prompts else prompts)"

text \<open>\<open>request_new_prompts\<close> on a given queue; it returns the queue and whether the
  controller reported the end.\<close>

definition request_new_prompts ::
  "worker_env \<Rightarrow> worker_config \<Rightarrow> bool \<Rightarrow> rl_payload list \<times> bool \<Rightarrow> rl_payload list list \<Rightarrow> int \<Rightarrow>
   rollout_worker \<Rightarrow> py_error + (rl_payload list list \<times> bool)" where
  "request_new_prompts env c is_validation answer queue max_pending_batches w =
     bindR (worker_fetch_prompts env c is_validation answer (length queue) max_pending_batches w)
       (\<lambda>(prompts, is_end).
        Inr (case scatter_prompts c prompts of None \<Rightarrow> queue | Some ps \<Rightarrow> queue @ [ps], is_end))"

section \<open>Reports\<close>

definition report_discarded_samples :: "worker_config \<Rightarrow> int \<Rightarrow> rollout_worker \<Rightarrow> rollout_worker" where
  "report_discarded_samples c k w =
     (if k \<le> 0 \<or> \<not> wc_should_report c then w
      else (post (PostDiscarded k (rw_uuids w)) w)\<lparr>rw_uuids := rw_uuids w + 1\<rparr>)"

text \<open>\<open>dynamic_sampling\<close>: the valid payloads and the counts of completions per class.\<close>

definition count_up :: "string \<Rightarrow> nat \<Rightarrow> (string, nat) dict \<Rightarrow> (string, nat) dict" where
  "count_up k n d = dict_set k (dict_get_or d k 0 + n) d"

fun dynamic_sampling ::
  "rl_payload list \<Rightarrow> rl_payload list \<Rightarrow> (string, nat) dict \<Rightarrow> py_error + (rl_payload list \<times> (string, nat) dict)" where
  "dynamic_sampling [] valid meta = Inr (valid, meta)"
| "dynamic_sampling (p # ps) valid meta =
     (case pl_completions p of
        None \<Rightarrow> Inl TypeError
      | Some cs \<Rightarrow>
          if pl_valid p = Some True then dynamic_sampling ps (valid @ [p]) (count_up ''sampled'' (length cs) meta)
          else
            (case pl_filter_rewards p of
               None \<Rightarrow> Inl TypeError
             | Some [] \<Rightarrow> Inl IndexError
             | Some (f # _) \<Rightarrow>
                 dynamic_sampling ps valid
                   (count_up (if 0 < f then ''filtered_positive'' else ''filtered_negative'') (length cs) meta)))"

definition outgoing_payload :: "worker_env \<Rightarrow> worker_config \<Rightarrow> rl_payload \<Rightarrow> py_error + rl_payload" where
  "outgoing_payload env c p =
     (let p = we_rollout_output env p;
          p = (if wc_local_dataset c then p\<lparr>pl_prompt := PNone, pl_conversation := None\<rparr> else p) in
      if wc_rollout_as_token_ids c then
        (case pl_completions p of None \<Rightarrow> Inl TypeError
         | Some cs \<Rightarrow> Inr (p\<lparr>pl_completions := Some (replicate (length cs) (PStr ''''))\<rparr>))
      else Inr p)"

text \<open>What is done with one finished batch of training rewards.\<close>

definition post_rewards :: "worker_env \<Rightarrow> worker_config \<Rightarrow> rl_payload list \<Rightarrow> rollout_worker \<Rightarrow> rollout_worker outcome" where
  "post_rewards env c payloads w =
     (case bindR (if wc_dapo c then dynamic_sampling payloads [] [] else Inr (payloads, []))
        (\<lambda>(ps, meta). bindR (mapR (outgoing_payload env c) ps) (\<lambda>ps. Inr (ps, meta))) of
        Inl e \<Rightarrow> Inl (e, w)
      | Inr (ps, meta) \<Rightarrow> Inr (post (PostRollouts ps meta) w))"

text \<open>A dequeue that returns payloads shortens the queue, so that the loop below ends.\<close>

lemma fetch_ready_shorter:
  "fetch_ready f q reqs = (items, q', reqs') \<Longrightarrow> length q' \<le> length q \<and> (items \<noteq> [] \<longrightarrow> length q' < length q)"
proof (induction f q reqs arbitrary: items q' reqs' rule: fetch_ready.induct)
  case (1 f u q reqs)
  then show ?case by (fastforce simp: Let_def split: option.splits prod.splits)
qed auto

lemma dequeue_shorter:
  assumes "dequeue_rewards_cal env ready f d = Inr ((Some ps, v, s, e), d')"
  shows "length (rd_task_queue d') < length (rd_task_queue d)"
proof (cases "rd_task_queue d")
  case Nil
  then show ?thesis using assms by (simp add: dequeue_rewards_cal_def)
next
  case (Cons t q)
  show ?thesis
  proof (cases "rv_is_remote env")
    case True
    obtain items q' reqs' where fr: "fetch_ready f (rd_task_queue d) (rd_requests d) = (items, q', reqs')"
      by (metis prod_cases3)
    have "items \<noteq> [] \<and> rd_task_queue d' = q'"
      using assms True Cons fr
      by (auto simp: dequeue_rewards_cal_def get_results_def Let_def split: if_splits elim!: bindR_InrE)
    then show ?thesis using fetch_ready_shorter [OF fr] by simp
  next
    case False
    then show ?thesis
      using assms Cons
      by (auto simp: dequeue_rewards_cal_def split: reward_task.splits prod.splits sum.splits if_splits)
  qed
qed

lemma post_rewards_Inr:
  assumes "post_rewards env c ps w = Inr w'"
  shows "\<exists>qs meta. w' = post (PostRollouts qs meta) w"
  using assms by (auto simp: post_rewards_def split: sum.splits prod.splits)

text \<open>
  \<open>report_rollouts\<close>. The list says for each poll whether the future at the head is done; with
  \<open>block\<close> the loop polls until it is.
\<close>

function report_rollouts ::
  "worker_env \<Rightarrow> worker_config \<Rightarrow> bool \<Rightarrow> bool list \<Rightarrow> fetch \<Rightarrow> rollout_worker \<Rightarrow> dequeued step_result" where
  "report_rollouts env c block ready f w =
     (case dequeue_rewards_cal (we_rewards env) (block \<or> (ready \<noteq> [] \<and> hd ready)) f (rw_rewards w) of
        Inl (e, d) \<Rightarrow> Inl (e, w\<lparr>rw_rewards := d\<rparr>)
      | Inr ((None, v, s, e), d) \<Rightarrow> Inr ((None, v, s, e), w\<lparr>rw_rewards := d\<rparr>)
      | Inr ((Some ps, v, s, e), d) \<Rightarrow>
          if v then Inr ((Some ps, v, s, e), w\<lparr>rw_rewards := d\<rparr>)
          else
            (case post_rewards env c ps (w\<lparr>rw_rewards := d\<rparr>) of
               Inl (e, w) \<Rightarrow> Inl (e, w)
             | Inr w \<Rightarrow> report_rollouts env c block (tl ready) f w))"
  by pat_completeness auto

termination
proof (relation "measure (\<lambda>(env, c, block, ready, f, w). length (rd_task_queue (rw_rewards w)))", goal_cases)
  case (2 env c block ready f w b x y xa ya x2 xb yb xc yaa ba)
  then have "length (rd_task_queue y) < length (rd_task_queue (rw_rewards w))"
    using dequeue_shorter [of "we_rewards env" "block \<or> (ready \<noteq> [] \<and> hd ready)" f "rw_rewards w" x2 xb xc yaa y]
    by simp
  moreover have "rw_rewards ba = y"
    using 2 post_rewards_Inr [of env c x2 "w\<lparr>rw_rewards := y\<rparr>" ba] by (auto simp: post_def)
  ultimately show ?case by simp
qed simp

declare report_rollouts.simps [simp del]

text \<open>\<open>send_end_signal\<close>; \<open>ack\<close> is what the controller answers.\<close>

definition send_end_signal :: "worker_env \<Rightarrow> worker_config \<Rightarrow> fetch \<Rightarrow> bool \<Rightarrow> rollout_worker \<Rightarrow> rollout_worker outcome" where
  "send_end_signal env c f ack w =
     (if rw_rollout_end_acknowledged w then Inr w
      else bindR (report_rollouts env c True [] f w) (\<lambda>((payloads, v, s, empty), w).
        if v \<or> payloads \<noteq> None \<or> \<not> empty then Inl (AssertionError, w)
        else
          let w = (post PostEnd w)\<lparr>rw_rollout_end_acknowledged := ack\<rparr> in
          Inr (if wc_world_size c = 1 \<and> (wc_colocated c \<or> \<not> ack) then w\<lparr>rw_shutdown := True\<rparr> else w)))"

section \<open>Generated results\<close>

definition has_assistant_text :: "conversation \<Rightarrow> bool" where
  "has_assistant_text conv \<longleftrightarrow>
     list_ex (\<lambda>m. msg_role m = ''assistant'' \<and> msg_content m \<noteq> Text '''') conv"

text \<open>The loop over the conversations of a multi-turn result. The flag is set before the loop
  and never reset in it.\<close>

fun valid_conversations :: "bool \<Rightarrow> conversation list \<Rightarrow> conversation list" where
  "valid_conversations flag [] = []"
| "valid_conversations flag (conv # convs) =
     (let flag = flag \<or> has_assistant_text conv in
      if flag then conv # valid_conversations flag convs else valid_conversations flag convs)"

definition keep_result :: "worker_config \<Rightarrow> rollout_result \<Rightarrow> py_error + rollout_result option" where
  "keep_result c rr =
     (if wc_non_text c then
        Inr (case rr_completions rr of None \<Rightarrow> None | Some cs \<Rightarrow> if cs \<noteq> [] then Some rr else None)
      else if wc_multi_turn c then
        (case rr_completed_conversations rr of
           None \<Rightarrow> Inl TypeError
         | Some convs \<Rightarrow>
             let kept = valid_conversations False convs in
             Inr (if kept \<noteq> [] then Some (rr\<lparr>rr_completed_conversations := Some kept\<rparr>) else None))
      else
        (case rr_completions rr of
           None \<Rightarrow> Inl TypeError
         | Some cs \<Rightarrow>
             Inr (if cs = [] then None
                  else Some (rr\<lparr>rr_completions :=
                    Some (map (\<lambda>v. if v = PStr '''' then PStr (wc_eos_token c) else v) cs)\<rparr>))))"

definition update_payload :: "worker_env \<Rightarrow> worker_config \<Rightarrow> bool \<Rightarrow> rl_payload \<Rightarrow> rollout_result \<Rightarrow> rl_payload" where
  "update_payload env c is_validation p rr =
     (let p = p\<lparr>pl_completions := rr_completions rr, pl_completion_logprobs := rr_completion_logprobs rr,
            pl_completion_token_ids := rr_completion_token_ids rr, pl_prompt_logprobs := rr_prompt_logprobs rr,
            pl_prompt_token_ids := rr_prompt_token_ids rr, pl_cumulative_logprob := rr_cumulative_logprob rr,
            pl_extra_info := rr_extra_info rr\<rparr>;
          p = (if wc_multi_turn c
               then p\<lparr>pl_completed_conversations := map_option (map Some) (rr_completed_conversations rr)\<rparr> else p) in
      if wc_local_dataset c
      then p\<lparr>pl_reference_answer := we_reference_answer env is_validation (pl_prompt_idx p)\<rparr> else p)"

text \<open>The payloads grouped by their behaviour version, in order of first occurrence.\<close>

definition by_version :: "rl_payload list \<Rightarrow> (int, rl_payload list) dict" where
  "by_version ps = fold (\<lambda>p d. dict_set (pl_weight_version p) (dict_get_or d (pl_weight_version p) [] @ [p]) d) ps []"

definition enqueue_on :: "worker_env \<Rightarrow> rl_payload list \<Rightarrow> bool \<Rightarrow> int \<Rightarrow> bool \<Rightarrow> rollout_worker \<Rightarrow> rollout_worker outcome" where
  "enqueue_on env ps v s bypass w =
     (case enqueue_rewards_cal (we_rewards env) ps v s bypass (rw_rewards w) of
        Inl (e, d) \<Rightarrow> Inl (e, w\<lparr>rw_rewards := d\<rparr>)
      | Inr d \<Rightarrow> Inr (w\<lparr>rw_rewards := d\<rparr>))"

text \<open>\<open>_filter_valid_rollout_results_and_report\<close>.\<close>

definition filter_and_report ::
  "worker_env \<Rightarrow> worker_config \<Rightarrow> rl_payload list \<Rightarrow> rollout_result list \<Rightarrow> rollout_worker \<Rightarrow> rollout_worker outcome" where
  "filter_and_report env c payloads results w =
     (case mapR (\<lambda>(p, rr). bindR (keep_result c rr) (\<lambda>k. Inr (map_option (Pair p) k))) (zip payloads results) of
        Inl e \<Rightarrow> Inl (e, w)
      | Inr kept \<Rightarrow>
          let valid = map the (filter (\<lambda>k. k \<noteq> None) kept);
              w = report_discarded_samples c ((int (length payloads) - int (length valid)) * wc_n_generation c) w in
          if wc_should_report c \<and> valid \<noteq> [] then
            forR (by_version (map (\<lambda>(p, rr). update_payload env c False p rr) valid))
              (\<lambda>(v, ps). enqueue_on env ps False v (wc_bypass_reward c)) w
          else Inr w)"

text \<open>\<open>_call_rollout_generation\<close> stamps the live version into the payloads; the engine then
  returns its results.\<close>

definition stamp_version :: "int \<Rightarrow> rl_payload \<Rightarrow> rl_payload" where
  "stamp_version v p = p\<lparr>pl_weight_version := v\<rparr>"

text \<open>\<open>one_step_generation\<close>, on a queue that is not empty.\<close>

definition one_step_generation ::
  "worker_env \<Rightarrow> worker_config \<Rightarrow> rollout_result list \<Rightarrow> rollout_worker \<Rightarrow> rollout_worker outcome" where
  "one_step_generation env c results w =
     (let payloads = map (stamp_version (rw_current_weight_version w)) (hd (rw_prompt_queue w));
          w = w\<lparr>rw_prompt_queue := tl (rw_prompt_queue w)\<rparr> in
      if results = [] then
        Inr (report_discarded_samples c (int (length payloads) * wc_n_generation c) w)
      else if length results \<noteq> length payloads then Inl (AssertionError, w)
      else filter_and_report env c payloads results w)"

end
