(* ===== verification/Rollout_Loop.thy ===== *)
theory Rollout_Loop
  imports Rollout_Worker
begin

text \<open>
  The main loop of the rollout worker with synchronous generation
  (\<open>_main_loop_impl\<close> of cosmos_rl/rollout/worker/rollout_control.py): the handlers of the weight and
  topology commands, validation, the loop that fetches prompts, the prefetch thread, and one
  pass of the loop, as a function of what the environment provides in that pass. A run is a
  sequence of passes and steps of the prefetch thread; the first exception ends it.
\<close>

section \<open>Validation\<close>

text \<open>What one round of validation gets: the controller's answer and the engine's results.\<close>

type_synonym validation_round = "(rl_payload list \<times> bool) \<times> rollout_result list"

definition validation_batch ::
  "worker_env \<Rightarrow> worker_config \<Rightarrow> rollout_worker \<Rightarrow> rl_payload list \<Rightarrow> rollout_result list \<Rightarrow> rl_payload list" where
  "validation_batch env c w payloads results =
     (let ps = map (stamp_version (rw_current_weight_version w)) payloads in
      if results = [] then []
      else map (\<lambda>(p, rr). update_payload env c True p rr) (zip ps results) @ drop (length results) ps)"

text \<open>The loop of \<open>do_validation\<close>; without a further round it waits for ever.\<close>

fun validation_loop ::
  "worker_env \<Rightarrow> worker_config \<Rightarrow> rollout_worker \<Rightarrow> validation_round list \<Rightarrow> rl_payload list list \<Rightarrow>
   rl_payload list \<Rightarrow> py_error + rl_payload list" where
  "validation_loop env c w [] queue acc = Inl Blocks"
| "validation_loop env c w ((answer, results) # rounds) queue acc =
     bindR (request_new_prompts env c True answer queue 1 w) (\<lambda>(queue, is_end).
       let (batch, queue) = (case queue of [] \<Rightarrow> ([], []) | b # q \<Rightarrow> (validation_batch env c w b results, q));
           acc = acc @ batch in
       if is_end then Inr acc else validation_loop env c w rounds queue acc)"

text \<open>The fields a validation report leaves out.\<close>

definition strip_validation :: "rl_payload \<Rightarrow> rl_payload" where
  "strip_validation p = p\<lparr>pl_completions := None, pl_completed_conversations := None,
     pl_completion_logprobs := None, pl_completion_token_ids := None\<rparr>"

function post_validation ::
  "worker_env \<Rightarrow> fetch \<Rightarrow> rl_payload list \<Rightarrow> int \<Rightarrow> rollout_worker \<Rightarrow> rollout_worker outcome" where
  "post_validation env f ps s w =
     (let w = post (PostValidation (Some s) (map strip_validation ps)) w in
      case dequeue_rewards_cal (we_rewards env) True f (rw_rewards w) of
        Inl (e, d) \<Rightarrow> Inl (e, w\<lparr>rw_rewards := d\<rparr>)
      | Inr ((None, v, s, emp), d) \<Rightarrow>
          if emp then Inr (w\<lparr>rw_rewards := d\<rparr>) else Inl (Blocks, w\<lparr>rw_rewards := d\<rparr>)
      | Inr ((Some ps, v, s, emp), d) \<Rightarrow>
          if v then post_validation env f ps s (w\<lparr>rw_rewards := d\<rparr>)
          else Inl (AssertionError, w\<lparr>rw_rewards := d\<rparr>))"
  by pat_completeness auto

termination
proof (relation "measure (\<lambda>(env, f, ps, s, w). length (rd_task_queue (rw_rewards w)))", goal_cases)
  case (2 env f ps s w w' b x y xa ya x2 xb yb xc yaa)
  then show ?case
    using dequeue_shorter [of "we_rewards env" True f "rw_rewards w" x2 xb xc yaa y] by (simp add: post_def)
qed simp

declare post_validation.simps [simp del]

definition do_validation ::
  "worker_env \<Rightarrow> worker_config \<Rightarrow> fetch \<Rightarrow> validation_round list \<Rightarrow> rollout_worker \<Rightarrow> rollout_worker outcome" where
  "do_validation env c f rounds w =
     (case rw_current_step w of None \<Rightarrow> Inl (AttributeError, w) | Some step \<Rightarrow>
      case validation_loop env c w rounds [] [] of
        Inl e \<Rightarrow> Inl (e, w)
      | Inr payloads \<Rightarrow>
          let w = w\<lparr>rw_validation_flag := False\<rparr> in
          if \<not> wc_should_report c then Inr w
          else
            bindR (enqueue_on env payloads True step False w) (\<lambda>w.
            bindR (report_rollouts env c True [] f w) (\<lambda>((ps, v, s, emp), w).
              case ps of
                None \<Rightarrow> if emp \<and> payloads \<noteq> [] then Inl (AssertionError, w) else Inr w
              | Some ps \<Rightarrow> post_validation env f ps s w)))"

section \<open>Commands\<close>

definition handle_stop :: "rollout_worker \<Rightarrow> rollout_worker" where
  "handle_stop w = w\<lparr>rw_shutdown := True\<rparr>"

text \<open>\<open>build_global_mesh\<close>, without the NCCL communicator.\<close>

definition build_global_mesh :: "worker_config \<Rightarrow> (string, int) dict \<Rightarrow> rollout_worker \<Rightarrow> rollout_worker outcome" where
  "build_global_mesh c ranks w =
     (if prompt_consume_end (rw_state w) \<and> wc_world_size c = 1 \<and> \<not> rw_rollout_end_acknowledged w then Inr w
      else
        case dict_get ranks (wc_replica_name c) of
          None \<Rightarrow> Inl (RuntimeError, w)
        | Some r \<Rightarrow> Inr (w\<lparr>rw_rank_in_rollout_repicas := r, rw_replica_name_to_rank := ranks\<rparr>))"

text \<open>\<open>policy_to_rollout_unicast\<close> with \<open>_execute_p2r_recv\<close>; \<open>is_async\<close> is the mode of the rollout.\<close>

definition execute_p2r_recv :: "bool \<Rightarrow> p2r_args \<Rightarrow> rollout_worker \<Rightarrow> rollout_worker outcome" where
  "execute_p2r_recv is_async a w =
     (if rw_p2r_received w \<and> \<not> p2r_trainable_only a then Inl (AssertionError, w)
      else
        let w = w\<lparr>rw_p2r_received := True\<rparr> in
        if p2r_trainable_only a \<and> \<not> rw_non_trainable_params_received w then Inl (AssertionError, w)
        else
          let w = (if is_async then w else w\<lparr>rw_state := set_weight_synced (rw_state w)\<rparr>) in
          Inr (if p2r_trainable_only a then w else w\<lparr>rw_non_trainable_params_received := True\<rparr>))"

definition policy_to_rollout_unicast :: "worker_config \<Rightarrow> p2r_args \<Rightarrow> rollout_worker \<Rightarrow> rollout_worker outcome" where
  "policy_to_rollout_unicast c a w =
     (if p2r_dst a \<noteq> wc_replica_name c then Inr w else execute_p2r_recv False a w)"

text \<open>The transfer part of the broadcast: which parameters are sent, and the checks.\<close>

definition r2r_transfer :: "worker_config \<Rightarrow> r2r_args \<Rightarrow> rollout_worker \<Rightarrow> rollout_worker outcome" where
  "r2r_transfer c a w =
     (let trainable_only = r2r_trainable_only a \<and> weight_synced (rw_state w) in
      if length (r2r_dsts a) \<le> 1 then Inr w
      else if rw_rank_in_rollout_repicas w < 0 then Inl (AssertionError, w)
      else if \<not> wc_broadcast_all_params c \<and> length (r2r_dsts a) \<noteq> length (rw_replica_name_to_rank w)
      then Inl (AssertionError, w)
      else if wc_broadcast_all_params c \<and> rw_replica_name_to_rank w = [] then Inl (AssertionError, w)
      else if dict_get (rw_replica_name_to_rank w) (r2r_src a) = None then Inl (KeyError, w)
      else if \<not> trainable_only then Inr (w\<lparr>rw_non_trainable_params_received := True\<rparr>)
      else if \<not> wc_broadcast_all_params c \<and> \<not> rw_non_trainable_params_received w then Inl (AssertionError, w)
      else Inr w)"

text \<open>The bookkeeping after it: the version, and whether a validation is due.\<close>

definition publish_version :: "worker_config \<Rightarrow> r2r_args \<Rightarrow> rollout_worker \<Rightarrow> rollout_worker outcome" where
  "publish_version c a w =
     bindR (case r2r_weight_step a of
        None \<Rightarrow> Inr (rw_current_weight_version w, w)
      | Some s \<Rightarrow> if s < rw_current_weight_version w then Inl (AssertionError, w)
          else Inr (s, w\<lparr>rw_current_weight_version := s\<rparr>)) (\<lambda>(step, w).
     bindR (if 0 \<le> step then
          (case should_do_validation c step (r2r_total_steps a) of
             Inl e \<Rightarrow> Inl (e, w)
           | Inr due \<Rightarrow> Inr (if due then w\<lparr>rw_current_step := Some step, rw_validation_flag := True\<rparr> else w))
        else Inr w) (\<lambda>w.
     Inr (w\<lparr>rw_state := set_weight_synced (rw_state w)\<rparr>)))"

text \<open>\<open>broadcast_to_all_rollout_replica\<close>; a command that ends the job validates first, if a
  validation is due.\<close>

definition broadcast_to_all_rollout_replica ::
  "worker_env \<Rightarrow> worker_config \<Rightarrow> fetch \<Rightarrow> validation_round list \<Rightarrow> r2r_args \<Rightarrow> rollout_worker \<Rightarrow> rollout_worker outcome" where
  "broadcast_to_all_rollout_replica env c f rounds a w =
     bindR (r2r_transfer c a w) (\<lambda>w.
     bindR (publish_version c a w) (\<lambda>w.
     if replica_should_stop (RolloutToRolloutBroadcast a) then
       bindR (if rw_validation_flag w then do_validation env c f rounds w else Inr w) (\<lambda>w.
       Inr (w\<lparr>rw_shutdown := True\<rparr>))
     else Inr w))"

text \<open>The registered handlers; a command without one makes \<open>consume_one_command\<close> raise, and an
  exception of a handler is raised again as \<open>RuntimeError\<close>.\<close>

definition as_runtime_error :: "rollout_worker outcome \<Rightarrow> rollout_worker outcome" where
  "as_runtime_error r = (case r of Inl (e, w) \<Rightarrow> Inl (if e = Blocks then Blocks else RuntimeError, w) | Inr w \<Rightarrow> Inr w)"

fun consume_one_command ::
  "worker_env \<Rightarrow> worker_config \<Rightarrow> fetch \<Rightarrow> command_body \<times> validation_round list \<Rightarrow> rollout_worker \<Rightarrow> rollout_worker outcome" where
  "consume_one_command env c f (Stop r, rounds) w = Inr (handle_stop w)"
| "consume_one_command env c f (BuildMesh ranks, rounds) w = as_runtime_error (build_global_mesh c ranks w)"
| "consume_one_command env c f (PolicyToRolloutUnicast a, rounds) w = as_runtime_error (policy_to_rollout_unicast c a w)"
| "consume_one_command env c f (RolloutToRolloutBroadcast a, rounds) w =
     as_runtime_error (broadcast_to_all_rollout_replica env c f rounds a w)"
| "consume_one_command env c f (_, rounds) w = Inl (GenericException, w)"

section \<open>One pass of the loop\<close>

text \<open>\<open>set_prompt_consume_end\<close> followed by the end signal.\<close>

definition end_of_prompts :: "worker_env \<Rightarrow> worker_config \<Rightarrow> fetch \<Rightarrow> bool \<Rightarrow> rollout_worker \<Rightarrow> rollout_worker outcome" where
  "end_of_prompts env c f ack w =
     (case set_prompt_consume_end (rw_state w) of
        Inl e \<Rightarrow> Inl (e, w)
      | Inr st \<Rightarrow>
          let w = w\<lparr>rw_state := st\<rparr> in
          if wc_should_report c then send_end_signal env c f ack w else Inr w)"

text \<open>The loop that fills the prompt queue, over the answers of the controller; when they run
  out the controller has nothing to hand out.\<close>

fun main_fetch_loop ::
  "worker_env \<Rightarrow> worker_config \<Rightarrow> bool \<Rightarrow> fetch \<Rightarrow> bool \<Rightarrow> (rl_payload list \<times> bool) list \<Rightarrow> rollout_worker \<Rightarrow> rollout_worker outcome" where
  "main_fetch_loop env c prep f ack [] w = Inr w"
| "main_fetch_loop env c prep f ack (answer # answers) w =
     (let target = prompt_fetch_target_depth c prep in
      if prompt_fetch_end (rw_state w) \<or> target \<le> int (length (rw_prompt_queue w)) then Inr w
      else
        case request_new_prompts env c False answer (rw_prompt_queue w) target w of
          Inl e \<Rightarrow> Inl (e, w)
        | Inr (queue, no_more_prompts) \<Rightarrow>
            let made_progress = length (rw_prompt_queue w) < length queue;
                w = w\<lparr>rw_prompt_queue := queue\<rparr> in
            if no_more_prompts then
              let w = w\<lparr>rw_state := set_prompt_fetch_end (rw_state w)\<rparr> in
              if queue = [] then end_of_prompts env c f ack w else Inr w
            else if made_progress then main_fetch_loop env c prep f ack answers w
            else Inr w)"

record pass_input =
  pi_commands :: "(command_body \<times> validation_round list) list"
  pi_rounds :: "validation_round list"
  pi_ready :: "bool list"
  pi_fetched :: fetch
  pi_answers :: "(rl_payload list \<times> bool) list"
  pi_ack :: bool
  pi_results :: "rollout_result list"

text \<open>The branch that serves the batch at the head of the queue.\<close>

definition serve_head :: "worker_env \<Rightarrow> worker_config \<Rightarrow> pass_input \<Rightarrow> rollout_worker \<Rightarrow> rollout_worker outcome" where
  "serve_head env c i w =
     (case batch_requested_weight_version (hd (rw_prompt_queue w)) of
        Inl e \<Rightarrow> Inl (e, w)
      | Inr requested \<Rightarrow>
          case prompt_version_decision requested (rw_current_weight_version w) (wc_allowed_outdated_steps c) (wc_on_policy c) of
            DROP \<Rightarrow>
              Inr (report_discarded_samples c (int (length (hd (rw_prompt_queue w))) * wc_n_generation c)
                (w\<lparr>rw_prompt_queue := tl (rw_prompt_queue w)\<rparr>))
          | WAIT \<Rightarrow> Inr w
          | SERVE \<Rightarrow>
              bindR (one_step_generation env c (pi_results i) w) (\<lambda>w.
              if prompt_fetch_end (rw_state w) \<and> rw_prompt_queue w = []
              then end_of_prompts env c (pi_fetched i) (pi_ack i) w else Inr w))"

text \<open>What follows the fetch: the three branches on the state of the prompts.\<close>

definition serve_prompts :: "worker_env \<Rightarrow> worker_config \<Rightarrow> pass_input \<Rightarrow> rollout_worker \<Rightarrow> rollout_worker outcome" where
  "serve_prompts env c i w =
     (if prompt_consume_end (rw_state w) then
        if rw_prompt_queue w = [] \<and> prompt_fetch_end (rw_state w) then
          if wc_should_report c then send_end_signal env c (pi_fetched i) (pi_ack i) w else Inr w
        else Inl (AssertionError, w)
      else if rw_prompt_queue w = [] then
        if single_producer_mode c \<and> prompt_fetch_end (rw_state w)
        then end_of_prompts env c (pi_fetched i) (pi_ack i) w
        else Inr w
      else serve_head env c i w)"

definition fetch_and_serve :: "worker_env \<Rightarrow> worker_config \<Rightarrow> pass_input \<Rightarrow> rollout_worker \<Rightarrow> rollout_worker outcome" where
  "fetch_and_serve env c i w =
     bindR (if \<not> single_producer_mode c \<and> \<not> prompt_fetch_end (rw_state w)
       then main_fetch_loop env c (wc_prefetch_rollout c \<and> \<not> single_producer_mode c) (pi_fetched i) (pi_ack i) (pi_answers i) w
       else Inr w)
     (serve_prompts env c i)"

definition main_loop_pass :: "worker_env \<Rightarrow> worker_config \<Rightarrow> pass_input \<Rightarrow> rollout_worker \<Rightarrow> rollout_worker outcome" where
  "main_loop_pass env c i w =
     bindR (forR (pi_commands i) (consume_one_command env c (pi_fetched i)) w) (\<lambda>w.
     bindR (if rw_validation_flag w then do_validation env c (pi_fetched i) (pi_rounds i) w else Inr w) (\<lambda>w.
     if \<not> weight_synced (rw_state w) then Inr w
     else
       bindR (report_rollouts env c False (pi_ready i) (pi_fetched i) w) (\<lambda>((ps, v, s, emp), w).
       if v then Inl (AssertionError, w)
       else fetch_and_serve env c i w)))"

section \<open>The prefetch thread\<close>

text \<open>
  One iteration of \<open>_prefetch_loop\<close> in its two halves, since the main loop runs between them:
  the fetch, which raises the end flag as soon as the controller reports the end, and the put of
  the batch it holds. The thread may also end (on shutdown or by an exception), which runs the
  \<open>finally\<close> branch.
\<close>

definition queue_full :: "worker_config \<Rightarrow> rollout_worker \<Rightarrow> bool" where
  "queue_full c w \<longleftrightarrow> 0 < wc_prefetch_queue_maxsize c
     \<and> wc_prefetch_queue_maxsize c \<le> int (length (rw_prompt_queue w))"

definition prefetch_fetch :: "worker_env \<Rightarrow> worker_config \<Rightarrow> rl_payload list \<times> bool \<Rightarrow> rollout_worker \<Rightarrow> rollout_worker" where
  "prefetch_fetch env c answer w =
     (if rw_prefetched w \<noteq> None \<or> rw_shutdown w \<or> \<not> weight_synced (rw_state w)
         \<or> prompt_fetch_end (rw_state w) \<or> queue_full c w then w
      else
        let (payloads, is_end) = answer;
            w = (if is_end then w\<lparr>rw_state := set_prompt_fetch_end (rw_state w)\<rparr> else w) in
        if payloads = [] then w
        else w\<lparr>rw_prefetched := Some (map (localise env c False) payloads)\<rparr>)"

definition prefetch_put :: "worker_config \<Rightarrow> rollout_worker \<Rightarrow> rollout_worker" where
  "prefetch_put c w =
     (case rw_prefetched w of
        None \<Rightarrow> w
      | Some ps \<Rightarrow>
          if rw_shutdown w then w\<lparr>rw_prefetched := None, rw_state := set_prompt_fetch_end (rw_state w)\<rparr>
          else if queue_full c w then w
          else w\<lparr>rw_prefetched := None, rw_prompt_queue := rw_prompt_queue w @ [ps]\<rparr>)"

definition prefetch_exit :: "rollout_worker \<Rightarrow> rollout_worker" where
  "prefetch_exit w = w\<lparr>rw_prefetched := None, rw_state := set_prompt_fetch_end (rw_state w)\<rparr>"

section \<open>Runs\<close>

datatype worker_event =
    Pass pass_input
  | PrefetchFetch "rl_payload list \<times> bool"
  | PrefetchPut
  | PrefetchExit

text \<open>The prefetch thread is only started in single-producer mode.\<close>

fun worker_step :: "worker_env \<Rightarrow> worker_config \<Rightarrow> worker_event \<Rightarrow> rollout_worker \<Rightarrow> rollout_worker outcome" where
  "worker_step env c (Pass i) w = (if rw_shutdown w then Inr w else main_loop_pass env c i w)"
| "worker_step env c (PrefetchFetch answer) w =
     Inr (if single_producer_mode c then prefetch_fetch env c answer w else w)"
| "worker_step env c PrefetchPut w = Inr (if single_producer_mode c then prefetch_put c w else w)"
| "worker_step env c PrefetchExit w = Inr (if single_producer_mode c then prefetch_exit w else w)"

definition worker_run :: "worker_env \<Rightarrow> worker_config \<Rightarrow> worker_event list \<Rightarrow> rollout_worker \<Rightarrow> rollout_worker outcome" where
  "worker_run env c evs = forR evs (worker_step env c)"

end
