(* ===== verification/Rollout_Reports.thy ===== *)
theory Rollout_Reports
  imports Rollout_Worker
begin

text \<open>
  What the reporting part of a rollout worker can change. The locale \<open>report_invariant\<close>
  is the interface: a predicate on the worker that survives a change of the reward dispatcher, a
  new report identifier and any post but the end signal. Such a predicate survives every
  operation that reports, whether it returns or raises.
\<close>

locale report_invariant =
  fixes I :: "rollout_worker \<Rightarrow> bool"
  assumes rewards: "I w \<Longrightarrow> I (w\<lparr>rw_rewards := d\<rparr>)"
    and uuids: "I w \<Longrightarrow> I (w\<lparr>rw_uuids := n\<rparr>)"
    and posts: "I w \<Longrightarrow> p \<noteq> PostEnd \<Longrightarrow> I (post p w)"
begin

lemma discarded_samples: "I w \<Longrightarrow> I (report_discarded_samples c k w)"
  by (simp add: report_discarded_samples_def uuids posts)

lemma rewards_posted: "I w \<Longrightarrow> keeps I (post_rewards env c ps w)"
  by (auto simp: post_rewards_def posts split: sum.splits prod.splits)

lemma rollouts_reported: "I w \<Longrightarrow> keeps_via snd I (report_rollouts env c block ready f w)"
proof (induction env c block ready f w rule: report_rollouts.induct)
  case (1 env c block ready f w)
  let ?dq = "dequeue_rewards_cal (we_rewards env) (block \<or> (ready \<noteq> [] \<and> hd ready)) f (rw_rewards w)"
  show ?case
  proof (cases ?dq)
    case (Inl ed)
    then show ?thesis using rewards [OF "1.prems"]
      by (subst report_rollouts.simps) (auto split: prod.splits)
  next
    case (Inr r)
    obtain pso v s e d where r: "r = ((pso, v, s, e), d)" by (metis surj_pair)
    have d: "I (w\<lparr>rw_rewards := d\<rparr>)" using "1.prems" by (rule rewards)
    show ?thesis
    proof (cases pso)
      case None
      then show ?thesis using Inr r d by (subst report_rollouts.simps) simp
    next
      case (Some ps)
      have p: "keeps I (post_rewards env c ps (w\<lparr>rw_rewards := d\<rparr>))"
        using d by (rule rewards_posted)
      show ?thesis
      proof (cases "post_rewards env c ps (w\<lparr>rw_rewards := d\<rparr>)")
        case (Inl ew)
        then show ?thesis
          using Inr r Some p d by (cases ew, subst report_rollouts.simps) auto
      next
        case w': (Inr w')
        then show ?thesis
          using Inr r Some p d "1.IH" [of r "(pso, v, s, e)" d pso "(v, s, e)" ps v "(s, e)" s e w']
          by (subst report_rollouts.simps) auto
      qed
    qed
  qed
qed

lemma enqueued: "I w \<Longrightarrow> keeps I (enqueue_on env ps v s b w)"
  by (auto simp: enqueue_on_def rewards split: sum.splits prod.splits)

lemma filtered: "I w \<Longrightarrow> keeps I (filter_and_report env c ps rs w)"
  unfolding filter_and_report_def
  by (auto simp: Let_def discarded_samples split: sum.splits intro!: keeps_forR enqueued)

end

text \<open>The live version and the flags are such: reporting never touches them.\<close>

interpretation live: report_invariant "\<lambda>w. rw_current_weight_version w = v" for v
  by unfold_locales (simp_all add: post_def)

interpretation acknowledged: report_invariant "\<lambda>w. rw_rollout_end_acknowledged w = b" for b
  by unfold_locales (simp_all add: post_def)

interpretation flags: report_invariant "\<lambda>w. rw_state w = st" for st
  by unfold_locales (simp_all add: post_def)

end
