(* ===== verification/Rollout_Loop_Claims.thy ===== *)
theory Rollout_Loop_Claims
  imports Rollout_Loop Rollout_Reports
begin

text \<open>
  Properties of the synchronous rollout loop: what the parts of a pass leave alone, when the
  end signal is posted, two ways in which a pass goes wrong (a dropped last batch, a batch
  smaller than the data-parallel group), and the balance of samples.
\<close>

section \<open>What reporting and validation leave alone\<close>

definition ends :: "rollout_worker \<Rightarrow> nat" where
  "ends w = length (filter (\<lambda>p. p = PostEnd) (rw_posts w))"

text \<open>\<open>same_prompts w w'\<close>: the prompt queue, the two prompt flags and the number of end
  signals are those of \<open>w\<close>.\<close>

definition same_prompts :: "rollout_worker \<Rightarrow> rollout_worker \<Rightarrow> bool" where
  "same_prompts w w' \<longleftrightarrow> rw_prompt_queue w' = rw_prompt_queue w
     \<and> prompt_fetch_end (rw_state w') = prompt_fetch_end (rw_state w)
     \<and> prompt_consume_end (rw_state w') = prompt_consume_end (rw_state w) \<and> ends w' = ends w"

lemma same_prompts_refl [simp]: "same_prompts w w"
  by (simp add: same_prompts_def)

lemma same_prompts_trans: "same_prompts a b \<Longrightarrow> same_prompts b d \<Longrightarrow> same_prompts a d"
  by (simp add: same_prompts_def)

lemma same_prompts_update [simp]:
  "same_prompts a (w\<lparr>rw_rewards := d\<rparr>) = same_prompts a w"
  "same_prompts a (w\<lparr>rw_current_weight_version := v\<rparr>) = same_prompts a w"
  "same_prompts a (w\<lparr>rw_current_step := st\<rparr>) = same_prompts a w"
  "same_prompts a (w\<lparr>rw_validation_flag := b\<rparr>) = same_prompts a w"
  "same_prompts a (w\<lparr>rw_shutdown := b\<rparr>) = same_prompts a w"
  "same_prompts a (w\<lparr>rw_p2r_received := b\<rparr>) = same_prompts a w"
  "same_prompts a (w\<lparr>rw_non_trainable_params_received := b\<rparr>) = same_prompts a w"
  "same_prompts a (w\<lparr>rw_rank_in_rollout_repicas := r\<rparr>) = same_prompts a w"
  "same_prompts a (w\<lparr>rw_replica_name_to_rank := m\<rparr>) = same_prompts a w"
  "same_prompts a (w\<lparr>rw_prefetched := h\<rparr>) = same_prompts a w"
  "same_prompts a (w\<lparr>rw_uuids := n\<rparr>) = same_prompts a w"
  "same_prompts a (w\<lparr>rw_state := set_weight_synced (rw_state w)\<rparr>) = same_prompts a w"
  by (simp_all add: same_prompts_def ends_def)

lemma same_prompts_post [simp]: "p \<noteq> PostEnd \<Longrightarrow> same_prompts a (post p w) = same_prompts a w"
  by (simp add: same_prompts_def ends_def post_def)

interpretation prompts: report_invariant "same_prompts a" for a
  by unfold_locales simp_all

declare prompts.discarded_samples [simp]

lemma post_validation_same: "same_prompts a w \<Longrightarrow> keeps (same_prompts a) (post_validation env f ps s w)"
proof (induction env f ps s w rule: post_validation.induct)
  case (1 env f ps s w)
  let ?w = "post (PostValidation (Some s) (map strip_validation ps)) w"
  show ?case
  proof (cases "dequeue_rewards_cal (we_rewards env) True f (rw_rewards ?w)")
    case (Inl ed)
    then show ?thesis using "1.prems" by (cases ed, subst post_validation.simps) simp
  next
    case (Inr r)
    obtain pso v s' e d where r: "r = ((pso, v, s', e), d)" by (metis surj_pair)
    have "keeps (same_prompts a) (post_validation env f qs s' (?w\<lparr>rw_rewards := d\<rparr>))" if "pso = Some qs" v for qs
      using "1.IH" [of ?w r "(pso, v, s', e)" d pso "(v, s', e)" qs v "(s', e)" s' e] Inr r that "1.prems" by simp
    then show ?thesis
      using Inr r "1.prems" by (cases pso; subst post_validation.simps) (auto simp: Let_def)
  qed
qed

lemma do_validation_same: "same_prompts a w \<Longrightarrow> keeps (same_prompts a) (do_validation env c f rounds w)"
  unfolding do_validation_def
  by (auto split: option.splits sum.splits simp: Let_def
      intro!: keeps_bindR prompts.enqueued keeps_bind_via [where g = snd] prompts.rollouts_reported post_validation_same)

lemma consume_one_command_same:
  "same_prompts a w \<Longrightarrow> keeps (same_prompts a) (consume_one_command env c f cr w)"
proof (induction env c f cr w rule: consume_one_command.induct)
  case (1 env c f r rounds w)
  then show ?case by (simp add: handle_stop_def)
next
  case (2 env c f ranks rounds w)
  then show ?case by (auto simp: as_runtime_error_def build_global_mesh_def split: option.splits)
next
  case (3 env c f x rounds w)
  then show ?case
    by (auto simp: as_runtime_error_def policy_to_rollout_unicast_def execute_p2r_recv_def Let_def
        same_prompts_def ends_def)
next
  case (4 env c f x rounds w)
  have t: "keeps (same_prompts a) (r2r_transfer c x w)"
    using 4 by (simp add: r2r_transfer_def Let_def)
  have p: "keeps (same_prompts a) (publish_version c x w)" if "same_prompts a w" for w
    using that unfolding publish_version_def
    by (auto simp: same_prompts_def ends_def intro!: keeps_bind_via [where g = snd] keeps_bindR
        split: option.splits sum.splits)
  have "keeps (same_prompts a) (broadcast_to_all_rollout_replica env c f rounds x w)"
    unfolding broadcast_to_all_rollout_replica_def
    by (auto intro!: keeps_bindR t p do_validation_same)
  then show ?case by (auto simp: as_runtime_error_def keeps_def after_def split: sum.splits)
qed simp_all

text \<open>What a pass does before it turns to the prompts.\<close>

lemma commands_same:
  "same_prompts a w \<Longrightarrow> keeps (same_prompts a) (forR crs (consume_one_command env c f) w)"
  by (auto intro!: keeps_forR consume_one_command_same)

section \<open>A dropped last batch\<close>

text \<open>The state a worker is in when its last batch was dropped: nothing queued, nothing more to
  come, and the end not recorded.\<close>

definition wedged :: "rollout_worker \<Rightarrow> bool" where
  "wedged w \<longleftrightarrow> prompt_fetch_end (rw_state w) \<and> \<not> prompt_consume_end (rw_state w) \<and> rw_prompt_queue w = []"

lemma wedged_same: "wedged w \<Longrightarrow> same_prompts w w' \<Longrightarrow> wedged w'"
  by (simp add: wedged_def same_prompts_def)

text \<open>The part of a pass before the prompts, for a predicate that depends on the prompts only.\<close>

lemma keeps_bind_from:
  assumes "keeps_via g J m" and "\<And>s. J s \<Longrightarrow> I s" and "\<And>t. J (g t) \<Longrightarrow> keeps I (k t)"
  shows "keeps I (bindR m k)"
  using assms by (cases m) (auto simp: keeps_def after_def)

lemma main_loop_pass_keeps:
  assumes "same_prompts a w"
    and I: "\<And>w. same_prompts a w \<Longrightarrow> I w"
    and fetch: "\<And>w. same_prompts a w \<Longrightarrow> keeps I (fetch_and_serve env c i w)"
  shows "keeps I (main_loop_pass env c i w)"
proof -
  have commands: "keeps_via (\<lambda>w. w) (same_prompts a) (forR (pi_commands i) (consume_one_command env c (pi_fetched i)) w)"
    using commands_same [OF assms(1)] by (simp add: keeps_keeps_via)
  have validation: "keeps_via (\<lambda>w. w) (same_prompts a)
      (if rw_validation_flag w then do_validation env c (pi_fetched i) (pi_rounds i) w else Inr w)"
    if "same_prompts a w" for w
    using that do_validation_same [OF that] by (simp add: keeps_keeps_via)
  show ?thesis
    unfolding main_loop_pass_def
  proof (rule keeps_bind_from [OF commands I], assumption, rule keeps_bind_from [OF validation I], assumption+, goal_cases)
    case (1 w' w)
    show ?case
    proof (cases "weight_synced (rw_state w)")
      case True
      have "keeps I (bindR (report_rollouts env c False (pi_ready i) (pi_fetched i) w)
          (\<lambda>((ps, v, s, emp), w). if v then Inl (AssertionError, w) else fetch_and_serve env c i w))"
        using fetch I by (intro keeps_bind_from [OF prompts.rollouts_reported [OF 1(2)] I]) (auto split: prod.splits)
      then show ?thesis using True by simp
    qed (use 1 I in simp)
  qed
qed

lemma wedged_pass:
  assumes "wedged w" "\<not> single_producer_mode c"
  shows "keeps (same_prompts w) (main_loop_pass env c i w)"
proof (rule main_loop_pass_keeps [OF same_prompts_refl])
  fix w' assume s: "same_prompts w w'"
  then have "wedged w'" using assms(1) wedged_same by blast
  then show "keeps (same_prompts w) (fetch_and_serve env c i w')"
    using s assms(2) by (simp add: wedged_def fetch_and_serve_def serve_prompts_def)
qed simp

lemma wedged_run:
  assumes "wedged w" "\<not> single_producer_mode c"
  shows "keeps (same_prompts w) (worker_run env c evs w)"
  unfolding worker_run_def
proof (rule keeps_forR, rule same_prompts_refl)
  fix ev w' assume s: "same_prompts w w'"
  then have w': "wedged w'" using assms(1) wedged_same by blast
  show "keeps (same_prompts w) (worker_step env c ev w')"
  proof (cases ev)
    case (Pass i)
    have "keeps (same_prompts w') (main_loop_pass env c i w')" by (rule wedged_pass [OF w' assms(2)])
    then have "keeps (same_prompts w) (main_loop_pass env c i w')"
      using same_prompts_trans [OF s] by (auto simp: keeps_def)
    then show ?thesis using s Pass by simp
  qed (use s assms(2) in simp_all)
qed

lemma dequeue_idle:
  "rd_task_queue d = [] \<Longrightarrow> dequeue_rewards_cal env ready f d = Inr ((None, False, -1, True), d)"
  by (simp add: dequeue_rewards_cal_def)

lemma report_rollouts_idle:
  "rd_task_queue (rw_rewards w) = [] \<Longrightarrow>
     report_rollouts env c block ready f w = Inr ((None, False, -1, True), w)"
  by (subst report_rollouts.simps) (simp add: dequeue_idle)

text \<open>A worker on which only the prompts have to be looked at in the next pass.\<close>

definition idle_worker :: "rollout_worker \<Rightarrow> bool" where
  "idle_worker w \<longleftrightarrow> weight_synced (rw_state w) \<and> \<not> rw_validation_flag w \<and> \<not> rw_shutdown w
     \<and> rd_task_queue (rw_rewards w) = []"

lemma main_loop_pass_idle:
  "idle_worker w \<Longrightarrow> pi_commands i = [] \<Longrightarrow> main_loop_pass env c i w = fetch_and_serve env c i w"
  by (simp add: main_loop_pass_def idle_worker_def report_rollouts_idle)

lemma ends_eq_0: "ends w = 0 \<longleftrightarrow> PostEnd \<notin> set (rw_posts w)"
  by (auto simp: ends_def filter_empty_conv)

lemma worker_run_Cons: "worker_run env c (ev # evs) w = bindR (worker_step env c ev w) (worker_run env c evs)"
  by (simp add: worker_run_def)

text \<open>C31: When the last batch of prompts of a strict on-policy worker without the prefetch
  thread has become stale, the pass drops it and returns without recording that all prompts are
  consumed. Whatever passes follow, with whatever commands, answers and results, the worker
  never posts its end signal, though its queue is empty and the controller has announced the
  end of the prompts.\<close>

theorem dropped_tail_never_ends:
  assumes "\<not> single_producer_mode c" "wc_on_policy c" "idle_worker w" "pi_commands i = []"
    and "prompt_fetch_end (rw_state w)" "\<not> prompt_consume_end (rw_state w)"
    and "rw_prompt_queue w = [b]" "batch_requested_weight_version b = Inr v" "v < rw_current_weight_version w"
    and "PostEnd \<notin> set (rw_posts w)"
  shows "PostEnd \<notin> set (rw_posts (after (worker_run env c (Pass i # evs) w)))
    \<and> rw_prompt_queue (after (worker_run env c (Pass i # evs) w)) = []
    \<and> \<not> prompt_consume_end (rw_state (after (worker_run env c (Pass i # evs) w)))"
proof -
  let ?w = "report_discarded_samples c (int (length b) * wc_n_generation c) (w\<lparr>rw_prompt_queue := []\<rparr>)"
  have d: "prompt_version_decision v (rw_current_weight_version w) (wc_allowed_outdated_steps c) (wc_on_policy c) = DROP"
    using assms by (simp add: prompt_version_decision_eq)
  have step: "worker_step env c (Pass i) w = Inr ?w"
    using assms d
    by (simp add: main_loop_pass_idle fetch_and_serve_def serve_prompts_def serve_head_def)
      (simp add: idle_worker_def)
  have same: "same_prompts (w\<lparr>rw_prompt_queue := []\<rparr>) ?w" by simp
  then have wedged: "wedged ?w" using assms by (simp add: same_prompts_def wedged_def)
  have none: "ends ?w = 0" 
    using same assms(10) ends_eq_0 [of "w\<lparr>rw_prompt_queue := []\<rparr>"] by (simp add: same_prompts_def)
  have "keeps (same_prompts ?w) (worker_run env c evs ?w)" by (rule wedged_run [OF wedged assms(1)])
  then have "same_prompts ?w (after (worker_run env c (Pass i # evs) w))"
    unfolding worker_run_Cons step by (simp add: keeps_def)
  then show ?thesis
    using wedged none by (simp add: same_prompts_def wedged_def ends_eq_0)
qed

text \<open>A worker of one rank and an engine that returns nothing, for the instances.\<close>

definition sample_worker_config :: worker_config where
  "sample_worker_config = \<lparr>wc_replica_name = ''r0'', wc_batch_size = 1, wc_global_rank = 0,
     wc_world_size = 1, wc_dp_size = 1, wc_dp_rank = 0, wc_should_report = True, wc_on_policy = True,
     wc_allowed_outdated_steps = 0, wc_n_generation = 2, wc_prefetch_rollout = False,
     wc_prefetch_queue_maxsize = 4, wc_data_dispatch_as_rank_in_mesh = False, wc_local_dataset = False,
     wc_non_text = False, wc_multi_turn = False, wc_dapo = False, wc_rollout_as_token_ids = False,
     wc_bypass_reward = False, wc_broadcast_all_params = False, wc_isolates_generation = False,
     wc_max_concurrent_requests = 2, wc_colocated = False, wc_eos_token = ''e'',
     wc_validation_enable = False, wc_val_before_train = False, wc_validation_freq = 10\<rparr>"

definition sample_worker_env :: worker_env where
  "sample_worker_env = \<lparr>we_prompt = (\<lambda>v i. (PNone, None)), we_reference_answer = (\<lambda>v i. None),
     we_rollout_output = (\<lambda>p. p),
     we_rewards = \<lparr>rv_is_remote = False, rv_payload_per_task = 1, rv_remote_batch_size = 1,
       rv_compute = (\<lambda>ps v s. Inr (ps, v, s)), rv_request = (\<lambda>ps v n. Inr ''u''),
       rv_advantages = (\<lambda>rs. rs)\<rparr>\<rparr>"

definition sample_pass :: pass_input where
  "sample_pass = \<lparr>pi_commands = [], pi_rounds = [], pi_ready = [], pi_fetched = (\<lambda>u. None),
     pi_answers = [], pi_ack = True, pi_results = []\<rparr>"

definition sample_ready_worker :: rollout_worker where
  "sample_ready_worker = init_worker\<lparr>rw_state := set_weight_synced UNINITIALIZED, rw_current_weight_version := 3\<rparr>"

lemmas sample_worker_defs = sample_worker_config_def sample_worker_env_def sample_pass_def
  sample_ready_worker_def init_worker_def init_dispatcher_def single_producer_mode_def idle_worker_def

theorem dropped_tail_never_ends_witness:
  "PostEnd \<notin> set (rw_posts (after (worker_run sample_worker_env sample_worker_config [Pass sample_pass, Pass sample_pass]
     (sample_ready_worker\<lparr>rw_state := set_prompt_fetch_end (set_weight_synced UNINITIALIZED),
        rw_prompt_queue := [[default_payload\<lparr>pl_weight_version := 2\<rparr>]]\<rparr>))))"
  using dropped_tail_never_ends [of sample_worker_config
    "sample_ready_worker\<lparr>rw_state := set_prompt_fetch_end (set_weight_synced UNINITIALIZED),
        rw_prompt_queue := [[default_payload\<lparr>pl_weight_version := 2\<rparr>]]\<rparr>"
    sample_pass "[default_payload\<lparr>pl_weight_version := 2\<rparr>]" 2 sample_worker_env "[Pass sample_pass]"]
  by (simp add: sample_worker_defs batch_requested_weight_version_def)

section \<open>The prefetch thread and the last batch\<close>

lemma send_end_signal_idle:
  assumes "rd_task_queue (rw_rewards w) = []" "\<not> rw_rollout_end_acknowledged w" "\<not> wc_colocated c"
  shows "send_end_signal env c f True w = Inr ((post PostEnd w)\<lparr>rw_rollout_end_acknowledged := True\<rparr>)"
  using assms by (simp add: send_end_signal_def report_rollouts_idle)

text \<open>C32: The prefetch thread announces the end of the prompts before it puts the last batch
  into the queue. When a pass of the main loop falls between the two, the worker posts its end
  signal; the thread then queues the batch, and the next pass stops with an
  \<open>AssertionError\<close>, the batch still in the queue.\<close>

theorem prefetch_end_race:
  assumes "single_producer_mode c" "wc_should_report c" "\<not> wc_colocated c" "idle_worker w"
    and "\<not> prompt_fetch_end (rw_state w)" "\<not> prompt_consume_end (rw_state w)"
    and "rw_prompt_queue w = []" "rw_prefetched w = None" "\<not> rw_rollout_end_acknowledged w"
    and "ps \<noteq> []" "pi_commands i = []" "pi_ack i" "pi_commands j = []"
  shows "\<exists>w'. worker_run env c [PrefetchFetch (ps, True), Pass i, PrefetchPut, Pass j] w = Inl (AssertionError, w')
    \<and> rw_posts w' = rw_posts w @ [PostEnd] \<and> rw_prompt_queue w' = [map (localise env c False) ps]"
proof -
  let ?batch = "map (localise env c False) ps"
  let ?w1 = "w\<lparr>rw_state := set_prompt_fetch_end (rw_state w), rw_prefetched := Some ?batch\<rparr>"
  let ?w2 = "?w1\<lparr>rw_state := set_prompt_fetch_end (rw_state w) OR PROMPT_CONSUME_END,
    rw_posts := rw_posts w @ [PostEnd], rw_rollout_end_acknowledged := True\<rparr>"
  let ?w3 = "?w2\<lparr>rw_prefetched := None, rw_prompt_queue := [?batch]\<rparr>"
  have idle: "idle_worker ?w1" "idle_worker ?w3" using assms(4) by (simp_all add: idle_worker_def)
  have "worker_step env c (PrefetchFetch (ps, True)) w = Inr ?w1"
    using assms by (simp add: prefetch_fetch_def idle_worker_def queue_full_def)
  moreover have "worker_step env c (Pass i) ?w1 = Inr ?w2"
  proof -
    have "set_prompt_consume_end (rw_state ?w1) = Inr (rw_state ?w2)"
      using assms by (simp add: set_prompt_consume_end_Inr)
    moreover have "fetch_and_serve env c i ?w1 = end_of_prompts env c (pi_fetched i) True ?w1"
      using assms by (simp add: fetch_and_serve_def serve_prompts_def)
    ultimately have "fetch_and_serve env c i ?w1 = Inr ?w2"
      using assms by (simp add: end_of_prompts_def send_end_signal_idle idle_worker_def post_def)
    then show ?thesis
      using assms main_loop_pass_idle [OF idle(1)] by (simp add: idle_worker_def)
  qed
  moreover have "worker_step env c PrefetchPut ?w2 = Inr ?w3"
    using assms by (simp add: prefetch_put_def queue_full_def idle_worker_def)
  moreover have "worker_step env c (Pass j) ?w3 = Inl (AssertionError, ?w3)"
    using assms main_loop_pass_idle [OF idle(2)]
    by (simp add: fetch_and_serve_def serve_prompts_def idle_worker_def)
  ultimately have "worker_run env c [PrefetchFetch (ps, True), Pass i, PrefetchPut, Pass j] w = Inl (AssertionError, ?w3)"
    by (simp add: worker_run_Cons del: worker_step.simps)
  then show ?thesis by (intro exI [of _ ?w3]) simp
qed

theorem prefetch_end_race_witness:
  "\<exists>w'. worker_run sample_worker_env (sample_worker_config\<lparr>wc_prefetch_rollout := True\<rparr>)
      [PrefetchFetch ([default_payload], True), Pass sample_pass, PrefetchPut, Pass sample_pass] sample_ready_worker
    = Inl (AssertionError, w')
    \<and> rw_posts w' = [PostEnd] \<and> length (rw_prompt_queue w') = 1"
  using prefetch_end_race [of "sample_worker_config\<lparr>wc_prefetch_rollout := True\<rparr>" sample_ready_worker
    "[default_payload]" sample_pass sample_pass sample_worker_env]
  by (auto simp: sample_worker_defs)

section \<open>The end signal of a worker that fetches its own prompts\<close>

definition end_state :: "rollout_worker \<Rightarrow> bool" where
  "end_state w \<longleftrightarrow> (prompt_consume_end (rw_state w) \<longrightarrow> prompt_fetch_end (rw_state w) \<and> rw_prompt_queue w = [])
     \<and> (0 < ends w \<longrightarrow> prompt_consume_end (rw_state w))"

lemma end_state_same: "end_state w \<Longrightarrow> same_prompts w w' \<Longrightarrow> end_state w'"
  by (simp add: end_state_def same_prompts_def)

lemma send_end_signal_end_state:
  assumes "prompt_fetch_end (rw_state w)" "rw_prompt_queue w = []" "prompt_consume_end (rw_state w)"
  shows "keeps end_state (send_end_signal env c f ack w)"
proof -
  have I: "end_state w'" if "same_prompts w w'" for w'
    using that assms by (simp add: same_prompts_def end_state_def)
  have "keeps end_state (bindR (report_rollouts env c True [] f w) (\<lambda>((payloads, v, s, empty), w).
        if v \<or> payloads \<noteq> None \<or> \<not> empty then Inl (AssertionError, w)
        else
          let w = (post PostEnd w)\<lparr>rw_rollout_end_acknowledged := ack\<rparr> in
          Inr (if wc_world_size c = 1 \<and> (wc_colocated c \<or> \<not> ack) then w\<lparr>rw_shutdown := True\<rparr> else w)))"
  proof (rule keeps_bind_from [OF prompts.rollouts_reported [OF same_prompts_refl] I], assumption)
    fix t :: "dequeued \<times> rollout_worker" assume s: "same_prompts w (snd t)"
    have st: "end_state ((post PostEnd w')\<lparr>rw_rollout_end_acknowledged := a\<rparr>)"
      "end_state ((post PostEnd w')\<lparr>rw_rollout_end_acknowledged := a, rw_shutdown := b\<rparr>)"
      if "same_prompts w w'" for w' a b
      using that assms by (simp_all add: same_prompts_def end_state_def post_def)
    show "keeps end_state ((\<lambda>((payloads, v, s, empty), w).
        if v \<or> payloads \<noteq> None \<or> \<not> empty then Inl (AssertionError, w)
        else
          let w = (post PostEnd w)\<lparr>rw_rollout_end_acknowledged := ack\<rparr> in
          Inr (if wc_world_size c = 1 \<and> (wc_colocated c \<or> \<not> ack) then w\<lparr>rw_shutdown := True\<rparr> else w)) t)"
      using s st I by (auto simp: Let_def split: prod.splits)
  qed
  then show ?thesis using I by (simp add: send_end_signal_def)
qed

lemma end_of_prompts_end_state:
  assumes "end_state w" "prompt_fetch_end (rw_state w)" "rw_prompt_queue w = []"
  shows "keeps end_state (end_of_prompts env c f ack w)"
proof (cases "set_prompt_consume_end (rw_state w)")
  case (Inl e)
  then show ?thesis using assms by (simp add: end_of_prompts_def)
next
  case (Inr st)
  let ?w = "w\<lparr>rw_state := st\<rparr>"
  have w: "prompt_fetch_end (rw_state ?w)" "rw_prompt_queue ?w = []" "prompt_consume_end (rw_state ?w)"
    using Inr assms by (auto simp: set_prompt_consume_end_Inr)
  then have "end_state ?w" by (simp add: end_state_def)
  then show ?thesis
    using Inr send_end_signal_end_state [OF w] by (simp add: end_of_prompts_def Let_def)
qed

lemma main_fetch_loop_end_state: "end_state w \<Longrightarrow> keeps end_state (main_fetch_loop env c prep f ack answers w)"
proof (induction env c prep f ack answers w rule: main_fetch_loop.induct)
  case (2 env c prep f ack answer answers w)
  let ?target = "prompt_fetch_target_depth c prep"
  show ?case
  proof (cases "prompt_fetch_end (rw_state w) \<or> ?target \<le> int (length (rw_prompt_queue w))")
    case False
    then have open_w: "\<not> prompt_fetch_end (rw_state w)" "\<not> prompt_consume_end (rw_state w)" "ends w = 0"
      using "2.prems" by (auto simp: end_state_def)
    show ?thesis
    proof (cases "request_new_prompts env c False answer (rw_prompt_queue w) ?target w")
      case (Inl e)
      then show ?thesis using False "2.prems" by simp
    next
      case (Inr r)
      obtain queue stop where r: "r = (queue, stop)" by (metis surj_pair)
      let ?w = "w\<lparr>rw_prompt_queue := queue\<rparr>"
      have w: "end_state ?w" "end_state (?w\<lparr>rw_state := set_prompt_fetch_end (rw_state w)\<rparr>)"
        using open_w by (auto simp: end_state_def ends_def)
      have "keeps end_state (main_fetch_loop env c prep f ack answers ?w)"
        if "\<not> stop" "length (rw_prompt_queue w) < length queue"
        using "2.IH" [of ?target r queue stop] False Inr r that w(1) by simp
      moreover have "keeps end_state (end_of_prompts env c f ack (?w\<lparr>rw_state := set_prompt_fetch_end (rw_state w)\<rparr>))"
        if "queue = []"
        using end_of_prompts_end_state [OF w(2)] that by simp
      ultimately show ?thesis using False Inr r w by (simp add: Let_def)
    qed
  qed (use "2.prems" in simp)
qed simp

text \<open>Serving a batch pops it and leaves the flags and the end signals.\<close>

lemma one_step_generation_same:
  "keeps (same_prompts (w\<lparr>rw_prompt_queue := tl (rw_prompt_queue w)\<rparr>)) (one_step_generation env c rs w)"
  unfolding one_step_generation_def
  by (auto simp: Let_def intro!: prompts.filtered)

lemma serve_head_end_state:
  assumes "end_state w" "\<not> prompt_consume_end (rw_state w)"
  shows "keeps end_state (serve_head env c i w)"
proof -
  let ?w = "w\<lparr>rw_prompt_queue := tl (rw_prompt_queue w)\<rparr>"
  have I: "end_state w'" if "same_prompts ?w w'" for w'
    using that assms by (simp add: same_prompts_def end_state_def ends_def)
  have "keeps end_state (bindR (one_step_generation env c (pi_results i) w) (\<lambda>w.
      if prompt_fetch_end (rw_state w) \<and> rw_prompt_queue w = []
      then end_of_prompts env c (pi_fetched i) (pi_ack i) w else Inr w))"
    using one_step_generation_same [of w env c "pi_results i"] I
    by (intro keeps_bind_from [where g = "\<lambda>w. w" and J = "same_prompts ?w"])
      (auto simp: keeps_keeps_via [symmetric] intro: end_of_prompts_end_state)
  then show ?thesis
    using assms(1) I by (auto simp: serve_head_def split: sum.splits version_decision.splits)
qed

lemma serve_prompts_end_state:
  assumes "end_state w"
  shows "keeps end_state (serve_prompts env c i w)"
  using assms serve_head_end_state [OF assms] send_end_signal_end_state [of w] end_of_prompts_end_state [OF assms]
  by (auto simp: serve_prompts_def)

lemma fetch_and_serve_end_state:
  assumes "end_state w"
  shows "keeps end_state (fetch_and_serve env c i w)"
  unfolding fetch_and_serve_def
  using assms by (intro keeps_bindR serve_prompts_end_state) (auto intro: main_fetch_loop_end_state)

lemma worker_run_end_state:
  assumes "end_state w" "\<not> single_producer_mode c"
  shows "keeps end_state (worker_run env c evs w)"
  unfolding worker_run_def
proof (rule keeps_forR [of end_state, OF assms(1)])
  fix ev w' assume w': "end_state w'"
  have "keeps end_state (main_loop_pass env c i w')" for i
    using w' by (intro main_loop_pass_keeps [OF same_prompts_refl])
      (auto intro: end_state_same fetch_and_serve_end_state)
  then show "keeps end_state (worker_step env c ev w')"
    using w' assms(2) by (cases ev) simp_all
qed

text \<open>C8: A worker that fetches its own prompts, started by \<open>init_worker\<close>, posts the end
  signal only after the controller has announced the end of the prompts, the consumption of all
  prompts is recorded, and its queue is empty; and this stays so for the rest of the run, also
  when the run ends with an exception.\<close>

theorem end_signal_sound:
  assumes "\<not> single_producer_mode c" "PostEnd \<in> set (rw_posts (after (worker_run env c evs init_worker)))"
  shows "prompt_fetch_end (rw_state (after (worker_run env c evs init_worker)))
    \<and> prompt_consume_end (rw_state (after (worker_run env c evs init_worker)))
    \<and> rw_prompt_queue (after (worker_run env c evs init_worker)) = []"
proof -
  have "end_state init_worker" by (simp add: end_state_def init_worker_def ends_def)
  then have "end_state (after (worker_run env c evs init_worker))"
    using worker_run_end_state [OF _ assms(1)] by (simp add: keeps_def)
  then show ?thesis
    using assms(2) ends_eq_0 [of "after (worker_run env c evs init_worker)"] by (auto simp: end_state_def)
qed

text \<open>A run in which the weights arrive, the controller hands out one batch with the end, the
  engine answers, and the rewards are reported.\<close>

definition sample_result :: rollout_result where
  "sample_result = \<lparr>rr_completions = Some [PStr ''a'', PStr ''b''], rr_completed_conversations = None,
     rr_completion_logprobs = None, rr_prompt_logprobs = None, rr_completion_token_ids = None,
     rr_cumulative_logprob = None, rr_prompt_token_ids = None, rr_extra_info = None\<rparr>"

definition sample_broadcast :: command_body where
  "sample_broadcast = RolloutToRolloutBroadcast \<lparr>r2r_src = ''r0'', r2r_dsts = [''r0''],
     r2r_weight_step = Some 1, r2r_total_steps = Some 5, r2r_trainable_only = False\<rparr>"

definition sample_run :: "worker_event list" where
  "sample_run = [Pass (sample_pass\<lparr>pi_commands := [(sample_broadcast, [])],
       pi_answers := [([default_payload\<lparr>pl_prompt_idx := 0, pl_weight_version := 1\<rparr>], True)],
       pi_results := [sample_result]\<rparr>)]"

definition reached_end :: "rollout_worker outcome \<Rightarrow> bool" where
  "reached_end r = (PostEnd \<in> set (rw_posts (after r)) \<and> prompt_consume_end (rw_state (after r))
     \<and> length (rw_posts (after r)) = 2)"

lemma sample_run_ends: "reached_end (worker_run sample_worker_env sample_worker_config sample_run init_worker)"
  by code_simp

theorem end_signal_sound_witness:
  "rw_prompt_queue (after (worker_run sample_worker_env sample_worker_config sample_run init_worker)) = []
   \<and> PostEnd \<in> set (rw_posts (after (worker_run sample_worker_env sample_worker_config sample_run init_worker)))"
proof -
  have "\<not> single_producer_mode sample_worker_config"
    by (simp add: single_producer_mode_def sample_worker_config_def)
  moreover have "PostEnd \<in> set (rw_posts (after (worker_run sample_worker_env sample_worker_config sample_run init_worker)))"
    using sample_run_ends by (simp add: reached_end_def)
  ultimately show ?thesis using end_signal_sound by blast
qed

section \<open>A batch smaller than the data-parallel group\<close>

lemma stride_short: "length xs \<le> r \<Longrightarrow> r < n \<Longrightarrow> stride r n xs = []"
  by (auto simp: stride_def filter_empty_conv)

text \<open>When the controller hands out fewer prompts than a data-parallel rank's position in
  the group, that rank queues an empty batch, and the same pass raises \<open>RuntimeError\<close>
  because an empty batch has no requested version.\<close>

theorem short_batch_raises:
  assumes "idle_worker w" "pi_commands i = []" "pi_answers i = (ps, stop) # answers"
    and "\<not> wc_prefetch_rollout c" "\<not> wc_data_dispatch_as_rank_in_mesh c"
    and "\<not> prompt_fetch_end (rw_state w)" "\<not> prompt_consume_end (rw_state w)" "rw_prompt_queue w = []"
    and "ps \<noteq> []" "\<forall>p \<in> set ps. 0 \<le> pl_prompt_idx p"
    and "1 < wc_dp_size c" "wc_dp_rank c < wc_dp_size c" "length ps \<le> wc_dp_rank c"
  shows "\<exists>w'. main_loop_pass env c i w = Inl (RuntimeError, w') \<and> rw_prompt_queue w' = [[]]"
proof -
  have request: "request_new_prompts env c False (ps, stop) [] 1 w = Inr ([[]], stop)"
    using assms stride_short [of "map (localise env c False) ps" "wc_dp_rank c" "wc_dp_size c"]
    by (simp add: request_new_prompts_def worker_fetch_prompts_def scatter_prompts_def list_all_iff)
  have target: "prompt_fetch_target_depth c False = 1" by (simp add: prompt_fetch_target_depth_def)
  let ?w = "w\<lparr>rw_prompt_queue := [[]], rw_state := (if stop then set_prompt_fetch_end (rw_state w) else rw_state w)\<rparr>"
  have stops: "main_fetch_loop env c False f ack answers (w\<lparr>rw_prompt_queue := [[]]\<rparr>) = Inr (w\<lparr>rw_prompt_queue := [[]]\<rparr>)" for f ack
    using target by (cases answers) simp_all
  have "main_fetch_loop env c False (pi_fetched i) (pi_ack i) (pi_answers i) w = Inr ?w"
    using assms request stops target by simp
  moreover have "serve_prompts env c i ?w = Inl (RuntimeError, ?w)"
    using assms by (simp add: serve_prompts_def serve_head_def)
  ultimately have "main_loop_pass env c i w = Inl (RuntimeError, ?w)"
    using assms by (simp add: main_loop_pass_idle fetch_and_serve_def single_producer_mode_def)
  then show ?thesis by (intro exI [of _ ?w]) simp
qed

theorem short_batch_raises_witness:
  "\<exists>w'. main_loop_pass sample_worker_env
      (sample_worker_config\<lparr>wc_world_size := 2, wc_dp_size := 2, wc_dp_rank := 1\<rparr>)
      (sample_pass\<lparr>pi_answers := [([default_payload\<lparr>pl_prompt_idx := 7\<rparr>], True)]\<rparr>) sample_ready_worker
    = Inl (RuntimeError, w') \<and> rw_prompt_queue w' = [[]]"
  by (rule short_batch_raises [where ps = "[default_payload\<lparr>pl_prompt_idx := 7\<rparr>]" and stop = True and answers = "[]"])
    (simp_all add: sample_worker_defs default_payload_def)

section \<open>No sample is lost between the queue and the reports\<close>

text \<open>The payloads waiting in a dispatcher whose rewards are computed locally, and the samples
  reported as discarded.\<close>

primrec task_payloads :: "reward_task \<Rightarrow> rl_payload list" where
  "task_payloads (Done r) = fst r"
| "task_payloads (Submitted ps v s) = ps"
| "task_payloads (RemoteRequest u) = []"

definition waiting :: "rollout_worker \<Rightarrow> nat" where
  "waiting w = sum_list (map (\<lambda>t. length (task_payloads t)) (rd_task_queue (rw_rewards w)))"

fun post_discarded :: "worker_post \<Rightarrow> int" where
  "post_discarded (PostDiscarded k u) = k"
| "post_discarded _ = 0"

definition discarded :: "rollout_worker \<Rightarrow> int" where
  "discarded w = sum_list (map post_discarded (rw_posts w))"

lemma sum_length_concat: "sum_list (map length xss) = length (concat xss)"
  by (simp add: length_concat)

lemma dict_append_values:
  "mset (concat (dict_values (dict_set k (dict_get_or d k [] @ [p]) d))) = add_mset p (mset (concat (dict_values d)))"
proof (induction d)
  case Nil
  then show ?case by (simp add: dict_get_or_def)
next
  case (Cons a d)
  then show ?case by (cases a) (auto simp: dict_get_or_def)
qed

lemma by_version_payloads: "mset (concat (dict_values (by_version ps))) = mset ps"
proof -
  have "mset (concat (dict_values (fold (\<lambda>p d. dict_set (pl_weight_version p) (dict_get_or d (pl_weight_version p) [] @ [p]) d) ps d)))
    = mset (concat (dict_values d)) + mset ps" for d
    by (induction ps arbitrary: d) (simp_all add: dict_append_values)
  from this [of "[]"] show ?thesis by (simp add: by_version_def)
qed

lemma put_task_waiting:
  "rd_task_queue (put_task t d) = rd_task_queue d @ [t]"
  by (simp add: put_task_def)

abbreviation waits :: "reward_dispatcher \<Rightarrow> nat" where
  "waits d \<equiv> sum_list (map (\<lambda>t. length (task_payloads t)) (rd_task_queue d))"

lemma enqueue_bypassed_waits:
  "forR cs (enqueue_bypassed v s) d = Inr d' \<Longrightarrow> waits d' = waits d + length (concat cs)"
proof (induction cs arbitrary: d)
  case (Cons c cs)
  then obtain d1 where d1: "enqueue_bypassed v s c d = Inr d1" "forR cs (enqueue_bypassed v s) d1 = Inr d'"
    by auto
  then obtain ps where "mapR bypass_payload c = Inr ps" "d1 = put_task (Done (ps, v, s)) d"
    by (auto simp: enqueue_bypassed_def split: sum.splits)
  then have "waits d1 = waits d + length c"
    by (auto simp: put_task_waiting mapR_Inr_iff list_all2_conv_all_nth)
  then show ?case using Cons.IH [OF d1(2)] by simp
qed simp

lemma enqueue_on_waiting:
  assumes "enqueue_on env ps v s b w = Inr w'" "\<not> rv_is_remote (we_rewards env)"
  shows "waiting w' = waiting w + length ps \<and> rw_posts w' = rw_posts w"
proof -
  let ?k = "rv_payload_per_task (we_rewards env)"
  obtain d where d: "enqueue_rewards_cal (we_rewards env) ps v s b (rw_rewards w) = Inr d"
    and w': "w' = w\<lparr>rw_rewards := d\<rparr>"
    using assms(1) by (auto simp: enqueue_on_def split: sum.splits)
  have k: "0 < ?k" using d assms(2) by (auto simp: enqueue_rewards_cal_def Let_def split: if_splits)
  have "waits d = waits (rw_rewards w) + length ps"
  proof (cases b)
    case True
    then show ?thesis
      using d k enqueue_bypassed_waits [of "payload_slices ?k ps" v s "rw_rewards w" d] concat_payload_slices [OF k, of ps]
      by (simp add: enqueue_rewards_cal_def Let_def)
  next
    case False
    then show ?thesis
      using d k assms(2) enqueue_local [OF k assms(2), of ps v s "rw_rewards w"]
        sum_length_concat [of "payload_slices ?k ps"] concat_payload_slices [OF k, of ps]
      by (auto simp: comp_def)
  qed
  then show ?thesis by (simp add: w' waiting_def)
qed

lemma enqueue_groups_waiting:
  assumes "forR ds (\<lambda>(v, ps). enqueue_on env ps False v b) w = Inr w'" "\<not> rv_is_remote (we_rewards env)"
  shows "waiting w' = waiting w + length (concat (dict_values ds)) \<and> rw_posts w' = rw_posts w"
  using assms(1)
proof (induction ds arbitrary: w)
  case (Cons a ds)
  then obtain w1 where w1: "enqueue_on env (snd a) False (fst a) b w = Inr w1"
    "forR ds (\<lambda>(v, ps). enqueue_on env ps False v b) w1 = Inr w'"
    by (cases a) auto
  then show ?case using Cons.IH [OF w1(2)] enqueue_on_waiting [OF w1(1) assms(2)] by simp
qed simp


definition sample_two_prompts :: rollout_worker where
  "sample_two_prompts = sample_ready_worker\<lparr>rw_prompt_queue := [[default_payload, default_payload]]\<rparr>"

definition sample_generation :: rollout_worker where
  "sample_generation = projr (one_step_generation sample_worker_env sample_worker_config
     [sample_result, sample_result\<lparr>rr_completions := Some []\<rparr>] sample_two_prompts)"

lemma sample_generation_steps:
  "(case one_step_generation sample_worker_env sample_worker_config
     [sample_result, sample_result\<lparr>rr_completions := Some []\<rparr>] sample_two_prompts of
     Inl e \<Rightarrow> False | Inr w \<Rightarrow> discarded w = 2 \<and> waiting w = 1)"
  by code_simp


end
