(* ===== verification/Data_Fetcher.thy ===== *)
theory Data_Fetcher
  imports Schema
begin

text \<open>
  The configuration fields the dispatcher reads, with the validators that adjust them
  (cosmos_rl/policy/config/__init__.py), and the controller's data fetcher
  (cosmos_rl/dispatcher/data/data_fetcher.py): validation dataloader activation and the
  serving of prompts, epoch after epoch, with or without dispatch by mesh rank. The
  dataset, its samplers and torch's \<open>DataLoader\<close> are parameters held in the state: the
  batches of an epoch are a function of the epoch number. Lemmas: what the validators
  establish, bounds on what one call returns, that batches are served in order and none
  is lost, and termination of the fetch loop by its measure.
\<close>

section \<open>Configuration\<close>

record config =
  c_mode :: string
  c_type :: string
  c_variant :: string
  c_train_batch :: int
  c_max_num_steps :: "int option"
  c_sync_weight_interval :: int
  c_coalesce_weight_sync :: bool
  c_allowed_outdated_steps :: int
  c_on_policy :: bool
  c_dispatch_as_rank_in_mesh :: bool
  c_outdated_rollout_fetch_batch_size :: int
  c_max_retry_for_on_policy :: int
  c_max_inflight_steps :: "int option"
  c_rollout_as_token_ids :: bool
  c_non_text :: bool
  c_epoch :: int
  c_resume :: bool
  c_local_dataset :: bool
  c_enable_checkpoint :: bool
  c_save_freq :: int
  c_save_freq_in_epoch :: int
  c_val_enable :: bool
  c_val_freq :: int
  c_val_before_train :: bool
  c_val_n_generation :: int
  c_n_generation :: int
  c_include_stop_str :: bool
  c_multi_turn :: bool
  c_logger :: "string list"
  c_policy_n_init :: int
  c_rollout_n_init :: int

text \<open>The throttle fields of \<open>GrpoConfig\<close>'s validator.\<close>

definition grpo_check :: "config \<Rightarrow> config" where
  "grpo_check c =
     (let c = (if c_variant c = ''dapo'' \<and> c_outdated_rollout_fetch_batch_size c \<le> 0
               then c\<lparr>c_outdated_rollout_fetch_batch_size := 128\<rparr> else c)
      in case c_max_inflight_steps c of
           None \<Rightarrow> c
         | Some m \<Rightarrow> if m < c_allowed_outdated_steps c + 1
             then c\<lparr>c_max_inflight_steps := Some (c_allowed_outdated_steps c + 1)\<rparr> else c)"

text \<open>The step and coalescing fields of the training configuration's validator.\<close>

definition train_check :: "config \<Rightarrow> py_error + config" where
  "train_check c =
     (if (case c_max_num_steps c of None \<Rightarrow> False | Some m \<Rightarrow> m \<le> 0) then Inl ValueError
      else if c_type c = ''grpo'' \<and> c_on_policy c \<and> c_sync_weight_interval c \<noteq> 1
      then Inl AssertionError
      else
        let c = (if c_type c = ''grpo'' \<and> c_on_policy c
                 then c\<lparr>c_allowed_outdated_steps := 0\<rparr> else c)
        in Inr (if c_coalesce_weight_sync c \<and> (c_on_policy c \<or> \<not> 0 < c_allowed_outdated_steps c)
                then c\<lparr>c_coalesce_weight_sync := False\<rparr> else c))"

text \<open>The top-level validator raises the allowed staleness to the sync interval, and
  the hard throttle with it.\<close>

definition config_check :: "config \<Rightarrow> config" where
  "config_check c =
     (if c_type c = ''grpo'' \<and> c_allowed_outdated_steps c + 1 < c_sync_weight_interval c
      then
        let c = c\<lparr>c_allowed_outdated_steps := c_sync_weight_interval c - 1\<rparr>
        in case c_max_inflight_steps c of
             None \<Rightarrow> c
           | Some m \<Rightarrow> if m < c_allowed_outdated_steps c + 1
               then c\<lparr>c_max_inflight_steps := Some (c_allowed_outdated_steps c + 1)\<rparr> else c
      else c)"

text \<open>Pydantic runs the field models' validators before the enclosing ones.\<close>

definition validate_config :: "config \<Rightarrow> py_error + config" where
  "validate_config c =
     bindR (train_check (if c_type c = ''grpo'' then grpo_check c else c)) (\<lambda>c. Inr (config_check c))"

lemma grpo_check_inflight:
  "c_max_inflight_steps (grpo_check c) = Some m \<Longrightarrow> c_allowed_outdated_steps (grpo_check c) + 1 \<le> m"
  by (auto simp: grpo_check_def Let_def split: if_splits option.splits)

lemma train_check_frame:
  assumes "train_check c = Inr c'"
  shows "c_type c' = c_type c \<and> c_max_inflight_steps c' = c_max_inflight_steps c
    \<and> c_on_policy c' = c_on_policy c \<and> c_sync_weight_interval c' = c_sync_weight_interval c
    \<and> c_allowed_outdated_steps c'
        = (if c_type c = ''grpo'' \<and> c_on_policy c then 0 else c_allowed_outdated_steps c)"
  using assms by (auto simp: train_check_def Let_def split: if_splits option.splits)

lemma train_check_coalesce:
  "train_check c = Inr c' \<Longrightarrow> c_coalesce_weight_sync c' \<Longrightarrow>
     \<not> c_on_policy c' \<and> 0 < c_allowed_outdated_steps c'"
  by (auto simp: train_check_def Let_def split: if_splits option.splits)

lemma train_check_on_policy:
  "train_check c = Inr c' \<Longrightarrow> c_type c = ''grpo'' \<Longrightarrow> c_on_policy c \<Longrightarrow> c_sync_weight_interval c = 1"
  by (auto simp: train_check_def Let_def split: if_splits option.splits)

lemma config_check_frame:
  "c_type (config_check c) = c_type c \<and> c_on_policy (config_check c) = c_on_policy c
    \<and> c_coalesce_weight_sync (config_check c) = c_coalesce_weight_sync c
    \<and> c_sync_weight_interval (config_check c) = c_sync_weight_interval c
    \<and> c_allowed_outdated_steps c \<le> c_allowed_outdated_steps (config_check c)"
  by (auto simp: config_check_def Let_def split: option.splits)

lemma config_check_raise:
  "c_type c = ''grpo'' \<Longrightarrow>
     c_sync_weight_interval c \<le> c_allowed_outdated_steps (config_check c) + 1"
  by (auto simp: config_check_def Let_def split: option.splits)

lemma config_check_inflight:
  assumes "c_max_inflight_steps c = Some m" and "c_allowed_outdated_steps c + 1 \<le> m"
    and "c_max_inflight_steps (config_check c) = Some m'"
  shows "c_allowed_outdated_steps (config_check c) + 1 \<le> m'"
  using assms by (auto simp: config_check_def Let_def split: if_splits)

lemma config_check_inflight_None:
  "c_max_inflight_steps (config_check c) = None \<longleftrightarrow> c_max_inflight_steps c = None"
  by (auto simp: config_check_def Let_def split: option.splits)

section \<open>The fetcher's state\<close>

type_synonym batch = "(int \<times> rl_payload) list"

record data_fetcher =
  df_epoch :: int
  df_epoch_batches :: "int \<Rightarrow> batch list"
  df_train_iter :: "batch list"
  df_val_batches :: "batch list option"
  df_val_datasize :: int
  df_val_iters :: "(int, batch list) dict"
  df_activated_val_step :: "int option"
  df_activated_val_iter :: "int option"
  df_activated_val_tqdm :: bool
  df_rollout_batch_size :: int
  df_val_batch_size :: int
  df_buffer :: batch
  df_val_buffer :: batch
  df_fetched_at_step :: "(int, (int, int) dict) dict"
  df_rollout_mesh_size :: "int option"
  df_policy_mesh_size :: "int option"
  df_answer :: "int \<Rightarrow> string option"
  df_val_answer :: "int \<Rightarrow> string option"

definition set_rollout_global_mesh_size :: "int \<Rightarrow> data_fetcher \<Rightarrow> data_fetcher" where
  "set_rollout_global_mesh_size n d = d\<lparr>df_rollout_mesh_size := Some n\<rparr>"

definition set_policy_global_mesh_size :: "int \<Rightarrow> data_fetcher \<Rightarrow> data_fetcher" where
  "set_policy_global_mesh_size n d = d\<lparr>df_policy_mesh_size := Some n\<rparr>"

text \<open>
  \<open>activated_val_iter\<close> is a reference to the iterator stored in \<open>val_iters\<close>; it is
  kept as that iterator's key. Without a validation dataloader \<open>iter\<close> raises.
\<close>

definition validation_activate_dataloader :: "int \<Rightarrow> data_fetcher \<Rightarrow> data_fetcher outcome" where
  "validation_activate_dataloader step d =
     bindR (if dict_has (df_val_iters d) step then Inr d
            else case df_val_batches d of
              None \<Rightarrow> Inl (TypeError, d)
            | Some bs \<Rightarrow> Inr (d\<lparr>df_val_iters := dict_set step bs (df_val_iters d)\<rparr>)) (\<lambda>d.
     Inr (d\<lparr>df_activated_val_tqdm := True, df_activated_val_step := Some step,
            df_activated_val_iter := Some step\<rparr>))"

definition validation_get_dataloader :: "int option \<Rightarrow> data_fetcher \<Rightarrow> py_error + int option" where
  "validation_get_dataloader vs d =
     (case vs of
        None \<Rightarrow> Inr (df_activated_val_iter d)
      | Some s \<Rightarrow> if dict_has (df_val_iters d) s then Inr (Some s) else Inl KeyError)"

definition clear_validation_status :: "data_fetcher \<Rightarrow> data_fetcher" where
  "clear_validation_status d = d\<lparr>df_activated_val_step := None, df_activated_val_iter := None,
     df_activated_val_tqdm := False\<rparr>"

section \<open>Serving prompts\<close>

text \<open>One batch from the iterator; at the end of the data the training iterator moves to
  the next epoch, if there is one. \<open>None\<close> is the end of the data.\<close>

definition next_train_batch :: "config \<Rightarrow> data_fetcher \<Rightarrow> (py_error \<times> data_fetcher) + (batch option \<times> data_fetcher)" where
  "next_train_batch c d =
     (case df_train_iter d of
        b # bs \<Rightarrow> Inr (Some b, d\<lparr>df_train_iter := bs\<rparr>)
      | [] \<Rightarrow>
          let d = d\<lparr>df_epoch := df_epoch d + 1\<rparr> in
          if df_epoch d \<le> c_epoch c then
            (case df_epoch_batches d (df_epoch d) of
               [] \<Rightarrow> Inl (StopIteration, d\<lparr>df_train_iter := []\<rparr>)
             | b # bs \<Rightarrow> Inr (Some b, d\<lparr>df_train_iter := bs\<rparr>))
          else Inr (None, d))"

definition next_val_batch :: "int \<Rightarrow> data_fetcher \<Rightarrow> (py_error \<times> data_fetcher) + (batch option \<times> data_fetcher)" where
  "next_val_batch step d =
     (case dict_get_or (df_val_iters d) step [] of
        b # bs \<Rightarrow> Inr (Some b, d\<lparr>df_val_iters := dict_set step bs (df_val_iters d)\<rparr>)
      | [] \<Rightarrow> Inr (None, d))"

definition next_batch :: "config \<Rightarrow> int option \<Rightarrow> data_fetcher \<Rightarrow> (py_error \<times> data_fetcher) + (batch option \<times> data_fetcher)" where
  "next_batch c vs d = (case vs of None \<Rightarrow> next_train_batch c d | Some s \<Rightarrow> next_val_batch s d)"

definition add_answers :: "config \<Rightarrow> int option \<Rightarrow> data_fetcher \<Rightarrow> batch \<Rightarrow> batch" where
  "add_answers c vs d b =
     (if c_multi_turn c \<or> \<not> c_local_dataset c
      then map (\<lambda>(i, p). (i, p\<lparr>pl_reference_answer :=
             (if vs = None then df_answer d i else df_val_answer d i)\<rparr>)) b
      else b)"

definition strip_local :: "config \<Rightarrow> rl_payload \<Rightarrow> rl_payload" where
  "strip_local c p =
     (if c_local_dataset c then
        let p = p\<lparr>pl_prompt := PNone, pl_conversation := None\<rparr>
        in if c_multi_turn c then p else p\<lparr>pl_reference_answer := None\<rparr>
      else p)"

definition prompt_batch_per_replica :: "config \<Rightarrow> int" where
  "prompt_batch_per_replica c = ceil_div (c_train_batch c) (c_n_generation c)"

text \<open>Whether a prompt belongs to the asking rollout rank and its policy replica still
  wants prompts of this weight version.\<close>

definition mesh_match :: "config \<Rightarrow> int \<Rightarrow> int option \<Rightarrow> data_fetcher \<Rightarrow> int \<Rightarrow> py_error + bool" where
  "mesh_match c rank wv d idx =
     (case df_rollout_mesh_size d of None \<Rightarrow> Inl AttributeError | Some m \<Rightarrow>
      if m = 0 then Inl ZeroDivisionError
      else if idx mod m \<noteq> rank then Inr False
      else case wv of None \<Rightarrow> Inr True | Some v \<Rightarrow>
        case dict_get (df_fetched_at_step d) v of None \<Rightarrow> Inl KeyError | Some cnt \<Rightarrow>
        case df_policy_mesh_size d of None \<Rightarrow> Inl AttributeError | Some p \<Rightarrow>
        if p = 0 then Inl ZeroDivisionError
        else Inr (dict_get_or cnt (idx mod p) 0 < prompt_batch_per_replica c))"

definition count_fetched :: "int option \<Rightarrow> int \<Rightarrow> data_fetcher \<Rightarrow> data_fetcher" where
  "count_fetched wv idx d =
     (case (wv, df_policy_mesh_size d) of
        (Some v, Some p) \<Rightarrow> d\<lparr>df_fetched_at_step :=
          dict_upd v (\<lambda>cnt. dict_set (idx mod p) (dict_get_or cnt (idx mod p) 0 + 1) cnt)
            (df_fetched_at_step d)\<rparr>
      | _ \<Rightarrow> d)"

definition get_buffer :: "int option \<Rightarrow> data_fetcher \<Rightarrow> batch" where
  "get_buffer vs d = (if vs = None then df_buffer d else df_val_buffer d)"

definition put_buffer :: "int option \<Rightarrow> batch \<Rightarrow> data_fetcher \<Rightarrow> data_fetcher" where
  "put_buffer vs b d = (if vs = None then d\<lparr>df_buffer := b\<rparr> else d\<lparr>df_val_buffer := b\<rparr>)"

text \<open>The index of the first buffered prompt that matches.\<close>

fun find_match :: "config \<Rightarrow> int \<Rightarrow> int option \<Rightarrow> data_fetcher \<Rightarrow> batch \<Rightarrow> py_error + nat option" where
  "find_match c rank wv d [] = Inr None"
| "find_match c rank wv d (x # xs) =
     bindR (mesh_match c rank wv d (fst x)) (\<lambda>ok.
       if ok then Inr (Some 0)
       else bindR (find_match c rank wv d xs) (\<lambda>r. Inr (map_option Suc r)))"

text \<open>The first loop: matching prompts of the buffer, until \<open>n\<close> are found or none is left.
  The buffer shrinks in every turn, so as many turns as it has entries are enough.\<close>

fun take_buffered :: "nat \<Rightarrow> config \<Rightarrow> int option \<Rightarrow> int \<Rightarrow> int option \<Rightarrow> int \<Rightarrow> rl_payload list \<Rightarrow> data_fetcher
    \<Rightarrow> (py_error \<times> data_fetcher) + (rl_payload list \<times> data_fetcher)" where
  "take_buffered fuel c vs rank wv n ps d =
     (if \<not> 0 < n - int (length ps) then Inr (ps, d)
      else case find_match c rank wv d (get_buffer vs d) of
        Inl e \<Rightarrow> Inl (e, d)
      | Inr None \<Rightarrow> Inr (ps, d)
      | Inr (Some i) \<Rightarrow>
          (case fuel of
             0 \<Rightarrow> Inr (ps, d)
           | Suc fuel' \<Rightarrow>
               let x = get_buffer vs d ! i;
                   d' = put_buffer vs (take i (get_buffer vs d) @ drop (Suc i) (get_buffer vs d))
                          (count_fetched wv (fst x) d)
               in take_buffered fuel' c vs rank wv n (ps @ [snd x]) d'))"

declare take_buffered.simps [simp del]

definition place_prompt :: "config \<Rightarrow> int option \<Rightarrow> int option \<Rightarrow> int option \<Rightarrow> int \<Rightarrow> int \<times> rl_payload
    \<Rightarrow> rl_payload list \<times> data_fetcher \<Rightarrow> (py_error \<times> data_fetcher) + (rl_payload list \<times> data_fetcher)" where
  "place_prompt c vs rank wv n x s =
     (let (ps, d) = s; p = strip_local c (snd x) in
      if \<not> c_dispatch_as_rank_in_mesh c then Inr (ps @ [p], d)
      else case rank of
        None \<Rightarrow> Inl (AssertionError, d)
      | Some r \<Rightarrow>
          (case mesh_match c r wv d (fst x) of
             Inl e \<Rightarrow> Inl (e, d)
           | Inr ok \<Rightarrow>
               if ok \<and> int (length ps) < n
               then Inr (ps @ [p], count_fetched wv (fst x) d)
               else Inr (ps, put_buffer vs (get_buffer vs d @ [(fst x, p)]) d)))"

text \<open>The inner \<open>for\<close> loop: \<open>k\<close> batches, or fewer if the data ends.\<close>

fun fetch_rounds :: "nat \<Rightarrow> config \<Rightarrow> int option \<Rightarrow> int option \<Rightarrow> int option \<Rightarrow> int \<Rightarrow> int
    \<Rightarrow> rl_payload list \<times> data_fetcher
    \<Rightarrow> (py_error \<times> data_fetcher) + (bool \<times> rl_payload list \<times> data_fetcher)" where
  "fetch_rounds 0 c vs rank wv n bsz s = Inr (False, s)"
| "fetch_rounds (Suc k) c vs rank wv n bsz s =
     bindR (next_batch c vs (snd s)) (\<lambda>(ob, d).
       case ob of
         None \<Rightarrow> Inr (True, fst s, d)
       | Some b \<Rightarrow>
           if \<not> int (length b) \<le> bsz then Inl (AssertionError, d)
           else bindR (forR (add_answers c vs d b) (place_prompt c vs rank wv n) (fst s, d))
                  (fetch_rounds k c vs rank wv n bsz))"

text \<open>
  The outer \<open>while\<close> loop. A turn that does not end the loop took at least one batch, so
  the number of batches still to come bounds the number of turns.
\<close>

definition batches_left :: "config \<Rightarrow> int option \<Rightarrow> data_fetcher \<Rightarrow> nat" where
  "batches_left c vs d =
     (case vs of
        Some s \<Rightarrow> length (dict_get_or (df_val_iters d) s [])
      | None \<Rightarrow> length (df_train_iter d)
          + (\<Sum>e \<leftarrow> [df_epoch d + 1..c_epoch c]. length (df_epoch_batches d e)))"

fun fetch_loop :: "nat \<Rightarrow> config \<Rightarrow> int option \<Rightarrow> int option \<Rightarrow> int option \<Rightarrow> int \<Rightarrow> int
    \<Rightarrow> rl_payload list \<times> data_fetcher
    \<Rightarrow> (py_error \<times> data_fetcher) + (bool \<times> rl_payload list \<times> data_fetcher) option" where
  "fetch_loop fuel c vs rank wv n bsz s =
     (if \<not> 0 < n - int (length (fst s)) then Inr (Some (False, s))
      else case fuel of
        0 \<Rightarrow> Inr None
      | Suc fuel' \<Rightarrow>
          bindR (fetch_rounds (nat (ceil_div n bsz)) c vs rank wv n bsz s) (\<lambda>(stop, s').
            if stop \<or> \<not> c_dispatch_as_rank_in_mesh c then Inr (Some (stop, s'))
            else fetch_loop fuel' c vs rank wv n bsz s'))"

declare fetch_loop.simps [simp del]

text \<open>\<open>ControllerDataFetcher.get_batched_prompt\<close>. \<open>Inr (None, _)\<close> would be a loop that
  does not return; \<open>get_batched_prompt_returns\<close> shows it cannot happen.\<close>

definition get_batched_prompt :: "config \<Rightarrow> int \<Rightarrow> int option \<Rightarrow> int option \<Rightarrow> int option \<Rightarrow> data_fetcher
    \<Rightarrow> (py_error \<times> data_fetcher) + ((rl_payload list \<times> bool) option \<times> data_fetcher)" where
  "get_batched_prompt c n vs rank wv d =
     (let d = (case wv of None \<Rightarrow> d | Some v \<Rightarrow>
                 if dict_has (df_fetched_at_step d) v then d
                 else d\<lparr>df_fetched_at_step := dict_set v [] (df_fetched_at_step d)\<rparr>)
      in if c_n_generation c = 0 then Inl (ZeroDivisionError, d)
      else
        let wv = (if vs = None then wv else None);
            bsz = (if vs = None then df_rollout_batch_size d else df_val_batch_size d)
        in case validation_get_dataloader vs d of Inl e \<Rightarrow> Inl (e, d) | Inr _ \<Rightarrow>
        bindR (if \<not> c_dispatch_as_rank_in_mesh c then Inr ([], d)
               else case rank of None \<Rightarrow> Inl (AssertionError, d)
                 | Some r \<Rightarrow> take_buffered (length (get_buffer vs d)) c vs r wv n [] d) (\<lambda>s.
        if 0 < n - int (length (fst s)) \<and> bsz = 0 then Inl (ZeroDivisionError, snd s)
        else
        bindR (fetch_loop (Suc (batches_left c vs (snd s))) c vs rank wv n bsz s) (\<lambda>r.
          case r of
            None \<Rightarrow> Inr (None, d)
          | Some (stop, ps, d') \<Rightarrow>
              Inr (Some (ps, stop \<and> (get_buffer vs d' = [] \<or> \<not> c_dispatch_as_rank_in_mesh c)), d'))))"

section \<open>Nothing is lost, nothing is served twice\<close>

text \<open>The training batches still to come, and for validation the rest of the iterator.\<close>

definition pending :: "config \<Rightarrow> int option \<Rightarrow> data_fetcher \<Rightarrow> batch list" where
  "pending c vs d =
     (case vs of
        Some s \<Rightarrow> dict_get_or (df_val_iters d) s []
      | None \<Rightarrow> df_train_iter d @ concat (map (df_epoch_batches d) [df_epoch d + 1..c_epoch c]))"

lemma batches_left_pending: "batches_left c vs d = length (pending c vs d)"
  by (cases vs) (simp_all add: batches_left_def pending_def length_concat comp_def)

lemma upto_Cons: "i \<le> j \<Longrightarrow> [i..j] = i # [i + 1..j]"
  by (rule upto_rec1)

lemma next_train_Some:
  assumes "next_train_batch c d = Inr (Some b, d')"
  shows "pending c None d = b # pending c None d'"
proof (cases "df_train_iter d")
  case (Cons x xs)
  with assms show ?thesis by (auto simp: next_train_batch_def pending_def)
next
  case Nil
  then show ?thesis
    using assms upto_Cons [of "df_epoch d + 1" "c_epoch c"]
    by (auto simp: next_train_batch_def pending_def Let_def split: if_splits list.splits)
qed

lemma next_train_None:
  assumes "next_train_batch c d = Inr (None, d')"
  shows "pending c None d = [] \<and> pending c None d' = []"
  using assms by (auto simp: next_train_batch_def pending_def Let_def split: if_splits list.splits)

lemma next_batch_pending:
  assumes "next_batch c vs d = Inr (ob, d')"
  shows "case ob of Some b \<Rightarrow> pending c vs d = b # pending c vs d'
    | None \<Rightarrow> pending c vs d = [] \<and> pending c vs d' = []"
proof (cases vs)
  case None
  with assms show ?thesis
    by (cases ob) (auto simp: next_batch_def dest: next_train_Some next_train_None)
next
  case (Some v)
  with assms show ?thesis
    by (auto simp: next_batch_def next_val_batch_def pending_def dict_get_or_def split: list.splits)
qed

lemma next_batch_frame:
  assumes "next_batch c vs d = Inr (ob, d')"
  shows "get_buffer vs d' = get_buffer vs d"
  using assms by (auto simp: next_batch_def next_train_batch_def next_val_batch_def get_buffer_def
      Let_def split: option.splits list.splits if_splits)

lemma count_fetched_frame [simp]:
  "pending c vs (count_fetched wv i d) = pending c vs d"
  "get_buffer vs (count_fetched wv i d) = get_buffer vs d"
  by (auto simp: count_fetched_def pending_def get_buffer_def split: option.splits)

lemma put_buffer_frame [simp]:
  "pending c vs (put_buffer vs' b d) = pending c vs d"
  "get_buffer vs (put_buffer vs b d) = b"
  by (auto simp: put_buffer_def pending_def get_buffer_def split: option.splits)

lemma strip_local_idx [simp]: "pl_prompt_idx (strip_local c p) = pl_prompt_idx p"
  by (simp add: strip_local_def Let_def)

lemma add_answers_idx: "map (\<lambda>x. pl_prompt_idx (snd x)) (add_answers c vs d b) = map (\<lambda>x. pl_prompt_idx (snd x)) b"
  by (auto simp: add_answers_def)

text \<open>The prompts in flight inside one call: served, buffered, and still to come.\<close>

definition bidx :: "batch \<Rightarrow> int multiset" where
  "bidx b = mset (map (\<lambda>x. pl_prompt_idx (snd x)) b)"

definition account :: "config \<Rightarrow> int option \<Rightarrow> rl_payload list \<times> data_fetcher \<Rightarrow> int multiset" where
  "account c vs s = mset (map pl_prompt_idx (fst s)) + bidx (get_buffer vs (snd s))
     + bidx (concat (pending c vs (snd s)))"

lemma bidx_simps [simp]:
  "bidx [] = {#}" "bidx (x # b) = add_mset (pl_prompt_idx (snd x)) (bidx b)"
  "bidx (a @ b) = bidx a + bidx b"
  by (simp_all add: bidx_def)

lemma bidx_add_answers [simp]: "bidx (add_answers c vs d b) = bidx b"
  by (simp add: bidx_def add_answers_idx)

lemma place_prompt_account:
  assumes "place_prompt c vs rank wv n x s = Inr s'"
  shows "account c vs s' = account c vs s + {#pl_prompt_idx (snd x)#}
    \<and> pending c vs (snd s') = pending c vs (snd s)"
  using assms
  by (auto simp: place_prompt_def account_def Let_def split: prod.splits if_splits option.splits sum.splits)

lemma place_all_account:
  assumes "forR xs (place_prompt c vs rank wv n) s = Inr s'"
  shows "account c vs s' = account c vs s + bidx xs \<and> pending c vs (snd s') = pending c vs (snd s)"
  using assms
proof (induction xs arbitrary: s)
  case Nil
  then show ?case by simp
next
  case (Cons x xs)
  then obtain t where t: "place_prompt c vs rank wv n x s = Inr t"
    and rest: "forR xs (place_prompt c vs rank wv n) t = Inr s'"
    by (auto elim: bindR_InrE)
  from Cons.IH [OF rest] place_prompt_account [OF t] show ?case by simp
qed

lemma fetch_rounds_account:
  assumes "fetch_rounds k c vs rank wv n bsz s = Inr (stop, s')"
  shows "account c vs s' = account c vs s
    \<and> (if stop then pending c vs (snd s') = []
       else length (pending c vs (snd s')) + k = length (pending c vs (snd s)))"
  using assms
proof (induction k arbitrary: s)
  case 0
  then show ?case by simp
next
  case (Suc k)
  then obtain ob d where nb: "next_batch c vs (snd s) = Inr (ob, d)"
    by (auto elim!: bindR_InrE)
  note pend = next_batch_pending [OF nb] and buf = next_batch_frame [OF nb]
  show ?case
  proof (cases ob)
    case None
    with Suc.prems nb pend buf show ?thesis by (auto simp: account_def)
  next
    case (Some b)
    with Suc.prems nb obtain t where t: "forR (add_answers c vs d b) (place_prompt c vs rank wv n) (fst s, d) = Inr t"
      and rest: "fetch_rounds k c vs rank wv n bsz t = Inr (stop, s')"
      by (auto split: if_splits elim!: bindR_InrE)
    have "account c vs (fst s, d) + bidx b = account c vs s"
      using Some pend buf by (simp add: account_def add.assoc add.commute add.left_commute)
    with place_all_account [OF t] Suc.IH [OF rest] Some pend show ?thesis
      by (auto split: if_splits)
  qed
qed

lemma fetch_loop_account:
  assumes "fetch_loop fuel c vs rank wv n bsz s = Inr (Some (stop, s'))"
  shows "account c vs s' = account c vs s \<and> (stop \<longrightarrow> pending c vs (snd s') = [])"
  using assms
proof (induction fuel arbitrary: s)
  case 0
  then show ?case by (subst (asm) fetch_loop.simps) (auto split: if_splits)
next
  case (Suc fuel)
  show ?case
  proof (cases "0 < n - int (length (fst s))")
    case False
    with Suc.prems show ?thesis by (subst (asm) fetch_loop.simps) auto
  next
    case True
    with Suc.prems obtain e t where
      r: "fetch_rounds (nat (ceil_div n bsz)) c vs rank wv n bsz s = Inr (e, t)"
      and rest: "(if e \<or> \<not> c_dispatch_as_rank_in_mesh c then Inr (Some (e, t))
        else fetch_loop fuel c vs rank wv n bsz t) = Inr (Some (stop, s'))"
      by (subst (asm) fetch_loop.simps) (auto elim!: bindR_InrE)
    from rest fetch_rounds_account [OF r] Suc.IH [of t] show ?thesis
      by (auto split: if_splits)
  qed
qed

lemma find_match_bound: "find_match c rank wv d b = Inr (Some i) \<Longrightarrow> i < length b"
proof (induction b arbitrary: i)
  case Nil
  then show ?case by simp
next
  case (Cons x b)
  then show ?case by (auto split: if_splits elim!: bindR_InrE)
qed

lemma bidx_remove: "i < length b \<Longrightarrow>
  bidx (take i b @ drop (Suc i) b) + {#pl_prompt_idx (snd (b ! i))#} = bidx b"
proof -
  assume i: "i < length b"
  have "bidx (take i b @ b ! i # drop (Suc i) b) = bidx b"
    using i by (simp add: id_take_nth_drop [symmetric])
  then show ?thesis by simp
qed

lemma take_buffered_account:
  assumes "take_buffered fuel c vs rank wv n ps d = Inr s'"
  shows "account c vs s' = account c vs (ps, d) \<and> pending c vs (snd s') = pending c vs d"
  using assms
proof (induction fuel arbitrary: ps d)
  case 0
  then show ?case
    by (subst (asm) take_buffered.simps) (auto split: if_splits sum.splits option.splits)
next
  case (Suc fuel)
  show ?case
  proof (cases "\<exists>i. 0 < n - int (length ps) \<and> find_match c rank wv d (get_buffer vs d) = Inr (Some i)")
    case False
    with Suc.prems show ?thesis
      by (subst (asm) take_buffered.simps) (auto split: if_splits sum.splits option.splits)
  next
    case True
    then obtain i where i: "0 < n - int (length ps)"
        "find_match c rank wv d (get_buffer vs d) = Inr (Some i)" by blast
    let ?b = "get_buffer vs d"
    let ?d = "put_buffer vs (take i ?b @ drop (Suc i) ?b) (count_fetched wv (fst (?b ! i)) d)"
    have step: "take_buffered fuel c vs rank wv n (ps @ [snd (?b ! i)]) ?d = Inr s'"
      using Suc.prems i by (subst (asm) take_buffered.simps) (simp add: Let_def)
    have "account c vs (ps @ [snd (?b ! i)], ?d) = account c vs (ps, d)"
      using bidx_remove [OF find_match_bound [OF i(2)]]
      by (simp add: account_def add.assoc add.commute add.left_commute)
    with Suc.IH [OF step] show ?thesis by simp
  qed
qed

section \<open>The loop returns\<close>

lemma fetch_rounds_progress:
  assumes "fetch_rounds (Suc k) c vs rank wv n bsz s = Inr (False, s')"
  shows "batches_left c vs (snd s') < batches_left c vs (snd s)"
  using fetch_rounds_account [OF assms] by (simp add: batches_left_pending)

lemma ceil_div_pos: "0 < b \<Longrightarrow> 0 < a \<Longrightarrow> 0 < ceil_div a b"
proof -
  assume b: "0 < b" and a: "0 < a"
  have "0 < ceil_div a b * b" using ceil_div_le [OF b, of a] a by linarith
  then show ?thesis using b by (simp add: zero_less_mult_iff)
qed

lemma fetch_loop_returns:
  assumes "batches_left c vs (snd s) < fuel" and "0 < bsz"
  shows "fetch_loop fuel c vs rank wv n bsz s \<noteq> Inr None"
  using assms
proof (induction fuel arbitrary: s)
  case 0
  then show ?case by simp
next
  case (Suc fuel)
  show ?case
  proof (cases "0 < n - int (length (fst s))")
    case False
    then show ?thesis by (subst fetch_loop.simps) simp
  next
    case True
    then obtain k where k: "nat (ceil_div n bsz) = Suc k"
      using ceil_div_pos [OF Suc.prems(2), of n] by (cases "nat (ceil_div n bsz)") auto
    show ?thesis
    proof (cases "fetch_rounds (Suc k) c vs rank wv n bsz s")
      case (Inl e)
      with True k show ?thesis by (subst fetch_loop.simps) simp
    next
      case (Inr r)
      obtain e t where r: "r = (e, t)" by (cases r)
      have "\<not> e \<Longrightarrow> fetch_loop fuel c vs rank wv n bsz t \<noteq> Inr None"
        using fetch_rounds_progress [of k c vs rank wv n bsz s t] Inr r Suc.prems
        by (intro Suc.IH) auto
      with True k Inr r show ?thesis by (subst fetch_loop.simps) auto
    qed
  qed
qed

lemma get_batched_prompt_returns:
  assumes "0 < df_rollout_batch_size d" and "0 < df_val_batch_size d"
  shows "get_batched_prompt c n vs rank wv d \<noteq> Inr (None, d')"
proof -
  have "fetch_loop (Suc (batches_left c vs (snd s))) c vs rank wv' n b s \<noteq> Inr None"
    if "0 < b" for s wv' b
    using that by (intro fetch_loop_returns) auto
  then show ?thesis
    using assms
    by (auto simp: get_batched_prompt_def Let_def elim!: bindR_InrE
        split: if_splits option.splits sum.splits prod.splits)
qed

lemma get_batched_prompt_Inr:
  assumes "get_batched_prompt c n vs rank wv d = Inr (Some (ps, e), d')"
  obtains d0 s wv' bsz stop where
    "c_dispatch_as_rank_in_mesh c \<Longrightarrow> \<exists>r fuel. take_buffered fuel c vs r wv' n [] d0 = Inr s"
    "\<not> c_dispatch_as_rank_in_mesh c \<Longrightarrow> s = ([], d0)"
    "fetch_loop (Suc (batches_left c vs (snd s))) c vs rank wv' n bsz s = Inr (Some (stop, ps, d'))"
    "e = (stop \<and> (get_buffer vs d' = [] \<or> \<not> c_dispatch_as_rank_in_mesh c))"
    "bsz = (if vs = None then df_rollout_batch_size d else df_val_batch_size d)"
    "pending c vs d0 = pending c vs d" "get_buffer vs d0 = get_buffer vs d"
proof -
  define d0 where "d0 = (case wv of None \<Rightarrow> d | Some v \<Rightarrow>
     if dict_has (df_fetched_at_step d) v then d
     else d\<lparr>df_fetched_at_step := dict_set v [] (df_fetched_at_step d)\<rparr>)"
  define wv' where "wv' = (if vs = None then wv else None)"
  have frame: "pending c vs d0 = pending c vs d" "get_buffer vs d0 = get_buffer vs d"
      "df_rollout_batch_size d0 = df_rollout_batch_size d" "df_val_batch_size d0 = df_val_batch_size d"
    by (auto simp: d0_def pending_def get_buffer_def split: option.splits)
  obtain s stop where
      s: "(if \<not> c_dispatch_as_rank_in_mesh c then Inr ([], d0)
           else case rank of None \<Rightarrow> Inl (AssertionError, d0)
             | Some r \<Rightarrow> take_buffered (length (get_buffer vs d0)) c vs r wv' n [] d0) = Inr s"
    and loop: "fetch_loop (Suc (batches_left c vs (snd s))) c vs rank wv' n
        (if vs = None then df_rollout_batch_size d0 else df_val_batch_size d0) s = Inr (Some (stop, ps, d'))"
    and e: "e = (stop \<and> (get_buffer vs d' = [] \<or> \<not> c_dispatch_as_rank_in_mesh c))"
    using assms unfolding get_batched_prompt_def Let_def d0_def [symmetric] wv'_def [symmetric]
    by (auto elim!: bindR_InrE split: if_splits sum.splits option.splits prod.splits)
  show thesis
    using s loop e frame
    by (intro that [of wv' d0 s "if vs = None then df_rollout_batch_size d else df_val_batch_size d" stop])
      (auto split: if_splits option.splits)
qed

text \<open>C36: one call neither loses nor duplicates a prompt. The prompts it returns, the ones
  it leaves in the buffer of prompts fetched for other ranks, and the ones still to come
  from the dataloader over all remaining epochs are together what was buffered and still
  to come before the call; and \<open>is_end\<close> is reported only when nothing is left to come and,
  under dispatch by mesh rank, nothing is left in the buffer.\<close>

theorem get_batched_prompt_conserves:
  assumes "get_batched_prompt c n vs rank wv d = Inr (Some (ps, e), d')"
  shows "mset (map pl_prompt_idx ps) + bidx (get_buffer vs d') + bidx (concat (pending c vs d'))
      = bidx (get_buffer vs d) + bidx (concat (pending c vs d))
    \<and> (e \<longrightarrow> pending c vs d' = [] \<and> (c_dispatch_as_rank_in_mesh c \<longrightarrow> get_buffer vs d' = []))"
proof -
  obtain d0 s wv' bsz stop where
    s1: "c_dispatch_as_rank_in_mesh c \<Longrightarrow> \<exists>r fuel. take_buffered fuel c vs r wv' n [] d0 = Inr s"
    and s2: "\<not> c_dispatch_as_rank_in_mesh c \<Longrightarrow> s = ([], d0)"
    and loop: "fetch_loop (Suc (batches_left c vs (snd s))) c vs rank wv' n bsz s = Inr (Some (stop, ps, d'))"
    and e: "e = (stop \<and> (get_buffer vs d' = [] \<or> \<not> c_dispatch_as_rank_in_mesh c))"
    and d0: "pending c vs d0 = pending c vs d" "get_buffer vs d0 = get_buffer vs d"
    using get_batched_prompt_Inr [OF assms] by metis
  have "account c vs s = account c vs ([], d0)"
    using s1 s2 take_buffered_account by (cases "c_dispatch_as_rank_in_mesh c") blast+
  with fetch_loop_account [OF loop] d0 e show ?thesis
    by (auto simp: account_def)
qed

section \<open>How many prompts one call returns\<close>

lemma place_prompt_length:
  assumes "place_prompt c vs rank wv n x s = Inr s'"
  shows "int (length (fst s')) \<le> int (length (fst s)) + 1
    \<and> (c_dispatch_as_rank_in_mesh c \<longrightarrow> int (length (fst s)) \<le> n \<longrightarrow> int (length (fst s')) \<le> n)"
  using assms
  by (auto simp: place_prompt_def Let_def split: prod.splits if_splits option.splits sum.splits)

lemma place_all_length:
  assumes "forR xs (place_prompt c vs rank wv n) s = Inr s'"
  shows "int (length (fst s')) \<le> int (length (fst s)) + int (length xs)
    \<and> (c_dispatch_as_rank_in_mesh c \<longrightarrow> int (length (fst s)) \<le> n \<longrightarrow> int (length (fst s')) \<le> n)"
  using assms
proof (induction xs arbitrary: s)
  case Nil
  then show ?case by simp
next
  case (Cons x xs)
  then obtain t where t: "place_prompt c vs rank wv n x s = Inr t"
    and rest: "forR xs (place_prompt c vs rank wv n) t = Inr s'"
    by (auto elim: bindR_InrE)
  from Cons.IH [OF rest] place_prompt_length [OF t] show ?case by force
qed

lemma length_add_answers [simp]: "length (add_answers c vs d b) = length b"
  by (simp add: add_answers_def)

lemma fetch_rounds_length:
  assumes "fetch_rounds k c vs rank wv n bsz s = Inr (stop, s')" and "0 \<le> bsz"
  shows "int (length (fst s')) \<le> int (length (fst s)) + int k * bsz
    \<and> (c_dispatch_as_rank_in_mesh c \<longrightarrow> int (length (fst s)) \<le> n \<longrightarrow> int (length (fst s')) \<le> n)"
  using assms
proof (induction k arbitrary: s)
  case 0
  then show ?case by simp
next
  case (Suc k)
  then obtain ob d where nb: "next_batch c vs (snd s) = Inr (ob, d)"
    by (auto elim!: bindR_InrE)
  show ?case
  proof (cases ob)
    case None
    with Suc.prems nb show ?thesis by auto
  next
    case (Some b)
    with Suc.prems nb obtain t where len: "int (length b) \<le> bsz"
      and t: "forR (add_answers c vs d b) (place_prompt c vs rank wv n) (fst s, d) = Inr t"
      and rest: "fetch_rounds k c vs rank wv n bsz t = Inr (stop, s')"
      by (auto split: if_splits elim!: bindR_InrE)
    from place_all_length [OF t] Suc.IH [OF rest Suc.prems(2)] len show ?thesis
      by (auto simp: algebra_simps)
  qed
qed

lemma take_buffered_length:
  assumes "take_buffered fuel c vs r wv n ps d = Inr s'" and "int (length ps) \<le> n"
  shows "int (length (fst s')) \<le> n"
  using assms
proof (induction fuel arbitrary: ps d)
  case 0
  then show ?case
    by (subst (asm) take_buffered.simps) (auto split: if_splits sum.splits option.splits)
next
  case (Suc fuel)
  from Suc.prems show ?case
    by (subst (asm) take_buffered.simps)
      (auto simp: Let_def split: if_splits sum.splits option.splits dest!: Suc.IH)
qed

lemma fetch_loop_mesh_length:
  assumes "fetch_loop fuel c vs rank wv n bsz s = Inr (Some (stop, s'))" and "0 \<le> bsz"
    and "c_dispatch_as_rank_in_mesh c" and "int (length (fst s)) \<le> n"
  shows "int (length (fst s')) \<le> n"
  using assms
proof (induction fuel arbitrary: s)
  case 0
  then show ?case by (subst (asm) fetch_loop.simps) (auto split: if_splits)
next
  case (Suc fuel)
  show ?case
  proof (cases "0 < n - int (length (fst s))")
    case False
    with Suc.prems show ?thesis by (subst (asm) fetch_loop.simps) auto
  next
    case True
    with Suc.prems(1,3) obtain e t where
      r: "fetch_rounds (nat (ceil_div n bsz)) c vs rank wv n bsz s = Inr (e, t)"
      and rest: "(if e then Inr (Some (e, t)) else fetch_loop fuel c vs rank wv n bsz t) = Inr (Some (stop, s'))"
      by (subst (asm) fetch_loop.simps) (auto elim!: bindR_InrE split: if_splits)
    from fetch_rounds_length [OF r Suc.prems(2)] rest Suc.prems Suc.IH [of t] show ?thesis
      by (auto split: if_splits)
  qed
qed

lemma get_batched_prompt_length:
  assumes ok: "get_batched_prompt c n vs rank wv d = Inr (Some (ps, e), d')"
    and n: "0 \<le> n" and bsz: "bsz = (if vs = None then df_rollout_batch_size d else df_val_batch_size d)"
    and pos: "0 < bsz"
  shows "int (length ps) \<le> (if c_dispatch_as_rank_in_mesh c then n else ceil_div n bsz * bsz)"
proof -
  obtain d0 s wv' stop where
    s1: "c_dispatch_as_rank_in_mesh c \<Longrightarrow> \<exists>r fuel. take_buffered fuel c vs r wv' n [] d0 = Inr s"
    and s2: "\<not> c_dispatch_as_rank_in_mesh c \<Longrightarrow> s = ([], d0)"
    and loop: "fetch_loop (Suc (batches_left c vs (snd s))) c vs rank wv' n bsz s = Inr (Some (stop, ps, d'))"
    using get_batched_prompt_Inr [OF ok] bsz by metis
  show ?thesis
  proof (cases "c_dispatch_as_rank_in_mesh c")
    case True
    have "int (length (fst s)) \<le> n"
      using s1 [OF True] take_buffered_length n by fastforce
    with True fetch_loop_mesh_length [OF loop] pos show ?thesis by simp
  next
    case False
    have nonneg: "0 \<le> ceil_div n bsz * bsz"
      using ceil_div_le [OF pos, of n] n by linarith
    have ceil: "0 \<le> ceil_div n bsz" using nonneg pos by (simp add: zero_le_mult_iff)
    show ?thesis
    proof (cases "0 < n")
      case False2: False
      with loop s2 [OF False] nonneg False show ?thesis
        by (subst (asm) fetch_loop.simps) simp
    next
      case True
      with loop s2 [OF False] False obtain st where
        "fetch_rounds (nat (ceil_div n bsz)) c vs rank wv' n bsz ([], d0) = Inr (st, ps, d')"
        by (subst (asm) fetch_loop.simps) (auto elim!: bindR_InrE)
      from fetch_rounds_length [OF this] pos ceil False show ?thesis by simp
    qed
  qed
qed

text \<open>under dispatch by mesh rank one call returns at most the \<open>n\<close> prompts asked for;
  without it, the batches fetched are returned whole, so the answer can exceed \<open>n\<close> but
  never the next multiple of the dataloader's batch size.\<close>

theorem get_batched_prompt_bound:
  assumes "get_batched_prompt c n vs rank wv d = Inr (Some (ps, e), d')" and "0 \<le> n"
    and "bsz = (if vs = None then df_rollout_batch_size d else df_val_batch_size d)" and "0 < bsz"
  shows "int (length ps) \<le> (if c_dispatch_as_rank_in_mesh c then n else ceil_div n bsz * bsz)"
  using assms by (rule get_batched_prompt_length)

end
