(* ===== verification/World.thy ===== *)
theory World
  imports Command_Model Data_Fetcher Payload_Transport
begin

text \<open>
  The state of the controller process: the policy and rollout status managers
  (cosmos_rl/dispatcher/status.py), the configuration, the data fetcher, the bus and the
  transport registry, and the three pure decisions of status.py (weight sync, stop
  broadcast, coalescing). Mutation of a replica through a reference is an update of the
  dictionary entry of that name. Time is an argument. Logging is not modelled; of the
  metric reports only the keys are kept, because only their presence affects control.
\<close>

section \<open>Pure decisions\<close>

definition need_weight_sync :: "int \<Rightarrow> int \<Rightarrow> int \<Rightarrow> bool \<Rightarrow> int option \<Rightarrow> py_error + bool" where
  "need_weight_sync step total_steps interval val_enabled val_freq =
     (if interval = 0 then Inl ZeroDivisionError
      else
        let need = (step mod interval = 0) in
        if val_enabled then
          let need = (case val_freq of
                        None \<Rightarrow> need
                      | Some f \<Rightarrow> if f = 0 then need else need \<or> step mod f = 0)
          in Inr (need \<or> step = total_steps)
        else if step = total_steps then Inr False
        else Inr need)"

definition should_broadcast_stop :: "nat \<Rightarrow> bool \<Rightarrow> bool \<Rightarrow> bool \<Rightarrow> bool \<Rightarrow> bool \<Rightarrow> bool \<Rightarrow> bool" where
  "should_broadcast_stop n_policy had_policy stop_sent val_enabled terminal finished ended_all \<longleftrightarrow>
     (let barrier = (terminal \<and> ended_all);
          fallback = (n_policy = 0 \<and> had_policy \<and> (finished \<or> ended_all))
      in \<not> stop_sent \<and> \<not> val_enabled \<and> (barrier \<or> fallback))"

definition should_coalesce_skip :: "bool \<Rightarrow> bool \<Rightarrow> int \<Rightarrow> int \<Rightarrow> bool" where
  "should_coalesce_skip coalesce_enabled forced last_staged max_adopted \<longleftrightarrow>
     (if \<not> coalesce_enabled \<or> forced then False else max_adopted < last_staged)"

section \<open>State of the managers\<close>

datatype policy_status = UNINITIALIZED | READY | RUNNING | REDUCED | PS_END | VALIDATED

datatype job_phase = PHASE_RUNNING | DRAINING

datatype scaling_event = REPLICA_SCALING_UP | REPLICA_SCALING_DOWN

record scaling_log_entry =
  sl_event :: scaling_event
  sl_replica_name :: string
  sl_timestamp :: int

definition scaling_up :: "rat \<Rightarrow> replica \<Rightarrow> scaling_log_entry" where
  "scaling_up now r = \<lparr>sl_event = REPLICA_SCALING_UP, sl_replica_name = rp_name r, sl_timestamp = \<lfloor>now\<rfloor>\<rparr>"

definition scaling_down :: "rat \<Rightarrow> replica \<Rightarrow> scaling_log_entry" where
  "scaling_down now r = \<lparr>sl_event = REPLICA_SCALING_DOWN, sl_replica_name = rp_name r, sl_timestamp = \<lfloor>now\<rfloor>\<rparr>"

record policy_manager =
  policy_replicas :: "(string, replica) dict"
  policy_init_done :: bool
  p_scaling_log :: "scaling_log_entry list"
  remain_samples_num :: int
  samples_per_epoch :: int
  current_step :: int
  total_steps :: int
  status :: "(string, policy_status) dict"
  rollout_buffer :: "rollout list"
  rollout_buffer_per_rank :: "rollout list list"
  samples_on_the_fly :: int
  applied_discard_report_ids :: "(string, string set) dict"
  dispatched_rollouts_by_step :: "(int, int) dict"
  train_report_keys :: "(int, string set) dict"
  report_data_list :: "pydict list"
  nccl_cleanup_enabled :: bool
  val_report_data :: "(int, rollout list list) dict"
  on_policy_rollout_completed :: bool
  filter_records :: "(string, int) dict"
  job_phase :: job_phase
  draining_total_steps :: "int option"
  last_real_acked_step :: "int option"
  last_real_acked_total_steps :: "int option"
  completion_step :: "int option"
  completion_recipients :: "string set"
  completion_acks :: "string set"
  terminal_complete :: bool
  weight_last_staged_step :: int
  weight_max_adopted_version :: int
  weight_coalesced_skips :: int
  weight_accepted_staleness :: "int list"
  first_policy_replica_arrived :: bool
  policy_atoms_in_replica :: "int option"

record rollout_manager =
  rollout_replicas :: "(string, replica) dict"
  rollout_init_done :: bool
  r_scaling_log :: "scaling_log_entry list"
  ended_reporters :: "(string, int set) dict"
  command_participant_ended :: "string set"
  rollout_atoms_in_replica :: "int option"

record tokenizer =
  tk_eos :: "string option"
  tk_encode_length :: "pyval \<Rightarrow> nat"

record world =
  w_cfg :: config
  w_pm :: policy_manager
  w_rm :: rollout_manager
  w_df :: data_fetcher
  w_bus :: bus
  w_reg :: registry
  w_tok :: "tokenizer option"

text \<open>\<open>PolicyStatusManager.__init__\<close> followed by the assignments of \<open>setup\<close>.\<close>

definition init_policy_manager :: "int \<Rightarrow> int \<Rightarrow> int \<Rightarrow> policy_manager" where
  "init_policy_manager remain per_epoch step = \<lparr>
     policy_replicas = [], policy_init_done = False, p_scaling_log = [],
     remain_samples_num = remain, samples_per_epoch = per_epoch, current_step = step,
     total_steps = 0, status = [], rollout_buffer = [], rollout_buffer_per_rank = [],
     samples_on_the_fly = 0, applied_discard_report_ids = [], dispatched_rollouts_by_step = [],
     train_report_keys = [], report_data_list = [], nccl_cleanup_enabled = False,
     val_report_data = [], on_policy_rollout_completed = False, filter_records = [],
     job_phase = PHASE_RUNNING, draining_total_steps = None, last_real_acked_step = None,
     last_real_acked_total_steps = None, completion_step = None, completion_recipients = {},
     completion_acks = {}, terminal_complete = False, weight_last_staged_step = -1,
     weight_max_adopted_version = -1, weight_coalesced_skips = 0, weight_accepted_staleness = [],
     first_policy_replica_arrived = False, policy_atoms_in_replica = None\<rparr>"

definition init_rollout_manager :: rollout_manager where
  "init_rollout_manager = \<lparr>rollout_replicas = [], rollout_init_done = False, r_scaling_log = [],
     ended_reporters = [], command_participant_ended = {}, rollout_atoms_in_replica = None\<rparr>"

text \<open>Lifting operations of one part to the whole state.\<close>

definition liftP :: "(policy_manager \<Rightarrow> policy_manager outcome) \<Rightarrow> world \<Rightarrow> world outcome" where
  "liftP f w = (case f (w_pm w) of
     Inl (e, p) \<Rightarrow> Inl (e, w\<lparr>w_pm := p\<rparr>) | Inr p \<Rightarrow> Inr (w\<lparr>w_pm := p\<rparr>))"

definition liftD :: "(data_fetcher \<Rightarrow> data_fetcher outcome) \<Rightarrow> world \<Rightarrow> world outcome" where
  "liftD f w = (case f (w_df w) of
     Inl (e, d) \<Rightarrow> Inl (e, w\<lparr>w_df := d\<rparr>) | Inr d \<Rightarrow> Inr (w\<lparr>w_df := d\<rparr>))"

definition liftB :: "(bus \<Rightarrow> bus outcome) \<Rightarrow> world \<Rightarrow> world outcome" where
  "liftB f w = (case f (w_bus w) of
     Inl (e, b) \<Rightarrow> Inl (e, w\<lparr>w_bus := b\<rparr>) | Inr b \<Rightarrow> Inr (w\<lparr>w_bus := b\<rparr>))"

definition py_nonzero :: "int \<Rightarrow> 's \<Rightarrow> 's outcome" where
  "py_nonzero d s = (if d = 0 then Inl (ZeroDivisionError, s) else Inr s)"

lemma py_nonzero_Inr [simp]: "py_nonzero d s = Inr s' \<longleftrightarrow> d \<noteq> 0 \<and> s' = s"
  by (auto simp: py_nonzero_def)

lemma keeps_nonzero [keeps_intro]: "I s \<Longrightarrow> keeps I (py_nonzero d s)"
  by (simp add: py_nonzero_def)

text \<open>Storing back replicas that a trigger mutated.\<close>

definition store_replicas :: "replica list \<Rightarrow> (string, replica) dict \<Rightarrow> (string, replica) dict" where
  "store_replicas rs d = fold (\<lambda>r. dict_upd (rp_name r) (\<lambda>_. r)) rs d"

definition arrived_values :: "(string, replica) dict \<Rightarrow> replica list" where
  "arrived_values d = filter arrived (dict_values d)"

definition by_start_time :: "replica list \<Rightarrow> replica list" where
  "by_start_time rs = sort_key start_time rs"

text \<open>Every replica is stored under its own name.\<close>

definition wf_replicas :: "(string, replica) dict \<Rightarrow> bool" where
  "wf_replicas d \<longleftrightarrow> wf_dict d \<and> (\<forall>(k, r) \<in> set d. rp_name r = k)"

lemma store_replicas_keys [simp]: "dict_keys (store_replicas rs d) = dict_keys d"
  unfolding store_replicas_def by (induction rs arbitrary: d) auto

lemma dict_get_store:
  assumes "distinct (map rp_name rs)"
  shows "dict_get (store_replicas rs d) k =
    (case dict_get d k of None \<Rightarrow> None
     | Some r \<Rightarrow> Some (case List.find (\<lambda>r. rp_name r = k) rs of None \<Rightarrow> r | Some r' \<Rightarrow> r'))"
  using assms unfolding store_replicas_def
proof (induction rs arbitrary: d)
  case Nil
  then show ?case by (simp split: option.splits)
next
  case (Cons r rs)
  have "rp_name r = k \<Longrightarrow> List.find (\<lambda>r. rp_name r = k) rs = None"
    using Cons.prems by (auto simp: find_None_iff) (metis imageI)
  then show ?case
    using Cons.IH [of "dict_upd (rp_name r) (\<lambda>_. r) d"] Cons.prems
    by (cases "rp_name r = k"; cases "dict_get d k") simp_all
qed

text \<open>The objects that a list of names refers to, in their present state.\<close>

definition pick :: "string list \<Rightarrow> (string, replica) dict \<Rightarrow> replica list" where
  "pick nms d = List.map_filter (dict_get d) nms"

lemma pick_Cons [simp]:
  "pick [] d = []"
  "pick (n # ns) d = (case dict_get d n of None \<Rightarrow> pick ns d | Some r \<Rightarrow> r # pick ns d)"
  by (simp_all add: pick_def List.map_filter_simps split: option.splits)

lemma wf_replicas_get: "wf_replicas d \<Longrightarrow> dict_get d k = Some r \<Longrightarrow> rp_name r = k"
  by (auto simp: wf_replicas_def dict_get_def dest!: map_of_SomeD)

lemma pick_names:
  assumes "wf_replicas d" and "set ns \<subseteq> set (dict_keys d)"
  shows "map rp_name (pick ns d) = ns"
  using assms(2)
proof (induction ns)
  case Nil
  then show ?case by simp
next
  case (Cons n ns)
  then obtain r where "dict_get d n = Some r"
    using dict_has_iff [of d n] by auto
  then show ?case
    using Cons wf_replicas_get [OF assms(1)] by auto
qed

section \<open>Well-formed tables of replicas\<close>

text \<open>
  What the mutations of a replica other than the arrival of an atom and the end mark
  leave alone, and a table in which every replica is well formed and stored under its
  own name. Mutations that keep the core of every replica keep the table well formed.
\<close>

definition core :: "replica \<Rightarrow> string \<times> string \<times> (string, atom) dict \<times> bool" where
  "core r = (rp_name r, rp_role r, rp_atoms r, ended (rp_status r))"

definition reps_ok :: "string \<Rightarrow> (string, replica) dict \<Rightarrow> bool" where
  "reps_ok rl d \<longleftrightarrow> wf_dict d
     \<and> list_all (\<lambda>(k, r). rp_name r = k \<and> rp_role r = rl \<and> wf_replica r) d"

definition same_cores :: "(string, replica) dict \<Rightarrow> (string, replica) dict \<Rightarrow> bool" where
  "same_cores d d' \<longleftrightarrow> map (\<lambda>(k, r). (k, core r)) d' = map (\<lambda>(k, r). (k, core r)) d"

lemma same_cores_refl [simp]: "same_cores d d"
  by (simp add: same_cores_def)

lemma same_cores_trans: "same_cores d d' \<Longrightarrow> same_cores d' d'' \<Longrightarrow> same_cores d d''"
  by (simp add: same_cores_def)

lemma same_cores_keys: "same_cores d d' \<Longrightarrow> dict_keys d' = dict_keys d"
proof -
  assume "same_cores d d'"
  then have "map fst (map (\<lambda>(k, r). (k, core r)) d') = map fst (map (\<lambda>(k, r). (k, core r)) d)"
    by (simp only: same_cores_def)
  then show ?thesis by (simp add: dict_keys_def comp_def case_prod_beta)
qed

lemma same_cores_get:
  assumes "same_cores d d'"
  shows "map_option core (dict_get d' k) = map_option core (dict_get d k)"
proof -
  have get: "map_option core (dict_get e k) = map_of (map (\<lambda>(k, r). (k, core r)) e) k" for e
    by (induction e) auto
  show ?thesis
    using assms by (simp add: get same_cores_def)
qed

lemma same_cores_upd: "(\<And>r. core (f r) = core r) \<Longrightarrow> same_cores d (dict_upd k f d)"
  by (simp add: same_cores_def dict_upd_def comp_def case_prod_beta)

lemma same_cores_upd_to:
  assumes "wf_dict d" and "dict_get d k = Some r" and "core r' = core r"
  shows "same_cores d (dict_upd k (\<lambda>_. r') d)"
proof -
  have "\<forall>p \<in> set d. fst p = k \<longrightarrow> snd p = r"
    using assms(1,2) by (auto simp: wf_dict_def dict_get_def
        dest!: map_of_SomeD dest: eq_key_imp_eq_value)
  then show ?thesis
    using assms(3) by (auto simp: same_cores_def dict_upd_def)
qed

lemma same_cores_store:
  assumes "wf_dict d" and "\<forall>r' \<in> set rs. \<exists>r. dict_get d (rp_name r') = Some r \<and> core r' = core r"
  shows "same_cores d (store_replicas rs d)"
  using assms
proof (induction rs arbitrary: d)
  case Nil
  then show ?case by (simp add: store_replicas_def)
next
  case (Cons x rs)
  let ?d = "dict_upd (rp_name x) (\<lambda>_. x) d"
  obtain r where "dict_get d (rp_name x) = Some r" and "core x = core r"
    using Cons.prems(2) by auto
  then have step: "same_cores d ?d"
    using same_cores_upd_to Cons.prems(1) by blast
  have "\<exists>r. dict_get ?d (rp_name r') = Some r \<and> core r' = core r" if mem: "r' \<in> set rs" for r'
  proof -
    obtain r0 where "dict_get d (rp_name r') = Some r0" and "core r' = core r0"
      using bspec [OF Cons.prems(2), of r'] mem by auto
    then show ?thesis
      using same_cores_get [OF step, of "rp_name r'"] by (cases "dict_get ?d (rp_name r')") auto
  qed
  then have "same_cores ?d (store_replicas rs ?d)"
    using Cons.prems(1) by (intro Cons.IH) auto
  then show ?case
    using same_cores_trans [OF step] by (simp add: store_replicas_def)
qed

lemma core_fields:
  assumes "core r' = core r"
  shows "rp_name r' = rp_name r" "rp_role r' = rp_role r" "rp_atoms r' = rp_atoms r"
    "ended (rp_status r') = ended (rp_status r)"
    "wf_replica r' = wf_replica r" "arrived r' = arrived r"
  using assms by (simp_all add: core_def wf_replica_def arrived_def all_atoms_arrived_def
      split: list.split)

lemma core_mutations [simp]:
  "core (set_loaded r) = core r" "core (set_mesh_rank i r) = core r"
  by (simp_all add: core_def set_loaded_def set_mesh_rank_def)

lemma reps_ok_same_cores:
  assumes "same_cores d d'"
  shows "reps_ok rl d' = reps_ok rl d"
proof -
  let ?ok = "\<lambda>(k, nm, role, atoms, e). nm = k \<and> role = rl
    \<and> wf_replica \<lparr>rp_name = nm, rp_role = role, rp_atoms = atoms,
        weights_loaded_in_view_of_command = False, start_time = 0,
        rp_status = undefined, sub_profiler_cfg = undefined\<rparr>"
  have list: "list_all (\<lambda>(k, r). rp_name r = k \<and> rp_role r = rl \<and> wf_replica r) e
      = list_all ?ok (map (\<lambda>(k, r). (k, core r)) e)" for e
    by (auto simp: list_all_iff core_def wf_replica_def)
  show ?thesis
    using assms same_cores_keys [OF assms] unfolding reps_ok_def list wf_dict_keys
    by (simp add: same_cores_def)
qed

lemma reps_ok_get:
  "reps_ok rl d \<Longrightarrow> dict_get d k = Some r \<Longrightarrow> rp_name r = k \<and> rp_role r = rl \<and> wf_replica r"
  by (auto simp: reps_ok_def list_all_iff dict_get_def dest!: map_of_SomeD)

lemma reps_ok_wf: "reps_ok rl d \<Longrightarrow> wf_replicas d"
  by (auto simp: reps_ok_def wf_replicas_def list_all_iff)

lemma reps_ok_wf_dict: "reps_ok rl d \<Longrightarrow> wf_dict d"
  by (simp add: reps_ok_def)

lemma reps_ok_empty [simp]: "reps_ok rl []"
  by (simp add: reps_ok_def)

lemma reps_ok_pop: "reps_ok rl d \<Longrightarrow> reps_ok rl (dict_pop k d)"
  using wf_dict_pop [of d k] by (auto simp: reps_ok_def list_all_iff dict_pop_def)

lemma set_dict_set: "set (dict_set k v d) \<subseteq> insert (k, v) (set d)"
  by (induction d) auto

lemma reps_ok_set:
  "reps_ok rl d \<Longrightarrow> rp_name r = k \<Longrightarrow> rp_role r = rl \<Longrightarrow> wf_replica r \<Longrightarrow> reps_ok rl (dict_set k r d)"
  using set_dict_set [of k r d] by (auto simp: reps_ok_def list_all_iff)

lemma reps_ok_upd:
  assumes "reps_ok rl d"
    and "\<And>r. dict_get d k = Some r \<Longrightarrow> rp_name (f r) = k \<and> rp_role (f r) = rl \<and> wf_replica (f r)"
  shows "reps_ok rl (dict_upd k f d)"
proof -
  have "rp_name (f r) = k \<and> rp_role (f r) = rl \<and> wf_replica (f r)" if "(k, r) \<in> set d" for r
    using that assms(2) [of r] assms(1) by (auto simp: reps_ok_def wf_dict_def dict_get_def)
  then show ?thesis
    using assms(1) by (auto simp: reps_ok_def list_all_iff dict_upd_def wf_dict_def comp_def)
qed

lemma reps_ok_name_value: "reps_ok rl d \<Longrightarrow> r \<in> set (dict_values d) \<Longrightarrow> dict_get d (rp_name r) = Some r"
  by (auto simp: reps_ok_def dict_values_def list_all_iff wf_dict_def dict_get_def)

lemma reps_ok_names: "reps_ok rl d \<Longrightarrow> map rp_name (dict_values d) = dict_keys d"
  by (auto simp: reps_ok_def dict_values_def dict_keys_def list_all_iff)

lemma reps_ok_pick:
  assumes "reps_ok rl d" and "set rs \<subseteq> set (dict_values d)"
  shows "pick (map rp_name rs) d = rs"
  using assms(2)
proof (induction rs)
  case Nil
  then show ?case by simp
next
  case (Cons r rs)
  then show ?case
    using reps_ok_name_value [OF assms(1), of r] by simp
qed

lemma reps_ok_distinct: "reps_ok rl d \<Longrightarrow> distinct (map rp_name (dict_values d))"
  by (simp add: reps_ok_names reps_ok_wf_dict flip: wf_dict_keys)

lemma distinct_map_filter_names: "distinct (map f xs) \<Longrightarrow> distinct (map f (filter P xs))"
  by (induction xs) auto

lemma by_start_time_simps [simp]:
  "set (by_start_time rs) = set rs" "length (by_start_time rs) = length rs"
  "by_start_time rs = [] \<longleftrightarrow> rs = []"
  "mset (by_start_time rs) = mset rs"
proof -
  show len: "length (by_start_time rs) = length rs" for rs
    by (simp add: by_start_time_def)
  show "by_start_time rs = [] \<longleftrightarrow> rs = []"
    using len [of rs] by (cases rs; cases "by_start_time rs") auto
qed (simp_all add: by_start_time_def)

lemma distinct_by_start_time:
  "distinct (map rp_name (by_start_time rs)) \<longleftrightarrow> distinct (map rp_name rs)"
proof -
  have "mset (map rp_name (by_start_time rs)) = mset (map rp_name rs)" by simp
  then show ?thesis by (rule mset_eq_imp_distinct_iff)
qed

lemma count_list_distinct: "distinct xs \<Longrightarrow> count_list xs x = (if x \<in> set xs then 1 else 0)"
  by (induction xs) auto

text \<open>The table after a mesh was built from some of its replicas.\<close>

definition ranked :: "replica list \<Rightarrow> replica list" where
  "ranked rs = map (\<lambda>(i, r). set_mesh_rank (int i) r) (zip [0..<length rs] rs)"

lemma ranked_nth: "i < length rs \<Longrightarrow> ranked rs ! i = set_mesh_rank (int i) (rs ! i)"
  by (simp add: ranked_def)

lemma length_ranked [simp]: "length (ranked rs) = length rs"
  by (simp add: ranked_def)

lemma ranked_names [simp]: "map rp_name (ranked rs) = map rp_name rs"
  by (intro nth_equalityI) (simp_all add: ranked_nth set_mesh_rank_def)

lemma build_mesh_ranked:
  "trigger_build_mesh rs b = (if list_all arrived rs
     then Inr (ranked rs, publish_to (BuildMesh (replicas_to_rank rs)) (map rp_name rs) b)
     else Inl AssertionError)"
  by (simp add: trigger_build_mesh_def ranked_def)

lemma ranked_table:
  assumes "distinct (map rp_name rs)" and "i < length rs"
    and "dict_has d (rp_name (rs ! i))"
  shows "dict_get (store_replicas (ranked rs) d) (rp_name (rs ! i)) = Some (set_mesh_rank (int i) (rs ! i))"
proof -
  have names: "rp_name (ranked rs ! j) = rp_name (rs ! j)" if "j < length rs" for j
    using that by (simp add: ranked_nth set_mesh_rank_def)
  have "List.find (\<lambda>r. rp_name r = rp_name (rs ! i)) (ranked rs) = Some (ranked rs ! i)"
    unfolding find_Some_iff
  proof (intro exI [of _ i] conjI allI impI)
    fix j assume j: "j < i"
    then have "map rp_name rs ! j \<noteq> map rp_name rs ! i"
      using assms(1,2) by (subst nth_eq_iff_index_eq) auto
    then show "rp_name (ranked rs ! j) \<noteq> rp_name (rs ! i)"
      using names [of j] j assms(2) by simp
  qed (use assms(2) names in simp_all)
  moreover have "distinct (map rp_name (ranked rs))"
    using assms(1) by simp
  ultimately show ?thesis
    using assms(2,3) by (auto simp: dict_get_store ranked_nth)
qed

lemma ranked_table_other:
  assumes "distinct (map rp_name rs)" and "k \<notin> rp_name ` set rs"
  shows "dict_get (store_replicas (ranked rs) d) k = dict_get d k"
proof -
  have "rp_name ` set (ranked rs) = rp_name ` set rs"
    by (metis ranked_names list.set_map)
  then have "List.find (\<lambda>r. rp_name r = k) (ranked rs) = None"
    using assms(2) by (auto simp: find_None_iff)
  then show ?thesis
    using assms(1) by (simp add: dict_get_store split: option.splits)
qed

lemma ranked_same_cores:
  assumes "reps_ok rl d" and "set rs \<subseteq> set (dict_values d)"
  shows "same_cores d (store_replicas (ranked rs) d)"
proof (rule same_cores_store)
  show "wf_dict d" using assms(1) by (rule reps_ok_wf_dict)
  show "\<forall>r' \<in> set (ranked rs). \<exists>r. dict_get d (rp_name r') = Some r \<and> core r' = core r"
  proof
    fix r' assume "r' \<in> set (ranked rs)"
    then obtain i where i: "i < length rs" and r': "r' = set_mesh_rank (int i) (rs ! i)"
      by (auto simp: in_set_conv_nth ranked_nth)
    have "dict_get d (rp_name (rs ! i)) = Some (rs ! i)"
      using assms i by (intro reps_ok_name_value [OF assms(1)]) auto
    then show "\<exists>r. dict_get d (rp_name r') = Some r \<and> core r' = core r"
      by (simp add: r' set_mesh_rank_def core_def)
  qed
qed

section \<open>Reads of the policy manager that other components use\<close>

definition training_horizon :: "policy_manager \<Rightarrow> int" where
  "training_horizon p = (case draining_total_steps p of Some n \<Rightarrow> n | None \<Rightarrow> total_steps p)"

definition training_finished :: "policy_manager \<Rightarrow> bool" where
  "training_finished p \<longleftrightarrow> terminal_complete p
     \<or> (training_horizon p \<le> current_step p \<and> 0 < training_horizon p)"

definition rollout_admission_closed :: "policy_manager \<Rightarrow> bool" where
  "rollout_admission_closed p \<longleftrightarrow> terminal_complete p \<or> completion_step p \<noteq> None"

definition pm_iter :: "policy_manager \<Rightarrow> replica list" where
  "pm_iter p = sort_key rp_name (dict_values (policy_replicas p))"

section \<open>Weight transfers to rollout replicas\<close>

text \<open>
  A policy-to-rollout unicast as the managers issue it: the sizes are attributes set when
  the first replica of a role is complete, and reading one before raises. The
  destination is a rollout replica. A rollout-to-rollout broadcast, likewise.
\<close>

definition send_p2r ::
  "replica \<Rightarrow> replica \<Rightarrow> int option \<Rightarrow> int option \<Rightarrow> world \<Rightarrow> world outcome" where
  "send_p2r src dst ws ts w =
     (case (policy_atoms_in_replica (w_pm w), rollout_atoms_in_replica (w_rm w)) of
        (Some ps, Some rs) \<Rightarrow>
          (let (dst', b) = trigger_p2r src dst ps rs ws ts (w_bus w)
           in Inr (w\<lparr>w_bus := b, w_rm := (w_rm w)\<lparr>rollout_replicas :=
                store_replicas [dst'] (rollout_replicas (w_rm w))\<rparr>\<rparr>))
      | _ \<Rightarrow> Inl (AttributeError, w))"

definition send_r2r ::
  "replica \<Rightarrow> replica list \<Rightarrow> int option \<Rightarrow> int option \<Rightarrow> world \<Rightarrow> world" where
  "send_r2r src dsts ws ts w =
     (let (dsts', b) = trigger_r2r src dsts ws ts (w_bus w)
      in w\<lparr>w_bus := b, w_rm := (w_rm w)\<lparr>rollout_replicas :=
           store_replicas dsts' (rollout_replicas (w_rm w))\<rparr>\<rparr>)"

section \<open>Shape of the decisions\<close>

lemma need_weight_sync_final:
  "interval \<noteq> 0 \<Longrightarrow> need_weight_sync ts ts interval val_enabled f = Inr val_enabled"
  by (simp add: need_weight_sync_def Let_def)

lemma coalesce_skip_iff:
  "should_coalesce_skip en forced lst adopted \<longleftrightarrow> en \<and> \<not> forced \<and> adopted < lst"
  by (simp add: should_coalesce_skip_def)

lemma broadcast_stop_once: "\<not> should_broadcast_stop n h True v t f e"
  by (simp add: should_broadcast_stop_def Let_def)

end
