(* ===== verification/Rollout_Status.thy ===== *)
theory Rollout_Status
  imports World
begin

text \<open>
  \<open>RolloutStatusManager\<close> of cosmos_rl/dispatcher/status.py: registration and mesh
  rebuilds of rollout replicas, the end-of-rollout barrier (whole-replica or per
  reporting rank), and the set of replicas a weight sync may be sent to. Operations that
  publish commands or set the fetcher's mesh size act on the whole \<open>world\<close>; the others
  on the manager's record. Lemmas: the barrier fires exactly once, when the reports
  cover the expected ranks in whatever order; a weight sync never addresses a worker
  that left its command loop; a departure re-ranks exactly the safe survivors.
\<close>

section \<open>Container protocol, heartbeats\<close>

definition rm_n_atoms_per_replica :: "rollout_manager \<Rightarrow> py_error + int" where
  "rm_n_atoms_per_replica m = (case rollout_replicas m of
     [] \<Rightarrow> Inr 0 | p # _ \<Rightarrow> n_atoms_per_replica (snd p))"

definition rm_iter :: "rollout_manager \<Rightarrow> replica list" where
  "rm_iter m = sort_key rp_name (dict_values (rollout_replicas m))"

definition rm_contains :: "string \<Rightarrow> rollout_manager \<Rightarrow> bool" where
  "rm_contains nm m \<longleftrightarrow> dict_has (rollout_replicas m) nm"

definition set_heartbeat :: "int \<Rightarrow> replica \<Rightarrow> replica" where
  "set_heartbeat ts r = r\<lparr>rp_status := (rp_status r)\<lparr>heartbeat_timestamp := of_int ts\<rparr>\<rparr>"

definition rm_heartbeat :: "rat \<Rightarrow> string \<Rightarrow> rollout_manager \<Rightarrow> rollout_manager" where
  "rm_heartbeat now nm m =
     (if rm_contains nm m
      then m\<lparr>rollout_replicas := dict_upd nm (set_heartbeat \<lfloor>now\<rfloor>) (rollout_replicas m)\<rparr>
      else m)"

definition rm_arrived :: "rollout_manager \<Rightarrow> replica list" where
  "rm_arrived m = arrived_values (rollout_replicas m)"

text \<open>Replicas whose last heartbeat is older than the timeout.\<close>

definition dead_names :: "int \<Rightarrow> rat \<Rightarrow> replica list \<Rightarrow> string list" where
  "dead_names timeout now rs =
     map rp_name (filter (\<lambda>r. now - heartbeat_timestamp (rp_status r) > of_int timeout) rs)"

section \<open>Mesh rebuilds\<close>

definition rm_trigger_rebuild_mesh :: "string list \<Rightarrow> world \<Rightarrow> world outcome" where
  "rm_trigger_rebuild_mesh valid w =
     (let rs = by_start_time (pick valid (rollout_replicas (w_rm w))) in
      case trigger_build_mesh rs (w_bus w) of
        Inl e \<Rightarrow> Inl (e, w)
      | Inr (rs', b) \<Rightarrow> Inr (w\<lparr>w_bus := b,
          w_rm := (w_rm w)\<lparr>rollout_replicas := store_replicas rs' (rollout_replicas (w_rm w))\<rparr>,
          w_df := set_rollout_global_mesh_size (int (length rs)) (w_df w)\<rparr>))"

section \<open>Departure\<close>

text \<open>A survivor may be a mesh member unless it ended as a legacy worker.\<close>

definition safe_survivor :: "rollout_manager \<Rightarrow> replica \<Rightarrow> bool" where
  "safe_survivor m r \<longleftrightarrow> \<not> ended (rp_status r) \<or> rp_name r \<in> command_participant_ended m"

definition rm_remove :: "rat \<Rightarrow> string \<Rightarrow> replica \<Rightarrow> rollout_manager \<Rightarrow> rollout_manager" where
  "rm_remove now nm r m = m\<lparr>
     rollout_replicas := dict_pop nm (rollout_replicas m),
     ended_reporters := dict_pop nm (ended_reporters m),
     command_participant_ended := command_participant_ended m - {nm},
     r_scaling_log := r_scaling_log m @ [scaling_down now r]\<rparr>"

definition rm_unregister :: "rat \<Rightarrow> string \<Rightarrow> world \<Rightarrow> world outcome" where
  "rm_unregister now nm w =
     (case dict_get (rollout_replicas (w_rm w)) nm of
        None \<Rightarrow> Inl (AssertionError, w)
      | Some r \<Rightarrow>
          let w = w\<lparr>w_rm := rm_remove now nm r (w_rm w)\<rparr> in
          if training_finished (w_pm w) then Inr w
          else
            let survivors = filter (safe_survivor (w_rm w)) (rm_arrived (w_rm w)) in
            if in_mesh r \<and> survivors \<noteq> []
            then rm_trigger_rebuild_mesh (map rp_name survivors) w
            else Inr w)"

text \<open>
  The dead replicas are collected in a Python set; \<open>enum\<close> is the order in which that set
  is iterated.
\<close>

definition rm_maintain_life_status ::
  "(string list \<Rightarrow> string list) \<Rightarrow> int \<Rightarrow> rat \<Rightarrow> world \<Rightarrow> world outcome" where
  "rm_maintain_life_status enum timeout now w =
     forR (enum (dead_names timeout now (rm_iter (w_rm w)))) (rm_unregister now) w"

section \<open>Registration\<close>

definition first_loaded :: "replica list \<Rightarrow> replica option" where
  "first_loaded rs = List.find weights_loaded_in_view_of_command rs"

text \<open>The unicast that gives the first rollout replica its weights.\<close>

definition rm_first_weights :: "string list \<Rightarrow> string \<Rightarrow> world \<Rightarrow> world outcome" where
  "rm_first_weights valid target w =
     (case (first_loaded (by_start_time (pm_iter (w_pm w))),
            dict_get (rollout_replicas (w_rm w)) target) of
        (Some src, Some dst) \<Rightarrow>
          if list_all (\<lambda>r. \<not> weights_loaded_in_view_of_command r)
               (pick valid (rollout_replicas (w_rm w)))
          then send_p2r src dst None None w else Inr w
      | _ \<Rightarrow> Inr w)"

text \<open>The broadcast after the initial set of rollout replicas is complete.\<close>

definition rm_first_broadcast :: "string list \<Rightarrow> world \<Rightarrow> world" where
  "rm_first_broadcast valid w =
     (let rs = pick valid (rollout_replicas (w_rm w)) in
      case first_loaded (by_start_time rs) of
        None \<Rightarrow> w
      | Some src \<Rightarrow> send_r2r src rs (Some (current_step (w_pm w))) None w)"

definition rm_post_register_hook :: "string list \<Rightarrow> string \<Rightarrow> world \<Rightarrow> world outcome" where
  "rm_post_register_hook valid target w =
     bindR (py_assert (target \<in> set valid) w) (\<lambda>w.
     bindR (rm_first_weights valid target w) (\<lambda>w.
     if \<not> rollout_init_done (w_rm w) \<and> int (length valid) = c_rollout_n_init (w_cfg w)
     then bindR (rm_trigger_rebuild_mesh valid (w\<lparr>w_rm := (w_rm w)\<lparr>rollout_init_done := True\<rparr>\<rparr>)) (\<lambda>w.
          Inr (rm_first_broadcast valid w))
     else if \<not> rollout_init_done (w_rm w)
     then py_assert (int (length valid) < c_rollout_n_init (w_cfg w)) w
     else rm_trigger_rebuild_mesh valid w))"

text \<open>The atom joins its replica, which is created on first sight.\<close>

definition arrive_in :: "string \<Rightarrow> atom \<Rightarrow> rat \<Rightarrow> (string, replica) dict \<Rightarrow> (string, replica) dict outcome" where
  "arrive_in rl a now d =
     (case dict_get d (at_replica_name a) of
        None \<Rightarrow> Inr (dict_set (at_replica_name a) (new_replica (at_replica_name a) rl [a] now) d)
      | Some r \<Rightarrow>
          (case arrive a r of
             Inl (e, r') \<Rightarrow> Inl (e, dict_upd (at_replica_name a) (\<lambda>_. r') d)
           | Inr r' \<Rightarrow> Inr (dict_upd (at_replica_name a) (\<lambda>_. r') d)))"

definition set_start_time :: "rat \<Rightarrow> replica \<Rightarrow> replica" where
  "set_start_time now r = (if start_time r = -1 then r\<lparr>start_time := \<lfloor>now\<rfloor>\<rparr> else r)"

definition rm_store :: "(string, replica) dict \<Rightarrow> world \<Rightarrow> world" where
  "rm_store d w = w\<lparr>w_rm := (w_rm w)\<lparr>rollout_replicas := d\<rparr>\<rparr>"

definition rm_raise_n_init :: "world \<Rightarrow> world" where
  "rm_raise_n_init w =
     (if \<not> rollout_init_done (w_rm w)
         \<and> c_rollout_n_init (w_cfg w) < int (length (rollout_replicas (w_rm w)))
      then w\<lparr>w_cfg := (w_cfg w)\<lparr>c_rollout_n_init := int (length (rollout_replicas (w_rm w)))\<rparr>\<rparr>
      else w)"

definition rm_complete :: "rat \<Rightarrow> atom \<Rightarrow> world \<Rightarrow> world" where
  "rm_complete now a w =
     (let m = (w_rm w)\<lparr>rollout_replicas :=
            dict_upd (at_replica_name a) (set_start_time now) (rollout_replicas (w_rm w))\<rparr>;
          m = (if rollout_atoms_in_replica m = None
               then m\<lparr>rollout_atoms_in_replica := Some (prod_list (at_group_size a))\<rparr> else m)
      in w\<lparr>w_rm := m\<rparr>)"

definition rm_register :: "atom \<Rightarrow> rat \<Rightarrow> world \<Rightarrow> world outcome" where
  "rm_register a now w =
     (case arrive_in ROLLOUT a now (rollout_replicas (w_rm w)) of
        Inl (e, d) \<Rightarrow> Inl (e, rm_store d w)
      | Inr d \<Rightarrow>
          let w = rm_raise_n_init (rm_store d w) in
          case dict_get (rollout_replicas (w_rm w)) (at_replica_name a) of
            None \<Rightarrow> Inr w
          | Some r \<Rightarrow>
              if arrived r then
                let w = rm_complete now a w
                in rm_post_register_hook (map rp_name (rm_arrived (w_rm w))) (at_replica_name a) w
              else Inr w)"

text \<open>
  The value \<open>register\<close> returns: the loop over all replicas reuses the variable, so a
  complete replica's registration returns the last replica of the dictionary.
\<close>

definition rm_register_result :: "atom \<Rightarrow> world \<Rightarrow> replica option" where
  "rm_register_result a w =
     (case dict_get (rollout_replicas (w_rm w)) (at_replica_name a) of
        None \<Rightarrow> None
      | Some r \<Rightarrow> if arrived r then Some (last (dict_values (rollout_replicas (w_rm w)))) else Some r)"

section \<open>The end-of-rollout barrier\<close>

definition reports :: "atom \<Rightarrow> py_error + bool" where
  "reports a =
     bindR (tp_rank a) (\<lambda>t. if t \<noteq> 0 then Inr False else
     bindR (pp_rank a) (\<lambda>p.
     bindR (nth_py (at_group_size a) (index_of ''pp'' MESH_NAMES)) (\<lambda>g. Inr (p = g - 1))))"

fun reporting_ranks :: "atom list \<Rightarrow> py_error + int set" where
  "reporting_ranks [] = Inr {}"
| "reporting_ranks (a # as) =
     bindR (reports a) (\<lambda>b.
     bindR (reporting_ranks as) (\<lambda>s. Inr (if b then insert (at_global_rank a) s else s)))"

definition expected_reporting_ranks :: "replica \<Rightarrow> py_error + int set" where
  "expected_reporting_ranks r = reporting_ranks (dict_values (rp_atoms r))"

definition set_ended :: "replica \<Rightarrow> replica" where
  "set_ended r = r\<lparr>rp_status := (rp_status r)\<lparr>ended := True\<rparr>\<rparr>"

definition mark_ended :: "string \<Rightarrow> bool \<Rightarrow> rollout_manager \<Rightarrow> rollout_manager" where
  "mark_ended nm participant m = m\<lparr>
     command_participant_ended := (if participant then insert nm (command_participant_ended m)
                                   else command_participant_ended m - {nm}),
     rollout_replicas := dict_upd nm set_ended (rollout_replicas m)\<rparr>"

definition add_reporter :: "string \<Rightarrow> int \<Rightarrow> rollout_manager \<Rightarrow> rollout_manager" where
  "add_reporter nm rank m = m\<lparr>ended_reporters :=
     dict_set nm (insert rank (dict_get_or (ended_reporters m) nm {})) (ended_reporters m)\<rparr>"

definition rollout_end ::
  "string \<Rightarrow> int option \<Rightarrow> bool \<Rightarrow> rollout_manager \<Rightarrow> py_error + (bool \<times> rollout_manager)" where
  "rollout_end nm rank stays m =
     (case dict_get (rollout_replicas m) nm of
        None \<Rightarrow> Inr (False, m)
      | Some r \<Rightarrow>
          if ended (rp_status r) then Inr (False, m)
          else case rank of
            None \<Rightarrow> Inr (True, mark_ended nm stays m)
          | Some k \<Rightarrow>
              bindR (expected_reporting_ranks r) (\<lambda>expected.
                if k \<notin> expected then Inr (False, m)
                else
                  let m = add_reporter nm k m in
                  if expected \<noteq> {} \<and> expected \<subseteq> dict_get_or (ended_reporters m) nm {}
                  then Inr (True, mark_ended nm True m)
                  else Inr (False, m)))"

definition all_rollouts_ended :: "rollout_manager \<Rightarrow> bool" where
  "all_rollouts_ended m \<longleftrightarrow> rollout_replicas m \<noteq> []
     \<and> list_all (\<lambda>r. ended (rp_status r)) (dict_values (rollout_replicas m))"

section \<open>Who may receive a weight sync\<close>

definition legacy_ended :: "rollout_manager \<Rightarrow> replica \<Rightarrow> bool" where
  "legacy_ended m r \<longleftrightarrow> ended (rp_status r) \<and> rp_name r \<notin> command_participant_ended m"

definition get_safe_weight_sync_replicas :: "bool \<Rightarrow> rollout_manager \<Rightarrow> replica list" where
  "get_safe_weight_sync_replicas validation_enabled m =
     (let rs = by_start_time (rm_arrived m) in
      if validation_enabled then rs
      else if list_ex (legacy_ended m) rs then [] else rs)"

section \<open>Invariant\<close>

text \<open>
  The table of rollout replicas is well formed, and only ended replicas are recorded as
  command participants.
\<close>

definition rm_inv :: "rollout_manager \<Rightarrow> bool" where
  "rm_inv m \<longleftrightarrow> reps_ok ROLLOUT (rollout_replicas m)
     \<and> (\<forall>nm \<in> command_participant_ended m. \<exists>r. dict_get (rollout_replicas m) nm = Some r \<and> ended (rp_status r))"

lemma core_mutations_rm [simp]:
  "core (set_heartbeat ts r) = core r" "core (set_start_time now r) = core r"
  by (simp_all add: core_def set_heartbeat_def set_start_time_def)

lemma rm_inv_same_cores:
  assumes "same_cores (rollout_replicas m) (rollout_replicas m')"
    and "command_participant_ended m' = command_participant_ended m" and "rm_inv m"
  shows "rm_inv m'"
proof -
  have "\<exists>r'. dict_get (rollout_replicas m') nm = Some r' \<and> ended (rp_status r')"
    if get: "dict_get (rollout_replicas m) nm = Some r" and e: "ended (rp_status r)" for nm r
  proof -
    obtain r' where "dict_get (rollout_replicas m') nm = Some r'" and "core r' = core r"
      using same_cores_get [OF assms(1), of nm] get by auto
    with e show ?thesis using core_fields(4) [of r' r] by auto
  qed
  then show ?thesis
    using assms(3) unfolding rm_inv_def assms(2) reps_ok_same_cores [OF assms(1)] by blast
qed

lemma rm_inv_init: "rm_inv init_rollout_manager"
  by (simp add: rm_inv_def init_rollout_manager_def)

lemma rm_heartbeat_inv: "rm_inv m \<Longrightarrow> rm_inv (rm_heartbeat now nm m)"
  by (rule rm_inv_same_cores [of m]) (simp_all add: rm_heartbeat_def same_cores_upd)

lemma rm_remove_inv: "rm_inv m \<Longrightarrow> rm_inv (rm_remove now nm r m)"
  by (auto simp: rm_inv_def rm_remove_def reps_ok_pop)

lemma rm_arrived_values: "set (rm_arrived m) \<subseteq> set (dict_values (rollout_replicas m))"
  by (auto simp: rm_arrived_def arrived_values_def)

lemma rebuild_valid:
  assumes "rm_inv m" and "set rs \<subseteq> set (rm_arrived m)"
  shows "pick (map rp_name rs) (rollout_replicas m) = rs"
  using assms rm_arrived_values [of m] by (intro reps_ok_pick [of ROLLOUT]) (auto simp: rm_inv_def)

lemma rm_rebuild_eq:
  assumes "rm_inv (w_rm w)" and "set rs \<subseteq> set (rm_arrived (w_rm w))"
  shows "rm_trigger_rebuild_mesh (map rp_name rs) w =
    Inr (w\<lparr>w_bus := publish_to (BuildMesh (replicas_to_rank (by_start_time rs)))
               (map rp_name (by_start_time rs)) (w_bus w),
           w_rm := (w_rm w)\<lparr>rollout_replicas :=
             store_replicas (ranked (by_start_time rs)) (rollout_replicas (w_rm w))\<rparr>,
           w_df := set_rollout_global_mesh_size (int (length rs)) (w_df w)\<rparr>)"
proof -
  have "list_all arrived (by_start_time rs)"
    using assms(2) by (auto simp: list_all_iff rm_arrived_def arrived_values_def)
  then show ?thesis
    by (simp add: rm_trigger_rebuild_mesh_def Let_def rebuild_valid [OF assms] build_mesh_ranked)
qed

lemma rm_rebuild_inv:
  assumes "rm_inv (w_rm w)" and "set rs \<subseteq> set (rm_arrived (w_rm w))"
    and "rm_trigger_rebuild_mesh (map rp_name rs) w = Inr w'"
  shows "rm_inv (w_rm w') \<and> same_cores (rollout_replicas (w_rm w)) (rollout_replicas (w_rm w'))"
proof -
  have w': "rollout_replicas (w_rm w') =
      store_replicas (ranked (by_start_time rs)) (rollout_replicas (w_rm w))"
    "command_participant_ended (w_rm w') = command_participant_ended (w_rm w)"
    using assms(3) unfolding rm_rebuild_eq [OF assms(1,2)] by auto
  have "same_cores (rollout_replicas (w_rm w)) (rollout_replicas (w_rm w'))"
    unfolding w'(1) using assms(1,2) rm_arrived_values [of "w_rm w"]
    by (intro ranked_same_cores [of ROLLOUT]) (auto simp: rm_inv_def)
  then show ?thesis
    using rm_inv_same_cores [OF _ w'(2) assms(1)] by blast
qed

section \<open>Departures\<close>

lemma rm_unregister_inv:
  assumes "rm_inv (w_rm w)"
  shows "keeps (\<lambda>w. rm_inv (w_rm w)) (rm_unregister now nm w)"
proof (cases "dict_get (rollout_replicas (w_rm w)) nm")
  case None
  then show ?thesis using assms by (simp add: rm_unregister_def)
next
  case (Some r)
  let ?w = "w\<lparr>w_rm := rm_remove now nm r (w_rm w)\<rparr>"
  let ?s = "filter (safe_survivor (w_rm ?w)) (rm_arrived (w_rm ?w))"
  have inv: "rm_inv (w_rm ?w)" using assms by (simp add: rm_remove_inv)
  have sub: "set ?s \<subseteq> set (rm_arrived (w_rm ?w))" by auto
  show ?thesis
    using inv rm_rebuild_inv [OF inv sub] rm_rebuild_eq [OF inv sub]
    by (simp add: rm_unregister_def Some Let_def)
qed

text \<open>
  C35: After an in-mesh replica left, the complete replicas that still serve commands form the
  mesh, ranked from 0 by start time; each of them and nobody else is told, and the data
  fetcher knows the new size.
\<close>

theorem rm_unregister_rebuild:
  assumes inv: "rm_inv (w_rm w)" and get: "dict_get (rollout_replicas (w_rm w)) nm = Some r"
    and run: "\<not> training_finished (w_pm w)" and mesh: "in_mesh r"
    and m_def: "m = rm_remove now nm r (w_rm w)"
    and rs_def: "rs = by_start_time (filter (safe_survivor m) (rm_arrived m))"
    and some: "rs \<noteq> []"
  shows "\<exists>w'. rm_unregister now nm w = Inr w'
    \<and> (\<forall>i < length rs. dict_get (rollout_replicas (w_rm w')) (rp_name (rs ! i))
          = Some (set_mesh_rank (int i) (rs ! i)))
    \<and> (\<forall>k. k \<notin> rp_name ` set rs \<longrightarrow>
          dict_get (rollout_replicas (w_rm w')) k = dict_get (rollout_replicas m) k)
    \<and> (\<forall>k. received k (w_bus w') = received k (w_bus w) @
          (if k \<in> rp_name ` set rs then [BuildMesh (replicas_to_rank rs)] else []))
    \<and> df_rollout_mesh_size (w_df w') = Some (int (length rs))"
proof -
  let ?w = "w\<lparr>w_rm := m\<rparr>"
  let ?s = "filter (safe_survivor m) (rm_arrived m)"
  have invm: "rm_inv (w_rm ?w)" using inv by (simp add: m_def rm_remove_inv)
  have sub: "set ?s \<subseteq> set (rm_arrived (w_rm ?w))" by auto
  have vals: "set rs \<subseteq> set (dict_values (rollout_replicas m))"
    using rm_arrived_values [of m] by (auto simp: rs_def)
  have dist: "distinct (map rp_name rs)"
    using invm by (auto simp: rs_def distinct_by_start_time rm_arrived_def arrived_values_def
        rm_inv_def intro!: distinct_map_filter_names reps_ok_distinct [of ROLLOUT])
  have has: "dict_has (rollout_replicas m) (rp_name x)" if "x \<in> set rs" for x
    using reps_ok_name_value [of ROLLOUT "rollout_replicas m" x] invm that vals
    by (auto simp: rm_inv_def)
  have count: "count_list (map rp_name rs) k = (if k \<in> rp_name ` set rs then 1 else 0)" for k
    using count_list_distinct [OF dist, of k] by simp
  have un: "rm_unregister now nm w = rm_trigger_rebuild_mesh (map rp_name ?s) ?w"
    using get run mesh some by (simp add: rm_unregister_def Let_def m_def rs_def)
  show ?thesis
    unfolding un rm_rebuild_eq [OF invm sub]
    using dist has
    by (auto simp: rs_def [symmetric] received_publish_to count ranked_table ranked_table_other
        set_rollout_global_mesh_size_def) (simp_all add: rs_def)
qed

section \<open>Registration keeps the invariant\<close>

lemma arrive_after:
  assumes "wf_replica r" and "at_replica_name a = rp_name r"
  defines "r' \<equiv> after (arrive a r)"
  shows "wf_replica r' \<and> rp_name r' = rp_name r \<and> rp_role r' = rp_role r \<and> rp_status r' = rp_status r"
proof (cases "dict_get (rp_atoms r) (atom_str a) = None \<and> at_group_size a = at_group_size (snd (hd (rp_atoms r)))")
  case True
  then show ?thesis
    using arrive_wf [of r a] assms(1,2) by (simp add: r'_def)
next
  case False
  obtain p ps where "rp_atoms r = p # ps"
    using assms(1) by (cases "rp_atoms r") (auto simp: wf_replica_def)
  with False have "arrive a r = Inl (AssertionError, r)"
    by (cases "dict_get (rp_atoms r) (atom_str a) = None") (auto simp: arrive_def)
  then show ?thesis using assms(1) by (simp add: r'_def)
qed

lemma arrive_in_ok:
  fixes now :: rat
  assumes "reps_ok rl d" and "length (at_group_size a) = length MESH_NAMES"
  defines "d' \<equiv> after (arrive_in rl a now d)"
  shows "reps_ok rl d'"
    and "dict_get d k = Some r \<Longrightarrow> \<exists>r'. dict_get d' k = Some r' \<and> rp_status r' = rp_status r"
proof -
  let ?n = "at_replica_name a"
  have "reps_ok rl d' \<and> (dict_get d k = Some r \<longrightarrow>
      (\<exists>r'. dict_get d' k = Some r' \<and> rp_status r' = rp_status r))"
  proof (cases "dict_get d ?n")
    case None
    have "wf_replica (new_replica ?n rl [a] now)"
      using assms(2) by (rule wf_new_replica)
    with assms(1) None show ?thesis
      by (auto simp: d'_def arrive_in_def new_replica_def intro!: reps_ok_set)
  next
    case (Some r0)
    have r0: "rp_name r0 = ?n" "rp_role r0 = rl" "wf_replica r0"
      using reps_ok_get [OF assms(1) Some] by auto
    have d': "d' = dict_upd ?n (\<lambda>_. after (arrive a r0)) d"
      by (cases "arrive a r0") (auto simp: d'_def arrive_in_def Some after_def split: prod.splits)
    show ?thesis
      using arrive_after [of r0 a] r0(1,3) r0(2) [symmetric] Some assms(1) unfolding d'
      by (auto intro!: reps_ok_upd)
  qed
  then show "reps_ok rl d'"
    and "dict_get d k = Some r \<Longrightarrow> \<exists>r'. dict_get d' k = Some r' \<and> rp_status r' = rp_status r"
    by blast+
qed

lemma arrived_names_same_cores:
  "same_cores d d' \<Longrightarrow> map rp_name (arrived_values d') = map rp_name (arrived_values d)"
proof (induction d arbitrary: d')
  case Nil
  then show ?case by (simp add: same_cores_def)
next
  case (Cons p d)
  then obtain p' e where d': "d' = p' # e" and c: "core (snd p') = core (snd p)"
      and rest: "same_cores d e"
    by (auto simp: same_cores_def case_prod_beta)
  then show ?case
    using Cons.IH [OF rest] core_fields [OF c] by (simp add: arrived_values_def)
qed

lemma send_p2r_cores:
  assumes "reps_ok rl (rollout_replicas (w_rm w))"
    and "dict_get (rollout_replicas (w_rm w)) k = Some dst"
  shows "same_cores (rollout_replicas (w_rm w)) (rollout_replicas (w_rm (after (send_p2r src dst ws ts w))))"
    and "command_participant_ended (w_rm (after (send_p2r src dst ws ts w))) = command_participant_ended (w_rm w)"
proof -
  have n: "rp_name dst = k" using reps_ok_get [OF assms] by simp
  have "same_cores (rollout_replicas (w_rm w)) (store_replicas [set_loaded dst] (rollout_replicas (w_rm w)))"
    using assms n by (intro same_cores_store reps_ok_wf_dict) (auto simp: set_loaded_def core_def)
  then show "same_cores (rollout_replicas (w_rm w)) (rollout_replicas (w_rm (after (send_p2r src dst ws ts w))))"
    and "command_participant_ended (w_rm (after (send_p2r src dst ws ts w))) = command_participant_ended (w_rm w)"
    by (simp_all add: send_p2r_def trigger_p2r_def Let_def split: option.splits)
qed

lemma send_r2r_cores:
  assumes "reps_ok rl (rollout_replicas (w_rm w))"
    and "set dsts \<subseteq> set (dict_values (rollout_replicas (w_rm w)))"
  shows "same_cores (rollout_replicas (w_rm w)) (rollout_replicas (w_rm (send_r2r src dsts ws ts w)))"
    and "command_participant_ended (w_rm (send_r2r src dsts ws ts w)) = command_participant_ended (w_rm w)"
proof -
  have get: "dict_get (rollout_replicas (w_rm w)) (rp_name r) = Some r" if "r \<in> set dsts" for r
    using reps_ok_name_value [OF assms(1)] assms(2) that by auto
  have "same_cores (rollout_replicas (w_rm w)) (store_replicas (map f dsts) (rollout_replicas (w_rm w)))"
    if "\<And>r. core (f r) = core r" for f
  proof (rule same_cores_store)
    show "wf_dict (rollout_replicas (w_rm w))" using assms(1) by (rule reps_ok_wf_dict)
    show "\<forall>r' \<in> set (map f dsts). \<exists>r. dict_get (rollout_replicas (w_rm w)) (rp_name r') = Some r \<and> core r' = core r"
      using get core_fields(1) [OF that] that by auto
  qed
  from this [of "\<lambda>r. if in_mesh r then set_loaded r else r"] this [of id]
  show "same_cores (rollout_replicas (w_rm w)) (rollout_replicas (w_rm (send_r2r src dsts ws ts w)))"
    and "command_participant_ended (w_rm (send_r2r src dsts ws ts w)) = command_participant_ended (w_rm w)"
    by (simp_all add: send_r2r_def trigger_r2r_def Let_def)
qed

text \<open>What every step of the registration hook keeps: the invariant and the names of the
  complete replicas.\<close>

definition hook_inv :: "string list \<Rightarrow> world \<Rightarrow> bool" where
  "hook_inv valid w \<longleftrightarrow> rm_inv (w_rm w) \<and> valid = map rp_name (rm_arrived (w_rm w))"

lemma hook_inv_same_cores:
  assumes "hook_inv valid w"
    and "same_cores (rollout_replicas (w_rm w)) (rollout_replicas (w_rm w'))"
    and "command_participant_ended (w_rm w') = command_participant_ended (w_rm w)"
  shows "hook_inv valid w'"
  using assms rm_inv_same_cores [OF assms(2,3)] arrived_names_same_cores [OF assms(2)]
  by (simp add: hook_inv_def rm_arrived_def)

lemma hook_rebuild:
  assumes "hook_inv valid w"
  shows "\<exists>w'. rm_trigger_rebuild_mesh valid w = Inr w' \<and> hook_inv valid w'"
proof -
  have inv: "rm_inv (w_rm w)" and v: "valid = map rp_name (rm_arrived (w_rm w))"
    using assms by (simp_all add: hook_inv_def)
  obtain w' where w': "rm_trigger_rebuild_mesh valid w = Inr w'"
    using rm_rebuild_eq [OF inv, of "rm_arrived (w_rm w)"] by (simp add: v)
  then have "same_cores (rollout_replicas (w_rm w)) (rollout_replicas (w_rm w'))"
    using rm_rebuild_inv [OF inv, of "rm_arrived (w_rm w)" w'] by (simp add: v)
  moreover have "command_participant_ended (w_rm w') = command_participant_ended (w_rm w)"
    using w' rm_rebuild_eq [OF inv, of "rm_arrived (w_rm w)"] by (auto simp: v)
  ultimately show ?thesis
    using hook_inv_same_cores [OF assms] w' by blast
qed

lemma hook_first_weights:
  assumes "hook_inv valid w"
  shows "keeps (hook_inv valid) (rm_first_weights valid target w)"
proof -
  have ok: "reps_ok ROLLOUT (rollout_replicas (w_rm w))"
    using assms by (simp add: hook_inv_def rm_inv_def)
  have "keeps (hook_inv valid) (send_p2r src dst ws ts w)"
    if "dict_get (rollout_replicas (w_rm w)) target = Some dst" for src dst ws ts
    using hook_inv_same_cores [OF assms send_p2r_cores [OF ok that]] by (simp add: keeps_def)
  then show ?thesis
    using assms by (auto simp: rm_first_weights_def split: option.splits)
qed

lemma hook_first_broadcast:
  assumes "hook_inv valid w"
  shows "hook_inv valid (rm_first_broadcast valid w)"
proof -
  have ok: "reps_ok ROLLOUT (rollout_replicas (w_rm w))"
    using assms by (simp add: hook_inv_def rm_inv_def)
  have "pick valid (rollout_replicas (w_rm w)) = rm_arrived (w_rm w)"
    using assms rebuild_valid [of "w_rm w" "rm_arrived (w_rm w)"] by (simp add: hook_inv_def)
  then have sub: "set (pick valid (rollout_replicas (w_rm w))) \<subseteq> set (dict_values (rollout_replicas (w_rm w)))"
    using rm_arrived_values by simp
  show ?thesis
    using assms hook_inv_same_cores [OF assms send_r2r_cores [OF ok sub]]
    by (auto simp: rm_first_broadcast_def Let_def split: option.splits)
qed

lemma rm_post_register_hook_inv:
  assumes "hook_inv valid w"
  shows "keeps (hook_inv valid) (rm_post_register_hook valid target w)"
proof -
  have init: "hook_inv valid (w\<lparr>w_rm := (w_rm w)\<lparr>rollout_init_done := True\<rparr>\<rparr>)" if "hook_inv valid w" for w
    using that by (simp add: hook_inv_def rm_inv_def rm_arrived_def)
  have rebuild: "keeps (hook_inv valid) (rm_trigger_rebuild_mesh valid w)" if "hook_inv valid w" for w
    using hook_rebuild [OF that] by auto
  show ?thesis
    unfolding rm_post_register_hook_def
    by (intro keeps_bindR keeps_assert keeps_if assms)
      (auto intro!: keeps_bindR keeps_assert hook_first_weights rebuild init
        simp: hook_first_broadcast)
qed

lemma rm_register_inv:
  assumes "rm_inv (w_rm w)" and "length (at_group_size a) = length MESH_NAMES"
  shows "keeps (\<lambda>w. rm_inv (w_rm w)) (rm_register a now w)"
proof -
  have ok: "reps_ok ROLLOUT (rollout_replicas (w_rm w))"
    using assms(1) by (simp add: rm_inv_def)
  have store: "rm_inv (w_rm (rm_store (after (arrive_in ROLLOUT a now (rollout_replicas (w_rm w)))) w))"
    using assms(1) arrive_in_ok(1) [OF ok assms(2)]
    by (auto simp: rm_inv_def rm_store_def) (metis arrive_in_ok(2) [OF ok assms(2)])
  have raise: "rm_inv (w_rm (rm_raise_n_init w))" if "rm_inv (w_rm w)" for w
    using that by (simp add: rm_raise_n_init_def)
  have complete: "rm_inv (w_rm (rm_complete now a w))" if "rm_inv (w_rm w)" for w
    by (rule rm_inv_same_cores [OF _ _ that])
      (simp_all add: rm_complete_def Let_def same_cores_upd)
  have hook: "keeps (\<lambda>w. rm_inv (w_rm w))
      (rm_post_register_hook (map rp_name (rm_arrived (w_rm w))) t w)" if "rm_inv (w_rm w)" for t w
    using rm_post_register_hook_inv [of "map rp_name (rm_arrived (w_rm w))" w t] that
    by (simp add: keeps_def hook_inv_def)
  show ?thesis
    using store by (auto simp: rm_register_def Let_def after_def raise complete hook
        split: sum.splits option.splits)
qed

section \<open>The barrier\<close>

text \<open>A sequence of per-rank reports of one replica, with what each call returned.\<close>

fun report_ends :: "string \<Rightarrow> int list \<Rightarrow> rollout_manager \<Rightarrow> py_error + (bool list \<times> rollout_manager)" where
  "report_ends nm [] m = Inr ([], m)"
| "report_ends nm (k # ks) m =
     bindR (rollout_end nm (Some k) True m) (\<lambda>(b, m).
     bindR (report_ends nm ks m) (\<lambda>(bs, m). Inr (b # bs, m)))"

lemma report_ends_ended:
  assumes "dict_get (rollout_replicas m) nm = Some r" and "ended (rp_status r)"
  shows "report_ends nm ks m = Inr (replicate (length ks) False, m)"
  using assms by (induction ks) (simp_all add: rollout_end_def)

lemma report_ends_gen:
  assumes "dict_get (rollout_replicas m) nm = Some r" and "\<not> ended (rp_status r)"
    and "expected_reporting_ranks r = Inr E" and "E \<noteq> {}"
    and "\<not> E \<subseteq> dict_get_or (ended_reporters m) nm {}"
  shows "\<exists>bs m' r'. report_ends nm ks m = Inr (bs, m')
    \<and> dict_get (rollout_replicas m') nm = Some r'
    \<and> (ended (rp_status r') \<longleftrightarrow> E \<subseteq> dict_get_or (ended_reporters m) nm {} \<union> set ks)
    \<and> length (filter (\<lambda>b. b) bs) = (if ended (rp_status r') then 1 else 0)
    \<and> (ended (rp_status r') \<longrightarrow> nm \<in> command_participant_ended m')"
  using assms
proof (induction ks arbitrary: m)
  case Nil
  then show ?case by simp
next
  case (Cons k ks)
  let ?R = "dict_get_or (ended_reporters m) nm {}"
  let ?m = "add_reporter nm k m"
  have R': "dict_get_or (ended_reporters ?m) nm {} = insert k ?R"
    and get: "dict_get (rollout_replicas ?m) nm = Some r"
    using Cons.prems(1) by (simp_all add: add_reporter_def dict_get_or_def)
  have skip: ?case if "rollout_end nm (Some k) True m = Inr (False, m1)"
    and iff: "E \<subseteq> ?R \<union> set (k # ks) \<longleftrightarrow> E \<subseteq> dict_get_or (ended_reporters m1) nm {} \<union> set ks"
    and IH: "\<exists>bs m' r'. report_ends nm ks m1 = Inr (bs, m')
      \<and> dict_get (rollout_replicas m') nm = Some r'
      \<and> (ended (rp_status r') \<longleftrightarrow> E \<subseteq> dict_get_or (ended_reporters m1) nm {} \<union> set ks)
      \<and> length (filter (\<lambda>b. b) bs) = (if ended (rp_status r') then 1 else 0)
      \<and> (ended (rp_status r') \<longrightarrow> nm \<in> command_participant_ended m')" for m1
  proof -
    from IH obtain bs m' r' where "report_ends nm ks m1 = Inr (bs, m')"
      and "dict_get (rollout_replicas m') nm = Some r'"
      and "ended (rp_status r') \<longleftrightarrow> E \<subseteq> dict_get_or (ended_reporters m1) nm {} \<union> set ks"
      and "length (filter (\<lambda>b. b) bs) = (if ended (rp_status r') then 1 else 0)"
      and "ended (rp_status r') \<longrightarrow> nm \<in> command_participant_ended m'"
      by blast
    with that(1) show ?thesis
      unfolding iff by (intro exI [of _ "False # bs"] exI [of _ m'] exI [of _ r']) simp
  qed
  consider "k \<notin> E" | "k \<in> E" "E \<subseteq> insert k ?R" | "k \<in> E" "\<not> E \<subseteq> insert k ?R" by blast
  then show ?case
  proof cases
    case 1
    then have end': "rollout_end nm (Some k) True m = Inr (False, m)"
      using Cons.prems by (simp add: rollout_end_def)
    show ?thesis
      using 1 by (intro skip [OF end'] Cons.IH [OF Cons.prems]) auto
  next
    case 2
    then have end': "rollout_end nm (Some k) True m = Inr (True, mark_ended nm True ?m)"
      using Cons.prems R' by (simp add: rollout_end_def Let_def)
    have get': "dict_get (rollout_replicas (mark_ended nm True ?m)) nm = Some (set_ended r)"
      using get by (simp add: mark_ended_def)
    have e: "ended (rp_status (set_ended r))" by (simp add: set_ended_def)
    have part: "nm \<in> command_participant_ended (mark_ended nm True ?m)"
      by (simp add: mark_ended_def)
    have "E \<subseteq> ?R \<union> set (k # ks)" using 2 by auto
    then show ?thesis
      using get' e part
      by (intro exI [of _ "True # replicate (length ks) False"] exI [of _ "mark_ended nm True ?m"]
          exI [of _ "set_ended r"])
        (simp add: end' report_ends_ended [OF get' e])
  next
    case 3
    then have end': "rollout_end nm (Some k) True m = Inr (False, ?m)"
      using Cons.prems R' by (simp add: rollout_end_def Let_def)
    show ?thesis
      using 3 R' by (intro skip [OF end'] Cons.IH [OF get Cons.prems(2-4)]) auto
  qed
qed

text \<open>
  The per-rank end-of-rollout barrier. For a replica that has not ended and from
  which no rank has reported yet, with a non-empty set of expected reporting ranks, any
  sequence of per-rank reports (in any order, with repetitions and with ranks that are
  not expected) ends the replica exactly if it covers the expected ranks; then exactly
  one call returns the whole-replica transition, and the replica is recorded as a command
  participant through STOP. Otherwise no call does.
\<close>

theorem rollout_end_barrier:
  assumes "dict_get (rollout_replicas m) nm = Some r" and "\<not> ended (rp_status r)"
    and "expected_reporting_ranks r = Inr E" and "E \<noteq> {}"
    and "dict_get (ended_reporters m) nm = None"
  shows "\<exists>bs m' r'. report_ends nm ks m = Inr (bs, m')
    \<and> dict_get (rollout_replicas m') nm = Some r'
    \<and> (ended (rp_status r') \<longleftrightarrow> E \<subseteq> set ks)
    \<and> length (filter (\<lambda>b. b) bs) = (if E \<subseteq> set ks then 1 else 0)
    \<and> (E \<subseteq> set ks \<longrightarrow> nm \<in> command_participant_ended m')"
  using report_ends_gen [OF assms(1-4), of ks] assms(4,5) by (auto simp: dict_get_or_def)

section \<open>Weight-sync targets\<close>

text \<open>
  Without validation, the replicas that receive a weight sync are either none, or
  all complete replicas in start-time order, and then each of them is still generating
  or has promised to serve commands until STOP; it is none exactly when some complete
  replica has ended without that promise (or none is complete).
\<close>

theorem safe_weight_sync_replicas:
  "(\<forall>r \<in> set (get_safe_weight_sync_replicas False m). safe_survivor m r)
   \<and> get_safe_weight_sync_replicas False m \<in> {[], by_start_time (rm_arrived m)}
   \<and> (get_safe_weight_sync_replicas False m = [] \<longleftrightarrow>
        (\<exists>r \<in> set (rm_arrived m). \<not> safe_survivor m r) \<or> rm_arrived m = [])"
  by (auto simp: get_safe_weight_sync_replicas_def Let_def list_ex_iff legacy_ended_def
      safe_survivor_def)

end
