(* ===== verification/Policy_Status.thy ===== *)
theory Policy_Status
  imports Rollout_Status
begin

text \<open>
  The registration side of \<open>PolicyStatusManager\<close> (cosmos_rl/dispatcher/status.py): the
  status table, step horizon and draining phase, liveness and NCCL-error marks, mesh
  rebuilds with the redistribution of buffered rollouts, registration with weight
  initialisation, departure, completion acknowledgements, and the accounting of samples
  in flight with its idempotent discard reports. Dispatch and acknowledgement of
  training steps follow in \<open>Policy_Dispatch\<close>.
\<close>

definition onP :: "(policy_manager \<Rightarrow> policy_manager) \<Rightarrow> world \<Rightarrow> world" where
  "onP f w = w\<lparr>w_pm := f (w_pm w)\<rparr>"

definition pm_contains :: "string \<Rightarrow> policy_manager \<Rightarrow> bool" where
  "pm_contains nm p \<longleftrightarrow> dict_has (policy_replicas p) nm"

definition pm_n_atoms_per_replica :: "policy_manager \<Rightarrow> py_error + int" where
  "pm_n_atoms_per_replica p = (case policy_replicas p of
     [] \<Rightarrow> Inr 0 | x # _ \<Rightarrow> n_atoms_per_replica (snd x))"

definition pm_arrived :: "policy_manager \<Rightarrow> replica list" where
  "pm_arrived p = arrived_values (policy_replicas p)"

section \<open>Status table\<close>

definition set_status :: "string \<Rightarrow> policy_status \<Rightarrow> policy_manager \<Rightarrow> policy_manager outcome" where
  "set_status nm st p =
     bindR (if dict_has (status p) nm then py_assert (st \<noteq> UNINITIALIZED) p
            else py_assert (st = UNINITIALIZED) p)
       (\<lambda>p. Inr (p\<lparr>status := dict_set nm st (status p)\<rparr>))"

definition get_status :: "string \<Rightarrow> policy_manager \<Rightarrow> py_error + policy_status" where
  "get_status nm p = (case dict_get (status p) nm of None \<Rightarrow> Inl KeyError | Some st \<Rightarrow> Inr st)"

definition all_with_status :: "policy_status list \<Rightarrow> policy_manager \<Rightarrow> bool" where
  "all_with_status sts p \<longleftrightarrow> list_all (\<lambda>st. st \<in> set sts) (dict_values (status p))"

definition any_with_status :: "policy_status list \<Rightarrow> policy_manager \<Rightarrow> bool" where
  "any_with_status sts p \<longleftrightarrow> list_ex (\<lambda>st. st \<in> set sts) (dict_values (status p))"

definition all_reduced :: "policy_manager \<Rightarrow> bool" where
  "all_reduced p \<longleftrightarrow> all_with_status [REDUCED] p"

definition all_ready :: "policy_manager \<Rightarrow> bool" where
  "all_ready p \<longleftrightarrow> all_with_status [READY] p"

definition all_ready_or_reduced :: "policy_manager \<Rightarrow> bool" where
  "all_ready_or_reduced p \<longleftrightarrow> all_with_status [READY, REDUCED] p"

section \<open>The step horizon and the draining phase\<close>

definition steps_by_dataset :: "config \<Rightarrow> int \<Rightarrow> policy_manager \<Rightarrow> int" where
  "steps_by_dataset c remaining p =
     (let s = current_step p + remaining div (c_train_batch c * int (length (pm_arrived p)))
      in case c_max_num_steps c of None \<Rightarrow> s | Some m \<Rightarrow> min s m)"

definition recompute_total_steps :: "config \<Rightarrow> int option \<Rightarrow> policy_manager \<Rightarrow> policy_manager outcome" where
  "recompute_total_steps c explicit p =
     (if job_phase p = DRAINING \<or> training_finished p then Inr p
      else if pm_arrived p = [] then Inr p
      else
        let remaining = (case explicit of None \<Rightarrow> remain_samples_num p | Some n \<Rightarrow> n) in
        bindR (py_nonzero (c_train_batch c * int (length (pm_arrived p))) p) (\<lambda>p.
        Inr (p\<lparr>total_steps := steps_by_dataset c remaining p\<rparr>)))"

definition total_steps_from_remaining_samples :: "config \<Rightarrow> int \<Rightarrow> policy_manager \<Rightarrow> py_error + int" where
  "total_steps_from_remaining_samples c remaining p =
     (if pm_arrived p = [] then Inr (total_steps p)
      else if c_train_batch c * int (length (pm_arrived p)) = 0 then Inl ZeroDivisionError
      else Inr (steps_by_dataset c remaining p))"

definition enter_draining_phase :: "policy_manager \<Rightarrow> policy_manager" where
  "enter_draining_phase p =
     (if job_phase p \<noteq> PHASE_RUNNING then p
      else p\<lparr>job_phase := DRAINING, draining_total_steps := Some (total_steps p)\<rparr>)"

text \<open>Activation of validation at a step, where the configuration asks for it.\<close>

definition activate_validation_if_due :: "int \<Rightarrow> world \<Rightarrow> world outcome" where
  "activate_validation_if_due horizon w =
     (if c_val_enable (w_cfg w) then
        bindR (py_nonzero (c_val_freq (w_cfg w)) w) (\<lambda>w.
        if current_step (w_pm w) mod c_val_freq (w_cfg w) = 0 \<or> current_step (w_pm w) = horizon
        then liftD (validation_activate_dataloader (current_step (w_pm w))) w else Inr w)
      else Inr w)"

text \<open>\<open>setup\<close>, after the fields were assigned (\<open>init_policy_manager\<close>).\<close>

definition pm_setup :: "world \<Rightarrow> world outcome" where
  "pm_setup w =
     bindR (liftP (recompute_total_steps (w_cfg w) None) w) (\<lambda>w.
     if c_resume (w_cfg w) \<and> c_val_enable (w_cfg w) \<and> 0 < current_step (w_pm w)
     then activate_validation_if_due (total_steps (w_pm w)) w else Inr w)"

section \<open>Liveness, NCCL errors\<close>

definition pm_heartbeat :: "rat \<Rightarrow> string \<Rightarrow> policy_manager \<Rightarrow> policy_manager" where
  "pm_heartbeat now nm p =
     (if pm_contains nm p
      then p\<lparr>policy_replicas := dict_upd nm (set_heartbeat \<lfloor>now\<rfloor>) (policy_replicas p)\<rparr> else p)"

definition mark_ncclerror :: "rat option \<Rightarrow> replica \<Rightarrow> replica" where
  "mark_ncclerror ts r = r\<lparr>rp_status := (rp_status r)\<lparr>nccl_error_timestamp := ts\<rparr>\<rparr>"

definition set_ncclerror :: "string \<Rightarrow> rat \<Rightarrow> policy_manager \<Rightarrow> policy_manager outcome" where
  "set_ncclerror nm ts p =
     (if pm_contains nm p
      then Inr (p\<lparr>policy_replicas := dict_upd nm (mark_ncclerror (Some ts)) (policy_replicas p)\<rparr>)
      else Inl (AttributeError, p))"

definition clear_ncclerror :: "policy_manager \<Rightarrow> policy_manager" where
  "clear_ncclerror p = p\<lparr>policy_replicas :=
     map (\<lambda>(k, r). (k, mark_ncclerror None r)) (policy_replicas p)\<rparr>"

definition get_all_policy_report_ncclerror :: "policy_manager \<Rightarrow> (string, rat) dict" where
  "get_all_policy_report_ncclerror p =
     fold (\<lambda>(k, v). dict_set k v)
       (List.map_filter (\<lambda>r. map_option (Pair (rp_name r)) (nccl_error_timestamp (rp_status r))) (pm_iter p))
       []"

definition pm_shutdown :: "policy_manager \<Rightarrow> policy_manager" where
  "pm_shutdown p = p\<lparr>policy_init_done := False\<rparr>"

section \<open>Mesh rebuilds\<close>

definition enqueue_at :: "nat \<Rightarrow> 'a \<Rightarrow> 'a list list \<Rightarrow> 'a list list" where
  "enqueue_at i x qs = qs[i := qs ! i @ [x]]"

definition rearranged :: "nat \<Rightarrow> rollout list list \<Rightarrow> rollout list list" where
  "rearranged n qs =
     fold (\<lambda>r. enqueue_at (nat (ro_prompt_idx r mod int n)) r) (concat qs) (replicate n [])"

text \<open>The queues after the first element of the first non-empty queue was taken.\<close>

fun take_first :: "'a list list \<Rightarrow> 'a list list" where
  "take_first [] = []"
| "take_first ([] # qs) = [] # take_first qs"
| "take_first ((x # xs) # qs) = xs # qs"

definition rearrange_rollout_buffer :: "config \<Rightarrow> nat \<Rightarrow> policy_manager \<Rightarrow> policy_manager outcome" where
  "rearrange_rollout_buffer c n p =
     (if \<not> c_dispatch_as_rank_in_mesh c then Inr p
      else if n = 0 \<and> concat (rollout_buffer_per_rank p) \<noteq> []
      then Inl (ZeroDivisionError,
             p\<lparr>rollout_buffer_per_rank := take_first (rollout_buffer_per_rank p)\<rparr>)
      else Inr (p\<lparr>rollout_buffer_per_rank := rearranged n (rollout_buffer_per_rank p)\<rparr>))"

definition pm_trigger_rebuild_mesh :: "string list \<Rightarrow> world \<Rightarrow> world outcome" where
  "pm_trigger_rebuild_mesh valid w =
     (let rs = by_start_time (pick valid (policy_replicas (w_pm w))) in
      case trigger_build_mesh rs (w_bus w) of
        Inl e \<Rightarrow> Inl (e, w)
      | Inr (rs', b) \<Rightarrow>
          let w = onP (policy_replicas_update (store_replicas rs')) (w\<lparr>w_bus := b\<rparr>) in
          bindR (liftP (recompute_total_steps (w_cfg w) None) w) (\<lambda>w.
          let w = w\<lparr>w_df := set_policy_global_mesh_size (int (length rs)) (w_df w)\<rparr> in
          liftP (rearrange_rollout_buffer (w_cfg w) (length rs)) w))"

section \<open>Departure\<close>

text \<open>\<open>status.pop\<close> raises for a replica that was never complete.\<close>

definition pm_unregister :: "rat \<Rightarrow> string \<Rightarrow> world \<Rightarrow> world outcome" where
  "pm_unregister now nm w =
     (case dict_get (policy_replicas (w_pm w)) nm of
        None \<Rightarrow> Inl (AssertionError, w)
      | Some r \<Rightarrow>
          let w = onP (policy_replicas_update (dict_pop nm)) w in
          if \<not> dict_has (status (w_pm w)) nm then Inl (KeyError, w)
          else
            let w = onP (\<lambda>p. p\<lparr>status := dict_pop nm (status p),
                              p_scaling_log := p_scaling_log p @ [scaling_down now r]\<rparr>) w in
            if training_finished (w_pm w) \<or> nm \<in> completion_acks (w_pm w) then Inr w
            else if in_mesh r \<and> pm_arrived (w_pm w) \<noteq> []
            then pm_trigger_rebuild_mesh (map rp_name (pm_arrived (w_pm w))) w
            else Inr w)"

definition pm_maintain_life_status ::
  "(string list \<Rightarrow> string list) \<Rightarrow> int \<Rightarrow> rat \<Rightarrow> world \<Rightarrow> world outcome" where
  "pm_maintain_life_status enum timeout now w =
     forR (enum (dead_names timeout now (pm_iter (w_pm w)))) (pm_unregister now) w"

section \<open>Registration\<close>

text \<open>Weight initialisation by the first complete policy replica, and the weights it sends
  on to rollout replicas that are already there.\<close>

definition pm_seed_rollouts :: "replica \<Rightarrow> world \<Rightarrow> world outcome" where
  "pm_seed_rollouts src w =
     (let valid = filter arrived (by_start_time (dict_values (rollout_replicas (w_rm w)))) in
      case valid of
        [] \<Rightarrow> Inr w
      | dst # _ \<Rightarrow>
          bindR (send_p2r src dst None None w) (\<lambda>w.
          if c_rollout_n_init (w_cfg w) \<le> int (length valid)
          then let rs = pick (map rp_name valid) (rollout_replicas (w_rm w))
               in Inr (send_r2r (hd rs) rs (Some (current_step (w_pm w))) None w)
          else Inr w))"

definition pm_first_replica :: "string \<Rightarrow> world \<Rightarrow> world outcome" where
  "pm_first_replica nm w =
     bindR (py_assert (\<not> first_policy_replica_arrived (w_pm w)) w) (\<lambda>w.
     let w = onP (first_policy_replica_arrived_update (\<lambda>_. True)) w in
     case dict_get (policy_replicas (w_pm w)) nm of
       None \<Rightarrow> Inr w
     | Some r \<Rightarrow>
         (case trigger_weight_resume r (w_bus w) of
            Inl e \<Rightarrow> Inl (e, w)
          | Inr (r', b) \<Rightarrow>
              pm_seed_rollouts r' (onP (policy_replicas_update (store_replicas [r'])) (w\<lparr>w_bus := b\<rparr>))))"

definition pm_set_all :: "policy_status \<Rightarrow> string list \<Rightarrow> world \<Rightarrow> world outcome" where
  "pm_set_all st nms w = forR nms (\<lambda>nm. liftP (set_status nm st)) w"

text \<open>The broadcast of the initial weights to all policy replicas.\<close>

definition pm_first_broadcast :: "string list \<Rightarrow> world \<Rightarrow> world outcome" where
  "pm_first_broadcast valid w =
     (if length valid \<le> 1 then Inr w
      else
        let rs = pick valid (policy_replicas (w_pm w)) in
        case first_loaded (by_start_time rs) of
          None \<Rightarrow> Inl (AssertionError, w)
        | Some src \<Rightarrow>
            let (rs', b) = trigger_p2p_broadcast src rs (Some (total_steps (w_pm w))) (w_bus w)
            in Inr (onP (policy_replicas_update (store_replicas rs')) (w\<lparr>w_bus := b\<rparr>)))"

text \<open>One data-fetch command of the first colocated step.\<close>

definition colocated_fetch :: "string \<Rightarrow> world \<Rightarrow> world outcome" where
  "colocated_fetch nm w =
     (let items = c_train_batch (w_cfg w);
          w = onP (\<lambda>p. p\<lparr>remain_samples_num := remain_samples_num p - items\<rparr>) w
      in case dict_get (policy_replicas (w_pm w)) nm of
           None \<Rightarrow> Inr w
         | Some r \<Rightarrow>
             liftP (set_status nm RUNNING)
               (w\<lparr>w_bus := trigger_data_fetch r items (current_step (w_pm w)) (total_steps (w_pm w))
                     (remain_samples_num (w_pm w)) False (w_bus w)\<rparr>))"

definition colocated_first_step :: "string list \<Rightarrow> world \<Rightarrow> world outcome" where
  "colocated_first_step valid w =
     (let w = onP (\<lambda>p. p\<lparr>current_step := current_step p + 1,
            dispatched_rollouts_by_step := dict_set (current_step p + 1)
              (c_train_batch (w_cfg w) * int (length valid)) (dispatched_rollouts_by_step p)\<rparr>) w
      in bindR (activate_validation_if_due (total_steps (w_pm w)) w) (forR valid colocated_fetch))"

definition pm_initial_mesh :: "string list \<Rightarrow> world \<Rightarrow> world outcome" where
  "pm_initial_mesh valid w =
     bindR (pm_trigger_rebuild_mesh valid (onP (policy_init_done_update (\<lambda>_. True)) w)) (\<lambda>w.
     bindR (pm_first_broadcast valid w) (\<lambda>w.
     bindR (pm_set_all READY valid w) (\<lambda>w.
     if c_mode (w_cfg w) = ''colocated'' then colocated_first_step valid w else Inr w)))"

definition pm_scale_up :: "string list \<Rightarrow> string \<Rightarrow> world \<Rightarrow> world outcome" where
  "pm_scale_up valid target w =
     bindR (py_assert (policy_init_done (w_pm w)) w) (\<lambda>w.
     case dict_get (policy_replicas (w_pm w)) target of
       None \<Rightarrow> Inr w
     | Some t \<Rightarrow>
         bindR (py_assert (mesh_rank (rp_status t) = -1) w) (\<lambda>w.
         case first_loaded (by_start_time (pick valid (policy_replicas (w_pm w)))) of
           None \<Rightarrow> Inl (AssertionError, w)
         | Some src \<Rightarrow>
             bindR (pm_trigger_rebuild_mesh valid w) (\<lambda>w.
             case dict_get (policy_replicas (w_pm w)) target of
               None \<Rightarrow> Inr w
             | Some t \<Rightarrow>
                 let (t', b) = trigger_p2p_unicast src t (Some (total_steps (w_pm w))) (w_bus w)
                 in liftP (set_status target READY)
                      (onP (policy_replicas_update (store_replicas [t'])) (w\<lparr>w_bus := b\<rparr>)))))"

definition pm_post_register_hook :: "string list \<Rightarrow> string \<Rightarrow> world \<Rightarrow> world outcome" where
  "pm_post_register_hook valid target w =
     bindR (if c_val_enable (w_cfg w) \<and> c_val_before_train (w_cfg w)
            then liftD (validation_activate_dataloader 0) w else Inr w) (\<lambda>w.
     if \<not> policy_init_done (w_pm w) \<and> c_policy_n_init (w_cfg w) \<le> int (length valid)
     then pm_initial_mesh valid w
     else if \<not> policy_init_done (w_pm w) \<and> int (length valid) < c_policy_n_init (w_cfg w)
     then Inr w
     else pm_scale_up valid target w)"

definition pm_raise_n_init :: "world \<Rightarrow> world" where
  "pm_raise_n_init w =
     (if \<not> policy_init_done (w_pm w)
         \<and> c_policy_n_init (w_cfg w) < int (length (policy_replicas (w_pm w)))
      then w\<lparr>w_cfg := (w_cfg w)\<lparr>c_policy_n_init := int (length (policy_replicas (w_pm w)))\<rparr>\<rparr>
      else w)"

definition pm_complete :: "rat \<Rightarrow> atom \<Rightarrow> world \<Rightarrow> world outcome" where
  "pm_complete now a w =
     bindR (liftP (set_status (at_replica_name a) UNINITIALIZED)
        (onP (policy_replicas_update (dict_upd (at_replica_name a) (set_start_time now))) w)) (\<lambda>w.
     Inr (onP (\<lambda>p. if policy_atoms_in_replica p = None
                   then p\<lparr>policy_atoms_in_replica := Some (prod_list (at_group_size a))\<rparr> else p) w))"

definition pm_register :: "atom \<Rightarrow> rat \<Rightarrow> world \<Rightarrow> world outcome" where
  "pm_register a now w =
     (case arrive_in POLICY a now (policy_replicas (w_pm w)) of
        Inl (e, d) \<Rightarrow> Inl (e, onP (policy_replicas_update (\<lambda>_. d)) w)
      | Inr d \<Rightarrow>
          let w = pm_raise_n_init (onP (policy_replicas_update (\<lambda>_. d)) w) in
          case dict_get (policy_replicas (w_pm w)) (at_replica_name a) of
            None \<Rightarrow> Inr w
          | Some r \<Rightarrow>
              if \<not> arrived r then Inr w
              else
                bindR (pm_complete now a w) (\<lambda>w.
                let valid = map rp_name (pm_arrived (w_pm w)) in
                bindR (if length valid = 1 then pm_first_replica (at_replica_name a) w else Inr w)
                  (pm_post_register_hook valid (at_replica_name a))))"

section \<open>Samples in flight\<close>

definition total_pending_rollouts :: "config \<Rightarrow> policy_manager \<Rightarrow> int" where
  "total_pending_rollouts c p =
     (if c_dispatch_as_rank_in_mesh c then int (sum_list (map length (rollout_buffer_per_rank p)))
      else int (length (rollout_buffer p)))"

text \<open>\<open>type(value) is int and value >= 0\<close>: a bool is not an int here.\<close>

definition parse_non_negative_count :: "pydict \<Rightarrow> string \<Rightarrow> int" where
  "parse_non_negative_count metrics key =
     (case dict_get metrics key of
        Some (PInt v) \<Rightarrow> if 0 \<le> v then v else 0
      | _ \<Rightarrow> 0)"

record sampling_counts =
  sampled :: int
  filtered_positive :: int
  filtered_negative :: int

definition parse_dynamic_sampling_counts :: "pydict option \<Rightarrow> sampling_counts" where
  "parse_dynamic_sampling_counts metrics =
     (let m = (case metrics of None \<Rightarrow> [] | Some d \<Rightarrow> d) in
      \<lparr>sampled = parse_non_negative_count m ''sampled'',
       filtered_positive = parse_non_negative_count m ''filtered_positive'',
       filtered_negative = parse_non_negative_count m ''filtered_negative''\<rparr>)"

definition settle_samples_on_the_fly :: "int \<Rightarrow> policy_manager \<Rightarrow> policy_manager" where
  "settle_samples_on_the_fly cnt p =
     (if cnt \<le> 0 then p
      else p\<lparr>samples_on_the_fly := max 0 (samples_on_the_fly p - cnt)\<rparr>)"

definition add_filter_record :: "string \<Rightarrow> int \<Rightarrow> policy_manager \<Rightarrow> policy_manager" where
  "add_filter_record k n p =
     p\<lparr>filter_records := dict_set k (dict_get_or (filter_records p) k 0 + n) (filter_records p)\<rparr>"

definition settle_discarded_samples ::
  "string \<Rightarrow> pyval \<Rightarrow> int \<Rightarrow> policy_manager \<Rightarrow> int \<times> policy_manager" where
  "settle_discarded_samples src report_id cnt p =
     (if cnt \<le> 0 then (0, p)
      else case report_id of
        PStr i \<Rightarrow>
          if i = [] then (0, p)
          else
            let applied = dict_get_or (applied_discard_report_ids p) src {};
                p0 = p\<lparr>applied_discard_report_ids := dict_set src applied (applied_discard_report_ids p)\<rparr>
            in if i \<in> applied then (0, p0)
               else (cnt,
                 settle_samples_on_the_fly cnt (add_filter_record ''rollout_failed'' cnt
                   (p\<lparr>applied_discard_report_ids :=
                      dict_set src (insert i applied) (applied_discard_report_ids p)\<rparr>)))
      | _ \<Rightarrow> (0, p))"

definition forget_discard_reports :: "string \<Rightarrow> policy_manager \<Rightarrow> policy_manager" where
  "forget_discard_reports src p =
     p\<lparr>applied_discard_report_ids := dict_pop src (applied_discard_report_ids p)\<rparr>"

definition publish_payload_transport_cleanup :: "rollout list \<Rightarrow> bool list \<Rightarrow> world \<Rightarrow> world" where
  "publish_payload_transport_cleanup rollouts kept w =
     (if handle_discarded (w_reg w) rollouts kept \<noteq> 0 \<and> \<not> nccl_cleanup_enabled (w_pm w)
      then onP (nccl_cleanup_enabled_update (\<lambda>_. True)) w else w)"

definition discard_rollouts :: "rollout list \<Rightarrow> world \<Rightarrow> int \<times> world" where
  "discard_rollouts rs w =
     (if rs = [] then (0, w)
      else (int (length rs),
        onP (settle_samples_on_the_fly (int (length rs)))
          (publish_payload_transport_cleanup rs (replicate (length rs) False) w)))"

definition buffered_rollouts :: "config \<Rightarrow> policy_manager \<Rightarrow> rollout list" where
  "buffered_rollouts c p =
     (if c_dispatch_as_rank_in_mesh c then concat (rollout_buffer_per_rank p) else rollout_buffer p)"

definition empty_buffers :: "config \<Rightarrow> policy_manager \<Rightarrow> policy_manager" where
  "empty_buffers c p =
     (if c_dispatch_as_rank_in_mesh c
      then p\<lparr>rollout_buffer_per_rank := map (\<lambda>_. []) (rollout_buffer_per_rank p)\<rparr>
      else p\<lparr>rollout_buffer := []\<rparr>)"

definition cleanup_buffered_rollouts :: "world \<Rightarrow> int \<times> world" where
  "cleanup_buffered_rollouts w =
     discard_rollouts (buffered_rollouts (w_cfg w) (w_pm w)) (onP (empty_buffers (w_cfg w)) w)"

definition cleanup_terminal_rollouts :: "rollout list \<Rightarrow> pydict option \<Rightarrow> bool \<Rightarrow> world \<Rightarrow> int \<times> world" where
  "cleanup_terminal_rollouts rs metrics is_dapo w =
     (let w = (if rs \<noteq> [] then publish_payload_transport_cleanup rs (replicate (length rs) False) w else w);
          k = parse_dynamic_sampling_counts metrics;
          n = int (length rs) + (if is_dapo then filtered_positive k + filtered_negative k else 0)
      in (n, onP (settle_samples_on_the_fly n) w))"

definition update_dynamic_sampling_statistics :: "pydict \<Rightarrow> policy_manager \<Rightarrow> policy_manager" where
  "update_dynamic_sampling_statistics records p =
     (let k = parse_dynamic_sampling_counts (Some records);
          p = add_filter_record ''filtered_negative'' (filtered_negative k)
                (add_filter_record ''filtered_positive'' (filtered_positive k)
                  (add_filter_record ''sampled'' (sampled k) p));
          n = filtered_positive k + filtered_negative k
      in settle_samples_on_the_fly n (p\<lparr>remain_samples_num := remain_samples_num p - n\<rparr>))"

section \<open>Staleness filter\<close>

definition estimated_step :: "config \<Rightarrow> nat \<Rightarrow> policy_manager \<Rightarrow> int" where
  "estimated_step c idx p = current_step p +
     (int idx + total_pending_rollouts c p) div
       (c_train_batch c * max (int (length (pm_arrived p))) 1)"

text \<open>The loop over the rollouts: which are kept, and their staleness.\<close>

definition judge_rollout ::
  "config \<Rightarrow> nat \<times> rollout \<Rightarrow> bool list \<times> int list \<times> policy_manager
     \<Rightarrow> (py_error \<times> policy_manager) + (bool list \<times> int list \<times> policy_manager)" where
  "judge_rollout c x s =
     (let (idx, r) = x; (msk, stale, p) = s in
      if \<not> ro_weight_version r \<le> current_step p then Inl (AssertionError, p)
      else
        let p = p\<lparr>weight_max_adopted_version := max (weight_max_adopted_version p) (ro_weight_version r)\<rparr> in
        if c_train_batch c = 0 then Inl (ZeroDivisionError, p)
        else
          let st = estimated_step c idx p - ro_weight_version r in
          if st \<le> c_allowed_outdated_steps c then Inr (msk @ [True], stale @ [st], p)
          else Inr (msk @ [False], stale, p))"

definition kept_of :: "rollout list \<Rightarrow> bool list \<Rightarrow> rollout list" where
  "kept_of rs msk = map fst (filter snd (zip rs msk))"

text \<open>
  The latest staleness distribution is kept as the list itself; the source keeps three
  percentiles of it for the report.
\<close>

definition filter_outdated_rollouts :: "rollout list \<Rightarrow> world
    \<Rightarrow> (py_error \<times> world) + (rollout list \<times> world)" where
  "filter_outdated_rollouts rs w =
     (case forR (zip [0..<length rs] rs) (judge_rollout (w_cfg w)) ([], [], w_pm w) of
        Inl (e, p) \<Rightarrow> Inl (e, w\<lparr>w_pm := p\<rparr>)
      | Inr (msk, stale, p) \<Rightarrow>
          let kept = kept_of rs msk;
              n = int (length rs) - int (length kept);
              p = (if stale \<noteq> [] then p\<lparr>weight_accepted_staleness := stale\<rparr> else p);
              p = add_filter_record ''outdated'' n (p\<lparr>remain_samples_num := remain_samples_num p - n\<rparr>);
              w = w\<lparr>w_pm := p\<rparr>
          in Inr (kept,
               if 0 < n then publish_payload_transport_cleanup rs msk
                               (onP (settle_samples_on_the_fly n) w)
               else w))"

definition maybe_arm_transport_cleanup :: "rollout \<Rightarrow> world \<Rightarrow> world" where
  "maybe_arm_transport_cleanup r w =
     (if nccl_cleanup_enabled (w_pm w) then w
      else if active_for_completion (w_reg w) (ro_completion r) = None then w
      else onP (nccl_cleanup_enabled_update (\<lambda>_. True)) w)"

section \<open>Completion\<close>

definition record_completion_ack :: "string \<Rightarrow> int \<Rightarrow> policy_manager \<Rightarrow> bool \<times> policy_manager" where
  "record_completion_ack nm step p =
     (if completion_step p \<noteq> Some step \<or> nm \<notin> completion_recipients p then (False, p)
      else if nm \<in> completion_acks p then (True, p)
      else
        let p = p\<lparr>completion_acks := insert nm (completion_acks p)\<rparr>
        in (True, if completion_acks p = completion_recipients p
                  then p\<lparr>terminal_complete := True\<rparr> else p))"

definition real_terminal_command_acked :: "policy_manager \<Rightarrow> bool" where
  "real_terminal_command_acked p \<longleftrightarrow>
     last_real_acked_step p = Some (training_horizon p)
     \<and> last_real_acked_total_steps p = Some (training_horizon p)"

definition record_real_datafetch_acked :: "int \<Rightarrow> int \<Rightarrow> world \<Rightarrow> world" where
  "record_real_datafetch_acked step ts w =
     (let w = onP (\<lambda>p. p\<lparr>last_real_acked_step := Some step, last_real_acked_total_steps := Some ts\<rparr>) w;
          h = training_horizon (w_pm w)
      in if step \<noteq> h \<or> ts \<noteq> h then w
         else snd (cleanup_buffered_rollouts (onP (terminal_complete_update (\<lambda>_. True)) w)))"

definition trigger_training_complete :: "world \<Rightarrow> world outcome" where
  "trigger_training_complete w =
     (if df_activated_val_iter (w_df w) \<noteq> None then Inr w
      else
        let rs = pm_arrived (w_pm w) in
        if rs = [] then Inr w
        else if completion_step (w_pm w) \<noteq> None then Inr w
        else
          let h = training_horizon (w_pm w);
              k = current_step (w_pm w) + 1;
              w = onP (\<lambda>p. p\<lparr>completion_step := Some k, completion_recipients := set (map rp_name rs),
                            completion_acks := {}\<rparr>) w
          in bindR (pm_set_all RUNNING (map rp_name rs) w) (\<lambda>w.
             let do_save = (0 < h \<and> c_enable_checkpoint (w_cfg w)) in
             Inr (w\<lparr>w_bus := fold (\<lambda>r. trigger_training_complete_cmd r k k
                     (remain_samples_num (w_pm w)) do_save (Some (current_step (w_pm w))) (Some h))
                   rs (w_bus w)\<rparr>)))"

section \<open>Validation reports\<close>

definition expected_validation_rollout_count :: "config \<Rightarrow> data_fetcher \<Rightarrow> int" where
  "expected_validation_rollout_count c d =
     (let n = (if df_val_datasize d \<noteq> 0 then df_val_datasize d
               else case df_val_batches d of None \<Rightarrow> df_val_datasize d
                    | Some bs \<Rightarrow> if bs = [] then df_val_datasize d else int (length bs))
      in n * c_val_n_generation c)"

definition reported_validation_rollout_count :: "int \<Rightarrow> policy_manager \<Rightarrow> int" where
  "reported_validation_rollout_count step p =
     int (sum_list (map length (dict_get_or (val_report_data p) step [])))"

end
