(* ===== verification/Policy_Dispatch.thy ===== *)
theory Policy_Dispatch
  imports Policy_Status
begin

text \<open>
  The training side of \<open>PolicyStatusManager\<close> (cosmos_rl/dispatcher/status.py): admission
  of rollouts into the buffers, the dispatch of a training step, acknowledgements with
  their settlement, reporting and weight synchronisation (coalesced or not), the draining
  phase and its synthetic completion, validation reports and supervised fine-tuning
  acknowledgements.
\<close>

section \<open>Whether and how a step is dispatched\<close>

definition rollouts_enough_for_one_step :: "config \<Rightarrow> policy_manager \<Rightarrow> bool" where
  "rollouts_enough_for_one_step c p \<longleftrightarrow>
     (if c_mode c = ''colocated'' then True
      else if c_dispatch_as_rank_in_mesh c then
        rollout_buffer_per_rank p \<noteq> []
        \<and> list_all (\<lambda>q. c_train_batch c \<le> int (length q)) (rollout_buffer_per_rank p)
      else c_train_batch c * int (length (pm_arrived p)) \<le> total_pending_rollouts c p)"

definition check_checkpoint_saving :: "config \<Rightarrow> int \<Rightarrow> policy_manager \<Rightarrow> py_error + bool" where
  "check_checkpoint_saving c required p =
     bindR (if current_step p = training_horizon p then Inr True
            else if 0 < c_save_freq_in_epoch c then
              if samples_per_epoch p = 0 then Inl ZeroDivisionError
              else
                let old = (remain_samples_num p + required - 1) div samples_per_epoch p;
                    new = (remain_samples_num p - 1) div samples_per_epoch p
                in Inr (if old \<noteq> new then (c_epoch c - old) mod c_save_freq_in_epoch c = 0 else False)
            else if c_save_freq c = 0 then Inl ZeroDivisionError
            else Inr (current_step p mod c_save_freq c = 0 \<and> 0 < current_step p))
       (\<lambda>do_save. Inr (do_save \<and> c_enable_checkpoint c))"

type_synonym dispatch_state = "rollout list \<times> world"

text \<open>One rollout of the shared buffer goes to one replica.\<close>

definition send_head :: "replica \<Rightarrow> dispatch_state \<Rightarrow> (py_error \<times> world) + dispatch_state" where
  "send_head r s =
     (let (acc, w) = s in
      case rollout_buffer (w_pm w) of
        [] \<Rightarrow> Inl (Blocks, w)
      | x # xs \<Rightarrow>
          let w = onP (rollout_buffer_update (\<lambda>_. xs)) w in
          (case replica_put_rollout r x (w_bus w) of
             Inl (e, b) \<Rightarrow> Inl (e, w\<lparr>w_bus := b\<rparr>)
           | Inr b \<Rightarrow> Inr (acc @ [x], w\<lparr>w_bus := b\<rparr>)))"

definition dispatch_interleaved :: "int \<Rightarrow> replica list \<Rightarrow> world \<Rightarrow> (py_error \<times> world) + dispatch_state" where
  "dispatch_interleaved items rs w = forR (concat (replicate (nat items) rs)) send_head ([], w)"

definition sort_queue_by_prompt_idx :: "rollout list \<Rightarrow> rollout list" where
  "sort_queue_by_prompt_idx q = sort_key ro_prompt_idx q"

definition send_rank_head :: "nat \<Rightarrow> replica \<Rightarrow> dispatch_state \<Rightarrow> (py_error \<times> world) + dispatch_state" where
  "send_rank_head i r s =
     (let (acc, w) = s in
      case rollout_buffer_per_rank (w_pm w) ! i of
        [] \<Rightarrow> Inl (Blocks, w)
      | x # xs \<Rightarrow>
          let w = onP (rollout_buffer_per_rank_update (\<lambda>qs. qs[i := xs])) w in
          (case replica_put_rollout r x (w_bus w) of
             Inl (e, b) \<Rightarrow> Inl (e, w\<lparr>w_bus := b\<rparr>)
           | Inr b \<Rightarrow> Inr (acc @ [x], w\<lparr>w_bus := b\<rparr>)))"

definition dispatch_rank :: "int \<Rightarrow> nat \<times> replica \<Rightarrow> dispatch_state \<Rightarrow> (py_error \<times> world) + dispatch_state" where
  "dispatch_rank items ir s =
     (let (i, r) = ir; (acc, w) = s in
      if \<not> i < length (rollout_buffer_per_rank (w_pm w)) then Inl (IndexError, w)
      else forR (replicate (nat items) r) (send_rank_head i)
             (acc, onP (rollout_buffer_per_rank_update
                (\<lambda>qs. qs[i := sort_queue_by_prompt_idx (qs ! i)])) w))"

definition dispatch_mesh :: "int \<Rightarrow> replica list \<Rightarrow> world \<Rightarrow> (py_error \<times> world) + dispatch_state" where
  "dispatch_mesh items rs w =
     forR (zip [0..<length rs] (by_start_time rs)) (dispatch_rank items) ([], w)"

definition send_data_fetch :: "int \<Rightarrow> int \<Rightarrow> bool \<Rightarrow> replica \<Rightarrow> world \<Rightarrow> world outcome" where
  "send_data_fetch items horizon do_save r w =
     liftP (set_status (rp_name r) RUNNING)
       (w\<lparr>w_bus := trigger_data_fetch r items (current_step (w_pm w)) horizon
             (remain_samples_num (w_pm w)) do_save (w_bus w)\<rparr>)"

section \<open>The report of a dispatched step\<close>

text \<open>
  Only the keys of a report matter for control. The mapping from steps to reports keeps
  the twenty most recently assigned steps.
\<close>

definition rolling_set :: "'k \<Rightarrow> 'v \<Rightarrow> ('k, 'v) dict \<Rightarrow> ('k, 'v) dict" where
  "rolling_set k v d = (let d = dict_pop k d @ [(k, v)] in if 20 < length d then tl d else d)"

definition completion_length :: "config \<Rightarrow> tokenizer option \<Rightarrow> rollout \<Rightarrow> py_error + nat" where
  "completion_length c tok r =
     (if c_non_text c then Inr 1
      else if c_rollout_as_token_ids c then
        (case ro_completion_token_ids r of None \<Rightarrow> Inl TypeError | Some ids \<Rightarrow> Inr (length ids))
      else (case tok of None \<Rightarrow> Inl AttributeError | Some t \<Rightarrow> Inr (tk_encode_length t (ro_completion r))))"

definition dispatch_report_keys :: "string set" where
  "dispatch_report_keys = set [''train/reward_mean'', ''train/reward_std'', ''train/reward_max'',
     ''train/reward_min'', ''rollout/completion_length_mean'', ''rollout/completion_length_std'',
     ''rollout/completion_length_max'', ''rollout/completion_length_min'',
     ''rollout/advantage_mean'', ''rollout/advantage_std'', ''rollout/advantage_max'',
     ''rollout/advantage_min'', ''rollout/filter_reward_mean'', ''rollout/filter_reward_std'',
     ''rollout/filter_reward_max'', ''rollout/filter_reward_min'']"

definition metric_keys :: "rollout \<Rightarrow> string set" where
  "metric_keys r = (case ro_report_metrics r of None \<Rightarrow> {}
     | Some d \<Rightarrow> (\<lambda>k. ''train/'' @ k) ` set (dict_keys d))"

text \<open>The maximum of an empty array of per-token advantages raises.\<close>

definition report_dispatched :: "rollout list \<Rightarrow> world \<Rightarrow> world outcome" where
  "report_dispatched rs w =
     (if c_logger (w_cfg w) = [] \<or> rs = [] then Inr w
      else case mapR (completion_length (w_cfg w) (w_tok w)) rs of
        Inl e \<Rightarrow> Inl (e, w)
      | Inr lens \<Rightarrow>
          if sum_list lens = 0 then Inl (ValueError, w)
          else Inr (onP (\<lambda>p. p\<lparr>train_report_keys := rolling_set (current_step p)
                 (dispatch_report_keys \<union> \<Union> (set (map metric_keys rs))) (train_report_keys p)\<rparr>) w))"

section \<open>Dispatch of a training step\<close>

definition dispatch_rollouts :: "int \<Rightarrow> replica list \<Rightarrow> world \<Rightarrow> (py_error \<times> world) + dispatch_state" where
  "dispatch_rollouts items rs w =
     (if c_mode (w_cfg w) = ''colocated'' then Inr ([], w)
      else if c_dispatch_as_rank_in_mesh (w_cfg w) then dispatch_mesh items rs w
      else dispatch_interleaved items rs w)"

definition open_step :: "int \<Rightarrow> policy_manager \<Rightarrow> policy_manager" where
  "open_step required p = p\<lparr>
     remain_samples_num := remain_samples_num p - required,
     current_step := current_step p + 1,
     dispatched_rollouts_by_step :=
       dict_set (current_step p + 1) required (dispatched_rollouts_by_step p)\<rparr>"

definition dispatch_step :: "world \<Rightarrow> world outcome" where
  "dispatch_step w =
     (let rs = pm_arrived (w_pm w);
          items = c_train_batch (w_cfg w);
          required = items * int (length rs);
          horizon = training_horizon (w_pm w)
      in bindR (activate_validation_if_due horizon (onP (open_step required) w)) (\<lambda>w.
         bindR (dispatch_rollouts items rs w) (\<lambda>(ros, w).
         case check_checkpoint_saving (w_cfg w) required (w_pm w) of
           Inl e \<Rightarrow> Inl (e, w)
         | Inr do_save \<Rightarrow>
             bindR (forR rs (send_data_fetch items horizon do_save) w) (report_dispatched ros))))"

definition try_trigger_data_fetch_and_training :: "world \<Rightarrow> world outcome" where
  "try_trigger_data_fetch_and_training w =
     (if df_activated_val_iter (w_df w) \<noteq> None then Inr w
      else if pm_arrived (w_pm w) = [] then Inr w
      else if training_finished (w_pm w) then Inr w
      else if all_ready_or_reduced (w_pm w) \<and> rollouts_enough_for_one_step (w_cfg w) (w_pm w)
      then dispatch_step w
      else Inr w)"

section \<open>Admission of rollouts\<close>

definition ends_with :: "string \<Rightarrow> string \<Rightarrow> bool" where
  "ends_with s t \<longleftrightarrow> length t \<le> length s \<and> drop (length s - length t) s = t"

definition extend_last :: "string \<Rightarrow> conversation \<Rightarrow> conversation" where
  "extend_last eos conv =
     butlast conv @ [(last conv)\<lparr>msg_content := content_append (msg_content (last conv)) eos\<rparr>]"

text \<open>The end-of-sequence token is appended to a completion that lacks it.\<close>

definition append_eos :: "config \<Rightarrow> tokenizer option \<Rightarrow> rollout \<Rightarrow> py_error + rollout" where
  "append_eos c tok r =
     (if \<not> c_include_stop_str c then Inr r
      else case tok of None \<Rightarrow> Inl AttributeError | Some t \<Rightarrow>
      case tk_eos t of None \<Rightarrow> Inr r | Some eos \<Rightarrow>
      case ro_completion r of
        PNone \<Rightarrow> Inr r
      | PStr s \<Rightarrow>
          if ends_with s eos then Inr r
          else
            let r = r\<lparr>ro_completion := PStr (s @ eos)\<rparr> in
            if \<not> c_multi_turn c then Inr r
            else (case ro_completed_conversation r of
                    None \<Rightarrow> Inl TypeError
                  | Some conv \<Rightarrow>
                      if conv = [] then Inl IndexError
                      else if msg_role (last conv) = ''assistant''
                      then Inr (r\<lparr>ro_completed_conversation := Some (extend_last eos conv)\<rparr>)
                      else Inr r)
      | _ \<Rightarrow> Inl AttributeError)"

definition buffer_rollout :: "config \<Rightarrow> rollout \<Rightarrow> policy_manager \<Rightarrow> policy_manager outcome" where
  "buffer_rollout c r p =
     (if c_dispatch_as_rank_in_mesh c then
        let n = length (rollout_buffer_per_rank p) in
        if n = 0 then Inl (ZeroDivisionError, p)
        else Inr (p\<lparr>rollout_buffer_per_rank :=
               enqueue_at (nat (ro_prompt_idx r mod int n)) r (rollout_buffer_per_rank p)\<rparr>)
      else Inr (p\<lparr>rollout_buffer := rollout_buffer p @ [r]\<rparr>))"

definition put_rollout :: "rollout \<Rightarrow> world \<Rightarrow> world outcome" where
  "put_rollout r w =
     (case append_eos (w_cfg w) (w_tok w) r of
        Inl e \<Rightarrow> Inl (e, w)
      | Inr r \<Rightarrow> bindR (liftP (buffer_rollout (w_cfg w) r) w) try_trigger_data_fetch_and_training)"

text \<open>The tokens of one rollout, counted before it is admitted.\<close>

definition completion_tokens :: "config \<Rightarrow> tokenizer option \<Rightarrow> rollout \<Rightarrow> py_error + nat" where
  "completion_tokens c tok r =
     (if c_rollout_as_token_ids c then
        (case ro_completion_token_ids r of None \<Rightarrow> Inl TypeError | Some ids \<Rightarrow> Inr (length ids))
      else if \<not> c_non_text c then
        (case tok of None \<Rightarrow> Inl AttributeError | Some t \<Rightarrow> Inr (tk_encode_length t (ro_completion r)))
      else Inr 0)"

definition note_on_policy_completed :: "world \<Rightarrow> world" where
  "note_on_policy_completed w =
     (if c_on_policy (w_cfg w) \<and> total_pending_rollouts (w_cfg w) (w_pm w) = 0
      then onP (on_policy_rollout_completed_update (\<lambda>_. True)) w else w)"

definition admit_rollout :: "rollout \<Rightarrow> nat \<times> nat \<times> world \<Rightarrow> (py_error \<times> world) + (nat \<times> nat \<times> world)" where
  "admit_rollout r s =
     (let (tokens, n, w) = s in
      case completion_tokens (w_cfg w) (w_tok w) r of
        Inl e \<Rightarrow> Inl (e, w)
      | Inr k \<Rightarrow>
          bindR (put_rollout r (maybe_arm_transport_cleanup r w)) (\<lambda>w.
          Inr (tokens + k, Suc n, note_on_policy_completed w)))"

definition put_rollouts :: "rollout list \<Rightarrow> world \<Rightarrow> (py_error \<times> world) + (nat \<times> nat \<times> world)" where
  "put_rollouts rs w = forR rs admit_rollout (0, 0, w)"

section \<open>Draining\<close>

definition finish_tail :: "world \<Rightarrow> world outcome" where
  "finish_tail w =
     (let w = snd (cleanup_buffered_rollouts w) in
      if real_terminal_command_acked (w_pm w)
      then Inr (onP (terminal_complete_update (\<lambda>_. True)) w)
      else trigger_training_complete w)"

definition finish_draining_phase :: "world \<Rightarrow> world outcome" where
  "finish_draining_phase w =
     (if \<not> all_rollouts_ended (w_rm w) then Inr w
      else
        let w = onP enter_draining_phase w in
        if rollout_admission_closed (w_pm w) then Inr (snd (cleanup_buffered_rollouts w))
        else if \<not> all_ready_or_reduced (w_pm w) then Inr w
        else if current_step (w_pm w) < training_horizon (w_pm w)
                \<and> rollouts_enough_for_one_step (w_cfg w) (w_pm w)
        then bindR (try_trigger_data_fetch_and_training w) (\<lambda>w'.
               if current_step (w_pm w) < current_step (w_pm w') then Inr w' else finish_tail w')
        else finish_tail w)"

definition on_rollout_is_end :: "world \<Rightarrow> world outcome" where
  "on_rollout_is_end w =
     (if c_val_enable (w_cfg w) then Inr w
      else if \<not> all_rollouts_ended (w_rm w) then Inr w
      else finish_draining_phase w)"

section \<open>Weight synchronisation\<close>

definition weight_sync_rollout_targets :: "world \<Rightarrow> replica list" where
  "weight_sync_rollout_targets w = get_safe_weight_sync_replicas (c_val_enable (w_cfg w)) (w_rm w)"

definition should_weight_sync_after_train_ack :: "int \<Rightarrow> world \<Rightarrow> py_error + bool" where
  "should_weight_sync_after_train_ack step w =
     (if job_phase (w_pm w) = DRAINING then Inr False
      else
        let c = w_cfg w; ts = total_steps (w_pm w) in
        bindR (need_weight_sync step ts (c_sync_weight_interval c) (c_val_enable c)
                 (if c_val_enable c then Some (c_val_freq c) else None)) (\<lambda>need.
        if all_rollouts_ended (w_rm w) \<and> \<not> (c_val_enable c \<and> need \<and> step = ts) then Inr False
        else if need \<and> weight_sync_rollout_targets w = [] then Inr False
        else Inr need))"

definition weight_sync_forced :: "config \<Rightarrow> int \<Rightarrow> int \<Rightarrow> bool" where
  "weight_sync_forced c step ts \<longleftrightarrow>
     c_val_enable c \<and> ((c_val_freq c \<noteq> 0 \<and> step mod c_val_freq c = 0) \<or> step = ts)"

definition trigger_weight_sync :: "replica option \<Rightarrow> int \<Rightarrow> int \<Rightarrow> world \<Rightarrow> world outcome" where
  "trigger_weight_sync src step ts w =
     (case weight_sync_rollout_targets w of
        [] \<Rightarrow> Inr w
      | dst # rest \<Rightarrow>
          (case src of
             None \<Rightarrow> Inl (AttributeError, w)
           | Some s \<Rightarrow>
               bindR (send_p2r s dst (Some step) (Some ts) w) (\<lambda>w.
               let rs = pick (map rp_name (dst # rest)) (rollout_replicas (w_rm w)) in
               Inr (onP (weight_last_staged_step_update (\<lambda>_. step))
                 (send_r2r (hd rs) rs (Some step) (Some ts) w)))))"

definition coalesce_enabled :: "config \<Rightarrow> bool" where
  "coalesce_enabled c \<longleftrightarrow> c_coalesce_weight_sync c \<and> 0 < c_allowed_outdated_steps c \<and> \<not> c_on_policy c"

definition sync_weights :: "int \<Rightarrow> replica option \<Rightarrow> world \<Rightarrow> world outcome" where
  "sync_weights step src w =
     (if should_coalesce_skip (coalesce_enabled (w_cfg w))
           (weight_sync_forced (w_cfg w) step (total_steps (w_pm w)))
           (weight_last_staged_step (w_pm w)) (weight_max_adopted_version (w_pm w))
      then Inr (onP (\<lambda>p. p\<lparr>weight_coalesced_skips := weight_coalesced_skips p + 1\<rparr>) w)
      else trigger_weight_sync src step (total_steps (w_pm w)) w)"

section \<open>Acknowledgements\<close>

definition sft_report_summary :: "world \<Rightarrow> world outcome" where
  "sft_report_summary w =
     pm_set_all RUNNING (map rp_name (pm_arrived (w_pm w))) (onP (report_data_list_update (\<lambda>_. [])) w)"

definition sft_train_ack :: "string \<Rightarrow> pydict \<Rightarrow> world \<Rightarrow> world outcome" where
  "sft_train_ack nm report w =
     (if dict_has report ''val/avg_loss'' then
        bindR (liftP (set_status nm VALIDATED) w) (\<lambda>w.
        if all_with_status [VALIDATED] (w_pm w) then sft_report_summary w else Inr w)
      else
        bindR (if any_with_status [REDUCED] (w_pm w) then Inr w
               else
                 let w = onP (\<lambda>p. p\<lparr>current_step := current_step p + 1\<rparr>) w
                 in activate_validation_if_due (total_steps (w_pm w)) w) (\<lambda>w.
        bindR (liftP (set_status nm REDUCED) w) (\<lambda>w.
        if all_reduced (w_pm w) then
          sft_report_summary (onP (\<lambda>p. p\<lparr>remain_samples_num := remain_samples_num p
            - c_train_batch (w_cfg w) * int (length (pm_arrived p))\<rparr>) w)
        else Inr w)))"

text \<open>Settlement of the rollouts recorded for the acknowledged command.\<close>

definition settle_train_ack :: "int \<Rightarrow> int \<Rightarrow> world \<Rightarrow> world outcome" where
  "settle_train_ack step ts w =
     (let rec = dict_get (dispatched_rollouts_by_step (w_pm w)) step;
          dec = (case rec of None \<Rightarrow> 0 | Some n \<Rightarrow> n);
          w = onP (\<lambda>p. p\<lparr>dispatched_rollouts_by_step := dict_pop step (dispatched_rollouts_by_step p),
                        samples_on_the_fly := samples_on_the_fly p - dec\<rparr>) w
      in bindR (py_assert (0 \<le> samples_on_the_fly (w_pm w)) w) (\<lambda>w.
         if c_mode (w_cfg w) \<noteq> ''colocated'' \<and> \<not> c_val_enable (w_cfg w) \<and> rec \<noteq> None \<and> 0 < dec
         then Inr (record_real_datafetch_acked step ts w)
         else Inr w))"

definition end_profile :: "string \<Rightarrow> world \<Rightarrow> world" where
  "end_profile nm w = onP (policy_replicas_update (dict_upd nm (\<lambda>r.
     r\<lparr>sub_profiler_cfg := (sub_profiler_cfg r)\<lparr>do_profile := False\<rparr>\<rparr>))) w"

text \<open>
  The report over all replicas. Exceptions are caught; what they skip is the rest of the
  block. Metric values are taken to be numbers and the logging back ends not to raise, so
  the exceptions left are missing keys.
\<close>

definition ack_report_keys :: "string set" where
  "ack_report_keys = set [''train/loss_avg'', ''train/loss_max'', ''train/learning_rate'',
     ''train/iteration_time'', ''train/kl_loss_avg'', ''train/kl_loss_max'', ''train/grad_norm'',
     ''train/entropy'', ''train/effective_entropy'', ''train/total_steps'',
     ''rollout/weight_coalesced_skips'']"

definition console_keys :: "string set" where
  "console_keys = set [''train/reward_mean'', ''train/reward_std'', ''train/reward_max'',
     ''train/reward_min'', ''rollout/completion_length_mean'', ''rollout/completion_length_max'']"

definition report_complete :: "pydict list \<Rightarrow> bool" where
  "report_complete ds \<longleftrightarrow>
     list_all (\<lambda>d. dict_has d ''train/loss_avg'' \<and> dict_has d ''train/loss_max''
                  \<and> dict_has d ''train/iteration_time'') ds
     \<and> dict_has (hd ds) ''train/learning_rate''"

definition extra_report_keys :: "policy_manager \<Rightarrow> string set" where
  "extra_report_keys p =
     (if 0 < sum_list (dict_values (filter_records p))
      then (\<lambda>k. ''rollout/'' @ k @ ''_ratio'') ` set (dict_keys (filter_records p)) else {})
     \<union> (if weight_accepted_staleness p = [] then {}
        else set [''rollout/weight_staleness_p50'', ''rollout/weight_staleness_p99'',
          ''rollout/weight_staleness_max''])"

definition report_acked :: "world \<Rightarrow> world" where
  "report_acked w =
     (let ds = report_data_list (w_pm w) in
      if c_logger (w_cfg w) = [] \<or> list_all (\<lambda>d. d = []) ds then w
      else if \<not> report_complete ds then w
      else case dict_get (hd ds) ''train_step'' of
        Some (PInt k) \<Rightarrow>
          let w = (if c_mode (w_cfg w) = ''colocated''
                   then onP (fold update_dynamic_sampling_statistics ds) w else w);
              keys = dict_get_or (train_report_keys (w_pm w)) k {} \<union> ack_report_keys
                       \<union> \<Union> (set (map (\<lambda>d. set (dict_keys d)) ds)) \<union> extra_report_keys (w_pm w);
              w = onP (\<lambda>p. p\<lparr>train_report_keys :=
                      (if dict_has (train_report_keys p) k then dict_set k keys (train_report_keys p)
                       else rolling_set k keys (train_report_keys p)),
                    report_data_list := []\<rparr>) w
          in if ''console'' \<in> set (c_logger (w_cfg w)) \<and> \<not> console_keys \<subseteq> keys then w
             else onP (filter_records_update (\<lambda>_. [])) w
      | _ \<Rightarrow> w)"

definition next_after_ack :: "world \<Rightarrow> world outcome" where
  "next_after_ack w =
     bindR (if job_phase (w_pm w) = DRAINING then finish_draining_phase w
            else try_trigger_data_fetch_and_training w) (\<lambda>w.
     Inr (if c_on_policy (w_cfg w) then onP (on_policy_rollout_completed_update (\<lambda>_. False)) w else w))"

text \<open>What happens once every policy replica has acknowledged the step.\<close>

definition all_acked :: "string \<Rightarrow> int \<Rightarrow> int \<Rightarrow> bool \<Rightarrow> world \<Rightarrow> world outcome" where
  "all_acked nm step ts profile_finished w =
     bindR (settle_train_ack step ts w) (\<lambda>w.
     case should_weight_sync_after_train_ack step w of
       Inl e \<Rightarrow> Inl (e, w)
     | Inr need \<Rightarrow>
         let w = report_acked (if profile_finished then end_profile nm w else w);
             srt = by_start_time (pm_arrived (w_pm w))
         in bindR (pm_set_all READY (map rp_name srt) w) (\<lambda>w.
            bindR (if need then sync_weights step (case srt of [] \<Rightarrow> None | r # _ \<Rightarrow> Some r) w
                   else Inr w) next_after_ack))"

definition train_ack :: "string \<Rightarrow> int \<Rightarrow> int \<Rightarrow> bool \<Rightarrow> pydict \<Rightarrow> world \<Rightarrow> world outcome" where
  "train_ack nm step ts profile_finished report w =
     (if \<not> pm_contains nm (w_pm w) then Inl (GenericException, w)
      else
        let (acked, p) = record_completion_ack nm step (w_pm w); w = w\<lparr>w_pm := p\<rparr> in
        if acked then liftP (set_status nm REDUCED) w
        else
          let w = onP (\<lambda>p. p\<lparr>report_data_list := report_data_list p @ [report]\<rparr>) w in
          if c_type (w_cfg w) = ''sft'' then sft_train_ack nm report w
          else
            bindR (liftP (set_status nm REDUCED) w) (\<lambda>w.
            if all_reduced (w_pm w) then all_acked nm step ts profile_finished w else Inr w))"

section \<open>Validation results\<close>

definition validation_report_validation_results :: "int \<Rightarrow> rollout list list \<Rightarrow> world \<Rightarrow> world outcome" where
  "validation_report_validation_results step results w =
     (let w = onP (\<lambda>p. p\<lparr>val_report_data := dict_set step
                    (dict_get_or (val_report_data p) step [] @ results) (val_report_data p)\<rparr>) w;
          n = reported_validation_rollout_count step (w_pm w);
          finished = (n = expected_validation_rollout_count (w_cfg w) (w_df w))
      in bindR (if df_activated_val_tqdm (w_df w) then py_nonzero (c_val_n_generation (w_cfg w)) w
                else Inr w) (\<lambda>w.
         if finished \<and> df_activated_val_iter (w_df w) \<noteq> None
         then try_trigger_data_fetch_and_training (w\<lparr>w_df := clear_validation_status (w_df w)\<rparr>)
         else Inr w))"

end
