(* ===== verification/Policy_Invariants.thy ===== *)
theory Policy_Invariants
  imports Policy_Dispatch
begin

text \<open>
  The invariant of the two managers and that every operation of the policy manager keeps
  it, also when it raises: the replica and status tables agree, the draining phase and
  its frozen horizon go together, completion acknowledgements come from recipients, and
  the record of dispatched steps lies in the past.
\<close>

section \<open>The invariant\<close>

definition table_inv :: "policy_manager \<Rightarrow> bool" where
  "table_inv p \<longleftrightarrow> reps_ok POLICY (policy_replicas p) \<and> wf_dict (status p)
     \<and> set (dict_keys (status p)) \<subseteq> set (dict_keys (policy_replicas p))
     \<and> set (map rp_name (pm_arrived p)) \<subseteq> set (dict_keys (status p))"

definition phase_inv :: "policy_manager \<Rightarrow> bool" where
  "phase_inv p \<longleftrightarrow> (draining_total_steps p \<noteq> None \<longleftrightarrow> job_phase p = DRAINING)"

definition completion_inv :: "policy_manager \<Rightarrow> bool" where
  "completion_inv p \<longleftrightarrow> completion_acks p \<subseteq> completion_recipients p
     \<and> (completion_step p = None \<longrightarrow> completion_recipients p = {})
     \<and> (completion_step p \<noteq> None \<longrightarrow> completion_recipients p \<noteq> {})
     \<and> (completion_step p \<noteq> None \<and> completion_acks p = completion_recipients p \<longrightarrow> terminal_complete p)"

definition ledger_inv :: "policy_manager \<Rightarrow> bool" where
  "ledger_inv p \<longleftrightarrow> wf_dict (dispatched_rollouts_by_step p)
     \<and> list_all (\<lambda>(k, v). k \<le> current_step p \<and> 0 \<le> v) (dispatched_rollouts_by_step p)"

definition pinv :: "policy_manager \<Rightarrow> bool" where
  "pinv p \<longleftrightarrow> table_inv p \<and> phase_inv p \<and> completion_inv p \<and> ledger_inv p"

definition winv :: "world \<Rightarrow> bool" where
  "winv w \<longleftrightarrow> 0 < c_train_batch (w_cfg w) \<and> rm_inv (w_rm w) \<and> pinv (w_pm w)"

lemmas inv_defs = table_inv_def phase_inv_def completion_inv_def ledger_inv_def

lemma pinv_init: "pinv (init_policy_manager remain per_epoch step)"
  by (simp add: pinv_def inv_defs init_policy_manager_def pm_arrived_def arrived_values_def
      dict_keys_def)

lemma onP_simps [simp]:
  "w_pm (onP f w) = f (w_pm w)" "w_cfg (onP f w) = w_cfg w" "w_rm (onP f w) = w_rm w"
  "w_df (onP f w) = w_df w" "w_bus (onP f w) = w_bus w" "w_reg (onP f w) = w_reg w"
  "w_tok (onP f w) = w_tok w"
  by (simp_all add: onP_def)

lemma winv_onP: "winv w \<Longrightarrow> pinv (f (w_pm w)) \<Longrightarrow> winv (onP f w)"
  by (simp add: winv_def)

lemma winv_frame [simp]:
  "winv (w\<lparr>w_bus := b\<rparr>) = winv w" "winv (w\<lparr>w_df := d\<rparr>) = winv w"
  by (simp_all add: winv_def)

lemma keeps_liftP: "winv w \<Longrightarrow> keeps pinv (f (w_pm w)) \<Longrightarrow> keeps winv (liftP f w)"
  by (auto simp: liftP_def winv_def keeps_def split: sum.splits)

lemma keeps_liftD: "winv w \<Longrightarrow> keeps winv (liftD f w)"
  by (auto simp: liftD_def keeps_def split: sum.splits)

section \<open>Mutations of replicas\<close>

lemma pick_values: "set (pick ns d) \<subseteq> set (dict_values d)"
  by (induction ns) (auto split: option.splits dest: dict_get_in_values)

lemma store_map_same_cores:
  assumes "reps_ok rl d" and "set rs \<subseteq> set (dict_values d)" and "\<And>r. core (f r) = core r"
  shows "same_cores d (store_replicas (map f rs) d)"
proof (rule same_cores_store)
  show "wf_dict d" using assms(1) by (rule reps_ok_wf_dict)
  have "dict_get d (rp_name r) = Some r" if "r \<in> set rs" for r
    using reps_ok_name_value [OF assms(1)] assms(2) that by auto
  then show "\<forall>r' \<in> set (map f rs). \<exists>r. dict_get d (rp_name r') = Some r \<and> core r' = core r"
    using core_fields(1) [OF assms(3)] assms(3) by auto
qed

lemma table_inv_cores:
  assumes "table_inv p" and "same_cores (policy_replicas p) d"
  shows "table_inv (p\<lparr>policy_replicas := d\<rparr>)"
proof -
  have "set (map rp_name (arrived_values d)) \<subseteq> set (dict_keys (status p))"
    using assms(1) arrived_names_same_cores [OF assms(2)]
    by (simp only: table_inv_def pm_arrived_def)
  then show ?thesis
    using assms(1) by (simp add: table_inv_def pm_arrived_def reps_ok_same_cores [OF assms(2)]
        same_cores_keys [OF assms(2)])
qed

lemma pinv_cores:
  assumes "pinv p" and "same_cores (policy_replicas p) d"
  shows "pinv (p\<lparr>policy_replicas := d\<rparr>)"
  using assms(1) table_inv_cores [OF _ assms(2)]
  by (simp add: pinv_def phase_inv_def completion_inv_def ledger_inv_def)

lemma replicas_update: "policy_replicas_update f p = p\<lparr>policy_replicas := f (policy_replicas p)\<rparr>"
  by (cases p) simp

lemma pinv_store_map:
  assumes "pinv p" and "set rs \<subseteq> set (dict_values (policy_replicas p))" and "\<And>r. core (f r) = core r"
  shows "pinv (policy_replicas_update (store_replicas (map f rs)) p)"
proof -
  have ok: "reps_ok POLICY (policy_replicas p)"
    using assms(1) by (simp add: pinv_def table_inv_def)
  show ?thesis
    by (subst replicas_update, rule pinv_cores [OF assms(1) store_map_same_cores [OF ok assms(2,3)]])
qed

lemma winv_store_map:
  assumes "winv w" and "set rs \<subseteq> set (dict_values (policy_replicas (w_pm w)))"
    and "\<And>r. core (f r) = core r"
  shows "winv (onP (policy_replicas_update (store_replicas (map f rs))) w)"
  using assms by (intro winv_onP pinv_store_map) (auto simp: winv_def)

lemma winv_reps: "winv w \<Longrightarrow> reps_ok POLICY (policy_replicas (w_pm w))"
  "winv w \<Longrightarrow> reps_ok ROLLOUT (rollout_replicas (w_rm w))"
  by (simp_all add: winv_def pinv_def table_inv_def rm_inv_def)

lemma winv_send_p2r:
  assumes "winv w" and "dst \<in> set (dict_values (rollout_replicas (w_rm w)))"
  shows "keeps winv (send_p2r src dst ws ts w)"
proof -
  have get: "dict_get (rollout_replicas (w_rm w)) (rp_name dst) = Some dst"
    using reps_ok_name_value [OF winv_reps(2) [OF assms(1)] assms(2)] .
  have "rm_inv (w_rm (after (send_p2r src dst ws ts w)))"
    using assms(1) by (intro rm_inv_same_cores [OF send_p2r_cores [OF winv_reps(2) [OF assms(1)] get]])
      (simp add: winv_def)
  moreover have "w_cfg (after (send_p2r src dst ws ts w)) = w_cfg w"
    "w_pm (after (send_p2r src dst ws ts w)) = w_pm w"
    by (simp_all add: send_p2r_def Let_def split: option.splits prod.splits)
  ultimately show ?thesis
    using assms(1) by (simp add: keeps_def winv_def)
qed

lemma winv_send_r2r:
  assumes "winv w" and "set dsts \<subseteq> set (dict_values (rollout_replicas (w_rm w)))"
  shows "winv (send_r2r src dsts ws ts w)"
proof -
  have "rm_inv (w_rm (send_r2r src dsts ws ts w))"
    using assms(1) by (intro rm_inv_same_cores [OF send_r2r_cores [OF winv_reps(2) [OF assms(1)] assms(2)]])
      (simp add: winv_def)
  moreover have "w_cfg (send_r2r src dsts ws ts w) = w_cfg w" "w_pm (send_r2r src dsts ws ts w) = w_pm w"
    by (simp_all add: send_r2r_def Let_def split: prod.splits)
  ultimately show ?thesis
    using assms(1) by (simp add: winv_def)
qed

section \<open>Status, phase and accounting\<close>

lemma set_status_pinv:
  assumes "pinv p" and "st = UNINITIALIZED \<Longrightarrow> dict_has (policy_replicas p) nm"
  shows "keeps pinv (set_status nm st p)"
proof (cases "st = UNINITIALIZED")
  case True
  then have "dict_has (policy_replicas p) nm" using assms(2) by simp
  with assms(1) True show ?thesis
    by (auto simp: set_status_def pinv_def inv_defs pm_arrived_def dict_keys_set dict_get_None_keys
        py_assert_def)
next
  case False
  with assms(1) show ?thesis
    by (auto simp: set_status_def pinv_def inv_defs pm_arrived_def dict_keys_set py_assert_def)
qed

lemma pm_set_all_winv:
  assumes "winv w" and "st \<noteq> UNINITIALIZED"
  shows "keeps winv (pm_set_all st nms w)"
  unfolding pm_set_all_def
  using assms by (intro keeps_forR keeps_liftP set_status_pinv) (auto simp: winv_def)

lemma pinv_fields:
  assumes "pinv p" and "policy_replicas p' = policy_replicas p" and "status p' = status p"
    and "draining_total_steps p' = draining_total_steps p" and "job_phase p' = job_phase p"
    and "completion_acks p' = completion_acks p" and "completion_recipients p' = completion_recipients p"
    and "completion_step p' = completion_step p" and "terminal_complete p \<longrightarrow> terminal_complete p'"
    and "dispatched_rollouts_by_step p' = dispatched_rollouts_by_step p"
    and "current_step p \<le> current_step p'"
  shows "pinv p'"
proof -
  have "ledger_inv p'"
    using assms(1,10,11) by (auto simp: pinv_def ledger_inv_def list_all_iff)
  then show ?thesis
    using assms by (simp add: pinv_def table_inv_def phase_inv_def completion_inv_def pm_arrived_def)
qed

lemma recompute_pinv: "pinv p \<Longrightarrow> keeps pinv (recompute_total_steps c explicit p)"
  by (auto simp: recompute_total_steps_def Let_def py_nonzero_def intro: pinv_fields)

lemma settle_pinv: "pinv p \<Longrightarrow> pinv (settle_samples_on_the_fly n p)"
  by (auto simp: settle_samples_on_the_fly_def intro: pinv_fields)

lemma add_filter_record_pinv: "pinv p \<Longrightarrow> pinv (add_filter_record k n p)"
  by (auto simp: add_filter_record_def intro: pinv_fields)

lemma settle_discarded_pinv: "pinv p \<Longrightarrow> pinv (snd (settle_discarded_samples src rid n p))"
  by (auto simp: settle_discarded_samples_def Let_def split: pyval.splits
      intro!: settle_pinv add_filter_record_pinv intro: pinv_fields)

lemma forget_pinv: "pinv p \<Longrightarrow> pinv (forget_discard_reports src p)"
  by (auto simp: forget_discard_reports_def intro: pinv_fields)

lemma update_dynamic_pinv: "pinv p \<Longrightarrow> pinv (update_dynamic_sampling_statistics d p)"
proof -
  assume p: "pinv p"
  have "pinv (q\<lparr>remain_samples_num := n\<rparr>)" if "pinv q" for q n
    using that by (auto intro: pinv_fields)
  then show ?thesis
    unfolding update_dynamic_sampling_statistics_def Let_def
    using p by (intro settle_pinv) (simp add: add_filter_record_pinv)
qed

lemma cleanup_publish_winv: "winv w \<Longrightarrow> winv (publish_payload_transport_cleanup rs m w)"
  by (auto simp: publish_payload_transport_cleanup_def winv_def intro!: winv_onP intro: pinv_fields)

lemma discard_winv: "winv w \<Longrightarrow> winv (snd (discard_rollouts rs w))"
  by (auto simp: discard_rollouts_def intro!: winv_onP settle_pinv cleanup_publish_winv)
    (auto simp: winv_def publish_payload_transport_cleanup_def intro: pinv_fields)

lemma empty_buffers_pinv: "pinv p \<Longrightarrow> pinv (empty_buffers c p)"
  by (auto simp: empty_buffers_def intro: pinv_fields)

lemma cleanup_buffered_winv: "winv w \<Longrightarrow> winv (snd (cleanup_buffered_rollouts w))"
  unfolding cleanup_buffered_rollouts_def
  by (intro discard_winv winv_onP empty_buffers_pinv) (auto simp: winv_def)

section \<open>Mesh rebuilds and departures\<close>

lemma rearrange_pinv: "pinv p \<Longrightarrow> keeps pinv (rearrange_rollout_buffer c n p)"
  by (auto simp: rearrange_rollout_buffer_def intro: pinv_fields)

lemma pm_rebuild_winv:
  assumes "winv w"
  shows "keeps winv (pm_trigger_rebuild_mesh valid w)"
proof -
  let ?rs = "by_start_time (pick valid (policy_replicas (w_pm w)))"
  have "same_cores (policy_replicas (w_pm w)) (store_replicas (ranked ?rs) (policy_replicas (w_pm w)))"
    using pick_values [of valid] by (intro ranked_same_cores [OF winv_reps(1) [OF assms]]) auto
  then have "pinv (policy_replicas_update (store_replicas (ranked ?rs)) (w_pm w))"
    using assms by (subst replicas_update, intro pinv_cores) (auto simp: winv_def)
  then have stored: "winv (onP (policy_replicas_update (store_replicas (ranked ?rs))) (w\<lparr>w_bus := b\<rparr>))" for b
    using assms by (intro winv_onP) auto
  show ?thesis
    unfolding pm_trigger_rebuild_mesh_def Let_def build_mesh_ranked
    using assms stored
    by (auto intro!: keeps_bindR keeps_liftP recompute_pinv rearrange_pinv simp: winv_def)
qed

lemma unregister_table:
  assumes "table_inv p" and "dict_has (status p) nm"
  shows "table_inv (p\<lparr>policy_replicas := dict_pop nm (policy_replicas p),
    status := dict_pop nm (status p), p_scaling_log := l\<rparr>)"
proof -
  have "rp_name r \<noteq> nm \<and> r \<in> set (pm_arrived p)"
    if "r \<in> set (arrived_values (dict_pop nm (policy_replicas p)))" for r
    using that assms(1) by (auto simp: arrived_values_def dict_values_def dict_pop_def pm_arrived_def
        table_inv_def reps_ok_def list_all_iff)
  then show ?thesis
    using assms(1) reps_ok_pop [of POLICY "policy_replicas p" nm]
    by (auto simp: table_inv_def pm_arrived_def dict_keys_pop)
qed

lemma partial_unregister_table:
  assumes "table_inv p" and "\<not> dict_has (status p) nm"
  shows "table_inv (policy_replicas_update (dict_pop nm) p)"
proof -
  have "r \<in> set (pm_arrived p)" if "r \<in> set (arrived_values (dict_pop nm (policy_replicas p)))" for r
    using that by (auto simp: arrived_values_def dict_values_def dict_pop_def pm_arrived_def)
  then have "table_inv (p\<lparr>policy_replicas := dict_pop nm (policy_replicas p)\<rparr>)"
    using assms reps_ok_pop [of POLICY "policy_replicas p" nm]
    by (auto simp: table_inv_def pm_arrived_def dict_keys_pop dict_get_None_keys)
  then show ?thesis by (subst replicas_update)
qed

lemma pm_unregister_winv:
  assumes "winv w"
  shows "keeps winv (pm_unregister now nm w)"
proof (cases "dict_get (policy_replicas (w_pm w)) nm")
  case None
  with assms show ?thesis by (simp add: pm_unregister_def)
next
  case (Some r)
  let ?w1 = "onP (policy_replicas_update (dict_pop nm)) w"
  let ?w2 = "onP (\<lambda>p. p\<lparr>status := dict_pop nm (status p),
    p_scaling_log := p_scaling_log p @ [scaling_down now r]\<rparr>) ?w1"
  have p: "pinv (w_pm w)" using assms by (simp add: winv_def)
  have one: "winv ?w1" if "\<not> dict_has (status (w_pm w)) nm"
    using assms p partial_unregister_table [OF _ that]
    by (intro winv_onP) (auto simp: pinv_def phase_inv_def completion_inv_def ledger_inv_def)
  have two: "winv ?w2" if "dict_has (status (w_pm w)) nm"
  proof -
    have eq: "w_pm ?w2 = (w_pm w)\<lparr>policy_replicas := dict_pop nm (policy_replicas (w_pm w)),
        status := dict_pop nm (status (w_pm w)),
        p_scaling_log := p_scaling_log (w_pm w) @ [scaling_down now r]\<rparr>"
      by (cases "w_pm w") simp
    have "pinv (w_pm ?w2)"
      unfolding eq using p unregister_table [OF _ that]
      by (simp add: pinv_def phase_inv_def completion_inv_def ledger_inv_def)
    then show ?thesis using assms by (simp add: winv_def)
  qed
  show ?thesis
  proof (cases "dict_has (status (w_pm w)) nm")
    case False
    then have "pm_unregister now nm w = Inl (KeyError, ?w1)"
      by (simp add: pm_unregister_def Some)
    with one [OF False] show ?thesis by simp
  next
    case True
    then obtain st where "dict_get (status (w_pm w)) nm = Some st" by auto
    then have "pm_unregister now nm w =
        (if training_finished (w_pm ?w2) \<or> nm \<in> completion_acks (w_pm ?w2) then Inr ?w2
         else if in_mesh r \<and> pm_arrived (w_pm ?w2) \<noteq> []
         then pm_trigger_rebuild_mesh (map rp_name (pm_arrived (w_pm ?w2))) ?w2 else Inr ?w2)"
      by (simp add: pm_unregister_def Some Let_def)
    with two [OF True] pm_rebuild_winv [OF two [OF True]] show ?thesis
      by (simp only: keeps_simps split: if_split) simp
  qed
qed

lemma pm_maintain_winv: "winv w \<Longrightarrow> keeps winv (pm_maintain_life_status enum timeout now w)"
  unfolding pm_maintain_life_status_def by (intro keeps_forR pm_unregister_winv)

section \<open>Registration\<close>

lemma dict_upd_same:
  assumes "wf_dict d" and "dict_get d k = Some v"
  shows "dict_upd k (\<lambda>_. v) d = d"
proof -
  have "\<forall>p \<in> set d. fst p = k \<longrightarrow> snd p = v"
    using assms by (auto simp: wf_dict_def dict_get_def dest!: map_of_SomeD dest: eq_key_imp_eq_value)
  then show ?thesis
    by (auto simp: dict_upd_def intro!: map_idI)
qed

lemma arrive_in_error:
  assumes "reps_ok rl d" and "arrive_in rl a now d = Inl (e, d')"
  shows "d' = d"
proof -
  obtain r where get: "dict_get d (at_replica_name a) = Some r"
    using assms(2) by (auto simp: arrive_in_def split: option.splits)
  have r: "rp_name r = at_replica_name a" "wf_replica r"
    using reps_ok_get [OF assms(1) get] by auto
  obtain r' where err: "arrive a r = Inl (e, r')" and d': "d' = dict_upd (at_replica_name a) (\<lambda>_. r') d"
    using assms(2) get by (auto simp: arrive_in_def split: sum.splits)
  have "r' = r"
  proof (cases "dict_get (rp_atoms r) (atom_str a) = None \<and> at_group_size a = at_group_size (snd (hd (rp_atoms r)))")
    case True
    then show ?thesis using arrive_wf [of r a] r err by simp
  next
    case False
    obtain p ps where "rp_atoms r = p # ps"
      using r(2) by (cases "rp_atoms r") (auto simp: wf_replica_def)
    with False err show ?thesis
      by (cases "dict_get (rp_atoms r) (atom_str a) = None") (auto simp: arrive_def)
  qed
  then show ?thesis
    using d' get by (simp add: dict_upd_same reps_ok_wf_dict [OF assms(1)])
qed

lemma arrive_in_success:
  assumes "arrive_in rl a now d = Inr d'"
  shows "dict_has d' (at_replica_name a)"
    and "set (dict_keys d') = insert (at_replica_name a) (set (dict_keys d))"
    and "k \<noteq> at_replica_name a \<Longrightarrow> dict_get d' k = dict_get d k"
  using assms dict_has_iff [of d "at_replica_name a"]
  by (auto simp: arrive_in_def dict_keys_set split: option.splits sum.splits if_splits)

text \<open>
  Between the arrival of its last atom and the entry in the status table, one complete
  replica may lack a status.
\<close>

definition table_but :: "string \<Rightarrow> policy_manager \<Rightarrow> bool" where
  "table_but nm p \<longleftrightarrow> reps_ok POLICY (policy_replicas p) \<and> wf_dict (status p)
     \<and> set (dict_keys (status p)) \<subseteq> set (dict_keys (policy_replicas p))
     \<and> set (map rp_name (pm_arrived p)) \<subseteq> insert nm (set (dict_keys (status p)))
     \<and> dict_has (policy_replicas p) nm"

lemma arrive_in_table_but:
  assumes p: "table_inv p" and ok: "arrive_in POLICY a now (policy_replicas p) = Inr d"
    and gs: "length (at_group_size a) = length MESH_NAMES"
  shows "table_but (at_replica_name a) (p\<lparr>policy_replicas := d\<rparr>)"
proof -
  let ?n = "at_replica_name a"
  have reps: "reps_ok POLICY (policy_replicas p)" using p by (simp add: table_inv_def)
  have d: "reps_ok POLICY d"
    using arrive_in_ok(1) [OF reps gs, of now] ok by simp
  have "rp_name r \<in> insert ?n (set (dict_keys (status p)))" if r: "r \<in> set (arrived_values d)" for r
  proof (cases "rp_name r = ?n")
    case False
    have "dict_get d (rp_name r) = Some r"
      using r by (intro reps_ok_name_value [OF d]) (auto simp: arrived_values_def)
    then have "dict_get (policy_replicas p) (rp_name r) = Some r"
      using arrive_in_success(3) [OF ok False] by simp
    then have "r \<in> set (pm_arrived p)"
      using r by (auto simp: pm_arrived_def arrived_values_def dest: dict_get_in_values)
    then show ?thesis using p by (auto simp: table_inv_def)
  qed simp
  then show ?thesis
    using p d arrive_in_success(1,2) [OF ok] by (auto simp: table_but_def table_inv_def pm_arrived_def)
qed

lemma table_but_arrived:
  assumes "table_but nm p" and "dict_get (policy_replicas p) nm = Some r" and "\<not> arrived r"
  shows "table_inv p"
proof -
  have "rp_name x \<noteq> nm" if x: "x \<in> set (pm_arrived p)" for x
  proof
    assume eq: "rp_name x = nm"
    have "dict_get (policy_replicas p) (rp_name x) = Some x"
      using x assms(1)
      by (intro reps_ok_name_value [of POLICY]) (auto simp: table_but_def pm_arrived_def arrived_values_def)
    with eq assms(2,3) x show False by (simp add: pm_arrived_def arrived_values_def)
  qed
  then show ?thesis
    using assms(1) by (auto simp: table_but_def table_inv_def)
qed

lemma pm_complete_winv:
  assumes "0 < c_train_batch (w_cfg w)" and "rm_inv (w_rm w)"
    and t: "table_but (at_replica_name a) (w_pm w)"
    and rest: "phase_inv (w_pm w)" "completion_inv (w_pm w)" "ledger_inv (w_pm w)"
  shows "keeps winv (pm_complete now a w)"
proof -
  let ?n = "at_replica_name a"
  let ?p = "(w_pm w)\<lparr>policy_replicas := dict_upd ?n (set_start_time now) (policy_replicas (w_pm w))\<rparr>"
  have cores: "same_cores (policy_replicas (w_pm w)) (policy_replicas ?p)"
    by (simp add: same_cores_upd)
  have t': "table_but ?n ?p"
    using t arrived_names_same_cores [OF cores] same_cores_keys [OF cores] reps_ok_same_cores [OF cores]
    by (simp add: table_but_def pm_arrived_def flip: set_map)
  have p': "policy_replicas_update (dict_upd ?n (set_start_time now)) (w_pm w) = ?p"
    by (cases "w_pm w") simp
  have "keeps pinv (set_status ?n UNINITIALIZED ?p)"
  proof (cases "dict_get (status ?p) ?n")
    case None
    have has: "?n \<in> set (dict_keys (policy_replicas ?p))"
      using t' dict_has_iff [of "policy_replicas ?p" ?n] by (simp add: table_but_def)
    have "table_inv (?p\<lparr>status := dict_set ?n UNINITIALIZED (status ?p)\<rparr>)"
      using t' None has unfolding table_inv_def table_but_def
      by (auto simp: dict_keys_set pm_arrived_def)
    then show ?thesis
      using rest None by (simp add: set_status_def pinv_def phase_inv_def completion_inv_def ledger_inv_def)
  next
    case (Some st)
    then have "?n \<in> set (dict_keys (status ?p))"
      using dict_has_iff [of "status ?p" ?n] by simp
    then have "table_inv ?p"
      using t' by (auto simp: table_but_def table_inv_def)
    then show ?thesis
      using rest Some by (simp add: set_status_def pinv_def phase_inv_def completion_inv_def ledger_inv_def)
  qed
  then have step: "keeps winv (liftP (set_status ?n UNINITIALIZED)
      (onP (policy_replicas_update (dict_upd ?n (set_start_time now))) w))"
    using assms(1,2) unfolding liftP_def onP_simps p'
    by (auto simp: keeps_def winv_def split: sum.splits)
  have atoms: "winv (onP (\<lambda>p. if policy_atoms_in_replica p = None
      then p\<lparr>policy_atoms_in_replica := Some k\<rparr> else p) v)" if "winv v" for v k
    using that by (intro winv_onP) (auto simp: winv_def intro: pinv_fields)
  show ?thesis
    unfolding pm_complete_def by (intro keeps_bindR step) (simp add: atoms)
qed

lemma pm_seed_winv:
  assumes "winv w"
  shows "keeps winv (pm_seed_rollouts src w)"
proof (cases "filter arrived (by_start_time (dict_values (rollout_replicas (w_rm w))))")
  case Nil
  with assms show ?thesis by (simp add: pm_seed_rollouts_def)
next
  case (Cons dst rest)
  then have "dst \<in> set (filter arrived (by_start_time (dict_values (rollout_replicas (w_rm w)))))"
    by simp
  then have dst: "dst \<in> set (dict_values (rollout_replicas (w_rm w)))" by simp
  show ?thesis
    unfolding pm_seed_rollouts_def Cons Let_def list.case
    by (intro keeps_bindR keeps_if winv_send_p2r assms dst)
      (simp_all add: winv_send_r2r pick_values del: pick_Cons list.map)
qed

lemma pm_first_replica_winv:
  assumes "winv w"
  shows "keeps winv (pm_first_replica nm w)"
proof -
  have w: "winv (onP (first_policy_replica_arrived_update (\<lambda>_. True)) v)" if "winv v" for v
    using that by (intro winv_onP) (auto simp: winv_def intro: pinv_fields)
  have resumed: "winv (onP (policy_replicas_update (store_replicas [set_loaded r])) (v\<lparr>w_bus := b\<rparr>))"
    if "winv v" "dict_get (policy_replicas (w_pm v)) nm = Some r" for v r b
    using winv_store_map [of "v\<lparr>w_bus := b\<rparr>" "[r]" set_loaded] that(1) dict_get_in_values [OF that(2)]
    by simp
  show ?thesis
    unfolding pm_first_replica_def Let_def trigger_weight_resume_def
    by (intro keeps_bindR keeps_assert assms)
      (auto split: option.splits intro!: pm_seed_winv resumed w)
qed

lemma activate_winv: "winv w \<Longrightarrow> keeps winv (activate_validation_if_due h w)"
  by (auto simp: activate_validation_if_due_def py_nonzero_def intro!: keeps_liftD)

lemma open_step_pinv:
  assumes "pinv p" and "0 \<le> n"
  shows "pinv (open_step n p)"
proof -
  have "ledger_inv (open_step n p)"
    using assms set_dict_set [of "current_step p + 1" n "dispatched_rollouts_by_step p"]
    by (force simp: pinv_def ledger_inv_def open_step_def list_all_iff)
  then show ?thesis
    using assms(1) by (simp add: pinv_def table_inv_def phase_inv_def completion_inv_def open_step_def
        pm_arrived_def)
qed

lemma pm_first_broadcast_winv:
  assumes "winv w"
  shows "keeps winv (pm_first_broadcast valid w)"
proof -
  have "winv (onP (policy_replicas_update (store_replicas
      (map set_loaded (pick valid (policy_replicas (w_pm w)))))) (w\<lparr>w_bus := b\<rparr>))" for b
    using assms pick_values [of valid "policy_replicas (w_pm w)"] by (intro winv_store_map) simp_all
  then show ?thesis
    using assms by (auto simp: pm_first_broadcast_def Let_def trigger_p2p_broadcast_def split: option.splits)
qed

lemma colocated_winv:
  assumes "winv w"
  shows "keeps winv (colocated_first_step valid w)"
proof -
  have fetch: "keeps winv (colocated_fetch nm v)" if v: "winv v" for nm v
  proof -
    have "winv (onP (\<lambda>p. p\<lparr>remain_samples_num := remain_samples_num p - k\<rparr>) v)" for k
      using v by (intro winv_onP) (auto simp: winv_def intro: pinv_fields)
    then show ?thesis
      using v by (auto simp: colocated_fetch_def Let_def winv_def split: option.splits
          intro!: keeps_liftP set_status_pinv)
  qed
  have "winv (onP (\<lambda>p. p\<lparr>current_step := current_step p + 1,
      dispatched_rollouts_by_step := dict_set (current_step p + 1)
        (c_train_batch (w_cfg w) * int (length valid)) (dispatched_rollouts_by_step p)\<rparr>) w)"
    (is "winv (onP ?f w)")
  proof (rule winv_onP [OF assms])
    have "pinv (open_step (c_train_batch (w_cfg w) * int (length valid)) (w_pm w))"
      using assms by (intro open_step_pinv) (auto simp: winv_def)
    then show "pinv (?f (w_pm w))"
      by (rule pinv_fields) (simp_all add: open_step_def)
  qed
  then show ?thesis
    unfolding colocated_first_step_def Let_def
    by (intro keeps_bindR activate_winv keeps_forR fetch)
qed

lemma pm_initial_mesh_winv:
  assumes "winv w"
  shows "keeps winv (pm_initial_mesh valid w)"
proof -
  have "winv (onP (policy_init_done_update (\<lambda>_. True)) w)"
    using assms by (intro winv_onP) (auto simp: winv_def intro: pinv_fields)
  then show ?thesis
    unfolding pm_initial_mesh_def
    by (intro keeps_bindR keeps_if pm_rebuild_winv pm_first_broadcast_winv pm_set_all_winv colocated_winv)
      simp_all
qed

lemma pm_scale_up_winv:
  assumes "winv w"
  shows "keeps winv (pm_scale_up valid target w)"
proof -
  have stored: "keeps winv (liftP (set_status target READY)
      (onP (policy_replicas_update (store_replicas [set_loaded t])) (v\<lparr>w_bus := b\<rparr>)))"
    if "winv v" "dict_get (policy_replicas (w_pm v)) target = Some t" for v t b
  proof -
    have "winv (onP (policy_replicas_update (store_replicas [set_loaded t])) (v\<lparr>w_bus := b\<rparr>))"
      using winv_store_map [of "v\<lparr>w_bus := b\<rparr>" "[t]" set_loaded] that(1) dict_get_in_values [OF that(2)]
      by simp
    then show ?thesis
      by (intro keeps_liftP set_status_pinv) (auto simp: winv_def)
  qed
  have tail: "keeps winv (case dict_get (policy_replicas (w_pm v)) target of None \<Rightarrow> Inr v
      | Some t \<Rightarrow> let (t', b) = trigger_p2p_unicast src t (Some (total_steps (w_pm v))) (w_bus v)
          in liftP (set_status target READY)
               (onP (policy_replicas_update (store_replicas [t'])) (v\<lparr>w_bus := b\<rparr>)))"
    if "winv v" for v src
    using that by (auto simp: trigger_p2p_unicast_def Let_def split: option.splits intro!: stored)
  show ?thesis
    unfolding pm_scale_up_def
    by (intro keeps_bindR keeps_assert assms)
      (auto split: option.splits intro!: keeps_bindR keeps_assert pm_rebuild_winv tail)
qed

lemma pm_hook_winv: "winv w \<Longrightarrow> keeps winv (pm_post_register_hook valid target w)"
  unfolding pm_post_register_hook_def
  by (intro keeps_bindR keeps_if keeps_liftD pm_initial_mesh_winv pm_scale_up_winv) simp_all

lemma pm_raise_simps [simp]:
  "w_pm (pm_raise_n_init w) = w_pm w" "w_rm (pm_raise_n_init w) = w_rm w"
  "c_train_batch (w_cfg (pm_raise_n_init w)) = c_train_batch (w_cfg w)"
  by (simp_all add: pm_raise_n_init_def)

lemma pm_register_winv:
  assumes "winv w" and gs: "length (at_group_size a) = length MESH_NAMES"
  shows "keeps winv (pm_register a now w)"
proof (cases "arrive_in POLICY a now (policy_replicas (w_pm w))")
  case (Inl ed)
  obtain e d where ed: "ed = (e, d)" by (cases ed)
  have "d = policy_replicas (w_pm w)"
    using arrive_in_error [OF winv_reps(1) [OF assms(1)]] Inl ed by blast
  then have "winv (onP (policy_replicas_update (\<lambda>_. d)) w)"
    using assms(1) by (simp add: winv_def)
  then show ?thesis by (simp add: pm_register_def Inl ed)
next
  case (Inr d)
  let ?w = "pm_raise_n_init (onP (policy_replicas_update (\<lambda>_. d)) w)"
  have but: "table_but (at_replica_name a) (w_pm ?w)"
    using arrive_in_table_but [OF _ Inr gs] assms(1) by (simp add: winv_def pinv_def)
  have rest: "0 < c_train_batch (w_cfg ?w)" "rm_inv (w_rm ?w)" "phase_inv (w_pm ?w)"
    "completion_inv (w_pm ?w)" "ledger_inv (w_pm ?w)"
    using assms(1) by (simp_all add: winv_def pinv_def phase_inv_def completion_inv_def ledger_inv_def)
  obtain r where r: "dict_get (policy_replicas (w_pm ?w)) (at_replica_name a) = Some r"
    using but by (auto simp: table_but_def)
  show ?thesis
  proof (cases "arrived r")
    case False
    then have "winv ?w"
      using table_but_arrived [OF but r] rest by (simp add: winv_def pinv_def)
    with False r show ?thesis by (simp add: pm_register_def Inr Let_def)
  next
    case True
    have "pm_register a now w = bindR (pm_complete now a ?w) (\<lambda>w.
        let valid = map rp_name (pm_arrived (w_pm w)) in
        bindR (if length valid = 1 then pm_first_replica (at_replica_name a) w else Inr w)
          (pm_post_register_hook valid (at_replica_name a)))"
      using True r by (simp add: pm_register_def Inr Let_def)
    then show ?thesis
      unfolding Let_def
      by (auto intro!: keeps_bindR pm_complete_winv rest but pm_first_replica_winv pm_hook_winv)
  qed
qed

section \<open>Dispatch and admission\<close>

lemma pinv_buffers:
  "pinv p \<Longrightarrow> pinv (p\<lparr>rollout_buffer := xs\<rparr>)" "pinv p \<Longrightarrow> pinv (p\<lparr>rollout_buffer_per_rank := qs\<rparr>)"
  "pinv p \<Longrightarrow> pinv (rollout_buffer_per_rank_update f p)"
  by (auto intro: pinv_fields)

lemma winv_pinv: "winv w \<Longrightarrow> pinv (w_pm w)"
  by (simp add: winv_def)

lemma send_head_winv: "winv (snd s) \<Longrightarrow> keeps_via snd winv (send_head r s)"
  by (auto simp: send_head_def Let_def split: prod.splits list.splits sum.splits
      intro!: winv_onP pinv_buffers dest: winv_pinv)

lemma send_rank_head_winv: "winv (snd s) \<Longrightarrow> keeps_via snd winv (send_rank_head i r s)"
  by (auto simp: send_rank_head_def Let_def split: prod.splits list.splits sum.splits
      intro!: winv_onP pinv_buffers dest: winv_pinv)

lemma dispatch_rollouts_winv:
  assumes "winv w"
  shows "keeps_via snd winv (dispatch_rollouts items rs w)"
proof -
  have rank: "keeps_via snd winv (dispatch_rank items ir s)" if "winv (snd s)" for ir s
    using that by (auto simp: dispatch_rank_def Let_def split: prod.splits
        intro!: keeps_via_forR send_rank_head_winv winv_onP pinv_buffers dest: winv_pinv)
  show ?thesis
    using assms by (auto simp: dispatch_rollouts_def dispatch_mesh_def dispatch_interleaved_def
        intro!: keeps_via_forR send_head_winv rank)
qed

lemma send_data_fetch_winv: "winv w \<Longrightarrow> keeps winv (send_data_fetch items h sv r w)"
  unfolding send_data_fetch_def by (intro keeps_liftP set_status_pinv) (auto simp: winv_def)

lemma report_dispatched_winv: "winv w \<Longrightarrow> keeps winv (report_dispatched rs w)"
  by (auto simp: report_dispatched_def split: sum.splits intro!: winv_onP intro: pinv_fields dest: winv_pinv)

lemma dispatch_step_winv:
  assumes "winv w"
  shows "keeps winv (dispatch_step w)"
proof -
  have "winv (onP (open_step (c_train_batch (w_cfg w) * int (length (pm_arrived (w_pm w))))) w)"
    using assms by (intro winv_onP open_step_pinv) (auto simp: winv_def)
  then show ?thesis
    unfolding dispatch_step_def Let_def
    by (intro keeps_bindR activate_winv keeps_bind_via [OF dispatch_rollouts_winv])
      (auto split: prod.splits sum.splits
        intro!: keeps_bindR keeps_forR send_data_fetch_winv report_dispatched_winv)
qed

lemma try_trigger_winv: "winv w \<Longrightarrow> keeps winv (try_trigger_data_fetch_and_training w)"
  by (simp add: try_trigger_data_fetch_and_training_def dispatch_step_winv)

lemma put_rollout_winv:
  assumes "winv w"
  shows "keeps winv (put_rollout r w)"
proof -
  have "keeps pinv (buffer_rollout c x p)" if "pinv p" for c x p
    using that by (auto simp: buffer_rollout_def Let_def intro: pinv_fields)
  then show ?thesis
    using assms by (auto simp: put_rollout_def winv_def split: sum.splits
        intro!: keeps_bindR keeps_liftP try_trigger_winv)
qed

lemma arm_winv: "winv w \<Longrightarrow> winv (maybe_arm_transport_cleanup r w)"
  by (auto simp: maybe_arm_transport_cleanup_def intro!: winv_onP intro: pinv_fields dest: winv_pinv)

lemma note_winv: "winv w \<Longrightarrow> winv (note_on_policy_completed w)"
  by (auto simp: note_on_policy_completed_def intro!: winv_onP intro: pinv_fields dest: winv_pinv)

lemma put_rollouts_winv:
  assumes "winv w"
  shows "keeps_via (\<lambda>s. snd (snd s)) winv (put_rollouts rs w)"
proof -
  have "keeps_via (\<lambda>s. snd (snd s)) winv (admit_rollout r s)" if "winv (snd (snd s))" for r s
    using that by (auto simp: admit_rollout_def Let_def split: prod.splits sum.splits
        intro!: keeps_via_bind_plain put_rollout_winv arm_winv note_winv)
  then show ?thesis
    unfolding put_rollouts_def using assms by (intro keeps_via_forR) auto
qed

lemma filter_outdated_winv:
  assumes "winv w"
  shows "keeps_via snd winv (filter_outdated_rollouts rs w)"
proof -
  have "keeps_via (\<lambda>s. snd (snd s)) pinv (judge_rollout c x s)" if "pinv (snd (snd s))" for c x s
    using that by (auto simp: judge_rollout_def Let_def split: prod.splits intro: pinv_fields)
  then have loop: "keeps_via (\<lambda>s. snd (snd s)) pinv
      (forR (zip [0..<length rs] rs) (judge_rollout (w_cfg w)) ([], [], w_pm w))"
    using assms by (intro keeps_via_forR) (auto simp: winv_def)
  have fin: "pinv (add_filter_record k n (p\<lparr>remain_samples_num := m\<rparr>))"
      "pinv (add_filter_record k n (p\<lparr>weight_accepted_staleness := l, remain_samples_num := m\<rparr>))"
    if "pinv p" for k n p m l
    by (rule add_filter_record_pinv, rule pinv_fields [OF that]; simp)+
  have w: "winv (w\<lparr>w_pm := p\<rparr>)" if "pinv p" for p
    using assms that by (simp add: winv_def)
  show ?thesis
    using loop
    by (auto simp: filter_outdated_rollouts_def Let_def w fin split: sum.splits prod.splits
        intro!: cleanup_publish_winv winv_onP settle_pinv)
qed

section \<open>Draining and acknowledgements\<close>

lemma enter_draining_pinv: "pinv p \<Longrightarrow> pinv (enter_draining_phase p)"
  by (auto simp: enter_draining_phase_def pinv_def inv_defs pm_arrived_def)

lemma terminal_pinv: "pinv p \<Longrightarrow> pinv (terminal_complete_update (\<lambda>_. True) p)"
  by (auto intro: pinv_fields)

lemma trigger_training_complete_winv:
  assumes "winv w"
  shows "keeps winv (trigger_training_complete w)"
proof -
  have "winv (onP (\<lambda>p. p\<lparr>completion_step := Some k,
      completion_recipients := set (map rp_name (pm_arrived (w_pm w))), completion_acks := {}\<rparr>) w)"
    if "pm_arrived (w_pm w) \<noteq> []" for k
    using assms that by (intro winv_onP) (auto simp: winv_def pinv_def inv_defs pm_arrived_def)
  then show ?thesis
    using assms by (auto simp: trigger_training_complete_def Let_def
        intro!: keeps_bindR pm_set_all_winv)
qed

lemma finish_tail_winv: "winv w \<Longrightarrow> keeps winv (finish_tail w)"
  unfolding finish_tail_def Let_def
  by (auto intro!: keeps_if winv_onP terminal_pinv trigger_training_complete_winv cleanup_buffered_winv
      winv_pinv)

lemma finish_draining_winv: "winv w \<Longrightarrow> keeps winv (finish_draining_phase w)"
  by (auto simp: finish_draining_phase_def Let_def intro!: keeps_bindR try_trigger_winv finish_tail_winv
      cleanup_buffered_winv winv_onP enter_draining_pinv winv_pinv)

lemma on_rollout_is_end_winv: "winv w \<Longrightarrow> keeps winv (on_rollout_is_end w)"
  by (simp add: on_rollout_is_end_def finish_draining_winv)

lemma record_completion_ack_pinv:
  assumes "pinv p"
  shows "pinv (snd (record_completion_ack nm step p))"
  using assms by (auto simp: record_completion_ack_def Let_def pinv_def inv_defs pm_arrived_def)

lemma record_real_winv:
  assumes "winv w"
  shows "winv (record_real_datafetch_acked step ts w)"
proof -
  have "winv (onP (\<lambda>p. p\<lparr>last_real_acked_step := Some step, last_real_acked_total_steps := Some ts\<rparr>) w)"
    using assms by (intro winv_onP) (auto intro: pinv_fields dest: winv_pinv)
  then show ?thesis
    by (auto simp: record_real_datafetch_acked_def Let_def
        intro!: cleanup_buffered_winv winv_onP terminal_pinv winv_pinv)
qed

lemma ledger_pop_pinv:
  assumes "pinv p"
  shows "pinv (p\<lparr>dispatched_rollouts_by_step := dict_pop k (dispatched_rollouts_by_step p),
    samples_on_the_fly := n\<rparr>)"
  using assms wf_dict_pop [of "dispatched_rollouts_by_step p" k]
  by (auto simp: pinv_def inv_defs pm_arrived_def list_all_iff dict_pop_def)

lemma settle_train_ack_winv: "winv w \<Longrightarrow> keeps winv (settle_train_ack step ts w)"
  unfolding settle_train_ack_def Let_def
  by (intro keeps_bindR keeps_assert keeps_if winv_onP ledger_pop_pinv winv_pinv)
    (simp_all add: record_real_winv)

lemma end_profile_winv:
  assumes "winv w"
  shows "winv (end_profile nm w)"
proof -
  have "same_cores (policy_replicas (w_pm w)) (dict_upd nm (\<lambda>r. r\<lparr>sub_profiler_cfg :=
      (sub_profiler_cfg r)\<lparr>do_profile := False\<rparr>\<rparr>) (policy_replicas (w_pm w)))"
    by (intro same_cores_upd) (simp add: core_def)
  then show ?thesis
    unfolding end_profile_def
    by (intro winv_onP assms) (subst replicas_update, rule pinv_cores [OF winv_pinv [OF assms]])
qed

lemma report_acked_winv:
  assumes "winv w"
  shows "winv (report_acked w)"
proof -
  have upd: "pinv (fold update_dynamic_sampling_statistics ds p)" if "pinv p" for ds p
    using that by (induction ds arbitrary: p) (auto intro: update_dynamic_pinv)
  have stats: "winv (onP (fold update_dynamic_sampling_statistics ds) v)" if "winv v" for ds v
    using that by (intro winv_onP upd winv_pinv)
  have keys: "winv (onP (\<lambda>p. p\<lparr>train_report_keys := f p, report_data_list := []\<rparr>) v)" if "winv v" for f v
    using that by (intro winv_onP) (auto intro: pinv_fields dest: winv_pinv)
  have reset: "winv (onP (filter_records_update (\<lambda>_. [])) v)" if "winv v" for v
    using that by (intro winv_onP) (auto intro: pinv_fields dest: winv_pinv)
  show ?thesis
    using assms unfolding report_acked_def Let_def
    by (auto split: option.splits pyval.splits intro!: stats keys reset)
qed

lemma sync_weights_winv:
  assumes "winv w"
  shows "keeps winv (sync_weights step src w)"
proof -
  have targets: "set (weight_sync_rollout_targets v) \<subseteq> set (dict_values (rollout_replicas (w_rm v)))" for v
    by (auto simp: weight_sync_rollout_targets_def get_safe_weight_sync_replicas_def Let_def
        rm_arrived_def arrived_values_def)
  have staged: "winv (onP (weight_last_staged_step_update (\<lambda>_. k)) v)" if "winv v" for k v
    using that by (intro winv_onP) (auto intro: pinv_fields dest: winv_pinv)
  have "keeps winv (trigger_weight_sync src step ts w)" for ts
  proof (cases "weight_sync_rollout_targets w")
    case (Cons dst rest)
    then have dst: "dst \<in> set (dict_values (rollout_replicas (w_rm w)))"
      using targets [of w] by auto
    show ?thesis
      using assms unfolding trigger_weight_sync_def Cons list.case Let_def
      by (auto split: option.splits simp del: pick_Cons list.map
          intro!: keeps_bindR winv_send_p2r dst staged winv_send_r2r pick_values)
  qed (use assms in \<open>simp add: trigger_weight_sync_def\<close>)
  moreover have "winv (onP (\<lambda>p. p\<lparr>weight_coalesced_skips := weight_coalesced_skips p + 1\<rparr>) w)"
    using assms by (intro winv_onP) (auto intro: pinv_fields dest: winv_pinv)
  ultimately show ?thesis
    by (simp add: sync_weights_def)
qed

lemma next_after_ack_winv:
  assumes "winv w"
  shows "keeps winv (next_after_ack w)"
proof -
  have "winv (onP (on_policy_rollout_completed_update (\<lambda>_. False)) v)" if "winv v" for v
    using that by (intro winv_onP) (auto intro: pinv_fields dest: winv_pinv)
  then show ?thesis
    unfolding next_after_ack_def using assms
    by (intro keeps_bindR keeps_if finish_draining_winv try_trigger_winv) auto
qed

lemma all_acked_winv: "winv w \<Longrightarrow> keeps winv (all_acked nm step ts pf w)"
  unfolding all_acked_def Let_def
  by (intro keeps_bindR settle_train_ack_winv)
    (auto split: sum.splits intro!: keeps_bindR pm_set_all_winv sync_weights_winv next_after_ack_winv
      report_acked_winv end_profile_winv)

lemma sft_report_winv:
  assumes "winv w"
  shows "keeps winv (sft_report_summary w)"
proof -
  have "winv (onP (report_data_list_update (\<lambda>_. [])) w)"
    using assms by (intro winv_onP) (auto intro: pinv_fields dest: winv_pinv)
  then show ?thesis
    unfolding sft_report_summary_def by (intro pm_set_all_winv) simp_all
qed

lemma sft_train_ack_winv:
  assumes "winv w"
  shows "keeps winv (sft_train_ack nm report w)"
proof -
  have st: "keeps winv (liftP (set_status nm x) v)" if "winv v" "x \<noteq> UNINITIALIZED" for x v
    using that by (intro keeps_liftP set_status_pinv winv_pinv) auto
  have step: "winv (onP (\<lambda>p. p\<lparr>current_step := current_step p + 1\<rparr>) v)" if "winv v" for v
    using that by (intro winv_onP) (auto intro: pinv_fields dest: winv_pinv)
  have remain: "winv (onP (\<lambda>p. p\<lparr>remain_samples_num := f p\<rparr>) v)" if "winv v" for f v
    using that by (intro winv_onP) (auto intro: pinv_fields dest: winv_pinv)
  show ?thesis
    unfolding sft_train_ack_def Let_def using assms
    by (auto intro!: keeps_bindR st step activate_winv sft_report_winv remain)
qed

lemma train_ack_winv:
  assumes "winv w"
  shows "keeps winv (train_ack nm step ts pf report w)"
proof -
  obtain acked p where ack: "record_completion_ack nm step (w_pm w) = (acked, p)"
    by (cases "record_completion_ack nm step (w_pm w)")
  have p: "winv (w\<lparr>w_pm := p\<rparr>)"
    using record_completion_ack_pinv [OF winv_pinv [OF assms], of nm step] ack assms
    by (simp add: winv_def)
  have st: "keeps winv (liftP (set_status nm REDUCED) v)" if "winv v" for v
    using that by (intro keeps_liftP set_status_pinv winv_pinv) auto
  have rep: "winv (onP (\<lambda>p. p\<lparr>report_data_list := report_data_list p @ [report]\<rparr>) v)" if "winv v" for v
    using that by (intro winv_onP) (auto intro: pinv_fields dest: winv_pinv)
  show ?thesis
    unfolding train_ack_def ack Let_def using assms p
    by (auto intro!: st rep sft_train_ack_winv keeps_bindR all_acked_winv)
qed

lemma validation_report_winv:
  assumes "winv w"
  shows "keeps winv (validation_report_validation_results step results w)"
proof -
  have "winv (onP (\<lambda>p. p\<lparr>val_report_data := f p\<rparr>) v)" if "winv v" for f v
    using that by (intro winv_onP) (auto intro: pinv_fields dest: winv_pinv)
  then show ?thesis
    unfolding validation_report_validation_results_def Let_def using assms
    by (auto intro!: keeps_bindR keeps_nonzero try_trigger_winv)
qed

end
