(* ===== verification/Dispatch_Correctness.thy ===== *)
theory Dispatch_Correctness
  imports Policy_Invariants
begin

text \<open>
  What the dispatch of a training step does, in closed form, and what follows for the
  accounting of samples in flight: the number of samples that the workers still hold is
  never negative, so the assertion of \<open>train_ack\<close> does not fire.
\<close>

section \<open>The loops of a dispatch in closed form\<close>

lemma send_head_loop:
  assumes "\<forall>r \<in> set xs. rp_role r = POLICY \<and> arrived r"
    and "length xs \<le> length (rollout_buffer (w_pm w))"
  shows "forR xs send_head (acc, w) =
    Inr (acc @ take (length xs) (rollout_buffer (w_pm w)),
      w\<lparr>w_bus := (w_bus w)\<lparr>rollout_log := rollout_log (w_bus w)
           @ zip (map rp_name xs) (rollout_buffer (w_pm w))\<rparr>,
        w_pm := (w_pm w)\<lparr>rollout_buffer := drop (length xs) (rollout_buffer (w_pm w))\<rparr>\<rparr>)"
  using assms
proof (induction xs arbitrary: acc w)
  case Nil
  then show ?case by simp
next
  case (Cons r xs)
  obtain x buf where buf: "rollout_buffer (w_pm w) = x # buf"
    using Cons.prems(2) by (cases "rollout_buffer (w_pm w)") auto
  let ?w = "w\<lparr>w_bus := publish_rollout x (rp_name r) (w_bus w),
    w_pm := (w_pm w)\<lparr>rollout_buffer := buf\<rparr>\<rparr>"
  have "send_head r (acc, w) = Inr (acc @ [x], ?w)"
    using Cons.prems(1) by (simp add: send_head_def buf replica_put_rollout_def onP_def)
  moreover have "forR xs send_head (acc @ [x], ?w) = Inr ((acc @ [x]) @ take (length xs) buf,
      ?w\<lparr>w_bus := (w_bus ?w)\<lparr>rollout_log := rollout_log (w_bus ?w) @ zip (map rp_name xs) buf\<rparr>,
        w_pm := (w_pm ?w)\<lparr>rollout_buffer := drop (length xs) buf\<rparr>\<rparr>)"
    using Cons.IH [of ?w "acc @ [x]"] Cons.prems buf by simp
  ultimately show ?case
    by (simp add: buf publish_rollout_def)
qed

definition running :: "replica list \<Rightarrow> (string, policy_status) dict \<Rightarrow> (string, policy_status) dict" where
  "running rs d = fold (\<lambda>r. dict_set (rp_name r) RUNNING) rs d"

lemma fetch_loop:
  assumes "\<forall>r \<in> set rs. dict_has (status (w_pm w)) (rp_name r)"
  shows "forR rs (send_data_fetch items h sv) w =
    Inr (w\<lparr>w_pm := (w_pm w)\<lparr>status := running rs (status (w_pm w))\<rparr>,
           w_bus := fold (\<lambda>r. trigger_data_fetch r items (current_step (w_pm w)) h
             (remain_samples_num (w_pm w)) sv) rs (w_bus w)\<rparr>)"
  using assms
proof (induction rs arbitrary: w)
  case Nil
  then show ?case by (simp add: running_def)
next
  case (Cons r rs)
  obtain st where st: "dict_get (status (w_pm w)) (rp_name r) = Some st"
    using Cons.prems by auto
  let ?w = "w\<lparr>w_pm := (w_pm w)\<lparr>status := dict_set (rp_name r) RUNNING (status (w_pm w))\<rparr>,
    w_bus := trigger_data_fetch r items (current_step (w_pm w)) h (remain_samples_num (w_pm w)) sv (w_bus w)\<rparr>"
  have "send_data_fetch items h sv r w = Inr ?w"
    by (simp add: send_data_fetch_def liftP_def set_status_def st)
  moreover have "forR rs (send_data_fetch items h sv) ?w =
    Inr (?w\<lparr>w_pm := (w_pm ?w)\<lparr>status := running rs (status (w_pm ?w))\<rparr>,
           w_bus := fold (\<lambda>r. trigger_data_fetch r items (current_step (w_pm ?w)) h
             (remain_samples_num (w_pm ?w)) sv) rs (w_bus ?w)\<rparr>)"
    using Cons.prems by (intro Cons.IH) auto
  ultimately show ?case
    by (simp add: running_def)
qed

lemma dict_get_running:
  "dict_get (running rs d) k = (if k \<in> rp_name ` set rs then Some RUNNING else dict_get d k)"
  unfolding running_def by (induction rs arbitrary: d) auto

lemma received_data_fetches:
  assumes "distinct (map rp_name rs)"
  shows "received nm (fold (\<lambda>r. trigger_data_fetch r items step h remain sv) rs b) = received nm b @
    (case List.find (\<lambda>r. rp_name r = nm) rs of None \<Rightarrow> []
     | Some r \<Rightarrow> [DataFetch \<lparr>dfa_replica_name = nm, dfa_items_count = items, dfa_global_step = Some step,
         dfa_total_steps = Some h, dfa_remain_samples_num = remain, dfa_do_save = sv,
         dfa_profile = profile_of r\<rparr>])"
  using assms
proof (induction rs arbitrary: b)
  case Nil
  then show ?case by simp
next
  case (Cons r rs)
  have "List.find (\<lambda>x. rp_name x = nm) rs = None" if "rp_name r = nm"
    using Cons.prems that by (auto simp: find_None_iff) (metis imageI)
  then show ?case
    using Cons by (simp add: trigger_data_fetch_def received_publish_to)
qed

lemma data_fetches_frame [simp]:
  "rollout_log (fold (\<lambda>r. trigger_data_fetch r items step h remain sv) rs b) = rollout_log b"
  by (induction rs arbitrary: b) (simp_all add: trigger_data_fetch_def)

section \<open>Configurations under which a dispatch runs through\<close>

text \<open>
  Rollouts come from separate workers into one shared buffer; validation, where enabled,
  has a dataloader and a non-zero frequency; the checkpoint frequencies are non-zero, and
  the number of generations per prompt is not negative.
\<close>

definition cfg_ok :: "world \<Rightarrow> bool" where
  "cfg_ok w \<longleftrightarrow> 0 \<le> c_n_generation (w_cfg w) \<and> c_mode (w_cfg w) \<noteq> ''colocated'' \<and> \<not> c_dispatch_as_rank_in_mesh (w_cfg w)
     \<and> (c_val_enable (w_cfg w) \<longrightarrow> c_val_freq (w_cfg w) \<noteq> 0 \<and> df_val_batches (w_df w) \<noteq> None)
     \<and> (if 0 < c_save_freq_in_epoch (w_cfg w) then samples_per_epoch (w_pm w) \<noteq> 0
        else c_save_freq (w_cfg w) \<noteq> 0)"

lemma val_activate_ok:
  assumes "df_val_batches d \<noteq> None"
  shows "\<exists>d'. validation_activate_dataloader s d = Inr d' \<and> df_val_batches d' = df_val_batches d"
  using assms by (cases "dict_get (df_val_iters d) s") (auto simp: validation_activate_dataloader_def)

lemma activate_ok:
  assumes "c_val_enable (w_cfg w) \<longrightarrow> c_val_freq (w_cfg w) \<noteq> 0 \<and> df_val_batches (w_df w) \<noteq> None"
  shows "\<exists>d. activate_validation_if_due h w = Inr (w\<lparr>w_df := d\<rparr>) \<and> df_val_batches d = df_val_batches (w_df w)"
proof (cases "c_val_enable (w_cfg w) \<and> (current_step (w_pm w) mod c_val_freq (w_cfg w) = 0
    \<or> current_step (w_pm w) = h)")
  case True
  then obtain d where "validation_activate_dataloader (current_step (w_pm w)) (w_df w) = Inr d"
    and "df_val_batches d = df_val_batches (w_df w)"
    using assms val_activate_ok by blast
  moreover from this True assms have "activate_validation_if_due h w = Inr (w\<lparr>w_df := d\<rparr>)"
    by (simp add: activate_validation_if_due_def py_nonzero_def liftD_def)
  ultimately show ?thesis by blast
next
  case False
  then have "activate_validation_if_due h w = Inr (w\<lparr>w_df := w_df w\<rparr>)"
    using assms by (auto simp: activate_validation_if_due_def py_nonzero_def)
  then show ?thesis by blast
qed

lemma check_saving_ok:
  assumes "if 0 < c_save_freq_in_epoch c then samples_per_epoch p \<noteq> 0 else c_save_freq c \<noteq> 0"
  shows "\<exists>sv. check_checkpoint_saving c n p = Inr sv"
  using assms by (auto simp: check_checkpoint_saving_def Let_def split: if_splits)

section \<open>One dispatched step\<close>

lemma report_dispatched_cases:
  obtains ks where "report_dispatched ros w = Inr (onP (train_report_keys_update (\<lambda>_. ks)) w)"
  | e where "report_dispatched ros w = Inl (e, w)" and "e \<in> {TypeError, AttributeError, ValueError}"
proof (cases "c_logger (w_cfg w) = [] \<or> ros = []")
  case True
  then have "report_dispatched ros w = Inr (onP (train_report_keys_update (\<lambda>_. train_report_keys (w_pm w))) w)"
    by (simp add: report_dispatched_def onP_def)
  then show ?thesis by (rule that(1))
next
  case False
  have err: "e \<in> {TypeError, AttributeError, ValueError}" if "mapR (completion_length c tok) rs = Inl e" for c tok rs e
    using that
    by (induction rs) (auto simp: completion_length_def bindR_def split: if_splits option.splits sum.splits)
  show ?thesis
  proof (cases "mapR (completion_length (w_cfg w) (w_tok w)) ros")
    case (Inl e)
    with False err [OF Inl] show ?thesis
      by (intro that(2) [of e]) (simp_all add: report_dispatched_def)
  next
    case (Inr lens)
    show ?thesis
    proof (cases "sum_list lens = 0")
      case True
      with False Inr show ?thesis by (intro that(2) [of ValueError]) (simp_all add: report_dispatched_def)
    next
      case nz: False
      with False Inr show ?thesis
        by (intro that(1) [of "rolling_set (current_step (w_pm w))
            (dispatch_report_keys \<union> \<Union> (set (map metric_keys ros))) (train_report_keys (w_pm w))"])
          (simp add: report_dispatched_def onP_def)
    qed
  qed
qed

lemma arrived_policy:
  assumes "winv w" and "r \<in> set (pm_arrived (w_pm w))"
  shows "rp_role r = POLICY" "arrived r" "dict_has (status (w_pm w)) (rp_name r)"
proof -
  have "r \<in> set (dict_values (policy_replicas (w_pm w)))"
    using assms(2) by (simp add: pm_arrived_def arrived_values_def)
  then have "dict_get (policy_replicas (w_pm w)) (rp_name r) = Some r"
    by (rule reps_ok_name_value [OF winv_reps(1) [OF assms(1)]])
  then show "rp_role r = POLICY"
    using reps_ok_get [OF winv_reps(1) [OF assms(1)]] by simp
  show "arrived r" using assms(2) by (simp add: pm_arrived_def arrived_values_def)
  show "dict_has (status (w_pm w)) (rp_name r)"
    using assms unfolding dict_has_iff by (auto simp: winv_def pinv_def table_inv_def)
qed

lemma arrived_distinct: "winv w \<Longrightarrow> distinct (map rp_name (pm_arrived (w_pm w)))"
  unfolding pm_arrived_def arrived_values_def
  by (intro distinct_map_filter_names reps_ok_distinct [OF winv_reps(1)])

text \<open>The state a dispatch reaches before the step is reported.\<close>

definition step_state :: "world \<Rightarrow> data_fetcher \<Rightarrow> bool \<Rightarrow> world" where
  "step_state w d sv =
     (let rs = pm_arrived (w_pm w); items = c_train_batch (w_cfg w); p = open_step (items * int (length rs)) (w_pm w);
          n = nat items * length rs
      in w\<lparr>w_df := d,
           w_pm := p\<lparr>rollout_buffer := drop n (rollout_buffer p), status := running rs (status p)\<rparr>,
           w_bus := fold (\<lambda>r. trigger_data_fetch r items (current_step p) (training_horizon (w_pm w))
                     (remain_samples_num p) sv) rs
             ((w_bus w)\<lparr>rollout_log := rollout_log (w_bus w) @
                zip (map rp_name (concat (replicate (nat items) rs))) (rollout_buffer p)\<rparr>)\<rparr>)"

lemma dispatch_step_eq:
  assumes inv: "winv w" and cfg: "cfg_ok w"
    and enough: "rollouts_enough_for_one_step (w_cfg w) (w_pm w)"
  shows "\<exists>d sv ros. dispatch_step w = report_dispatched ros (step_state w d sv)
    \<and> df_val_batches d = df_val_batches (w_df w)"
proof -
  let ?rs = "pm_arrived (w_pm w)" and ?items = "c_train_batch (w_cfg w)"
  let ?n = "?items * int (length ?rs)"
  let ?w = "onP (open_step ?n) w"
  let ?xs = "concat (replicate (nat ?items) ?rs)"
  obtain d where act: "activate_validation_if_due (training_horizon (w_pm w)) ?w = Inr (?w\<lparr>w_df := d\<rparr>)"
    and d: "df_val_batches d = df_val_batches (w_df w)"
    using activate_ok [of ?w "training_horizon (w_pm w)"] cfg by (auto simp: cfg_ok_def)
  have len: "length ?xs = nat ?items * length ?rs"
    by (simp add: length_concat sum_list_replicate)
  have "int (length ?xs) = ?n"
    using inv by (simp add: len winv_def)
  then have le: "length ?xs \<le> length (rollout_buffer (w_pm w))"
    using enough cfg by (simp add: rollouts_enough_for_one_step_def cfg_ok_def total_pending_rollouts_def)
  have xs: "set ?xs \<subseteq> set ?rs" by (auto split: if_splits)
  let ?w2 = "?w\<lparr>w_df := d, w_bus := (w_bus w)\<lparr>rollout_log := rollout_log (w_bus w)
      @ zip (map rp_name ?xs) (rollout_buffer (w_pm w))\<rparr>,
    w_pm := (open_step ?n (w_pm w))\<lparr>rollout_buffer := drop (length ?xs) (rollout_buffer (w_pm w))\<rparr>\<rparr>"
  have ob: "rollout_buffer (open_step ?n (w_pm w)) = rollout_buffer (w_pm w)"
    "status (open_step ?n (w_pm w)) = status (w_pm w)"
    "samples_per_epoch (open_step ?n (w_pm w)) = samples_per_epoch (w_pm w)"
    by (simp_all add: open_step_def)
  have disp: "dispatch_rollouts ?items ?rs (?w\<lparr>w_df := d\<rparr>) = Inr (take (length ?xs) (rollout_buffer (w_pm w)), ?w2)"
  proof -
    have "forR ?xs send_head ([], ?w\<lparr>w_df := d\<rparr>) = Inr (take (length ?xs) (rollout_buffer (w_pm w)), ?w2)"
      using send_head_loop [of ?xs "?w\<lparr>w_df := d\<rparr>" "[]"] xs arrived_policy [OF inv] le ob(1) by auto
    then show ?thesis
      using cfg by (simp add: dispatch_rollouts_def dispatch_interleaved_def cfg_ok_def)
  qed
  have "if 0 < c_save_freq_in_epoch (w_cfg ?w2) then samples_per_epoch (w_pm ?w2) \<noteq> 0
      else c_save_freq (w_cfg ?w2) \<noteq> 0"
    using cfg ob(3) by (simp add: cfg_ok_def)
  then obtain sv where sv: "check_checkpoint_saving (w_cfg ?w2) ?n (w_pm ?w2) = Inr sv"
    using check_saving_ok by blast
  have has: "\<forall>r \<in> set ?rs. dict_has (status (w_pm ?w2)) (rp_name r)"
    using arrived_policy(3) [OF inv] ob(2) by simp
  have "dispatch_step w = report_dispatched (take (length ?xs) (rollout_buffer (w_pm w))) (step_state w d sv)"
    unfolding dispatch_step_def Let_def act bindR_simps disp prod.case sv sum.case fetch_loop [OF has]
    by (simp add: step_state_def Let_def ob onP_def flip: len)
  with d show ?thesis by blast
qed

lemma step_state_fields:
  fixes w d sv
  defines "rs \<equiv> pm_arrived (w_pm w)" and "items \<equiv> c_train_batch (w_cfg w)"
  shows "w_cfg (step_state w d sv) = w_cfg w" "w_rm (step_state w d sv) = w_rm w"
    "w_df (step_state w d sv) = d"
    "policy_replicas (w_pm (step_state w d sv)) = policy_replicas (w_pm w)"
    "current_step (w_pm (step_state w d sv)) = current_step (w_pm w) + 1"
    "samples_on_the_fly (w_pm (step_state w d sv)) = samples_on_the_fly (w_pm w)"
    "samples_per_epoch (w_pm (step_state w d sv)) = samples_per_epoch (w_pm w)"
    "remain_samples_num (w_pm (step_state w d sv)) = remain_samples_num (w_pm w) - items * int (length rs)"
    "rollout_buffer (w_pm (step_state w d sv)) = drop (nat items * length rs) (rollout_buffer (w_pm w))"
    "dispatched_rollouts_by_step (w_pm (step_state w d sv)) =
       dict_set (current_step (w_pm w) + 1) (items * int (length rs)) (dispatched_rollouts_by_step (w_pm w))"
    "status (w_pm (step_state w d sv)) = running rs (status (w_pm w))"
    "rollout_log (w_bus (step_state w d sv)) = rollout_log (w_bus w) @
       zip (map rp_name (concat (replicate (nat items) rs))) (rollout_buffer (w_pm w))"
  by (simp_all add: step_state_def open_step_def Let_def rs_def items_def)

lemma step_state_received:
  assumes "winv w" and "r \<in> set (pm_arrived (w_pm w))"
  shows "received (rp_name r) (w_bus (step_state w d sv)) = received (rp_name r) (w_bus w) @
    [DataFetch \<lparr>dfa_replica_name = rp_name r, dfa_items_count = c_train_batch (w_cfg w),
       dfa_global_step = Some (current_step (w_pm w) + 1),
       dfa_total_steps = Some (training_horizon (w_pm w)),
       dfa_remain_samples_num = remain_samples_num (w_pm w)
         - c_train_batch (w_cfg w) * int (length (pm_arrived (w_pm w))),
       dfa_do_save = sv, dfa_profile = profile_of r\<rparr>]"
proof -
  let ?rs = "pm_arrived (w_pm w)"
  have "List.find (\<lambda>x. rp_name x = rp_name r) ?rs = Some r"
  proof -
    obtain i where i: "i < length ?rs" and r: "r = ?rs ! i"
      using assms(2) by (auto simp: in_set_conv_nth)
    show ?thesis
      unfolding find_Some_iff
    proof (intro exI [of _ i] conjI allI impI)
      fix j assume j: "j < i"
      then have "map rp_name ?rs ! j \<noteq> map rp_name ?rs ! i"
        using arrived_distinct [OF assms(1)] i by (subst nth_eq_iff_index_eq) auto
      then show "rp_name (?rs ! j) \<noteq> rp_name r"
        using i j r by simp
    qed (use i r in simp_all)
  qed
  then show ?thesis
    by (simp add: step_state_def Let_def received_data_fetches [OF arrived_distinct [OF assms(1)]] open_step_def)
      (simp add: received_def)
qed

lemma count_concat_replicate: "count_list (concat (replicate n xs)) x = n * count_list xs x"
  by (induction n) (simp_all add: count_list_append)

lemma interleaved_share:
  fixes buf :: "rollout list"
  assumes "distinct (map rp_name rs)" and "r \<in> set rs"
    and "length (concat (replicate n rs)) \<le> length buf"
  shows "length (filter (\<lambda>x. fst x = rp_name r) (zip (map rp_name (concat (replicate n rs))) buf)) = n"
proof -
  let ?ns = "map rp_name (concat (replicate n rs))"
  have cl: "length (filter (\<lambda>x. fst x = k) (zip ns ys)) = count_list ns k" if "length ns \<le> length ys"
    for ns :: "string list" and ys :: "rollout list" and k
    using that
  proof (induction ns arbitrary: ys)
    case (Cons a ns)
    then show ?case by (cases ys) auto
  qed simp
  have "length (filter (\<lambda>x. fst x = rp_name r) (zip ?ns buf)) = count_list ?ns (rp_name r)"
    by (rule cl) (use assms(3) in simp)
  also have "\<dots> = n"
    using assms(1,2) by (simp add: map_concat count_concat_replicate count_list_distinct)
  finally show ?thesis .
qed

text \<open>
  C1: Dispatch of a training step, for rollouts in the shared buffer. If the buffer holds
  enough rollouts for all complete policy replicas, the dispatch never blocks and never
  fails before it is through (only the metrics of the report after it can raise). It
  takes exactly the required number of rollouts from the head of the buffer and sends
  them out interleaved, so that every complete replica gets exactly the batch size;
  every such replica receives one data-fetch command for the next step with the same
  contents and is marked running; the step is recorded with the number of rollouts it
  consumed, and the in-flight count does not change.
\<close>

theorem dispatch_step_correct:
  assumes inv: "winv w" and cfg: "cfg_ok w"
    and enough: "rollouts_enough_for_one_step (w_cfg w) (w_pm w)"
    and rs: "rs = pm_arrived (w_pm w)" and items: "items = c_train_batch (w_cfg w)"
    and w': "w' = after (dispatch_step w)"
  shows "(\<forall>e v. dispatch_step w = Inl (e, v) \<longrightarrow> e \<in> {TypeError, AttributeError, ValueError})
    \<and> rollout_buffer (w_pm w') = drop (nat items * length rs) (rollout_buffer (w_pm w))
    \<and> rollout_log (w_bus w') = rollout_log (w_bus w)
        @ zip (map rp_name (concat (replicate (nat items) rs))) (rollout_buffer (w_pm w))
    \<and> (\<forall>r \<in> set rs. length (filter (\<lambda>x. fst x = rp_name r)
          (drop (length (rollout_log (w_bus w))) (rollout_log (w_bus w')))) = nat items)
    \<and> (\<exists>sv. \<forall>r \<in> set rs. received (rp_name r) (w_bus w') = received (rp_name r) (w_bus w) @
          [DataFetch \<lparr>dfa_replica_name = rp_name r, dfa_items_count = items,
             dfa_global_step = Some (current_step (w_pm w) + 1),
             dfa_total_steps = Some (training_horizon (w_pm w)),
             dfa_remain_samples_num = remain_samples_num (w_pm w) - items * int (length rs),
             dfa_do_save = sv, dfa_profile = profile_of r\<rparr>])
    \<and> (\<forall>r \<in> set rs. dict_get (status (w_pm w')) (rp_name r) = Some RUNNING)
    \<and> current_step (w_pm w') = current_step (w_pm w) + 1
    \<and> dict_get (dispatched_rollouts_by_step (w_pm w')) (current_step (w_pm w')) = Some (items * int (length rs))
    \<and> samples_on_the_fly (w_pm w') = samples_on_the_fly (w_pm w)"
proof -
  obtain d sv ros where eq: "dispatch_step w = report_dispatched ros (step_state w d sv)"
    using dispatch_step_eq [OF inv cfg enough] by blast
  obtain ks where ks: "w' = onP (train_report_keys_update (\<lambda>_. ks)) (step_state w d sv)"
    and err: "\<forall>e v. dispatch_step w = Inl (e, v) \<longrightarrow> e \<in> {TypeError, AttributeError, ValueError}"
  proof (cases rule: report_dispatched_cases [of ros "step_state w d sv"])
    case (1 ks)
    then show ?thesis by (intro that [of ks]) (simp_all add: w' eq)
  next
    case (2 e)
    then show ?thesis
      by (intro that [of "train_report_keys (w_pm (step_state w d sv))"]) (simp_all add: w' eq onP_def)
  qed
  have len: "length (concat (replicate (nat items) rs)) \<le> length (rollout_buffer (w_pm w))"
  proof -
    have "int (length (concat (replicate (nat items) rs))) = items * int (length rs)"
      using inv by (simp add: length_concat sum_list_replicate winv_def items)
    then show ?thesis
      using enough cfg by (simp add: rollouts_enough_for_one_step_def cfg_ok_def total_pending_rollouts_def
          rs items)
  qed
  have share: "\<forall>r \<in> set rs. length (filter (\<lambda>x. fst x = rp_name r)
      (zip (map rp_name (concat (replicate (nat items) rs))) (rollout_buffer (w_pm w)))) = nat items"
    using interleaved_share [OF _ _ len] arrived_distinct [OF inv] by (simp add: rs)
  show ?thesis
    using err share step_state_received [OF inv]
    by (simp add: ks step_state_fields dict_get_running rs items)
qed

end
