(* ===== verification/Accounting.thy ===== *)
theory Accounting
  imports Dispatch_Correctness
begin

text \<open>
  The accounting of samples in flight, for rollouts in one shared buffer. \<open>held\<close> is the
  number of samples that were handed out as prompts and are neither buffered nor recorded
  under a dispatched step: what the workers still hold. No operation of the policy manager
  lowers it except the admission or discard of that many rollouts; as long as workers
  return no more than they hold it stays non-negative, and then the assertion of
  \<open>train_ack\<close> that the in-flight count is non-negative holds.
\<close>

section \<open>Samples held by the workers\<close>

definition ledger_total :: "policy_manager \<Rightarrow> int" where
  "ledger_total p = sum_list (dict_values (dispatched_rollouts_by_step p))"

definition held :: "world \<Rightarrow> int" where
  "held w = samples_on_the_fly (w_pm w) - total_pending_rollouts (w_cfg w) (w_pm w) - ledger_total (w_pm w)"

definition acct :: "int \<Rightarrow> world \<Rightarrow> bool" where
  "acct k w \<longleftrightarrow> winv w \<and> cfg_ok w \<and> k \<le> held w"

lemma acct_winv: "acct k w \<Longrightarrow> winv w"
  by (simp add: acct_def)

lemma acct_pinv: "acct k w \<Longrightarrow> pinv (w_pm w)"
  by (simp add: acct_def winv_def)

lemma held_shared:
  "cfg_ok w \<Longrightarrow> held w = samples_on_the_fly (w_pm w) - int (length (rollout_buffer (w_pm w))) - ledger_total (w_pm w)"
  by (simp add: held_def cfg_ok_def total_pending_rollouts_def)

lemma acct_fields_cfg:
  assumes "acct k w" and "winv w'" and "w_cfg w' = (w_cfg w)\<lparr>c_policy_n_init := n, c_rollout_n_init := m\<rparr>"
    and "df_val_batches (w_df w') = df_val_batches (w_df w)"
    and "samples_per_epoch (w_pm w') = samples_per_epoch (w_pm w)"
    and "samples_on_the_fly (w_pm w') = samples_on_the_fly (w_pm w)"
    and "rollout_buffer (w_pm w') = rollout_buffer (w_pm w)"
    and "dispatched_rollouts_by_step (w_pm w') = dispatched_rollouts_by_step (w_pm w)"
  shows "acct k w'"
proof -
  have "cfg_ok w'" using assms by (simp add: acct_def cfg_ok_def)
  then show ?thesis
    using assms held_shared [of w'] held_shared [of w] by (simp add: acct_def ledger_total_def)
qed

lemma acct_fields:
  assumes "acct k w" and "winv w'" and "w_cfg w' = w_cfg w"
    and "df_val_batches (w_df w') = df_val_batches (w_df w)"
    and "samples_per_epoch (w_pm w') = samples_per_epoch (w_pm w)"
    and "samples_on_the_fly (w_pm w') = samples_on_the_fly (w_pm w)"
    and "rollout_buffer (w_pm w') = rollout_buffer (w_pm w)"
    and "dispatched_rollouts_by_step (w_pm w') = dispatched_rollouts_by_step (w_pm w)"
  shows "acct k w'"
  by (rule acct_fields_cfg [OF assms(1,2), where n = "c_policy_n_init (w_cfg w)" and m = "c_rollout_n_init (w_cfg w)"])
    (simp_all add: assms)

lemma ledger_total_set_new:
  "dict_get d k = None \<Longrightarrow> sum_list (dict_values (dict_set k v d)) = sum_list (dict_values d) + (v::int)"
  by (induction d) (auto split: if_splits)

lemma ledger_total_pop:
  "wf_dict d \<Longrightarrow> sum_list (dict_values (dict_pop k d)) =
     sum_list (dict_values d) - (case dict_get d k of None \<Rightarrow> 0 | Some v \<Rightarrow> (v::int))"
proof (induction d)
  case Nil
  then show ?case by (simp add: dict_pop_def)
next
  case (Cons p d)
  have pop: "dict_pop k (p # d) = (if fst p = k then dict_pop k d else p # dict_pop k d)"
    by (simp add: dict_pop_def)
  have "dict_get d k = None" if "fst p = k"
    using Cons.prems that by (auto simp: wf_dict_def dict_get_None_iff)
  then show ?case
    using Cons by (auto simp: pop wf_dict_def split: option.splits)
qed

lemma ledger_fresh:
  assumes "ledger_inv p"
  shows "dict_get (dispatched_rollouts_by_step p) (current_step p + 1) = None"
  using assms by (auto simp: ledger_inv_def list_all_iff dict_get_None_iff)

lemma ledger_total_nonneg: "ledger_inv p \<Longrightarrow> 0 \<le> ledger_total p"
  unfolding ledger_inv_def ledger_total_def
  by (intro list_all_sum_nonneg) (auto simp: list_all_iff dict_values_def)

section \<open>Dispatch moves samples from the buffer to the ledger\<close>

lemma held_step_state:
  assumes inv: "winv w" and cfg: "cfg_ok w" and enough: "rollouts_enough_for_one_step (w_cfg w) (w_pm w)"
    and d: "df_val_batches d = df_val_batches (w_df w)"
  shows "held (step_state w d sv) = held w \<and> cfg_ok (step_state w d sv)"
proof -
  let ?n = "c_train_batch (w_cfg w) * int (length (pm_arrived (w_pm w)))"
  have cfg': "cfg_ok (step_state w d sv)"
    using cfg by (simp add: cfg_ok_def step_state_fields d)
  have led: "ledger_total (w_pm (step_state w d sv)) = ledger_total (w_pm w) + ?n"
    using inv by (simp add: ledger_total_def step_state_fields ledger_total_set_new ledger_fresh winv_def pinv_def)
  have m: "int (nat (c_train_batch (w_cfg w)) * length (pm_arrived (w_pm w))) = ?n"
    using inv by (simp add: winv_def)
  have "?n \<le> int (length (rollout_buffer (w_pm w)))"
    using enough cfg by (simp add: rollouts_enough_for_one_step_def cfg_ok_def total_pending_rollouts_def)
  then have "nat (c_train_batch (w_cfg w)) * length (pm_arrived (w_pm w)) \<le> length (rollout_buffer (w_pm w))"
    using m by linarith
  then have "int (length (rollout_buffer (w_pm (step_state w d sv)))) = int (length (rollout_buffer (w_pm w))) - ?n"
    unfolding step_state_fields length_drop using m by (simp only: of_nat_diff)
  then show ?thesis
    using cfg cfg' led by (simp add: held_shared step_state_fields)
qed

lemma acct_dispatch_step:
  assumes "acct k w" and enough: "rollouts_enough_for_one_step (w_cfg w) (w_pm w)"
  shows "keeps (acct k) (dispatch_step w)"
proof -
  have inv: "winv w" and cfg: "cfg_ok w" and k: "k \<le> held w"
    using assms(1) by (simp_all add: acct_def)
  obtain d sv ros where eq: "dispatch_step w = report_dispatched ros (step_state w d sv)"
    and d: "df_val_batches d = df_val_batches (w_df w)"
    using dispatch_step_eq [OF inv cfg enough] by blast
  have "winv (after (dispatch_step w))"
    using dispatch_step_winv [OF inv] by (simp add: keeps_def)
  moreover have "held (after (dispatch_step w)) = held (step_state w d sv)
      \<and> cfg_ok (after (dispatch_step w)) = cfg_ok (step_state w d sv)"
    by (cases rule: report_dispatched_cases [of ros "step_state w d sv"])
      (simp_all add: eq held_def total_pending_rollouts_def ledger_total_def cfg_ok_def)
  ultimately show ?thesis
    using held_step_state [OF inv cfg enough d] k by (simp add: keeps_def acct_def)
qed

lemma acct_try_trigger: "acct k w \<Longrightarrow> keeps (acct k) (try_trigger_data_fetch_and_training w)"
  by (simp add: try_trigger_data_fetch_and_training_def acct_dispatch_step)

section \<open>Admission and discard\<close>

lemma acct_put_rollout:
  assumes "acct (k + 1) w"
  shows "keeps (acct k) (put_rollout r w)"
proof (cases "append_eos (w_cfg w) (w_tok w) r")
  case (Inl e)
  with assms show ?thesis by (simp add: put_rollout_def acct_def)
next
  case (Inr x)
  let ?w = "w\<lparr>w_pm := (w_pm w)\<lparr>rollout_buffer := rollout_buffer (w_pm w) @ [x]\<rparr>\<rparr>"
  have "acct k ?w"
  proof -
    have "winv ?w" using assms by (auto simp: acct_def winv_def intro: pinv_buffers)
    moreover have "cfg_ok ?w" using assms by (simp add: acct_def cfg_ok_def)
    moreover have "held ?w = held w - 1"
      using assms calculation(2) by (simp add: acct_def held_shared ledger_total_def)
    ultimately show ?thesis
      using assms by (simp add: acct_def)
  qed
  moreover have "put_rollout r w = try_trigger_data_fetch_and_training ?w"
    using assms by (simp add: put_rollout_def Inr liftP_def buffer_rollout_def acct_def cfg_ok_def)
  ultimately show ?thesis by (simp add: acct_try_trigger)
qed

lemma acct_mono: "acct k w \<Longrightarrow> j \<le> k \<Longrightarrow> acct j w"
  by (simp add: acct_def)

lemma keeps_via_mono: "keeps_via g I r \<Longrightarrow> (\<And>s. I s \<Longrightarrow> J s) \<Longrightarrow> keeps_via g J r"
  by (cases r) (auto simp: keeps_via_def)

lemma acct_arm:
  assumes "acct k w"
  shows "acct k (maybe_arm_transport_cleanup r w)"
  by (rule acct_fields [OF assms arm_winv [OF acct_winv [OF assms]]])
    (simp_all add: maybe_arm_transport_cleanup_def)

lemma acct_note:
  assumes "acct k w"
  shows "acct k (note_on_policy_completed w)"
  by (rule acct_fields [OF assms note_winv [OF acct_winv [OF assms]]])
    (simp_all add: note_on_policy_completed_def)

lemma acct_admit:
  assumes "acct (k + 1) (snd (snd s))"
  shows "keeps_via (\<lambda>s. snd (snd s)) (acct k) (admit_rollout r s)"
proof -
  obtain tokens n w where s: "s = (tokens, n, w)" by (cases s) auto
  have w: "acct (k + 1) w" using assms by (simp add: s)
  show ?thesis
    using w acct_mono [OF w, of k]
    by (auto simp: admit_rollout_def s split: sum.splits
        intro!: keeps_via_bind_plain acct_put_rollout acct_arm acct_note)
qed

lemma acct_put_rollouts:
  assumes "acct (k + int (length rs)) w"
  shows "keeps_via (\<lambda>s. snd (snd s)) (acct k) (put_rollouts rs w)"
proof -
  have "keeps_via (\<lambda>s. snd (snd s)) (acct k) (forR rs admit_rollout s)"
    if "acct (k + int (length rs)) (snd (snd s))" for s
    using that
  proof (induction rs arbitrary: s)
    case Nil
    then show ?case by simp
  next
    case (Cons r rs)
    have step: "keeps_via (\<lambda>s. snd (snd s)) (acct (k + int (length rs))) (admit_rollout r s)"
      using Cons.prems by (intro acct_admit) (simp add: algebra_simps)
    show ?case
    proof (cases "admit_rollout r s")
      case (Inl ew)
      then show ?thesis
        using step by (auto simp: keeps_via_def intro: acct_mono)
    next
      case (Inr t)
      then have "acct (k + int (length rs)) (snd (snd t))" using step by simp
      then show ?thesis using Cons.IH Inr by simp
    qed
  qed
  then show ?thesis
    unfolding put_rollouts_def using assms by simp
qed

section \<open>Settlement\<close>

lemma acct_settle:
  assumes "acct (k + n) w" and "0 \<le> n"
  shows "acct k (onP (settle_samples_on_the_fly n) w)"
proof -
  let ?w = "onP (settle_samples_on_the_fly n) w"
  have "winv ?w" using assms by (intro winv_onP settle_pinv winv_pinv) (auto simp: acct_def)
  moreover have cfg: "cfg_ok ?w" using assms by (simp add: acct_def cfg_ok_def settle_samples_on_the_fly_def)
  moreover have "held w - n \<le> held ?w"
    using assms cfg by (simp add: acct_def held_shared settle_samples_on_the_fly_def ledger_total_def)
  ultimately show ?thesis using assms(1) by (simp add: acct_def)
qed

definition frame_pm :: "policy_manager \<Rightarrow> policy_manager \<Rightarrow> bool" where
  "frame_pm p p' \<longleftrightarrow> samples_per_epoch p' = samples_per_epoch p
     \<and> samples_on_the_fly p' = samples_on_the_fly p \<and> rollout_buffer p' = rollout_buffer p
     \<and> dispatched_rollouts_by_step p' = dispatched_rollouts_by_step p"

lemma acct_onP:
  assumes "acct k w" and "pinv (f (w_pm w))" and "frame_pm (w_pm w) (f (w_pm w))"
  shows "acct k (onP f w)"
  using assms by (intro acct_fields [OF assms(1)] winv_onP acct_winv) (auto simp: frame_pm_def)

lemma acct_frame [simp]:
  "acct k (w\<lparr>w_bus := b\<rparr>) = acct k w"
  by (simp add: acct_def cfg_ok_def held_def)

lemma acct_df: "acct k w \<Longrightarrow> df_val_batches d = df_val_batches (w_df w) \<Longrightarrow> acct k (w\<lparr>w_df := d\<rparr>)"
  by (simp add: acct_def cfg_ok_def held_def)

lemma acct_liftP:
  assumes "acct k w" and "keeps pinv (f (w_pm w))" and "frame_pm (w_pm w) (after (f (w_pm w)))"
  shows "keeps (acct k) (liftP f w)"
proof -
  have "after (liftP f w) = onP (\<lambda>_. after (f (w_pm w))) w"
    by (auto simp: liftP_def onP_def after_def split: sum.splits)
  then show ?thesis
    using acct_onP [OF assms(1), of "\<lambda>_. after (f (w_pm w))"] assms(2,3) by (simp add: keeps_def)
qed

lemma acct_set_status:
  assumes "acct k w" and "st \<noteq> UNINITIALIZED"
  shows "keeps (acct k) (liftP (set_status nm st) w)"
  using assms by (intro acct_liftP set_status_pinv winv_pinv acct_winv)
    (auto simp: frame_pm_def set_status_def py_assert_def)

lemma acct_set_all:
  assumes "acct k w" and "st \<noteq> UNINITIALIZED"
  shows "keeps (acct k) (pm_set_all st nms w)"
  unfolding pm_set_all_def using assms by (intro keeps_forR acct_set_status)

lemma acct_publish: "acct k w \<Longrightarrow> acct k (publish_payload_transport_cleanup rs m w)"
  by (auto simp: publish_payload_transport_cleanup_def frame_pm_def
      intro!: acct_onP intro: pinv_fields dest: acct_pinv)

lemma acct_cleanup_buffered:
  assumes "acct k w"
  shows "acct k (snd (cleanup_buffered_rollouts w))"
proof -
  let ?n = "int (length (rollout_buffer (w_pm w)))"
  let ?w = "onP (empty_buffers (w_cfg w)) w"
  have mesh: "\<not> c_dispatch_as_rank_in_mesh (w_cfg w)" using assms by (simp add: acct_def cfg_ok_def)
  have "winv ?w" using assms by (intro winv_onP empty_buffers_pinv winv_pinv acct_winv) auto
  moreover have cfg: "cfg_ok ?w" using assms by (simp add: acct_def cfg_ok_def empty_buffers_def)
  moreover have "held ?w = held w + ?n"
    using assms cfg mesh by (simp add: acct_def held_shared empty_buffers_def ledger_total_def)
  ultimately have w: "acct (k + ?n) ?w" using assms by (simp add: acct_def)
  show ?thesis
  proof (cases "rollout_buffer (w_pm w) = []")
    case True
    with w mesh show ?thesis
      by (simp add: cleanup_buffered_rollouts_def buffered_rollouts_def discard_rollouts_def)
  next
    case False
    with mesh show ?thesis
      using acct_settle [OF acct_publish [OF w]]
      by (simp add: cleanup_buffered_rollouts_def buffered_rollouts_def discard_rollouts_def)
  qed
qed

text \<open>The accounting of a discarded or terminal result: workers give up what they held.\<close>

lemma acct_settle_discarded:
  assumes "acct (k + max 0 n) w"
  shows "acct k (onP (\<lambda>p. snd (settle_discarded_samples src rid n p)) w)"
proof -
  have base: "acct k w" using assms by (rule acct_mono) simp
  have ids: "acct j (onP (applied_discard_report_ids_update (\<lambda>_. d)) w)" if "acct j w" for j d
    using that by (intro acct_onP) (auto simp: frame_pm_def intro: pinv_fields dest: acct_pinv)
  have rec: "acct j (onP (add_filter_record x m) v)" if "acct j v" for j x m v
    using that by (intro acct_onP add_filter_record_pinv winv_pinv acct_winv)
      (auto simp: frame_pm_def add_filter_record_def)
  show ?thesis
  proof (cases "\<exists>i. rid = PStr i \<and> i \<noteq> [] \<and> 0 < n")
    case False
    then have "settle_discarded_samples src rid n p = (0, p)" for p
      by (auto simp: settle_discarded_samples_def split: pyval.splits)
    with base show ?thesis by (simp add: onP_def)
  next
    case True
    then obtain i where i: "rid = PStr i" "i \<noteq> []" and n: "0 < n" by blast
    let ?applied = "dict_get_or (applied_discard_report_ids (w_pm w)) src {}"
    let ?ids = "\<lambda>s. onP (applied_discard_report_ids_update
      (\<lambda>_. dict_set src s (applied_discard_report_ids (w_pm w)))) w"
    have "onP (\<lambda>p. snd (settle_discarded_samples src rid n p)) w =
        (if i \<in> ?applied then ?ids ?applied
         else onP (settle_samples_on_the_fly n) (onP (add_filter_record ''rollout_failed'' n) (?ids (insert i ?applied))))"
      using i n by (simp add: onP_def settle_discarded_samples_def Let_def)
    moreover have "acct (k + n) w" using assms n by simp
    ultimately show ?thesis
      using base n by (auto intro!: ids acct_settle rec)
  qed
qed

section \<open>The staleness filter\<close>

definition fresh_at :: "config \<Rightarrow> policy_manager \<Rightarrow> nat \<times> rollout \<Rightarrow> bool" where
  "fresh_at c p x \<longleftrightarrow>
     estimated_step c (fst x) p - ro_weight_version (snd x) \<le> c_allowed_outdated_steps c"

lemma estimated_step_adopted [simp]:
  "estimated_step c i (p\<lparr>weight_max_adopted_version := v\<rparr>) = estimated_step c i p"
  by (simp add: estimated_step_def total_pending_rollouts_def pm_arrived_def)

lemma judge_step:
  assumes "c_train_batch c \<noteq> 0" and "ro_weight_version (snd x) \<le> current_step p"
  shows "judge_rollout c x (msk, stale, p) =
    Inr (msk @ [fresh_at c p x],
      if fresh_at c p x then stale @ [estimated_step c (fst x) p - ro_weight_version (snd x)] else stale,
      p\<lparr>weight_max_adopted_version := max (weight_max_adopted_version p) (ro_weight_version (snd x))\<rparr>)"
  using assms by (cases x) (simp add: judge_rollout_def Let_def fresh_at_def)

lemma judge_loop:
  assumes "c_train_batch c \<noteq> 0" and "\<forall>x \<in> set xs. ro_weight_version (snd x) \<le> current_step p"
  shows "forR xs (judge_rollout c) (msk, stale, p) =
    Inr (msk @ map (fresh_at c p) xs,
      stale @ map (\<lambda>x. estimated_step c (fst x) p - ro_weight_version (snd x)) (filter (fresh_at c p) xs),
      p\<lparr>weight_max_adopted_version := fold max (map (ro_weight_version \<circ> snd) xs) (weight_max_adopted_version p)\<rparr>)"
  using assms(2)
proof (induction xs arbitrary: msk stale p)
  case Nil
  then show ?case by simp
next
  case (Cons x xs)
  let ?p = "p\<lparr>weight_max_adopted_version := max (weight_max_adopted_version p) (ro_weight_version (snd x))\<rparr>"
  have fr: "fresh_at c ?p = fresh_at c p"
    by (simp add: fresh_at_def fun_eq_iff)
  have "max (ro_weight_version (snd x)) (weight_max_adopted_version p)
      = max (weight_max_adopted_version p) (ro_weight_version (snd x))"
    by (rule max.commute)
  then show ?case
    using Cons.prems Cons.IH [of ?p] by (simp add: judge_step [OF assms(1)] fr)
qed

lemma judge_error:
  assumes "c_train_batch c \<noteq> 0" and "\<not> (\<forall>x \<in> set xs. ro_weight_version (snd x) \<le> current_step p)"
  shows "\<exists>p'. forR xs (judge_rollout c) (msk, stale, p) = Inl (AssertionError, p')"
  using assms(2)
proof (induction xs arbitrary: msk stale p)
  case Nil
  then show ?case by simp
next
  case (Cons x xs)
  show ?case
  proof (cases "ro_weight_version (snd x) \<le> current_step p")
    case False
    then show ?thesis by (cases x) (simp add: judge_rollout_def)
  next
    case True
    let ?p = "p\<lparr>weight_max_adopted_version := max (weight_max_adopted_version p) (ro_weight_version (snd x))\<rparr>"
    obtain m st where "judge_rollout c x (msk, stale, p) = Inr (m, st, ?p)"
      using judge_step [OF assms(1) True] by blast
    then show ?thesis
      using Cons.IH [of ?p m st] Cons.prems True by simp
  qed
qed

lemma kept_of_map:
  "kept_of rs (map f (zip [j..<j + length rs] rs)) = map snd (filter f (zip [j..<j + length rs] rs))"
proof (induction rs arbitrary: j)
  case Nil
  then show ?case by (simp add: kept_of_def)
next
  case (Cons r rs)
  have upt: "[j..<j + length (r # rs)] = j # [Suc j..<Suc j + length rs]"
    by (simp add: upt_conv_Cons del: upt_Suc)
  show ?case
    unfolding upt using Cons.IH [of "Suc j"] by (simp add: kept_of_def)
qed

text \<open>The outcome of the filter when no rollout is newer than the current step.\<close>

lemma filter_outdated_eq:
  assumes "c_train_batch (w_cfg w) \<noteq> 0"
    and "\<forall>r \<in> set rs. ro_weight_version r \<le> current_step (w_pm w)"
  defines "kept \<equiv> map snd (filter (fresh_at (w_cfg w) (w_pm w)) (zip [0..<length rs] rs))"
  defines "n \<equiv> int (length rs) - int (length kept)"
  shows "\<exists>w1 msk. filter_outdated_rollouts rs w = Inr (kept,
      if 0 < n then publish_payload_transport_cleanup rs msk (onP (settle_samples_on_the_fly n) w1) else w1)
    \<and> w1 = w\<lparr>w_pm := w_pm w1\<rparr> \<and> frame_pm (w_pm w) (w_pm w1)
    \<and> remain_samples_num (w_pm w1) = remain_samples_num (w_pm w) - n
    \<and> weight_max_adopted_version (w_pm w1) = fold max (map ro_weight_version rs) (weight_max_adopted_version (w_pm w))
    \<and> dict_get (filter_records (w_pm w1)) ''outdated'' = Some (dict_get_or (filter_records (w_pm w)) ''outdated'' 0 + n)
    \<and> (pinv (w_pm w) \<longrightarrow> pinv (w_pm w1))"
proof -
  let ?xs = "zip [0..<length rs] rs"
  let ?msk = "map (fresh_at (w_cfg w) (w_pm w)) ?xs"
  let ?stale = "map (\<lambda>x. estimated_step (w_cfg w) (fst x) (w_pm w) - ro_weight_version (snd x))
    (filter (fresh_at (w_cfg w) (w_pm w)) ?xs)"
  let ?p = "(w_pm w)\<lparr>weight_max_adopted_version :=
    fold max (map (ro_weight_version \<circ> snd) ?xs) (weight_max_adopted_version (w_pm w))\<rparr>"
  let ?q = "if ?stale \<noteq> [] then ?p\<lparr>weight_accepted_staleness := ?stale\<rparr> else ?p"
  let ?w1 = "onP (\<lambda>_. add_filter_record ''outdated'' n (?q\<lparr>remain_samples_num := remain_samples_num ?q - n\<rparr>)) w"
  have snd_xs: "map (ro_weight_version \<circ> snd) ?xs = map ro_weight_version rs"
    by (metis length_map list.map_comp map_nth map_snd_zip)
  have "\<forall>x \<in> set ?xs. ro_weight_version (snd x) \<le> current_step (w_pm w)"
    using assms(2) by (auto dest: set_zip_rightD)
  from judge_loop [OF assms(1) this, of "[]" "[]"]
  have loop: "forR ?xs (judge_rollout (w_cfg w)) ([], [], w_pm w) = Inr (?msk, ?stale, ?p)"
    by simp
  have kept: "kept_of rs ?msk = kept"
    using kept_of_map [of rs "fresh_at (w_cfg w) (w_pm w)" 0] by (simp add: kept_def)
  have "filter_outdated_rollouts rs w = Inr (kept,
      if 0 < n then publish_payload_transport_cleanup rs ?msk (onP (settle_samples_on_the_fly n) ?w1) else ?w1)"
    unfolding filter_outdated_rollouts_def loop sum.case prod.case Let_def kept n_def [symmetric]
    by (simp add: onP_def)
  moreover have "?w1 = w\<lparr>w_pm := w_pm ?w1\<rparr>"
    by (simp add: onP_def)
  moreover have "frame_pm (w_pm w) (w_pm ?w1)"
    by (simp add: frame_pm_def add_filter_record_def)
  moreover have "remain_samples_num (w_pm ?w1) = remain_samples_num (w_pm w) - n
    \<and> weight_max_adopted_version (w_pm ?w1) = fold max (map ro_weight_version rs) (weight_max_adopted_version (w_pm w))
    \<and> dict_get (filter_records (w_pm ?w1)) ''outdated'' = Some (dict_get_or (filter_records (w_pm w)) ''outdated'' 0 + n)"
    by (simp add: add_filter_record_def snd_xs)
  moreover have "pinv (w_pm ?w1)" if "pinv (w_pm w)"
  proof -
    have "pinv (?q\<lparr>remain_samples_num := remain_samples_num ?q - n\<rparr>)"
      by (rule pinv_fields [OF that]) simp_all
    then show ?thesis by (simp add: add_filter_record_pinv)
  qed
  ultimately show ?thesis by blast
qed

lemma acct_filter_outdated:
  assumes "acct (k + int (length rs)) w" and "filter_outdated_rollouts rs w = Inr (kept, w')"
  shows "acct (k + int (length kept)) w' \<and> length kept \<le> length rs"
proof -
  have batch: "c_train_batch (w_cfg w) \<noteq> 0" using assms(1) by (simp add: acct_def winv_def)
  let ?kept = "map snd (filter (fresh_at (w_cfg w) (w_pm w)) (zip [0..<length rs] rs))"
  let ?n = "int (length rs) - int (length ?kept)"
  have fresh: "\<forall>r \<in> set rs. ro_weight_version r \<le> current_step (w_pm w)"
  proof (rule ccontr)
    assume bad: "\<not> ?thesis"
    have "set rs = set (map snd (zip [0..<length rs] rs))" by simp
    then have eq: "set rs = snd ` set (zip [0..<length rs] rs)" by (simp only: set_map)
    have "\<not> (\<forall>x \<in> set (zip [0..<length rs] rs). ro_weight_version (snd x) \<le> current_step (w_pm w))"
      using bad unfolding eq by simp
    then show False
      using judge_error [OF batch, of "zip [0..<length rs] rs" "w_pm w" "[]" "[]"] assms(2)
      by (auto simp: filter_outdated_rollouts_def)
  qed
  have le: "length ?kept \<le> length rs"
    using length_filter_le [of "fresh_at (w_cfg w) (w_pm w)" "zip [0..<length rs] rs"] by simp
  obtain w1 msk where eq: "filter_outdated_rollouts rs w = Inr (?kept,
      if 0 < ?n then publish_payload_transport_cleanup rs msk (onP (settle_samples_on_the_fly ?n) w1) else w1)"
    and w1: "w1 = w\<lparr>w_pm := w_pm w1\<rparr>" "frame_pm (w_pm w) (w_pm w1)" "pinv (w_pm w) \<longrightarrow> pinv (w_pm w1)"
    using filter_outdated_eq [OF batch fresh] by blast
  have "acct (k + int (length rs)) (onP (\<lambda>_. w_pm w1) w)"
    using assms(1) w1(2,3) by (intro acct_onP) (auto dest: acct_pinv)
  then have w1': "acct (k + int (length rs)) w1"
    using w1(1) by (simp add: onP_def)
  have kept: "kept = ?kept" and res: "w' = (if 0 < ?n then publish_payload_transport_cleanup rs msk
      (onP (settle_samples_on_the_fly ?n) w1) else w1)"
    using assms(2) unfolding eq sum.inject prod.inject by blast+
  have "acct (k + int (length ?kept)) w'"
  proof (cases "0 < ?n")
    case True
    show ?thesis
      unfolding res if_P [OF True]
      by (intro acct_publish acct_settle) (use w1' le in simp_all)
  next
    case False
    show ?thesis
      unfolding res if_not_P [OF False] using w1' by (rule acct_mono) (use le in simp)
  qed
  with le kept show ?thesis by simp
qed

section \<open>Acknowledgements and draining\<close>

lemma acct_terminal: "acct k w \<Longrightarrow> acct k (onP (terminal_complete_update (\<lambda>_. True)) w)"
  by (intro acct_onP terminal_pinv acct_pinv) (auto simp: frame_pm_def)

lemma acct_record_real:
  assumes "acct k w"
  shows "acct k (record_real_datafetch_acked step ts w)"
proof -
  have "acct k (onP (\<lambda>p. p\<lparr>last_real_acked_step := Some step, last_real_acked_total_steps := Some ts\<rparr>) w)"
    using assms by (intro acct_onP) (auto simp: frame_pm_def intro: pinv_fields dest: acct_pinv)
  then show ?thesis
    by (auto simp: record_real_datafetch_acked_def Let_def intro!: acct_cleanup_buffered acct_terminal)
qed

text \<open>Settlement of a dispatched step: with nothing owed to workers below zero, the
  assertion on the in-flight count holds.\<close>

lemma acct_settle_train_ack:
  assumes "acct k w" and "0 \<le> k"
  shows "\<exists>w'. settle_train_ack step ts w = Inr w' \<and> acct k w'"
proof -
  let ?rec = "dict_get (dispatched_rollouts_by_step (w_pm w)) step"
  let ?dec = "case ?rec of None \<Rightarrow> 0 | Some n \<Rightarrow> n"
  let ?w = "onP (\<lambda>p. p\<lparr>dispatched_rollouts_by_step := dict_pop step (dispatched_rollouts_by_step p),
    samples_on_the_fly := samples_on_the_fly p - ?dec\<rparr>) w"
  have pinv: "pinv (w_pm w)" using assms(1) by (rule acct_pinv)
  have inv: "winv ?w" using assms(1) by (intro winv_onP ledger_pop_pinv pinv acct_winv)
  have cfg: "cfg_ok ?w" using assms(1) by (simp add: acct_def cfg_ok_def)
  have "ledger_total (w_pm ?w) = ledger_total (w_pm w) - ?dec"
    using pinv by (simp add: ledger_total_def ledger_total_pop pinv_def ledger_inv_def)
  then have held: "held ?w = held w"
    using assms(1) cfg by (simp add: acct_def held_shared)
  then have w: "acct k ?w" using assms(1) inv cfg by (simp add: acct_def)
  have "0 \<le> ledger_total (w_pm ?w)"
    using inv by (intro ledger_total_nonneg) (simp add: winv_def pinv_def)
  moreover have "k \<le> held ?w" using w by (simp only: acct_def)
  ultimately have "0 \<le> samples_on_the_fly (w_pm ?w)"
    using held_shared [OF cfg] assms(2) of_nat_0_le_iff [of "length (rollout_buffer (w_pm ?w))"] by linarith
  then have "settle_train_ack step ts w =
      Inr (if c_mode (w_cfg ?w) \<noteq> ''colocated'' \<and> \<not> c_val_enable (w_cfg ?w) \<and> ?rec \<noteq> None \<and> 0 < ?dec
           then record_real_datafetch_acked step ts ?w else ?w)"
    by (simp add: settle_train_ack_def Let_def)
  with w show ?thesis
    by (auto simp del: onP_simps intro!: acct_record_real)
qed

lemma acct_end_profile:
  assumes "acct k w"
  shows "acct k (end_profile nm w)"
  by (rule acct_fields [OF assms end_profile_winv [OF acct_winv [OF assms]]]) (simp_all add: end_profile_def)

lemma acct_report_acked:
  assumes "acct k w"
  shows "acct k (report_acked w)"
  by (rule acct_fields [OF assms report_acked_winv [OF acct_winv [OF assms]]])
    (use assms in \<open>auto simp: report_acked_def Let_def acct_def cfg_ok_def split: option.splits pyval.splits\<close>)

lemma send_frames [simp]:
  "w_cfg (after (send_p2r src dst ws ts w)) = w_cfg w" "w_pm (after (send_p2r src dst ws ts w)) = w_pm w"
  "w_df (after (send_p2r src dst ws ts w)) = w_df w"
  "w_cfg (send_r2r src dsts ws ts w) = w_cfg w" "w_pm (send_r2r src dsts ws ts w) = w_pm w"
  "w_df (send_r2r src dsts ws ts w) = w_df w"
  by (simp_all add: send_p2r_def send_r2r_def Let_def split: option.splits prod.splits)

lemma acct_send_p2r:
  assumes "acct k w" and "dst \<in> set (dict_values (rollout_replicas (w_rm w)))"
  shows "keeps (acct k) (send_p2r src dst ws ts w)"
  using winv_send_p2r [OF acct_winv [OF assms(1)] assms(2)] unfolding keeps_def
  by (intro acct_fields [OF assms(1)]) simp_all

lemma acct_send_r2r:
  assumes "acct k w" and "set dsts \<subseteq> set (dict_values (rollout_replicas (w_rm w)))"
  shows "acct k (send_r2r src dsts ws ts w)"
  using winv_send_r2r [OF acct_winv [OF assms(1)] assms(2)]
  by (intro acct_fields [OF assms(1)]) simp_all

lemma sync_targets_values:
  "set (weight_sync_rollout_targets v) \<subseteq> set (dict_values (rollout_replicas (w_rm v)))"
  by (auto simp: weight_sync_rollout_targets_def get_safe_weight_sync_replicas_def Let_def
      rm_arrived_def arrived_values_def)

lemma acct_sync_weights:
  assumes "acct k w"
  shows "keeps (acct k) (sync_weights step src w)"
proof -
  have staged: "acct k (onP (weight_last_staged_step_update (\<lambda>_. x)) v)" if "acct k v" for x v
    using that by (intro acct_onP) (auto simp: frame_pm_def intro: pinv_fields dest: acct_pinv)
  have "keeps (acct k) (trigger_weight_sync src step ts w)" for ts
  proof (cases "weight_sync_rollout_targets w")
    case (Cons dst rest)
    then have dst: "dst \<in> set (dict_values (rollout_replicas (w_rm w)))"
      using sync_targets_values [of w] by auto
    show ?thesis
      using assms unfolding trigger_weight_sync_def Cons list.case Let_def
      by (auto split: option.splits simp del: pick_Cons list.map
          intro!: keeps_bindR acct_send_p2r dst staged acct_send_r2r pick_values)
  qed (use assms in \<open>simp add: trigger_weight_sync_def\<close>)
  moreover have "acct k (onP (\<lambda>p. p\<lparr>weight_coalesced_skips := weight_coalesced_skips p + 1\<rparr>) w)"
    using assms by (intro acct_onP) (auto simp: frame_pm_def intro: pinv_fields dest: acct_pinv)
  ultimately show ?thesis
    by (simp add: sync_weights_def)
qed

lemma acct_trigger_complete:
  assumes "acct k w"
  shows "keeps (acct k) (trigger_training_complete w)"
proof -
  have "acct k (onP (\<lambda>p. p\<lparr>completion_step := Some x,
      completion_recipients := set (map rp_name (pm_arrived (w_pm w))), completion_acks := {}\<rparr>) w)"
    if "pm_arrived (w_pm w) \<noteq> []" for x
    using acct_pinv [OF assms] that by (intro acct_onP assms) (auto simp: pinv_def inv_defs pm_arrived_def frame_pm_def)
  then show ?thesis
    using assms by (auto simp: trigger_training_complete_def Let_def intro!: keeps_bindR acct_set_all)
qed

lemma acct_finish_tail: "acct k w \<Longrightarrow> keeps (acct k) (finish_tail w)"
  unfolding finish_tail_def Let_def
  by (auto intro!: keeps_if acct_terminal acct_trigger_complete acct_cleanup_buffered)

lemma acct_finish_draining:
  assumes "acct k w"
  shows "keeps (acct k) (finish_draining_phase w)"
proof -
  have "acct k (onP enter_draining_phase w)"
    using assms by (intro acct_onP enter_draining_pinv acct_pinv) (auto simp: frame_pm_def enter_draining_phase_def)
  then show ?thesis
    using assms by (auto simp: finish_draining_phase_def Let_def intro!: keeps_bindR acct_try_trigger
        acct_finish_tail acct_cleanup_buffered)
qed

lemma acct_next:
  assumes "acct k w"
  shows "keeps (acct k) (next_after_ack w)"
proof -
  have "acct k (onP (on_policy_rollout_completed_update (\<lambda>_. False)) v)" if "acct k v" for v
    using that by (intro acct_onP) (auto simp: frame_pm_def intro: pinv_fields dest: acct_pinv)
  then show ?thesis
    unfolding next_after_ack_def using assms
    by (intro keeps_bindR keeps_if acct_finish_draining acct_try_trigger) auto
qed

lemma acct_all_acked:
  assumes "acct k w" and "0 \<le> k"
  shows "keeps (acct k) (all_acked nm step ts pf w)"
proof -
  obtain w' where "settle_train_ack step ts w = Inr w'" and w': "acct k w'"
    using acct_settle_train_ack [OF assms] by blast
  then show ?thesis
    by (auto simp: all_acked_def Let_def split: sum.splits intro!: keeps_bindR acct_set_all
        acct_sync_weights acct_next acct_report_acked acct_end_profile)
qed

lemma acct_activate:
  assumes "acct k w"
  shows "keeps (acct k) (activate_validation_if_due h w)"
proof -
  have "c_val_enable (w_cfg w) \<longrightarrow> c_val_freq (w_cfg w) \<noteq> 0 \<and> df_val_batches (w_df w) \<noteq> None"
    using assms by (simp add: acct_def cfg_ok_def)
  from activate_ok [OF this, of h] show ?thesis
    using assms by (auto intro: acct_df)
qed

lemma acct_sft_report:
  assumes "acct k w"
  shows "keeps (acct k) (sft_report_summary w)"
proof -
  have "acct k (onP (report_data_list_update (\<lambda>_. [])) w)"
    using assms by (intro acct_onP) (auto simp: frame_pm_def intro: pinv_fields dest: acct_pinv)
  then show ?thesis
    unfolding sft_report_summary_def by (intro acct_set_all) simp_all
qed

lemma acct_sft_train_ack:
  assumes "acct k w"
  shows "keeps (acct k) (sft_train_ack nm report w)"
proof -
  have step: "acct k (onP (\<lambda>p. p\<lparr>current_step := current_step p + 1\<rparr>) v)" if "acct k v" for v
    using that by (intro acct_onP) (auto simp: frame_pm_def intro: pinv_fields dest: acct_pinv)
  have remain: "acct k (onP (\<lambda>p. p\<lparr>remain_samples_num := f p\<rparr>) v)" if "acct k v" for f v
    using that by (intro acct_onP) (auto simp: frame_pm_def intro: pinv_fields dest: acct_pinv)
  show ?thesis
    unfolding sft_train_ack_def Let_def using assms
    by (auto intro!: keeps_bindR acct_set_status step acct_activate acct_sft_report remain)
qed

lemma acct_train_ack:
  assumes "acct k w" and "0 \<le> k"
  shows "keeps (acct k) (train_ack nm step ts pf report w)"
proof -
  obtain acked p where ack: "record_completion_ack nm step (w_pm w) = (acked, p)"
    by (cases "record_completion_ack nm step (w_pm w)")
  have "acct k (onP (\<lambda>_. p) w)"
    using record_completion_ack_pinv [OF acct_pinv [OF assms(1)], of nm step] ack
    by (intro acct_onP assms(1)) (auto simp: frame_pm_def record_completion_ack_def Let_def split: if_splits)
  then have p: "acct k (w\<lparr>w_pm := p\<rparr>)" by (simp add: onP_def)
  have rep: "acct k (onP (\<lambda>p. p\<lparr>report_data_list := report_data_list p @ [report]\<rparr>) v)" if "acct k v" for v
    using that by (intro acct_onP) (auto simp: frame_pm_def intro: pinv_fields dest: acct_pinv)
  show ?thesis
    unfolding train_ack_def ack Let_def using assms p
    by (auto intro!: acct_set_status rep acct_sft_train_ack keeps_bindR acct_all_acked)
qed

lemma acct_validation_report:
  assumes "acct k w"
  shows "keeps (acct k) (validation_report_validation_results step results w)"
proof -
  have val: "acct k (onP (\<lambda>p. p\<lparr>val_report_data := f p\<rparr>) v)" if "acct k v" for f v
    using that by (intro acct_onP) (auto simp: frame_pm_def intro: pinv_fields dest: acct_pinv)
  show ?thesis
    unfolding validation_report_validation_results_def Let_def using assms
    by (auto intro!: keeps_bindR keeps_nonzero acct_try_trigger acct_df val
        simp: clear_validation_status_def)
qed

section \<open>Registration and departure\<close>

lemma acct_store:
  assumes "acct k w" and "winv (onP (policy_replicas_update f) w)"
  shows "acct k (onP (policy_replicas_update f) w)"
  using assms by (intro acct_fields [OF assms(1)]) simp_all

lemma acct_pm_rebuild:
  assumes "acct k w"
  shows "keeps (acct k) (pm_trigger_rebuild_mesh valid w)"
proof -
  let ?rs = "by_start_time (pick valid (policy_replicas (w_pm w)))"
  have "same_cores (policy_replicas (w_pm w)) (store_replicas (ranked ?rs) (policy_replicas (w_pm w)))"
    using pick_values [of valid] by (intro ranked_same_cores [OF winv_reps(1) [OF acct_winv [OF assms]]]) auto
  then have "pinv (policy_replicas_update (store_replicas (ranked ?rs)) (w_pm w))"
    using acct_pinv [OF assms] by (subst replicas_update, intro pinv_cores)
  then have stored: "acct k (onP (policy_replicas_update (store_replicas (ranked ?rs))) (w\<lparr>w_bus := b\<rparr>))" for b
    using assms by (intro acct_store winv_onP acct_winv) (auto dest: acct_winv)
  have rec: "keeps (acct k) (liftP (recompute_total_steps c e) v)" if "acct k v" for c e v
    using that by (intro acct_liftP recompute_pinv acct_pinv)
      (auto simp: frame_pm_def recompute_total_steps_def Let_def py_nonzero_def)
  have rea: "keeps (acct k) (liftP (rearrange_rollout_buffer c n) v)" if "acct k v" for c n v
    using that by (intro acct_liftP rearrange_pinv acct_pinv)
      (auto simp: frame_pm_def rearrange_rollout_buffer_def)
  show ?thesis
    unfolding pm_trigger_rebuild_mesh_def Let_def build_mesh_ranked
    using assms stored
    by (auto intro!: keeps_bindR rec rea acct_df simp: set_policy_global_mesh_size_def)
qed

lemma acct_pm_unregister:
  assumes "acct k w"
  shows "keeps (acct k) (pm_unregister now nm w)"
proof (cases "dict_get (policy_replicas (w_pm w)) nm")
  case None
  with assms show ?thesis by (simp add: pm_unregister_def)
next
  case (Some r)
  let ?w1 = "onP (policy_replicas_update (dict_pop nm)) w"
  let ?w2 = "onP (\<lambda>p. p\<lparr>status := dict_pop nm (status p),
    p_scaling_log := p_scaling_log p @ [scaling_down now r]\<rparr>) ?w1"
  have un: "pm_unregister now nm w =
      (if \<not> dict_has (status (w_pm w)) nm then Inl (KeyError, ?w1)
       else if training_finished (w_pm ?w2) \<or> nm \<in> completion_acks (w_pm ?w2) then Inr ?w2
       else if in_mesh r \<and> pm_arrived (w_pm ?w2) \<noteq> []
       then pm_trigger_rebuild_mesh (map rp_name (pm_arrived (w_pm ?w2))) ?w2 else Inr ?w2)"
    unfolding pm_unregister_def Some Let_def by simp
  have one: "acct k ?w1" if "\<not> dict_has (status (w_pm w)) nm"
  proof (rule acct_store [OF assms])
    show "winv ?w1"
      using pm_unregister_winv [OF acct_winv [OF assms], of now nm] that by (simp add: un)
  qed
  have two: "acct k ?w2" if has: "dict_has (status (w_pm w)) nm"
  proof (rule acct_fields [OF assms])
    have eq: "w_pm ?w2 = (w_pm w)\<lparr>policy_replicas := dict_pop nm (policy_replicas (w_pm w)),
        status := dict_pop nm (status (w_pm w)),
        p_scaling_log := p_scaling_log (w_pm w) @ [scaling_down now r]\<rparr>"
      by (cases "w_pm w") simp
    have "pinv (w_pm ?w2)"
      unfolding eq using acct_pinv [OF assms] unregister_table [OF _ has]
      by (simp add: pinv_def phase_inv_def completion_inv_def ledger_inv_def)
    then show "winv ?w2" using acct_winv [OF assms] by (simp add: winv_def)
  qed simp_all
  show ?thesis
    unfolding un using one two acct_pm_rebuild [OF two] by (auto simp del: onP_simps not_None_eq)
qed

lemma acct_pm_first:
  assumes "acct k w"
  shows "keeps (acct k) (pm_first_replica nm w)"
proof -
  have flag: "acct k (onP (first_policy_replica_arrived_update (\<lambda>_. True)) v)" if "acct k v" for v
    using that by (intro acct_onP) (auto simp: frame_pm_def intro: pinv_fields dest: acct_pinv)
  have resumed: "acct k (onP (policy_replicas_update (store_replicas [set_loaded r])) (v\<lparr>w_bus := b\<rparr>))"
    if "acct k v" "dict_get (policy_replicas (w_pm v)) nm = Some r" for v r b
    using winv_store_map [of "v\<lparr>w_bus := b\<rparr>" "[r]" set_loaded] acct_winv [OF that(1)] that(1)
      dict_get_in_values [OF that(2)] by (intro acct_store) simp_all
  have seed: "keeps (acct k) (pm_seed_rollouts src v)" if v: "acct k v" for src v
  proof (cases "filter arrived (by_start_time (dict_values (rollout_replicas (w_rm v))))")
    case Nil
    with v show ?thesis by (simp add: pm_seed_rollouts_def)
  next
    case (Cons dst rest)
    then have "dst \<in> set (filter arrived (by_start_time (dict_values (rollout_replicas (w_rm v)))))"
      by simp
    then have dst: "dst \<in> set (dict_values (rollout_replicas (w_rm v)))" by simp
    show ?thesis
      unfolding pm_seed_rollouts_def Cons Let_def list.case
      by (intro keeps_bindR keeps_if acct_send_p2r v dst)
        (simp_all add: acct_send_r2r pick_values del: pick_Cons list.map)
  qed
  show ?thesis
    unfolding pm_first_replica_def Let_def trigger_weight_resume_def
    by (intro keeps_bindR keeps_assert assms)
      (auto split: option.splits intro!: seed resumed flag)
qed

lemma acct_first_broadcast:
  assumes "acct k w"
  shows "keeps (acct k) (pm_first_broadcast valid w)"
proof -
  have "acct k (onP (policy_replicas_update (store_replicas
      (map set_loaded (pick valid (policy_replicas (w_pm w)))))) (w\<lparr>w_bus := b\<rparr>))" for b
    using assms pick_values [of valid "policy_replicas (w_pm w)"]
    by (intro acct_store winv_store_map) (simp_all add: acct_winv)
  then show ?thesis
    using assms by (auto simp: pm_first_broadcast_def Let_def trigger_p2p_broadcast_def split: option.splits)
qed

lemma acct_initial_mesh:
  assumes "acct k w"
  shows "keeps (acct k) (pm_initial_mesh valid w)"
proof -
  have "acct k (onP (policy_init_done_update (\<lambda>_. True)) w)"
    using assms by (intro acct_onP) (auto simp: frame_pm_def intro: pinv_fields dest: acct_pinv)
  moreover have "c_mode (w_cfg v) \<noteq> ''colocated''" if "acct k v" for v
    using that by (simp add: acct_def cfg_ok_def)
  ultimately show ?thesis
    unfolding pm_initial_mesh_def
    by (intro keeps_bindR keeps_if acct_pm_rebuild acct_first_broadcast acct_set_all) auto
qed

lemma acct_scale_up:
  assumes "acct k w"
  shows "keeps (acct k) (pm_scale_up valid target w)"
proof -
  have stored: "keeps (acct k) (liftP (set_status target READY)
      (onP (policy_replicas_update (store_replicas [set_loaded t])) (v\<lparr>w_bus := b\<rparr>)))"
    if "acct k v" "dict_get (policy_replicas (w_pm v)) target = Some t" for v t b
    using winv_store_map [of "v\<lparr>w_bus := b\<rparr>" "[t]" set_loaded] acct_winv [OF that(1)] that(1)
      dict_get_in_values [OF that(2)] by (intro acct_set_status acct_store) simp_all
  have tail: "keeps (acct k) (case dict_get (policy_replicas (w_pm v)) target of None \<Rightarrow> Inr v
      | Some t \<Rightarrow> let (t', b) = trigger_p2p_unicast src t (Some (total_steps (w_pm v))) (w_bus v)
          in liftP (set_status target READY)
               (onP (policy_replicas_update (store_replicas [t'])) (v\<lparr>w_bus := b\<rparr>)))"
    if "acct k v" for v src
    using that by (auto simp: trigger_p2p_unicast_def Let_def split: option.splits intro!: stored)
  show ?thesis
    unfolding pm_scale_up_def
    by (intro keeps_bindR keeps_assert assms)
      (auto split: option.splits intro!: keeps_bindR keeps_assert acct_pm_rebuild tail)
qed

lemma acct_hook:
  assumes "acct k w"
  shows "keeps (acct k) (pm_post_register_hook valid target w)"
proof -
  have "keeps (acct k) (liftD (validation_activate_dataloader 0) w)" if "c_val_enable (w_cfg w)"
    using assms that val_activate_ok [of "w_df w" 0]
    by (auto simp: liftD_def acct_def cfg_ok_def held_def)
  then show ?thesis
    unfolding pm_post_register_hook_def using assms
    by (intro keeps_bindR keeps_if acct_initial_mesh acct_scale_up) auto
qed

lemma pm_complete_frame:
  "w_cfg (after (pm_complete now a v)) = w_cfg v" "w_df (after (pm_complete now a v)) = w_df v"
  "frame_pm (w_pm v) (w_pm (after (pm_complete now a v)))"
  by (auto simp: pm_complete_def liftP_def set_status_def py_assert_def frame_pm_def)

lemma acct_pm_register:
  assumes "acct k w" and gs: "length (at_group_size a) = length MESH_NAMES"
  shows "keeps (acct k) (pm_register a now w)"
proof (cases "arrive_in POLICY a now (policy_replicas (w_pm w))")
  case (Inl ed)
  obtain e d where ed: "ed = (e, d)" by (cases ed)
  have "d = policy_replicas (w_pm w)"
    using arrive_in_error [OF winv_reps(1) [OF acct_winv [OF assms(1)]]] Inl ed by blast
  then show ?thesis using assms(1) by (simp add: pm_register_def Inl ed onP_def)
next
  case (Inr d)
  let ?w = "pm_raise_n_init (onP (policy_replicas_update (\<lambda>_. d)) w)"
  have inv: "winv w" using assms(1) by (rule acct_winv)
  have but: "table_but (at_replica_name a) (w_pm ?w)"
    using arrive_in_table_but [OF _ Inr gs] inv by (simp add: winv_def pinv_def)
  have rest: "0 < c_train_batch (w_cfg ?w)" "rm_inv (w_rm ?w)" "phase_inv (w_pm ?w)"
    "completion_inv (w_pm ?w)" "ledger_inv (w_pm ?w)"
    using inv by (simp_all add: winv_def pinv_def phase_inv_def completion_inv_def ledger_inv_def)
  have cfg: "w_cfg ?w = (w_cfg w)\<lparr>c_policy_n_init := c_policy_n_init (w_cfg ?w),
      c_rollout_n_init := c_rollout_n_init (w_cfg w)\<rparr>" and df: "w_df ?w = w_df w"
    by (simp_all add: pm_raise_n_init_def)
  obtain r where r: "dict_get (policy_replicas (w_pm ?w)) (at_replica_name a) = Some r"
    using but by (auto simp: table_but_def)
  show ?thesis
  proof (cases "arrived r")
    case False
    then have "winv ?w"
      using table_but_arrived [OF but r] rest by (simp add: winv_def pinv_def)
    then have "acct k ?w"
      by (rule acct_fields_cfg [OF assms(1) _ cfg]) (simp_all add: df)
    with False r show ?thesis by (simp add: pm_register_def Inr Let_def)
  next
    case True
    have "keeps (acct k) (pm_complete now a ?w)"
      unfolding keeps_def
    proof (rule acct_fields_cfg [OF assms(1), where n = "c_policy_n_init (w_cfg ?w)" and m = "c_rollout_n_init (w_cfg w)"])
      show "winv (after (pm_complete now a ?w))"
        using pm_complete_winv [OF rest(1,2) but rest(3-5)] by (simp add: keeps_def)
      show "w_cfg (after (pm_complete now a ?w)) = (w_cfg w)\<lparr>c_policy_n_init := c_policy_n_init (w_cfg ?w),
          c_rollout_n_init := c_rollout_n_init (w_cfg w)\<rparr>"
        unfolding pm_complete_frame(1) by (rule cfg)
    qed (use pm_complete_frame [where v = ?w and now = now and a = a] df in \<open>simp_all add: frame_pm_def\<close>)
    moreover have "pm_register a now w = bindR (pm_complete now a ?w) (\<lambda>w.
        let valid = map rp_name (pm_arrived (w_pm w)) in
        bindR (if length valid = 1 then pm_first_replica (at_replica_name a) w else Inr w)
          (pm_post_register_hook valid (at_replica_name a)))"
      using True r by (simp add: pm_register_def Inr Let_def)
    ultimately show ?thesis
      unfolding Let_def by (auto intro!: keeps_bindR acct_pm_first acct_hook)
  qed
qed

text \<open>
  C5: As long as the workers hold a non-negative number of samples, a training
  acknowledgement never fails the assertion that the in-flight count is non-negative:
  settling the acknowledged step succeeds, whatever the step, and the workers hold at
  least as many samples as before after the whole acknowledgement, even if it raises
  later on.
\<close>

theorem train_ack_settles:
  assumes "winv w" and "cfg_ok w" and "0 \<le> held w"
  shows "(\<exists>w'. settle_train_ack step ts w = Inr w')
    \<and> held w \<le> held (after (train_ack nm step ts pf report w))"
proof -
  have w: "acct (held w) w" using assms by (simp add: acct_def)
  have "acct (held w) (after (train_ack nm step ts pf report w))"
    using acct_train_ack [OF w assms(3)] by (simp add: keeps_def)
  then show ?thesis
    using acct_settle_train_ack [OF w assms(3), of step ts] by (auto simp: acct_def)
qed

text \<open>
  C12: The staleness filter keeps, in order, exactly the rollouts whose estimated training
  step is at most the allowed number of steps ahead of the weights that produced them,
  provided no rollout claims weights newer than the current step; the others are
  subtracted from the remaining samples, from the samples in flight (never below zero)
  and added to the \<open>outdated\<close> record, and the adopted weight version becomes the newest one
  seen. If some rollout claims newer weights the filter raises an assertion error.
\<close>

theorem filter_outdated_spec:
  assumes "0 < c_train_batch (w_cfg w)"
    and kept: "kept = map snd (filter (fresh_at (w_cfg w) (w_pm w)) (zip [0..<length rs] rs))"
    and n: "n = int (length rs) - int (length kept)"
  shows "if \<forall>r \<in> set rs. ro_weight_version r \<le> current_step (w_pm w)
    then \<exists>w'. filter_outdated_rollouts rs w = Inr (kept, w')
      \<and> remain_samples_num (w_pm w') = remain_samples_num (w_pm w) - n
      \<and> samples_on_the_fly (w_pm w') =
          (if n = 0 then samples_on_the_fly (w_pm w) else max 0 (samples_on_the_fly (w_pm w) - n))
      \<and> weight_max_adopted_version (w_pm w') =
          fold max (map ro_weight_version rs) (weight_max_adopted_version (w_pm w))
      \<and> dict_get (filter_records (w_pm w')) ''outdated'' =
          Some (dict_get_or (filter_records (w_pm w)) ''outdated'' 0 + n)
    else \<exists>w'. filter_outdated_rollouts rs w = Inl (AssertionError, w')"
proof (cases "\<forall>r \<in> set rs. ro_weight_version r \<le> current_step (w_pm w)")
  case True
  have le: "0 \<le> n"
    using length_filter_le [of "fresh_at (w_cfg w) (w_pm w)" "zip [0..<length rs] rs"] by (simp add: n kept)
  have batch: "c_train_batch (w_cfg w) \<noteq> 0" using assms(1) by simp
  obtain w1 msk where "filter_outdated_rollouts rs w = Inr (kept,
      if 0 < n then publish_payload_transport_cleanup rs msk (onP (settle_samples_on_the_fly n) w1) else w1)"
    and "frame_pm (w_pm w) (w_pm w1)"
    and "remain_samples_num (w_pm w1) = remain_samples_num (w_pm w) - n"
    and "weight_max_adopted_version (w_pm w1) = fold max (map ro_weight_version rs) (weight_max_adopted_version (w_pm w))"
    and "dict_get (filter_records (w_pm w1)) ''outdated'' = Some (dict_get_or (filter_records (w_pm w)) ''outdated'' 0 + n)"
    using filter_outdated_eq [OF batch True] unfolding kept [symmetric] n [symmetric] by blast
  with True le show ?thesis
    by (auto simp: publish_payload_transport_cleanup_def settle_samples_on_the_fly_def frame_pm_def)
next
  case False
  let ?xs = "zip [0..<length rs] rs"
  have "set rs = set (map snd ?xs)" by simp
  then have eq: "set rs = snd ` set ?xs" by (simp only: set_map)
  have "\<not> (\<forall>x \<in> set ?xs. ro_weight_version (snd x) \<le> current_step (w_pm w))"
    using False unfolding eq by simp
  then obtain p' where "forR ?xs (judge_rollout (w_cfg w)) ([], [], w_pm w) = Inl (AssertionError, p')"
    using judge_error [of "w_cfg w" ?xs "w_pm w" "[]" "[]"] assms(1) by auto
  with False show ?thesis
    by (simp add: filter_outdated_rollouts_def)
qed

end
