(* ===== verification/Controller_Model.thy ===== *)
theory Controller_Model
  imports Accounting
begin

text \<open>
  \<open>Controller\<close> of cosmos_rl/dispatcher/controller.py: the key-value store of the NCCL
  handshakes, the serving of prompts with its soft and hard throttles and the tagging of
  prompts with weight versions, profiling and trace requests, rollout statistics,
  heartbeats, registration by role, and the collection of NCCL errors. Time is an
  argument. The wait between an NCCL error and its clean-up is two operations here: the
  report, and what the delayed continuation does.
\<close>

record controller =
  k_world :: world
  k_kv_store :: "(string, string) dict"
  k_soft_engaged_since :: "rat option"
  k_soft_last_log :: rat
  k_prompt_num :: "(int, int) dict"
  k_stat_tokens :: int
  k_stat_samples :: int
  k_begin_time :: "rat option"
  k_teachers :: "string set"
  k_ncclerror_invoke_id :: int
  k_is_rl :: bool

definition onW :: "(world \<Rightarrow> world) \<Rightarrow> controller \<Rightarrow> controller" where
  "onW f k = k\<lparr>k_world := f (k_world k)\<rparr>"

definition liftW :: "(world \<Rightarrow> world outcome) \<Rightarrow> controller \<Rightarrow> controller outcome" where
  "liftW f k = (case f (k_world k) of
     Inl (e, w) \<Rightarrow> Inl (e, k\<lparr>k_world := w\<rparr>) | Inr w \<Rightarrow> Inr (k\<lparr>k_world := w\<rparr>))"

section \<open>Key-value store\<close>

definition update_kv_store :: "string \<Rightarrow> string \<Rightarrow> controller \<Rightarrow> controller" where
  "update_kv_store key v k = k\<lparr>k_kv_store := dict_set key v (k_kv_store k)\<rparr>"

definition clear_temp_kv_store :: "string \<Rightarrow> controller \<Rightarrow> controller outcome" where
  "clear_temp_kv_store key k =
     (if dict_has (k_kv_store k) key then Inr (k\<lparr>k_kv_store := dict_pop key (k_kv_store k)\<rparr>)
      else Inl (KeyError, k))"

definition get_kv_store :: "string \<Rightarrow> controller \<Rightarrow> string option" where
  "get_kv_store key k = dict_get (k_kv_store k) key"

section \<open>Prompts\<close>

definition SOFT_THROTTLE_HEARTBEAT_S :: rat where
  "SOFT_THROTTLE_HEARTBEAT_S = 5"

definition update_soft_throttle_state :: "bool \<Rightarrow> rat \<Rightarrow> controller \<Rightarrow> controller" where
  "update_soft_throttle_state engaged now k =
     (if engaged then
        (case k_soft_engaged_since k of
           None \<Rightarrow> k\<lparr>k_soft_engaged_since := Some now, k_soft_last_log := now\<rparr>
         | Some _ \<Rightarrow> if SOFT_THROTTLE_HEARTBEAT_S \<le> now - k_soft_last_log k
                    then k\<lparr>k_soft_last_log := now\<rparr> else k)
      else (case k_soft_engaged_since k of
              None \<Rightarrow> k | Some _ \<Rightarrow> k\<lparr>k_soft_engaged_since := None\<rparr>))"

type_synonym prompt_answer = "rl_payload list \<times> bool"

text \<open>A call of the data fetcher.\<close>

definition fetch_prompts :: "int \<Rightarrow> int option \<Rightarrow> int option \<Rightarrow> int option \<Rightarrow> controller
    \<Rightarrow> (py_error \<times> controller) + (prompt_answer \<times> controller)" where
  "fetch_prompts n vs rank wv k =
     (case get_batched_prompt (w_cfg (k_world k)) n vs rank wv (w_df (k_world k)) of
        Inl (e, d) \<Rightarrow> Inl (e, onW (w_df_update (\<lambda>_. d)) k)
      | Inr (None, d) \<Rightarrow> Inl (Blocks, onW (w_df_update (\<lambda>_. d)) k)
      | Inr (Some r, d) \<Rightarrow> Inr (r, onW (w_df_update (\<lambda>_. d)) k))"

text \<open>The first weight version, from \<open>v\<close> on, that has not been given all its prompts.\<close>

function bump_version :: "int \<Rightarrow> (int, int) dict \<Rightarrow> int \<Rightarrow> py_error + int" where
  "bump_version gbs m v =
     (case dict_get m v of
        None \<Rightarrow> Inr v
      | Some c \<Rightarrow>
          if c < gbs then Inr v
          else if c = gbs then bump_version gbs m (v + 1)
          else Inl AssertionError)"
  by pat_completeness auto

lemma bump_measure:
  fixes m :: "(int, 'v) dict"
  assumes "dict_get m v = Some c"
  shows "length (filter (\<lambda>k. v + 1 \<le> k) (dict_keys m)) < length (filter (\<lambda>k. v \<le> k) (dict_keys m))"
proof -
  have v: "v \<in> set (dict_keys m)"
    using assms dict_has_iff [of m v] by simp
  have "filter (\<lambda>k. v + 1 \<le> k) (dict_keys m) = filter (\<lambda>k. k \<noteq> v) (filter (\<lambda>k. v \<le> k) (dict_keys m))"
    by (auto simp: filter_filter intro!: filter_cong)
  moreover have "v \<in> set (filter (\<lambda>k. v \<le> k) (dict_keys m))"
    using v by simp
  ultimately show ?thesis
    using length_filter_less [of v "filter (\<lambda>k. v \<le> k) (dict_keys m)" "\<lambda>k. k \<noteq> v"] by simp
qed

termination bump_version
  by (relation "measure (\<lambda>(gbs, m, v). length (filter (\<lambda>k. v \<le> k) (dict_keys m)))")
    (simp_all add: bump_measure)

declare bump_version.simps [simp del]

definition tag_payload :: "int \<Rightarrow> rl_payload \<Rightarrow> int \<times> rl_payload list \<times> controller
    \<Rightarrow> (py_error \<times> controller) + (int \<times> rl_payload list \<times> controller)" where
  "tag_payload gbs p s =
     (let (v, out, k) = s in
      case bump_version gbs (k_prompt_num k) v of
        Inl e \<Rightarrow> Inl (e, k)
      | Inr v \<Rightarrow> Inr (v, out @ [p\<lparr>pl_weight_version := v\<rparr>],
          k\<lparr>k_prompt_num := dict_set v (dict_get_or (k_prompt_num k) v 0 + 1) (k_prompt_num k)\<rparr>))"

text \<open>Tagging with weight versions: prompt by prompt, or for the variant with dynamic
  sampling the whole batch at once.\<close>

definition tag_payloads :: "int \<Rightarrow> int \<Rightarrow> rl_payload list \<Rightarrow> controller
    \<Rightarrow> (py_error \<times> controller) + (rl_payload list \<times> controller)" where
  "tag_payloads gbs wv ps k =
     (if c_variant (w_cfg (k_world k)) \<noteq> ''dapo'' then
        bindR (forR ps (tag_payload gbs) (wv, [], k)) (\<lambda>(v, out, k). Inr (out, k))
      else Inr (map (\<lambda>p. p\<lparr>pl_weight_version := wv\<rparr>) ps,
             k\<lparr>k_prompt_num := dict_set wv (dict_get_or (k_prompt_num k) wv 0 + int (length ps)) (k_prompt_num k)\<rparr>))"

definition check_retries :: "int \<Rightarrow> int \<Rightarrow> controller \<Rightarrow> controller outcome" where
  "check_retries gbs wv k =
     (let c = w_cfg (k_world k) in
      if c_max_retry_for_on_policy c \<le> 0 then Inr k
      else case dict_get (k_prompt_num k) wv of
        None \<Rightarrow> Inl (KeyError, k)
      | Some n \<Rightarrow>
          if gbs = 0 then Inl (ZeroDivisionError, k)
          else if c_max_retry_for_on_policy c < ceil_div n gbs then Inl (RuntimeError, k)
          else Inr k)"

text \<open>What the untagged payloads carry: zero, or for supervised fine-tuning the step.\<close>

definition plain_payload :: "controller \<Rightarrow> rl_payload \<Rightarrow> rl_payload" where
  "plain_payload k p =
     (let w = k_world k in
      if c_type (w_cfg w) = ''sft'' then
        p\<lparr>pl_weight_version := current_step (w_pm w),
          pl_extra_info := Some (dict_set ''remain_samples_num'' (PInt (remain_samples_num (w_pm w)))
            (dict_set ''epoch'' (PInt (df_epoch (w_df w) - 1))
              (case pl_extra_info p of None \<Rightarrow> [] | Some d \<Rightarrow> d)))\<rparr>
      else p\<lparr>pl_weight_version := 0\<rparr>)"

text \<open>The throttles: the number of prompts to fetch, or nothing (\<open>None\<close>).\<close>

definition soft_engaged :: "int \<Rightarrow> world \<Rightarrow> bool" where
  "soft_engaged rpgb w \<longleftrightarrow>
     (c_allowed_outdated_steps (w_cfg w) + 1) * rpgb \<le> samples_on_the_fly (w_pm w)
     \<and> c_variant (w_cfg w) \<noteq> ''dapo''"

definition dapo_engaged :: "int \<Rightarrow> world \<Rightarrow> bool" where
  "dapo_engaged rpgb w \<longleftrightarrow>
     (let c = w_cfg w; pend = total_pending_rollouts c (w_pm w);
          allowed = c_allowed_outdated_steps c - pend div rpgb
      in c_variant c = ''dapo'' \<and> 0 < c_max_retry_for_on_policy c
         \<and> (1 + allowed) * c_max_retry_for_on_policy c * rpgb
             \<le> max (samples_on_the_fly (w_pm w) - pend) 0)"

definition throttle :: "int \<Rightarrow> int \<Rightarrow> world \<Rightarrow> int option" where
  "throttle rpgb n w =
     (let c = w_cfg w;
          n = (if soft_engaged rpgb w then min n (c_outdated_rollout_fetch_batch_size c) else n);
          n = (if dapo_engaged rpgb w then min n (c_outdated_rollout_fetch_batch_size c) else n)
      in case c_max_inflight_steps c of
           None \<Rightarrow> Some n
         | Some m \<Rightarrow> if m * rpgb \<le> samples_on_the_fly (w_pm w) then None else Some n)"

definition finish_prompts :: "bool \<Rightarrow> prompt_answer \<Rightarrow> controller \<Rightarrow> prompt_answer \<times> controller" where
  "finish_prompts is_validation r k =
     (let (ps, is_end) = r;
          k = (if is_validation then k
               else onW (onP (\<lambda>p. p\<lparr>samples_on_the_fly := samples_on_the_fly p
                      + int (length ps) * c_n_generation (w_cfg (k_world k))\<rparr>)) k)
      in ((ps, is_end \<or> (\<not> is_validation \<and> \<not> c_val_enable (w_cfg (k_world k))
                          \<and> training_finished (w_pm (k_world k)))), k))"

text \<open>The answer while no policy replica is registered.\<close>

definition prompts_without_policy :: "int \<Rightarrow> int option \<Rightarrow> int option \<Rightarrow> controller
    \<Rightarrow> (py_error \<times> controller) + (prompt_answer \<times> controller)" where
  "prompts_without_policy n vs rank k =
     (if vs \<noteq> None \<and> df_activated_val_iter (w_df (k_world k)) \<noteq> None
      then fetch_prompts n vs rank None k else Inr (([], True), k))"

definition controlled_prompts :: "int \<Rightarrow> int \<Rightarrow> int option \<Rightarrow> int option \<Rightarrow> int \<Rightarrow> controller
    \<Rightarrow> (py_error \<times> controller) + (prompt_answer \<times> controller)" where
  "controlled_prompts gbs wv vs rank n k =
     bindR (fetch_prompts n vs rank (if c_variant (w_cfg (k_world k)) \<noteq> ''dapo'' then Some wv else None) k)
       (\<lambda>((ps, is_end), k).
     bindR (tag_payloads gbs wv ps k) (\<lambda>(ps, k).
     bindR (check_retries gbs wv k) (\<lambda>k. Inr ((ps, is_end), k))))"

definition uncontrolled_prompts :: "int \<Rightarrow> int option \<Rightarrow> int option \<Rightarrow> int \<Rightarrow> controller
    \<Rightarrow> (py_error \<times> controller) + (prompt_answer \<times> controller)" where
  "uncontrolled_prompts wv vs rank n k =
     (let c = w_cfg (k_world k) in
      bindR (fetch_prompts n vs rank
               (if c_type c \<noteq> ''sft'' \<and> c_variant c \<noteq> ''dapo'' then Some wv else None) k)
        (\<lambda>((ps, is_end), k). Inr ((map (plain_payload k) ps, is_end), k)))"

definition get_batched_prompt_impl :: "rat \<Rightarrow> int \<Rightarrow> int option \<Rightarrow> int option \<Rightarrow> controller
    \<Rightarrow> (py_error \<times> controller) + (prompt_answer \<times> controller)" where
  "get_batched_prompt_impl now n vs rank k =
     (let w = k_world k; c = w_cfg w; is_validation = (vs \<noteq> None) in
      if policy_replicas (w_pm w) = [] then prompts_without_policy n vs rank k
      else if c_n_generation c = 0 then Inl (ZeroDivisionError, k)
      else
        let batch = c_train_batch c * int (length (policy_replicas (w_pm w)));
            gbs = ceil_div batch (c_n_generation c);
            rpgb = (if batch = 0 then 1 else batch);
            wv = current_step (w_pm w) + total_pending_rollouts c (w_pm w) div rpgb;
            control = (\<not> is_validation \<and> c_type c \<noteq> ''sft'' \<and> c_mode c \<noteq> ''colocated'');
            k = (if control then update_soft_throttle_state (soft_engaged rpgb w) now k else k)
        in case (if control then throttle rpgb n w else Some n) of
             None \<Rightarrow> Inr (([], is_validation), k)
           | Some n \<Rightarrow>
               bindR (if control \<and> r_scaling_log (w_rm w) = [] \<and> p_scaling_log (w_pm w) = []
                      then controlled_prompts gbs wv vs rank n k
                      else uncontrolled_prompts wv vs rank n k)
                 (\<lambda>(r, k). Inr (finish_prompts is_validation r k)))"

section \<open>Profiling and traces\<close>

record set_profile_request =
  sp_replica_name :: string
  sp_active_steps :: int
  sp_rank_filter :: "int list"
  sp_record_shape :: bool
  sp_profile_memory :: bool
  sp_with_stack :: bool
  sp_with_modules :: bool

definition requested_profile :: "set_profile_request \<Rightarrow> sub_profiler_config" where
  "requested_profile q = default_profiler\<lparr>do_profile := True, active_steps := sp_active_steps q,
     rank_filter := sp_rank_filter q, record_shape := sp_record_shape q,
     profile_memory := sp_profile_memory q, with_stack := sp_with_stack q,
     with_modules := sp_with_modules q\<rparr>"

definition set_profile :: "set_profile_request \<Rightarrow> controller \<Rightarrow> controller" where
  "set_profile q k =
     (case dict_get (policy_replicas (w_pm (k_world k))) (sp_replica_name q) of
        None \<Rightarrow> k
      | Some r \<Rightarrow>
          if do_profile (sub_profiler_cfg r) then k
          else onW (onP (policy_replicas_update (dict_upd (sp_replica_name q)
                 (sub_profiler_cfg_update (\<lambda>_. requested_profile q))))) k)"

definition set_trace_path :: "string \<Rightarrow> string \<Rightarrow> int \<Rightarrow> controller
    \<Rightarrow> (py_error \<times> controller) + (string option \<times> controller)" where
  "set_trace_path nm path rank k =
     (case dict_get (policy_replicas (w_pm (k_world k))) nm of
        None \<Rightarrow> Inr (None, k)
      | Some r \<Rightarrow>
          (case replica_set_trace_path path rank r of
             Inl e \<Rightarrow> Inl (e, k)
           | Inr (a, r') \<Rightarrow> Inr (Some a, onW (onP (policy_replicas_update (dict_upd nm (\<lambda>_. r')))) k)))"

section \<open>Rollouts, heartbeats, life cycle\<close>

definition k_put_rollouts :: "rat \<Rightarrow> rollout list \<Rightarrow> controller \<Rightarrow> controller outcome" where
  "k_put_rollouts now rs k =
     (case put_rollouts rs (k_world k) of
        Inl (e, w) \<Rightarrow> Inl (e, k\<lparr>k_world := w\<rparr>)
      | Inr (tokens, n, w) \<Rightarrow>
          Inr (k\<lparr>k_world := w, k_stat_tokens := k_stat_tokens k + int tokens,
                 k_stat_samples := k_stat_samples k + int n,
                 k_begin_time := (case k_begin_time k of None \<Rightarrow> Some now | Some t \<Rightarrow> Some t)\<rparr>))"

definition replica_heartbeat :: "rat \<Rightarrow> string \<Rightarrow> controller \<Rightarrow> controller" where
  "replica_heartbeat now nm k =
     onW (\<lambda>w. if pm_contains nm (w_pm w) then onP (pm_heartbeat now nm) w
              else if rm_contains nm (w_rm w) then w\<lparr>w_rm := rm_heartbeat now nm (w_rm w)\<rparr>
              else w) k"

definition k_register :: "rat \<Rightarrow> atom \<Rightarrow> string \<Rightarrow> controller \<Rightarrow> controller outcome" where
  "k_register now a role k =
     (if role = POLICY then liftW (pm_register a now) k
      else if role = ROLLOUT then liftW (rm_register a now) k
      else if role = REFERENCE then Inr (k\<lparr>k_teachers := insert (at_replica_name a) (k_teachers k)\<rparr>)
      else Inl (GenericException, k))"

definition end_reference_request :: pydict where
  "end_reference_request =
     [(''is_end'', PBool True), (''prompt_idx'', PInt (-1)), (''completion_token_ids'', PList [])]"

definition end_reference_replica :: "controller \<Rightarrow> controller" where
  "end_reference_replica k = onW (\<lambda>w. w\<lparr>w_bus := (w_bus w)\<lparr>teacher_log :=
     teacher_log (w_bus w) @ [(end_reference_request, ''controller'')]\<rparr>\<rparr>) k"

definition k_unregister :: "rat \<Rightarrow> string \<Rightarrow> controller \<Rightarrow> controller outcome" where
  "k_unregister now nm k =
     (if pm_contains nm (w_pm (k_world k)) then liftW (pm_unregister now nm) k
      else if rm_contains nm (w_rm (k_world k)) then liftW (rm_unregister now nm) k
      else if nm \<in> k_teachers k then
        let k = k\<lparr>k_teachers := k_teachers k - {nm}\<rparr>
        in Inr (if k_teachers k \<noteq> {} then end_reference_replica k else k)
      else Inl (GenericException, k))"

section \<open>NCCL errors\<close>

text \<open>The report returns the invoke id that the delayed continuation compares.\<close>

definition set_replica_ncclerror :: "rat \<Rightarrow> string \<Rightarrow> controller
    \<Rightarrow> (py_error \<times> controller) + (int option \<times> controller)" where
  "set_replica_ncclerror now nm k =
     (if pm_contains nm (w_pm (k_world k)) then
        bindR (liftW (liftP (set_ncclerror nm (of_int \<lfloor>now\<rfloor>))) k) (\<lambda>k.
        let i = k_ncclerror_invoke_id k + 1
        in Inr (Some i, k\<lparr>k_ncclerror_invoke_id := i\<rparr>))
      else if rm_contains nm (w_rm (k_world k)) then Inl (NotImplementedError, k)
      else Inr (None, k))"

definition post_ncclerror :: "rat \<Rightarrow> (string, rat) dict \<Rightarrow> world \<Rightarrow> world outcome" where
  "post_ncclerror now reported w =
     (let all = dict_keys (policy_replicas (w_pm w)) in
      if \<not> set (dict_keys reported) \<subseteq> set all then Inl (KeyError, w)
      else forR (filter (\<lambda>nm. \<not> dict_has reported nm) all) (pm_unregister now) w)"

definition ncclerror_continuation :: "rat \<Rightarrow> int \<Rightarrow> controller \<Rightarrow> controller outcome" where
  "ncclerror_continuation now i k =
     (if i \<noteq> k_ncclerror_invoke_id k then Inr k
      else bindR (liftW (\<lambda>w. post_ncclerror now (get_all_policy_report_ncclerror (w_pm w)) w) k)
             (\<lambda>k. Inr (onW (onP clear_ncclerror) k)))"

section \<open>Tagging\<close>

lemma bump_version_spec:
  assumes "bump_version gbs m v = Inr v'"
  shows "v \<le> v' \<and> (0 < gbs \<longrightarrow> dict_get_or m v' 0 < gbs) \<and> (\<forall>u. v \<le> u \<and> u < v' \<longrightarrow> dict_get m u = Some gbs)"
  using assms
proof (induction gbs m v rule: bump_version.induct)
  case (1 gbs m v)
  show ?case
  proof (cases "dict_get m v")
    case None
    with "1.prems" show ?thesis
      by (subst (asm) bump_version.simps) (auto simp: dict_get_or_def)
  next
    case (Some c)
    show ?thesis
    proof (cases "c < gbs")
      case True
      with "1.prems" Some show ?thesis
        by (subst (asm) bump_version.simps) (auto simp: dict_get_or_def)
    next
      case False
      with "1.prems" Some have c: "c = gbs" and rest: "bump_version gbs m (v + 1) = Inr v'"
        by (subst (asm) bump_version.simps, simp split: if_splits)+
      have "dict_get m u = Some gbs" if "v \<le> u" "u < v'" for u
        using "1.IH" [OF Some False c rest] Some c that by (cases "u = v") auto
      with "1.IH" [OF Some False c rest] show ?thesis by auto
    qed
  qed
qed

lemma bump_version_total:
  assumes "\<forall>u. dict_get_or m u 0 \<le> gbs"
  shows "\<exists>v'. bump_version gbs m v = Inr v'"
  using assms
proof (induction gbs m v rule: bump_version.induct)
  case (1 gbs m v)
  show ?case
  proof (cases "dict_get m v")
    case None
    then show ?thesis by (subst bump_version.simps) simp
  next
    case (Some c)
    have "c \<le> gbs"
      using "1.prems" Some by (auto simp: dict_get_or_def dest: spec [of _ v])
    then show ?thesis
      using "1.IH" [OF Some] "1.prems" Some by (subst bump_version.simps) auto
  qed
qed

text \<open>How many prompts of one version a list holds.\<close>

definition tagged :: "int \<Rightarrow> rl_payload list \<Rightarrow> int" where
  "tagged v ps = int (length (filter (\<lambda>p. pl_weight_version p = v) ps))"

lemma tag_loop:
  assumes "\<forall>u. dict_get_or (k_prompt_num k) u 0 \<le> gbs" and "0 < gbs"
  shows "\<exists>v' out' m'. forR ps (tag_payload gbs) (v, out, k) = Inr (v', out @ out', k\<lparr>k_prompt_num := m'\<rparr>)
    \<and> (\<forall>u. dict_get_or m' u 0 = dict_get_or (k_prompt_num k) u 0 + tagged u out')
    \<and> (\<forall>u. dict_get_or m' u 0 \<le> gbs)
    \<and> length out' = length ps \<and> sorted (map pl_weight_version out')
    \<and> (\<forall>p \<in> set out'. v \<le> pl_weight_version p \<and> pl_weight_version p \<le> v') \<and> v \<le> v'"
  using assms(1)
proof (induction ps arbitrary: v out k)
  case Nil
  then show ?case by (intro exI [of _ v] exI [of _ "[]"] exI [of _ "k_prompt_num k"]) (simp add: tagged_def)
next
  case (Cons p ps)
  obtain v1 where v1: "bump_version gbs (k_prompt_num k) v = Inr v1"
    using bump_version_total [OF Cons.prems] by blast
  then have le: "v \<le> v1" and room: "dict_get_or (k_prompt_num k) v1 0 < gbs"
    using bump_version_spec [OF v1] assms(2) by auto
  let ?p = "p\<lparr>pl_weight_version := v1\<rparr>"
  let ?m = "dict_set v1 (dict_get_or (k_prompt_num k) v1 0 + 1) (k_prompt_num k)"
  let ?k = "k\<lparr>k_prompt_num := ?m\<rparr>"
  have m: "dict_get_or ?m u 0 = dict_get_or (k_prompt_num k) u 0 + tagged u [?p]" for u
    by (simp add: dict_get_or_def tagged_def)
  have bound: "\<forall>u. dict_get_or (k_prompt_num ?k) u 0 \<le> gbs"
    using Cons.prems room by (auto simp: dict_get_or_def)
  obtain v' out' m' where
    loop: "forR ps (tag_payload gbs) (v1, out @ [?p], ?k) = Inr (v', (out @ [?p]) @ out', ?k\<lparr>k_prompt_num := m'\<rparr>)"
    and cnt: "\<forall>u. dict_get_or m' u 0 = dict_get_or ?m u 0 + tagged u out'" "\<forall>u. dict_get_or m' u 0 \<le> gbs"
    and len: "length out' = length ps" and srt: "sorted (map pl_weight_version out')"
    and rng: "\<forall>p \<in> set out'. v1 \<le> pl_weight_version p \<and> pl_weight_version p \<le> v'" "v1 \<le> v'"
    using Cons.IH [OF bound, of v1 "out @ [?p]"] by auto
  have "tag_payload gbs p (v, out, k) = Inr (v1, out @ [?p], ?k)"
    by (simp add: tag_payload_def v1)
  then have "forR (p # ps) (tag_payload gbs) (v, out, k) = Inr (v', out @ (?p # out'), k\<lparr>k_prompt_num := m'\<rparr>)"
    using loop by simp
  moreover have "\<forall>u. dict_get_or m' u 0 = dict_get_or (k_prompt_num k) u 0 + tagged u (?p # out')"
    using cnt(1) m by (auto simp: tagged_def)
  ultimately show ?case
    using cnt(2) len srt rng le
    by (intro exI [of _ v'] exI [of _ "?p # out'"] exI [of _ m']) auto
qed

text \<open>
  Tagging prompts with weight versions, outside dynamic sampling. If no version has
  been given more prompts than a training step needs, tagging succeeds and keeps it so:
  each version is given exactly as many more prompts as are tagged with it and never more
  than the global batch size; the tags of one answer never decrease and start at or after
  the current version; every fetched prompt is tagged and none is dropped.
\<close>

theorem tag_payloads_spec:
  assumes "c_variant (w_cfg (k_world k)) \<noteq> ''dapo''"
    and "\<forall>u. dict_get_or (k_prompt_num k) u 0 \<le> gbs" and "0 < gbs"
  shows "\<exists>out m. tag_payloads gbs wv ps k = Inr (out, k\<lparr>k_prompt_num := m\<rparr>)
    \<and> length out = length ps \<and> sorted (map pl_weight_version out)
    \<and> (\<forall>p \<in> set out. wv \<le> pl_weight_version p)
    \<and> (\<forall>u. dict_get_or m u 0 = dict_get_or (k_prompt_num k) u 0 + tagged u out)
    \<and> (\<forall>u. dict_get_or m u 0 \<le> gbs)"
proof -
  obtain v' out m where "forR ps (tag_payload gbs) (wv, [], k) = Inr (v', out, k\<lparr>k_prompt_num := m\<rparr>)"
    and "\<forall>u. dict_get_or m u 0 = dict_get_or (k_prompt_num k) u 0 + tagged u out"
    and "\<forall>u. dict_get_or m u 0 \<le> gbs" and "length out = length ps"
    and "sorted (map pl_weight_version out)" and "\<forall>p \<in> set out. wv \<le> pl_weight_version p"
    using tag_loop [OF assms(2,3), of ps wv "[]"] by auto
  with assms(1) show ?thesis
    by (intro exI [of _ out] exI [of _ m]) (simp add: tag_payloads_def)
qed

section \<open>The fetcher keeps its validation dataloader\<close>

definition valB :: "batch list option \<Rightarrow> data_fetcher \<Rightarrow> bool" where
  "valB B d \<longleftrightarrow> df_val_batches d = B"

lemma valB_next: "valB B d \<Longrightarrow> keeps_via snd (valB B) (next_batch c vs d)"
  by (auto simp: next_batch_def next_train_batch_def next_val_batch_def valB_def Let_def
      split: option.splits list.splits)

lemma valB_place: "valB B (snd s) \<Longrightarrow> keeps_via snd (valB B) (place_prompt c vs rank wv n x s)"
  by (auto simp: place_prompt_def valB_def Let_def count_fetched_def put_buffer_def
      split: prod.splits option.splits sum.splits)

lemma valB_rounds:
  assumes "valB B (snd s)"
  shows "keeps_via (\<lambda>r. snd (snd r)) (valB B) (fetch_rounds j c vs rank wv n bsz s)"
  using assms
proof (induction j arbitrary: s)
  case 0
  then show ?case by simp
next
  case (Suc j)
  show ?case
    unfolding fetch_rounds.simps
  proof (rule keeps_via_bind [where g = snd])
    show "keeps_via snd (valB B) (next_batch c vs (snd s))"
      using Suc.prems by (rule valB_next)
  next
    fix t :: "batch option \<times> data_fetcher" assume t: "valB B (snd t)"
    show "keeps_via (\<lambda>r. snd (snd r)) (valB B) (case t of (ob, d) \<Rightarrow> (case ob of None \<Rightarrow> Inr (True, fst s, d)
      | Some b \<Rightarrow> if \<not> int (length b) \<le> bsz then Inl (AssertionError, d)
          else bindR (forR (add_answers c vs d b) (place_prompt c vs rank wv n) (fst s, d))
                 (fetch_rounds j c vs rank wv n bsz)))"
      using t by (auto split: prod.splits option.splits
          intro!: keeps_via_bind [where g = snd] keeps_via_forR valB_place Suc.IH)
  qed
qed

lemma valB_loop:
  assumes "valB B (snd s)" and "valB B d0"
  shows "keeps_via (\<lambda>r. case r of None \<Rightarrow> d0 | Some x \<Rightarrow> snd (snd x)) (valB B)
    (fetch_loop fuel c vs rank wv n bsz s)"
  using assms(1)
proof (induction fuel arbitrary: s)
  case 0
  then show ?case using assms(2) by (subst fetch_loop.simps) simp
next
  case (Suc fuel)
  have rounds: "keeps_via (\<lambda>r. snd (snd r)) (valB B) (fetch_rounds (nat (ceil_div n bsz)) c vs rank wv n bsz s)"
    using Suc.prems by (rule valB_rounds)
  have "keeps_via (\<lambda>r. case r of None \<Rightarrow> d0 | Some x \<Rightarrow> snd (snd x)) (valB B)
      (bindR (fetch_rounds (nat (ceil_div n bsz)) c vs rank wv n bsz s) (\<lambda>(stop, s').
        if stop \<or> \<not> c_dispatch_as_rank_in_mesh c then Inr (Some (stop, s'))
        else fetch_loop fuel c vs rank wv n bsz s'))"
    by (rule keeps_via_bind [OF rounds]) (auto split: prod.splits intro: Suc.IH)
  then show ?case
    using Suc.prems by (subst fetch_loop.simps) simp
qed

lemma valB_take:
  assumes "valB B d"
  shows "keeps_via snd (valB B) (take_buffered fuel c vs r wv n ps d)"
  using assms
proof (induction fuel arbitrary: ps d)
  case 0
  then show ?case by (subst take_buffered.simps) (simp split: sum.splits option.splits)
next
  case (Suc fuel)
  have "valB B (put_buffer vs b (count_fetched wv i d))" for b i
    using Suc.prems by (auto simp: valB_def put_buffer_def count_fetched_def split: option.splits)
  then show ?case
    using Suc by (subst take_buffered.simps) (auto simp: Let_def split: sum.splits option.splits)
qed

lemma valB_get_batched_prompt:
  assumes "valB B d"
  shows "keeps_via snd (valB B) (get_batched_prompt c n vs rank wv d)"
proof -
  let ?d = "case wv of None \<Rightarrow> d | Some v \<Rightarrow> if dict_has (df_fetched_at_step d) v then d
    else d\<lparr>df_fetched_at_step := dict_set v [] (df_fetched_at_step d)\<rparr>"
  have d: "valB B ?d" using assms by (auto simp: valB_def split: option.splits)
  have first: "keeps_via snd (valB B) (if \<not> c_dispatch_as_rank_in_mesh c then Inr ([], ?d)
      else case rank of None \<Rightarrow> Inl (AssertionError, ?d)
        | Some r \<Rightarrow> take_buffered (length (get_buffer vs ?d)) c vs r wv' n [] ?d)" for wv'
    using d by (auto split: option.splits intro!: valB_take)
  have rest: "keeps_via snd (valB B)
      (if 0 < n - int (length (fst s)) \<and> bsz = 0 then Inl (ZeroDivisionError, snd s)
       else bindR (fetch_loop (Suc (batches_left c vs (snd s))) c vs rank wv' n bsz s) (\<lambda>r.
          case r of None \<Rightarrow> Inr (None, ?d)
          | Some (stop, ps, d') \<Rightarrow>
              Inr (Some (ps, stop \<and> (get_buffer vs d' = [] \<or> \<not> c_dispatch_as_rank_in_mesh c)), d')))"
    if s: "valB B (snd s)" for s bsz wv'
  proof (cases "0 < n - int (length (fst s)) \<and> bsz = 0")
    case True
    with s show ?thesis by simp
  next
    case False
    have "keeps_via snd (valB B) (bindR (fetch_loop (Suc (batches_left c vs (snd s))) c vs rank wv' n bsz s) (\<lambda>r.
          case r of None \<Rightarrow> Inr (None, ?d)
          | Some (stop, ps, d') \<Rightarrow>
              Inr (Some (ps, stop \<and> (get_buffer vs d' = [] \<or> \<not> c_dispatch_as_rank_in_mesh c)), d')))"
      by (rule keeps_via_bind [OF valB_loop [OF s d]]) (use d in \<open>auto split: option.splits\<close>)
    with False show ?thesis by (simp only: if_False)
  qed
  show ?thesis
  proof (cases "c_n_generation c = 0")
    case True
    show ?thesis
      unfolding get_batched_prompt_def Let_def if_P [OF True] using d by simp
  next
    case False
    show ?thesis
    proof (cases "validation_get_dataloader vs ?d")
      case (Inl e)
      show ?thesis
        unfolding get_batched_prompt_def Let_def if_not_P [OF False] Inl sum.case using d by simp
    next
      case (Inr it)
      show ?thesis
        unfolding get_batched_prompt_def Let_def if_not_P [OF False] Inr sum.case
        by (rule keeps_via_bind [OF first rest])
    qed
  qed
qed

lemma onW_simps [simp]: "k_world (onW f k) = f (k_world k)"
  by (simp add: onW_def)

section \<open>The throttles bound the samples in flight\<close>

lemma fetch_prompts_Inr:
  assumes "fetch_prompts n vs rank wv k = Inr ((ps, e), k')"
  shows "\<exists>d. get_batched_prompt (w_cfg (k_world k)) n vs rank wv (w_df (k_world k)) = Inr (Some (ps, e), d)
    \<and> k' = onW (w_df_update (\<lambda>_. d)) k"
  using assms by (auto simp: fetch_prompts_def split: sum.splits option.splits)

lemma tag_payloads_length:
  assumes "tag_payloads gbs wv ps k = Inr (out, k')"
  shows "length out = length ps \<and> k_world k' = k_world k"
proof -
  have "length out1 = length out0 + length ps \<and> k_world k1 = k_world k0"
    if "forR ps (tag_payload gbs) (v0, out0, k0) = Inr (v1, out1, k1)" for v0 out0 k0 v1 out1 k1
    using that
  proof (induction ps arbitrary: v0 out0 k0)
    case Nil
    then show ?case by simp
  next
    case (Cons p ps)
    then obtain v o2 k2 where "tag_payload gbs p (v0, out0, k0) = Inr (v, o2, k2)"
      and rest: "forR ps (tag_payload gbs) (v, o2, k2) = Inr (v1, out1, k1)" by auto
    then have "length o2 = Suc (length out0) \<and> k_world k2 = k_world k0"
      by (auto simp: tag_payload_def Let_def split: sum.splits)
    with Cons.IH [OF rest] show ?case by simp
  qed
  from this [of wv "[]" k] assms show ?thesis
    by (auto simp: tag_payloads_def split: if_splits elim!: bindR_InrE)
qed

lemma ceil_div_mono: "0 < b \<Longrightarrow> m \<le> n \<Longrightarrow> ceil_div m b \<le> ceil_div n b"
  by (simp add: ceil_div_def zdiv_mono1)

lemma throttle_le: "throttle rpgb n w = Some n' \<Longrightarrow> n' \<le> n
    \<and> (0 \<le> n \<and> 0 \<le> c_outdated_rollout_fetch_batch_size (w_cfg w) \<longrightarrow> 0 \<le> n')
    \<and> (\<forall>m. c_max_inflight_steps (w_cfg w) = Some m \<longrightarrow> samples_on_the_fly (w_pm w) < m * rpgb)"
  by (auto simp: throttle_def Let_def split: option.splits if_splits)

text \<open>What a fetch of at most \<open>n\<close> prompts can return at most.\<close>

definition fetch_limit :: "config \<Rightarrow> data_fetcher \<Rightarrow> int \<Rightarrow> int" where
  "fetch_limit c d n =
     (if c_dispatch_as_rank_in_mesh c then n else ceil_div n (df_rollout_batch_size d) * df_rollout_batch_size d)"

lemma fetch_prompts_limit:
  assumes "fetch_prompts n' None rank wv k = Inr ((ps, e), k')" and "0 \<le> n'" "n' \<le> n"
    and "0 < df_rollout_batch_size (w_df (k_world k))"
  shows "int (length ps) \<le> fetch_limit (w_cfg (k_world k)) (w_df (k_world k)) n"
proof -
  let ?b = "df_rollout_batch_size (w_df (k_world k))"
  obtain d where "get_batched_prompt (w_cfg (k_world k)) n' None rank wv (w_df (k_world k)) = Inr (Some (ps, e), d)"
    using fetch_prompts_Inr [OF assms(1)] by blast
  from get_batched_prompt_length [OF this assms(2), of ?b] assms(4)
  have "int (length ps) \<le> (if c_dispatch_as_rank_in_mesh (w_cfg (k_world k)) then n' else ceil_div n' ?b * ?b)"
    by simp
  moreover have "ceil_div n' ?b * ?b \<le> ceil_div n ?b * ?b"
    using ceil_div_mono [OF assms(4,3)] assms(4) by (simp add: mult_right_mono)
  ultimately show ?thesis
    using assms(3) by (auto simp: fetch_limit_def split: if_splits)
qed


lemma served_length:
  assumes "(if d then controlled_prompts gbs wv None rank n' k else uncontrolled_prompts wv None rank n' k)
      = Inr ((ps, e), k')"
    and "0 \<le> n'" "n' \<le> n" and "0 < df_rollout_batch_size (w_df (k_world k))"
  shows "int (length ps) \<le> fetch_limit (w_cfg (k_world k)) (w_df (k_world k)) n
    \<and> w_pm (k_world k') = w_pm (k_world k) \<and> w_cfg (k_world k') = w_cfg (k_world k)"
proof (cases d)
  case True
  with assms(1) obtain wv' ps1 k1 k2 where f: "fetch_prompts n' None rank wv' k = Inr ((ps1, e), k1)"
    and t: "tag_payloads gbs wv ps1 k1 = Inr (ps, k2)" and c: "check_retries gbs wv k2 = Inr k'"
    by (auto simp: controlled_prompts_def elim!: bindR_InrE split: prod.splits)
  have "k' = k2" using c by (auto simp: check_retries_def Let_def split: if_splits option.splits)
  then show ?thesis
    using fetch_prompts_limit [OF f assms(2-4)] tag_payloads_length [OF t] fetch_prompts_Inr [OF f] by auto
next
  case False
  with assms(1) obtain wv' ps1 where f: "fetch_prompts n' None rank wv' k = Inr ((ps1, e), k')"
    and p: "ps = map (plain_payload k') ps1"
    by (auto simp: uncontrolled_prompts_def Let_def elim!: bindR_InrE split: prod.splits)
  show ?thesis
    using fetch_prompts_limit [OF f assms(2-4)] fetch_prompts_Inr [OF f] p by auto
qed

text \<open>The rollouts of one training step of all policy replicas.\<close>

definition rollouts_per_global_batch :: "world \<Rightarrow> int" where
  "rollouts_per_global_batch w =
     (let batch = c_train_batch (w_cfg w) * int (length (policy_replicas (w_pm w)))
      in if batch = 0 then 1 else batch)"

lemma soft_state_world [simp]: "k_world (update_soft_throttle_state b now k) = k_world k"
  by (auto simp: update_soft_throttle_state_def split: option.splits)

lemma impl_cases:
  assumes "get_batched_prompt_impl now n None rank k = Inr ((ps, e), k')"
    and "policy_replicas (w_pm (k_world k)) \<noteq> []" "c_type (w_cfg (k_world k)) \<noteq> ''sft''"
      "c_mode (w_cfg (k_world k)) \<noteq> ''colocated''"
  shows "(throttle (rollouts_per_global_batch (k_world k)) n (k_world k) = None \<and> ps = [] \<and> \<not> e
      \<and> k_world k' = k_world k)
    \<or> (\<exists>n' d gbs wv k1 ps1 e1 k2. throttle (rollouts_per_global_batch (k_world k)) n (k_world k) = Some n'
      \<and> k_world k1 = k_world k
      \<and> (if d then controlled_prompts gbs wv None rank n' k1 else uncontrolled_prompts wv None rank n' k1)
          = Inr ((ps1, e1), k2)
      \<and> ((ps, e), k') = finish_prompts False (ps1, e1) k2)"
proof -
  let ?w = "k_world k" let ?t = "throttle (rollouts_per_global_batch ?w) n ?w"
  have n: "c_n_generation (w_cfg ?w) \<noteq> 0"
    using assms(1,2) by (auto simp: get_batched_prompt_impl_def Let_def)
  show ?thesis
  proof (cases ?t)
    case None
    with assms n show ?thesis
      by (simp add: get_batched_prompt_impl_def Let_def rollouts_per_global_batch_def) auto
  next
    case (Some n')
    let ?k = "update_soft_throttle_state (soft_engaged (rollouts_per_global_batch ?w) ?w) now k"
    obtain d gbs wv where "bindR (if d then controlled_prompts gbs wv None rank n' ?k
        else uncontrolled_prompts wv None rank n' ?k) (\<lambda>(r, k). Inr (finish_prompts False r k)) = Inr ((ps, e), k')"
      using assms n Some unfolding get_batched_prompt_impl_def Let_def rollouts_per_global_batch_def
      by (simp only: if_False not_False_eq_True simp_thms if_True option.case option.simps)
    then obtain ps1 e1 k2 where "(if d then controlled_prompts gbs wv None rank n' ?k
        else uncontrolled_prompts wv None rank n' ?k) = Inr ((ps1, e1), k2)"
      "((ps, e), k') = finish_prompts False (ps1, e1) k2"
      by (auto elim!: bindR_InrE split: prod.splits)
    with Some show ?thesis
      by (intro disjI2 exI [of _ n'] exI [of _ d] exI [of _ gbs] exI [of _ wv] exI [of _ ?k]) auto
  qed
qed

text \<open>
  C13: The hard throttle bounds the samples in flight. With \<open>max_inflight_steps\<close> set to
  \<open>m\<close>, a request for \<open>n\<close> training prompts (outside supervised fine-tuning and the colocated
  mode) that succeeds either finds \<open>m\<close> global batches or more in flight, in which case it
  hands out nothing, reports that the data has not ended and leaves the counter alone; or
  it adds exactly the samples of the prompts it hands out to the counter, which then is
  below \<open>m\<close> global batches plus what one fetch of \<open>n\<close> prompts can bring.
\<close>

theorem inflight_bound:
  assumes "get_batched_prompt_impl now n None rank k = Inr ((ps, e), k')"
    and "c_max_inflight_steps (w_cfg (k_world k)) = Some m"
    and "policy_replicas (w_pm (k_world k)) \<noteq> []" and "c_type (w_cfg (k_world k)) \<noteq> ''sft''"
    and "c_mode (w_cfg (k_world k)) \<noteq> ''colocated''" and "0 < c_n_generation (w_cfg (k_world k))"
    and "0 \<le> n" and "0 \<le> c_outdated_rollout_fetch_batch_size (w_cfg (k_world k))"
    and "0 < df_rollout_batch_size (w_df (k_world k))"
  shows "samples_on_the_fly (w_pm (k_world k')) =
      samples_on_the_fly (w_pm (k_world k)) + int (length ps) * c_n_generation (w_cfg (k_world k))
    \<and> (if m * rollouts_per_global_batch (k_world k) \<le> samples_on_the_fly (w_pm (k_world k))
       then ps = [] \<and> \<not> e
       else samples_on_the_fly (w_pm (k_world k')) < m * rollouts_per_global_batch (k_world k)
         + fetch_limit (w_cfg (k_world k)) (w_df (k_world k)) n * c_n_generation (w_cfg (k_world k)))"
  using impl_cases [OF assms(1,3-5)]
proof (elim disjE exE conjE)
  assume "throttle (rollouts_per_global_batch (k_world k)) n (k_world k) = None" "ps = []" "\<not> e"
    "k_world k' = k_world k"
  with assms(2) show ?thesis by (auto simp: throttle_def Let_def split: if_splits)
next
  fix n' d gbs wv k1 ps1 e1 k2
  let ?w = "k_world k" let ?g = "c_n_generation (w_cfg ?w)"
  assume t: "throttle (rollouts_per_global_batch ?w) n ?w = Some n'" and k1: "k_world k1 = ?w"
    and s: "(if d then controlled_prompts gbs wv None rank n' k1 else uncontrolled_prompts wv None rank n' k1)
      = Inr ((ps1, e1), k2)" and f: "((ps, e), k') = finish_prompts False (ps1, e1) k2"
  from throttle_le [OF t] assms have n': "0 \<le> n'" "n' \<le> n"
    and low: "samples_on_the_fly (w_pm ?w) < m * rollouts_per_global_batch ?w" by auto
  from served_length [OF s n'] k1 assms(9)
  have len: "int (length ps1) \<le> fetch_limit (w_cfg ?w) (w_df ?w) n"
    and same: "w_pm (k_world k2) = w_pm ?w" "w_cfg (k_world k2) = w_cfg ?w" by auto
  from f same have fly: "samples_on_the_fly (w_pm (k_world k')) = samples_on_the_fly (w_pm ?w) + int (length ps) * ?g"
    and ps: "ps = ps1" by (auto simp: finish_prompts_def Let_def)
  from len ps assms(6) have "int (length ps) * ?g \<le> fetch_limit (w_cfg ?w) (w_df ?w) n * ?g"
    by (intro mult_right_mono) auto
  with fly low show ?thesis by auto
qed

end
