(* ===== verification/Handler_Contract.thy ===== *)
theory Handler_Contract
  imports Controller_Model
begin

text \<open>
  The contract between the state managers and the HTTP handlers. A handler composes a
  fixed set of operations of the managers; an assertion about the managers' state that
  all of them keep (given a budget of samples the call may return) is kept by the
  handlers. The contract is met by the structural invariant, for which the budget is
  irrelevant, and by the accounting of samples.
\<close>

section \<open>What the rollout side leaves alone\<close>

definition rframe :: "world \<Rightarrow> world \<Rightarrow> bool" where
  "rframe w w' \<longleftrightarrow> w_pm w' = w_pm w \<and> df_val_batches (w_df w') = df_val_batches (w_df w)
     \<and> (\<exists>n. w_cfg w' = (w_cfg w)\<lparr>c_rollout_n_init := n\<rparr>)"

lemma rframe_refl [simp]: "rframe w w"
  by (auto simp: rframe_def intro: exI [of _ "c_rollout_n_init (w_cfg w)"])

lemma rframe_steps:
  assumes "rframe w v"
  shows "rframe w (v\<lparr>w_rm := m\<rparr>)" "rframe w (v\<lparr>w_bus := b\<rparr>)"
    "rframe w (v\<lparr>w_df := set_rollout_global_mesh_size n (w_df v)\<rparr>)"
    "rframe w (v\<lparr>w_cfg := (w_cfg v)\<lparr>c_rollout_n_init := n\<rparr>\<rparr>)"
  using assms by (auto simp: rframe_def set_rollout_global_mesh_size_def)

lemma rframe_rebuild: "rframe w v \<Longrightarrow> keeps (rframe w) (rm_trigger_rebuild_mesh valid v)"
  by (auto simp: rm_trigger_rebuild_mesh_def Let_def rframe_def set_rollout_global_mesh_size_def
      split: sum.splits)

lemma rframe_send_p2r: "rframe w v \<Longrightarrow> keeps (rframe w) (send_p2r src dst ws ts v)"
  by (auto simp: send_p2r_def rframe_def split: option.splits prod.splits)

lemma rframe_send_r2r: "rframe w v \<Longrightarrow> rframe w (send_r2r src dsts ws ts v)"
  by (auto simp: send_r2r_def rframe_def split: prod.splits)

lemma rframe_unregister: "rframe w v \<Longrightarrow> keeps (rframe w) (rm_unregister now nm v)"
  by (auto simp: rm_unregister_def Let_def rframe_steps split: option.splits intro!: rframe_rebuild)

lemma rframe_hook:
  assumes "rframe w v"
  shows "keeps (rframe w) (rm_post_register_hook valid target v)"
proof -
  have first: "keeps (rframe w) (rm_first_weights valid target v)" if "rframe w v" for v
    using that by (auto simp: rm_first_weights_def rframe_send_p2r split: option.splits)
  have bcast: "rframe w (rm_first_broadcast valid v)" if "rframe w v" for v
    using that by (auto simp: rm_first_broadcast_def Let_def rframe_send_r2r split: option.splits)
  show ?thesis
    using assms unfolding rm_post_register_hook_def
    by (intro keeps_bindR keeps_assert keeps_if first rframe_rebuild)
      (auto intro!: rframe_rebuild keeps_bindR keeps_assert rframe_steps bcast)
qed

lemma rframe_register: "keeps (rframe w) (rm_register a now w)"
proof -
  have store: "rframe w (rm_store d w)" for d
    by (simp add: rm_store_def rframe_steps)
  have raise: "rframe w (rm_raise_n_init (rm_store d w))" for d
    by (simp add: rm_raise_n_init_def rframe_steps store)
  have comp: "rframe w (rm_complete now a v)" if "rframe w v" for v
    using that by (simp add: rm_complete_def Let_def rframe_steps)
  show ?thesis
    by (auto simp: rm_register_def Let_def store raise split: sum.splits option.splits
        intro!: rframe_hook comp)
qed


section \<open>Replica mutations of the requests\<close>

lemma arrived_names_upd:
  assumes "\<forall>(k, x) \<in> set d. k = nm \<longrightarrow> rp_name r = rp_name x \<and> arrived r = arrived x"
  shows "map rp_name (arrived_values (dict_upd nm (\<lambda>_. r) d)) = map rp_name (arrived_values d)"
  using assms by (induction d) (auto simp: arrived_values_def dict_values_def)

lemma pinv_upd:
  assumes "pinv p" and get: "dict_get (policy_replicas p) nm = Some r"
    and "rp_name r' = rp_name r" "rp_role r' = rp_role r" "wf_replica r'" "arrived r' = arrived r"
  shows "pinv (policy_replicas_update (dict_upd nm (\<lambda>_. r')) p)"
proof -
  let ?d = "policy_replicas p"
  have ok: "reps_ok POLICY ?d" using assms(1) by (simp add: pinv_def table_inv_def)
  have uniq: "x = r" if "(nm, x) \<in> set ?d" for x
    using that get ok by (auto simp: reps_ok_def wf_dict_def dict_get_def)
  have entry: "rp_name r = nm \<and> rp_role r = POLICY"
    using get ok by (auto simp: reps_ok_def list_all_iff dict_get_def dest: map_of_SomeD)
  have "reps_ok POLICY (dict_upd nm (\<lambda>_. r') ?d)"
    using ok entry assms(3-5) unfolding reps_ok_def
    by (intro conjI wf_dict_upd) (auto simp: list_all_iff dict_upd_def)
  moreover have "map rp_name (arrived_values (dict_upd nm (\<lambda>_. r') ?d)) = map rp_name (arrived_values ?d)"
    using uniq assms(3,6) by (intro arrived_names_upd) auto
  ultimately show ?thesis
    using assms(1) by (subst replicas_update)
      (simp add: pinv_def table_inv_def pm_arrived_def phase_inv_def completion_inv_def ledger_inv_def
        flip: set_map)
qed

lemma traced_replica:
  assumes "wf_replica r" and "replica_set_trace_path path rank r = Inr (a, r')"
  shows "rp_name r' = rp_name r" "rp_role r' = rp_role r" "wf_replica r'" "arrived r' = arrived r"
proof -
  obtain key where r': "r' = r\<lparr>rp_atoms := dict_upd key (at_trace_path_update (\<lambda>_. Some path)) (rp_atoms r)\<rparr>"
    using assms(2) by (auto simp: replica_set_trace_path_def split: option.splits)
  let ?g = "\<lambda>p. (fst p, if fst p = key then at_trace_path_update (\<lambda>_. Some path) (snd p) else snd p)"
  have ne: "rp_atoms r \<noteq> []" using assms(1) by (simp add: wf_replica_def)
  have hd: "hd (rp_atoms r') = ?g (hd (rp_atoms r))"
    using ne by (simp add: r' dict_upd_def hd_map)
  show "rp_name r' = rp_name r" "rp_role r' = rp_role r" by (simp_all add: r')
  show wf: "wf_replica r'"
    using assms(1) hd unfolding wf_replica_def
    by (auto simp: r' dict_upd_def atom_str_def wf_dict_def comp_def) 
  show "arrived r' = arrived r"
    using ne hd by (cases "rp_atoms r") (auto simp: arrived_def all_atoms_arrived_def r')
qed

section \<open>The contract\<close>

locale handler_contract =
  fixes I :: "int \<Rightarrow> world \<Rightarrow> bool"
  assumes structural: "I k w \<Longrightarrow> winv w"
    and weaken: "I k w \<Longrightarrow> j \<le> k \<Longrightarrow> I j w"
    and rollout_side: "I k w \<Longrightarrow> rm_inv (w_rm w') \<Longrightarrow> rframe w w' \<Longrightarrow> I k w'"
    and policy_side: "I k w \<Longrightarrow> pinv (f (w_pm w)) \<Longrightarrow> frame_pm (w_pm w) (f (w_pm w)) \<Longrightarrow> I k (onP f w)"
    and fetcher: "I k w \<Longrightarrow> df_val_batches d = df_val_batches (w_df w) \<Longrightarrow> I k (w\<lparr>w_df := d\<rparr>)"
    and handed_out: "I k w \<Longrightarrow> I k (onP (\<lambda>p. p\<lparr>samples_on_the_fly := samples_on_the_fly p
        + int handed * c_n_generation (w_cfg w)\<rparr>) w)"
    and joins: "I k w \<Longrightarrow> length (at_group_size a) = length MESH_NAMES \<Longrightarrow> keeps (I k) (pm_register a now w)"
    and leaves: "I k w \<Longrightarrow> keeps (I k) (pm_unregister now nm w)"
    and acks: "I k w \<Longrightarrow> 0 \<le> k \<Longrightarrow> keeps (I k) (train_ack nm step ts pf report w)"
    and validates: "I k w \<Longrightarrow> keeps (I k) (validation_report_validation_results step results w)"
    and drains: "I k w \<Longrightarrow> keeps (I k) (on_rollout_is_end w)"
    and settles: "I (k + n) w \<Longrightarrow> 0 \<le> n \<Longrightarrow> I k (onP (settle_samples_on_the_fly n) w)"
    and discards: "I (k + max 0 n) w \<Longrightarrow> I k (onP (\<lambda>p. snd (settle_discarded_samples src rid n p)) w)"
    and filters: "I (k + int (length rs)) w \<Longrightarrow> filter_outdated_rollouts rs w = Inr (kept, w')
        \<Longrightarrow> I (k + int (length kept)) w'"
    and admits: "I (k + int (length rs)) w \<Longrightarrow> keeps_via (\<lambda>s. snd (snd s)) (I k) (put_rollouts rs w)"
begin

lemma publishes: "I k w \<Longrightarrow> I k (w\<lparr>w_bus := b\<rparr>)"
  by (rule rollout_side) (auto simp: winv_def rframe_steps dest: structural)

lemma rollout_mutates: "I k w \<Longrightarrow> rm_inv m \<Longrightarrow> I k (w\<lparr>w_rm := m\<rparr>)"
  by (erule rollout_side) (simp_all add: rframe_steps)

lemma rollout_joins:
  assumes "I k w" and "length (at_group_size a) = length MESH_NAMES"
  shows "keeps (I k) (rm_register a now w)"
  using rm_register_inv [of w a now] rframe_register [of w a now] assms structural [OF assms(1)]
  by (auto simp: keeps_def winv_def intro: rollout_side)

lemma rollout_leaves: "I k w \<Longrightarrow> keeps (I k) (rm_unregister now nm w)"
  using rm_unregister_inv [of w now nm] rframe_unregister [of w w now nm] structural [of k w]
  by (auto simp: keeps_def winv_def intro: rollout_side)

lemma policies_maintained: "I k w \<Longrightarrow> keeps (I k) (pm_maintain_life_status enum timeout now w)"
  unfolding pm_maintain_life_status_def by (intro keeps_forR leaves)

lemma rollouts_maintained: "I k w \<Longrightarrow> keeps (I k) (rm_maintain_life_status enum timeout now w)"
  unfolding rm_maintain_life_status_def by (intro keeps_forR rollout_leaves)

lemma cleanup_published: "I k w \<Longrightarrow> I k (publish_payload_transport_cleanup rs msk w)"
  by (auto simp: publish_payload_transport_cleanup_def frame_pm_def
      intro!: policy_side intro: pinv_fields [OF winv_pinv [OF structural]])

lemma filter_raises:
  assumes "I k w" and "filter_outdated_rollouts rs w = Inl (e, w')"
  shows "I k w'"
proof -
  have "keeps_via (\<lambda>s. snd (snd s)) (\<lambda>p. pinv p \<and> frame_pm (w_pm w) p) (judge_rollout c x s)"
    if "pinv (snd (snd s)) \<and> frame_pm (w_pm w) (snd (snd s))" for c x s
    using that by (cases s) (auto simp: judge_rollout_def Let_def frame_pm_def
        intro: pinv_fields split: prod.splits)
  then have "keeps_via (\<lambda>s. snd (snd s)) (\<lambda>p. pinv p \<and> frame_pm (w_pm w) p)
      (forR (zip [0..<length rs] rs) (judge_rollout (w_cfg w)) ([], [], w_pm w))"
    using winv_pinv [OF structural [OF assms(1)]]
    by (intro keeps_via_forR) (auto simp: frame_pm_def)
  moreover obtain p where "forR (zip [0..<length rs] rs) (judge_rollout (w_cfg w)) ([], [], w_pm w) = Inl (e, p)"
    and w': "w' = onP (\<lambda>_. p) w"
    using assms(2) by (auto simp: filter_outdated_rollouts_def Let_def onP_def split: sum.splits prod.splits)
  ultimately show ?thesis
    using assms(1) by (auto intro!: policy_side)
qed

subsection \<open>Prompts\<close>

lemma fetch_keeps:
  assumes "I j (k_world k)"
  shows "keeps_via snd (\<lambda>k. I j (k_world k)) (fetch_prompts n vs rank wv k)"
proof -
  have ok: "I j (k_world (onW (w_df_update (\<lambda>_. d)) k))" if "valB (df_val_batches (w_df (k_world k))) d" for d
    using assms that fetcher [of j "k_world k" d] by (simp add: valB_def)
  have "keeps_via snd (valB (df_val_batches (w_df (k_world k))))
      (get_batched_prompt (w_cfg (k_world k)) n vs rank wv (w_df (k_world k)))"
    by (rule valB_get_batched_prompt) (simp add: valB_def)
  then show ?thesis
    by (auto simp: fetch_prompts_def simp del: onW_simps split: sum.splits option.splits intro!: ok)
qed

lemma tag_keeps:
  assumes "I j (k_world k)"
  shows "keeps_via snd (\<lambda>k. I j (k_world k)) (tag_payloads gbs wv ps k)"
proof (cases "tag_payloads gbs wv ps k")
  case (Inl es)
  have "keeps_via (\<lambda>s. snd (snd s)) (\<lambda>k. I j (k_world k)) (tag_payload gbs p s)"
    if "I j (k_world (snd (snd s)))" for p s
    using that by (auto simp: tag_payload_def Let_def split: prod.splits sum.splits)
  then have "keeps_via (\<lambda>s. snd (snd s)) (\<lambda>k. I j (k_world k)) (forR ps (tag_payload gbs) (wv, [], k))"
    using assms by (intro keeps_via_forR) auto
  with Inl show ?thesis
    by (auto simp: tag_payloads_def bindR_def keeps_via_def split: if_splits sum.splits prod.splits)
next
  case (Inr r)
  then show ?thesis
    using tag_payloads_length [of gbs wv ps k] assms by (cases r) auto
qed

lemma finish_keeps:
  assumes "I j (k_world k)"
  shows "I j (k_world (snd (finish_prompts v r k)))"
  using assms handed_out [of j "k_world k"] by (cases r) (simp add: finish_prompts_def Let_def)

lemma prompts_keep:
  assumes "I j (k_world k)"
  shows "keeps_via snd (\<lambda>k. I j (k_world k)) (get_batched_prompt_impl now n vs rank k)"
proof -
  let ?J = "\<lambda>k. I j (k_world k)"
  have retries: "keeps ?J (check_retries gbs wv k)" if "?J k" for gbs wv k
    using that by (auto simp: check_retries_def Let_def split: option.splits)
  have controlled: "keeps_via snd ?J (controlled_prompts gbs wv vs rank n k)" if "?J k" for gbs wv n k
    using that unfolding controlled_prompts_def
    by (auto intro!: keeps_via_bind [OF fetch_keeps] keeps_via_bind [OF tag_keeps]
        keeps_via_bind_plain [OF retries])
  have uncontrolled: "keeps_via snd ?J (uncontrolled_prompts wv vs rank n k)" if "?J k" for wv n k
    using that unfolding uncontrolled_prompts_def Let_def
    by (auto intro!: keeps_via_bind [OF fetch_keeps])
  have fin: "keeps_via snd ?J (bindR m (\<lambda>(r, k). Inr (finish_prompts b r k)))"
    if "keeps_via snd ?J m" for m b
    using that by (rule keeps_via_bind) (auto simp: finish_keeps)
  have without: "keeps_via snd ?J (prompts_without_policy n vs rank k)"
    using assms by (auto simp: prompts_without_policy_def intro!: fetch_keeps)
  have served: "keeps_via snd ?J (bindR (if d then controlled_prompts gbs wv vs rank n' k1
      else uncontrolled_prompts wv vs rank n' k1) (\<lambda>(r, k). Inr (finish_prompts b r k)))"
    if "?J k1" for b d gbs wv n' k1
    using fin controlled [OF that] uncontrolled [OF that] by (cases d) simp_all
  have soft: "?J (if d then update_soft_throttle_state b now k else k)" for b d
    using assms by (auto simp: update_soft_throttle_state_def split: option.splits)
  show ?thesis
    unfolding get_batched_prompt_impl_def Let_def
    by (cases "policy_replicas (w_pm (k_world k)) = []"; cases "c_n_generation (w_cfg (k_world k)) = 0")
      (simp_all only: if_True if_False simp_thms without assms keeps_via_simps soft served snd_conv split: option.split)
qed

subsection \<open>The other operations of the controller\<close>

lemma keeps_liftW:
  "keeps (I j) (f (k_world k)) \<Longrightarrow> keeps (\<lambda>k. I j (k_world k)) (liftW f k)"
  by (auto simp: liftW_def keeps_def after_def split: sum.splits)

lemma put_keeps:
  assumes "I (j + int (length rs)) (k_world k)"
  shows "keeps (\<lambda>k. I j (k_world k)) (k_put_rollouts now rs k)"
  using admits [OF assms] by (auto simp: k_put_rollouts_def split: sum.splits)

lemma mutates:
  assumes "I k w" and "same_cores (policy_replicas (w_pm w)) d"
  shows "I k (onP (\<lambda>p. p\<lparr>policy_replicas := d\<rparr>) w)"
  by (rule policy_side [OF assms(1)])
    (simp_all add: pinv_cores [OF winv_pinv [OF structural [OF assms(1)]] assms(2)] frame_pm_def)

lemma heartbeat_keeps:
  assumes "I j (k_world k)"
  shows "I j (k_world (replica_heartbeat now nm k))"
proof -
  have core: "core (set_heartbeat t r) = core r" for t r
    by (simp add: core_def set_heartbeat_def)
  have "I j (onP (pm_heartbeat now nm) (k_world k))"
    using mutates [OF assms same_cores_upd [OF core]] assms by (simp add: pm_heartbeat_def onP_def)
  then show ?thesis
    using assms structural [OF assms]
    by (auto simp: replica_heartbeat_def winv_def intro!: rollout_mutates rm_heartbeat_inv)
qed

lemma join_keeps:
  assumes "I j (k_world k)" and "length (at_group_size a) = length MESH_NAMES"
  shows "keeps (\<lambda>k. I j (k_world k)) (k_register now a role k)"
  using assms by (auto simp: k_register_def intro!: keeps_liftW joins rollout_joins)

lemma leave_keeps:
  assumes "I j (k_world k)"
  shows "keeps (\<lambda>k. I j (k_world k)) (k_unregister now nm k)"
  using assms
  by (auto simp: k_unregister_def Let_def end_reference_replica_def
      intro!: keeps_liftW leaves rollout_leaves publishes)

lemma profile_keeps:
  assumes "I j (k_world k)"
  shows "I j (k_world (set_profile q k))"
proof -
  have "core (sub_profiler_cfg_update (\<lambda>_. requested_profile q) r) = core r" for r
    by (simp add: core_def)
  from mutates [OF assms same_cores_upd [OF this, of _ "sp_replica_name q"]] assms show ?thesis
    by (auto simp: set_profile_def onP_def replicas_update [symmetric] split: option.splits)
qed

lemma trace_keeps:
  assumes "I j (k_world k)"
  shows "keeps_via snd (\<lambda>k. I j (k_world k)) (set_trace_path nm path rank k)"
proof -
  let ?p = "w_pm (k_world k)"
  have inv: "pinv ?p" using structural [OF assms] by (rule winv_pinv)
  have "I j (onP (policy_replicas_update (dict_upd nm (\<lambda>_. r'))) (k_world k))"
    if get: "dict_get (policy_replicas ?p) nm = Some r" and tr: "replica_set_trace_path path rank r = Inr (a, r')"
    for r a r'
  proof (rule policy_side [OF assms])
    have wf: "wf_replica r"
      using inv get by (auto simp: pinv_def table_inv_def reps_ok_def list_all_iff dict_get_def dest: map_of_SomeD)
    show "pinv (policy_replicas_update (dict_upd nm (\<lambda>_. r')) ?p)"
      by (rule pinv_upd [OF inv get traced_replica [OF wf tr]])
  qed (simp add: frame_pm_def)
  with assms show ?thesis
    by (auto simp: set_trace_path_def split: option.splits sum.splits)
qed

lemma nccl_report_keeps:
  assumes "I j (k_world k)"
  shows "keeps_via snd (\<lambda>k. I j (k_world k)) (set_replica_ncclerror now nm k)"
proof -
  have core: "core (mark_ncclerror t r) = core r" for t r
    by (simp add: core_def mark_ncclerror_def)
  have "keeps (I j) (liftP (set_ncclerror nm t) (k_world k))" for t
    using mutates [OF assms same_cores_upd [OF core]] assms
    by (simp add: liftP_def set_ncclerror_def onP_def)
  with assms show ?thesis
    by (auto simp: set_replica_ncclerror_def Let_def intro!: keeps_via_bind_plain keeps_liftW)
qed

lemma nccl_cleanup_keeps:
  assumes "I j (k_world k)"
  shows "keeps (\<lambda>k. I j (k_world k)) (ncclerror_continuation now i k)"
proof -
  have "keeps (I j) (post_ncclerror now reported w)" if "I j w" for reported w
    using that by (auto simp: post_ncclerror_def Let_def intro!: keeps_forR leaves)
  moreover have "I j (onP clear_ncclerror w)" if "I j w" for w
  proof -
    have "same_cores d (map (\<lambda>(n, r). (n, mark_ncclerror None r)) d)" for d
      by (auto simp: same_cores_def core_def mark_ncclerror_def)
    from mutates [OF that this] show ?thesis by (simp add: clear_ncclerror_def onP_def)
  qed
  ultimately show ?thesis
    using assms by (auto simp: ncclerror_continuation_def intro!: keeps_bindR keeps_liftW)
qed

end

end
