(* ===== verification/Web_Panel.thy ===== *)
theory Web_Panel
  imports Handler_Contract
begin

text \<open>
  The server of cosmos_rl/dispatcher/run_web_panel.py: its module-level flags, the HTTP
  handlers over the controller, the decision to shut down, the monitor thread that reaps
  replicas, broadcasts STOP and waits for the rollouts to check out, and the system of all
  events. Every handler and every pass of the monitor is one step; the monitor's wait for
  the rollout checkout is a state of its own, so handlers run between its iterations. The
  wall clock, the monotonic clock, the order in which Python iterates a set and the
  replica at which publishing STOP fails are arguments of the events.
\<close>

section \<open>State\<close>

datatype monitor = Scanning | Checkout rat | Monitor_Done

record panel =
  ctl :: controller
  replicas_were_registered :: bool
  policy_replicas_were_registered :: bool
  server_should_exit :: "bool option"
  monitor_state :: monitor
  stop_broadcast_sent :: bool
  shutdown_event :: bool
  sigterm_sent :: bool
  shutdown_on_no_policy_replicas :: bool

abbreviation pworld :: "panel \<Rightarrow> world" where
  "pworld p \<equiv> k_world (ctl p)"

definition onC :: "(controller \<Rightarrow> controller) \<Rightarrow> panel \<Rightarrow> panel" where
  "onC f p = p\<lparr>ctl := f (ctl p)\<rparr>"

definition liftC :: "(controller \<Rightarrow> controller outcome) \<Rightarrow> panel \<Rightarrow> panel outcome" where
  "liftC f p = (case f (ctl p) of
     Inl (e, k) \<Rightarrow> Inl (e, p\<lparr>ctl := k\<rparr>) | Inr k \<Rightarrow> Inr (p\<lparr>ctl := k\<rparr>))"

definition liftV :: "(controller \<Rightarrow> (py_error \<times> controller) + ('a \<times> controller)) \<Rightarrow> panel
    \<Rightarrow> (py_error \<times> panel) + ('a \<times> panel)" where
  "liftV f p = (case f (ctl p) of
     Inl (e, k) \<Rightarrow> Inl (e, p\<lparr>ctl := k\<rparr>) | Inr (v, k) \<Rightarrow> Inr (v, p\<lparr>ctl := k\<rparr>))"

section \<open>Shutting down\<close>

definition all_replicas_gone :: "panel \<Rightarrow> bool" where
  "all_replicas_gone p \<longleftrightarrow> policy_replicas (w_pm (pworld p)) = []
     \<and> rollout_replicas (w_rm (pworld p)) = [] \<and> k_teachers (ctl p) = {}"

definition heartbeat_death_reap :: string where
  "heartbeat_death_reap = ''heartbeat-death reap''"

definition maybe_finalize :: "string \<Rightarrow> panel \<Rightarrow> bool \<times> panel" where
  "maybe_finalize reason p =
     (if \<not> all_replicas_gone p then (False, p)
      else
        let ready = (if reason = heartbeat_death_reap then replicas_were_registered p
                     else training_finished (w_pm (pworld p)) \<or> \<not> k_is_rl (ctl p))
        in if ready then (True, if server_should_exit p = Some False
                                then p\<lparr>server_should_exit := Some True\<rparr> else p)
           else (False, p))"

section \<open>The monitor\<close>

text \<open>Publishing STOP to the rollouts in order; an exception at one of them is caught and
  leaves the flag for the next scan.\<close>

definition broadcast_stop :: "nat option \<Rightarrow> panel \<Rightarrow> panel" where
  "broadcast_stop fails_at p =
     (let rs = dict_values (rollout_replicas (w_rm (pworld p)));
          send = (\<lambda>rs. onC (onW (\<lambda>w. w\<lparr>w_bus := trigger_stop rs (w_bus w)\<rparr>)) p)
      in case fails_at of
           None \<Rightarrow> (send rs)\<lparr>stop_broadcast_sent := True\<rparr>
         | Some i \<Rightarrow> if i < length rs then send (take i rs)
                    else (send rs)\<lparr>stop_broadcast_sent := True\<rparr>)"

definition stop_due :: "panel \<Rightarrow> bool" where
  "stop_due p =
     (let w = pworld p in
      should_broadcast_stop (length (policy_replicas (w_pm w))) (policy_replicas_were_registered p)
        (stop_broadcast_sent p) (c_val_enable (w_cfg w)) (terminal_complete (w_pm w))
        (training_finished (w_pm w)) (all_rollouts_ended (w_rm w)))"

definition self_terminate :: "panel \<Rightarrow> panel" where
  "self_terminate p = p\<lparr>shutdown_event := True, sigterm_sent := True, monitor_state := Monitor_Done\<rparr>"

definition liftM :: "(world \<Rightarrow> world outcome) \<Rightarrow> panel \<Rightarrow> panel outcome" where
  "liftM f p = (case f (pworld p) of
     Inl (e, w) \<Rightarrow> Inl (e, (onC (onW (\<lambda>_. w)) p)\<lparr>monitor_state := Monitor_Done\<rparr>)
   | Inr w \<Rightarrow> Inr (onC (onW (\<lambda>_. w)) p))"

text \<open>One iteration of \<open>_await_rollout_checkout\<close>'s loop, up to its wait.\<close>

definition checkout_iteration ::
  "(string list \<Rightarrow> string list) \<Rightarrow> int \<Rightarrow> rat \<Rightarrow> rat \<Rightarrow> rat \<Rightarrow> panel \<Rightarrow> panel outcome" where
  "checkout_iteration enum timeout deadline now clock p =
     (if all_rollouts_ended (w_rm (pworld p)) then Inr (self_terminate p)
      else bindR (liftM (rm_maintain_life_status enum timeout now) p) (\<lambda>p.
        Inr (if deadline < clock then self_terminate p else p\<lparr>monitor_state := Checkout deadline\<rparr>)))"

definition await_rollout_checkout ::
  "(string list \<Rightarrow> string list) \<Rightarrow> int \<Rightarrow> rat \<Rightarrow> rat \<Rightarrow> panel \<Rightarrow> panel outcome" where
  "await_rollout_checkout enum timeout now clock p =
     (if rollout_replicas (w_rm (pworld p)) = [] then Inr (self_terminate p)
      else checkout_iteration enum timeout (clock + of_int timeout) now clock p)"

definition scan ::
  "(string list \<Rightarrow> string list) \<Rightarrow> int \<Rightarrow> rat \<Rightarrow> rat \<Rightarrow> nat option \<Rightarrow> panel \<Rightarrow> panel outcome" where
  "scan enum timeout now clock fails_at p =
     bindR (liftM (pm_maintain_life_status enum timeout now) p) (\<lambda>p.
     bindR (liftM (rm_maintain_life_status enum timeout now) p) (\<lambda>p.
     let p = snd (maybe_finalize heartbeat_death_reap p);
         p = (if stop_due p then broadcast_stop fails_at p else p)
     in if shutdown_on_no_policy_replicas p \<and> policy_replicas (w_pm (pworld p)) = []
           \<and> policy_replicas_were_registered p
        then await_rollout_checkout enum timeout now clock p
        else Inr p))"

definition monitor_replica_status ::
  "(string list \<Rightarrow> string list) \<Rightarrow> int \<Rightarrow> rat \<Rightarrow> rat \<Rightarrow> nat option \<Rightarrow> panel \<Rightarrow> panel outcome" where
  "monitor_replica_status enum timeout now clock fails_at p =
     (case monitor_state p of
        Monitor_Done \<Rightarrow> Inr p
      | Scanning \<Rightarrow> if shutdown_event p then Inr (p\<lparr>monitor_state := Monitor_Done\<rparr>)
                    else scan enum timeout now clock fails_at p
      | Checkout deadline \<Rightarrow> if shutdown_event p then Inr (self_terminate p)
                             else checkout_iteration enum timeout deadline now clock p)"

section \<open>Handlers\<close>

definition h_register :: "rat \<Rightarrow> register_request \<Rightarrow> panel \<Rightarrow> panel outcome" where
  "h_register now rq p =
     (case validate_mesh_names rq of
        Inl e \<Rightarrow> Inl (e, p)
      | Inr rq \<Rightarrow>
          bindR (liftC (k_register now (from_register_request rq) (rq_role rq)) p) (\<lambda>p.
          Inr (p\<lparr>replicas_were_registered := True,
                 policy_replicas_were_registered :=
                   policy_replicas_were_registered p \<or> rq_role rq = POLICY\<rparr>)))"

definition h_unregister :: "rat \<Rightarrow> string \<Rightarrow> panel \<Rightarrow> panel" where
  "h_unregister now nm p =
     snd (maybe_finalize (''clean unregister of '' @ nm) (after (liftC (k_unregister now nm) p)))"

definition h_comm_initiator :: "string \<Rightarrow> string option \<Rightarrow> panel \<Rightarrow> panel outcome" where
  "h_comm_initiator pair handle p =
     (case handle of
        None \<Rightarrow> Inl (ValueError, p)
      | Some h \<Rightarrow> if h = [] then Inl (ValueError, p) else Inr (onC (update_kv_store pair h) p))"

definition h_comm_acceptor :: "string \<Rightarrow> panel \<Rightarrow> py_error + string" where
  "h_comm_acceptor pair p =
     (case get_kv_store pair (ctl p) of None \<Rightarrow> Inl KeyError | Some h \<Rightarrow> Inr h)"

definition h_ipc_info :: "string \<Rightarrow> string \<Rightarrow> panel \<Rightarrow> panel" where
  "h_ipc_info mesh_key addr p = onC (update_kv_store mesh_key addr) p"

definition h_query_ipc_info :: "string \<Rightarrow> panel \<Rightarrow> py_error + string" where
  "h_query_ipc_info mesh_key p =
     (case get_kv_store mesh_key (ctl p) of None \<Rightarrow> Inl KeyError | Some a \<Rightarrow> Inr a)"

definition h_comm_store_clear :: "string \<Rightarrow> panel \<Rightarrow> panel" where
  "h_comm_store_clear pair p = after (liftC (clear_temp_kv_store pair) p)"

definition h_validation_report :: "int \<Rightarrow> rl_payload list \<Rightarrow> panel \<Rightarrow> panel outcome" where
  "h_validation_report step payloads p =
     (case extract_rollouts payloads True True of
        Inl e \<Rightarrow> Inl (e, p)
      | Inr rss \<Rightarrow> liftC (liftW (validation_report_validation_results step rss)) p)"

record rollout_request =
  rr_src_replica_name :: string
  rr_src_global_rank :: "int option"
  rr_stays_command_participant :: bool
  rr_payloads :: "rl_payload list"
  rr_metrics :: pydict
  rr_is_end :: bool

text \<open>The end-of-rollout signal of a replica or of one of its ranks.\<close>

definition rollout_end_signal :: "rollout_request \<Rightarrow> world \<Rightarrow> world outcome" where
  "rollout_end_signal q w =
     (case rollout_end (rr_src_replica_name q) (rr_src_global_rank q) (rr_stays_command_participant q) (w_rm w) of
        Inl e \<Rightarrow> Inl (e, w)
      | Inr (replica_ended, m) \<Rightarrow>
          let w = w\<lparr>w_rm := m\<rparr> in
          if replica_ended
          then bindR (on_rollout_is_end w) (\<lambda>w.
                 Inr (onP (forget_discard_reports (rr_src_replica_name q)) w))
          else Inr w)"

text \<open>Settling the samples a worker reports as discarded.\<close>

definition settle_reported_discards :: "rollout_request \<Rightarrow> world \<Rightarrow> world" where
  "settle_reported_discards q w =
     (if dict_has (rr_metrics q) ''discarded_samples''
      then onP (\<lambda>p. snd (settle_discarded_samples (rr_src_replica_name q)
             (dict_get_or (rr_metrics q) ''discard_report_id'' PNone)
             (parse_non_negative_count (rr_metrics q) ''discarded_samples'') p)) w
      else w)"

text \<open>The counters and the filter before admission.\<close>

definition screen_rollouts :: "rollout_request \<Rightarrow> rollout list \<Rightarrow> world
    \<Rightarrow> (py_error \<times> world) + (rollout list \<times> world)" where
  "screen_rollouts q rs w =
     filter_outdated_rollouts rs
       (if c_variant (w_cfg w) = ''dapo'' then onP (update_dynamic_sampling_statistics (rr_metrics q)) w else w)"

definition h_put_rollout_group :: "rat \<Rightarrow> rollout_request \<Rightarrow> panel \<Rightarrow> panel outcome" where
  "h_put_rollout_group now q p =
     (if rr_is_end q then liftC (liftW (rollout_end_signal q)) p
      else case extract_rollouts (rr_payloads q) (rr_is_end q) False of
        Inl e \<Rightarrow> Inl (e, p)
      | Inr rss \<Rightarrow>
          let rs = concat rss;
              p = onC (onW (settle_reported_discards q)) p;
              is_dapo = (c_variant (w_cfg (pworld p)) = ''dapo'')
          in if rollout_admission_closed (w_pm (pworld p))
             then Inr (onC (onW (\<lambda>w. snd (cleanup_terminal_rollouts rs (Some (rr_metrics q)) is_dapo w))) p)
             else case screen_rollouts q rs (pworld p) of
               Inl (e, w) \<Rightarrow> Inl (e, onC (onW (\<lambda>_. w)) p)
             | Inr (kept, w) \<Rightarrow> liftC (k_put_rollouts now kept) (onC (onW (\<lambda>_. w)) p))"

definition h_train_ack :: "string \<Rightarrow> int \<Rightarrow> int \<Rightarrow> bool \<Rightarrow> pydict \<Rightarrow> panel \<Rightarrow> panel outcome" where
  "h_train_ack nm step ts pf report p = liftC (liftW (train_ack nm step ts pf report)) p"

section \<open>Events\<close>

datatype event =
    Register rat register_request
  | Unregister rat string
  | Set_Profile set_profile_request
  | Set_Trace_Path string string int
  | Heartbeat rat string
  | Comm_Initiator string "string option"
  | Ipc_Info string string
  | Comm_Error rat string
  | Comm_Error_Cleanup rat int
  | Comm_Store_Clear string
  | Next_Prompt rat int "int option" "int option"
  | Validation_Report int "rl_payload list"
  | Rollout_Group rat rollout_request
  | Train_Ack string int int bool pydict
  | Monitor "string list \<Rightarrow> string list" int rat rat "nat option"
  | Lifespan_End

definition forget_value :: "('e + ('a \<times> 's)) \<Rightarrow> 'e + 's" where
  "forget_value r = (case r of Inl e \<Rightarrow> Inl e | Inr (_, s) \<Rightarrow> Inr s)"

fun handle :: "event \<Rightarrow> panel \<Rightarrow> panel outcome" where
  "handle (Register now rq) p = h_register now rq p"
| "handle (Unregister now nm) p = Inr (h_unregister now nm p)"
| "handle (Set_Profile q) p = Inr (onC (set_profile q) p)"
| "handle (Set_Trace_Path nm path rank) p = forget_value (liftV (set_trace_path nm path rank) p)"
| "handle (Heartbeat now nm) p = Inr (onC (replica_heartbeat now nm) p)"
| "handle (Comm_Initiator pair h) p = h_comm_initiator pair h p"
| "handle (Ipc_Info mesh_key addr) p = Inr (h_ipc_info mesh_key addr p)"
| "handle (Comm_Error now nm) p = forget_value (liftV (set_replica_ncclerror now nm) p)"
| "handle (Comm_Error_Cleanup now i) p = liftC (ncclerror_continuation now i) p"
| "handle (Comm_Store_Clear pair) p = Inr (h_comm_store_clear pair p)"
| "handle (Next_Prompt now n vs rank) p = forget_value (liftV (get_batched_prompt_impl now n vs rank) p)"
| "handle (Validation_Report step payloads) p = h_validation_report step payloads p"
| "handle (Rollout_Group now q) p = h_put_rollout_group now q p"
| "handle (Train_Ack nm step ts pf report) p = h_train_ack nm step ts pf report p"
| "handle (Monitor enum timeout now clock fails_at) p = monitor_replica_status enum timeout now clock fails_at p"
| "handle Lifespan_End p = Inr (p\<lparr>shutdown_event := True\<rparr>)"

end
