(* ===== verification/System_Invariants.thy ===== *)
theory System_Invariants
  imports Web_Panel
begin

text \<open>
  The server as an event system. The handlers and the monitor keep every assertion that
  meets the contract of \<open>Handler_Contract\<close>; the structural invariant and the accounting of
  samples meet it, so both hold after any sequence of requests and monitor passes, raised
  exceptions included.
\<close>

section \<open>Handlers keep the contract's assertion\<close>

lemma rollout_end_inv:
  assumes "rm_inv m" and "rollout_end nm rank stays m = Inr (b, m')"
  shows "rm_inv m'"
proof -
  have mark: "rm_inv (mark_ended nm s m0)"
    if "rm_inv m0" "dict_get (rollout_replicas m0) nm = Some r" for s m0 r
  proof -
    have "wf_replica (set_ended x) = wf_replica x" for x
      by (simp add: wf_replica_def set_ended_def)
    then have "reps_ok ROLLOUT (dict_upd nm set_ended (rollout_replicas m0))"
      using that(1) unfolding rm_inv_def reps_ok_def
      by (intro conjI wf_dict_upd) (auto simp: list_all_iff dict_upd_def set_ended_def)
    with that show ?thesis
      by (auto simp: rm_inv_def mark_ended_def set_ended_def)
  qed
  have add: "rm_inv (add_reporter nm k m0) = rm_inv m0" for k m0
    by (simp add: rm_inv_def add_reporter_def)
  have get: "rollout_replicas (add_reporter nm k m0) = rollout_replicas m0" for k m0
    by (simp add: add_reporter_def)
  show ?thesis
    using assms by (auto simp: rollout_end_def Let_def add get intro!: mark split: option.splits if_splits
        elim!: bindR_InrE)
qed

text \<open>The samples a group of rollouts accounts for: its rollouts, the discards it reports
  and, under dynamic sampling, the generations filtered by the worker.\<close>

definition filtered_samples :: "config \<Rightarrow> pydict \<Rightarrow> int" where
  "filtered_samples c metrics = (if c_variant c = ''dapo''
     then parse_non_negative_count metrics ''filtered_positive''
        + parse_non_negative_count metrics ''filtered_negative'' else 0)"

definition returned_samples :: "config \<Rightarrow> rollout_request \<Rightarrow> int" where
  "returned_samples c q =
     (if rr_is_end q then 0
      else case extract_rollouts (rr_payloads q) False False of
        Inl _ \<Rightarrow> 0
      | Inr rss \<Rightarrow> int (length (concat rss))
          + (if dict_has (rr_metrics q) ''discarded_samples''
             then parse_non_negative_count (rr_metrics q) ''discarded_samples'' else 0)
          + filtered_samples c (rr_metrics q))"

definition event_budget :: "event \<Rightarrow> panel \<Rightarrow> int" where
  "event_budget ev p = (case ev of Rollout_Group now q \<Rightarrow> returned_samples (w_cfg (pworld p)) q | _ \<Rightarrow> 0)"

lemma count_nonneg [simp]: "0 \<le> parse_non_negative_count m k"
  by (simp add: parse_non_negative_count_def split: option.splits pyval.splits)

lemma filtered_nonneg [simp]: "0 \<le> filtered_samples c m"
  by (simp add: filtered_samples_def)

lemma onC_simps [simp]:
  "ctl (onC f p) = f (ctl p)"
  "policy_replicas_were_registered (onC f p) = policy_replicas_were_registered p"
  "stop_broadcast_sent (onC f p) = stop_broadcast_sent p"
  "server_should_exit (onC f p) = server_should_exit p"
  by (simp_all add: onC_def)

context handler_contract
begin

lemma keeps_liftC:
  "keeps (\<lambda>k. I j (k_world k)) (f (ctl p)) \<Longrightarrow> keeps (\<lambda>p. I j (pworld p)) (liftC f p)"
  by (auto simp: liftC_def keeps_def after_def split: sum.splits)

lemma keeps_liftV:
  "keeps_via snd (\<lambda>k. I j (k_world k)) (f (ctl p)) \<Longrightarrow> keeps (\<lambda>p. I j (pworld p)) (forget_value (liftV f p))"
  by (auto simp: liftV_def forget_value_def keeps_def after_def keeps_via_def split: sum.splits)

lemma finalize_keeps [simp]: "pworld (snd (maybe_finalize reason p)) = pworld p"
  by (simp add: maybe_finalize_def Let_def)

lemma statistics_keep:
  assumes "I (k + filtered_samples (w_cfg w) m) w" and "c_variant (w_cfg w) = ''dapo''"
  shows "I k (onP (update_dynamic_sampling_statistics m) w)"
proof -
  let ?n = "filtered_samples (w_cfg w) m"
  let ?g = "\<lambda>p. add_filter_record ''filtered_negative'' (parse_non_negative_count m ''filtered_negative'')
      (add_filter_record ''filtered_positive'' (parse_non_negative_count m ''filtered_positive'')
        (add_filter_record ''sampled'' (parse_non_negative_count m ''sampled'') p))"
  let ?h = "\<lambda>p. (?g p)\<lparr>remain_samples_num := remain_samples_num (?g p) - ?n\<rparr>"
  have "pinv (?g (w_pm w))"
    by (intro add_filter_record_pinv winv_pinv structural [OF assms(1)])
  then have "pinv (?h (w_pm w))"
    by (rule pinv_fields) simp_all
  then have "I (k + ?n) (onP ?h w)"
    using assms(1) by (intro policy_side) (simp_all add: frame_pm_def add_filter_record_def)
  then have "I k (onP (settle_samples_on_the_fly ?n) (onP ?h w))"
    by (intro settles) simp_all
  moreover have "onP (update_dynamic_sampling_statistics m) w = onP (settle_samples_on_the_fly ?n) (onP ?h w)"
    by (simp add: onP_def update_dynamic_sampling_statistics_def Let_def assms(2)
        filtered_samples_def parse_dynamic_sampling_counts_def)
  ultimately show ?thesis by simp
qed

lemma terminal_keeps:
  assumes "I (k + int (length rs) + filtered_samples (w_cfg w) m) w"
  shows "I k (snd (cleanup_terminal_rollouts rs (Some m) (c_variant (w_cfg w) = ''dapo'') w))"
proof -
  let ?n = "int (length rs) + filtered_samples (w_cfg w) m"
  let ?w = "if rs \<noteq> [] then publish_payload_transport_cleanup rs (replicate (length rs) False) w else w"
  have "I (k + ?n) w" using assms by (simp add: add.assoc)
  then have "I (k + ?n) ?w" by (cases "rs = []") (simp_all only: cleanup_published if_True if_False simp_thms)
  then have "I k (onP (settle_samples_on_the_fly ?n) ?w)" by (rule settles) simp
  moreover have "snd (cleanup_terminal_rollouts rs (Some m) (c_variant (w_cfg w) = ''dapo'') w)
      = onP (settle_samples_on_the_fly ?n) ?w"
    by (simp add: cleanup_terminal_rollouts_def Let_def parse_dynamic_sampling_counts_def filtered_samples_def)
  ultimately show ?thesis by metis
qed

lemma end_signal_keeps:
  assumes "I k w"
  shows "keeps (I k) (rollout_end_signal q w)"
proof -
  have "I k (onP (forget_discard_reports nm) v)" if "I k v" for nm v
    using that by (intro policy_side)
      (auto simp: forget_discard_reports_def frame_pm_def intro: pinv_fields [OF winv_pinv [OF structural]])
  moreover have "I k (w\<lparr>w_rm := m\<rparr>)" if "rollout_end nm rank stays (w_rm w) = Inr (b, m)" for nm rank stays b m
    using rollout_end_inv [OF _ that] structural [OF assms] by (intro rollout_mutates assms) (simp add: winv_def)
  ultimately show ?thesis
    using assms by (auto simp: rollout_end_signal_def Let_def split: sum.splits prod.splits
        intro!: keeps_bindR drains)
qed

lemma discards_keep:
  assumes "I (k + (if dict_has (rr_metrics q) ''discarded_samples''
      then parse_non_negative_count (rr_metrics q) ''discarded_samples'' else 0)) w"
  shows "I k (settle_reported_discards q w)"
  using assms discards [of k "parse_non_negative_count (rr_metrics q) ''discarded_samples''" w]
  by (cases "dict_get (rr_metrics q) ''discarded_samples''") (simp_all add: settle_reported_discards_def max_def)

lemma settle_reported_cfg [simp]: "w_cfg (settle_reported_discards q w) = w_cfg w"
  by (simp add: settle_reported_discards_def)

lemma screen_keeps:
  assumes "I (k + int (length rs) + filtered_samples (w_cfg w) (rr_metrics q)) w"
  shows "screen_rollouts q rs w = Inr (kept, w') \<Longrightarrow> I (k + int (length kept)) w'"
    and "screen_rollouts q rs w = Inl (e, w'') \<Longrightarrow> I k w''"
proof -
  let ?w = "if c_variant (w_cfg w) = ''dapo'' then onP (update_dynamic_sampling_statistics (rr_metrics q)) w else w"
  have w: "I (k + int (length rs)) ?w"
  proof (cases "c_variant (w_cfg w) = ''dapo''")
    case True
    with statistics_keep [OF assms True] show ?thesis by simp
  next
    case False
    with weaken [OF assms, of "k + int (length rs)"] show ?thesis by simp
  qed
  show "screen_rollouts q rs w = Inr (kept, w') \<Longrightarrow> I (k + int (length kept)) w'"
    unfolding screen_rollouts_def by (rule filters [OF w])
  have "I k ?w" using weaken [OF w, of k] by simp
  then show "screen_rollouts q rs w = Inl (e, w'') \<Longrightarrow> I k w''"
    unfolding screen_rollouts_def by (rule filter_raises)
qed

lemma group_keeps:
  assumes "I (j + returned_samples (w_cfg (pworld p)) q) (pworld p)"
  shows "keeps (\<lambda>p. I j (pworld p)) (h_put_rollout_group now q p)"
proof (cases "rr_is_end q")
  case True
  have "keeps (I j) (rollout_end_signal q (pworld p))"
    using assms True by (intro end_signal_keeps) (simp add: returned_samples_def)
  then have "keeps (\<lambda>p. I j (pworld p)) (liftC (liftW (rollout_end_signal q)) p)"
    by (intro keeps_liftC keeps_liftW)
  with True show ?thesis by (simp only: h_put_rollout_group_def if_True)
next
  case False
  show ?thesis
  proof (cases "extract_rollouts (rr_payloads q) False False")
    case (Inl e)
    with False assms show ?thesis by (simp add: h_put_rollout_group_def returned_samples_def)
  next
    case (Inr rss)
    let ?rs = "concat rss" let ?c = "w_cfg (pworld p)"
    let ?f = "filtered_samples ?c (rr_metrics q)"
    let ?w = "settle_reported_discards q (pworld p)"
    have "I (j + int (length ?rs) + ?f + (if dict_has (rr_metrics q) ''discarded_samples''
        then parse_non_negative_count (rr_metrics q) ''discarded_samples'' else 0)) (pworld p)"
      using assms False Inr by (simp add: returned_samples_def algebra_simps)
    then have w: "I (j + int (length ?rs) + filtered_samples (w_cfg ?w) (rr_metrics q)) ?w"
      by (simp only: settle_reported_cfg) (rule discards_keep)
    have closed: "I j (snd (cleanup_terminal_rollouts ?rs (Some (rr_metrics q)) (c_variant ?c = ''dapo'') ?w))"
      using terminal_keeps [OF w] by simp
    have put: "keeps (\<lambda>p. I j (pworld p)) (liftC (k_put_rollouts now kept) (onC (onW (\<lambda>_. w')) p'))"
      if "screen_rollouts q ?rs ?w = Inr (kept, w')" for kept w' p'
      using screen_keeps(1) [OF w that] by (intro keeps_liftC put_keeps) simp
    have fail: "I j w'" if "screen_rollouts q ?rs ?w = Inl (e, w')" for e w'
      using screen_keeps(2) [OF w that] .
    show ?thesis
      using False Inr closed put fail
      by (auto simp: h_put_rollout_group_def Let_def split: sum.split)
  qed
qed

lemma keeps_liftM:
  "keeps (I j) (f (pworld p)) \<Longrightarrow> keeps (\<lambda>p. I j (pworld p)) (liftM f p)"
  by (auto simp: liftM_def keeps_def after_def split: sum.splits)

lemma stop_keeps: "I j (pworld p) \<Longrightarrow> I j (pworld (broadcast_stop fails_at p))"
  using publishes by (auto simp: broadcast_stop_def Let_def split: option.splits)

lemma checkout_keeps:
  "I j (pworld p) \<Longrightarrow> keeps (\<lambda>p. I j (pworld p)) (checkout_iteration enum timeout dl now clock p)"
  by (auto simp: checkout_iteration_def self_terminate_def intro!: keeps_bindR keeps_liftM rollouts_maintained)

lemma monitor_keeps:
  assumes "I j (pworld p)"
  shows "keeps (\<lambda>p. I j (pworld p)) (monitor_replica_status enum timeout now clock fails_at p)"
proof -
  have "keeps (\<lambda>p. I j (pworld p)) (scan enum timeout now clock fails_at p)"
    unfolding scan_def Let_def
    by (intro keeps_bindR keeps_liftM policies_maintained rollouts_maintained keeps_if)
      (auto simp: assms await_rollout_checkout_def self_terminate_def stop_keeps intro!: checkout_keeps)
  with assms show ?thesis
    by (auto simp: monitor_replica_status_def self_terminate_def checkout_keeps split: monitor.splits)
qed

lemma handle_keeps_budget:
  assumes "I (event_budget ev p) (pworld p)"
  shows "keeps (\<lambda>p. I 0 (pworld p)) (handle ev p)"
proof (cases ev)
  case (Register now rq)
  have gs: "length (at_group_size (from_register_request rq')) = length MESH_NAMES"
    if "validate_mesh_names rq = Inr rq'" for rq'
    using validate_mesh_names_canonical [OF that] by (simp add: from_register_request_def MESH_NAMES_def)
  show ?thesis
    using assms Register gs
    by (auto simp: h_register_def event_budget_def split: sum.splits intro!: keeps_bindR keeps_liftC join_keeps)
next
  case (Unregister now nm)
  have "keeps (\<lambda>p. I 0 (pworld p)) (liftC (k_unregister now nm) p)"
    using assms Unregister by (intro keeps_liftC leave_keeps) (simp add: event_budget_def)
  with Unregister show ?thesis by (simp add: h_unregister_def keeps_def)
next
  case (Comm_Store_Clear pair)
  have "keeps (\<lambda>k. I 0 (k_world k)) (clear_temp_kv_store pair (ctl p))"
    using assms Comm_Store_Clear by (simp add: clear_temp_kv_store_def event_budget_def)
  then have "keeps (\<lambda>p. I 0 (pworld p)) (liftC (clear_temp_kv_store pair) p)" by (rule keeps_liftC)
  with Comm_Store_Clear show ?thesis by (simp add: h_comm_store_clear_def keeps_def)
next
  case (Rollout_Group now q)
  with assms show ?thesis by (simp add: event_budget_def group_keeps)
next
  case (Validation_Report step payloads)
  with assms show ?thesis
    by (auto simp: h_validation_report_def event_budget_def split: sum.splits
        intro!: keeps_liftC keeps_liftW validates)
qed (use assms in \<open>auto simp: event_budget_def h_comm_initiator_def h_ipc_info_def h_train_ack_def
    update_kv_store_def profile_keeps heartbeat_keeps split: option.splits
    intro!: keeps_liftV keeps_liftC keeps_liftW trace_keeps nccl_report_keeps nccl_cleanup_keeps
      prompts_keep monitor_keeps acks\<close>)

end

section \<open>Who meets the contract\<close>

interpretation shape: handler_contract "\<lambda>_. winv"
proof unfold_locales
  fix w w' :: world assume "winv w" "rm_inv (w_rm w')" "rframe w w'"
  then show "winv w'" by (auto simp: winv_def rframe_def)
next
  fix rs w kept w' assume "winv w" "filter_outdated_rollouts rs w = Inr (kept, w')"
  then show "winv w'" using filter_outdated_winv [of w rs] by simp
next
  fix w n assume "winv w"
  then show "winv (onP (\<lambda>p. p\<lparr>samples_on_the_fly := samples_on_the_fly p
      + int n * c_n_generation (w_cfg w)\<rparr>) w)"
    by (intro winv_onP) (auto intro: pinv_fields dest: winv_pinv)
qed (auto intro: winv_onP pm_register_winv pm_unregister_winv train_ack_winv validation_report_winv
    on_rollout_is_end_winv settle_pinv settle_discarded_pinv put_rollouts_winv dest: winv_pinv)

lemma acct_handed_out:
  assumes "acct k w"
  shows "acct k (onP (\<lambda>p. p\<lparr>samples_on_the_fly := samples_on_the_fly p + int n * c_n_generation (w_cfg w)\<rparr>) w)"
proof -
  let ?m = "int n * c_n_generation (w_cfg w)"
  let ?w = "onP (\<lambda>p. p\<lparr>samples_on_the_fly := samples_on_the_fly p + ?m\<rparr>) w"
  have "winv ?w"
    using assms by (intro winv_onP acct_winv) (auto intro: pinv_fields dest: acct_pinv)
  moreover have cfg: "cfg_ok ?w" using assms by (simp add: acct_def cfg_ok_def)
  moreover have "held ?w = held w + ?m"
    using assms cfg by (simp add: acct_def held_shared ledger_total_def)
  moreover have "0 \<le> ?m" using assms by (simp add: acct_def cfg_ok_def)
  ultimately show ?thesis using assms by (simp add: acct_def)
qed

interpretation books: handler_contract acct
proof unfold_locales
  fix k w w' assume a: "acct k w" and "rm_inv (w_rm w')" and f: "rframe w w'"
  then have w': "winv w'" by (auto simp: acct_def winv_def rframe_def)
  obtain n where "w_cfg w' = (w_cfg w)\<lparr>c_policy_n_init := c_policy_n_init (w_cfg w), c_rollout_n_init := n\<rparr>"
    using f by (auto simp: rframe_def)
  from acct_fields_cfg [OF a w' this] f show "acct k w'" by (simp add: rframe_def)
next
  fix k rs w kept w' assume "acct (k + int (length rs)) w" "filter_outdated_rollouts rs w = Inr (kept, w')"
  from acct_filter_outdated [OF this] show "acct (k + int (length kept)) w'" by simp
next
  fix k w assume "acct k w"
  then show "keeps (acct k) (on_rollout_is_end w)"
    by (simp add: on_rollout_is_end_def acct_finish_draining)
qed (auto intro: acct_mono acct_onP acct_df acct_pm_register acct_pm_unregister acct_train_ack
    acct_validation_report acct_settle acct_settle_discarded acct_put_rollouts acct_handed_out dest: acct_winv)

section \<open>The server as an event system\<close>

interpretation shape_events: event_system handle "\<lambda>p. winv (pworld p)" "\<lambda>_ _. True"
  by unfold_locales (rule shape.handle_keeps_budget)

interpretation books_events: event_system handle "\<lambda>p. acct 0 (pworld p)"
  "\<lambda>ev p. event_budget ev p \<le> held (pworld p)"
  by unfold_locales (rule books.handle_keeps_budget, simp add: acct_def)

text \<open>
  C2: Whatever requests and monitor passes the server processes, in whatever order and
  with whatever exceptions, the state of the managers stays consistent: the replica and
  status tables agree and every replica in them is well formed, a status exists for every
  complete policy replica, the draining phase and its frozen horizon go together, the
  completion acknowledgements come from recipients and a full set of them has completed
  the job, and the ledger of dispatched steps has no future step and no negative count.
\<close>

theorem serve_keeps_consistency:
  assumes "winv (pworld p)"
  shows "winv (pworld (serve handle evs p))"
  by (rule shape_events.serve_inv [OF assms]) simp


section \<open>Flags of the server\<close>

text \<open>What every event leaves set.\<close>

definition latched :: "panel \<Rightarrow> panel \<Rightarrow> bool" where
  "latched p p' \<longleftrightarrow> (stop_broadcast_sent p \<longrightarrow> stop_broadcast_sent p')
     \<and> (replicas_were_registered p \<longrightarrow> replicas_were_registered p')
     \<and> (policy_replicas_were_registered p \<longrightarrow> policy_replicas_were_registered p')
     \<and> (shutdown_event p \<longrightarrow> shutdown_event p') \<and> (sigterm_sent p \<longrightarrow> sigterm_sent p')
     \<and> (server_should_exit p = Some True \<longrightarrow> server_should_exit p' = Some True)
     \<and> (monitor_state p = Monitor_Done \<longrightarrow> monitor_state p' = Monitor_Done)"

lemma latched_refl [simp]: "latched p p"
  by (simp add: latched_def)

lemma latched_ctl [simp]:
  "latched p (p'\<lparr>ctl := k\<rparr>) = latched p p'" "latched p (onC f p') = latched p p'"
  by (simp_all add: latched_def onC_def)

lemma latched_finalize: "latched p q \<Longrightarrow> latched p (snd (maybe_finalize r q))"
  by (auto simp: latched_def maybe_finalize_def Let_def)

lemma latched_lift:
  "latched p q \<Longrightarrow> keeps (latched p) (liftC f q)" "latched p q \<Longrightarrow> keeps (latched p) (forget_value (liftV g q))"
  by (auto simp: liftC_def liftV_def forget_value_def split: sum.splits)

lemma latched_liftM:
  assumes "latched p q"
  shows "keeps (latched p) (liftM f q)"
  using assms by (auto simp: liftM_def latched_def onC_def split: sum.splits)

lemma latched_terminate: "latched p q \<Longrightarrow> latched p (self_terminate q)"
  by (simp add: latched_def self_terminate_def)

lemma liftM_state: "liftM f q = Inr q' \<Longrightarrow> monitor_state q' = monitor_state q"
  by (auto simp: liftM_def onC_def split: sum.splits)

lemma latched_checkout:
  assumes "latched p q" and "monitor_state p \<noteq> Monitor_Done"
  shows "keeps (latched p) (checkout_iteration enum timeout dl now clock q)"
proof -
  have "keeps (latched p) (bindR (liftM f q) (\<lambda>q. Inr (if dl < clock then self_terminate q
      else q\<lparr>monitor_state := Checkout dl\<rparr>)))" for f
    by (rule keeps_bindR [OF latched_liftM [OF assms(1)]])
      (use assms(2) in \<open>auto simp: latched_def self_terminate_def\<close>)
  then show ?thesis
    using assms(1) by (simp add: checkout_iteration_def latched_terminate)
qed

lemma latched_monitor: "keeps (latched p) (monitor_replica_status enum timeout now clock fails_at p)"
proof -
  have stop: "latched p (broadcast_stop fails_at q)" if "latched p q" for q
    using that by (auto simp: broadcast_stop_def Let_def latched_def onC_def split: option.splits)
  have "keeps (latched p) (scan enum timeout now clock fails_at p)" if "monitor_state p \<noteq> Monitor_Done"
    unfolding scan_def Let_def
    by (intro keeps_bindR latched_liftM keeps_if latched_refl)
      (auto simp: await_rollout_checkout_def latched_finalize stop latched_terminate
        intro!: latched_checkout that)
  then show ?thesis
    by (auto simp: monitor_replica_status_def latched_terminate split: monitor.splits
        intro!: latched_checkout) (simp add: latched_def)
qed

lemma latched_handle: "keeps (latched p) (handle ev p)"
proof (cases ev)
  case (Register now rq)
  have "keeps (latched p) (bindR (liftC f p) (\<lambda>p. Inr (p\<lparr>replicas_were_registered := True,
      policy_replicas_were_registered := policy_replicas_were_registered p \<or> b\<rparr>)))" for f b
    by (rule keeps_bindR [OF latched_lift(1)]) (auto simp: latched_def)
  with Register show ?thesis by (auto simp: h_register_def split: sum.splits)
next
  case (Unregister now nm)
  have "latched p (after (liftC f p))" for f using latched_lift(1) [of p p f] by (simp add: keeps_def)
  with Unregister show ?thesis by (simp add: h_unregister_def latched_finalize)
next
  case (Comm_Store_Clear pair)
  have "latched p (after (liftC f p))" for f using latched_lift(1) [of p p f] by (simp add: keeps_def)
  with Comm_Store_Clear show ?thesis by (simp add: h_comm_store_clear_def)
next
  case (Rollout_Group now q)
  then show ?thesis
    by (auto simp: h_put_rollout_group_def Let_def intro!: latched_lift split: sum.splits)
next
  case Lifespan_End
  then show ?thesis by (simp add: latched_def)
qed (auto simp: h_comm_initiator_def h_ipc_info_def h_train_ack_def h_validation_report_def
    latched_monitor intro!: latched_lift split: option.splits sum.splits)

interpretation flags: event_system handle "latched p" "\<lambda>_ _. True"
  for p
proof unfold_locales
  fix s ev assume "latched p s"
  with latched_handle [of s ev] show "keeps (latched p) (handle ev s)"
    by (auto simp: keeps_def latched_def)
qed

lemma liftM_flag: "liftM f q = Inr q' \<Longrightarrow> stop_broadcast_sent q' = stop_broadcast_sent q"
  by (auto simp: liftM_def onC_def split: sum.splits)

lemma scan_quiet:
  assumes "scan enum timeout now clock fails_at p = Inr p'" and "\<not> shutdown_on_no_policy_replicas p"
  shows "\<exists>p1. liftM (pm_maintain_life_status enum timeout now) p = Inr p1
    \<and> (\<exists>p2. liftM (rm_maintain_life_status enum timeout now) p1 = Inr p2
      \<and> (let p3 = snd (maybe_finalize heartbeat_death_reap p2)
         in p' = (if stop_due p3 then broadcast_stop fails_at p3 else p3)))"
proof -
  have same: "shutdown_on_no_policy_replicas (broadcast_stop f q) = shutdown_on_no_policy_replicas q" for f q
    by (auto simp: broadcast_stop_def Let_def onC_def split: option.splits)
  have fin: "shutdown_on_no_policy_replicas (snd (maybe_finalize r q)) = shutdown_on_no_policy_replicas q" for r q
    by (simp add: maybe_finalize_def Let_def)
  have lift: "shutdown_on_no_policy_replicas q' = shutdown_on_no_policy_replicas q" if "liftM f q = Inr q'" for f q q'
    using that by (auto simp: liftM_def onC_def split: sum.splits)
  from assms(1) obtain p1 p2 where p1: "liftM (pm_maintain_life_status enum timeout now) p = Inr p1"
    and p2: "liftM (rm_maintain_life_status enum timeout now) p1 = Inr p2"
    unfolding scan_def by (auto elim!: bindR_InrE)
  with assms lift [OF p1] lift [OF p2] show ?thesis
    by (cases "stop_due (snd (maybe_finalize heartbeat_death_reap p2))") (simp_all add: scan_def Let_def same fin)
qed


end
