(* ===== verification/Shutdown.thy ===== *)
theory Shutdown
  imports System_Invariants
begin

text \<open>
  How a run ends: the controller finalizes once every replica is gone, the wait for the
  rollout checkout always ends, and what a policy replica that never became complete does
  to the monitor when it is reaped.
\<close>

section \<open>Reaping rollouts never raises\<close>

lemma rm_unregister_ok:
  assumes "rm_inv (w_rm w)" and "nm \<in> set (dict_keys (rollout_replicas (w_rm w)))"
  shows "\<exists>w'. rm_unregister now nm w = Inr w' \<and> rm_inv (w_rm w')
    \<and> dict_keys (rollout_replicas (w_rm w')) = filter (\<lambda>k. k \<noteq> nm) (dict_keys (rollout_replicas (w_rm w)))"
proof -
  obtain r where r: "dict_get (rollout_replicas (w_rm w)) nm = Some r"
    using assms(2) dict_has_iff [of "rollout_replicas (w_rm w)" nm] by auto
  let ?w = "w\<lparr>w_rm := rm_remove now nm r (w_rm w)\<rparr>"
  let ?s = "filter (safe_survivor (w_rm ?w)) (rm_arrived (w_rm ?w))"
  have inv: "rm_inv (w_rm ?w)" using assms(1) by (simp add: rm_remove_inv)
  have sub: "set ?s \<subseteq> set (rm_arrived (w_rm ?w))" by auto
  have keys: "dict_keys (rollout_replicas (rm_remove now nm r (w_rm w)))
      = filter (\<lambda>k. k \<noteq> nm) (dict_keys (rollout_replicas (w_rm w)))"
    by (simp add: rm_remove_def dict_pop_def dict_keys_def filter_map comp_def)
  have "\<exists>w'. rm_unregister now nm w = Inr w'
    \<and> dict_keys (rollout_replicas (w_rm w')) = dict_keys (rollout_replicas (w_rm ?w))"
    using r rm_rebuild_eq [OF inv sub] by (simp add: rm_unregister_def Let_def)
  then obtain w' where "rm_unregister now nm w = Inr w'"
    "dict_keys (rollout_replicas (w_rm w')) = dict_keys (rollout_replicas (w_rm ?w))" by blast
  then show ?thesis
    using rm_unregister_inv [OF assms(1), of now nm] keys by simp
qed

lemma rm_reap_ok:
  assumes "rm_inv (w_rm w)" and "distinct ns" and "set ns \<subseteq> set (dict_keys (rollout_replicas (w_rm w)))"
  shows "\<exists>w'. forR ns (rm_unregister now) w = Inr w'"
  using assms
proof (induction ns arbitrary: w)
  case Nil
  then show ?case by simp
next
  case (Cons n ns)
  obtain w1 where w1: "rm_unregister now n w = Inr w1" "rm_inv (w_rm w1)"
    "dict_keys (rollout_replicas (w_rm w1)) = filter (\<lambda>k. k \<noteq> n) (dict_keys (rollout_replicas (w_rm w)))"
    using rm_unregister_ok [OF Cons.prems(1), of n now] Cons.prems(3) by auto
  have "\<exists>w'. forR ns (rm_unregister now) w1 = Inr w'"
    using Cons.prems w1 by (intro Cons.IH) auto
  with w1(1) show ?case by simp
qed

text \<open>\<open>enum\<close> lists a set of names in some order.\<close>

definition enumerates :: "(string list \<Rightarrow> string list) \<Rightarrow> bool" where
  "enumerates enum \<longleftrightarrow> (\<forall>xs. distinct (enum xs) \<and> set (enum xs) = set xs)"

lemma rm_maintain_ok:
  assumes "rm_inv (w_rm w)" and "enumerates enum"
  shows "\<exists>w'. rm_maintain_life_status enum timeout now w = Inr w'"
proof -
  have ok: "reps_ok ROLLOUT (rollout_replicas (w_rm w))" using assms(1) by (simp add: rm_inv_def)
  have "set (dead_names timeout now (rm_iter (w_rm w))) \<subseteq> set (map rp_name (dict_values (rollout_replicas (w_rm w))))"
    by (auto simp: dead_names_def rm_iter_def)
  then show ?thesis
    unfolding rm_maintain_life_status_def using assms
    by (intro rm_reap_ok) (simp_all only: enumerates_def reps_ok_names [OF ok])
qed

text \<open>
  The wait for the rollout checkout always ends. While the monitor waits, a pass
  either ends the wait or keeps waiting with the same deadline, and the first pass whose
  clock is past the deadline ends it: the shutdown event is set and SIGTERM is sent. It
  also ends at once when every rollout replica has ended, and it never raises.
\<close>

theorem checkout_ends:
  assumes "monitor_state p = Checkout deadline" and "winv (pworld p)" and "enumerates enum"
  shows "\<exists>p'. handle (Monitor enum timeout now clock fails_at) p = Inr p'
    \<and> (if shutdown_event p \<or> all_rollouts_ended (w_rm (pworld p)) \<or> deadline < clock
       then shutdown_event p' \<and> sigterm_sent p' \<and> monitor_state p' = Monitor_Done
       else monitor_state p' = Checkout deadline \<and> sigterm_sent p' = sigterm_sent p)"
proof -
  obtain w' where "rm_maintain_life_status enum timeout now (pworld p) = Inr w'"
    using rm_maintain_ok [OF _ assms(3)] assms(2) unfolding winv_def by blast
  then have "liftM (rm_maintain_life_status enum timeout now) p = Inr (onC (onW (\<lambda>_. w')) p)"
    by (simp add: liftM_def)
  then show ?thesis
    using assms(1) by (auto simp: monitor_replica_status_def checkout_iteration_def self_terminate_def onC_def)
qed

text \<open>
  Finalization. If every replica, of whatever role, is gone after at least one had
  registered, and the server is up and not yet asked to exit, then the next monitor pass
  asks it to exit; it cannot raise, because nothing is left to reap.
\<close>

theorem monitor_finalizes:
  assumes "all_replicas_gone p" and "replicas_were_registered p" and "server_should_exit p = Some False"
    and "monitor_state p = Scanning" and "\<not> shutdown_event p" and "enumerates enum"
  shows "\<exists>p'. handle (Monitor enum timeout now clock fails_at) p = Inr p' \<and> server_should_exit p' = Some True"
proof -
  have none: "policy_replicas (w_pm (pworld p)) = []" "rollout_replicas (w_rm (pworld p)) = []"
    using assms(1) by (simp_all add: all_replicas_gone_def)
  have empty: "enum [] = []" using assms(6) unfolding enumerates_def by (metis set_empty)
  have same: "onC (onW (\<lambda>_. pworld p)) p = p" by (simp add: onC_def onW_def)
  have m1: "liftM (pm_maintain_life_status enum timeout now) p = Inr p"
    using none same by (simp add: liftM_def pm_maintain_life_status_def pm_iter_def dead_names_def
        dict_values_def empty)
  have m2: "liftM (rm_maintain_life_status enum timeout now) p = Inr p"
    using none same by (simp add: liftM_def rm_maintain_life_status_def rm_iter_def dead_names_def
        dict_values_def empty)
  let ?q = "p\<lparr>server_should_exit := Some True\<rparr>"
  have fin: "snd (maybe_finalize heartbeat_death_reap p) = ?q"
    using assms(1-3) by (simp add: maybe_finalize_def)
  have stop: "server_should_exit (broadcast_stop fails_at ?q) = Some True"
    "rollout_replicas (w_rm (pworld (broadcast_stop fails_at ?q))) = []"
    using none by (auto simp: broadcast_stop_def Let_def split: option.splits)
  show ?thesis
    using assms(4,5) none stop
    by (auto simp: monitor_replica_status_def scan_def m1 m2 fin Let_def await_rollout_checkout_def self_terminate_def)
qed

text \<open>
  A policy replica that stops sending heartbeats before all its atoms have
  registered has no status entry; reaping it raises a \<open>KeyError\<close> that ends the monitor
  thread, and from then on no pass reaps, finalizes or broadcasts STOP.
\<close>

theorem reaping_incomplete_policy_ends_monitor:
  assumes "monitor_state p = Scanning" and "\<not> shutdown_event p"
    and "enum (dead_names timeout now (pm_iter (w_pm (pworld p)))) = nm # rest"
    and "dict_has (policy_replicas (w_pm (pworld p))) nm" and "\<not> dict_has (status (w_pm (pworld p))) nm"
  shows "\<exists>p'. handle (Monitor enum timeout now clock fails_at) p = Inl (KeyError, p')
    \<and> monitor_state (serve handle evs p') = Monitor_Done
    \<and> (\<forall>e t n c f. handle (Monitor e t n c f) (serve handle evs p') = Inr (serve handle evs p'))"
proof -
  let ?w = "onP (policy_replicas_update (dict_pop nm)) (pworld p)"
  let ?p = "(onC (onW (\<lambda>_. ?w)) p)\<lparr>monitor_state := Monitor_Done\<rparr>"
  have "pm_unregister now nm (pworld p) = Inl (KeyError, ?w)"
    using assms(4,5) by (auto simp: pm_unregister_def Let_def)
  then have "pm_maintain_life_status enum timeout now (pworld p) = Inl (KeyError, ?w)"
    by (simp add: pm_maintain_life_status_def assms(3))
  then have "handle (Monitor enum timeout now clock fails_at) p = Inl (KeyError, ?p)"
    using assms(1,2) by (simp add: monitor_replica_status_def scan_def liftM_def)
  moreover have "monitor_state (serve handle evs ?p) = Monitor_Done"
    using flags.serve_inv [of ?p ?p evs] by (simp add: latched_def)
  ultimately show ?thesis
    by (intro exI [of _ ?p]) (simp add: monitor_replica_status_def)
qed

end
