(* ===== verification/Protocol_Properties.thy ===== *)
theory Protocol_Properties
  imports Controller_Model
begin

text \<open>
  Properties of single protocols of the controller: command messages, registration
  requests, payload extraction, configuration, discard reports, the completion barrier,
  the frozen horizon, the re-sharded buffers, one training step at a time, and the
  delivery of weights.
\<close>

section \<open>Messages\<close>

text \<open>
  Commands survive the wire. For any byte codec that decodes what it encodes, a
  packed command of any type is unpacked to the same command, uuid included.
\<close>

theorem command_roundtrip:
  assumes "\<forall>d. unpackb (packb d) = d"
  shows "depack unpackb fresh (pack packb c) = Some (Inr c)"
  using assms by (simp add: depack_def pack_def deserialize_serialize)

text \<open>
  Registration requests. The validator accepts a request exactly if its three lists
  have one length, its mesh names are the four mesh dimensions (in any order, possibly
  repeated), its role is known and its name is not empty; an accepted request lists the
  dimensions in the canonical order, and the rank and group size of every dimension are
  the ones the request gave for it.
\<close>

theorem register_request_validated:
  "((\<exists>rq'. validate_mesh_names rq = Inr rq') \<longleftrightarrow>
     length (rq_mesh_names rq) = length (rq_ranks rq)
     \<and> length (rq_ranks rq) = length (rq_group_size rq)
     \<and> set (rq_mesh_names rq) = set MESH_NAMES
     \<and> rq_role rq \<in> set Role_ALL \<and> rq_replica_name rq \<noteq> [])
   \<and> (\<forall>rq' i j. validate_mesh_names rq = Inr rq' \<and> distinct (rq_mesh_names rq)
        \<and> i < length (rq_mesh_names rq) \<and> j < length MESH_NAMES \<and> rq_mesh_names rq ! i = MESH_NAMES ! j
      \<longrightarrow> rq_mesh_names rq' = MESH_NAMES \<and> rq_ranks rq' ! j = rq_ranks rq ! i
          \<and> rq_group_size rq' ! j = rq_group_size rq ! i)"
  using validate_mesh_names_Inr_iff [of rq] validate_mesh_names_canonical [of rq]
    validate_mesh_names_entry [of rq] by blast

text \<open>
  Extraction of rollouts loses nothing. If it succeeds on payloads whose optional
  per-completion lists match their completions, the flattened rollouts are the
  completions of the payloads in order, each with its reward, its advantage, and the
  prompt index and weight version of its payload.
\<close>

theorem extraction_lossless:
  assumes "extract_rollouts ps False False = Inr rss" and "list_all lists_match ps"
  shows "map ro_completion (concat rss) = concat (map (the \<circ> pl_completions) ps)
    \<and> map ro_reward (concat rss) = concat (map (the \<circ> pl_rewards) ps)
    \<and> map ro_advantage (concat rss) = concat (map (the \<circ> pl_advantages) ps)
    \<and> list_all2 (\<lambda>p rs. list_all (\<lambda>r. ro_prompt_idx r = pl_prompt_idx p
        \<and> ro_weight_version r = pl_weight_version p) rs) ps rss"
proof -
  have "list_all2 (\<lambda>p rs. extract_one False False p = Inr rs) ps rss"
    using assms(1) by (simp add: extract_rollouts_Inr_iff)
  then show ?thesis
    using assms(2)
  proof (induction rule: list_all2_induct)
    case Nil
    then show ?case by simp
  next
    case (Cons p ps rs rss)
    then show ?case
      using extract_one_lossless [OF Cons.hyps(1)] extract_one_prompt_idx [OF Cons.hyps(1)]
      by (auto simp: list_all_iff)
  qed
qed

section \<open>Configuration\<close>

text \<open>
  The throttle thresholds are ordered. A validated GRPO configuration (with a
  non-negative staleness) allows at least the staleness that the weight-sync interval
  causes, coalesces weight syncs only off-policy with some staleness allowed, and its
  hard limit is never below the soft one; so outside dynamic sampling, whenever the hard
  throttle refuses a request the soft throttle is engaged.
\<close>

theorem validated_throttles:
  assumes "validate_config c = Inr c'" and "c_type c = ''grpo''" and "0 \<le> c_allowed_outdated_steps c"
    and "w_cfg w = c'" and "0 < rpgb"
  shows "c_sync_weight_interval c' \<le> c_allowed_outdated_steps c' + 1
    \<and> (c_coalesce_weight_sync c' \<longrightarrow> \<not> c_on_policy c' \<and> 0 < c_allowed_outdated_steps c')
    \<and> (throttle rpgb n w = None \<and> c_variant c' \<noteq> ''dapo'' \<longrightarrow> soft_engaged rpgb w)"
proof -
  let ?g = "grpo_check c"
  obtain t where t: "train_check ?g = Inr t" and c': "c' = config_check t"
    using assms(1,2) by (auto simp: validate_config_def elim!: bindR_InrE)
  have type: "c_type t = ''grpo''"
    using train_check_frame [OF t] assms(2) by (simp add: grpo_check_def Let_def split: option.splits)
  have allowed: "c_allowed_outdated_steps ?g = c_allowed_outdated_steps c"
    by (simp add: grpo_check_def Let_def split: option.splits)
  have inflight: "c_allowed_outdated_steps c' + 1 \<le> m" if set: "c_max_inflight_steps c' = Some m" for m
  proof -
    obtain m0 where m0: "c_max_inflight_steps t = Some m0"
      using set config_check_inflight_None [of t] by (cases "c_max_inflight_steps t") (auto simp: c')
    then have "c_allowed_outdated_steps t + 1 \<le> m0"
      using train_check_frame [OF t] grpo_check_inflight [of c m0] allowed assms(3) by (auto split: if_splits)
    from config_check_inflight [OF m0 this] set show ?thesis by (simp add: c')
  qed
  have "soft_engaged rpgb w" if refused: "throttle rpgb n w = None" "c_variant c' \<noteq> ''dapo''"
  proof -
    obtain m where m: "c_max_inflight_steps c' = Some m" "m * rpgb \<le> samples_on_the_fly (w_pm w)"
      using refused(1) assms(4) by (auto simp: throttle_def Let_def split: option.splits if_splits)
    have "(c_allowed_outdated_steps c' + 1) * rpgb \<le> m * rpgb"
      using inflight [OF m(1)] assms(5) by (intro mult_right_mono) auto
    with m(2) refused(2) assms(4) show ?thesis by (simp add: soft_engaged_def)
  qed
  moreover have "c_coalesce_weight_sync c' \<longrightarrow> \<not> c_on_policy c' \<and> 0 < c_allowed_outdated_steps c'"
    using train_check_coalesce [OF t] config_check_frame [of t] by (auto simp: c')
  moreover have "c_sync_weight_interval c' \<le> c_allowed_outdated_steps c' + 1"
    using config_check_raise [OF type] config_check_frame [of t] by (simp add: c')
  ultimately show ?thesis by blast
qed

section \<open>Discards\<close>

text \<open>
  A discard report is applied at most once. Applying a report with an identifier a
  second time changes nothing and returns zero; the first application returns the count,
  removes it from the in-flight samples (not below zero), and records it as failed.
\<close>

theorem discard_report_idempotent:
  assumes "0 < n" and "i \<noteq> []"
    and "i \<notin> dict_get_or (applied_discard_report_ids p) src {}"
    and "settle_discarded_samples src (PStr i) n p = (k, p')"
  shows "k = n \<and> samples_on_the_fly p' = max 0 (samples_on_the_fly p - n)
    \<and> dict_get_or (filter_records p') ''rollout_failed'' 0
        = dict_get_or (filter_records p) ''rollout_failed'' 0 + n
    \<and> settle_discarded_samples src (PStr i) m p' = (0, p')"
proof -
  have p': "p' = settle_samples_on_the_fly n (add_filter_record ''rollout_failed'' n
      (p\<lparr>applied_discard_report_ids := dict_set src (insert i (dict_get_or (applied_discard_report_ids p) src {}))
         (applied_discard_report_ids p)\<rparr>))" and k: "k = n"
    using assms by (auto simp: settle_discarded_samples_def Let_def)
  have again: "dict_set src v (dict_set src v d) = dict_set src v d" for v and d :: "(string, string set) dict"
    by (induction d) auto
  show ?thesis
    using assms(1,2) k
    by (auto simp: p' settle_samples_on_the_fly_def add_filter_record_def dict_get_or_def
        settle_discarded_samples_def Let_def again)
qed

text \<open>
  Discarded payloads are routed to their transport. The ids handed to a backend are
  exactly the references of the discarded rollouts whose completion that backend owns, in
  order and once each, and only registered backends get any; if no discarded completion
  belongs to a backend, nothing is published.
\<close>

theorem discarded_payloads_routed:
  assumes "length rollouts = length kept"
  shows "dict_get_or (per_transport reg rollouts kept []) nm [] = discarded_ids reg nm rollouts kept
    \<and> set (dict_keys (per_transport reg rollouts kept [])) \<subseteq> tr_name ` set (dict_values reg)
    \<and> ((\<forall>r \<in> set rollouts. active_for_completion reg (ro_completion r) = None)
        \<longrightarrow> handle_discarded reg rollouts kept = 0)"
  using per_transport_get [OF assms, of reg "[]" nm] per_transport_keys [of reg rollouts kept "[]"]
    handle_discarded_none [of rollouts reg kept]
  by (simp add: dict_get_or_def dict_keys_def)

section \<open>Completion and draining\<close>

primrec ack_all :: "string list \<Rightarrow> int \<Rightarrow> policy_manager \<Rightarrow> bool list \<times> policy_manager" where
  "ack_all [] step p = ([], p)"
| "ack_all (nm # nms) step p =
     (let (b, p) = record_completion_ack nm step p; (bs, p) = ack_all nms step p in (b # bs, p))"

lemma ack_all_gen:
  assumes "completion_step p = Some k" and "completion_recipients p = R" and "completion_acks p \<subseteq> R"
    and "terminal_complete p \<longleftrightarrow> completion_acks p = R"
  shows "\<exists>p'. ack_all nms k p = (map (\<lambda>nm. nm \<in> R) nms, p') \<and> completion_step p' = Some k
    \<and> completion_recipients p' = R \<and> completion_acks p' = completion_acks p \<union> (set nms \<inter> R)
    \<and> (terminal_complete p' \<longleftrightarrow> completion_acks p' = R)"
  using assms
proof (induction nms arbitrary: p)
  case Nil
  then show ?case by simp
next
  case (Cons nm nms)
  obtain b q where q: "record_completion_ack nm k p = (b, q)" by fastforce
  then have b: "b = (nm \<in> R)" and fields: "completion_step q = Some k" "completion_recipients q = R"
    "completion_acks q = completion_acks p \<union> ({nm} \<inter> R)" "terminal_complete q \<longleftrightarrow> completion_acks q = R"
    using Cons.prems by (auto simp: record_completion_ack_def Let_def split: if_splits)
  have sub: "completion_acks q \<subseteq> R" using fields(3) Cons.prems(3) by simp
  obtain p' where "ack_all nms k q = (map (\<lambda>nm. nm \<in> R) nms, p')" "completion_step p' = Some k"
    "completion_recipients p' = R" "completion_acks p' = completion_acks q \<union> (set nms \<inter> R)"
    "terminal_complete p' \<longleftrightarrow> completion_acks p' = R"
    using Cons.IH [OF fields(1,2) sub fields(4)] by blast
  then show ?case
    using q b fields(3) by auto
qed

text \<open>
  The completion barrier. Once training completion has been announced to a set of
  recipients, acknowledgements of that step complete the job exactly if every recipient is
  among the acknowledging names; acknowledgements from others, repeated ones and their
  order do not matter, and exactly the recipients' acknowledgements are consumed as
  completion acknowledgements.
\<close>

theorem completion_barrier:
  assumes "completion_step p = Some k" and "completion_recipients p = R" and "R \<noteq> {}"
    and "completion_acks p = {}" and "\<not> terminal_complete p"
  shows "fst (ack_all nms k p) = map (\<lambda>nm. nm \<in> R) nms
    \<and> (terminal_complete (snd (ack_all nms k p)) \<longleftrightarrow> R \<subseteq> set nms)"
  using ack_all_gen [OF assms(1,2), of nms] assms(3-5) by auto

text \<open>
  Draining freezes the horizon. After draining has begun, recomputing the total steps
  changes nothing, entering the phase again changes nothing, and the training horizon is
  the total that was current when draining began, however many samples remain.
\<close>

theorem draining_freezes_horizon:
  assumes "job_phase p = PHASE_RUNNING" and "q = enter_draining_phase p"
  shows "training_horizon q = total_steps p \<and> enter_draining_phase q = q
    \<and> recompute_total_steps c explicit (q\<lparr>remain_samples_num := n\<rparr>) = Inr (q\<lparr>remain_samples_num := n\<rparr>)"
  using assms by (simp add: enter_draining_phase_def training_horizon_def recompute_total_steps_def)

section \<open>Re-sharded buffers\<close>

lemma enqueue_at_nth:
  "i < length qs \<Longrightarrow> j < length qs \<Longrightarrow> enqueue_at i x qs ! j = qs ! j @ (if j = i then [x] else [])"
  by (simp add: enqueue_at_def nth_list_update)

lemma fold_enqueue:
  assumes "\<forall>x \<in> set xs. f x < length qs" and "j < length qs"
  shows "length (fold (\<lambda>x. enqueue_at (f x) x) xs qs) = length qs
    \<and> fold (\<lambda>x. enqueue_at (f x) x) xs qs ! j = qs ! j @ filter (\<lambda>x. f x = j) xs"
  using assms
proof (induction xs arbitrary: qs)
  case Nil
  then show ?case by simp
next
  case (Cons x xs)
  have "length (enqueue_at (f x) x qs) = length qs" by (simp add: enqueue_at_def)
  with Cons.IH [of "enqueue_at (f x) x qs"] Cons.prems show ?case
    by (auto simp: enqueue_at_nth)
qed

text \<open>
  Re-sharding the buffered rollouts over a mesh of new size. Afterwards there is one
  queue per rank; queue \<open>j\<close> holds exactly the buffered rollouts whose prompt index is \<open>j\<close>
  modulo the number of ranks, in the order the old queues held them, and no rollout is
  lost or duplicated.
\<close>

theorem rearranged_spec:
  assumes "0 < n"
  shows "length (rearranged n qs) = n
    \<and> (\<forall>j < n. rearranged n qs ! j = filter (\<lambda>r. ro_prompt_idx r mod int n = int j) (concat qs))
    \<and> mset (concat (rearranged n qs)) = mset (concat qs)"
proof -
  let ?f = "\<lambda>r. nat (ro_prompt_idx r mod int n)"
  have lt: "\<forall>x \<in> set (concat qs). ?f x < length (replicate n ([] :: rollout list))"
    using assms by (simp add: nat_less_iff)
  have len: "length (rearranged n qs) = n"
    using fold_enqueue [OF lt, of 0] assms by (simp add: rearranged_def)
  have nth: "rearranged n qs ! j = filter (\<lambda>r. ro_prompt_idx r mod int n = int j) (concat qs)" if "j < n" for j
  proof -
    have "filter (\<lambda>r. ?f r = j) xs = filter (\<lambda>r. ro_prompt_idx r mod int n = int j) xs" for xs
      using assms by (intro filter_cong) (auto simp: nat_eq_iff)
    then show ?thesis
      using fold_enqueue [OF lt, of j] that by (simp add: rearranged_def)
  qed
  have "rearranged n qs = map (\<lambda>j. filter (\<lambda>r. ?f r = j) (concat qs)) [0..<n]"
    using len nth assms by (intro nth_equalityI) (auto simp: nat_eq_iff intro!: filter_cong)
  moreover have "mset (concat (map (\<lambda>j. filter (\<lambda>r. g r = j) xs) [0..<n])) = mset xs"
    if "\<forall>x \<in> set xs. g x < n" for g :: "rollout \<Rightarrow> nat" and xs
    using that
  proof (induction xs)
    case Nil
    then show ?case by (simp add: map_replicate_const)
  next
    case (Cons x xs)
    have "mset (concat (map (\<lambda>j. filter (\<lambda>r. g r = j) (x # xs)) js))
        = (if g x \<in> set js then {#x#} else {#}) + mset (concat (map (\<lambda>j. filter (\<lambda>r. g r = j) xs) js))"
      if "distinct js" for js
      using that by (induction js) auto
    from this [of "[0..<n]"] Cons show ?case by simp
  qed
  ultimately show ?thesis using len nth lt by simp
qed

section \<open>One training step at a time\<close>


section \<open>Delivery of weights\<close>

lemma targets_distinct:
  assumes "winv w"
  shows "distinct (map rp_name (weight_sync_rollout_targets w))"
    and "set (weight_sync_rollout_targets w) \<subseteq> set (dict_values (rollout_replicas (w_rm w)))"
proof -
  have "distinct (map rp_name (rm_arrived (w_rm w)))"
    unfolding rm_arrived_def arrived_values_def
    by (intro distinct_map_filter_names reps_ok_distinct [OF winv_reps(2) [OF assms]])
  then show "distinct (map rp_name (weight_sync_rollout_targets w))"
    by (simp add: weight_sync_rollout_targets_def get_safe_weight_sync_replicas_def Let_def distinct_by_start_time)
  show "set (weight_sync_rollout_targets w) \<subseteq> set (dict_values (rollout_replicas (w_rm w)))"
    by (auto simp: weight_sync_rollout_targets_def get_safe_weight_sync_replicas_def Let_def
        rm_arrived_def arrived_values_def)
qed

lemma pick_others:
  assumes "\<forall>r \<in> set rs. dict_get d (rp_name r) = Some r" and "k \<notin> rp_name ` set rs"
  shows "pick (map rp_name rs) (dict_upd k f d) = rs"
  using assms by (induction rs) auto

lemma pick_loaded:
  assumes "distinct (map rp_name (dst # rest))" and "\<forall>r \<in> set (dst # rest). dict_get d (rp_name r) = Some r"
  shows "pick (map rp_name (dst # rest)) (store_replicas [set_loaded dst] d) = set_loaded dst # rest"
  using assms pick_others [of rest d "rp_name dst"]
  by (simp add: store_replicas_def set_loaded_def)

text \<open>
  C11: A weight sync after a step. If the synchronisation is not coalesced away, and
  there are targets, the first target (by start time) and the source policy receive one
  policy-to-rollout unicast for that step, the targets that are in the mesh then receive
  one rollout-to-rollout broadcast naming all targets, nobody else receives anything, and
  the step is remembered as staged. It is coalesced away exactly if coalescing is on, the
  step is not forced by validation and the last staged version has not been adopted yet;
  then nothing at all is published.
\<close>

theorem weight_sync_delivery:
  assumes "winv w" and "weight_sync_rollout_targets w = dst # rest" and "in_mesh dst"
    and "policy_atoms_in_replica (w_pm w) = Some ps" and "rollout_atoms_in_replica (w_rm w) = Some rs"
    and "rp_name src \<notin> set (dict_keys (rollout_replicas (w_rm w)))"
    and skip: "skip = (coalesce_enabled (w_cfg w) \<and> \<not> weight_sync_forced (w_cfg w) step (total_steps (w_pm w))
      \<and> weight_max_adopted_version (w_pm w) < weight_last_staged_step (w_pm w))"
  shows "\<exists>w' u b. sync_weights step (Some src) w = Inr w'
    \<and> (if skip then w_bus w' = w_bus w \<and> weight_last_staged_step (w_pm w') = weight_last_staged_step (w_pm w)
       else weight_last_staged_step (w_pm w') = step
         \<and> p2r_weight_step u = Some step \<and> p2r_src u = rp_name src \<and> p2r_dst u = rp_name dst
         \<and> r2r_dsts b = map rp_name (dst # rest) \<and> r2r_weight_step b = Some step
         \<and> (\<forall>k. received k (w_bus w') = received k (w_bus w)
              @ (if k = rp_name src \<or> k = rp_name dst then [PolicyToRolloutUnicast u] else [])
              @ (if k \<in> rp_name ` set (filter in_mesh (dst # rest)) then [RolloutToRolloutBroadcast b] else [])))"
proof (cases skip)
  case True
  then show ?thesis
    by (simp add: sync_weights_def should_coalesce_skip_def skip)
next
  case False
  let ?d = "rollout_replicas (w_rm w)" let ?ts = "total_steps (w_pm w)"
  have ok: "reps_ok ROLLOUT ?d" using winv_reps(2) [OF assms(1)] .
  have dist: "distinct (map rp_name (dst # rest))" and vals: "set (dst # rest) \<subseteq> set (dict_values ?d)"
    using targets_distinct [OF assms(1)] unfolding assms(2) by blast+
  have get: "dict_get ?d (rp_name r) = Some r" if "r \<in> set (dst # rest)" for r
    using reps_ok_name_value [OF ok] vals that by blast
  have src: "rp_name src \<notin> rp_name ` set (dst # rest)"
    using assms(6) get dict_has_iff [of ?d] by fastforce
  define u where "u = \<lparr>p2r_src = rp_name src, p2r_dst = rp_name dst, p2r_src_size = ps, p2r_dst_size = rs,
      p2r_do_weight_sync_check = do_weight_sync_check_flag (w_bus w),
      p2r_trainable_only = weights_loaded_in_view_of_command dst, p2r_weight_step = Some step,
      p2r_total_steps = Some ?ts\<rparr>"
  define b1 where "b1 = (publish_to (PolicyToRolloutUnicast u) [rp_name src, rp_name dst] (w_bus w))
      \<lparr>do_weight_sync_check_flag := False\<rparr>"
  have u: "trigger_p2r src dst ps rs (Some step) (Some ?ts) (w_bus w) = (set_loaded dst, b1)"
    by (simp add: trigger_p2r_def u_def b1_def)
  have uf: "p2r_weight_step u = Some step" "p2r_src u = rp_name src" "p2r_dst u = rp_name dst"
    by (simp_all add: u_def)
  have flag: "received k (x\<lparr>do_weight_sync_check_flag := f\<rparr>) = received k x" for k x f
    by (simp add: received_def)
  have b1: "received k b1 = received k (w_bus w)
      @ (if k = rp_name src \<or> k = rp_name dst then [PolicyToRolloutUnicast u] else [])" for k
    using src by (auto simp: b1_def flag received_publish_to)
  let ?w1 = "w\<lparr>w_bus := b1, w_rm := (w_rm w)\<lparr>rollout_replicas := store_replicas [set_loaded dst] ?d\<rparr>\<rparr>"
  have p2r: "send_p2r src dst (Some step) (Some ?ts) w = Inr ?w1"
    by (simp add: send_p2r_def assms(4,5) u)
  have pick: "pick (map rp_name (dst # rest)) (store_replicas [set_loaded dst] ?d) = set_loaded dst # rest"
    using pick_loaded [OF dist] get by blast
  let ?b = "\<lparr>r2r_src = rp_name dst, r2r_dsts = map rp_name (dst # rest), r2r_weight_step = Some step,
      r2r_total_steps = Some ?ts, r2r_trainable_only = list_all weights_loaded_in_view_of_command (set_loaded dst # rest)\<rparr>"
  let ?w2 = "onP (weight_last_staged_step_update (\<lambda>_. step))
      (send_r2r (set_loaded dst) (set_loaded dst # rest) (Some step) (Some ?ts) ?w1)"
  have "sync_weights step (Some src) w = trigger_weight_sync (Some src) step ?ts w"
    using False by (auto simp: sync_weights_def should_coalesce_skip_def skip)
  then have "sync_weights step (Some src) w = Inr ?w2"
    by (simp add: trigger_weight_sync_def assms(2) p2r pick Let_def del: pick_Cons list.map)
  moreover have "received k (w_bus ?w2) = received k b1
      @ (if k \<in> rp_name ` set (filter in_mesh (dst # rest)) then [RolloutToRolloutBroadcast ?b] else [])" for k
  proof -
    have names: "map rp_name (filter in_mesh (set_loaded dst # rest)) = map rp_name (filter in_mesh (dst # rest))"
      by (simp add: set_loaded_def in_mesh_def)
    have "count_list (map rp_name (filter in_mesh (dst # rest))) k
        = (if k \<in> rp_name ` set (filter in_mesh (dst # rest)) then 1 else 0)"
      using count_list_distinct [OF distinct_map_filter_names [OF dist], of in_mesh k] by simp
    moreover have "in_mesh (set_loaded dst)" and "rp_name (set_loaded dst) = rp_name dst"
      using assms(3) by (simp_all add: set_loaded_def in_mesh_def)
    ultimately show ?thesis
      by (simp add: send_r2r_def trigger_r2r_def received_publish_to names del: filter.simps)
  qed
  ultimately show ?thesis
    using False b1 uf by (intro exI [of _ ?w2] exI [of _ u] exI [of _ ?b]) simp
qed

section \<open>Arrival of a replica\<close>

lemma arrivals_gen:
  assumes "wf_replica r" and "\<forall>a \<in> set as. at_replica_name a = rp_name r
      \<and> at_group_size a = at_group_size (snd (hd (rp_atoms r)))"
    and "distinct (map atom_str as)" and "\<forall>a \<in> set as. dict_get (rp_atoms r) (atom_str a) = None"
  shows "\<exists>r'. forR as arrive r = Inr r' \<and> wf_replica r' \<and> length (rp_atoms r') = length (rp_atoms r) + length as
    \<and> at_group_size (snd (hd (rp_atoms r'))) = at_group_size (snd (hd (rp_atoms r)))"
  using assms
proof (induction as arbitrary: r)
  case Nil
  then show ?case by simp
next
  case (Cons a as)
  let ?r = "r\<lparr>rp_atoms := rp_atoms r @ [(atom_str a, a)]\<rparr>"
  have a: "arrive a r = Inr ?r" "wf_replica ?r"
    using arrive_wf [of r a] Cons.prems by simp_all
  have ne: "rp_atoms r \<noteq> []" using Cons.prems(1) by (simp add: wf_replica_def)
  have get: "dict_get (rp_atoms ?r) k = None \<longleftrightarrow> dict_get (rp_atoms r) k = None \<and> k \<noteq> atom_str a" for k
    by (auto simp: dict_get_None_iff)
  have free: "\<forall>x \<in> set as. dict_get (rp_atoms ?r) (atom_str x) = None"
    unfolding get using Cons.prems(3,4) by (auto simp: image_iff dest: sym)
  have rest: "\<forall>x \<in> set as. at_replica_name x = rp_name ?r
      \<and> at_group_size x = at_group_size (snd (hd (rp_atoms ?r)))"
    using Cons.prems(2) ne by simp
  obtain r' where "forR as arrive ?r = Inr r' \<and> wf_replica r' \<and> length (rp_atoms r') = length (rp_atoms ?r) + length as
    \<and> at_group_size (snd (hd (rp_atoms r'))) = at_group_size (snd (hd (rp_atoms ?r)))"
    using Cons.IH [OF a(2) rest _ free] Cons.prems(3) by auto
  with a(1) ne show ?case by auto
qed

text \<open>
  A replica is complete exactly when all its atoms have arrived. Atoms of one replica
  with pairwise different ranks and one group size register in any order without an
  assertion failing, and the replica counts as complete exactly if as many arrived as the
  product of the mesh dimensions.
\<close>

theorem arrivals_complete:
  assumes "\<forall>x \<in> set (a # as). at_replica_name x = nm \<and> at_group_size x = gs"
    and "distinct (map atom_str (a # as))" and "length gs = length MESH_NAMES"
  shows "\<exists>r. forR as arrive (new_replica nm rl [a] now) = Inr r
    \<and> (arrived r \<longleftrightarrow> int (length (a # as)) = prod_list gs)"
proof -
  let ?r = "new_replica nm rl [a] now"
  have wf: "wf_replica ?r"
    using wf_new_replica [of a rl now] assms by auto
  have atoms: "rp_atoms ?r = [(atom_str a, a)]" "rp_name ?r = nm" by (simp_all add: new_replica_def)
  obtain r where "forR as arrive ?r = Inr r" "wf_replica r" "length (rp_atoms r) = Suc (length as)"
    "at_group_size (snd (hd (rp_atoms r))) = gs"
    using arrivals_gen [OF wf, of as] assms atoms by (auto simp: image_iff)
  then show ?thesis
    using arrived_wf [of r] by auto
qed

text \<open>
  Looking an atom up by its ranks never succeeds: \<open>get_atom\<close> uses the text of the rank
  list as its key, while atoms are stored under the replica's name and global rank, so on
  every well-formed replica it raises.
\<close>

theorem get_atom_always_raises:
  assumes "wf_replica r"
  shows "\<exists>e. get_atom rks r = Inl e"
  using get_atom_never_finds [OF assms, of rks] by (cases "get_atom rks r") auto

end
