(* ===== verification/Sample_World.thy ===== *)
theory Sample_World
  imports World
begin

text \<open>
  A small concrete controller state: two policy replicas and two rollout replicas of one
  atom each, a shared rollout buffer, and a dataset of four prompts. The witnesses of the
  theorems evaluate the model on it and on states derived from it.
\<close>

definition ex_cfg :: config where
  "ex_cfg = \<lparr>c_mode = ''disaggregated'', c_type = ''grpo'', c_variant = ''grpo'', c_train_batch = 1,
     c_max_num_steps = None, c_sync_weight_interval = 1, c_coalesce_weight_sync = True,
     c_allowed_outdated_steps = 2, c_on_policy = False, c_dispatch_as_rank_in_mesh = False,
     c_outdated_rollout_fetch_batch_size = 0, c_max_retry_for_on_policy = 0,
     c_max_inflight_steps = Some 3, c_rollout_as_token_ids = False, c_non_text = True, c_epoch = 1,
     c_resume = False, c_local_dataset = True, c_enable_checkpoint = False, c_save_freq = 20,
     c_save_freq_in_epoch = 0, c_val_enable = False, c_val_freq = 20, c_val_before_train = False,
     c_val_n_generation = 1, c_n_generation = 2, c_include_stop_str = False, c_multi_turn = False,
     c_logger = [], c_policy_n_init = 2, c_rollout_n_init = 2\<rparr>"

definition ex_payload :: "int \<Rightarrow> rl_payload" where
  "ex_payload i = \<lparr>pl_prompt = PStr ''p'', pl_prompt_idx = i, pl_conversation = None,
     pl_reference_answer = None, pl_weight_version = 0, pl_completions = None,
     pl_completed_conversations = None, pl_n_ignore_prefix_tokens = None, pl_rewards = None,
     pl_advantages = None, pl_valid = None, pl_filter_rewards = None, pl_completion_token_ids = None,
     pl_completion_logprobs = None, pl_prompt_logprobs = None, pl_prompt_token_ids = None,
     pl_cumulative_logprob = None, pl_extra_info = None, pl_report_metrics = None,
     pl_teacher_result_uuids = None\<rparr>"

definition ex_rollout :: "int \<Rightarrow> int \<Rightarrow> rollout" where
  "ex_rollout i v = \<lparr>ro_prompt = PStr ''p'', ro_prompt_idx = i, ro_conversation = None,
     ro_completion = PStr ''c'', ro_teacher_result_uuid = '''', ro_teacher_logprobs = None,
     ro_completed_conversation = None, ro_is_end = False, ro_reward = 1, ro_advantage = 0,
     ro_n_ignore_prefix_tokens = 0, ro_filter_reward = 0, ro_completion_token_ids = None,
     ro_completion_logprobs = None, ro_prompt_logprobs = None, ro_prompt_token_ids = None,
     ro_extra_info = None, ro_weight_version = v, ro_report_metrics = None\<rparr>"

definition ex_atom :: "string \<Rightarrow> atom" where
  "ex_atom nm = \<lparr>at_replica_name = nm, at_ranks = [0, 0, 0, 0], at_group_size = [1, 1, 1, 1],
     at_global_rank = 0, at_host_ip = ''h'', at_host_name = ''h'', at_trace_path = None,
     at_rollout_queue = []\<rparr>"

definition ex_replica :: "string \<Rightarrow> string \<Rightarrow> int \<Rightarrow> replica" where
  "ex_replica rl nm t = (new_replica nm rl [ex_atom nm] 0)
     \<lparr>start_time := t, weights_loaded_in_view_of_command := True\<rparr>"

definition ex_pm :: policy_manager where
  "ex_pm = (init_policy_manager 6 8 1)
     \<lparr>policy_replicas := [(''a'', ex_replica POLICY ''a'' 1), (''b'', ex_replica POLICY ''b'' 2)],
      policy_init_done := True, total_steps := 4,
      status := [(''a'', READY), (''b'', READY)],
      rollout_buffer := [ex_rollout 0 0, ex_rollout 1 1, ex_rollout 2 1],
      samples_on_the_fly := 5\<rparr>"

definition ex_rm :: rollout_manager where
  "ex_rm = init_rollout_manager
     \<lparr>rollout_replicas := [(''r'', ex_replica ROLLOUT ''r'' 1), (''s'', ex_replica ROLLOUT ''s'' 2)],
      rollout_init_done := True\<rparr>"

definition ex_df :: data_fetcher where
  "ex_df = \<lparr>df_epoch = 1, df_epoch_batches = (\<lambda>_. []),
     df_train_iter = [[(2, ex_payload 2), (3, ex_payload 3)]],
     df_val_batches = Some [[(0, ex_payload 0)]], df_val_datasize = 1, df_val_iters = [],
     df_activated_val_step = None, df_activated_val_iter = None, df_activated_val_tqdm = False,
     df_rollout_batch_size = 2, df_val_batch_size = 1, df_buffer = [], df_val_buffer = [],
     df_fetched_at_step = [], df_rollout_mesh_size = Some 2, df_policy_mesh_size = Some 2,
     df_answer = (\<lambda>_. None), df_val_answer = (\<lambda>_. None)\<rparr>"

definition ex_bus :: bus where
  "ex_bus = \<lparr>command_log = [], rollout_log = [], teacher_log = [], do_weight_sync_check_flag = True,
     uuid_gen = nat_str, uuid_next = 0\<rparr>"

definition ex_world :: world where
  "ex_world = \<lparr>w_cfg = ex_cfg, w_pm = ex_pm, w_rm = ex_rm, w_df = ex_df, w_bus = ex_bus,
     w_reg = [], w_tok = None\<rparr>"

lemmas ex_defs = ex_cfg_def ex_payload_def ex_rollout_def ex_atom_def ex_replica_def ex_pm_def
  ex_rm_def ex_df_def ex_bus_def ex_world_def

end
