(* ===== verification/Witnesses.thy ===== *)
theory Witnesses
  imports Shutdown Protocol_Properties Sample_World
begin

text \<open>
  Concrete instances of the theorems: each applies a theorem at a state where its
  hypotheses hold, and evaluates the model there.
\<close>

section \<open>Data fetcher\<close>

text \<open>Asking for one prompt fetches the batch of two.\<close>

lemma ex_fetch:
  obtains ps d' where "get_batched_prompt ex_cfg 1 None None None ex_df = Inr (Some (ps, False), d')"
    and "map pl_prompt_idx ps = [2, 3]"
proof -
  have "case get_batched_prompt ex_cfg 1 None None None ex_df of
      Inr (Some (ps, e), d') \<Rightarrow> map pl_prompt_idx ps = [2, 3] \<and> \<not> e | _ \<Rightarrow> False"
    by code_simp
  then show ?thesis
    by (simp add: that split: sum.splits option.splits prod.splits)
qed

theorem get_batched_prompt_conserves_witness:
  "\<exists>ps e d'. get_batched_prompt ex_cfg 1 None None None ex_df = Inr (Some (ps, e), d')
    \<and> mset (map pl_prompt_idx ps) + bidx (get_buffer None d') + bidx (concat (pending ex_cfg None d'))
      = {#2, 3#}"
proof -
  obtain ps d' where ok: "get_batched_prompt ex_cfg 1 None None None ex_df = Inr (Some (ps, False), d')"
    by (rule ex_fetch)
  have "bidx (get_buffer None ex_df) + bidx (concat (pending ex_cfg None ex_df)) = {#2, 3#}"
    by code_simp
  with get_batched_prompt_conserves [OF ok] ok show ?thesis by auto
qed

theorem get_batched_prompt_bound_witness:
  "\<exists>ps e d'. get_batched_prompt ex_cfg 1 None None None ex_df = Inr (Some (ps, e), d')
    \<and> length ps = 2 \<and> int (length ps) \<le> ceil_div 1 2 * 2"
proof -
  obtain ps d' where ok: "get_batched_prompt ex_cfg 1 None None None ex_df = Inr (Some (ps, False), d')"
    and ps: "map pl_prompt_idx ps = [2, 3]"
    by (rule ex_fetch)
  have "length ps = 2" using arg_cong [OF ps, of length] by simp
  moreover have "int (length ps) \<le> ceil_div 1 2 * 2"
    using get_batched_prompt_bound [OF ok, of 2] by (simp add: ex_defs)
  ultimately show ?thesis using ok by blast
qed

section \<open>Rollout status\<close>

theorem rollout_end_barrier_witness:
  "\<exists>bs m'. report_ends ''r'' [0, 7, 0] ex_rm = Inr (bs, m')
    \<and> length (filter (\<lambda>b. b) bs) = 1 \<and> ''r'' \<in> command_participant_ended m'"
proof -
  have "dict_get (rollout_replicas ex_rm) ''r'' = Some (ex_replica ROLLOUT ''r'' 1)"
    "\<not> ended (rp_status (ex_replica ROLLOUT ''r'' 1))"
    "expected_reporting_ranks (ex_replica ROLLOUT ''r'' 1) = Inr {0}"
    "dict_get (ended_reporters ex_rm) ''r'' = None"
    by code_simp+
  from rollout_end_barrier [OF this(1-3) _ this(4), of "[0, 7, 0]"] show ?thesis by auto
qed

theorem safe_weight_sync_replicas_witness:
  "get_safe_weight_sync_replicas False ex_rm \<noteq> []
   \<and> list_all (safe_survivor ex_rm) (get_safe_weight_sync_replicas False ex_rm)"
proof -
  have "list_all (safe_survivor ex_rm) (rm_arrived ex_rm) \<and> rm_arrived ex_rm \<noteq> []"
    by code_simp
  then show ?thesis
    using safe_weight_sync_replicas [of ex_rm] by (auto simp: list_all_iff)
qed

section \<open>Dispatch and accounting\<close>

lemma ex_winv: "winv ex_world"
proof -
  have "reps_ok ROLLOUT (rollout_replicas ex_rm)" "pinv ex_pm" "0 < c_train_batch ex_cfg"
    by code_simp+
  moreover have "command_participant_ended ex_rm = {}" by code_simp
  ultimately show ?thesis by (simp add: winv_def rm_inv_def ex_world_def)
qed

lemma ex_cfg_ok: "cfg_ok ex_world"
  by code_simp

theorem dispatch_step_correct_witness:
  "rollout_log (w_bus (after (dispatch_step ex_world))) = [(''a'', ex_rollout 0 0), (''b'', ex_rollout 1 1)]
   \<and> rollout_buffer (w_pm (after (dispatch_step ex_world))) = [ex_rollout 2 1]
   \<and> current_step (w_pm (after (dispatch_step ex_world))) = 2"
proof -
  have enough: "rollouts_enough_for_one_step (w_cfg ex_world) (w_pm ex_world)" by code_simp
  have v: "map rp_name (pm_arrived (w_pm ex_world)) = [''a'', ''b'']" "c_train_batch (w_cfg ex_world) = 1"
    "rollout_log (w_bus ex_world) = []" "current_step (w_pm ex_world) = 1"
    by code_simp+
  have buf: "rollout_buffer (w_pm ex_world) = [ex_rollout 0 0, ex_rollout 1 1, ex_rollout 2 1]"
    by (simp add: ex_world_def ex_pm_def)
  have "length (pm_arrived (w_pm ex_world)) = 2" using arg_cong [OF v(1), of length] by simp
  with dispatch_step_correct [OF ex_winv ex_cfg_ok enough refl refl refl] v buf
  show ?thesis by (simp add: map_concat eval_nat_numeral)
qed

theorem train_ack_settles_witness:
  "0 \<le> held ex_world \<and> held ex_world \<le> held (after (train_ack ''a'' 1 4 False [] ex_world))"
proof -
  have h: "0 \<le> held ex_world" by code_simp
  with train_ack_settles [OF ex_winv ex_cfg_ok h] show ?thesis by simp
qed

theorem filter_outdated_spec_witness:
  "\<exists>w'. filter_outdated_rollouts [ex_rollout 5 (-2), ex_rollout 6 1] ex_world = Inr ([ex_rollout 6 1], w')
    \<and> samples_on_the_fly (w_pm w') = 4"
proof -
  let ?rs = "[ex_rollout 5 (-2), ex_rollout 6 1]"
  have kept: "[ex_rollout 6 1] = map snd (filter (fresh_at (w_cfg ex_world) (w_pm ex_world)) (zip [0..<length ?rs] ?rs))"
    by code_simp
  have b: "0 < c_train_batch (w_cfg ex_world)" and f: "samples_on_the_fly (w_pm ex_world) = 5"
    and v: "\<forall>r \<in> set ?rs. ro_weight_version r \<le> current_step (w_pm ex_world)"
    by code_simp+
  from filter_outdated_spec [OF b kept refl] v f show ?thesis by auto
qed

section \<open>Controller\<close>

definition ex_controller :: controller where
  "ex_controller = \<lparr>k_world = ex_world, k_kv_store = [], k_soft_engaged_since = None, k_soft_last_log = 0,
     k_prompt_num = [(1, 2)], k_stat_tokens = 0, k_stat_samples = 0, k_begin_time = None, k_teachers = {},
     k_ncclerror_invoke_id = 0, k_is_rl = True\<rparr>"

theorem tag_payloads_spec_witness:
  "\<exists>out m. tag_payloads 2 1 [ex_payload 2, ex_payload 3, ex_payload 4] ex_controller
      = Inr (out, ex_controller\<lparr>k_prompt_num := m\<rparr>)
    \<and> length out = 3 \<and> (\<forall>u. dict_get_or m u 0 \<le> 2)"
proof -
  have v: "c_variant (w_cfg (k_world ex_controller)) \<noteq> ''dapo''" by code_simp
  have m: "\<forall>u. dict_get_or (k_prompt_num ex_controller) u 0 \<le> 2"
    by (simp add: ex_controller_def dict_get_or_def dict_get_def)
  from tag_payloads_spec [OF v m, of 1 "[ex_payload 2, ex_payload 3, ex_payload 4]"]
  obtain out n where "tag_payloads 2 1 [ex_payload 2, ex_payload 3, ex_payload 4] ex_controller
      = Inr (out, ex_controller\<lparr>k_prompt_num := n\<rparr>)"
    "length out = length [ex_payload 2, ex_payload 3, ex_payload 4]" "\<forall>u. dict_get_or n u 0 \<le> 2" by auto
  then show ?thesis by (intro exI [of _ out] exI [of _ n]) simp
qed

theorem inflight_bound_witness:
  "\<exists>ps e k'. get_batched_prompt_impl 0 1 None None ex_controller = Inr ((ps, e), k')
    \<and> length ps = 2 \<and> samples_on_the_fly (w_pm (k_world k')) = 9"
proof -
  have "case get_batched_prompt_impl 0 1 None None ex_controller of
      Inr ((ps, e), k') \<Rightarrow> length ps = 2 | _ \<Rightarrow> False"
    by code_simp
  then obtain ps e k' where ok: "get_batched_prompt_impl 0 1 None None ex_controller = Inr ((ps, e), k')"
    and n: "length ps = 2" by (auto split: sum.splits)
  have "policy_replicas (w_pm (k_world ex_controller)) \<noteq> []"
    by (simp add: ex_controller_def ex_world_def ex_pm_def)
  moreover have "c_max_inflight_steps (w_cfg (k_world ex_controller)) = Some 3"
    "c_type (w_cfg (k_world ex_controller)) \<noteq> ''sft''" "c_mode (w_cfg (k_world ex_controller)) \<noteq> ''colocated''"
    "0 < c_n_generation (w_cfg (k_world ex_controller))"
    "0 \<le> c_outdated_rollout_fetch_batch_size (w_cfg (k_world ex_controller))"
    "0 < df_rollout_batch_size (w_df (k_world ex_controller))"
    by code_simp+
  ultimately have "samples_on_the_fly (w_pm (k_world k')) = samples_on_the_fly (w_pm (k_world ex_controller))
      + int (length ps) * c_n_generation (w_cfg (k_world ex_controller))"
    using inflight_bound [OF ok] by simp
  moreover have "samples_on_the_fly (w_pm (k_world ex_controller)) = 5"
    "c_n_generation (w_cfg (k_world ex_controller)) = 2"
    by code_simp+
  ultimately show ?thesis using ok n by auto
qed

section \<open>Server\<close>

definition ex_panel :: panel where
  "ex_panel = \<lparr>ctl = ex_controller, replicas_were_registered = True,
     policy_replicas_were_registered = True, server_should_exit = Some False, monitor_state = Scanning,
     stop_broadcast_sent = False, shutdown_event = False, sigterm_sent = False,
     shutdown_on_no_policy_replicas = False\<rparr>"

definition ex_discard :: rollout_request where
  "ex_discard = \<lparr>rr_src_replica_name = ''r'', rr_src_global_rank = Some 0,
     rr_stays_command_participant = True, rr_payloads = [],
     rr_metrics = [(''discarded_samples'', PInt 1), (''discard_report_id'', PStr ''d'')], rr_is_end = False\<rparr>"

lemma ex_pworld: "pworld ex_panel = ex_world"
  by (simp add: ex_panel_def ex_controller_def)

theorem serve_keeps_consistency_witness:
  "winv (pworld (serve handle [Heartbeat 1 ''a'', Rollout_Group 1 ex_discard, Unregister 2 ''b''] ex_panel))"
  by (rule serve_keeps_consistency) (simp add: ex_pworld ex_winv)


text \<open>A finished run: every rollout replica has ended and the terminal command is acknowledged.\<close>

definition ex_done_world :: world where
  "ex_done_world = ex_world\<lparr>
     w_pm := ex_pm\<lparr>terminal_complete := True\<rparr>,
     w_rm := ex_rm\<lparr>rollout_replicas := dict_upd ''r'' set_ended (dict_upd ''s'' set_ended (rollout_replicas ex_rm))\<rparr>\<rparr>"

definition ex_done :: panel where
  "ex_done = ex_panel\<lparr>ctl := ex_controller\<lparr>k_world := ex_done_world\<rparr>\<rparr>"

lemma ex_done_winv: "winv (pworld ex_done)"
proof -
  have "reps_ok ROLLOUT (rollout_replicas (w_rm (pworld ex_done)))" "pinv (w_pm (pworld ex_done))"
    "0 < c_train_batch (w_cfg (pworld ex_done))"
    by code_simp+
  moreover have "command_participant_ended (w_rm (pworld ex_done)) = {}" by code_simp
  ultimately show ?thesis by (simp add: winv_def rm_inv_def)
qed


lemma enumerates_remdups: "enumerates remdups"
  by (simp add: enumerates_def)

theorem checkout_ends_witness:
  "\<exists>p'. handle (Monitor remdups 100 0 7 None) (ex_panel\<lparr>monitor_state := Checkout 5\<rparr>) = Inr p'
    \<and> sigterm_sent p' \<and> monitor_state p' = Monitor_Done"
  using checkout_ends [of "ex_panel\<lparr>monitor_state := Checkout 5\<rparr>" 5 remdups 100 0 7 None]
    ex_winv enumerates_remdups by (auto simp: ex_pworld)

definition ex_empty :: panel where
  "ex_empty = ex_panel\<lparr>ctl := ex_controller\<lparr>k_world := ex_world
     \<lparr>w_pm := init_policy_manager 0 0 0, w_rm := init_rollout_manager\<rparr>\<rparr>\<rparr>"

theorem monitor_finalizes_witness:
  "\<exists>p'. handle (Monitor remdups 100 0 0 None) ex_empty = Inr p' \<and> server_should_exit p' = Some True"
  by (rule monitor_finalizes)
    (simp_all add: ex_empty_def ex_panel_def ex_controller_def all_replicas_gone_def init_policy_manager_def
      init_rollout_manager_def enumerates_remdups)

text \<open>A policy replica of two atoms of which one has registered.\<close>

definition ex_half :: replica where
  "ex_half = new_replica ''c'' POLICY [(ex_atom ''c'')\<lparr>at_group_size := [1, 2, 1, 1]\<rparr>] 0"

definition ex_half_panel :: panel where
  "ex_half_panel = ex_panel\<lparr>ctl := ex_controller\<lparr>k_world := ex_world
     \<lparr>w_pm := ex_pm\<lparr>policy_replicas := [(''c'', ex_half)], status := []\<rparr>\<rparr>\<rparr>\<rparr>"

theorem reaping_incomplete_policy_ends_monitor_witness:
  "\<exists>p'. handle (Monitor remdups 100 200 0 None) ex_half_panel = Inl (KeyError, p')
    \<and> monitor_state (serve handle [] p') = Monitor_Done"
proof -
  have "remdups (dead_names 100 200 (pm_iter (w_pm (pworld ex_half_panel)))) = ''c'' # []"
    by code_simp
  moreover have "dict_has (policy_replicas (w_pm (pworld ex_half_panel))) ''c''"
    "\<not> dict_has (status (w_pm (pworld ex_half_panel))) ''c''"
    by (simp_all add: ex_half_panel_def)
  moreover have "monitor_state ex_half_panel = Scanning" "\<not> shutdown_event ex_half_panel" by code_simp+
  ultimately show ?thesis
    using reaping_incomplete_policy_ends_monitor [of ex_half_panel remdups 100 200 "''c''" "[]" 0 None "[]"] by blast
qed

section \<open>Protocols\<close>

theorem command_roundtrip_witness:
  "depack id ''u'' (pack id \<lparr>uuid_value = ''x'', cmd_body = Stop ''r''\<rparr>)
     = Some (Inr \<lparr>uuid_value = ''x'', cmd_body = Stop ''r''\<rparr>)"
  by (rule command_roundtrip) simp

definition ex_request :: register_request where
  "ex_request = \<lparr>rq_replica_name = ''a'', rq_role = POLICY, rq_mesh_names = [''tp'', ''cp'', ''dp_shard'', ''pp''],
     rq_global_rank = 3, rq_host_ip = ''h'', rq_host_name = ''h'', rq_ranks = [1, 0, 1, 0],
     rq_group_size = [2, 1, 2, 1]\<rparr>"

theorem register_request_validated_witness:
  "\<exists>rq'. validate_mesh_names ex_request = Inr rq' \<and> rq_ranks rq' ! 3 = 1 \<and> rq_group_size rq' ! 3 = 2"
proof -
  note spec = register_request_validated [of ex_request]
  obtain rq' where ok: "validate_mesh_names ex_request = Inr rq'"
    using spec by (auto simp: ex_request_def MESH_NAMES_def Role_ALL_def)
  have idx: "rq_mesh_names ex_request ! 0 = MESH_NAMES ! 3" "0 < length (rq_mesh_names ex_request)"
    "3 < length MESH_NAMES" "distinct (rq_mesh_names ex_request)"
    by code_simp+
  have "rq_ranks rq' ! 3 = rq_ranks ex_request ! 0 \<and> rq_group_size rq' ! 3 = rq_group_size ex_request ! 0"
    using conjunct2 [OF spec] ok idx by blast
  with ok show ?thesis by (simp add: ex_request_def)
qed

definition ex_completed :: rl_payload where
  "ex_completed = (ex_payload 4)\<lparr>pl_completions := Some [PStr ''x'', PStr ''y''],
     pl_rewards := Some [1, 2], pl_advantages := Some [0, 1]\<rparr>"

theorem extraction_lossless_witness:
  "\<exists>rss. extract_rollouts [ex_completed] False False = Inr rss
    \<and> map ro_completion (concat rss) = [PStr ''x'', PStr ''y''] \<and> map ro_reward (concat rss) = [1, 2]"
proof -
  have "case extract_rollouts [ex_completed] False False of Inr rss \<Rightarrow> True | Inl _ \<Rightarrow> False"
    by code_simp
  then obtain rss where ok: "extract_rollouts [ex_completed] False False = Inr rss"
    by (auto split: sum.splits)
  have "list_all lists_match [ex_completed]"
    by (simp add: lists_match_def ex_completed_def ex_payload_def)
  from extraction_lossless [OF ok this] ok show ?thesis
    by (simp add: ex_completed_def)
qed

theorem validated_throttles_witness:
  "\<exists>c'. validate_config ex_cfg = Inr c' \<and> c_sync_weight_interval c' \<le> c_allowed_outdated_steps c' + 1
    \<and> soft_engaged 1 (ex_world\<lparr>w_cfg := c'\<rparr>)"
proof -
  have "case validate_config ex_cfg of
      Inr c' \<Rightarrow> throttle 1 1 (ex_world\<lparr>w_cfg := c'\<rparr>) = None \<and> c_variant c' \<noteq> ''dapo'' | Inl _ \<Rightarrow> False"
    by code_simp
  then obtain c' where c': "validate_config ex_cfg = Inr c'"
    "throttle 1 1 (ex_world\<lparr>w_cfg := c'\<rparr>) = None" "c_variant c' \<noteq> ''dapo''"
    by (auto split: sum.splits)
  have "c_type ex_cfg = ''grpo''" "0 \<le> c_allowed_outdated_steps ex_cfg" by code_simp+
  from validated_throttles [OF c'(1) this, of "ex_world\<lparr>w_cfg := c'\<rparr>" 1 1] c' show ?thesis by simp
qed

theorem discard_report_idempotent_witness:
  "settle_discarded_samples ''r'' (PStr ''d'') 9 (snd (settle_discarded_samples ''r'' (PStr ''d'') 2 ex_pm))
     = (0, snd (settle_discarded_samples ''r'' (PStr ''d'') 2 ex_pm))"
proof -
  obtain k p' where s: "settle_discarded_samples ''r'' (PStr ''d'') 2 ex_pm = (k, p')" by fastforce
  have "''d'' \<notin> dict_get_or (applied_discard_report_ids ex_pm) ''r'' {}" by code_simp
  from discard_report_idempotent [OF _ _ this s, of 9] s show ?thesis by simp
qed

definition ex_registry :: registry where
  "ex_registry = [(''ucxx'', \<lparr>tr_name = ''ucxx'', tr_prefix = Some ''u:'', tr_publish = (\<lambda>ids. Inr (int (length ids)))\<rparr>)]"

definition ex_discarded :: "rollout list" where
  "ex_discarded = map (\<lambda>s. (ex_rollout 0 0)\<lparr>ro_completion := PStr s\<rparr>) [''u:1'', ''u:2'', ''v'', ''u:3'']"

theorem discarded_payloads_routed_witness:
  "dict_get_or (per_transport ex_registry ex_discarded [False, True, False, False] []) ''ucxx'' [] = [''1'', ''3'']"
proof -
  have "discarded_ids ex_registry ''ucxx'' ex_discarded [False, True, False, False] = [''1'', ''3'']"
    by code_simp
  moreover have "length ex_discarded = length [False, True, False, False]" by code_simp
  ultimately show ?thesis
    using discarded_payloads_routed [of ex_discarded "[False, True, False, False]" ex_registry "''ucxx''"] by simp
qed

section \<open>Completion, buffers, weights\<close>

definition ex_completing :: policy_manager where
  "ex_completing = ex_pm\<lparr>completion_step := Some 4, completion_recipients := {''a'', ''b''}\<rparr>"

theorem completion_barrier_witness:
  "fst (ack_all [''x'', ''b'', ''a''] 4 ex_completing) = [False, True, True]
    \<and> terminal_complete (snd (ack_all [''x'', ''b'', ''a''] 4 ex_completing))"
proof -
  have "completion_step ex_completing = Some 4" "completion_recipients ex_completing = {''a'', ''b''}"
    "{''a'', ''b''} \<noteq> {}" "completion_acks ex_completing = {}" "\<not> terminal_complete ex_completing"
    by (simp_all add: ex_completing_def ex_pm_def init_policy_manager_def)
  from completion_barrier [OF this, of "[''x'', ''b'', ''a'']"] show ?thesis by simp
qed

theorem draining_freezes_horizon_witness:
  "training_horizon (enter_draining_phase ex_pm) = 4"
  using draining_freezes_horizon [of ex_pm _ ex_cfg None 0]
  by (simp add: ex_pm_def init_policy_manager_def)

theorem rearranged_spec_witness:
  "length (rearranged 2 [[ex_rollout 0 0, ex_rollout 1 0], [ex_rollout 3 0]]) = 2
    \<and> map ro_prompt_idx (rearranged 2 [[ex_rollout 0 0, ex_rollout 1 0], [ex_rollout 3 0]] ! 1) = [1, 3]"
  using rearranged_spec [of 2 "[[ex_rollout 0 0, ex_rollout 1 0], [ex_rollout 3 0]]"]
  by (simp add: ex_rollout_def)


text \<open>The sample state with both rollout replicas in the mesh.\<close>

definition ex_meshed :: world where
  "ex_meshed = ex_world
     \<lparr>w_pm := ex_pm\<lparr>policy_atoms_in_replica := Some 1\<rparr>,
      w_rm := ex_rm\<lparr>rollout_atoms_in_replica := Some 1, rollout_replicas :=
        [(''r'', set_mesh_rank 0 (ex_replica ROLLOUT ''r'' 1)), (''s'', set_mesh_rank 1 (ex_replica ROLLOUT ''s'' 2))]\<rparr>\<rparr>"

lemma ex_meshed_winv: "winv ex_meshed"
proof -
  have "reps_ok ROLLOUT (rollout_replicas (w_rm ex_meshed))" "pinv (w_pm ex_meshed)" "0 < c_train_batch (w_cfg ex_meshed)"
    by code_simp+
  moreover have "command_participant_ended (w_rm ex_meshed) = {}" by code_simp
  ultimately show ?thesis by (simp add: winv_def rm_inv_def)
qed

theorem weight_sync_delivery_witness:
  "\<exists>w'. sync_weights 3 (Some (ex_replica POLICY ''a'' 1)) ex_meshed = Inr w'
    \<and> weight_last_staged_step (w_pm w') = 3 \<and> length (received ''r'' (w_bus w')) = 2
    \<and> length (received ''s'' (w_bus w')) = 1"
proof -
  let ?src = "ex_replica POLICY ''a'' 1" and ?r = "set_mesh_rank 0 (ex_replica ROLLOUT ''r'' 1)"
    and ?s = "set_mesh_rank 1 (ex_replica ROLLOUT ''s'' 2)"
  have "weight_sync_rollout_targets ex_meshed = [?r, ?s]" "in_mesh ?r"
    "policy_atoms_in_replica (w_pm ex_meshed) = Some 1" "rollout_atoms_in_replica (w_rm ex_meshed) = Some 1"
    "rp_name ?src \<notin> set (dict_keys (rollout_replicas (w_rm ex_meshed)))"
    by code_simp+
  note sync = weight_sync_delivery [OF ex_meshed_winv this refl, of 3]
  have "\<not> (coalesce_enabled (w_cfg ex_meshed) \<and> \<not> weight_sync_forced (w_cfg ex_meshed) 3 (total_steps (w_pm ex_meshed))
      \<and> weight_max_adopted_version (w_pm ex_meshed) < weight_last_staged_step (w_pm ex_meshed))"
    "received ''r'' (w_bus ex_meshed) = []" "received ''s'' (w_bus ex_meshed) = []"
    "rp_name ?src = ''a''" "rp_name ?r = ''r''" "filter in_mesh [?r, ?s] = [?r, ?s]" "rp_name ?s = ''s''"
    by code_simp+
  with sync show ?thesis by force
qed

theorem arrivals_complete_witness:
  "\<exists>r. forR [(ex_atom ''c'')\<lparr>at_group_size := [1, 2, 1, 1], at_global_rank := 1\<rparr>] arrive ex_half = Inr r \<and> arrived r"
proof -
  let ?a = "(ex_atom ''c'')\<lparr>at_group_size := [1, 2, 1, 1]\<rparr>"
  have "distinct (map atom_str [?a, ?a\<lparr>at_global_rank := 1\<rparr>])" "length [1, 2, 1, 1 :: int] = length MESH_NAMES"
    by code_simp+
  then show ?thesis
    using arrivals_complete [of ?a "[?a\<lparr>at_global_rank := 1\<rparr>]" "''c''" "[1, 2, 1, 1]" POLICY 0]
    by (simp add: ex_half_def ex_atom_def)
qed

theorem get_atom_always_raises_witness: "\<exists>e. get_atom [0, 0, 0, 0] (ex_replica POLICY ''a'' 1) = Inl e"
proof -
  have "wf_replica (ex_replica POLICY ''a'' 1)" by code_simp
  from get_atom_always_raises [OF this] show ?thesis .
qed

theorem rm_unregister_rebuild_witness:
  "\<exists>w'. rm_unregister 9 ''r'' ex_meshed = Inr w' \<and> df_rollout_mesh_size (w_df w') = Some 1
    \<and> map_option (mesh_rank \<circ> rp_status) (dict_get (rollout_replicas (w_rm w')) ''s'') = Some 0
    \<and> length (received ''s'' (w_bus w')) = 1"
proof -
  let ?r = "set_mesh_rank 0 (ex_replica ROLLOUT ''r'' 1)" and ?s = "set_mesh_rank 1 (ex_replica ROLLOUT ''s'' 2)"
  let ?m = "rm_remove 9 ''r'' ?r (w_rm ex_meshed)"
  have inv: "rm_inv (w_rm ex_meshed)" using ex_meshed_winv by (simp add: winv_def)
  have pre: "dict_get (rollout_replicas (w_rm ex_meshed)) ''r'' = Some ?r" "\<not> training_finished (w_pm ex_meshed)"
    "in_mesh ?r"
    by code_simp+
  have rs: "[?s] = by_start_time (filter (safe_survivor ?m) (rm_arrived ?m))" by code_simp
  have names: "rp_name ?s = ''s''" "received ''s'' (w_bus ex_meshed) = []" "mesh_rank (rp_status (set_mesh_rank 0 ?s)) = 0"
    by code_simp+
  show ?thesis
    using rm_unregister_rebuild [OF inv pre refl rs] names by auto
qed

end
