(* ===== verification/Py_Heap.thy ===== *)
theory Py_Heap
  imports Prelude
begin

text \<open>
  The binary heap that Python's \<open>heapq\<close> keeps in a list, as \<open>utils/balance_seqlen.py\<close> uses
  it: \<open>heappush\<close> and \<open>heappop\<close> with their two sifting loops, over the element comparison
  \<open>lt\<close> (the elements' \<open>__lt__\<close>). The loops move a hole through the list; here the element
  that belongs into the hole travels with it. Lemmas: both operations keep the multiset of
  elements, whatever \<open>lt\<close> is; if \<open>lt\<close> is a strict weak order they keep the heap order, and
  the popped element precedes or ties with all others. The interface \<open>priority_queue\<close> states
  this for the clients.
\<close>

section \<open>Operations\<close>

definition swap :: "nat \<Rightarrow> nat \<Rightarrow> 'a list \<Rightarrow> 'a list" where
  "swap i j h = h[i := h ! j, j := h ! i]"

lemma swap_length [simp]: "length (swap i j h) = length h"
  by (simp add: swap_def)

lemma swap_mset [simp]: "i < length h \<Longrightarrow> j < length h \<Longrightarrow> mset (swap i j h) = mset h"
  by (simp add: swap_def mset_swap)

lemma swap_nth:
  "i < length h \<Longrightarrow> j < length h \<Longrightarrow> k < length h \<Longrightarrow>
     swap i j h ! k = (if k = j then h ! i else if k = i then h ! j else h ! k)"
  by (simp add: swap_def nth_list_update)

definition parent :: "nat \<Rightarrow> nat" where
  "parent i = (i - 1) div 2"

lemma parent_less [simp]: "0 < i \<Longrightarrow> parent i < i"
  by (auto simp: parent_def)

lemma parent_le [simp]: "i < n \<Longrightarrow> parent i < n"
  by (auto simp: parent_def)

lemma parent_iff: "0 < i \<Longrightarrow> parent i = p \<longleftrightarrow> i = 2 * p + 1 \<or> i = 2 * p + 2"
  by (auto simp: parent_def)

function siftdown :: "('a \<Rightarrow> 'a \<Rightarrow> bool) \<Rightarrow> nat \<Rightarrow> nat \<Rightarrow> 'a list \<Rightarrow> 'a list" where
  "siftdown lt startpos pos h =
     (if startpos < pos \<and> lt (h ! pos) (h ! parent pos)
      then siftdown lt startpos (parent pos) (swap pos (parent pos) h) else h)"
  by auto
termination
  by (relation "measure (\<lambda>(lt, s, pos, h). pos)") auto

declare siftdown.simps [simp del]

definition smaller_child :: "('a \<Rightarrow> 'a \<Rightarrow> bool) \<Rightarrow> nat \<Rightarrow> 'a list \<Rightarrow> nat" where
  "smaller_child lt pos h =
     (let c = 2 * pos + 1
      in if c + 1 < length h \<and> \<not> lt (h ! c) (h ! (c + 1)) then c + 1 else c)"

lemma smaller_child_cases: "smaller_child lt pos h = 2 * pos + 1 \<or> smaller_child lt pos h = 2 * pos + 2"
  by (simp add: smaller_child_def Let_def)

lemma smaller_child_bounds:
  "2 * pos + 1 < length h \<Longrightarrow> pos < smaller_child lt pos h \<and> smaller_child lt pos h < length h"
  by (simp add: smaller_child_def Let_def)

function siftup :: "('a \<Rightarrow> 'a \<Rightarrow> bool) \<Rightarrow> nat \<Rightarrow> nat \<Rightarrow> 'a list \<Rightarrow> 'a list" where
  "siftup lt startpos pos h =
     (if 2 * pos + 1 < length h
      then siftup lt startpos (smaller_child lt pos h) (swap pos (smaller_child lt pos h) h)
      else siftdown lt startpos pos h)"
  by auto
termination
proof (relation "measure (\<lambda>(lt, s, pos, h). length h - pos)", goal_cases)
  case (2 lt s pos h)
  then show ?case using smaller_child_bounds [of pos h lt] by auto
qed simp

declare siftup.simps [simp del]

definition heappush :: "('a \<Rightarrow> 'a \<Rightarrow> bool) \<Rightarrow> 'a \<Rightarrow> 'a list \<Rightarrow> 'a list" where
  "heappush lt x h = siftdown lt 0 (length h) (h @ [x])"

definition heappop :: "('a \<Rightarrow> 'a \<Rightarrow> bool) \<Rightarrow> 'a list \<Rightarrow> py_error + ('a \<times> 'a list)" where
  "heappop lt h =
     (if h = [] then Inl IndexError
      else
        let lastelt = last h; h = butlast h
        in if h = [] then Inr (lastelt, [])
           else Inr (hd h, siftup lt 0 0 (h[0 := lastelt])))"

section \<open>The elements stay the same\<close>

lemma siftdown_mset [simp]: "pos < length h \<Longrightarrow> mset (siftdown lt s pos h) = mset h"
proof (induction lt s pos h rule: siftdown.induct)
  case (1 lt s pos h)
  then show ?case by (subst siftdown.simps) auto
qed

lemma siftup_mset [simp]: "pos < length h \<Longrightarrow> mset (siftup lt s pos h) = mset h"
proof (induction lt s pos h rule: siftup.induct)
  case (1 lt s pos h)
  then show ?case
    using smaller_child_bounds [of pos h lt] by (subst siftup.simps) auto
qed

lemma heappush_mset [simp]: "mset (heappush lt x h) = add_mset x (mset h)"
  by (simp add: heappush_def)

lemma heappop_split: "h \<noteq> [] \<Longrightarrow> butlast h \<noteq> [] \<Longrightarrow>
  add_mset (hd (butlast h)) (mset ((butlast h)[0 := last h])) = mset h"
  by (induction h rule: rev_induct) (auto simp: neq_Nil_conv)

lemma heappop_ok: "h \<noteq> [] \<Longrightarrow> \<exists>x h'. heappop lt h = Inr (x, h')"
  by (simp add: heappop_def Let_def)

lemma heappop_mset:
  assumes "heappop lt h = Inr (x, h')"
  shows "mset h = add_mset x (mset h')"
proof -
  have "h \<noteq> []" using assms by (auto simp: heappop_def)
  then show ?thesis
    using assms heappop_split [of h]
    by (cases h rule: rev_cases) (auto simp: heappop_def Let_def split: if_splits)
qed

lemma heappop_length: "heappop lt h = Inr (x, h') \<Longrightarrow> length h = Suc (length h')"
  using heappop_mset [of lt h x h'] by (metis size_mset size_add_mset)

lemma heappush_length [simp]: "length (heappush lt x h) = Suc (length h)"
  by (metis heappush_mset size_add_mset size_mset)

section \<open>Heap order\<close>

definition is_heap :: "('a \<Rightarrow> 'a \<Rightarrow> bool) \<Rightarrow> 'a list \<Rightarrow> bool" where
  "is_heap lt h \<longleftrightarrow> (\<forall>i < length h. 0 < i \<longrightarrow> \<not> lt (h ! i) (h ! parent i))"

text \<open>The heap order may fail between \<open>pos\<close> and its parent, or around \<open>pos\<close> on both sides;
  in both cases it holds across \<open>pos\<close>.\<close>

definition heap_but_up :: "('a \<Rightarrow> 'a \<Rightarrow> bool) \<Rightarrow> nat \<Rightarrow> 'a list \<Rightarrow> bool" where
  "heap_but_up lt pos h \<longleftrightarrow>
     (\<forall>i < length h. 0 < i \<longrightarrow> i \<noteq> pos \<longrightarrow> \<not> lt (h ! i) (h ! parent i))
     \<and> (\<forall>i < length h. 0 < i \<longrightarrow> parent i = pos \<longrightarrow> 0 < pos \<longrightarrow> \<not> lt (h ! i) (h ! parent pos))"

definition heap_but_at :: "('a \<Rightarrow> 'a \<Rightarrow> bool) \<Rightarrow> nat \<Rightarrow> 'a list \<Rightarrow> bool" where
  "heap_but_at lt pos h \<longleftrightarrow>
     (\<forall>i < length h. 0 < i \<longrightarrow> i \<noteq> pos \<longrightarrow> parent i \<noteq> pos \<longrightarrow> \<not> lt (h ! i) (h ! parent i))
     \<and> (\<forall>i < length h. 0 < i \<longrightarrow> parent i = pos \<longrightarrow> 0 < pos \<longrightarrow> \<not> lt (h ! i) (h ! parent pos))"

lemma heap_but_up_iff: "heap_but_up lt pos h \<Longrightarrow> pos = 0 \<or> \<not> lt (h ! pos) (h ! parent pos) \<Longrightarrow> is_heap lt h"
  by (auto simp: heap_but_up_def is_heap_def)

lemma heap_but_at_leaf: "heap_but_at lt pos h \<Longrightarrow> \<not> 2 * pos + 1 < length h \<Longrightarrow> heap_but_up lt pos h"
  by (auto simp: heap_but_at_def heap_but_up_def parent_iff)

locale strict_weak_order =
  fixes lt :: "'a \<Rightarrow> 'a \<Rightarrow> bool"
  assumes irrefl: "\<not> lt x x"
    and trans: "lt x y \<Longrightarrow> lt y z \<Longrightarrow> lt x z"
    and neg_trans: "\<not> lt x y \<Longrightarrow> \<not> lt y z \<Longrightarrow> \<not> lt x z"
begin

lemma asym: "lt x y \<Longrightarrow> \<not> lt y x"
  using irrefl trans by blast

lemma swap_up:
  assumes up: "heap_but_up lt pos h" and pos: "0 < pos" "pos < length h" and lt: "lt (h ! pos) (h ! parent pos)"
  shows "heap_but_up lt (parent pos) (swap pos (parent pos) h)"
proof -
  let ?p = "parent pos" and ?h = "swap pos (parent pos) h"
  have p: "?p < pos" "?p < length h" using pos parent_less [of pos] by auto
  have nth: "?h ! k = (if k = ?p then h ! pos else if k = pos then h ! ?p else h ! k)" if "k < length h" for k
    using swap_nth [OF pos(2) p(2) that] by simp
  have ord: "\<not> lt (h ! i) (h ! parent i)" if "i < length h" "0 < i" "i \<noteq> pos" for i
    using up that by (simp add: heap_but_up_def)
  have over: "\<not> lt (h ! i) (h ! ?p)" if "i < length h" "0 < i" "parent i = pos" for i
    using up that pos(1) by (simp add: heap_but_up_def)
  have "\<not> lt (?h ! i) (?h ! parent i)" if i: "i < length h" "0 < i" "i \<noteq> ?p" for i
  proof -
    have pi: "parent i < length h" "parent i < i" using i parent_less [of i] by auto
    consider "i = pos" | "parent i = pos" "i \<noteq> pos" | "parent i = ?p" "i \<noteq> pos"
      | "parent i \<noteq> pos" "parent i \<noteq> ?p" "i \<noteq> pos" by blast
    then show ?thesis
    proof cases
      case 1
      then show ?thesis using asym [OF lt] p i by (simp add: nth)
    next
      case 2
      moreover have "pos \<noteq> ?p" using p(1) by linarith
      ultimately show ?thesis using over [OF i(1,2)] i p pos by (auto simp: nth)
    next
      case 3
      then have "\<not> lt (h ! i) (h ! ?p)" using ord [OF i(1,2)] by simp
      then have "\<not> lt (h ! i) (h ! pos)" using lt trans by blast
      then show ?thesis using 3 i p by (simp add: nth)
    next
      case 4
      then show ?thesis using ord [OF i(1,2)] i pi by (simp add: nth)
    qed
  qed
  moreover have "\<not> lt (?h ! i) (?h ! parent ?p)" if i: "i < length h" "0 < i" "parent i = ?p" "0 < ?p" for i
  proof -
    have pp: "parent ?p < ?p" "parent ?p < length h" using i(4) p parent_less [of ?p] by auto
    have up: "\<not> lt (h ! ?p) (h ! parent ?p)" using ord [OF p(2) i(4)] p by simp
    show ?thesis
    proof (cases "i = pos")
      case True
      moreover have "pos \<noteq> ?p" "parent ?p \<noteq> pos" "parent ?p \<noteq> ?p" using p(1) pp(1) by linarith+
      ultimately show ?thesis using up pp p i irrefl asym [OF lt] by (auto simp: nth)
    next
      case False
      then have "\<not> lt (h ! i) (h ! ?p)" using ord [OF i(1,2)] i(3) by simp
      then have "\<not> lt (h ! i) (h ! parent ?p)" using up neg_trans by blast
      then show ?thesis using False i pp p by (auto simp: nth)
    qed
  qed
  ultimately show ?thesis by (simp add: heap_but_up_def)
qed

lemma siftdown_heap: "heap_but_up lt pos h \<Longrightarrow> pos < length h \<Longrightarrow> is_heap lt (siftdown lt 0 pos h)"
proof (induction pos arbitrary: h rule: less_induct)
  case (less pos)
  show ?case
  proof (cases "0 < pos \<and> lt (h ! pos) (h ! parent pos)")
    case True
    then show ?thesis
      using less swap_up [of pos h] by (subst siftdown.simps) auto
  next
    case False
    then show ?thesis
      using less.prems heap_but_up_iff [of lt pos h] by (subst siftdown.simps) auto
  qed
qed

lemma smaller_child_least:
  assumes "i < length h" "0 < i" "parent i = pos" "2 * pos + 1 < length h"
  shows "\<not> lt (h ! i) (h ! smaller_child lt pos h)"
proof -
  have "i = 2 * pos + 1 \<or> i = 2 * pos + 2" using assms(2,3) by (simp add: parent_iff)
  then show ?thesis
    using assms(1) irrefl asym by (auto simp: smaller_child_def Let_def)
qed

lemma swap_down:
  assumes at: "heap_but_at lt pos h" and has: "2 * pos + 1 < length h"
  defines "c \<equiv> smaller_child lt pos h"
  shows "heap_but_at lt c (swap pos c h)"
proof -
  let ?h = "swap pos c h"
  have c: "pos < c" "c < length h" "pos < length h" "parent c = pos"
    using smaller_child_bounds [OF has, of lt] smaller_child_cases [of lt pos h] by (auto simp: c_def parent_def)
  have nth: "?h ! k = (if k = c then h ! pos else if k = pos then h ! c else h ! k)" if "k < length h" for k
    using swap_nth [OF c(3) c(2) that] by simp
  have "\<not> lt (?h ! i) (?h ! parent i)" if i: "i < length h" "0 < i" "i \<noteq> c" "parent i \<noteq> c" for i
  proof -
    have pi: "parent i < length h" "parent i < i" using i parent_less [of i] by auto
    consider "i = pos" | "parent i = pos" "i \<noteq> pos" | "parent i \<noteq> pos" "i \<noteq> pos" by blast
    then show ?thesis
    proof cases
      case 1
      have "\<not> lt (h ! c) (h ! parent pos)" using at c 1 i by (simp add: heap_but_at_def)
      then show ?thesis using 1 i pi by (simp add: nth)
    next
      case 2
      then show ?thesis
        using smaller_child_least [OF i(1,2) _ has] i pi by (simp add: nth) (simp add: c_def)
    next
      case 3
      then show ?thesis using at i pi by (simp add: nth heap_but_at_def)
    qed
  qed
  moreover have "\<not> lt (?h ! i) (?h ! parent c)" if i: "i < length h" "0 < i" "parent i = c" for i
  proof -
    have "i \<noteq> pos" "i \<noteq> c" using parent_less [OF i(2)] i(3) c(1) by auto
    then have "\<not> lt (h ! i) (h ! parent i)" using at i c(1) unfolding heap_but_at_def by blast
    with \<open>i \<noteq> pos\<close> \<open>i \<noteq> c\<close> show ?thesis using i c by (simp add: nth)
  qed
  ultimately show ?thesis by (simp add: heap_but_at_def)
qed

lemma siftup_heap: "heap_but_at lt pos h \<Longrightarrow> pos < length h \<Longrightarrow> is_heap lt (siftup lt 0 pos h)"
proof (induction "length h - pos" arbitrary: pos h rule: less_induct)
  case less
  show ?case
  proof (cases "2 * pos + 1 < length h")
    case True
    let ?c = "smaller_child lt pos h"
    have c: "pos < ?c" "?c < length h" using smaller_child_bounds [OF True] by auto
    then have "is_heap lt (siftup lt 0 ?c (swap pos ?c h))"
      using swap_down [OF less.prems(1) True] by (intro less.hyps) auto
    then show ?thesis using True by (subst siftup.simps) simp
  next
    case False
    then show ?thesis
      using siftdown_heap [OF heap_but_at_leaf] less.prems by (subst siftup.simps) simp
  qed
qed

lemma heappush_heap: "is_heap lt h \<Longrightarrow> is_heap lt (heappush lt x h)"
  unfolding heappush_def
  by (rule siftdown_heap) (auto simp: heap_but_up_def is_heap_def nth_append parent_le parent_iff)

lemma heappop_heap:
  assumes "is_heap lt h" and "heappop lt h = Inr (x, h')"
  shows "is_heap lt h'"
proof -
  obtain hs l where h: "h = hs @ [l]" using assms(2) by (cases h rule: rev_cases) (auto simp: heappop_def)
  show ?thesis
  proof (cases hs)
    case Nil
    then show ?thesis using assms(2) h by (simp add: heappop_def is_heap_def Let_def)
  next
    case (Cons y ys)
    have "\<not> lt (hs ! i) (hs ! parent i)" if "i < length hs" "0 < i" for i
      using assms(1) that parent_le [of i "length hs"] by (simp add: is_heap_def h nth_append less_Suc_eq)
    then have "heap_but_at lt 0 (hs[0 := l])"
      by (simp add: heap_but_at_def)
    then show ?thesis
      using assms(2) siftup_heap [of 0 "hs[0 := l]"] Cons by (simp add: heappop_def h Let_def del: list_update_code)
  qed
qed

lemma root_least:
  assumes "is_heap lt h" and "i < length h"
  shows "\<not> lt (h ! i) (h ! 0)"
  using assms(2)
proof (induction i rule: less_induct)
  case (less i)
  show ?case
  proof (cases "i = 0")
    case True
    then show ?thesis using irrefl by simp
  next
    case False
    then have "\<not> lt (h ! i) (h ! parent i)" "\<not> lt (h ! parent i) (h ! 0)"
      using assms(1) less by (auto simp: is_heap_def)
    then show ?thesis using neg_trans by blast
  qed
qed

lemma heappop_least:
  assumes "is_heap lt h" and "heappop lt h = Inr (x, h')" and "y \<in> set h'"
  shows "\<not> lt y x"
proof -
  have "x = h ! 0"
    using assms(2) by (cases h rule: rev_cases) (auto simp: heappop_def Let_def hd_conv_nth nth_append split: if_splits)
  moreover have "y \<in> set h"
    using heappop_mset [OF assms(2)] assms(3) by (metis insert_iff set_mset_add_mset_insert set_mset_mset)
  ultimately show ?thesis
    using root_least [OF assms(1)] by (auto simp: in_set_conv_nth)
qed

end

section \<open>The interface\<close>

text \<open>What a client of the queue may rely on. \<open>heapq\<close> provides it for every strict weak
  order.\<close>

locale priority_queue =
  fixes precedes :: "'a \<Rightarrow> 'a \<Rightarrow> bool"
    and push :: "'a \<Rightarrow> 'q \<Rightarrow> 'q"
    and pop :: "'q \<Rightarrow> py_error + ('a \<times> 'q)"
    and elements :: "'q \<Rightarrow> 'a multiset"
    and valid :: "'q \<Rightarrow> bool"
  assumes push_elements: "elements (push x q) = add_mset x (elements q)"
    and push_valid: "valid q \<Longrightarrow> valid (push x q)"
    and pop_total: "elements q \<noteq> {#} \<Longrightarrow> \<exists>x q'. pop q = Inr (x, q')"
    and pop_elements: "pop q = Inr (x, q') \<Longrightarrow> elements q = add_mset x (elements q')"
    and pop_valid: "valid q \<Longrightarrow> pop q = Inr (x, q') \<Longrightarrow> valid q'"
    and pop_least: "valid q \<Longrightarrow> pop q = Inr (x, q') \<Longrightarrow> y \<in># elements q' \<Longrightarrow> \<not> precedes y x"
begin

lemma pop_two:
  assumes "valid q" and "1 < size (elements q)"
  obtains x y r where "pop q = Inr (x, r)" and "\<exists>s. pop r = Inr (y, s) \<and> valid s
      \<and> elements q = add_mset x (add_mset y (elements s))
      \<and> (\<forall>z \<in># elements s. \<not> precedes z x \<and> \<not> precedes z y) \<and> \<not> precedes y x"
proof -
  obtain x r where x: "pop q = Inr (x, r)" using pop_total [of q] assms(2) by fastforce
  have r: "valid r" "elements q = add_mset x (elements r)"
    using pop_valid [OF assms(1) x] pop_elements [OF x] by auto
  then obtain y s where y: "pop r = Inr (y, s)" using pop_total [of r] assms(2) by fastforce
  have s: "valid s" "elements r = add_mset y (elements s)"
    using pop_valid [OF r(1) y] pop_elements [OF y] by auto
  have "\<forall>z \<in># elements s. \<not> precedes z x \<and> \<not> precedes z y" "\<not> precedes y x"
    using pop_least [OF assms(1) x] pop_least [OF r(1) y] s(2) by auto
  with x y r s show thesis by (intro that) auto
qed

end

sublocale strict_weak_order \<subseteq> heapq: priority_queue lt "heappush lt" "heappop lt" mset "is_heap lt"
proof unfold_locales
  show "\<exists>x q'. heappop lt q = Inr (x, q')" if "mset q \<noteq> {#}" for q
    using heappop_ok [of q lt] that by auto
qed (auto simp: heappush_heap heappop_mset heappop_heap heappop_least)

end
