(* ===== verification/Seqlen_Lemmas.thy ===== *)
theory Seqlen_Lemmas
  imports Seqlen_Balance
begin

text \<open>
  Correctness of the sequence balancing: the loop over the priority queue implements the
  largest-differencing relation, and the invariants of its states give that every index is
  placed once, that no part is empty and how far the parts' token counts can differ.
\<close>

section \<open>The priority queue\<close>

lemma state_lt_key: "state_lt s t \<longleftrightarrow> (spread t, hd (kk_sets t)) < (spread s, hd (kk_sets s))"
  by (auto simp: state_lt_def)

interpretation kkq: strict_weak_order state_lt
  by unfold_locales (auto simp: state_lt_key)

text \<open>The method as a relation on multisets of states: merge a state that no other precedes
  with one that no other of the rest precedes.\<close>

inductive ldm :: "kk_state multiset \<Rightarrow> kk_state multiset \<Rightarrow> bool" where
  merge: "\<forall>u \<in># M. \<not> state_lt u s \<and> \<not> state_lt u t \<Longrightarrow> \<not> state_lt t s \<Longrightarrow>
    ldm (add_mset s (add_mset t M)) (add_mset (state_merge s t) M)"

lemma kk_loop_ldm:
  assumes "is_heap state_lt pq" and "pq \<noteq> []"
  shows "\<exists>s. kk_loop pq = Inr [s] \<and> ldm\<^sup>*\<^sup>* (mset pq) {#s#}"
  using assms
proof (induction "length pq" arbitrary: pq rule: less_induct)
  case less
  show ?case
  proof (cases "1 < length pq")
    case False
    then obtain s where "pq = [s]" using less.prems(2) by (cases pq) auto
    then show ?thesis by (simp add: kk_loop.simps)
  next
    case True
    then obtain s t r q where pop: "heappop state_lt pq = Inr (s, r)" "heappop state_lt r = Inr (t, q)"
      and q: "is_heap state_lt q" "mset pq = add_mset s (add_mset t (mset q))"
      and least: "\<forall>u \<in># mset q. \<not> state_lt u s \<and> \<not> state_lt u t" "\<not> state_lt t s"
      using kkq.heapq.pop_two [OF less.prems(1)] by (metis size_mset)
    let ?q = "heappush state_lt (state_merge s t) q"
    have "length ?q < length pq"
      using heappop_length [OF pop(1)] heappop_length [OF pop(2)] by simp
    moreover have "?q \<noteq> []" by (metis heappush_length list.size(3) nat.distinct(1))
    ultimately obtain u where u: "kk_loop ?q = Inr [u]" "ldm\<^sup>*\<^sup>* (mset ?q) {#u#}"
      using less.hyps [of ?q] kkq.heapq.push_valid [OF q(1)] by blast
    have "ldm (mset pq) (mset ?q)"
      using ldm.merge [OF least] q(2) by simp
    moreover have "kk_loop pq = kk_loop ?q"
      using True pop by (subst kk_loop.simps) simp
    ultimately show ?thesis using u by (metis converse_rtranclp_into_rtranclp)
  qed
qed

lemma ldm_invariant:
  assumes "ldm\<^sup>*\<^sup>* M N" and "\<forall>s \<in># M. Q s"
    and keep: "\<And>s t. Q s \<Longrightarrow> Q t \<Longrightarrow> Q (state_merge s t)"
    and add: "\<And>s t. Q s \<Longrightarrow> Q t \<Longrightarrow> F (state_merge s t) = F s + F t"
  shows "(\<forall>s \<in># N. Q s) \<and> (\<Sum>s \<in># N. F s) = (\<Sum>s \<in># M. F s :: 'b :: comm_monoid_add)"
  using assms(1)
proof (induction rule: rtranclp_induct)
  case base
  then show ?case using assms(2) by simp
next
  case (step N N')
  from step(2) show ?case
    by (cases rule: ldm.cases) (use step(3) keep add in \<open>auto simp: ac_simps\<close>)
qed

section \<open>Sets and sorting\<close>

lemma set_merge_items: "kk_items (set_merge s t) = kk_items s @ kk_items t"
proof -
  have "kk_items (fold (\<lambda>(idx, val). set_add idx val) xs s) = kk_items s @ xs" for xs
    by (induction xs arbitrary: s) (auto simp: set_add_def)
  then show ?thesis by (simp add: set_merge_def)
qed

lemma set_merge_sum: "kk_sum (set_merge s t) = kk_sum s + sum_list (map snd (kk_items t))"
proof -
  have "kk_sum (fold (\<lambda>(idx, val). set_add idx val) xs s) = kk_sum s + sum_list (map snd xs)" for xs
    by (induction xs arbitrary: s) (auto simp: set_add_def)
  then show ?thesis by (simp add: set_merge_def)
qed

lemma kk_sum_mono: "s \<le> t \<Longrightarrow> kk_sum s \<le> kk_sum t"
  by (auto simp: less_eq_kk_set_def less_kk_set_def set_lt_def split: if_splits)

lemma sorted_reverse_simps [simp]:
  "length (sorted_reverse ss) = length ss" "set (sorted_reverse ss) = set ss"
  "mset (sorted_reverse ss) = mset ss" "sorted_wrt (\<ge>) (sorted_reverse ss)"
  by (simp_all add: sorted_reverse_def sorted_wrt_rev)

definition items_of :: "kk_set list \<Rightarrow> (nat \<times> int) multiset" where
  "items_of ss = (\<Sum>s \<in># mset ss. mset (kk_items s))"

abbreviation occupied :: "kk_set \<Rightarrow> bool" where
  "occupied s \<equiv> kk_items s \<noteq> []"

lemma items_of_simps [simp]:
  "items_of [] = {#}" "items_of (s # ss) = mset (kk_items s) + items_of ss"
  "items_of (sorted_reverse ss) = items_of ss" "items_of (rev ss) = items_of ss"
  by (simp_all add: items_of_def)

lemma items_of_merge:
  "length ss = length ts \<Longrightarrow> items_of (map2 set_merge ss ts) = items_of ss + items_of ts"
  by (induction ss ts rule: list_induct2) (auto simp: set_merge_items)

lemma filter_occupied_mset: "mset ss = mset ts \<Longrightarrow> length (filter P ss) = length (filter P ts)"
  by (metis mset_filter size_mset)

lemma prefix_filter:
  assumes "\<And>i j. i < j \<Longrightarrow> j < length xs \<Longrightarrow> P (xs ! j) \<Longrightarrow> P (xs ! i)" and "i < length xs"
  shows "P (xs ! i) \<longleftrightarrow> i < length (filter P xs)"
  using assms
proof (induction xs arbitrary: i)
  case Nil
  then show ?case by simp
next
  case (Cons x xs)
  have IH: "P (xs ! m) \<longleftrightarrow> m < length (filter P xs)" if "m < length xs" for m
    using Cons.prems(1) [of "Suc _" "Suc _"] that by (intro Cons.IH) auto
  show ?case
  proof (cases "P x")
    case True
    then show ?thesis using IH [of "i - 1"] Cons.prems(2) by (cases i) auto
  next
    case False
    then have none: "\<not> P ((x # xs) ! m)" if "m < length (x # xs)" for m
      using Cons.prems(1) [of 0 m] that by (cases m) auto
    then have "filter P (x # xs) = []" unfolding filter_empty_conv by (metis in_set_conv_nth)
    with none [OF Cons.prems(2)] show ?thesis by simp
  qed
qed

section \<open>The invariant of a state\<close>

definition good_set :: "kk_set \<Rightarrow> bool" where
  "good_set s \<longleftrightarrow> kk_sum s = sum_list (map snd (kk_items s)) \<and> (\<forall>x \<in> set (kk_items s). 0 \<le> snd x)"

definition good_sets :: "nat \<Rightarrow> int \<Rightarrow> bool \<Rightarrow> kk_set list \<Rightarrow> bool" where
  "good_sets k B equal_size ss \<longleftrightarrow>
     length ss = k \<and> list_all good_set ss
     \<and> (\<forall>s \<in> set ss. \<forall>t \<in> set ss. kk_sum s - kk_sum t \<le> B)
     \<and> length (filter occupied ss) = min k (size (items_of ss))
     \<and> (equal_size \<longrightarrow> (\<forall>s \<in> set ss. \<forall>t \<in> set ss. length (kk_items s) = length (kk_items t)))"

definition good_state :: "nat \<Rightarrow> int \<Rightarrow> bool \<Rightarrow> kk_state \<Rightarrow> bool" where
  "good_state k B equal_size s \<longleftrightarrow>
     kk_k s = k \<and> sorted_wrt (\<ge>) (kk_sets s) \<and> good_sets k B equal_size (kk_sets s)"

lemma good_sets_mset:
  assumes "mset ss = mset ts"
  shows "good_sets k B e ss \<longleftrightarrow> good_sets k B e ts"
proof -
  have "set ss = set ts" "length ss = length ts" "items_of ss = items_of ts"
    using assms by (auto simp: items_of_def dest: mset_eq_setD mset_eq_length)
  then show ?thesis
    using filter_occupied_mset [OF assms, of occupied] by (simp add: good_sets_def list_all_iff)
qed

lemma good_set_merge: "good_set s \<Longrightarrow> good_set t \<Longrightarrow> good_set (set_merge s t)"
  by (auto simp: good_set_def set_merge_items set_merge_sum)

lemma good_set_zero:
  assumes "good_set s" and "s \<le> t" and "\<not> occupied t" and "good_set t"
  shows "\<not> occupied s"
proof -
  have "kk_sum t = 0" using assms by (simp add: good_set_def)
  moreover have "0 \<le> kk_sum s"
    using assms(1) by (auto simp: good_set_def intro!: sum_list_nonneg)
  ultimately show ?thesis
    using assms(2,3) by (auto simp: less_eq_kk_set_def less_kk_set_def set_lt_def split: if_splits)
qed

lemma occupied_prefix:
  assumes "list_all good_set ss" and "sorted_wrt (\<ge>) ss" and "i < length ss"
  shows "occupied (ss ! i) \<longleftrightarrow> i < length (filter occupied ss)"
proof (rule prefix_filter [OF _ assms(3)])
  fix i j assume ij: "i < j" "j < length ss" "occupied (ss ! j)"
  then have "ss ! j \<le> ss ! i" "good_set (ss ! j)" "good_set (ss ! i)"
    using assms(1,2) by (auto simp: sorted_wrt_iff_nth_less list_all_length)
  with ij(3) show "occupied (ss ! i)" using good_set_zero by blast
qed

lemma occupied_merge:
  assumes "length ss = k" "length ts = k" "p \<le> k" "q \<le> k"
    and "\<And>i. i < k \<Longrightarrow> occupied (ss ! i) \<longleftrightarrow> i < p" and "\<And>i. i < k \<Longrightarrow> occupied (ts ! i) \<longleftrightarrow> k - q \<le> i"
  shows "length (filter occupied (map2 set_merge ss ts)) = min k (p + q)"
proof -
  have "{i. i < length (map2 set_merge ss ts) \<and> occupied (map2 set_merge ss ts ! i)} = {..<p} \<union> {k - q..<k}"
    using assms(1-4) assms(5,6)[THEN iffD1] assms(5,6)[THEN iffD2] by (fastforce simp: set_merge_items)
  then have "length (filter occupied (map2 set_merge ss ts)) = card ({..<p} \<union> {k - q..<k})"
    by (simp add: length_filter_conv_card)
  also have "\<dots> = min k (p + q)"
  proof (cases "p \<le> k - q")
    case True
    then have "{..<p} \<inter> {k - q..<k} = {}" by auto
    then show ?thesis using True assms(4) by (simp add: card_Un_disjoint)
  next
    case False
    then have "{..<p} \<union> {k - q..<k} = {..<k}" using assms(3) by auto
    then show ?thesis using False by simp
  qed
  finally show ?thesis .
qed

lemma merge_difference:
  assumes "length ss = k" "length ts = k" and "sorted_wrt (\<ge>) ss" "sorted_wrt (\<le>) ts"
    and "list_all good_set ss" "list_all good_set ts"
    and "\<forall>s \<in> set ss. \<forall>t \<in> set ss. kk_sum s - kk_sum t \<le> B"
    and "\<forall>s \<in> set ts. \<forall>t \<in> set ts. kk_sum s - kk_sum t \<le> B"
    and "u \<in> set (map2 set_merge ss ts)" "v \<in> set (map2 set_merge ss ts)"
  shows "kk_sum u - kk_sum v \<le> B"
proof -
  have sum: "kk_sum (map2 set_merge ss ts ! i) = kk_sum (ss ! i) + kk_sum (ts ! i)" if "i < k" for i
    using assms(1,2,6) that by (simp add: set_merge_sum good_set_def list_all_length)
  obtain i j where ij: "i < k" "j < k" "u = map2 set_merge ss ts ! i" "v = map2 set_merge ss ts ! j"
    using assms(1,2,9,10) unfolding in_set_conv_nth by auto
  have ord: "kk_sum (ss ! n) \<le> kk_sum (ss ! m) \<and> kk_sum (ts ! m) \<le> kk_sum (ts ! n)
      \<and> kk_sum (ss ! m) - kk_sum (ss ! n) \<le> B \<and> kk_sum (ts ! n) - kk_sum (ts ! m) \<le> B"
    if "m < n" "n < k" for m n
    using assms(1-4,7,8) that kk_sum_mono by (auto simp: sorted_wrt_iff_nth_less)
  have "kk_sum (ss ! i) - kk_sum (ss ! i) \<le> B" using assms(1,7) ij(1) nth_mem [of i ss] by blast
  then have "0 \<le> B" by simp
  then show ?thesis
    using ord [of i j] ord [of j i] ij by (cases i j rule: linorder_cases) (auto simp: sum)
qed

lemma state_merge_sets:
  assumes "kk_k s = k" "length (kk_sets s) = k" "length (kk_sets t) = k"
  shows "kk_sets (state_merge s t) = sorted_reverse (map2 set_merge (kk_sets s) (rev (kk_sets t)))"
proof -
  have "map (\<lambda>i. set_merge (kk_sets s ! i) (kk_sets t ! (k - 1 - i))) [0..<k]
      = map2 set_merge (kk_sets s) (rev (kk_sets t))"
    using assms by (intro nth_equalityI) (auto simp: rev_nth)
  then show ?thesis using assms(1) by (simp add: state_merge_def)
qed

lemma good_state_merge:
  assumes s: "good_state k B e s" and t: "good_state k B e t"
  shows "good_state k B e (state_merge s t)"
proof -
  let ?s = "kk_sets s" and ?t = "rev (kk_sets t)"
  let ?m = "map2 set_merge ?s ?t"
  have gs: "length ?s = k" "list_all good_set ?s" "sorted_wrt (\<ge>) ?s" "kk_k s = k"
    and gt: "length ?t = k" "list_all good_set ?t" "sorted_wrt (\<le>) ?t"
    using s t by (auto simp: good_state_def good_sets_def list_all_iff sorted_wrt_rev)
  have "good_sets k B e ?m"
    unfolding good_sets_def
  proof (intro conjI)
    show "length ?m = k" using gs gt by simp
    show "list_all good_set ?m"
      using gs gt by (auto simp: list_all_length good_set_merge)
    show "\<forall>u \<in> set ?m. \<forall>v \<in> set ?m. kk_sum u - kk_sum v \<le> B"
      using merge_difference [OF gs(1) gt(1) gs(3) gt(3) gs(2) gt(2), of B] s t
      by (auto simp: good_state_def good_sets_def)
    show "length (filter occupied ?m) = min k (size (items_of ?m))"
    proof -
      let ?p = "min k (size (items_of ?s))" and ?q = "min k (size (items_of ?t))"
      have p: "occupied (?s ! i) \<longleftrightarrow> i < ?p" if "i < k" for i
        using occupied_prefix [OF gs(2,3)] s that gs(1) by (simp add: good_state_def good_sets_def)
      have "occupied (?t ! i) \<longleftrightarrow> k - ?q \<le> i" if "i < k" for i
      proof -
        have t': "list_all good_set (kk_sets t)" "sorted_wrt (\<ge>) (kk_sets t)" "length (kk_sets t) = k"
          "length (filter occupied (kk_sets t)) = ?q"
          using t by (simp_all add: good_state_def good_sets_def)
        have "occupied (kk_sets t ! (k - 1 - i)) \<longleftrightarrow> k - 1 - i < ?q"
          using occupied_prefix [OF t'(1,2), of "k - 1 - i"] t'(3,4) that by simp
        moreover have "?t ! i = kk_sets t ! (k - 1 - i)" using t'(3) that by (simp add: rev_nth)
        moreover have "k - 1 - i < ?q \<longleftrightarrow> k - ?q \<le> i" using that by linarith
        ultimately show ?thesis by simp
      qed
      then have "length (filter occupied ?m) = min k (?p + ?q)"
        using occupied_merge [OF gs(1) gt(1), of ?p ?q] p by simp
      also have "\<dots> = min k (size (items_of ?m))"
        using items_of_merge [of ?s ?t] gs(1) gt(1) by auto
      finally show ?thesis .
    qed
    have eq: "\<forall>x \<in> set ?s. \<forall>y \<in> set ?s. length (kk_items x) = length (kk_items y)"
      "\<forall>x \<in> set ?t. \<forall>y \<in> set ?t. length (kk_items x) = length (kk_items y)" if e
      using s t that unfolding good_state_def good_sets_def set_rev by blast+
    show "e \<longrightarrow> (\<forall>x \<in> set ?m. \<forall>y \<in> set ?m. length (kk_items x) = length (kk_items y))"
    proof (intro impI ballI)
      fix x y assume e and "x \<in> set ?m" "y \<in> set ?m"
      then obtain i j where ij: "i < k" "j < k" "x = ?m ! i" "y = ?m ! j"
        using gs(1) gt(1) unfolding in_set_conv_nth by auto
      have "length (kk_items (?s ! i)) = length (kk_items (?s ! j))"
        "length (kk_items (?t ! i)) = length (kk_items (?t ! j))"
        using eq [OF \<open>e\<close>] ij(1,2) gs(1) gt(1) nth_mem by metis+
      then show "length (kk_items x) = length (kk_items y)"
        using ij gs(1) gt(1) by (simp add: set_merge_items)
    qed
  qed
  then show ?thesis
    using state_merge_sets [of s k t] gs gt good_sets_mset [of "sorted_reverse ?m" ?m k B e]
    by (simp add: good_state_def) (simp add: state_merge_def)
qed

lemma items_state_merge:
  assumes "good_state k B e s" "good_state k B e t"
  shows "items_of (kk_sets (state_merge s t)) = items_of (kk_sets s) + items_of (kk_sets t)"
  using assms state_merge_sets [of s k t] items_of_merge [of "kk_sets s" "rev (kk_sets t)"]
  by (simp add: good_state_def good_sets_def)

section \<open>The first states\<close>

definition first_state :: "nat \<Rightarrow> (nat \<times> int) list \<Rightarrow> kk_state" where
  "first_state k g = \<lparr>kk_k = k, kk_sets = sorted_reverse (map (initial_set g) [0..<k])\<rparr>"

lemma items_of_initial: "length g \<le> k \<Longrightarrow> items_of (map (initial_set g) [0..<k]) = mset g"
proof (induction g rule: rev_induct)
  case Nil
  have "items_of (map (initial_set []) xs) = {#}" for xs
    by (induction xs) (simp_all add: initial_set_def set_empty_def)
  then show ?case by simp
next
  case (snoc x g)
  let ?n = "length g"
  have split: "[0..<k] = [0..<?n] @ ?n # [Suc ?n..<k]"
    using snoc.prems by (metis le_add1 length_append_singleton plus_1_eq_Suc le_eq_less_or_eq add.commute
        upt_add_eq_append upt_conv_Cons less_Suc_eq_le less_eq_Suc_le le0 le_add_diff_inverse)
  have app: "items_of (xs @ ys) = items_of xs + items_of ys" for xs ys
    by (induction xs) (simp_all add: ac_simps)
  have before: "map (initial_set (g @ [x])) [0..<?n] = map (initial_set g) [0..<?n]"
    by (auto simp: initial_set_def nth_append)
  have after: "items_of (map (initial_set h) [Suc ?n..<k]) = {#}" if "length h \<le> Suc ?n" for h
  proof -
    have "items_of (map (initial_set h) xs) = {#}" if "\<forall>i \<in> set xs. length h \<le> i" for xs
      using that by (induction xs) (simp_all add: initial_set_def set_empty_def)
    then show ?thesis using that by auto
  qed
  have "items_of (map (initial_set g) [0..<k]) = mset g" using snoc by simp
  then have "items_of (map (initial_set g) [0..<?n]) = mset g"
    using after [of g] by (simp add: split app) (simp add: initial_set_def set_empty_def)
  then show ?case
    using after [of "g @ [x]"] by (simp add: split app before) (simp add: initial_set_def set_add_def set_empty_def)
qed

lemma first_state_good:
  assumes "length g = 1 \<or> length g = k" and "length g \<le> k" and "e \<longrightarrow> length g = k"
    and "\<forall>x \<in> set g. 0 \<le> snd x \<and> snd x \<le> B" and "0 \<le> B"
  shows "good_state k B e (first_state k g)"
proof -
  let ?ss = "map (initial_set g) [0..<k]"
  have sum: "0 \<le> kk_sum s \<and> kk_sum s \<le> B \<and> good_set s" if "s \<in> set ?ss" for s
    using that assms(4,5) by (auto simp: initial_set_def set_add_def set_empty_def good_set_def)
  have occ: "length (filter occupied ?ss) = length g"
  proof -
    have "{i. i < length ?ss \<and> occupied (?ss ! i)} = {..<length g}"
      using assms(2) by (auto simp: initial_set_def set_add_def set_empty_def split: if_splits)
    then show ?thesis by (simp add: length_filter_conv_card)
  qed
  have "kk_sum s - kk_sum t \<le> B" if "s \<in> set ?ss" "t \<in> set ?ss" for s t
    using sum [OF that(1)] sum [OF that(2)] by linarith
  moreover have "length (kk_items s) = 1" if "e" "s \<in> set ?ss" for s
    using that assms(3) by (auto simp: initial_set_def set_add_def set_empty_def)
  ultimately have "good_sets k B e ?ss"
    using sum occ items_of_initial [OF assms(2)] assms(2) by (simp add: good_sets_def list_all_iff)
  then show ?thesis
    using good_sets_mset [of "sorted_reverse ?ss" ?ss] by (simp add: good_state_def first_state_def)
qed

lemma push_groups_ok:
  assumes "\<forall>g \<in> set gs. (length g = 1 \<or> length g = k) \<and> length g \<le> k"
  shows "\<exists>pq. push_groups gs k = Inr pq \<and> mset pq = mset (map (first_state k) gs) \<and> is_heap state_lt pq"
proof -
  have "push_groups gs k = Inr (fold (\<lambda>g. heappush state_lt (first_state k g)) gs [])"
    unfolding push_groups_def using assms
    by (intro forR_total) (auto simp: state_init_def first_state_def)
  moreover have "mset (fold (\<lambda>g. heappush state_lt (first_state k g)) gs q) = mset q + mset (map (first_state k) gs)
      \<and> (is_heap state_lt q \<longrightarrow> is_heap state_lt (fold (\<lambda>g. heappush state_lt (first_state k g)) gs q))" for q
    by (induction gs arbitrary: q) (auto simp: kkq.heapq.push_valid)
  ultimately show ?thesis by (simp add: is_heap_def)
qed

section \<open>The groups\<close>

lemma sorted_seqlens_mset: "mset (sorted_seqlens lens) = mset (zip [0..<length lens] lens)"
proof -
  have "mset (sorted_seqlens lens) = image_mset (\<lambda>(len, i). (i, len)) (mset (zip lens [0..<length lens]))"
    by (simp add: sorted_seqlens_def)
  also have "\<dots> = mset (map (\<lambda>(len, i). (i, len)) (zip lens [0..<length lens]))" by simp
  also have "map (\<lambda>(len, i). (i, len)) (zip lens [0..<length lens]) = zip [0..<length lens] lens"
    by (subst zip_commute) (simp add: case_prod_beta comp_def)
  finally show ?thesis .
qed

lemma sorted_seqlens_length [simp]: "length (sorted_seqlens lens) = length lens"
  by (simp add: sorted_seqlens_def)

lemma concat_chunks: "concat (map (\<lambda>j. take k (drop (j * k) xs)) [0..<m]) = take (m * k) xs"
  by (induction m) (simp_all add: take_add [symmetric] add.commute)

lemma item_groups_concat:
  assumes "0 < k" and "e \<longrightarrow> int (length lens) mod k = 0"
  shows "concat (item_groups lens k e) = sorted_seqlens lens"
proof (cases e)
  case True
  then have "length lens div nat k * nat k = length lens"
    using assms by (metis dvd_div_mult_self int_dvd_int_iff int_nat_eq less_imp_le mod_0_imp_dvd)
  then show ?thesis using True assms(1) by (simp add: item_groups_def concat_chunks)
next
  case False
  then show ?thesis by (simp add: item_groups_def)
qed

lemma item_groups_length:
  assumes "0 < k" and "e \<longrightarrow> int (length lens) mod k = 0" and "g \<in> set (item_groups lens k e)"
  shows "(length g = 1 \<or> length g = nat k) \<and> length g \<le> nat k \<and> (e \<longrightarrow> length g = nat k)"
proof (cases e)
  case True
  then obtain j where j: "j < length lens div nat k" "g = take (nat k) (drop (j * nat k) (sorted_seqlens lens))"
    using assms by (auto simp: item_groups_def)
  then have "Suc j * nat k \<le> length lens"
    using mult_le_mono1 [of "Suc j" "length lens div nat k" "nat k"] div_times_less_eq_dividend [of "length lens" "nat k"]
    by linarith
  then show ?thesis using j True by simp
next
  case False
  then show ?thesis using assms by (auto simp: item_groups_def)
qed

section \<open>The result\<close>

lemma kk_final:
  assumes "0 < k" and "lens \<noteq> []" and "\<forall>x \<in> set lens. 0 \<le> x" and "e \<longrightarrow> int (length lens) mod k = 0"
  shows "\<exists>pq s. push_groups (item_groups lens k e) (nat k) = Inr pq \<and> kk_loop pq = Inr [s]
    \<and> ldm\<^sup>*\<^sup>* (mset (map (first_state (nat k)) (item_groups lens k e))) {#s#}
    \<and> good_state (nat k) (Max (set lens)) e s \<and> items_of (kk_sets s) = mset (zip [0..<length lens] lens)"
proof -
  let ?gs = "item_groups lens k e" and ?B = "Max (set lens)"
  let ?F = "\<lambda>s. items_of (kk_sets s)"
  note gl = item_groups_length [OF assms(1,4)]
  obtain pq where pq: "push_groups ?gs (nat k) = Inr pq" "mset pq = mset (map (first_state (nat k)) ?gs)"
    "is_heap state_lt pq"
    using push_groups_ok [of ?gs "nat k"] gl by blast
  have all: "mset (concat ?gs) = mset (zip [0..<length lens] lens)"
    using item_groups_concat [OF assms(1,4)] sorted_seqlens_mset [of lens] by simp
  then have "concat ?gs \<noteq> []" using assms(2) by (metis length_greater_0_conv length_zip list.size(3) min_less_iff_conj
        mset_zero_iff size_mset length_upt minus_nat.diff_0 mset.simps(1))
  then have "pq \<noteq> []" using pq(2) by auto
  then obtain s where s: "kk_loop pq = Inr [s]" "ldm\<^sup>*\<^sup>* (mset pq) {#s#}"
    using kk_loop_ldm [OF pq(3)] by blast
  have range: "0 \<le> snd x \<and> snd x \<le> ?B" if "g \<in> set ?gs" "x \<in> set g" for g x
  proof -
    have "x \<in> set (zip [0..<length lens] lens)"
      using that all by (metis UN_I set_concat set_mset_mset)
    then have "snd x \<in> set lens" by (metis set_zip_rightD prod.collapse)
    then show ?thesis using assms(3) by simp
  qed
  have "0 \<le> ?B" using assms(2,3) Max_in [of "set lens"] by auto
  then have "good_state (nat k) ?B e (first_state (nat k) g)" if "g \<in> set ?gs" for g
    using first_state_good [of g "nat k" e ?B] gl [OF that] range [OF that] by blast
  then have good: "\<forall>s \<in># mset pq. good_state (nat k) ?B e s"
    using pq(2) by auto
  note inv = ldm_invariant [OF s(2) good, of ?F, OF good_state_merge items_state_merge]
  have "(\<Sum>s \<in># mset pq. ?F s) = (\<Sum>g \<leftarrow> ?gs. mset g)"
  proof -
    have "(\<Sum>s \<in># mset pq. ?F s) = (\<Sum>g \<leftarrow> ?gs. ?F (first_state (nat k) g))"
      by (simp add: pq(2) sum_mset_sum_list [symmetric] image_mset.compositionality comp_def)
    also have "\<dots> = (\<Sum>g \<leftarrow> ?gs. mset g)"
      using gl by (intro arg_cong [where f = sum_list] map_cong refl) (simp add: first_state_def items_of_initial)
    finally show ?thesis .
  qed
  then have "?F s = mset (zip [0..<length lens] lens)"
    using inv all by (simp add: mset_concat)
  then show ?thesis using pq(1,2) s inv by auto
qed

definition tokens :: "int list \<Rightarrow> nat list \<Rightarrow> int" where
  "tokens lens p = sum_list (map (\<lambda>i. lens ! i) p)"

lemma final_partitions:
  assumes "0 < k" and "good_state (nat k) B e s" and items: "items_of (kk_sets s) = mset (zip [0..<length lens] lens)"
  shows "int (length (get_partitions s)) = k" and "mset (concat (get_partitions s)) = mset [0..<length lens]"
    and "k \<le> int (length lens) \<Longrightarrow> [] \<notin> set (get_partitions s)"
    and "e \<Longrightarrow> p \<in> set (get_partitions s) \<Longrightarrow> int (length p) * k = int (length lens)"
    and "p \<in> set (get_partitions s) \<Longrightarrow> q \<in> set (get_partitions s) \<Longrightarrow> tokens lens p - tokens lens q \<le> B"
proof -
  let ?ss = "kk_sets s"
  have g: "length ?ss = nat k" "list_all good_set ?ss" "length (filter occupied ?ss) = min (nat k) (size (items_of ?ss))"
    using assms(2) by (auto simp: good_state_def good_sets_def)
  then show "int (length (get_partitions s)) = k" using assms(1) by (simp add: get_partitions_def)
  have flat: "mset (concat (map kk_items ts)) = items_of ts" for ts
    by (induction ts) auto
  have size: "size (items_of ?ss) = length lens" by (simp add: items)
  have "concat (get_partitions s) = map fst (concat (map kk_items ?ss))"
    by (simp add: get_partitions_def map_concat comp_def)
  then have "mset (concat (get_partitions s)) = image_mset fst (items_of ?ss)"
    using flat [of ?ss] by (metis mset_map)
  also have "\<dots> = mset (map fst (zip [0..<length lens] lens))" by (simp only: items mset_map)
  finally show perm: "mset (concat (get_partitions s)) = mset [0..<length lens]" by simp
  show "[] \<notin> set (get_partitions s)" if "k \<le> int (length lens)"
  proof -
    have "length (filter occupied ?ss) = length ?ss" using g that size by simp
    then have "occupied t" if "t \<in> set ?ss" for t
      using length_filter_less [OF that, of occupied] by force
    then show ?thesis by (auto simp: get_partitions_def)
  qed
  show "int (length p) * k = int (length lens)" if eq: "e" and mem: "p \<in> set (get_partitions s)"
  proof -
    obtain u where u: "u \<in> set ?ss" "p = map fst (kk_items u)"
      using mem by (auto simp: get_partitions_def)
    have "length (kk_items t) = length (kk_items u)" if "t \<in> set ?ss" for t
      using assms(2) eq u(1) that unfolding good_state_def good_sets_def by blast
    then have same: "length (kk_items t) = length p" if "t \<in> set ?ss" for t
      using that by (simp add: u(2))
    have "size (items_of ts) = length ts * length p" if "set ts \<subseteq> set ?ss" for ts
      using that same by (induction ts) auto
    then have "length lens = nat k * length p" using size g(1) by simp
    then show ?thesis using assms(1) by simp
  qed
  show "tokens lens p - tokens lens q \<le> B" if pq: "p \<in> set (get_partitions s)" "q \<in> set (get_partitions s)"
  proof -
    have val: "snd x = lens ! fst x" if "t \<in> set ?ss" "x \<in> set (kk_items t)" for t x
    proof -
      have "x \<in> set (concat (map kk_items ?ss))" using that by auto
      then have "x \<in># items_of ?ss" by (simp only: flat [symmetric] set_mset_mset)
      then show ?thesis by (auto simp: items in_set_zip)
    qed
    have sum: "tokens lens (map fst (kk_items t)) = kk_sum t" if "t \<in> set ?ss" for t
    proof -
      have "map (\<lambda>i. lens ! i) (map fst (kk_items t)) = map snd (kk_items t)" using val [OF that] by simp
      moreover have "kk_sum t = sum_list (map snd (kk_items t))"
        using g(2) that by (simp add: good_set_def list_all_iff)
      ultimately show ?thesis unfolding tokens_def by (simp only:)
    qed
    obtain t u where "t \<in> set ?ss" "u \<in> set ?ss" "p = map fst (kk_items t)" "q = map fst (kk_items u)"
      using pq by (auto simp: get_partitions_def)
    then show ?thesis using assms(2) sum by (simp add: good_state_def good_sets_def)
  qed
qed

lemma karmarkar_karp_final:
  assumes "0 < k" and "lens \<noteq> []" and "\<forall>x \<in> set lens. 0 \<le> x" and "e \<longrightarrow> int (length lens) mod k = 0"
  obtains s where "karmarkar_karp lens k e = Inr (get_partitions s)" "good_state (nat k) (Max (set lens)) e s"
    "items_of (kk_sets s) = mset (zip [0..<length lens] lens)"
    "ldm\<^sup>*\<^sup>* (mset (map (first_state (nat k)) (item_groups lens k e))) {#s#}"
proof -
  obtain pq s where run: "push_groups (item_groups lens k e) (nat k) = Inr pq" "kk_loop pq = Inr [s]"
    and s: "ldm\<^sup>*\<^sup>* (mset (map (first_state (nat k)) (item_groups lens k e))) {#s#}"
      "good_state (nat k) (Max (set lens)) e s" "items_of (kk_sets s) = mset (zip [0..<length lens] lens)"
    using kk_final [OF assms] by blast
  have "list_all (\<lambda>p. int (length p) * k = int (length lens)) (get_partitions s)" if e
    using final_partitions(4) [OF assms(1) s(2,3) that] by (simp add: list_all_iff)
  then have "karmarkar_karp lens k e = Inr (get_partitions s)"
    using assms(1,4) run by (auto simp: karmarkar_karp_def Let_def)
  with s show thesis by (intro that)
qed

lemma balanced_partitions_final:
  assumes "0 < k" and "k \<le> int (length lens)" and "\<forall>x \<in> set lens. 0 \<le> x" and "e \<longrightarrow> int (length lens) mod k = 0"
  obtains ps where "get_seqlen_balanced_partitions lens k e = Inr (map sort ps)" "int (length ps) = k" "[] \<notin> set ps"
    "mset (concat ps) = mset [0..<length lens]"
    "\<And>p. e \<Longrightarrow> p \<in> set ps \<Longrightarrow> int (length p) * k = int (length lens)"
    "\<And>p q. p \<in> set ps \<Longrightarrow> q \<in> set ps \<Longrightarrow> tokens lens p - tokens lens q \<le> Max (set lens)"
proof -
  have "lens \<noteq> []" using assms(1,2) by auto
  then obtain s where s: "karmarkar_karp lens k e = Inr (get_partitions s)"
    "good_state (nat k) (Max (set lens)) e s" "items_of (kk_sets s) = mset (zip [0..<length lens] lens)"
    using karmarkar_karp_final [OF assms(1) _ assms(3,4)] by blast
  note f = final_partitions [OF assms(1) s(2,3)]
  have "set (concat (get_partitions s)) = set [0..<length lens]" using f(2) mset_eq_setD by blast
  moreover have "\<not> list_ex (\<lambda>p. p = []) (get_partitions s)" using f(3) [OF assms(2)] by (auto simp: list_ex_iff)
  ultimately have "get_seqlen_balanced_partitions lens k e = Inr (map sort (get_partitions s))"
    using assms(2) s(1) f(1) by (simp add: get_seqlen_balanced_partitions_def check_and_sort_partitions_def)
  with f assms(2) show thesis by (intro that) auto
qed

lemma tokens_sort [simp]: "tokens lens (sort p) = tokens lens p"
  by (simp add: tokens_def sum_mset_sum_list [symmetric] del: sum_mset_sum_list)

lemma sort_Nil_iff [simp]: "sort p = [] \<longleftrightarrow> p = []"
  by (metis length_0_conv length_sort)

lemma sort_parts:
  "mset (concat (map sort ps)) = mset (concat (ps :: nat list list))" "[] \<in> sort ` set ps \<longleftrightarrow> [] \<in> set ps"
proof -
  show "mset (concat (map sort ps)) = mset (concat ps)" by (induction ps) auto
  show "[] \<in> sort ` set ps \<longleftrightarrow> [] \<in> set ps" by (metis image_iff sort_Nil_iff)
qed

section \<open>Claims\<close>

text \<open>
  C39: The implementation of the differencing method over Python's binary heap refines its
  abstract description. For non-negative lengths, a positive number of parts and, in
  equal-size mode, a divisible number of sequences, it returns the partition of the one
  state that is left when, starting from the initial states, the two states with the
  largest spread (ties broken by the larger first set) are merged again and again.
\<close>

theorem karmarkar_karp_refines:
  assumes "0 < k" and "lens \<noteq> []" and "\<forall>x \<in> set lens. 0 \<le> x" and "e \<longrightarrow> int (length lens) mod k = 0"
  shows "\<exists>s. ldm\<^sup>*\<^sup>* (mset (map (first_state (nat k)) (item_groups lens k e))) {#s#}
    \<and> karmarkar_karp lens k e = Inr (get_partitions s)"
  using karmarkar_karp_final [OF assms] by metis

text \<open>
  Balanced partitions are partitions. For non-negative lengths and at most as many
  parts as sequences (a divisor of their number in equal-size mode) no assertion fails; the
  result has the requested number of parts, each sorted and non-empty, every index occurs
  in exactly one part and once, and in equal-size mode all parts have the same size.
\<close>

theorem balanced_partitions_correct:
  assumes "0 < k" and "k \<le> int (length lens)" and "\<forall>x \<in> set lens. 0 \<le> x"
    and "e \<longrightarrow> int (length lens) mod k = 0"
  shows "\<exists>ps. get_seqlen_balanced_partitions lens k e = Inr ps \<and> int (length ps) = k
    \<and> list_all (\<lambda>p. p \<noteq> [] \<and> sorted p) ps \<and> mset (concat ps) = mset [0..<length lens]
    \<and> (e \<longrightarrow> list_all (\<lambda>p. int (length p) * k = int (length lens)) ps)"
proof -
  obtain ps where ps: "get_seqlen_balanced_partitions lens k e = Inr (map sort ps)" "int (length ps) = k" "[] \<notin> set ps"
    "mset (concat ps) = mset [0..<length lens]"
    "\<And>p. e \<Longrightarrow> p \<in> set ps \<Longrightarrow> int (length p) * k = int (length lens)"
    using balanced_partitions_final [OF assms] by metis
  then show ?thesis
    using sort_parts [of ps] by (intro exI [of _ "map sort ps"]) (auto simp: list_all_iff)
qed

text \<open>
  Balanced partitions are balanced. For non-negative lengths, the token counts of any
  two parts of a result differ by at most the longest sequence.
\<close>

theorem balanced_partitions_spread:
  assumes "get_seqlen_balanced_partitions lens k e = Inr ps" and "0 < k" and "\<forall>x \<in> set lens. 0 \<le> x"
    and "p \<in> set ps" and "q \<in> set ps"
  shows "tokens lens p - tokens lens q \<le> Max (set lens)"
proof -
  have "k \<le> int (length lens)" "e \<longrightarrow> int (length lens) mod k = 0"
    using assms(1,2) by (auto simp: get_seqlen_balanced_partitions_def karmarkar_karp_def split: if_splits)
  then obtain qs where "get_seqlen_balanced_partitions lens k e = Inr (map sort qs)"
    "\<And>p q. p \<in> set qs \<Longrightarrow> q \<in> set qs \<Longrightarrow> tokens lens p - tokens lens q \<le> Max (set lens)"
    using balanced_partitions_final [OF assms(2) _ assms(3)] by metis
  then show ?thesis using assms(1,4,5) by auto
qed

lemma ceildiv_le_iff: "0 < b \<Longrightarrow> ceildiv a b \<le> n \<longleftrightarrow> a \<le> n * b"
  unfolding ceildiv_def by (smt (verit) div_minus_right minus_div_mult_eq_mod minus_mult_left neg_le_iff_le
      nonzero_mult_div_cancel_right pos_mod_bound pos_mod_sign zdiv_mono1 mult_less_cancel_right)

lemma tokens_total:
  assumes "mset (concat ps) = mset [0..<length lens]"
  shows "sum_list (map (tokens lens) ps) = sum_list lens"
proof -
  have "sum_list (map (tokens lens) ps) = sum_list (map (\<lambda>i. lens ! i) (concat ps))"
    by (induction ps) (auto simp: tokens_def)
  also have "\<dots> = sum_list (map (\<lambda>i. lens ! i) [0..<length lens])"
    using assms by (metis mset_map sum_mset_sum_list)
  finally show ?thesis by (simp add: map_nth)
qed

lemma sum_list_ge: "(\<And>x. x \<in> set xs \<Longrightarrow> m \<le> f x) \<Longrightarrow> int (length xs) * m \<le> sum_list (map f xs)"
proof (induction xs)
  case (Cons x xs)
  then have "int (length xs) * m \<le> sum_list (map f xs)" "m \<le> f x" by simp_all
  then show ?case by (simp add: algebra_simps)
qed simp

lemma sort_reverse_by_mset [simp]: "mset (sort_reverse_by f xs) = mset xs" "set (sort_reverse_by f xs) = set xs"
  by (simp_all add: sort_reverse_by_def)

text \<open>
  Splitting a batch. For non-negative lengths with a positive sum, one batch element
  per length, and a group whose gathered (and reduced) number of mini-batches is at least
  this rank's and at most the number of elements, the split succeeds: the mini-batches are
  the batch elements, each exactly once, none is empty, and each holds at most the token
  limit plus the longest sequence, where the limit is raised to the longest sequence.
\<close>

theorem rearrange_mini_batches_correct:
  fixes batch :: "'x list"
  assumes "length batch = length lens" and "\<forall>x \<in> set lens. 0 \<le> x" and "0 < sum_list lens"
    and "num_mini_batches gather allreduce lens max_token_len same_num min_num = Inr num"
    and "ceildiv (sum_list lens) (max max_token_len (Max (set lens))) \<le> num" and "num \<le> int (length lens)"
  shows "\<exists>mbs ps. rearrange_mini_batches gather allreduce batch lens max_token_len same_num min_num balance = Inr (mbs, ps)
    \<and> int (length mbs) = num \<and> mset (concat mbs) = mset batch \<and> [] \<notin> set mbs
    \<and> mbs = map (map (\<lambda>i. batch ! i)) ps
    \<and> list_all (\<lambda>p. tokens lens p \<le> max max_token_len (Max (set lens)) + Max (set lens)) ps"
proof -
  let ?L = "max max_token_len (Max (set lens))" and ?M = "Max (set lens)"
  have ne: "lens \<noteq> []" using assms(3) by auto
  have pos: "0 < ?M"
  proof (rule ccontr)
    assume "\<not> 0 < ?M"
    then have "\<forall>x \<in> set lens. x \<le> 0" by (meson List.finite_set Max_ge linorder_not_less order_trans)
    then have "sum_list lens \<le> 0" by (induction lens) auto
    then show False using assms(3) by simp
  qed
  then have bound: "sum_list lens \<le> num * ?L" using assms(5) by (simp add: ceildiv_le_iff)
  then have num: "0 < num" using assms(3) pos by (smt (verit) mult_nonpos_nonneg)
  obtain rs where rs: "get_seqlen_balanced_partitions lens num False = Inr (map sort rs)" "int (length rs) = num"
    "[] \<notin> set rs" "mset (concat rs) = mset [0..<length lens]"
    "\<And>p q. p \<in> set rs \<Longrightarrow> q \<in> set rs \<Longrightarrow> tokens lens p - tokens lens q \<le> ?M"
    using balanced_partitions_final [OF num assms(6,2), of False] by metis
  define qs where "qs = map sort rs"
  have qs: "get_seqlen_balanced_partitions lens num False = Inr qs" "int (length qs) = num" "[] \<notin> set qs"
    "mset (concat qs) = mset [0..<length lens]"
    "\<And>p q. p \<in> set qs \<Longrightarrow> q \<in> set qs \<Longrightarrow> tokens lens p - tokens lens q \<le> ?M"
    using rs sort_parts [of rs] by (auto simp: qs_def)
  define ps where "ps = (if balance then sort_reverse_by (workload lens) qs else qs)"
  have ps: "mset ps = mset qs" "set ps = set qs" by (simp_all add: ps_def)
  have cat: "mset (concat ps) = mset [0..<length lens]"
    using qs(4) ps(1) by (metis mset_concat mset_map sum_mset_sum_list)
  have idx: "list_all (list_all (\<lambda>i. i < length batch)) ps"
    using mset_eq_setD [OF cat] assms(1) by (fastforce simp: list_all_iff)
  have run: "rearrange_mini_batches gather allreduce batch lens max_token_len same_num min_num balance
      = Inr (map (map (\<lambda>i. batch ! i)) ps, ps)"
    using assms(4,6) qs(1) idx by (simp add: rearrange_mini_batches_def ps_def Let_def)
  have "mset (concat (map (map (\<lambda>i. batch ! i)) ps)) = mset (map (\<lambda>i. batch ! i) (concat ps))"
    by (simp add: map_concat)
  also have "\<dots> = mset (map (\<lambda>i. batch ! i) [0..<length lens])" using cat by (metis mset_map)
  finally have perm: "mset (concat (map (map (\<lambda>i. batch ! i)) ps)) = mset batch"
    using assms(1) by (metis map_nth)
  have "tokens lens p \<le> ?L + ?M" if p: "p \<in> set qs" for p
  proof -
    have "tokens lens p - ?M \<le> tokens lens q" if "q \<in> set qs" for q
      using qs(5) [OF p that] by simp
    then have "num * (tokens lens p - ?M) \<le> sum_list (map (tokens lens) qs)"
      using sum_list_ge [of qs "tokens lens p - ?M" "tokens lens"] qs(2) by simp
    then have "num * (tokens lens p - ?M) \<le> num * ?L"
      using tokens_total [OF qs(4)] bound by simp
    then show ?thesis using num by simp
  qed
  moreover have "length ps = length qs" using ps(1) mset_eq_length by blast
  ultimately show ?thesis
    using run perm qs(2,3) ps(2) by (intro exI) (auto simp: list_all_iff)
qed

section \<open>Evaluation\<close>

theorem karmarkar_karp_refines_witness:
  "\<exists>s. ldm\<^sup>*\<^sup>* (mset (map (first_state 2) (item_groups [3, 1, 2] 2 False))) {#s#}
    \<and> karmarkar_karp [3, 1, 2] 2 False = Inr (get_partitions s)"
  using karmarkar_karp_refines [of 2 "[3, 1, 2]" False] by simp

theorem balanced_partitions_correct_witness:
  "\<exists>ps. get_seqlen_balanced_partitions [4, 1, 3, 2] 2 True = Inr ps \<and> list_all (\<lambda>p. int (length p) * 2 = 4) ps
    \<and> mset (concat ps) = mset [0..<4]"
proof -
  have "\<forall>x \<in> set [4, 1, 3, 2 :: int]. 0 \<le> x" by simp
  from balanced_partitions_correct [of 2 "[4, 1, 3, 2]" True, OF _ _ this]
  show ?thesis by (auto simp: numeral_eq_Suc)
qed

theorem balanced_partitions_spread_witness:
  "get_seqlen_balanced_partitions [4, 1, 3, 2] 2 True = Inr [[2, 3], [0, 1]]
    \<and> tokens [4, 1, 3, 2] [0, 1] - tokens [4, 1, 3, 2] [2, 3] \<le> 4"
proof -
  have run: "get_seqlen_balanced_partitions [4, 1, 3, 2] 2 True = Inr [[2, 3], [0, 1]]" by code_simp
  from balanced_partitions_spread [OF this, of "[0, 1]" "[2, 3]"] run show ?thesis by simp
qed

text \<open>Two sequences of three tokens share a mini-batch although the limit is five.\<close>

theorem rearrange_mini_batches_correct_witness:
  "\<exists>mbs ps. rearrange_mini_batches (\<lambda>n. [n]) None ''abc'' [3, 3, 3] 5 True None True = Inr (mbs, ps)
    \<and> mset (concat mbs) = mset ''abc'' \<and> list_all (\<lambda>p. tokens [3, 3, 3] p \<le> 8) ps"
proof -
  have "num_mini_batches (\<lambda>n. [n]) None [3, 3, 3] 5 True None = Inr 2"
    "ceildiv (sum_list [3, 3, 3]) (max 5 (Max (set [3, 3, 3]))) \<le> 2" by code_simp+
  from rearrange_mini_batches_correct [OF _ _ _ this, of "''abc''" True] show ?thesis by auto
qed

text \<open>
  The token limit is not a bound on a mini-batch: for three sequences of three tokens
  and a limit of five, two of them are put into one mini-batch of six tokens.
\<close>

theorem token_limit_exceeded:
  "\<exists>mbs ps. rearrange_mini_batches (\<lambda>n. [n]) None [a, b, c] [3, 3, 3] 5 True None True = Inr (mbs, ps)
    \<and> \<not> list_all (\<lambda>p. tokens [3, 3, 3] p \<le> 5) ps"
proof -
  have "num_mini_batches (\<lambda>n. [n]) None [3, 3, 3] 5 True None = Inr 2"
    "get_seqlen_balanced_partitions [3, 3, 3] 2 False = Inr [[0, 1], [2]]"
    "sort_reverse_by (workload [3, 3, 3]) [[0, 1], [2]] = [[0, 1], [2]]"
    "\<not> tokens [3, 3, 3] [0, 1] \<le> 5"
    by code_simp+
  then show ?thesis by (simp add: rearrange_mini_batches_def)
qed

end
