(* ===== verification/Load_Balance.thy ===== *)
theory Load_Balance
  imports Prelude
begin

text \<open>
  Load-balanced batching for supervised fine-tuning
  (cosmos_rl/dispatcher/data/load_balanced_dataset.py): the length of a sample, the
  sharding of the dataset over ranks and loader workers, the sample pool, the greedy choice
  of batch members, gradient-accumulation groups, and the iteration with its resume skip and
  its restart at the end of the data. The shuffle of Python's seeded generator is a
  parameter. A sample's fields carry what its length depends on.
\<close>

section \<open>Samples\<close>

datatype field = Seq_Field "int list" | Tensor_Field "nat list" | Sized_Field nat | Plain_Field

type_synonym sample = "(string, field) dict"

fun first_length :: "field list \<Rightarrow> py_error + int" where
  "first_length [] = Inl ValueError"
| "first_length (Tensor_Field (n # _) # fs) = Inr (int n)"
| "first_length (Seq_Field (x # xs) # fs) = Inr (int (length (x # xs)))"
| "first_length (_ # fs) = first_length fs"

definition get_sample_length :: "sample \<Rightarrow> string \<Rightarrow> py_error + int" where
  "get_sample_length s key =
     (case dict_get s key of
        Some (Seq_Field xs) \<Rightarrow> Inr (int (length xs))
      | Some (Tensor_Field []) \<Rightarrow> Inl TypeError
      | Some (Tensor_Field (n # _)) \<Rightarrow> Inr (int n)
      | Some (Sized_Field n) \<Rightarrow> Inr (int n)
      | _ \<Rightarrow> first_length (dict_values s))"

section \<open>Sharding\<close>

text \<open>\<open>ShardedIterableDataset\<close>; \<open>sd_shuffle seed\<close> is what a generator with that seed does to
  the list of indices.\<close>

record sharded =
  sd_data :: "sample list"
  sd_rank :: nat
  sd_world :: nat
  sd_worker :: nat
  sd_workers :: nat
  sd_seed :: int
  sd_epoch :: int
  sd_shuffle :: "int \<Rightarrow> nat list \<Rightarrow> nat list"

definition py_range :: "nat \<Rightarrow> nat \<Rightarrow> nat \<Rightarrow> nat list" where
  "py_range a n s = map (\<lambda>j. a + j * s) [0..<(n - a + s - 1) div s]"

definition shard_indices :: "nat \<Rightarrow> nat \<Rightarrow> nat \<Rightarrow> nat \<Rightarrow> nat \<Rightarrow> nat list" where
  "shard_indices n rank world worker workers = py_range (rank * workers + worker) n (world * workers)"

definition sharded_len :: "sharded \<Rightarrow> nat" where
  "sharded_len b = (length (sd_data b) + sd_world b - 1) div sd_world b"

definition sharded_iter :: "sharded \<Rightarrow> sample list" where
  "sharded_iter b =
     (let shard_id = sd_rank b * sd_workers b + sd_worker b;
          indices = shard_indices (length (sd_data b)) (sd_rank b) (sd_world b) (sd_worker b) (sd_workers b)
      in map (\<lambda>i. sd_data b ! i) (sd_shuffle b (sd_seed b + int shard_id + sd_epoch b * 1000) indices))"

section \<open>The dataset\<close>

record load_balanced =
  lb_base :: sharded
  lb_pool_size :: nat
  lb_max_tokens_for_batch :: int
  lb_length_key :: string
  lb_strategy :: string
  lb_max_tokens_len :: int
  lb_accumulate_steps :: nat
  lb_seq_packing :: bool
  lb_infinite :: bool
  lb_pool :: "sample list"
  lb_iterator :: "sample list option"
  lb_tokens :: int
  lb_samples :: int
  lb_batches :: int
  lb_skip_batches :: nat
  lb_epoch :: int
  lb_epochs_completed :: int

definition lb_init ::
  "sharded \<Rightarrow> nat \<Rightarrow> int \<Rightarrow> string \<Rightarrow> string \<Rightarrow> int option \<Rightarrow> bool \<Rightarrow> int \<Rightarrow> bool \<Rightarrow> py_error + load_balanced" where
  "lb_init base pool_size max_tokens key strategy max_len packing accumulate looping =
     (if accumulate < 1 then Inl ValueError
      else Inr \<lparr>lb_base = base\<lparr>sd_epoch := 0\<rparr>, lb_pool_size = pool_size, lb_max_tokens_for_batch = max_tokens,
        lb_length_key = key, lb_strategy = strategy,
        lb_max_tokens_len = (case max_len of None \<Rightarrow> max_tokens | Some m \<Rightarrow> if m = 0 then max_tokens else m),
        lb_accumulate_steps = nat accumulate, lb_seq_packing = packing, lb_infinite = looping, lb_pool = [],
        lb_iterator = None, lb_tokens = 0, lb_samples = 0, lb_batches = 0, lb_skip_batches = 0,
        lb_epoch = 0, lb_epochs_completed = 0\<rparr>)"

definition lb_len :: "load_balanced \<Rightarrow> nat" where
  "lb_len d =
     (let base_len = sharded_len (lb_base d)
      in if base_len = 0 then 0
         else if 1 < lb_accumulate_steps d
         then (base_len + lb_accumulate_steps d - 1) div lb_accumulate_steps d
         else base_len)"

definition sample_len :: "load_balanced \<Rightarrow> sample \<Rightarrow> py_error + int" where
  "sample_len d s = get_sample_length s (lb_length_key d)"

definition get_next_sample :: "load_balanced \<Rightarrow> sample option \<times> load_balanced" where
  "get_next_sample d =
     (case lb_iterator d of
        Some (x # xs) \<Rightarrow> (Some x, d\<lparr>lb_iterator := Some xs\<rparr>)
      | _ \<Rightarrow> (None, d))"

definition lb_set_epoch :: "int \<Rightarrow> load_balanced \<Rightarrow> load_balanced" where
  "lb_set_epoch e d = d\<lparr>lb_epoch := e, lb_base := (lb_base d)\<lparr>sd_epoch := e\<rparr>\<rparr>"

definition lb_skip :: "nat \<Rightarrow> load_balanced \<Rightarrow> load_balanced" where
  "lb_skip n d = d\<lparr>lb_skip_batches := n\<rparr>"

definition recreate_iterator :: "load_balanced \<Rightarrow> load_balanced" where
  "recreate_iterator d =
     (let e = lb_epoch d + 1; base = (lb_base d)\<lparr>sd_epoch := e\<rparr>
      in d\<lparr>lb_epochs_completed := lb_epochs_completed d + 1, lb_epoch := e, lb_base := base,
           lb_iterator := Some (sharded_iter base)\<rparr>)"

definition next_or_restart :: "load_balanced \<Rightarrow> sample option \<times> load_balanced" where
  "next_or_restart d =
     (case get_next_sample d of
        (Some x, d) \<Rightarrow> (Some x, d)
      | (None, d) \<Rightarrow> if lb_infinite d then get_next_sample (recreate_iterator d) else (None, d))"

lemma next_or_restart_frame:
  "next_or_restart d = (r, d') \<Longrightarrow> lb_pool d' = lb_pool d \<and> lb_pool_size d' = lb_pool_size d"
  by (auto simp: next_or_restart_def get_next_sample_def recreate_iterator_def Let_def
      split: option.splits list.splits if_splits)

function fill_pool :: "load_balanced \<Rightarrow> load_balanced" where
  "fill_pool d =
     (if length (lb_pool d) < lb_pool_size d
      then case next_or_restart d of
          (None, d') \<Rightarrow> d'
        | (Some x, d') \<Rightarrow> fill_pool (d'\<lparr>lb_pool := lb_pool d' @ [x]\<rparr>)
      else d)"
  by auto
termination
  by (relation "measure (\<lambda>d. lb_pool_size d - length (lb_pool d))")
    (auto dest!: next_or_restart_frame [OF sym])

declare fill_pool.simps [simp del]

section \<open>Choosing the members of a batch\<close>

definition first_step ::
  "load_balanced \<Rightarrow> int \<Rightarrow> int \<Rightarrow> nat \<times> sample \<Rightarrow> (nat \<times> int) option \<Rightarrow> py_error + (nat \<times> int) option" where
  "first_step d cur_max num x best =
     bindR (sample_len d (snd x)) (\<lambda>len.
     let new_total = max cur_max len * (num + 1)
     in Inr (if new_total \<le> lb_max_tokens_for_batch d
               \<and> (case best of None \<Rightarrow> True | Some (_, b) \<Rightarrow> new_total < b)
             then Some (fst x, new_total) else best))"

definition find_best_candidate_prefer_first :: "load_balanced \<Rightarrow> int \<Rightarrow> int \<Rightarrow> py_error + nat option" where
  "find_best_candidate_prefer_first d cur_max num =
     bindR (forR (zip [0..<length (lb_pool d)] (lb_pool d)) (first_step d cur_max num) None) (\<lambda>best.
     Inr (map_option fst best))"

definition closest_step ::
  "load_balanced \<Rightarrow> int \<Rightarrow> int \<Rightarrow> nat \<times> sample \<Rightarrow> (nat \<times> int \<times> int) option
     \<Rightarrow> py_error + (nat \<times> int \<times> int) option" where
  "closest_step d cur_max num x best =
     bindR (sample_len d (snd x)) (\<lambda>len.
     let new_total = max cur_max len * (num + 1); diff = \<bar>len - cur_max\<bar>
     in Inr (if new_total \<le> lb_max_tokens_for_batch d
               \<and> (case best of None \<Rightarrow> True
                   | Some (_, b, sd) \<Rightarrow> new_total < b \<or> (new_total = b \<and> diff < sd))
             then Some (fst x, new_total, diff) else best))"

definition find_best_candidate_prefer_closest :: "load_balanced \<Rightarrow> int \<Rightarrow> int \<Rightarrow> py_error + nat option" where
  "find_best_candidate_prefer_closest d cur_max num =
     bindR (forR (zip [0..<length (lb_pool d)] (lb_pool d)) (closest_step d cur_max num) None) (\<lambda>best.
     Inr (map_option fst best))"

definition sum_lengths :: "load_balanced \<Rightarrow> sample list \<Rightarrow> py_error + int" where
  "sum_lengths d ss = forR ss (\<lambda>s acc. bindR (sample_len d s) (\<lambda>len. Inr (acc + len))) 0"

fun first_fitting :: "load_balanced \<Rightarrow> int \<Rightarrow> nat \<Rightarrow> sample list \<Rightarrow> py_error + nat option" where
  "first_fitting d total_tokens i [] = Inr None"
| "first_fitting d total_tokens i (s # ss) =
     bindR (sample_len d s) (\<lambda>len.
     if lb_max_tokens_for_batch d < total_tokens + len then first_fitting d total_tokens (Suc i) ss
     else Inr (Some i))"

definition find_best_candidate_seq_packing :: "load_balanced \<Rightarrow> sample list \<Rightarrow> py_error + nat option" where
  "find_best_candidate_seq_packing d chosen =
     (if lb_pool d = [] then Inr None
      else bindR (sum_lengths d chosen) (\<lambda>t. first_fitting d t 0 (lb_pool d)))"

definition find_best_candidate :: "load_balanced \<Rightarrow> int \<Rightarrow> sample list \<Rightarrow> py_error + nat option" where
  "find_best_candidate d cur_max chosen =
     (if lb_seq_packing d then find_best_candidate_seq_packing d chosen
      else if lb_strategy d = ''prefer_closest''
      then find_best_candidate_prefer_closest d cur_max (int (length chosen))
      else find_best_candidate_prefer_first d cur_max (int (length chosen)))"

text \<open>\<open>deque.rotate\<close> to the left and to the right.\<close>

definition rotate_right :: "nat \<Rightarrow> 'a list \<Rightarrow> 'a list" where
  "rotate_right k xs = rotate (length xs - k mod length xs) xs"

definition remove_from_pool :: "nat \<Rightarrow> 'a list \<Rightarrow> 'a \<times> 'a list" where
  "remove_from_pool idx pool =
     (if idx = 0 then (hd pool, tl pool)
      else if idx = length pool - 1 then (last pool, butlast pool)
      else let p = rotate idx pool in (hd p, rotate_right idx (tl p)))"

lemma remove_from_pool_length [simp]: "length (snd (remove_from_pool i pool)) = length pool - 1"
  by (simp add: remove_from_pool_def rotate_right_def Let_def)

function grow_batch :: "load_balanced \<Rightarrow> sample list \<Rightarrow> int
    \<Rightarrow> (py_error \<times> load_balanced) + (sample list \<times> int \<times> load_balanced)" where
  "grow_batch d chosen cur_max =
     (if lb_pool d = [] then Inr (chosen, cur_max, d)
      else case find_best_candidate d cur_max chosen of
          Inl e \<Rightarrow> Inl (e, d)
        | Inr None \<Rightarrow> Inr (chosen, cur_max, d)
        | Inr (Some i) \<Rightarrow>
            (let cand = fst (remove_from_pool i (lb_pool d));
                 d = d\<lparr>lb_pool := snd (remove_from_pool i (lb_pool d))\<rparr>
             in case sample_len d cand of
                  Inl e \<Rightarrow> Inl (e, d)
                | Inr len \<Rightarrow> grow_batch d (chosen @ [cand]) (max cur_max len)))"
  by auto
termination
  by (relation "measure (\<lambda>(d, c, m). length (lb_pool d))") auto

declare grow_batch.simps [simp del]

definition best_fit_batch :: "load_balanced
    \<Rightarrow> (py_error \<times> load_balanced) + (sample list \<times> load_balanced)" where
  "best_fit_batch d0 =
     (let d = fill_pool d0 in
      case lb_pool d of
        [] \<Rightarrow> Inl (StopIteration, d)
      | seed # rest \<Rightarrow>
          let d = d\<lparr>lb_pool := rest\<rparr> in
          (case sample_len d seed of
             Inl e \<Rightarrow> Inl (e, d)
           | Inr len \<Rightarrow>
               if lb_max_tokens_len d \<le> len \<or> lb_max_tokens_for_batch d \<le> len then Inr ([seed], d)
               else bindR (grow_batch d [seed] len) (\<lambda>(chosen, cur_max, d).
                 bindR (if lb_seq_packing d
                        then (case sum_lengths d chosen of Inl e \<Rightarrow> Inl (e, d) | Inr t \<Rightarrow> Inr t)
                        else Inr (cur_max * int (length chosen))) (\<lambda>total_tokens.
                 Inr (chosen, d\<lparr>lb_tokens := lb_tokens d + total_tokens,
                    lb_samples := lb_samples d + int (length chosen), lb_batches := lb_batches d + 1\<rparr>)))))"

section \<open>Iteration\<close>

fun build_batches :: "nat \<Rightarrow> sample list list \<Rightarrow> load_balanced
    \<Rightarrow> (py_error \<times> load_balanced) + (sample list list \<times> load_balanced)" where
  "build_batches 0 acc d = Inr (acc, d)"
| "build_batches (Suc n) acc d =
     (case best_fit_batch d of
        Inr (b, d) \<Rightarrow> build_batches n (acc @ [b]) d
      | Inl (e, d) \<Rightarrow>
          if e \<noteq> StopIteration then Inl (e, d)
          else
            let d = fill_pool d in
            if lb_pool d = [] then Inr (acc, d)
            else case best_fit_batch d of
              Inr (b, d) \<Rightarrow> build_batches n (acc @ [b]) d
            | Inl (e, d) \<Rightarrow> if e \<noteq> StopIteration then Inl (e, d) else Inr (acc, d))"

definition build_accumulated_batches :: "load_balanced
    \<Rightarrow> (py_error \<times> load_balanced) + (sample list list \<times> load_balanced)" where
  "build_accumulated_batches d = build_batches (lb_accumulate_steps d) [] d"

text \<open>One round of the loops of \<open>__iter__\<close>: the group of batches, or none when it stops.\<close>

definition next_group :: "load_balanced
    \<Rightarrow> (py_error \<times> load_balanced) + (sample list list option \<times> load_balanced)" where
  "next_group d =
     bindR (build_accumulated_batches d) (\<lambda>(bs, d).
     if bs \<noteq> [] then Inr (Some bs, d)
     else if lb_infinite d
     then bindR (build_accumulated_batches (recreate_iterator d)) (\<lambda>(bs, d).
            Inr (if bs \<noteq> [] then Some bs else None, d))
     else Inr (None, d))"

fun skip_groups :: "nat \<Rightarrow> load_balanced \<Rightarrow> load_balanced outcome" where
  "skip_groups 0 d = Inr d"
| "skip_groups (Suc n) d =
     bindR (next_group d) (\<lambda>(g, d). if g = None then Inr d else skip_groups n d)"

definition start_iteration :: "load_balanced \<Rightarrow> load_balanced outcome" where
  "start_iteration d =
     (let base = (lb_base d)\<lparr>sd_epoch := lb_epoch d\<rparr>;
          d = d\<lparr>lb_base := base, lb_iterator := Some (sharded_iter base), lb_pool := []\<rparr>
      in if 0 < lb_skip_batches d
         then bindR (skip_groups (lb_skip_batches d) d) (\<lambda>d. Inr (d\<lparr>lb_skip_batches := 0\<rparr>))
         else Inr d)"

text \<open>The first \<open>n\<close> yields of the generator; it stops early when a round yields nothing.\<close>

fun yields :: "nat \<Rightarrow> load_balanced \<Rightarrow> (py_error \<times> load_balanced) + (sample list list list \<times> load_balanced)" where
  "yields 0 d = Inr ([], d)"
| "yields (Suc n) d =
     bindR (next_group d) (\<lambda>(g, d).
     case g of
       None \<Rightarrow> Inr ([], d)
     | Some bs \<Rightarrow> bindR (yields n d) (\<lambda>(gs, d). Inr (bs # gs, d)))"

end
