(* ===== verification/Load_Balance_Lemmas.thy ===== *)
theory Load_Balance_Lemmas
  imports Load_Balance
begin

text \<open>
  Correctness of the load-balanced dataset: the shards partition the data, removing by
  rotation removes the indexed element, a batch stays within its token budget, an epoch
  delivers every sample of the shard once and then stops, and in looping mode the iteration
  never stops.
\<close>

section \<open>Shards\<close>

lemma ceil_less_iff: "0 < s \<Longrightarrow> j < (m + s - 1) div s \<longleftrightarrow> j * s < (m :: nat)"
  by (simp add: Suc_le_eq [symmetric] less_eq_div_iff_mult_less_eq) linarith

lemma py_range_set: "a < s \<Longrightarrow> set (py_range a n s) = {i. i < n \<and> i mod s = a}"
proof (intro set_eqI iffI)
  fix i assume a: "a < s" and "i \<in> set (py_range a n s)"
  then obtain j where "j < (n - a + s - 1) div s" "i = a + j * s"
    by (auto simp: py_range_def)
  then show "i \<in> {i. i < n \<and> i mod s = a}"
    using a ceil_less_iff [of s j "n - a"] by auto
next
  fix i assume a: "a < s" and i: "i \<in> {i. i < n \<and> i mod s = a}"
  then have "i = a + i div s * s" by (metis (mono_tags, lifting) add.commute div_mult_mod_eq mem_Collect_eq)
  moreover have "i div s < (n - a + s - 1) div s"
  proof -
    have "i div s * s < n - a" using i calculation by (simp, linarith)
    then show ?thesis using a ceil_less_iff [of s "i div s" "n - a"] by simp
  qed
  ultimately show "i \<in> set (py_range a n s)"
    by (auto simp: py_range_def)
qed

lemma py_range_distinct: "0 < s \<Longrightarrow> distinct (py_range a n s)"
  by (simp add: py_range_def distinct_map inj_on_def)

lemma strides_partition:
  assumes "0 < s"
  shows "mset (concat (map (\<lambda>a. py_range a n s) [0..<s])) = mset [0..<n]"
proof -
  have "distinct (concat (map (\<lambda>a. py_range a n s) as))" if "set as \<subseteq> {..<s}" "distinct as" for as
    using that assms
  proof (induction as)
    case (Cons a as)
    have "set (py_range a n s) \<inter> set (py_range b n s) = {}" if "b \<in> set as" for b
      using Cons.prems that by (auto simp: py_range_set)
    then show ?case using Cons by (auto simp: py_range_distinct)
  qed simp
  then have "distinct (concat (map (\<lambda>a. py_range a n s) [0..<s]))"
    by (simp add: atLeast0LessThan)
  moreover have "set (concat (map (\<lambda>a. py_range a n s) [0..<s])) = set [0..<n]"
    using assms by (auto simp: py_range_set)
  ultimately show ?thesis by (metis distinct_upt set_eq_iff_mset_eq_distinct)
qed

lemma shard_ids: "concat (map (\<lambda>r. map (\<lambda>w. r * k + w) [0..<k]) [0..<m]) = [0..<m * k]"
proof (induction m)
  case (Suc m)
  have "map (\<lambda>w. m * k + w) [0..<k] = [m * k..<m * k + k]"
    by (intro nth_equalityI) auto
  moreover have "[0..<Suc m * k] = [0..<m * k] @ [m * k..<m * k + k]"
    using upt_add_eq_append [of 0 "m * k" k] by (simp add: add.commute)
  ultimately show ?case using Suc by simp
qed simp

section \<open>Loops that may raise\<close>

lemma forR_inv:
  assumes "forR xs f s = Inr s'" and "I s" and "\<And>x s s'. x \<in> set xs \<Longrightarrow> I s \<Longrightarrow> f x s = Inr s' \<Longrightarrow> I s'"
  shows "I s'"
  using assms by (induction xs arbitrary: s) (auto simp: bindR_Inr_iff)

lemma forR_ok:
  assumes "\<And>x s. x \<in> set xs \<Longrightarrow> \<exists>s'. f x s = Inr s'"
  shows "\<exists>s'. forR xs f s = Inr s'"
  using assms
proof (induction xs arbitrary: s)
  case (Cons x xs)
  obtain s' where "f x s = Inr s'" using Cons.prems [of x s] by auto
  with Cons show ?case by simp
qed simp

section \<open>The pool\<close>

lemma remove_from_pool_nth:
  assumes "i < length pool"
  shows "remove_from_pool i pool = (pool ! i, take i pool @ drop (Suc i) pool)"
proof -
  consider "i = 0" | "i \<noteq> 0" "i = length pool - 1" | "0 < i" "i < length pool - 1"
    using assms by linarith
  then show ?thesis
  proof cases
    case 1
    then show ?thesis using assms by (simp add: remove_from_pool_def hd_conv_nth drop_Suc)
  next
    case 2
    moreover have "pool \<noteq> []" using assms by auto
    ultimately show ?thesis using assms by (simp add: remove_from_pool_def last_conv_nth butlast_conv_take)
  next
    case 3
    have rot: "rotate i pool = drop i pool @ take i pool"
      using assms by (simp add: rotate_drop_take)
    have "tl (rotate i pool) = drop (Suc i) pool @ take i pool"
      using assms by (simp add: rot drop_Suc tl_append2 tl_drop [symmetric] del: tl_drop)
    moreover have "rotate_right i (drop (Suc i) pool @ take i pool) = take i pool @ drop (Suc i) pool"
      using 3 by (simp add: rotate_right_def rotate_drop_take)
    moreover have "hd (rotate i pool) = pool ! i"
      using assms by (simp add: rot hd_append hd_drop_conv_nth)
    ultimately show ?thesis using 3 by (simp add: remove_from_pool_def Let_def)
  qed
qed

lemma remove_from_pool_mset:
  "i < length pool \<Longrightarrow> add_mset (fst (remove_from_pool i pool)) (mset (snd (remove_from_pool i pool))) = mset pool"
  by (simp add: remove_from_pool_nth) (metis id_take_nth_drop mset.simps(2) mset_append union_mset_add_mset_right)

definition same_cfg :: "load_balanced \<Rightarrow> load_balanced \<Rightarrow> bool" where
  "same_cfg d d' \<longleftrightarrow> lb_pool_size d' = lb_pool_size d \<and> lb_max_tokens_for_batch d' = lb_max_tokens_for_batch d
     \<and> lb_length_key d' = lb_length_key d \<and> lb_strategy d' = lb_strategy d
     \<and> lb_max_tokens_len d' = lb_max_tokens_len d \<and> lb_accumulate_steps d' = lb_accumulate_steps d
     \<and> lb_seq_packing d' = lb_seq_packing d \<and> lb_infinite d' = lb_infinite d
     \<and> (lb_base d')\<lparr>sd_epoch := 0\<rparr> = (lb_base d)\<lparr>sd_epoch := 0\<rparr>"

lemma same_cfg_refl [simp]: "same_cfg d d"
  by (simp add: same_cfg_def)

lemma same_cfg_trans [trans]: "same_cfg d d' \<Longrightarrow> same_cfg d' d'' \<Longrightarrow> same_cfg d d''"
  by (simp add: same_cfg_def)

lemma same_cfg_updates [simp]:
  "same_cfg d (d'\<lparr>lb_pool := p\<rparr>) = same_cfg d d'" "same_cfg d (d'\<lparr>lb_iterator := it\<rparr>) = same_cfg d d'"
  "same_cfg d (d'\<lparr>lb_tokens := t, lb_samples := s, lb_batches := b\<rparr>) = same_cfg d d'"
  "same_cfg d (recreate_iterator d') = same_cfg d d'"
  by (simp_all add: same_cfg_def recreate_iterator_def Let_def)

lemma sample_len_cfg: "same_cfg d d' \<Longrightarrow> sample_len d' = sample_len d"
  by (simp add: sample_len_def same_cfg_def fun_eq_iff)

lemma next_or_restart_cfg: "next_or_restart d = (r, d') \<Longrightarrow> same_cfg d d'"
  by (auto simp: next_or_restart_def get_next_sample_def split: option.splits list.splits if_splits)

lemma fill_pool_cfg: "same_cfg d (fill_pool d)"
proof (induction d rule: fill_pool.induct)
  case (1 d)
  show ?case
  proof (cases "length (lb_pool d) < lb_pool_size d")
    case True
    obtain r d' where n: "next_or_restart d = (r, d')" by fastforce
    show ?thesis
    proof (cases r)
      case None
      then show ?thesis using True n next_or_restart_cfg by (subst fill_pool.simps) auto
    next
      case (Some x)
      have "same_cfg (d'\<lparr>lb_pool := lb_pool d' @ [x]\<rparr>) (fill_pool (d'\<lparr>lb_pool := lb_pool d' @ [x]\<rparr>))"
        using 1 [OF True] n Some by simp
      moreover have "same_cfg d (d'\<lparr>lb_pool := lb_pool d' @ [x]\<rparr>)" using next_or_restart_cfg [OF n] by simp
      ultimately have "same_cfg d (fill_pool (d'\<lparr>lb_pool := lb_pool d' @ [x]\<rparr>))"
        using same_cfg_trans by blast
      then show ?thesis
        using True n Some by (subst fill_pool.simps) simp
    qed
  qed (subst fill_pool.simps, simp)
qed

section \<open>The budget\<close>

definition cost :: "load_balanced \<Rightarrow> sample list \<Rightarrow> int" where
  "cost d b =
     (let lens = map (\<lambda>s. case sample_len d s of Inr l \<Rightarrow> l | Inl _ \<Rightarrow> 0) b
      in if lb_seq_packing d then sum_list lens else Max (set lens) * int (length b))"

abbreviation fits :: "load_balanced \<Rightarrow> int \<Rightarrow> int \<Rightarrow> sample \<Rightarrow> bool" where
  "fits d cur_max num s \<equiv> \<exists>len. sample_len d s = Inr len \<and> max cur_max len * (num + 1) \<le> lb_max_tokens_for_batch d"

lemma prefer_first_fits:
  assumes "find_best_candidate_prefer_first d cur_max num = Inr (Some i)"
  shows "i < length (lb_pool d) \<and> fits d cur_max num (lb_pool d ! i)"
proof -
  let ?I = "\<lambda>best. \<forall>i t. best = Some (i, t) \<longrightarrow> i < length (lb_pool d) \<and> fits d cur_max num (lb_pool d ! i)"
  obtain best where b: "forR (zip [0..<length (lb_pool d)] (lb_pool d)) (first_step d cur_max num) None = Inr best"
    "map_option fst best = Some i"
    using assms by (auto simp: find_best_candidate_prefer_first_def)
  have "?I best"
    by (rule forR_inv [OF b(1)]) (auto simp: first_step_def Let_def set_zip elim!: bindR_InrE split: if_splits)
  with b(2) show ?thesis by auto
qed

lemma prefer_closest_fits:
  assumes "find_best_candidate_prefer_closest d cur_max num = Inr (Some i)"
  shows "i < length (lb_pool d) \<and> fits d cur_max num (lb_pool d ! i)"
proof -
  let ?I = "\<lambda>best. \<forall>i t. best = Some (i, t) \<longrightarrow> i < length (lb_pool d) \<and> fits d cur_max num (lb_pool d ! i)"
  obtain best where b: "forR (zip [0..<length (lb_pool d)] (lb_pool d)) (closest_step d cur_max num) None = Inr best"
    "map_option fst best = Some i"
    using assms by (auto simp: find_best_candidate_prefer_closest_def)
  have "?I best"
    by (rule forR_inv [OF b(1)]) (auto simp: closest_step_def Let_def set_zip elim!: bindR_InrE split: if_splits)
  with b(2) show ?thesis by auto
qed

lemma first_fitting_fits:
  "first_fitting d t i ss = Inr (Some j) \<Longrightarrow> i \<le> j \<and> j < i + length ss
     \<and> (\<exists>len. sample_len d (ss ! (j - i)) = Inr len \<and> t + len \<le> lb_max_tokens_for_batch d)"
proof (induction ss arbitrary: i)
  case (Cons s ss)
  then obtain len where len: "sample_len d s = Inr len"
    "(if lb_max_tokens_for_batch d < t + len then first_fitting d t (Suc i) ss else Inr (Some i)) = Inr (Some j)"
    by (auto elim!: bindR_InrE)
  show ?case
  proof (cases "lb_max_tokens_for_batch d < t + len")
    case True
    then have "first_fitting d t (Suc i) ss = Inr (Some j)" using len(2) by simp
    from Cons.IH [OF this] show ?thesis by (auto simp: nth_Cons')
  next
    case False
    then show ?thesis using len by auto
  qed
qed simp

lemma sum_lengths_append:
  "sum_lengths d (ss @ [s]) = bindR (sum_lengths d ss) (\<lambda>t. bindR (sample_len d s) (\<lambda>len. Inr (t + len)))"
proof -
  have "bindR m Inr = m" for m :: "py_error + int" by (cases m) auto
  moreover have "forR [s] (\<lambda>s acc. bindR (sample_len d s) (\<lambda>len. Inr (acc + len)))
      = (\<lambda>t. bindR (sample_len d s) (\<lambda>len. Inr (t + len)))"
    by (auto simp: fun_eq_iff bindR_def split: sum.splits)
  ultimately show ?thesis by (simp add: sum_lengths_def forR_append)
qed

text \<open>What the batch under construction satisfies.\<close>

definition batch_ok :: "load_balanced \<Rightarrow> sample list \<Rightarrow> int \<Rightarrow> bool" where
  "batch_ok d chosen cur_max \<longleftrightarrow> chosen \<noteq> []
     \<and> (\<exists>lens. map (sample_len d) chosen = map Inr lens \<and> cur_max = Max (set lens)
          \<and> (if lb_seq_packing d then sum_lengths d chosen = Inr (sum_list lens) \<and> sum_list lens \<le> lb_max_tokens_for_batch d
             else cur_max * int (length chosen) \<le> lb_max_tokens_for_batch d))"

lemma batch_ok_cfg: "same_cfg d d' \<Longrightarrow> batch_ok d' = batch_ok d"
proof -
  assume c: "same_cfg d d'"
  then have "sum_lengths d' = sum_lengths d"
    by (simp add: fun_eq_iff sum_lengths_def sample_len_cfg [OF c])
  then show ?thesis
    using c by (simp add: fun_eq_iff batch_ok_def sample_len_cfg [OF c]) (simp add: same_cfg_def)
qed

lemma batch_ok_cost: "batch_ok d b m \<Longrightarrow> cost d b \<le> lb_max_tokens_for_batch d"
proof -
  assume "batch_ok d b m"
  then obtain lens where l: "b \<noteq> []" "map (sample_len d) b = map Inr lens" "m = Max (set lens)"
    "if lb_seq_packing d then sum_lengths d b = Inr (sum_list lens) \<and> sum_list lens \<le> lb_max_tokens_for_batch d
     else m * int (length b) \<le> lb_max_tokens_for_batch d"
    unfolding batch_ok_def by blast
  have "map (\<lambda>s. case sample_len d s of Inr l \<Rightarrow> l | Inl _ \<Rightarrow> 0) b = lens"
    using l(2)
  proof (induction b arbitrary: lens)
    case (Cons s b)
    then show ?case by (cases lens) auto
  qed simp
  then show ?thesis using l by (simp add: cost_def Let_def split: if_splits)
qed

lemma find_best_candidate_ok:
  assumes "find_best_candidate d m chosen = Inr (Some i)" and "batch_ok d chosen m" and "lb_pool d \<noteq> []"
  shows "i < length (lb_pool d)"
    and "\<exists>len. sample_len d (lb_pool d ! i) = Inr len \<and> batch_ok d (chosen @ [lb_pool d ! i]) (max m len)"
proof -
  let ?s = "lb_pool d ! i"
  obtain lens where l: "map (sample_len d) chosen = map Inr lens" "m = Max (set lens)" "chosen \<noteq> []"
    "if lb_seq_packing d then sum_lengths d chosen = Inr (sum_list lens) \<and> sum_list lens \<le> lb_max_tokens_for_batch d
     else m * int (length chosen) \<le> lb_max_tokens_for_batch d"
    using assms(2) unfolding batch_ok_def by blast
  have ne: "lens \<noteq> []" using l(1,3) by auto
  have cur: "Max (set (lens @ [len])) = max m len" for len
    using ne by (simp add: l(2) max.commute)
  have "i < length (lb_pool d) \<and> (\<exists>len. sample_len d ?s = Inr len \<and> batch_ok d (chosen @ [?s]) (max m len))"
  proof (cases "lb_seq_packing d")
    case True
    then have "first_fitting d (sum_list lens) 0 (lb_pool d) = Inr (Some i)"
      using assms(1,3) l(4) by (simp add: find_best_candidate_def find_best_candidate_seq_packing_def)
    from first_fitting_fits [OF this] obtain len where len: "i < length (lb_pool d)" "sample_len d ?s = Inr len"
      "sum_list lens + len \<le> lb_max_tokens_for_batch d" by auto
    have "batch_ok d (chosen @ [?s]) (max m len)"
      unfolding batch_ok_def using True len l(1,4) cur
      by (auto simp: sum_lengths_append intro!: exI [of _ "lens @ [len]"])
    then show ?thesis using len by blast
  next
    case False
    then have "i < length (lb_pool d) \<and> fits d m (int (length chosen)) ?s"
      using assms(1) prefer_first_fits prefer_closest_fits by (simp add: find_best_candidate_def split: if_splits)
    then obtain len where len: "i < length (lb_pool d)" "sample_len d ?s = Inr len"
      "max m len * (int (length chosen) + 1) \<le> lb_max_tokens_for_batch d" by blast
    have "batch_ok d (chosen @ [?s]) (max m len)"
      unfolding batch_ok_def using False len l(1) cur
      by (auto simp: add.commute intro!: exI [of _ "lens @ [len]"])
    then show ?thesis using len by blast
  qed
  then show "i < length (lb_pool d)"
    "\<exists>len. sample_len d ?s = Inr len \<and> batch_ok d (chosen @ [?s]) (max m len)" by blast+
qed

lemma grow_batch_spec:
  assumes "grow_batch d chosen m = Inr (b, m', d')" and "batch_ok d chosen m"
  shows "batch_ok d b m' \<and> same_cfg d d' \<and> lb_iterator d' = lb_iterator d
    \<and> mset b + mset (lb_pool d') = mset chosen + mset (lb_pool d)"
  using assms
proof (induction d chosen m rule: grow_batch.induct)
  case (1 d chosen m)
  show ?case
  proof (cases "lb_pool d = [] \<or> find_best_candidate d m chosen = Inr None")
    case True
    then show ?thesis using 1(2,3) by (auto simp: grow_batch.simps [of d chosen m] split: if_splits)
  next
    case False
    then obtain i where i: "find_best_candidate d m chosen = Inr (Some i)"
      using 1(2) by (cases "find_best_candidate d m chosen") (auto simp: grow_batch.simps [of d chosen m] split: if_splits)
    note ok = find_best_candidate_ok [OF i 1(3)]
    obtain len where len: "i < length (lb_pool d)" "sample_len d (lb_pool d ! i) = Inr len"
      "batch_ok d (chosen @ [lb_pool d ! i]) (max m len)"
      using ok False by blast
    let ?d = "d\<lparr>lb_pool := snd (remove_from_pool i (lb_pool d))\<rparr>"
    have c: "same_cfg d ?d" by simp
    have cand: "fst (remove_from_pool i (lb_pool d)) = lb_pool d ! i"
      using len(1) by (simp add: remove_from_pool_nth)
    have run: "grow_batch ?d (chosen @ [lb_pool d ! i]) (max m len) = Inr (b, m', d')"
      using 1(2) False i len(2) cand sample_len_cfg [OF c] by (simp add: grow_batch.simps [of d chosen m])
    have "batch_ok ?d b m' \<and> same_cfg ?d d' \<and> lb_iterator d' = lb_iterator ?d
      \<and> mset b + mset (lb_pool d') = mset (chosen @ [lb_pool d ! i]) + mset (lb_pool ?d)"
      using 1(1) [OF _ i refl refl refl _ ] False cand len run sample_len_cfg [OF c] batch_ok_cfg [OF c] by simp
    then show ?thesis
      using batch_ok_cfg [OF c] remove_from_pool_mset [OF len(1)] cand same_cfg_trans [OF c, of d'] by auto
  qed
qed

lemma best_fit_batch_spec:
  assumes "best_fit_batch d = Inr (b, d')"
  shows "b \<noteq> [] \<and> same_cfg d d' \<and> (length b = 1 \<or> cost d b \<le> lb_max_tokens_for_batch d)
    \<and> lb_iterator d' = lb_iterator (fill_pool d) \<and> mset b + mset (lb_pool d') = mset (lb_pool (fill_pool d))"
proof -
  let ?d = "fill_pool d"
  have c: "same_cfg d ?d" by (rule fill_pool_cfg)
  obtain seed rest where pool: "lb_pool ?d = seed # rest"
    using assms by (cases "lb_pool ?d") (auto simp: best_fit_batch_def)
  let ?e = "?d\<lparr>lb_pool := rest\<rparr>"
  have e: "same_cfg d ?e" using c by simp
  obtain len where len: "sample_len ?e seed = Inr len"
    using assms pool by (cases "sample_len ?e seed") (auto simp: best_fit_batch_def)
  show ?thesis
  proof (cases "lb_max_tokens_len ?e \<le> len \<or> lb_max_tokens_for_batch ?e \<le> len")
    case True
    then have "b = [seed]" "d' = ?e" using assms pool len by (auto simp: best_fit_batch_def)
    then show ?thesis using e pool by simp
  next
    case False
    then obtain m d2 where g: "grow_batch ?e [seed] len = Inr (b, m, d2)"
      and d': "same_cfg d2 d'" "lb_iterator d' = lb_iterator d2" "lb_pool d' = lb_pool d2"
      using assms pool len by (auto simp: best_fit_batch_def Let_def elim!: bindR_InrE split: sum.splits if_splits)
    have "batch_ok ?e [seed] len"
      using False len by (auto simp: batch_ok_def sum_lengths_def intro!: exI [of _ "[len]"])
    from grow_batch_spec [OF g this] have s: "batch_ok ?e b m" "same_cfg ?e d2" "lb_iterator d2 = lb_iterator ?e"
      "mset b + mset (lb_pool d2) = mset [seed] + mset (lb_pool ?e)" by blast+
    have "batch_ok d b m" using s(1) batch_ok_cfg [OF e] by simp
    then have "b \<noteq> []" "cost d b \<le> lb_max_tokens_for_batch d"
      using batch_ok_cost by (auto simp: batch_ok_def)
    moreover have "same_cfg d d'" using same_cfg_trans [OF same_cfg_trans [OF e s(2)] d'(1)] .
    ultimately show ?thesis using s(3,4) d'(2,3) pool by simp
  qed
qed

lemma cost_cfg: "same_cfg d d' \<Longrightarrow> cost d' = cost d"
  by (rule ext) (simp add: cost_def sample_len_cfg, simp add: same_cfg_def)

definition within_budget :: "load_balanced \<Rightarrow> sample list \<Rightarrow> bool" where
  "within_budget d b \<longleftrightarrow> b \<noteq> [] \<and> (length b = 1 \<or> cost d b \<le> lb_max_tokens_for_batch d)"

lemma within_budget_cfg: "same_cfg d d' \<Longrightarrow> within_budget d' = within_budget d"
  by (rule ext) (simp add: within_budget_def cost_cfg, simp add: same_cfg_def)

lemma grow_batch_cfg_error: "grow_batch d chosen m = Inl (e, d') \<Longrightarrow> same_cfg d d'"
proof (induction d chosen m rule: grow_batch.induct)
  case (1 d chosen m)
  show ?case
  proof (cases "find_best_candidate d m chosen")
    case (Inl e')
    then show ?thesis using 1(2) by (auto simp: grow_batch.simps [of d chosen m] split: if_splits)
  next
    case (Inr r)
    then obtain i where i: "r = Some i" "lb_pool d \<noteq> []"
      using 1(2) by (cases r) (auto simp: grow_batch.simps [of d chosen m] split: if_splits)
    let ?d = "d\<lparr>lb_pool := snd (remove_from_pool i (lb_pool d))\<rparr>"
    show ?thesis
    proof (cases "sample_len ?d (fst (remove_from_pool i (lb_pool d)))")
      case (Inl e')
      then show ?thesis using 1(2) Inr i by (simp add: grow_batch.simps [of d chosen m]) auto
    next
      case (Inr len)
      then have "same_cfg ?d d'"
        using 1 \<open>find_best_candidate d m chosen = Inr r\<close> i by (simp add: grow_batch.simps [of d chosen m])
      then show ?thesis using same_cfg_trans [of d ?d d'] by simp
    qed
  qed
qed

lemma best_fit_batch_cfg_error: "best_fit_batch d = Inl (e, d') \<Longrightarrow> same_cfg d d'"
proof -
  assume err: "best_fit_batch d = Inl (e, d')"
  have c: "same_cfg d (fill_pool d)" by (rule fill_pool_cfg)
  have trans: "same_cfg d d''" if "same_cfg ((fill_pool d)\<lparr>lb_pool := p\<rparr>) d''" for p d''
    using c that same_cfg_trans [of d "(fill_pool d)\<lparr>lb_pool := p\<rparr>" d''] by simp
  have g: "same_cfg d2 d3" if "grow_batch d2 [s] l = Inl (e, d3)" for d2 d3 s l
    using grow_batch_cfg_error [OF that] .
  show ?thesis
  proof (cases "lb_pool (fill_pool d)")
    case Nil
    then show ?thesis using err c by (simp add: best_fit_batch_def)
  next
    case (Cons seed rest)
    let ?e = "(fill_pool d)\<lparr>lb_pool := rest\<rparr>"
    show ?thesis
    proof (cases "sample_len ?e seed")
      case (Inl e')
      then show ?thesis using err Cons c by (auto simp: best_fit_batch_def)
    next
      case (Inr len)
      then have "grow_batch ?e [seed] len = Inl (e, d')
          \<or> (\<exists>b m. grow_batch ?e [seed] len = Inr (b, m, d') \<and> lb_seq_packing d' \<and> (\<exists>e'. sum_lengths d' b = Inl e'))"
        using err Cons
        by (cases "grow_batch ?e [seed] len")
          (auto simp: best_fit_batch_def Let_def bindR_def split: sum.splits if_splits prod.splits)
      moreover have "same_cfg d d'" if "grow_batch ?e [seed] len = Inl (e, d')"
        using trans [OF g [OF that]] .
      moreover have "batch_ok ?e [seed] len" if "grow_batch ?e [seed] len = Inr r" for r
        using err Cons Inr that
        by (auto simp: batch_ok_def sum_lengths_def best_fit_batch_def Let_def split: if_splits intro!: exI [of _ "[len]"])
      ultimately show ?thesis using grow_batch_spec trans by blast
    qed
  qed
qed

lemma build_batches_spec:
  "build_batches n acc d = Inr (bs, d') \<Longrightarrow> same_cfg d d' \<and> (\<exists>cs. bs = acc @ cs \<and> list_all (within_budget d) cs)"
proof (induction n arbitrary: acc d)
  case (Suc n)
  have step: "same_cfg d d' \<and> (\<exists>cs. bs = acc @ cs \<and> list_all (within_budget d) cs)"
    if e: "same_cfg d e" and b: "best_fit_batch e = Inr (b, d2)" and run: "build_batches n (acc @ [b]) d2 = Inr (bs, d')"
    for e b d2
  proof -
    have s: "within_budget e b" "same_cfg e d2" using best_fit_batch_spec [OF b] by (auto simp: within_budget_def)
    have c: "same_cfg d d2" using same_cfg_trans [OF e s(2)] .
    obtain cs where "same_cfg d2 d'" "bs = (acc @ [b]) @ cs" "list_all (within_budget d2) cs"
      using Suc.IH [OF run] by blast
    then show ?thesis
      using same_cfg_trans [OF c] s(1) within_budget_cfg [OF c] within_budget_cfg [OF e] by auto
  qed
  show ?case
  proof (cases "best_fit_batch d")
    case (Inr r)
    then show ?thesis using Suc.prems step [of d] by (cases r) auto
  next
    case (Inl r)
    then obtain d1 where d1: "best_fit_batch d = Inl (StopIteration, d1)"
      using Suc.prems by (cases r) (auto split: if_splits)
    let ?e = "fill_pool d1"
    have e: "same_cfg d ?e" using same_cfg_trans [OF best_fit_batch_cfg_error [OF d1] fill_pool_cfg] .
    show ?thesis
    proof (cases "lb_pool ?e = []")
      case True
      then show ?thesis using Suc.prems d1 e by auto
    next
      case False
      show ?thesis
      proof (cases "best_fit_batch ?e")
        case (Inr r)
        then show ?thesis using Suc.prems d1 False step [OF e] by (cases r) auto
      next
        case (Inl r)
        then show ?thesis
          using Suc.prems d1 False same_cfg_trans [OF e best_fit_batch_cfg_error]
          by (cases r) (auto split: if_splits)
      qed
    qed
  qed
qed simp

lemma next_group_spec:
  assumes "next_group d = Inr (g, d')"
  shows "same_cfg d d' \<and> (case g of None \<Rightarrow> True | Some bs \<Rightarrow> list_all (within_budget d) bs)"
proof -
  have build: "same_cfg e e' \<and> list_all (within_budget e) bs"
    if "build_accumulated_batches e = Inr (bs, e')" for e e' bs
    using build_batches_spec [of "lb_accumulate_steps e" "[]" e bs e'] that by (auto simp: build_accumulated_batches_def)
  obtain bs d1 where b: "build_accumulated_batches d = Inr (bs, d1)"
    using assms by (auto simp: next_group_def)
  note b1 = build [OF b]
  show ?thesis
  proof (cases "bs \<noteq> [] \<or> \<not> lb_infinite d1")
    case True
    then show ?thesis using assms b b1 by (auto simp: next_group_def split: if_splits)
  next
    case False
    then obtain cs d2 where r: "build_accumulated_batches (recreate_iterator d1) = Inr (cs, d2)"
      "g = (if cs \<noteq> [] then Some cs else None)" "d' = d2"
      using assms b by (auto simp: next_group_def elim!: bindR_InrE)
    have c: "same_cfg d (recreate_iterator d1)" using b1 by simp
    from build [OF r(1)] show ?thesis
      using r(2,3) same_cfg_trans [OF c] within_budget_cfg [OF c] by auto
  qed
qed

lemma yields_spec: "yields n d = Inr (gs, d') \<Longrightarrow> same_cfg d d' \<and> list_all (list_all (within_budget d)) gs"
proof (induction n arbitrary: d gs)
  case (Suc n)
  obtain g d1 where g: "next_group d = Inr (g, d1)" using Suc.prems by auto
  note s = next_group_spec [OF g]
  show ?case
  proof (cases g)
    case None
    then show ?thesis using Suc.prems g s by auto
  next
    case (Some bs)
    then obtain hs where h: "yields n d1 = Inr (hs, d')" "gs = bs # hs" using Suc.prems g by auto
    then show ?thesis
      using Suc.IH [OF h(1)] s Some same_cfg_trans [of d d1 d'] within_budget_cfg [of d d1] by auto
  qed
qed simp

end
