(* ===== verification/Load_Balance_Claims.thy ===== *)
theory Load_Balance_Claims
  imports Load_Balance_Lemmas
begin

text \<open>
  The iteration of the load-balanced dataset: progress of one batch, an epoch without
  restart, the endless iteration, and the properties of the whole.
\<close>

section \<open>A batch can always be built\<close>

definition measurable :: "load_balanced \<Rightarrow> sample \<Rightarrow> bool" where
  "measurable d s \<longleftrightarrow> (\<exists>len. sample_len d s = Inr len)"

lemma measurable_cfg: "same_cfg d d' \<Longrightarrow> measurable d' = measurable d"
  by (rule ext) (simp add: measurable_def sample_len_cfg)

lemma first_fitting_ok:
  "list_all (measurable d) ss \<Longrightarrow> \<exists>r. first_fitting d t i ss = Inr r"
  by (induction ss arbitrary: i) (auto simp: measurable_def)

lemma sum_lengths_ok: "list_all (measurable d) ss \<Longrightarrow> \<exists>t. sum_lengths d ss = Inr t"
  unfolding sum_lengths_def by (rule forR_ok) (auto simp: list_all_iff measurable_def)

lemma find_best_candidate_total:
  assumes "list_all (measurable d) (lb_pool d)" and "list_all (measurable d) chosen"
  shows "\<exists>r. find_best_candidate d m chosen = Inr r"
proof -
  have pool: "measurable d (snd x)" if "x \<in> set (zip [0..<length (lb_pool d)] (lb_pool d))" for x
    using assms(1) that by (cases x) (auto simp: list_all_iff dest: set_zip_rightD)
  have "\<exists>s. forR (zip [0..<length (lb_pool d)] (lb_pool d)) (first_step d m k) None = Inr s" for k
    using pool by (intro forR_ok) (fastforce simp: first_step_def measurable_def Let_def)
  moreover have "\<exists>s. forR (zip [0..<length (lb_pool d)] (lb_pool d)) (closest_step d m k) None = Inr s" for k
    using pool by (intro forR_ok) (fastforce simp: closest_step_def measurable_def Let_def)
  ultimately obtain r1 r2 where
    "forR (zip [0..<length (lb_pool d)] (lb_pool d)) (first_step d m (int (length chosen))) None = Inr r1"
    "forR (zip [0..<length (lb_pool d)] (lb_pool d)) (closest_step d m (int (length chosen))) None = Inr r2" by blast
  moreover obtain t r3 where "sum_lengths d chosen = Inr t" "first_fitting d t 0 (lb_pool d) = Inr r3"
    using sum_lengths_ok [OF assms(2)] first_fitting_ok [OF assms(1)] by blast
  ultimately show ?thesis
    by (simp add: find_best_candidate_def find_best_candidate_seq_packing_def
        find_best_candidate_prefer_first_def find_best_candidate_prefer_closest_def)
qed

lemma grow_batch_total:
  assumes "list_all (measurable d) (lb_pool d)" and "batch_ok d chosen m"
  shows "\<exists>r. grow_batch d chosen m = Inr r"
  using assms
proof (induction d chosen m rule: grow_batch.induct)
  case (1 d chosen m)
  have "list_all (measurable d) chosen"
  proof -
    obtain lens where l: "map (sample_len d) chosen = map Inr lens" using 1(3) by (auto simp: batch_ok_def)
    have "sample_len d (chosen ! i) = Inr (lens ! i)" if "i < length chosen" for i
      using l that by (metis length_map nth_map)
    then show ?thesis by (auto simp: list_all_length measurable_def)
  qed
  then obtain r where r: "find_best_candidate d m chosen = Inr r"
    using find_best_candidate_total 1(2) by blast
  show ?case
  proof (cases "lb_pool d = [] \<or> r = None")
    case True
    then show ?thesis using r by (auto simp: grow_batch.simps [of d chosen m])
  next
    case False
    then obtain i where i: "r = Some i" by auto
    note ok = find_best_candidate_ok [OF r [unfolded i] 1(3)]
    obtain len where len: "i < length (lb_pool d)" "sample_len d (lb_pool d ! i) = Inr len"
      "batch_ok d (chosen @ [lb_pool d ! i]) (max m len)"
      using ok False by blast
    let ?d = "d\<lparr>lb_pool := snd (remove_from_pool i (lb_pool d))\<rparr>"
    have c: "same_cfg d ?d" by simp
    have cand: "fst (remove_from_pool i (lb_pool d)) = lb_pool d ! i"
      using len(1) by (simp add: remove_from_pool_nth)
    have "list_all (measurable ?d) (lb_pool ?d)"
      using 1(2) len(1) measurable_cfg [OF c]
      by (auto simp: remove_from_pool_nth list_all_iff dest: in_set_takeD in_set_dropD)
    moreover have "batch_ok ?d (chosen @ [lb_pool d ! i]) (max m len)" using len(3) batch_ok_cfg [OF c] by simp
    ultimately have "\<exists>r. grow_batch ?d (chosen @ [lb_pool d ! i]) (max m len) = Inr r"
      using 1(1) [OF _ r i refl refl] False cand len(2) sample_len_cfg [OF c] by simp
    then show ?thesis
      using False r i cand len(2) sample_len_cfg [OF c] by (simp add: grow_batch.simps [of d chosen m])
  qed
qed

lemma best_fit_batch_total:
  assumes "lb_pool (fill_pool d) \<noteq> []" and "list_all (measurable d) (lb_pool (fill_pool d))"
  shows "\<exists>b d'. best_fit_batch d = Inr (b, d')"
proof -
  obtain seed rest where pool: "lb_pool (fill_pool d) = seed # rest"
    using assms(1) by (cases "lb_pool (fill_pool d)") auto
  let ?e = "(fill_pool d)\<lparr>lb_pool := rest\<rparr>"
  have c: "same_cfg d ?e" using fill_pool_cfg by simp
  obtain len where len: "sample_len ?e seed = Inr len"
    using assms(2) pool sample_len_cfg [OF c] by (auto simp: measurable_def)
  show ?thesis
  proof (cases "lb_max_tokens_len ?e \<le> len \<or> lb_max_tokens_for_batch ?e \<le> len")
    case True
    then show ?thesis using pool len by (auto simp: best_fit_batch_def Let_def)
  next
    case False
    then have ok: "batch_ok ?e [seed] len"
      using len by (auto simp: batch_ok_def sum_lengths_def intro!: exI [of _ "[len]"])
    moreover have "list_all (measurable ?e) (lb_pool ?e)"
      using assms(2) pool measurable_cfg [OF c] by simp
    ultimately obtain b m d2 where g: "grow_batch ?e [seed] len = Inr (b, m, d2)"
      using grow_batch_total by (metis prod_cases3)
    from grow_batch_spec [OF g ok] have s: "batch_ok ?e b m" "same_cfg ?e d2" by blast+
    then have "batch_ok d2 b m" by (simp add: batch_ok_cfg)
    then have "\<exists>t. sum_lengths d2 b = Inr t" if "lb_seq_packing d2"
      using that by (auto simp: batch_ok_def)
    then show ?thesis
      using pool len False g by (auto simp: best_fit_batch_def Let_def)
  qed
qed

section \<open>One epoch\<close>

definition remaining :: "load_balanced \<Rightarrow> sample multiset" where
  "remaining d = mset (lb_pool d) + (case lb_iterator d of None \<Rightarrow> {#} | Some xs \<Rightarrow> mset xs)"

lemma fill_pool_finite:
  "\<not> lb_infinite d \<Longrightarrow> remaining (fill_pool d) = remaining d
     \<and> (0 < lb_pool_size d \<longrightarrow> lb_pool (fill_pool d) = [] \<longrightarrow> remaining d = {#})"
proof (induction d rule: fill_pool.induct)
  case (1 d)
  show ?case
  proof (cases "length (lb_pool d) < lb_pool_size d")
    case False
    then show ?thesis by (auto simp: fill_pool.simps [of d])
  next
    case True
    show ?thesis
    proof (cases "\<exists>x xs. lb_iterator d = Some (x # xs)")
      case False
      have "lb_iterator d = None \<or> lb_iterator d = Some []"
      proof (cases "lb_iterator d")
        case (Some xs)
        then show ?thesis using False by (cases xs) simp_all
      qed simp
      then have "next_or_restart d = (None, d)" "remaining d = mset (lb_pool d)"
        using 1(2) by (auto simp: next_or_restart_def get_next_sample_def remaining_def)
      then show ?thesis using True by (auto simp: fill_pool.simps [of d])
    next
      case it: True
      then obtain x xs where x: "lb_iterator d = Some (x # xs)" by blast
      let ?d = "d\<lparr>lb_iterator := Some xs\<rparr>"
      let ?e = "?d\<lparr>lb_pool := lb_pool ?d @ [x]\<rparr>"
      have n: "next_or_restart d = (Some x, ?d)"
        using x by (simp add: next_or_restart_def get_next_sample_def)
      have r: "remaining ?e = remaining d" using x by (simp add: remaining_def)
      have "fill_pool d = fill_pool ?e" using True n by (simp add: fill_pool.simps [of d])
      moreover have "remaining (fill_pool ?e) = remaining ?e
        \<and> (0 < lb_pool_size ?e \<longrightarrow> lb_pool (fill_pool ?e) = [] \<longrightarrow> remaining ?e = {#})"
        using 1(1) [OF True n [symmetric] refl] 1(2) by simp
      ultimately show ?thesis using r by simp
    qed
  qed
qed

lemma best_fit_batch_finite:
  assumes "\<not> lb_infinite d" and "0 < lb_pool_size d" and "\<forall>s \<in># remaining d. measurable d s" and "remaining d \<noteq> {#}"
  shows "\<exists>b d'. best_fit_batch d = Inr (b, d') \<and> b \<noteq> [] \<and> same_cfg d d' \<and> mset b + remaining d' = remaining d"
proof -
  have f: "remaining (fill_pool d) = remaining d" "lb_pool (fill_pool d) \<noteq> []"
    using fill_pool_finite [OF assms(1)] assms(2,4) by auto
  have "list_all (measurable d) (lb_pool (fill_pool d))"
  proof -
    have "s \<in># remaining (fill_pool d)" if "s \<in> set (lb_pool (fill_pool d))" for s
      using that by (simp add: remaining_def)
    then show ?thesis using assms(3) f(1) by (simp add: list_all_iff)
  qed
  then obtain b d' where b: "best_fit_batch d = Inr (b, d')" using best_fit_batch_total f(2) by blast
  have "b \<noteq> []" "same_cfg d d'" "lb_iterator d' = lb_iterator (fill_pool d)"
    "mset b + mset (lb_pool d') = mset (lb_pool (fill_pool d))"
    using best_fit_batch_spec [OF b] by blast+
  then show ?thesis using b f(1) by (auto simp: remaining_def union_assoc [symmetric])
qed

lemma build_batches_finite:
  assumes "\<not> lb_infinite d" and "0 < lb_pool_size d" and "\<forall>s \<in># remaining d. measurable d s"
  shows "\<exists>bs d'. build_batches n acc d = Inr (acc @ bs, d') \<and> same_cfg d d' \<and> [] \<notin> set bs
    \<and> mset (concat bs) + remaining d' = remaining d \<and> (0 < n \<longrightarrow> remaining d \<noteq> {#} \<longrightarrow> bs \<noteq> [])"
  using assms
proof (induction n arbitrary: acc d)
  case 0
  then show ?case by simp
next
  case (Suc n)
  show ?case
  proof (cases "remaining d = {#}")
    case True
    have f: "remaining (fill_pool e) = {#}" "lb_pool (fill_pool e) = []" if "\<not> lb_infinite e" "remaining e = {#}" for e
      using fill_pool_finite [OF that(1)] that(2) by (auto simp: remaining_def)
    let ?d = "fill_pool (fill_pool d)"
    have c: "same_cfg d (fill_pool d)" "same_cfg d ?d"
      using fill_pool_cfg same_cfg_trans by blast+
    have "\<not> lb_infinite (fill_pool d)" using c(1) Suc.prems(1) by (simp add: same_cfg_def)
    then have d: "remaining ?d = {#}" "lb_pool ?d = []"
      using f [of "fill_pool d"] f [OF Suc.prems(1) True] by auto
    have "best_fit_batch d = Inl (StopIteration, fill_pool d)"
      using f [OF Suc.prems(1) True] by (simp add: best_fit_batch_def)
    then have "build_batches (Suc n) acc d = Inr (acc @ [], ?d)" using d(2) by simp
    then show ?thesis using c(2) d(1) True by (intro exI [of _ "[]"] exI [of _ ?d]) simp
  next
    case False
    then obtain b d1 where b: "best_fit_batch d = Inr (b, d1)" "b \<noteq> []" "same_cfg d d1" "mset b + remaining d1 = remaining d"
      using best_fit_batch_finite [OF Suc.prems] by blast
    have inf: "\<not> lb_infinite d1" "0 < lb_pool_size d1" using b(3) Suc.prems by (simp_all add: same_cfg_def)
    have meas: "\<forall>s \<in># remaining d1. measurable d1 s"
      using Suc.prems(3) b(4) measurable_cfg [OF b(3)] by (metis union_iff)
    obtain bs d' where "build_batches n (acc @ [b]) d1 = Inr ((acc @ [b]) @ bs, d')" "same_cfg d1 d'" "[] \<notin> set bs"
      "mset (concat bs) + remaining d' = remaining d1"
      using Suc.IH [OF inf meas, of "acc @ [b]"] by blast
    moreover from this have "mset (concat (b # bs)) + remaining d' = remaining d"
      using b(4) by (simp add: union_assoc)
    ultimately show ?thesis
      using b same_cfg_trans [OF b(3)] by (intro exI [of _ "b # bs"] exI [of _ d']) simp
  qed
qed

lemma next_group_finite:
  assumes "\<not> lb_infinite d" and "0 < lb_pool_size d" and "0 < lb_accumulate_steps d" and "\<forall>s \<in># remaining d. measurable d s"
  shows "\<exists>g d'. next_group d = Inr (g, d') \<and> same_cfg d d'
    \<and> (case g of None \<Rightarrow> remaining d = {#} \<and> remaining d' = {#}
       | Some bs \<Rightarrow> bs \<noteq> [] \<and> [] \<notin> set bs \<and> mset (concat bs) + remaining d' = remaining d)"
proof -
  obtain bs d' where b: "build_accumulated_batches d = Inr (bs, d')" "same_cfg d d'" "[] \<notin> set bs"
    "mset (concat bs) + remaining d' = remaining d" "remaining d \<noteq> {#} \<longrightarrow> bs \<noteq> []"
    using build_batches_finite [OF assms(1,2,4), of "lb_accumulate_steps d" "[]"] assms(3)
    by (auto simp: build_accumulated_batches_def)
  have "\<not> lb_infinite d'" using b(2) assms(1) by (simp add: same_cfg_def)
  then show ?thesis
    using b by (cases "bs = []") (auto simp: next_group_def)
qed

lemma yields_finite:
  assumes "\<not> lb_infinite d" and "0 < lb_pool_size d" and "0 < lb_accumulate_steps d"
    and "\<forall>s \<in># remaining d. measurable d s" and "size (remaining d) < n"
  shows "\<exists>gs d'. yields n d = Inr (gs, d') \<and> mset (concat (concat gs)) = remaining d \<and> remaining d' = {#} \<and> same_cfg d d'"
  using assms
proof (induction n arbitrary: d)
  case (Suc n)
  obtain g d1 where g: "next_group d = Inr (g, d1)" "same_cfg d d1"
    "case g of None \<Rightarrow> remaining d = {#} \<and> remaining d1 = {#}
     | Some bs \<Rightarrow> bs \<noteq> [] \<and> [] \<notin> set bs \<and> mset (concat bs) + remaining d1 = remaining d"
    using next_group_finite [OF Suc.prems(1-4)] by blast
  show ?case
  proof (cases g)
    case None
    then show ?thesis using g by auto
  next
    case (Some bs)
    then have bs: "bs \<noteq> []" "[] \<notin> set bs" "mset (concat bs) + remaining d1 = remaining d" using g(3) by auto
    have "concat bs \<noteq> []" using bs(1,2) by (cases bs) auto
    then have "size (remaining d1) < size (remaining d)" using bs(3) [symmetric] by auto
    moreover have "\<not> lb_infinite d1" "0 < lb_pool_size d1" "0 < lb_accumulate_steps d1"
      using g(2) Suc.prems by (simp_all add: same_cfg_def)
    moreover have "\<forall>s \<in># remaining d1. measurable d1 s"
      using Suc.prems(4) bs(3) measurable_cfg [OF g(2)] by (metis union_iff)
    ultimately obtain gs d' where "yields n d1 = Inr (gs, d')" "mset (concat (concat gs)) = remaining d1"
      "remaining d' = {#}" "same_cfg d1 d'"
      using Suc.IH [of d1] Suc.prems(5) by auto
    then show ?thesis
      using g(1) Some bs(3) same_cfg_trans [OF g(2)] by (intro exI [of _ "bs # gs"] exI [of _ d']) auto
  qed
qed simp

section \<open>Looping\<close>

definition stocked :: "load_balanced \<Rightarrow> bool" where
  "stocked d \<longleftrightarrow>
     (let b = lb_base d; D = set (sd_data b) in
      lb_infinite d \<and> 0 < lb_pool_size d \<and> set (lb_pool d) \<subseteq> D
      \<and> (\<forall>xs. lb_iterator d = Some xs \<longrightarrow> set xs \<subseteq> D)
      \<and> (\<forall>seed xs. mset (sd_shuffle b seed xs) = mset xs)
      \<and> sd_rank b * sd_workers b + sd_worker b < min (length (sd_data b)) (sd_world b * sd_workers b)
      \<and> (\<forall>s \<in> D. measurable d s))"

lemma same_base: "same_cfg d d' \<Longrightarrow> sd_data (lb_base d') = sd_data (lb_base d) \<and> sd_shuffle (lb_base d') = sd_shuffle (lb_base d)
    \<and> sd_rank (lb_base d') = sd_rank (lb_base d) \<and> sd_worker (lb_base d') = sd_worker (lb_base d)
    \<and> sd_workers (lb_base d') = sd_workers (lb_base d) \<and> sd_world (lb_base d') = sd_world (lb_base d)"
  by (cases "lb_base d"; cases "lb_base d'") (auto simp: same_cfg_def)

lemma stocked_cfg:
  assumes "same_cfg d d'" and "stocked d" and "set (lb_pool d') \<subseteq> set (sd_data (lb_base d))"
    and "\<forall>xs. lb_iterator d' = Some xs \<longrightarrow> set xs \<subseteq> set (sd_data (lb_base d))"
  shows "stocked d'"
  using assms same_base [OF assms(1)] measurable_cfg [OF assms(1)]
  by (simp add: stocked_def Let_def) (simp add: same_cfg_def)

lemma shard_indices_range:
  assumes "rank * workers + worker < world * workers"
  shows "set (shard_indices n rank world worker workers) \<subseteq> {..<n}"
    and "rank * workers + worker < n \<Longrightarrow> shard_indices n rank world worker workers \<noteq> []"
proof -
  note r = py_range_set [OF assms, of n]
  show "set (shard_indices n rank world worker workers) \<subseteq> {..<n}" using r by (auto simp: shard_indices_def)
  show "shard_indices n rank world worker workers \<noteq> []" if "rank * workers + worker < n"
  proof -
    have "rank * workers + worker \<in> set (shard_indices n rank world worker workers)"
      using r assms that by (simp add: shard_indices_def)
    then show ?thesis by auto
  qed
qed

lemma sharded_iter_mset:
  assumes "\<forall>seed xs. mset (sd_shuffle b seed xs) = mset xs"
  shows "mset (sharded_iter b) = mset (map (\<lambda>i. sd_data b ! i)
    (shard_indices (length (sd_data b)) (sd_rank b) (sd_world b) (sd_worker b) (sd_workers b)))"
  using assms by (simp add: sharded_iter_def Let_def)

lemma stocked_shard:
  assumes "stocked d"
  shows "set (sharded_iter (lb_base d)) \<subseteq> set (sd_data (lb_base d)) \<and> sharded_iter (lb_base d) \<noteq> []"
proof -
  let ?b = "lb_base d"
  let ?i = "shard_indices (length (sd_data ?b)) (sd_rank ?b) (sd_world ?b) (sd_worker ?b) (sd_workers ?b)"
  have m: "mset (sharded_iter ?b) = mset (map (\<lambda>i. sd_data ?b ! i) ?i)"
    using assms by (intro sharded_iter_mset) (simp add: stocked_def Let_def)
  have "set ?i \<subseteq> {..<length (sd_data ?b)}" "?i \<noteq> []"
    using shard_indices_range [of "sd_rank ?b" "sd_workers ?b" "sd_worker ?b" "sd_world ?b"] assms
    by (auto simp: stocked_def Let_def)
  moreover have "set (sharded_iter ?b) = (\<lambda>i. sd_data ?b ! i) ` set ?i" using mset_eq_setD [OF m] by simp
  ultimately show ?thesis by auto
qed

lemma next_or_restart_stocked:
  assumes "stocked d"
  shows "\<exists>x d'. next_or_restart d = (Some x, d') \<and> stocked (d'\<lparr>lb_pool := lb_pool d' @ [x]\<rparr>)"
proof -
  have nxt: "\<exists>x d'. get_next_sample e = (Some x, d') \<and> stocked (d'\<lparr>lb_pool := lb_pool d' @ [x]\<rparr>)"
    if "stocked e" "lb_iterator e = Some (x # xs)" for e x xs
  proof -
    let ?d = "e\<lparr>lb_iterator := Some xs\<rparr>"
    have "stocked (?d\<lparr>lb_pool := lb_pool ?d @ [x]\<rparr>)"
      using that by (intro stocked_cfg [OF _ that(1)]) (auto simp: stocked_def Let_def)
    then show ?thesis using that(2) by (simp add: get_next_sample_def)
  qed
  show ?thesis
  proof (cases "\<exists>x xs. lb_iterator d = Some (x # xs)")
    case True
    then show ?thesis using nxt [OF assms] by (auto simp: next_or_restart_def)
  next
    case False
    then have none: "get_next_sample d = (None, d)"
      by (auto simp: get_next_sample_def split: option.splits list.splits)
    let ?r = "recreate_iterator d"
    have e: "sd_data (lb_base ?r) = sd_data (lb_base d)"
      by (simp add: recreate_iterator_def Let_def)
    have cfg: "same_cfg d ?r" by simp
    have "stocked ?r"
    proof (rule stocked_cfg [OF cfg assms])
      have "stocked (d\<lparr>lb_base := lb_base ?r\<rparr>)"
        using assms by (intro stocked_cfg [OF _ assms]) (auto simp: stocked_def Let_def same_cfg_def recreate_iterator_def)
      from stocked_shard [OF this]
      show "\<forall>xs. lb_iterator ?r = Some xs \<longrightarrow> set xs \<subseteq> set (sd_data (lb_base d))"
        using e by (simp add: recreate_iterator_def Let_def)
    qed (use assms in \<open>auto simp: stocked_def Let_def recreate_iterator_def\<close>)
    moreover obtain x xs where "lb_iterator ?r = Some (x # xs)"
      using stocked_shard [OF \<open>stocked ?r\<close>] by (cases "sharded_iter (lb_base ?r)") (auto simp: recreate_iterator_def Let_def)
    ultimately obtain y d' where "get_next_sample ?r = (Some y, d')" "stocked (d'\<lparr>lb_pool := lb_pool d' @ [y]\<rparr>)"
      using nxt by blast
    moreover have "lb_infinite d" using assms by (simp add: stocked_def Let_def)
    ultimately show ?thesis using none by (simp add: next_or_restart_def)
  qed
qed

lemma fill_pool_stocked: "stocked d \<Longrightarrow> stocked (fill_pool d) \<and> lb_pool (fill_pool d) \<noteq> []"
proof (induction d rule: fill_pool.induct)
  case (1 d)
  show ?case
  proof (cases "length (lb_pool d) < lb_pool_size d")
    case True
    obtain x d' where n: "next_or_restart d = (Some x, d')" "stocked (d'\<lparr>lb_pool := lb_pool d' @ [x]\<rparr>)"
      using next_or_restart_stocked [OF 1(2)] by blast
    then show ?thesis
      using 1(1) [OF True n(1) [symmetric] refl n(2)] True by (simp add: fill_pool.simps [of d])
  next
    case False
    then show ?thesis using 1(2) by (auto simp: fill_pool.simps [of d] stocked_def Let_def)
  qed
qed

lemma best_fit_batch_stocked:
  assumes "stocked d"
  shows "\<exists>b d'. best_fit_batch d = Inr (b, d') \<and> stocked d' \<and> same_cfg d d'"
proof -
  have f: "stocked (fill_pool d)" "lb_pool (fill_pool d) \<noteq> []" "same_cfg d (fill_pool d)"
    using fill_pool_stocked [OF assms] fill_pool_cfg by auto
  have "list_all (measurable d) (lb_pool (fill_pool d))"
    using f(1) measurable_cfg [OF f(3)] by (auto simp: stocked_def Let_def list_all_iff)
  then obtain b d' where b: "best_fit_batch d = Inr (b, d')" using best_fit_batch_total f(2) by blast
  note s = best_fit_batch_spec [OF b]
  have "set (lb_pool d') \<subseteq> set (lb_pool (fill_pool d))"
    using s by (metis set_mset_mset set_mset_union sup_ge2)
  then have "stocked d'"
    using s f(1) same_base [OF f(3)] by (intro stocked_cfg [OF _ assms]) (auto simp: stocked_def Let_def)
  then show ?thesis using b s by blast
qed

lemma build_batches_stocked:
  "stocked d \<Longrightarrow> \<exists>bs d'. build_batches n acc d = Inr (acc @ bs, d') \<and> length bs = n \<and> stocked d' \<and> same_cfg d d'"
proof (induction n arbitrary: acc d)
  case (Suc n)
  obtain b d1 where b: "best_fit_batch d = Inr (b, d1)" "stocked d1" "same_cfg d d1"
    using best_fit_batch_stocked [OF Suc.prems] by blast
  obtain bs d' where "build_batches n (acc @ [b]) d1 = Inr ((acc @ [b]) @ bs, d')" "length bs = n" "stocked d'" "same_cfg d1 d'"
    using Suc.IH [OF b(2), of "acc @ [b]"] by blast
  then show ?case
    using b same_cfg_trans [OF b(3)] by (intro exI [of _ "b # bs"] exI [of _ d']) simp
qed simp

lemma yields_stocked:
  assumes "stocked d" and "0 < lb_accumulate_steps d"
  shows "\<exists>gs d'. yields n d = Inr (gs, d') \<and> length gs = n \<and> list_all (\<lambda>g. length g = lb_accumulate_steps d) gs"
  using assms
proof (induction n arbitrary: d)
  case (Suc n)
  obtain bs d1 where b: "build_accumulated_batches d = Inr (bs, d1)" "length bs = lb_accumulate_steps d" "stocked d1" "same_cfg d d1"
    using build_batches_stocked [OF Suc.prems(1), of "lb_accumulate_steps d" "[]"] by (auto simp: build_accumulated_batches_def)
  then have "next_group d = Inr (Some bs, d1)" using Suc.prems(2) by (auto simp: next_group_def)
  moreover have acc: "lb_accumulate_steps d1 = lb_accumulate_steps d" using b(4) by (simp add: same_cfg_def)
  obtain gs d' where "yields n d1 = Inr (gs, d')" "length gs = n" "list_all (\<lambda>g. length g = lb_accumulate_steps d) gs"
    using Suc.IH [OF b(3)] acc Suc.prems(2) by auto
  ultimately show ?case using b(2) by simp
qed simp

section \<open>Claims\<close>

text \<open>
  The shards of the load-balanced dataset partition the data: over all ranks and loader
  workers, every index below the dataset's length is in exactly one shard, once.
\<close>

theorem shards_partition:
  assumes "0 < world" and "0 < workers"
  shows "mset (concat (concat (map (\<lambda>rank. map (\<lambda>worker. shard_indices n rank world worker workers) [0..<workers]) [0..<world])))
    = mset [0..<n]"
proof -
  have "concat (map (\<lambda>rank. map (\<lambda>worker. shard_indices n rank world worker workers) [0..<workers]) [0..<world])
      = map (\<lambda>a. py_range a n (world * workers)) (concat (map (\<lambda>r. map (\<lambda>w. r * workers + w) [0..<workers]) [0..<world]))"
    by (simp add: map_concat comp_def shard_indices_def)
  then show ?thesis
    using strides_partition [of "world * workers" n] assms by (simp add: shard_ids)
qed

text \<open>
  Taking an element out of the pool by rotating the deque, and by the short cuts at its
  ends, is the same as deleting the element at that index and keeping the order of the rest.
\<close>

theorem remove_from_pool_equiv:
  "i < length pool \<Longrightarrow> remove_from_pool i pool = (pool ! i, take i pool @ drop (Suc i) pool)"
  by (rule remove_from_pool_nth)

text \<open>
  No batch exceeds the token budget. Every batch the iteration yields is non-empty, and
  unless it is a single sample its cost (the sum of the lengths under sequence packing,
  otherwise the longest length times the number of samples) is at most the budget.
\<close>

theorem batches_within_budget:
  assumes "yields n d = Inr (gs, d')" and "g \<in> set gs" and "b \<in> set g"
  shows "b \<noteq> [] \<and> (length b = 1 \<or> cost d b \<le> lb_max_tokens_for_batch d)"
  using yields_spec [OF assms(1)] assms(2,3) by (auto simp: list_all_iff within_budget_def)


text \<open>
  A looping dataset never runs dry. If its shard is not empty, the shuffle permutes and
  all lengths can be determined, then for every \<open>n\<close> the iteration yields \<open>n\<close> groups, each
  with the requested number of accumulated batches.
\<close>

theorem looping_never_stops:
  assumes "lb_infinite d" and "0 < lb_pool_size d" and "0 < lb_accumulate_steps d" and "lb_skip_batches d = 0"
    and "\<forall>seed xs. mset (sd_shuffle (lb_base d) seed xs) = mset xs"
    and "sd_rank (lb_base d) * sd_workers (lb_base d) + sd_worker (lb_base d)
      < min (length (sd_data (lb_base d))) (sd_world (lb_base d) * sd_workers (lb_base d))"
    and "list_all (\<lambda>s. \<exists>len. sample_len d s = Inr len) (sd_data (lb_base d))"
  shows "\<exists>d0 gs d'. start_iteration d = Inr d0 \<and> yields n d0 = Inr (gs, d') \<and> length gs = n
    \<and> list_all (\<lambda>g. length g = lb_accumulate_steps d) gs"
proof -
  let ?base = "(lb_base d)\<lparr>sd_epoch := lb_epoch d\<rparr>"
  let ?e = "d\<lparr>lb_base := ?base, lb_iterator := None, lb_pool := []\<rparr>"
  let ?d = "d\<lparr>lb_base := ?base, lb_iterator := Some (sharded_iter ?base), lb_pool := []\<rparr>"
  have start: "start_iteration d = Inr ?d" using assms(4) by (simp add: start_iteration_def Let_def)
  have "stocked ?e"
    using assms by (auto simp: stocked_def Let_def measurable_def sample_len_def list_all_iff)
  then have "stocked ?d"
    using stocked_shard [of ?e] stocked_cfg [of ?e ?d] by (simp add: same_cfg_def)
  then show ?thesis using start yields_stocked [of ?d n] assms(3) by simp
qed

section \<open>Evaluation\<close>

definition ex_sample :: "nat \<Rightarrow> sample" where
  "ex_sample n = [(''input_ids'', Tensor_Field [n])]"

definition ex_sharded :: sharded where
  "ex_sharded = \<lparr>sd_data = map ex_sample [3, 1, 2, 2, 9], sd_rank = 0, sd_world = 1, sd_worker = 0,
     sd_workers = 1, sd_seed = 0, sd_epoch = 0, sd_shuffle = (\<lambda>_. rev)\<rparr>"

definition ex_balanced :: "bool \<Rightarrow> load_balanced" where
  "ex_balanced looping = \<lparr>lb_base = ex_sharded, lb_pool_size = 3, lb_max_tokens_for_batch = 6,
     lb_length_key = ''input_ids'', lb_strategy = ''prefer_closest'', lb_max_tokens_len = 6,
     lb_accumulate_steps = 2, lb_seq_packing = False, lb_infinite = looping, lb_pool = [],
     lb_iterator = None, lb_tokens = 0, lb_samples = 0, lb_batches = 0, lb_skip_batches = 0,
     lb_epoch = 0, lb_epochs_completed = 0\<rparr>"

theorem shards_partition_witness:
  "mset (concat (concat (map (\<lambda>rank. map (\<lambda>worker. shard_indices 7 rank 2 worker 2) [0..<2]) [0..<2]))) = mset [0..<7]"
  by (rule shards_partition) simp_all

theorem remove_from_pool_equiv_witness: "remove_from_pool 1 ''abcd'' = (CHR ''b'', ''acd'')"
  using remove_from_pool_equiv [of 1 "''abcd''"] by simp

lemma ex_balanced_ok:
  "\<forall>seed xs. mset (sd_shuffle (lb_base (ex_balanced l)) seed xs) = mset xs"
  "list_all (\<lambda>s. \<exists>len. sample_len (ex_balanced l) s = Inr len) (sd_data (lb_base (ex_balanced l)))"
  by (simp_all add: ex_balanced_def ex_sharded_def ex_sample_def sample_len_def get_sample_length_def)


theorem batches_within_budget_witness:
  "\<exists>gs d' d0. start_iteration (ex_balanced False) = Inr d0 \<and> yields 1 d0 = Inr (gs, d')
    \<and> list_all (list_all (\<lambda>b. b \<noteq> [] \<and> (length b = 1 \<or> cost d0 b \<le> 6))) gs"
proof -
  have "case start_iteration (ex_balanced False) of Inr d0 \<Rightarrow> lb_max_tokens_for_batch d0 = 6
      \<and> (case yields 1 d0 of Inr (gs, d') \<Rightarrow> gs \<noteq> [] | _ \<Rightarrow> False) | _ \<Rightarrow> False"
    by code_simp
  then obtain d0 gs d' where "start_iteration (ex_balanced False) = Inr d0" "yields 1 d0 = Inr (gs, d')"
    "lb_max_tokens_for_batch d0 = 6"
    by (auto split: sum.splits prod.splits)
  with batches_within_budget [of 1 d0 gs d'] show ?thesis by (auto simp: list_all_iff)
qed

theorem looping_never_stops_witness:
  "\<exists>d0 gs d'. start_iteration (ex_balanced True) = Inr d0 \<and> yields 100 d0 = Inr (gs, d') \<and> length gs = 100"
proof -
  let ?d = "ex_balanced True"
  have "lb_infinite ?d" "0 < lb_pool_size ?d" "0 < lb_accumulate_steps ?d" "lb_skip_batches ?d = 0"
    "sd_rank (lb_base ?d) * sd_workers (lb_base ?d) + sd_worker (lb_base ?d)
      < min (length (sd_data (lb_base ?d))) (sd_world (lb_base ?d) * sd_workers (lb_base ?d))"
    by code_simp+
  from looping_never_stops [OF this(1-4) ex_balanced_ok(1) this(5) ex_balanced_ok(2), of 100]
  show ?thesis by blast
qed

end
