(* ===== verification/Dim_Slice.thy ===== *)
theory Dim_Slice
  imports Prelude
begin

text \<open>
  Slices of tensor dimensions (cosmos_rl/utils/dim_slice_info.py): a slice is a fraction of a
  dimension, from \<open>offset / total_size\<close> over \<open>length / total_size\<close>. Unifying two slices to one
  denominator, their overlap, the position of a slice inside another, nesting, reduction to
  lowest terms, and slicing a tensor. A tensor is its shape with the function from index
  tuples to elements. Lemmas: the two sides of a weight transfer cut the same part of the
  global tensor out of their local shards, and nested slices are one merged slice.
\<close>

section \<open>Slices\<close>

record dim_slice =
  ds_offset :: int
  ds_total_size :: int
  ds_dim :: string
  ds_length :: int

definition mk_slice :: "int \<Rightarrow> int \<Rightarrow> string \<Rightarrow> int \<Rightarrow> dim_slice" where
  "mk_slice off sz dm len = \<lparr>ds_offset = off, ds_total_size = sz, ds_dim = dm, ds_length = len\<rparr>"

lemma mk_slice_simps [simp]:
  "ds_offset (mk_slice a b c l) = a" "ds_total_size (mk_slice a b c l) = b"
  "ds_dim (mk_slice a b c l) = c" "ds_length (mk_slice a b c l) = l"
  by (simp_all add: mk_slice_def)

definition slice_simplify :: "dim_slice \<Rightarrow> py_error + dim_slice" where
  "slice_simplify s =
     (let common = gcd (gcd (ds_offset s) (ds_total_size s)) (ds_length s)
      in if common = 0 then Inl ZeroDivisionError
         else Inr (mk_slice (ds_offset s div common) (ds_total_size s div common) (ds_dim s)
                (ds_length s div common)))"

definition get_unified_rank_info :: "dim_slice \<Rightarrow> dim_slice \<Rightarrow> py_error + (dim_slice \<times> dim_slice)" where
  "get_unified_rank_info a b =
     (let sz = max (ds_total_size a) (ds_total_size b)
      in if ds_total_size a = 0 then Inl ZeroDivisionError
         else if sz mod ds_total_size a \<noteq> 0 then Inl AssertionError
         else if ds_total_size b = 0 then Inl ZeroDivisionError
         else if sz mod ds_total_size b \<noteq> 0 then Inl AssertionError
         else
           let scale_a = sz div ds_total_size a; scale_b = sz div ds_total_size b
           in Inr (mk_slice (ds_offset a * scale_a) (ds_total_size a * scale_a) (ds_dim a) (ds_length a * scale_a),
                   mk_slice (ds_offset b * scale_b) (ds_total_size b * scale_b) (ds_dim b) (ds_length b * scale_b)))"

definition rank_overlap :: "dim_slice \<Rightarrow> dim_slice \<Rightarrow> py_error + dim_slice option" where
  "rank_overlap a b =
     bindR (get_unified_rank_info a b) (\<lambda>(a', b').
     if ds_total_size a' \<noteq> ds_total_size b' then Inl AssertionError
     else
       let left = max (ds_offset a') (ds_offset b');
           right = min (ds_offset a' + ds_length a') (ds_offset b' + ds_length b')
       in Inr (if left < right then Some (mk_slice left (ds_total_size a') (ds_dim a') (right - left)) else None))"

definition relative_rank :: "dim_slice \<Rightarrow> dim_slice \<Rightarrow> py_error + dim_slice" where
  "relative_rank smaller larger =
     bindR (get_unified_rank_info smaller larger) (\<lambda>(s, l).
     if ds_offset s < ds_offset l \<or> ds_offset l + ds_length l < ds_offset s + ds_length s then Inl AssertionError
     else Inr (mk_slice (ds_offset s - ds_offset l) (ds_length l) (ds_dim s) (ds_length s)))"

definition merge_rank :: "dim_slice \<Rightarrow> dim_slice \<Rightarrow> py_error + dim_slice" where
  "merge_rank outter inner =
     (if ds_length outter \<noteq> 1 \<and> ds_length outter \<noteq> 0 then Inl AssertionError
      else Inr (mk_slice (ds_offset outter * ds_total_size inner + ds_offset inner)
             (ds_total_size outter * ds_total_size inner) (ds_dim outter) (ds_length inner * ds_length outter)))"

definition full_slice :: dim_slice where
  "full_slice = mk_slice 0 1 [] 1"

definition tensor_overlap_info_at_dim ::
  "(int, dim_slice) dict \<Rightarrow> (int, dim_slice) dict \<Rightarrow> int \<Rightarrow> py_error + (dim_slice \<times> dim_slice) option" where
  "tensor_overlap_info_at_dim policy_rank rollout_rank dm =
     (let p = dict_get_or policy_rank dm full_slice; r = dict_get_or rollout_rank dm full_slice
      in bindR (get_unified_rank_info p r) (\<lambda>(p_new, r_new).
         bindR (rank_overlap p_new r_new) (\<lambda>overlap.
         case overlap of
           None \<Rightarrow> Inr None
         | Some ov \<Rightarrow>
             bindR (relative_rank ov r_new) (\<lambda>overlap_r.
             bindR (relative_rank ov p_new) (\<lambda>overlap_p.
             bindR (slice_simplify overlap_p) (\<lambda>sp.
             bindR (slice_simplify overlap_r) (\<lambda>sr.
             Inr (Some (sp, sr)))))))))"

section \<open>Tensors\<close>

record 'a tensor =
  t_shape :: "nat list"
  t_at :: "nat list \<Rightarrow> 'a"

text \<open>\<open>view[..., lo:hi, ...]\<close> along dimension \<open>idx\<close>, for non-negative bounds; Python clamps
  them to the dimension.\<close>

definition cut :: "nat \<Rightarrow> nat \<Rightarrow> nat \<Rightarrow> 'a tensor \<Rightarrow> 'a tensor" where
  "cut idx lo hi t =
     (let n = t_shape t ! idx; lo' = min lo n
      in \<lparr>t_shape = (t_shape t)[idx := min hi n - lo'], t_at = (\<lambda>ix. t_at t (ix[idx := ix ! idx + lo']))\<rparr>)"

definition slice_tensor_with_strategy :: "'a tensor \<Rightarrow> nat \<Rightarrow> dim_slice \<Rightarrow> py_error + 'a tensor" where
  "slice_tensor_with_strategy t idx s =
     (if length (t_shape t) \<le> idx then Inl IndexError
      else if ds_total_size s = 0 then Inl ZeroDivisionError
      else if int (t_shape t ! idx) mod ds_total_size s \<noteq> 0 then Inl AssertionError
      else
        let unit = int (t_shape t ! idx) div ds_total_size s;
            start = unit * ds_offset s; len = unit * ds_length s
        in Inr (cut idx (nat start) (nat (start + len)) t))"

definition slice_tensor_with_strategies :: "'a tensor \<Rightarrow> (nat, dim_slice) dict \<Rightarrow> py_error + 'a tensor" where
  "slice_tensor_with_strategies t strategys =
     forR strategys (\<lambda>(idx, s) view. slice_tensor_with_strategy view idx s) t"

section \<open>Well-formed slices\<close>

definition slice_ok :: "dim_slice \<Rightarrow> bool" where
  "slice_ok s \<longleftrightarrow> 0 \<le> ds_offset s \<and> 0 < ds_length s \<and> ds_offset s + ds_length s \<le> ds_total_size s"

text \<open>The slice written with a denominator that is a multiple of its own.\<close>

definition rescale :: "int \<Rightarrow> dim_slice \<Rightarrow> dim_slice" where
  "rescale T s = (let c = T div ds_total_size s
     in mk_slice (ds_offset s * c) T (ds_dim s) (ds_length s * c))"

lemma rescale_ok:
  assumes "slice_ok s" and "ds_total_size s dvd T" and "0 < T"
  shows "slice_ok (rescale T s)"
proof -
  let ?c = "T div ds_total_size s"
  have T: "T = ds_total_size s * ?c" using assms(2) by simp
  have pos: "0 < ds_total_size s" using assms(1) by (auto simp: slice_ok_def)
  then have "0 < ?c" using T assms(3) by (metis zero_less_mult_pos)
  moreover have "(ds_offset s + ds_length s) * ?c \<le> T"
    using assms(1) T \<open>0 < ?c\<close> by (metis mult_le_cancel_right_pos slice_ok_def mult.commute)
  ultimately show ?thesis
    using assms(1) by (simp add: rescale_def slice_ok_def Let_def distrib_right)
qed

lemma unified_rescale:
  assumes "slice_ok a" and "slice_ok b" and "ds_total_size a dvd ds_total_size b \<or> ds_total_size b dvd ds_total_size a"
  defines "T \<equiv> max (ds_total_size a) (ds_total_size b)"
  shows "get_unified_rank_info a b = Inr (rescale T a, rescale T b)" "ds_total_size a dvd T" "ds_total_size b dvd T" "0 < T"
proof -
  have pos: "0 < ds_total_size a" "0 < ds_total_size b" using assms(1,2) by (auto simp: slice_ok_def)
  then have le: "ds_total_size a dvd ds_total_size b \<Longrightarrow> ds_total_size a \<le> ds_total_size b"
    "ds_total_size b dvd ds_total_size a \<Longrightarrow> ds_total_size b \<le> ds_total_size a"
    using zdvd_imp_le by blast+
  from assms(3) show dvd: "ds_total_size a dvd T" "ds_total_size b dvd T"
    by (auto simp: T_def max_def dest: le intro: zdvd_antisym_nonneg)
  show "0 < T" using pos by (simp add: T_def)
  from dvd show "get_unified_rank_info a b = Inr (rescale T a, rescale T b)"
    using pos by (simp add: get_unified_rank_info_def rescale_def Let_def flip: T_def)
qed

lemma rescale_id: "0 < ds_total_size s \<Longrightarrow> rescale (ds_total_size s) s = s"
  by (simp add: rescale_def Let_def mk_slice_def)

lemma unified_same:
  assumes "slice_ok a" and "slice_ok b" and "ds_total_size a = ds_total_size b"
  shows "get_unified_rank_info a b = Inr (a, b)"
proof -
  have "0 < ds_total_size a" using assms(1) by (auto simp: slice_ok_def)
  then have "rescale (ds_total_size b) a = a" "rescale (ds_total_size b) b = b"
    using rescale_id [of a] rescale_id [of b] assms(3) by simp_all
  then show ?thesis using unified_rescale(1) [OF assms(1,2)] assms(3) by simp
qed

lemma relative_rank_same:
  assumes "slice_ok s" and "slice_ok l" and "ds_total_size s = ds_total_size l"
    and "ds_offset l \<le> ds_offset s" and "ds_offset s + ds_length s \<le> ds_offset l + ds_length l"
  shows "relative_rank s l = Inr (mk_slice (ds_offset s - ds_offset l) (ds_length l) (ds_dim s) (ds_length s))"
  using unified_same [OF assms(1-3)] assms(4,5) by (simp add: relative_rank_def)

text \<open>Where a slice lies in a dimension of \<open>n\<close> elements.\<close>

definition region_start :: "int \<Rightarrow> dim_slice \<Rightarrow> int" where
  "region_start n s = n div ds_total_size s * ds_offset s"

definition region_size :: "int \<Rightarrow> dim_slice \<Rightarrow> int" where
  "region_size n s = n div ds_total_size s * ds_length s"

lemma region_rescale:
  assumes "0 < ds_total_size s" and "ds_total_size s dvd T" and "T dvd n" and "0 < T"
  shows "region_start n (rescale T s) = region_start n s" "region_size n (rescale T s) = region_size n s"
proof -
  obtain c where c: "T = ds_total_size s * c" using assms(2) by blast
  obtain k where k: "n = T * k" using assms(3) by blast
  have "c \<noteq> 0" using c assms(4) by auto
  then have "n div T = k" "n div ds_total_size s = c * k" "T div ds_total_size s = c"
    using c k assms(1,4) by auto
  then show "region_start n (rescale T s) = region_start n s" "region_size n (rescale T s) = region_size n s"
    by (simp_all add: region_start_def region_size_def rescale_def Let_def)
qed

lemma simplify_region:
  assumes "slice_simplify s = Inr s'" and "0 < ds_total_size s" and "ds_total_size s dvd n"
  shows "region_start n s' = region_start n s" "region_size n s' = region_size n s" "ds_total_size s' dvd n" "0 < ds_total_size s'"
proof -
  define g where "g = gcd (gcd (ds_offset s) (ds_total_size s)) (ds_length s)"
  have g: "0 < g" using assms(2) by (simp add: g_def gcd_eq_0_iff less_le)
  have "g dvd ds_offset s" "g dvd ds_total_size s" "g dvd ds_length s"
    by (auto simp: g_def intro: dvd_trans)
  then obtain o1 t1 l1 where d: "ds_offset s = g * o1" "ds_total_size s = g * t1" "ds_length s = g * l1"
    by (auto elim!: dvdE)
  obtain k where k: "n = g * t1 * k" using assms(3) d(2) by auto
  have t1: "0 < t1" using d(2) assms(2) g by (simp add: zero_less_mult_iff)
  have "s' = mk_slice (ds_offset s div g) (ds_total_size s div g) (ds_dim s) (ds_length s div g)"
    using assms(1) g by (simp add: slice_simplify_def Let_def flip: g_def)
  then have s': "s' = mk_slice o1 t1 (ds_dim s) l1"
    using g by (simp add: d)
  have n: "n = t1 * (g * k)" using k by (simp add: ac_simps)
  have "n div t1 = g * k" unfolding n using t1 by simp
  moreover have "n div (g * t1) = k" unfolding k using g t1 by simp
  ultimately show "region_start n s' = region_start n s" "region_size n s' = region_size n s"
    by (simp_all add: region_start_def region_size_def s' d ac_simps)
  show "ds_total_size s' dvd n" "0 < ds_total_size s'" using n t1 by (simp_all add: s')
qed

lemma cut_rank [simp]: "length (t_shape (cut idx lo hi t)) = length (t_shape t)"
  by (simp add: cut_def Let_def)

lemma cut_cut:
  assumes "idx < length (t_shape t)" and "lo \<le> hi" and "hi \<le> t_shape t ! idx" and "lo' \<le> hi'" and "hi' \<le> hi - lo"
  shows "cut idx lo' hi' (cut idx lo hi t) = cut idx (lo + lo') (lo + hi') t"
proof -
  have "ix[idx := ix ! idx + lo', idx := ix[idx := ix ! idx + lo'] ! idx + lo]
      = ix[idx := ix ! idx + (lo + lo')]" for ix :: "nat list"
    by (cases "idx < length ix") (simp_all add: list_update_beyond add.assoc add.commute add.left_commute)
  moreover have "lo + lo' \<le> t_shape t ! idx" "lo + hi' \<le> t_shape t ! idx" "lo \<le> t_shape t ! idx"
    using assms by linarith+
  ultimately show ?thesis
    using assms by (simp add: cut_def Let_def)
qed

lemma slice_tensor_cut:
  assumes "idx < length (t_shape t)" and "0 < ds_total_size s" and "ds_total_size s dvd int (t_shape t ! idx)"
  shows "slice_tensor_with_strategy t idx s
    = Inr (cut idx (nat (region_start (int (t_shape t ! idx)) s))
        (nat (region_start (int (t_shape t ! idx)) s + region_size (int (t_shape t ! idx)) s)) t)"
  using assms by (simp add: slice_tensor_with_strategy_def region_start_def region_size_def Let_def)

lemma nat_plus: "0 \<le> x \<Longrightarrow> 0 \<le> y \<Longrightarrow> x + y = z \<Longrightarrow> nat x + nat y = nat z"
  by (simp add: nat_add_distrib [symmetric])

text \<open>Cutting the part \<open>lo..hi\<close> out of a shard of \<open>sz\<close> elements that starts at \<open>st\<close>.\<close>

lemma slice_of_shard:
  assumes "idx < length (t_shape t)" and "0 \<le> st" "st + sz \<le> int (t_shape t ! idx)" "st \<le> lo" "lo \<le> hi" "hi \<le> st + sz"
    and "0 < ds_total_size s" "ds_total_size s dvd sz" "region_start sz s = lo - st" "region_size sz s = hi - lo"
  shows "slice_tensor_with_strategy (cut idx (nat st) (nat (st + sz)) t) idx s = Inr (cut idx (nat lo) (nat hi) t)"
proof -
  let ?shard = "cut idx (nat st) (nat (st + sz)) t"
  have sz: "0 \<le> sz" using assms(4-6) by linarith
  have m: "int (t_shape ?shard ! idx) = sz"
    using assms(1-3) sz by (simp add: cut_def Let_def)
  have "slice_tensor_with_strategy ?shard idx s = Inr (cut idx (nat (lo - st)) (nat (lo - st + (hi - lo))) ?shard)"
    using slice_tensor_cut [of idx ?shard s, unfolded m] assms(1,7-10) by simp
  also have "cut idx (nat (lo - st)) (nat (lo - st + (hi - lo))) ?shard
      = cut idx (nat st + nat (lo - st)) (nat st + nat (lo - st + (hi - lo))) t"
    using assms(2-6) sz by (intro cut_cut [OF assms(1)]) linarith+
  also have "nat st + nat (lo - st) = nat lo"
    using assms(2,4,5) by linarith
  also have "nat st + nat (lo - st + (hi - lo)) = nat hi"
    using assms(2,4,5) by linarith
  finally show ?thesis .
qed

lemma simplify_total: "0 < ds_total_size s \<Longrightarrow> \<exists>s'. slice_simplify s = Inr s'"
  by (simp add: slice_simplify_def Let_def gcd_eq_0_iff)

text \<open>
  The overlap of two slices in elements: the parts reported lie at the same place of the
  dimension, counted from the start of either shard.
\<close>

definition relative_part :: "int \<Rightarrow> dim_slice \<Rightarrow> dim_slice \<Rightarrow> int \<Rightarrow> int \<Rightarrow> bool" where
  "relative_part n p sp lo hi \<longleftrightarrow> 0 < ds_total_size sp \<and> ds_total_size sp dvd region_size n p
     \<and> region_start (region_size n p) sp = lo - region_start n p \<and> region_size (region_size n p) sp = hi - lo"

definition overlap_lo :: "int \<Rightarrow> dim_slice \<Rightarrow> dim_slice \<Rightarrow> int" where
  "overlap_lo n p r = max (region_start n p) (region_start n r)"

definition overlap_hi :: "int \<Rightarrow> dim_slice \<Rightarrow> dim_slice \<Rightarrow> int" where
  "overlap_hi n p r = min (region_start n p + region_size n p) (region_start n r + region_size n r)"

lemma simplify_relative:
  assumes "slice_simplify (mk_slice (left - ds_offset P) (ds_length P) dm (right - left)) = Inr s"
    and "0 < ds_length P" and "region_start n p = u * ds_offset P" "region_size n p = u * ds_length P"
  shows "relative_part n p s (u * left) (u * right)"
  using simplify_region [OF assms(1), of "u * ds_length P"] assms(2-4)
  by (simp add: relative_part_def region_start_def region_size_def right_diff_distrib)

lemma overlap_regions:
  assumes ok: "slice_ok p" "slice_ok r"
    and compat: "ds_total_size p dvd ds_total_size r \<or> ds_total_size r dvd ds_total_size p"
    and dvd: "max (ds_total_size p) (ds_total_size r) dvd n" and "0 \<le> n"
    and p: "p = dict_get_or policy_rank dm full_slice" and r: "r = dict_get_or rollout_rank dm full_slice"
  shows "case tensor_overlap_info_at_dim policy_rank rollout_rank dm of
      Inl e \<Rightarrow> False
    | Inr None \<Rightarrow> overlap_hi n p r \<le> overlap_lo n p r
    | Inr (Some (sp, sr)) \<Rightarrow> overlap_lo n p r \<le> overlap_hi n p r
        \<and> relative_part n p sp (overlap_lo n p r) (overlap_hi n p r)
        \<and> relative_part n r sr (overlap_lo n p r) (overlap_hi n p r)"
proof -
  define T where "T = max (ds_total_size p) (ds_total_size r)"
  let ?P = "rescale T p" and ?R = "rescale T r" and ?u = "n div T"
  note uni = unified_rescale [OF ok compat, folded T_def]
  have okT: "slice_ok ?P" "slice_ok ?R" using rescale_ok [OF ok(1) uni(2,4)] rescale_ok [OF ok(2) uni(3,4)] by auto
  have tot: "ds_total_size ?P = T" "ds_total_size ?R = T" by (simp_all add: rescale_def Let_def)
  have pos: "0 < ds_total_size p" "0 < ds_total_size r" using ok by (auto simp: slice_ok_def)
  have Tn: "T dvd n" using dvd by (simp add: T_def)
  have u: "0 \<le> ?u" using uni(4) assms(5) by (simp add: pos_imp_zdiv_nonneg_iff)
  define left where "left = max (ds_offset ?P) (ds_offset ?R)"
  define right where "right = min (ds_offset ?P + ds_length ?P) (ds_offset ?R + ds_length ?R)"
  have reg: "region_start n p = ?u * ds_offset ?P" "region_size n p = ?u * ds_length ?P"
    "region_start n r = ?u * ds_offset ?R" "region_size n r = ?u * ds_length ?R"
    using region_rescale [OF pos(1) uni(2) Tn uni(4)] region_rescale [OF pos(2) uni(3) Tn uni(4)]
    by (simp_all add: region_start_def region_size_def tot)
  have bounds: "overlap_lo n p r = ?u * left" "overlap_hi n p r = ?u * right"
    unfolding overlap_lo_def overlap_hi_def reg left_def right_def using u
    by (simp_all add: max_mult_distrib_left min_mult_distrib_left distrib_left)
  have overlap: "rank_overlap ?P ?R = Inr (if left < right then Some (mk_slice left T (ds_dim ?P) (right - left)) else None)"
    using unified_same [OF okT] tot by (simp add: rank_overlap_def left_def right_def Let_def)
  show ?thesis
  proof (cases "left < right")
    case False
    then have "tensor_overlap_info_at_dim policy_rank rollout_rank dm = Inr None"
      using uni(1) overlap p r by (simp add: tensor_overlap_info_at_dim_def Let_def)
    then show ?thesis using False u bounds by (simp add: mult_left_mono)
  next
    case True
    let ?ov = "mk_slice left T (ds_dim ?P) (right - left)"
    let ?rel = "\<lambda>S. mk_slice (left - ds_offset S) (ds_length S) (ds_dim ?P) (right - left)"
    have ov: "slice_ok ?ov" using True okT tot by (auto simp: slice_ok_def left_def right_def)
    have rel: "relative_rank ?ov ?P = Inr (?rel ?P)" "relative_rank ?ov ?R = Inr (?rel ?R)"
      using relative_rank_same [OF ov okT(1)] relative_rank_same [OF ov okT(2)] tot by (simp_all add: left_def right_def)
    have len: "0 < ds_length ?P" "0 < ds_length ?R" using okT by (auto simp: slice_ok_def)
    obtain sp sr where s: "slice_simplify (?rel ?P) = Inr sp" "slice_simplify (?rel ?R) = Inr sr"
      using simplify_total [of "?rel ?P"] simplify_total [of "?rel ?R"] len by auto
    have "tensor_overlap_info_at_dim policy_rank rollout_rank dm = Inr (Some (sp, sr))"
      using uni(1) overlap True rel s p r by (simp add: tensor_overlap_info_at_dim_def Let_def)
    moreover have "?u * left \<le> ?u * right" using True u by (intro mult_left_mono) auto
    ultimately show ?thesis
      using simplify_relative [OF s(1) len(1) reg(1,2)] simplify_relative [OF s(2) len(2) reg(3,4)] by (simp add: bounds)
  qed
qed

lemma region_within:
  assumes "slice_ok s" and "ds_total_size s dvd n" and "0 \<le> n"
  shows "0 \<le> region_start n s" "0 \<le> region_size n s" "region_start n s + region_size n s \<le> n"
proof -
  have pos: "0 < ds_total_size s" using assms(1) by (auto simp: slice_ok_def)
  then have u: "0 \<le> n div ds_total_size s" using assms(3) by (simp add: pos_imp_zdiv_nonneg_iff)
  have "n div ds_total_size s * (ds_offset s + ds_length s) \<le> n div ds_total_size s * ds_total_size s"
    using assms(1) u by (intro mult_left_mono) (auto simp: slice_ok_def)
  then show "region_start n s + region_size n s \<le> n" using assms(2) by (simp add: region_start_def region_size_def distrib_left)
  show "0 \<le> region_start n s" "0 \<le> region_size n s"
    using assms(1) u by (simp_all add: region_start_def region_size_def slice_ok_def)
qed

section \<open>Claims\<close>

text \<open>
  C37: Both ends of a weight transfer cut out the same elements. For two well-formed slices
  of a dimension whose denominators are compatible and divide its size, the overlap
  computation raises nothing. If it reports no overlap, the two shards have no index of the
  dimension in common. Otherwise cutting the first result out of the policy's shard and
  cutting the second result out of the rollout's shard succeed and give the same tensor: the
  part of the global tensor from the larger of the two starts to the smaller of the two ends.
\<close>

theorem overlap_same_elements:
  fixes t :: "'a tensor"
  assumes p: "p = dict_get_or policy_rank dm full_slice" and r: "r = dict_get_or rollout_rank dm full_slice"
    and "slice_ok p" and "slice_ok r"
    and compat: "ds_total_size p dvd ds_total_size r \<or> ds_total_size r dvd ds_total_size p"
    and idx: "idx < length (t_shape t)" and n: "n = int (t_shape t ! idx)"
    and dvd: "max (ds_total_size p) (ds_total_size r) dvd n"
    and lo: "lo = max (region_start n p) (region_start n r)"
    and hi: "hi = min (region_start n p + region_size n p) (region_start n r + region_size n r)"
  shows "case tensor_overlap_info_at_dim policy_rank rollout_rank dm of
      Inl e \<Rightarrow> False
    | Inr None \<Rightarrow> hi \<le> lo
    | Inr (Some (sp, sr)) \<Rightarrow> lo \<le> hi \<and> (\<exists>tp tr.
        slice_tensor_with_strategy t idx p = Inr tp \<and> slice_tensor_with_strategy t idx r = Inr tr
        \<and> slice_tensor_with_strategy tp idx sp = Inr (cut idx (nat lo) (nat hi) t)
        \<and> slice_tensor_with_strategy tr idx sr = Inr (cut idx (nat lo) (nat hi) t))"
proof -
  let ?tens = "\<lambda>s. cut idx (nat (region_start n s)) (nat (region_start n s + region_size n s)) t"
  have bounds: "lo = overlap_lo n p r" "hi = overlap_hi n p r" unfolding lo hi overlap_lo_def overlap_hi_def by simp_all
  have n0: "0 \<le> n" using n by simp
  have pos: "0 < ds_total_size p" "0 < ds_total_size r" using assms(3,4) by (auto simp: slice_ok_def)
  have div: "ds_total_size p dvd n" "ds_total_size r dvd n"
    using dvd_trans [OF _ dvd] unified_rescale(2,3) [OF assms(3,4) compat] by auto
  have local: "slice_tensor_with_strategy t idx p = Inr (?tens p)" "slice_tensor_with_strategy t idx r = Inr (?tens r)"
    using slice_tensor_cut [OF idx] pos div n by auto
  note in_p = region_within [OF assms(3) div(1) n0] and in_r = region_within [OF assms(4) div(2) n0]
  have cutp: "slice_tensor_with_strategy (?tens p) idx sp = Inr (cut idx (nat lo) (nat hi) t)"
    if "relative_part n p sp lo hi" "lo \<le> hi" for sp
    using that in_p n by (intro slice_of_shard [OF idx]) (auto simp: relative_part_def lo hi)
  have cutr: "slice_tensor_with_strategy (?tens r) idx sr = Inr (cut idx (nat lo) (nat hi) t)"
    if "relative_part n r sr lo hi" "lo \<le> hi" for sr
    using that in_r n by (intro slice_of_shard [OF idx]) (auto simp: relative_part_def lo hi)
  from overlap_regions [OF assms(3,4) compat dvd n0 p r] local cutp cutr show ?thesis
    by (auto simp: bounds [symmetric] split: sum.splits option.splits)
qed

text \<open>
  Merged slices are nested slices. If the outer slice is one unit long and the product
  of the denominators divides the dimension, then slicing by the outer and then by the inner
  slice gives the same tensor as slicing once by the merged slice.
\<close>

theorem merge_rank_nests:
  fixes t :: "'a tensor"
  assumes "slice_ok outter" and "slice_ok inner" and "ds_length outter = 1"
    and "idx < length (t_shape t)" and "ds_total_size outter * ds_total_size inner dvd int (t_shape t ! idx)"
  shows "\<exists>m sub res. merge_rank outter inner = Inr m \<and> slice_tensor_with_strategy t idx outter = Inr sub
    \<and> slice_tensor_with_strategy sub idx inner = Inr res \<and> slice_tensor_with_strategy t idx m = Inr res"
proof -
  let ?O = "ds_offset outter" and ?T = "ds_total_size outter" and ?o = "ds_offset inner" and ?t = "ds_total_size inner"
    and ?l = "ds_length inner" and ?n = "int (t_shape t ! idx)"
  obtain k where k: "?n = ?T * ?t * k" using assms(5) by blast
  have pos: "0 < ?T" "0 < ?t" "0 \<le> ?O" "?O + 1 \<le> ?T" "0 \<le> ?o" "0 < ?l" "?o + ?l \<le> ?t"
    using assms(1-3) by (auto simp: slice_ok_def)
  have "0 \<le> ?T * ?t * k" using k by simp
  moreover have "0 < ?T * ?t" using pos(1,2) by simp
  ultimately have k0: "0 \<le> k" by (simp only: zero_le_mult_iff) linarith
  let ?u = "?t * k"
  have u0: "0 \<le> ?u" using pos(2) k0 by simp
  have nT: "?n div ?T = ?u" "?n div (?T * ?t) = k" using k pos(1,2) by simp_all
  have sub: "slice_tensor_with_strategy t idx outter = Inr (cut idx (nat (?u * ?O)) (nat (?u * (?O + 1))) t)"
    using slice_tensor_cut [OF assms(4) pos(1)] k nT assms(3)
    by (simp add: region_start_def region_size_def distrib_left mult.assoc)
  have hi: "?u * (?O + 1) \<le> ?n"
    using mult_left_mono [OF pos(4) u0] k by (simp add: ac_simps)
  let ?sub = "cut idx (nat (?u * ?O)) (nat (?u * (?O + 1))) t"
  have le: "0 \<le> ?u * ?O" "?u * ?O \<le> ?u * (?O + 1)" using u0 pos(3) by (simp_all add: mult_left_mono)
  have len: "int (t_shape ?sub ! idx) = ?u"
    using assms(4) hi le by (simp add: cut_def Let_def nat_diff_distrib [symmetric] distrib_left)
  have inner: "slice_tensor_with_strategy ?sub idx inner = Inr (cut idx (nat (k * ?o)) (nat (k * (?o + ?l))) ?sub)"
    using slice_tensor_cut [of idx ?sub inner] pos(2) assms(4) len
    by (simp add: region_start_def region_size_def distrib_left)
  have ko: "0 \<le> k * ?o" "k * ?o \<le> k * (?o + ?l)" "k * (?o + ?l) \<le> ?u"
    using k0 pos(5,6) mult_left_mono [OF pos(7) k0] by (simp_all add: mult_left_mono ac_simps)
  have cc: "cut idx (nat (k * ?o)) (nat (k * (?o + ?l))) ?sub
      = cut idx (nat (?u * ?O) + nat (k * ?o)) (nat (?u * ?O) + nat (k * (?o + ?l))) t"
    using le hi ko by (intro cut_cut [OF assms(4)]) (auto simp: distrib_left nat_diff_distrib [symmetric])
  have sums: "nat (?u * ?O) + nat (k * ?o) = nat (k * (?O * ?t + ?o))"
    "nat (?u * ?O) + nat (k * (?o + ?l)) = nat (k * (?O * ?t + ?o) + k * ?l)"
    using le ko by (intro nat_plus; simp add: algebra_simps)+
  let ?m = "mk_slice (?O * ?t + ?o) (?T * ?t) (ds_dim outter) (?l * 1)"
  have "slice_tensor_with_strategy t idx ?m = Inr (cut idx (nat (k * (?O * ?t + ?o))) (nat (k * (?O * ?t + ?o) + k * ?l)) t)"
    using slice_tensor_cut [OF assms(4), of ?m] pos(1,2) assms(5) nT
    by (simp add: region_start_def region_size_def)
  then show ?thesis
    using sub inner cc sums assms(3) by (simp add: merge_rank_def)
qed

lemma unified_ok:
  assumes "slice_ok a" and "slice_ok b" and "get_unified_rank_info a b = Inr (a', b')"
  shows "slice_ok a'" "slice_ok b'" "ds_total_size a' = ds_total_size b'"
proof -
  have pos: "0 < ds_total_size a" "0 < ds_total_size b" using assms(1,2) by (auto simp: slice_ok_def)
  define T where "T = max (ds_total_size a) (ds_total_size b)"
  have dvd: "ds_total_size a dvd T" "ds_total_size b dvd T" and eq: "a' = rescale T a" "b' = rescale T b"
    using assms(3) by (auto simp: get_unified_rank_info_def rescale_def Let_def T_def [symmetric] mod_eq_0_iff_dvd split: if_splits)
  have "0 < T" using pos by (simp add: T_def)
  then show "slice_ok a'" "slice_ok b'" "ds_total_size a' = ds_total_size b'"
    using rescale_ok [OF assms(1) dvd(1)] rescale_ok [OF assms(2) dvd(2)] eq by (simp_all add: rescale_def Let_def)
qed

lemma simplify_ok:
  assumes "slice_ok s" and "slice_simplify s = Inr s'"
  shows "slice_ok s'"
proof -
  define g where "g = gcd (gcd (ds_offset s) (ds_total_size s)) (ds_length s)"
  have g: "0 < g" using assms(1) by (auto simp: g_def slice_ok_def gcd_eq_0_iff less_le)
  have "g dvd ds_offset s" "g dvd ds_total_size s" "g dvd ds_length s" by (auto simp: g_def intro: dvd_trans)
  then obtain x y z where d: "ds_offset s = g * x" "ds_total_size s = g * y" "ds_length s = g * z" by (auto elim!: dvdE)
  have "g * (x + z) \<le> g * y" "0 < g * z" "0 \<le> g * x" using assms(1) d by (simp_all add: slice_ok_def distrib_left)
  then have "x + z \<le> y" "0 < z" "0 \<le> x" using g by (simp_all add: zero_less_mult_iff zero_le_mult_iff)
  moreover have "s' = mk_slice (ds_offset s div g) (ds_total_size s div g) (ds_dim s) (ds_length s div g)"
    using assms(2) g by (simp add: slice_simplify_def Let_def flip: g_def)
  then have "s' = mk_slice x y (ds_dim s) z" using g by (simp add: d)
  ultimately show ?thesis by (simp add: slice_ok_def)
qed

text \<open>
  C38: Well-formed slices stay well-formed. Every operation on slices that succeeds on slices
  that lie within their dimension and are not empty gives such slices again: reduction to lowest
  terms (which always succeeds), unification (to one denominator), overlap, the position of a
  slice inside another, and merging.
\<close>

theorem slice_ops_well_formed:
  assumes "slice_ok a" and "slice_ok b"
  shows "(\<exists>s. slice_simplify a = Inr s \<and> slice_ok s)
    \<and> (\<forall>a' b'. get_unified_rank_info a b = Inr (a', b') \<longrightarrow> slice_ok a' \<and> slice_ok b' \<and> ds_total_size a' = ds_total_size b')
    \<and> (\<forall>ov. rank_overlap a b = Inr (Some ov) \<longrightarrow> slice_ok ov)
    \<and> (\<forall>rel. relative_rank a b = Inr rel \<longrightarrow> slice_ok rel)
    \<and> (\<forall>m. merge_rank a b = Inr m \<longrightarrow> slice_ok m)"
proof (intro conjI allI impI)
  have "0 < ds_total_size a" using assms(1) by (auto simp: slice_ok_def)
  then show "\<exists>s. slice_simplify a = Inr s \<and> slice_ok s"
    using simplify_total [of a] simplify_ok [OF assms(1)] by blast
  show "slice_ok a'" "slice_ok b'" "ds_total_size a' = ds_total_size b'" if "get_unified_rank_info a b = Inr (a', b')" for a' b'
    using unified_ok [OF assms that] .
  show "slice_ok ov" if run: "rank_overlap a b = Inr (Some ov)" for ov
  proof -
    obtain a' b' where u: "get_unified_rank_info a b = Inr (a', b')" using run by (auto simp: rank_overlap_def)
    then show ?thesis using run unified_ok [OF assms u] by (auto simp: rank_overlap_def slice_ok_def Let_def split: if_splits)
  qed
  show "slice_ok rel" if run: "relative_rank a b = Inr rel" for rel
  proof -
    obtain a' b' where u: "get_unified_rank_info a b = Inr (a', b')" using run by (auto simp: relative_rank_def)
    then show ?thesis using run unified_ok [OF assms u] by (auto simp: relative_rank_def slice_ok_def split: if_splits)
  qed
  show "slice_ok m" if run: "merge_rank a b = Inr m" for m
  proof -
    have one: "ds_length a = 1" and m: "m = mk_slice (ds_offset a * ds_total_size b + ds_offset b) (ds_total_size a * ds_total_size b) (ds_dim a) (ds_length b)"
      using run assms(1) by (auto simp: merge_rank_def slice_ok_def split: if_splits)
    have "(ds_offset a + 1) * ds_total_size b \<le> ds_total_size a * ds_total_size b"
      using assms one by (intro mult_right_mono) (auto simp: slice_ok_def)
    then show ?thesis using assms one by (simp add: m slice_ok_def distrib_right)
  qed
qed

section \<open>Evaluation\<close>

definition ex_vector :: "nat tensor" where
  "ex_vector = \<lparr>t_shape = [8], t_at = hd\<rparr>"

theorem overlap_same_elements_witness:
  "tensor_overlap_info_at_dim [(0, mk_slice 0 2 [] 1)] [(0, mk_slice 1 4 [] 2)] 0 = Inr (Some (mk_slice 1 2 [] 1, mk_slice 0 2 [] 1))
   \<and> (\<exists>tp tr. slice_tensor_with_strategy ex_vector 0 (mk_slice 0 2 [] 1) = Inr tp
      \<and> slice_tensor_with_strategy ex_vector 0 (mk_slice 1 4 [] 2) = Inr tr
      \<and> slice_tensor_with_strategy tp 0 (mk_slice 1 2 [] 1) = Inr (cut 0 2 4 ex_vector)
      \<and> slice_tensor_with_strategy tr 0 (mk_slice 0 2 [] 1) = Inr (cut 0 2 4 ex_vector))"
proof -
  let ?p = "mk_slice 0 2 [] 1" and ?r = "mk_slice 1 4 [] 2"
  have run: "tensor_overlap_info_at_dim [(0, ?p)] [(0, ?r)] 0 = Inr (Some (mk_slice 1 2 [] 1, mk_slice 0 2 [] 1))"
    by code_simp
  have pre: "?p = dict_get_or [(0 :: int, ?p)] 0 full_slice" "?r = dict_get_or [(0 :: int, ?r)] 0 full_slice" "slice_ok ?p" "slice_ok ?r"
    "ds_total_size ?p dvd ds_total_size ?r \<or> ds_total_size ?r dvd ds_total_size ?p" "0 < length (t_shape ex_vector)"
    "8 = int (t_shape ex_vector ! 0)" "max (ds_total_size ?p) (ds_total_size ?r) dvd 8"
    "2 = max (region_start 8 ?p) (region_start 8 ?r)"
    "4 = min (region_start 8 ?p + region_size 8 ?p) (region_start 8 ?r + region_size 8 ?r)"
    by code_simp+
  from overlap_same_elements [OF pre(1-7) pre(8) pre(9,10)] run show ?thesis by simp
qed

theorem merge_rank_nests_witness:
  "\<exists>m sub res. merge_rank (mk_slice 1 2 [] 1) (mk_slice 0 2 [] 1) = Inr m
    \<and> slice_tensor_with_strategy ex_vector 0 (mk_slice 1 2 [] 1) = Inr sub
    \<and> slice_tensor_with_strategy sub 0 (mk_slice 0 2 [] 1) = Inr res \<and> slice_tensor_with_strategy ex_vector 0 m = Inr res"
  by (rule merge_rank_nests) (code_simp+)

theorem slice_ops_well_formed_witness:
  "rank_overlap (mk_slice 0 2 [] 1) (mk_slice 1 4 [] 2) = Inr (Some (mk_slice 1 4 [] 1)) \<and> slice_ok (mk_slice 1 4 [] 1)"
proof -
  have run: "rank_overlap (mk_slice 0 2 [] 1) (mk_slice 1 4 [] 2) = Inr (Some (mk_slice 1 4 [] 1))" by code_simp
  have ok: "slice_ok (mk_slice 0 2 [] 1)" "slice_ok (mk_slice 1 4 [] 2)" by code_simp+
  from slice_ops_well_formed [OF ok] run show ?thesis by blast
qed

end
