(* ===== verification/Parallel_Dims.thy ===== *)
theory Parallel_Dims
  imports Prelude
begin

text \<open>
  The parallel topology of a replica (class \<open>ParallelDims\<close> of cosmos_rl/utils/parallelism.py and
  \<open>ParallelismConfig\<close> of cosmos_rl/policy/config/__init__.py): construction from a
  configuration, validation, and the tables \<open>full_rank_info\<close> and \<open>full_world_size_info\<close> that
  give every global rank its coordinate in every mesh dimension. \<open>numpy.array_split\<close> is the
  parameter \<open>array_split\<close>; what is used of it is its documented behaviour on a length that
  the number of sections divides (\<open>splits_evenly\<close>). Lemmas: the tables are the mixed-radix
  digits of the global rank.
\<close>

section \<open>Configuration and dimensions\<close>

record parallelism_config =
  cfg_tp_size :: int
  cfg_cp_size :: int
  cfg_ep_size :: int
  cfg_dp_shard_size :: int
  cfg_pp_size :: int
  cfg_pp_dynamic_shape :: bool
  cfg_pp_micro_batch_size :: int
  cfg_dp_replicate_size :: int
  cfg_pp_schedule :: string
  cfg_pp_layers_per_stage :: int

type_synonym rank_info = "(string, nat) dict"

record parallel_dims =
  pd_dp_replicate :: int
  pd_dp_shard :: int
  pd_cp :: int
  pd_tp :: int
  pd_pp :: int
  pd_world_size :: int
  pd_pp_dynamic_shape :: bool
  pd_pp_micro_batch_size :: int
  pd_pp_schedule :: string
  pd_pp_layers_per_stage :: int
  pd_enable_loss_parallel :: bool
  pd_ep :: int
  pd_dp_shard_with_ep :: int
  pd_full_rank_info :: "rank_info list"
  pd_full_world_size_info :: "(string, int) dict"

text \<open>\<open>d[k]\<close> on a dictionary.\<close>

definition dict_item :: "('k, 'v) dict \<Rightarrow> 'k \<Rightarrow> py_error + 'v" where
  "dict_item d k = (case dict_get d k of None \<Rightarrow> Inl KeyError | Some v \<Rightarrow> Inr v)"

section \<open>Validation\<close>

definition validate_ep :: "parallel_dims \<Rightarrow> py_error + parallel_dims" where
  "validate_ep d =
     (if pd_dp_shard_with_ep d \<noteq> -1 \<and> pd_dp_shard_with_ep d < 1 then Inl AssertionError
      else
        let d' = (if pd_dp_shard_with_ep d < 0
              then d\<lparr>pd_dp_shard_with_ep := pd_world_size d div (pd_pp d * pd_ep d * pd_tp d)\<rparr> else d)
        in if pd_dp_shard_with_ep d' < 1 then Inl AssertionError
           else if 1 < pd_tp d' then Inl ValueError
           else if 1 < pd_pp d' \<and> 1 < pd_dp_shard_with_ep d' then Inl ValueError
           else if pd_pp d' * pd_dp_shard_with_ep d' * pd_ep d' * pd_tp d' \<noteq> pd_world_size d' then Inl ValueError
           else Inr d')"

definition validate :: "parallel_dims \<Rightarrow> py_error + parallel_dims" where
  "validate d =
     (if list_ex (\<lambda>x. x < 1) [pd_dp_replicate d, pd_cp d, pd_tp d, pd_pp d, pd_ep d] then Inl AssertionError
      else if pd_dp_shard d \<noteq> -1 \<and> pd_dp_shard d < 1 then Inl AssertionError
      else
        let d' = (if pd_dp_shard d < 0
              then d\<lparr>pd_dp_shard := pd_world_size d div (pd_dp_replicate d * pd_cp d * pd_tp d * pd_pp d)\<rparr> else d)
        in if pd_dp_shard d' < 1 then Inl AssertionError
           else if pd_dp_replicate d' * pd_dp_shard d' * pd_cp d' * pd_tp d' * pd_pp d' \<noteq> pd_world_size d' then Inl AssertionError
           else if 1 < pd_pp d' \<and> 1 < pd_dp_replicate d' then Inl ValueError
           else if 1 < pd_ep d' then validate_ep d'
           else Inr d')"

section \<open>The rank tables\<close>

type_synonym splitter = "nat list \<Rightarrow> nat \<Rightarrow> nat list list"

text \<open>\<open>info[d][dim] = r\<close> for the ranks \<open>d\<close> of one part of a mesh.\<close>

definition note_part :: "string \<Rightarrow> nat list \<Rightarrow> nat \<Rightarrow> nat list \<Rightarrow> rank_info list \<Rightarrow> rank_info list" where
  "note_part dm m r arr info =
     fold (\<lambda>d info. if d \<in> set m then info[d := dict_set dm r (info ! d)] else info) arr info"

definition split_mesh :: "splitter \<Rightarrow> string \<Rightarrow> nat \<Rightarrow> nat list \<Rightarrow> rank_info list \<times> nat list list \<Rightarrow> rank_info list \<times> nat list list" where
  "split_mesh array_split dm k m s =
     fold (\<lambda>(r, arr) (info, new). (note_part dm m r arr info, new @ [arr])) (enumerate 0 (array_split m k)) s"

definition split_meshes :: "splitter \<Rightarrow> string \<times> nat \<Rightarrow> rank_info list \<times> nat list list \<Rightarrow> rank_info list \<times> nat list list" where
  "split_meshes array_split = (\<lambda>(dm, k) (info, meshes). fold (split_mesh array_split dm k) meshes (info, []))"

definition dim_paras :: "parallel_dims \<Rightarrow> (string \<times> nat) list" where
  "dim_paras d = [(''pp'', nat (pd_pp d)), (''dp_replicate'', nat (pd_dp_replicate d)),
     (''dp_shard'', nat (pd_dp_shard d)), (''cp'', nat (pd_cp d)), (''tp'', nat (pd_tp d))]"

definition mesh_ranks :: "splitter \<Rightarrow> parallel_dims \<Rightarrow> rank_info list" where
  "mesh_ranks array_split d =
     (let n = nat (pd_world_size d)
      in fst (fold (split_meshes array_split) (dim_paras d) (replicate n [], [[0..<n]])))"

definition world_size_info :: "parallel_dims \<Rightarrow> (string, int) dict" where
  "world_size_info d =
     map (\<lambda>(dm, k). (dm, int k)) (dim_paras d) @
     [(''dp_shard_cp'', pd_dp_shard d * pd_cp d),
      (''dp'', pd_dp_replicate d * pd_dp_shard d),
      (''dp_cp_tp'', pd_dp_replicate d * pd_dp_shard d * pd_cp d * pd_tp d),
      (''pp_cp_tp'', pd_cp d * pd_tp d * pd_pp d)]"

text \<open>The ranks in the merged dimensions, added to the table of one rank.\<close>

definition add_merged_ranks :: "parallel_dims \<Rightarrow> rank_info \<Rightarrow> py_error + rank_info" where
  "add_merged_ranks d ri =
     bindR (dict_item ri ''dp_replicate'') (\<lambda>rep.
     bindR (dict_item ri ''dp_shard'') (\<lambda>sh.
     bindR (dict_item ri ''cp'') (\<lambda>c.
     bindR (dict_item ri ''tp'') (\<lambda>t.
     bindR (dict_item ri ''pp'') (\<lambda>p.
     let S = nat (pd_dp_shard d); C = nat (pd_cp d); T = nat (pd_tp d) in
     Inr (dict_set ''pp_cp_tp'' (p * T * C + c * T + t)
         (dict_set ''dp'' (rep * S + sh)
         (dict_set ''dp_shard_cp'' (sh * C + c)
         (dict_set ''dp_cp_tp'' (rep * S * C * T + sh * C * T + c * T + t) ri)))))))))"

definition build_mesh_info :: "splitter \<Rightarrow> parallel_dims \<Rightarrow> py_error + parallel_dims" where
  "build_mesh_info array_split d =
     bindR (mapR (add_merged_ranks d) (mesh_ranks array_split d)) (\<lambda>info.
     Inr (d\<lparr>pd_full_rank_info := info, pd_full_world_size_info := world_size_info d\<rparr>))"

text \<open>\<open>ParallelDims(...)\<close>: the data class runs \<open>__post_init__\<close>.\<close>

definition post_init :: "splitter \<Rightarrow> parallel_dims \<Rightarrow> py_error + parallel_dims" where
  "post_init array_split d = bindR (validate d) (build_mesh_info array_split)"

definition from_config_for_analysis :: "splitter \<Rightarrow> parallelism_config \<Rightarrow> int \<Rightarrow> py_error + parallel_dims" where
  "from_config_for_analysis array_split c n =
     post_init array_split
       \<lparr>pd_dp_replicate = cfg_dp_replicate_size c, pd_dp_shard = cfg_dp_shard_size c, pd_cp = cfg_cp_size c,
        pd_tp = cfg_tp_size c, pd_pp = cfg_pp_size c, pd_world_size = n,
        pd_pp_dynamic_shape = cfg_pp_dynamic_shape c, pd_pp_micro_batch_size = cfg_pp_micro_batch_size c,
        pd_pp_schedule = cfg_pp_schedule c, pd_pp_layers_per_stage = cfg_pp_layers_per_stage c,
        pd_enable_loss_parallel = False, pd_ep = cfg_ep_size c, pd_dp_shard_with_ep = -1,
        pd_full_rank_info = [], pd_full_world_size_info = []\<rparr>"

section \<open>Queries\<close>

definition get_rank_in_dim :: "parallel_dims \<Rightarrow> string \<Rightarrow> nat \<Rightarrow> py_error + nat" where
  "get_rank_in_dim d dm g =
     (if length (pd_full_rank_info d) \<le> g then Inl IndexError
      else case dict_get (pd_full_rank_info d ! g) dm of None \<Rightarrow> Inl ValueError | Some r \<Rightarrow> Inr r)"

definition get_size_in_dim :: "parallel_dims \<Rightarrow> string \<Rightarrow> py_error + int" where
  "get_size_in_dim d dm =
     (case dict_get (pd_full_world_size_info d) dm of None \<Rightarrow> Inl ValueError | Some n \<Rightarrow> Inr n)"

definition dp_replicate_enabled :: "parallel_dims \<Rightarrow> bool" where
  "dp_replicate_enabled d \<longleftrightarrow> 1 < pd_dp_replicate d"

definition dp_shard_enabled :: "parallel_dims \<Rightarrow> bool" where
  "dp_shard_enabled d \<longleftrightarrow> 1 \<le> pd_dp_shard d"

definition cp_enabled :: "parallel_dims \<Rightarrow> bool" where
  "cp_enabled d \<longleftrightarrow> 1 < pd_cp d"

definition tp_enabled :: "parallel_dims \<Rightarrow> bool" where
  "tp_enabled d \<longleftrightarrow> 1 < pd_tp d"

definition pp_enabled :: "parallel_dims \<Rightarrow> bool" where
  "pp_enabled d \<longleftrightarrow> 1 < pd_pp d"

definition non_data_parallel_size :: "parallel_dims \<Rightarrow> int" where
  "non_data_parallel_size d = pd_cp d * pd_tp d * pd_pp d"

definition build_mesh_dims :: "parallel_dims \<Rightarrow> (int \<times> string) list \<Rightarrow> py_error + (int \<times> string) list" where
  "build_mesh_dims d dims =
     (let valid = filter (\<lambda>(k, nm). 1 < k \<or> nm = ''dp_shard'') dims
      in if prod_list (map fst valid) \<noteq> pd_world_size d then Inl AssertionError else Inr valid)"

section \<open>Splitting a mesh evenly\<close>

text \<open>The documented behaviour of \<open>numpy.array_split\<close> when the sections come out equal.\<close>

definition splits_evenly :: "splitter \<Rightarrow> bool" where
  "splits_evenly array_split \<longleftrightarrow> (\<forall>xs k. 0 < k \<longrightarrow> k dvd length xs \<longrightarrow>
     length (array_split xs k) = k \<and> concat (array_split xs k) = xs
     \<and> (\<forall>c \<in> set (array_split xs k). length c = length xs div k))"

text \<open>The ranks of \<open>n\<close> consecutive blocks of \<open>B\<close> ranks, from rank \<open>a\<close> on.\<close>

definition blocks :: "nat \<Rightarrow> nat \<Rightarrow> nat \<Rightarrow> nat list list" where
  "blocks a B n = map (\<lambda>r. [a + r * B..<a + Suc r * B]) [0..<n]"

lemma concat_uniform_nth:
  assumes "\<And>c. c \<in> set cs \<Longrightarrow> length c = B" and "r < length cs"
  shows "cs ! r = take B (drop (r * B) (concat cs))"
  using assms
proof (induction cs arbitrary: r)
  case Nil
  then show ?case by simp
next
  case (Cons c cs)
  then show ?case by (cases r) (auto simp: add.commute)
qed

lemma split_range:
  assumes "splits_evenly array_split" and "0 < k"
  shows "array_split [a..<a + k * B] k = blocks a B k"
proof -
  let ?xs = "[a..<a + k * B]" and ?cs = "array_split [a..<a + k * B] k"
  have even: "length ?cs = k" "concat ?cs = ?xs" "\<And>c. c \<in> set ?cs \<Longrightarrow> length c = B"
    using assms by (auto simp: splits_evenly_def dest: spec [of _ ?xs])
  show ?thesis
  proof (rule nth_equalityI)
    show "length ?cs = length (blocks a B k)" using even(1) by (simp add: blocks_def)
  next
    fix r assume r: "r < length ?cs"
    then have "Suc r * B \<le> k * B" using even(1) by (intro mult_right_mono) auto
    then have "take B (drop (r * B) ?xs) = [a + r * B..<a + Suc r * B]"
      by (simp add: drop_upt take_upt ac_simps)
    then show "?cs ! r = blocks a B k ! r"
      using concat_uniform_nth [OF even(3) r] even(1,2) r by (simp add: blocks_def)
  qed
qed

lemma note_part_length [simp]: "length (note_part dm m r arr info) = length info"
  unfolding note_part_def by (induction arr arbitrary: info) auto

lemma note_part_nth:
  assumes "distinct arr" and "set arr \<subseteq> set m" and "d < length info"
  shows "note_part dm m r arr info ! d = (if d \<in> set arr then dict_set dm r (info ! d) else info ! d)"
  using assms unfolding note_part_def
proof (induction arr arbitrary: info)
  case Nil
  then show ?case by simp
next
  case (Cons x arr)
  then show ?case by (cases "x = d") (auto simp: nth_list_update)
qed

lemma block_index: "a + r * B \<le> d \<Longrightarrow> d < a + Suc r * B \<Longrightarrow> (d - a) div B = (r :: nat)"
  by (intro div_nat_eqI) (auto simp: mult.commute)

text \<open>Splitting one block into \<open>k\<close> parts notes, for every rank of the block, its part.\<close>

lemma split_mesh_blocks:
  assumes "splits_evenly array_split" and "0 < k"
  shows "fst (split_mesh array_split dm k [a..<a + k * B] (info, new)) = map (\<lambda>d. if a \<le> d \<and> d < a + k * B
        then dict_set dm ((d - a) div B) (info ! d) else info ! d) [0..<length info]" (is ?info)
    and "snd (split_mesh array_split dm k [a..<a + k * B] (info, new)) = new @ blocks a B k" (is ?new)
proof -
  let ?m = "[a..<a + k * B]"
  let ?step = "\<lambda>(r, arr) (info, new). (note_part dm ?m r arr info, new @ [arr])"
  have gen: "i \<le> k \<Longrightarrow> fold ?step (take i (enumerate 0 (blocks a B k))) (info, new)
      = (map (\<lambda>d. if a \<le> d \<and> d < a + i * B then dict_set dm ((d - a) div B) (info ! d) else info ! d) [0..<length info],
         new @ blocks a B i)" for i
  proof (induction i)
    case 0
    show ?case by (auto simp: blocks_def intro!: nth_equalityI)
  next
    case (Suc i)
    have i: "i < length (enumerate 0 (blocks a B k))" using Suc.prems by (simp add: blocks_def)
    have nth: "enumerate 0 (blocks a B k) ! i = (i, [a + i * B..<a + Suc i * B])"
      using Suc.prems by (simp add: blocks_def nth_enumerate_eq)
    have "Suc i * B \<le> k * B" using Suc.prems by (intro mult_right_mono) auto
    then have sub: "set [a + i * B..<a + Suc i * B] \<subseteq> set ?m" by auto
    let ?noted = "\<lambda>i. map (\<lambda>d. if a \<le> d \<and> d < a + i * B then dict_set dm ((d - a) div B) (info ! d) else info ! d) [0..<length info]"
    have "note_part dm ?m i [a + i * B..<a + Suc i * B] (?noted i) = ?noted (Suc i)"
    proof (rule nth_equalityI)
      fix d assume "d < length (note_part dm ?m i [a + i * B..<a + Suc i * B] (?noted i))"
      then have d: "d < length info" by simp
      consider "d < a + i * B" | "a + i * B \<le> d" "d < a + Suc i * B" | "a + Suc i * B \<le> d" by linarith
      then show "note_part dm ?m i [a + i * B..<a + Suc i * B] (?noted i) ! d = ?noted (Suc i) ! d"
        by cases (use d sub in \<open>simp_all add: note_part_nth block_index\<close>)
    qed simp
    moreover have "blocks a B i @ [[a + i * B..<a + Suc i * B]] = blocks a B (Suc i)"
      by (simp add: blocks_def)
    ultimately show ?case
      using Suc by (simp add: take_Suc_conv_app_nth [OF i] nth del: upt_Suc mult_Suc)
  qed
  have "split_mesh array_split dm k ?m (info, new) = fold ?step (take k (enumerate 0 (blocks a B k))) (info, new)"
    using split_range [OF assms] by (simp add: split_mesh_def blocks_def)
  with gen [OF order_refl] show ?info ?new by simp_all
qed

text \<open>Splitting all \<open>N\<close> blocks: the part of a rank within its block, and \<open>N * k\<close> smaller blocks.\<close>

lemma blocks_append: "blocks a B n @ blocks (a + n * B) B m = blocks a B (n + m)"
proof -
  have "map (\<lambda>r. [a + r * B..<a + Suc r * B]) [n..<n + m] = map (\<lambda>r. [a + n * B + r * B..<a + n * B + Suc r * B]) [0..<m]"
    by (rule nth_equalityI) (simp_all add: algebra_simps)
  then show ?thesis using upt_add_eq_append [of 0 n m] by (simp add: blocks_def del: mult_Suc upt_Suc)
qed

lemma split_meshes_blocks:
  assumes "splits_evenly array_split" and "0 < k" and "0 < B"
  shows "split_meshes array_split (dm, k) (info, blocks 0 (k * B) N)
    = (map (\<lambda>d. if d < N * (k * B) then dict_set dm (d mod (k * B) div B) (info ! d) else info ! d) [0..<length info],
       blocks 0 B (N * k))"
proof (induction N)
  case 0
  show ?case by (auto simp: split_meshes_def blocks_def intro!: nth_equalityI)
next
  case (Suc N)
  let ?K = "k * B"
  have last: "blocks 0 ?K (Suc N) = blocks 0 ?K N @ [[N * ?K..<N * ?K + ?K]]"
    by (simp add: blocks_def add.commute)
  have part: "(d - N * ?K) div B = d mod ?K div B" if "N * ?K \<le> d" "d < N * ?K + ?K" for d
  proof -
    have "d - N * ?K < ?K" using that by linarith
    then have "(d - N * ?K) mod ?K = d - N * ?K" by simp
    moreover have "d = N * ?K + (d - N * ?K)" using that by simp
    ultimately show ?thesis by (metis mod_mult_self3)
  qed
  show ?case
    using Suc.IH split_mesh_blocks [OF assms(1,2), of dm "N * ?K" B] blocks_append [of 0 B "N * k" k]
    by (auto simp: split_meshes_def last part mult.assoc add.commute intro!: prod_eqI nth_equalityI)
qed

section \<open>The tables\<close>

text \<open>The number of ranks, and the rank with given coordinates.\<close>

definition mesh_size :: "parallel_dims \<Rightarrow> nat" where
  "mesh_size d = nat (pd_pp d) * (nat (pd_dp_replicate d) * (nat (pd_dp_shard d) * (nat (pd_cp d) * nat (pd_tp d))))"

definition mesh_rank :: "parallel_dims \<Rightarrow> nat \<Rightarrow> nat \<Rightarrow> nat \<Rightarrow> nat \<Rightarrow> nat \<Rightarrow> nat" where
  "mesh_rank d p rep sh c t =
     (((p * nat (pd_dp_replicate d) + rep) * nat (pd_dp_shard d) + sh) * nat (pd_cp d) + c) * nat (pd_tp d) + t"

definition dims_positive :: "parallel_dims \<Rightarrow> bool" where
  "dims_positive d \<longleftrightarrow> 0 < pd_pp d \<and> 0 < pd_dp_replicate d \<and> 0 < pd_dp_shard d \<and> 0 < pd_cp d \<and> 0 < pd_tp d"

lemma digits_step:
  assumes "(x :: nat) < k" and "y < B"
  shows "(x * B + y) div B = x" "(x * B + y) mod B = y" "x * B + y < k * B"
proof -
  show "(x * B + y) div B = x" "(x * B + y) mod B = y" using assms(2) by simp_all
  have "x * B + y < Suc x * B" using assms(2) by simp
  also have "Suc x * B \<le> k * B" using assms(1) by (intro mult_right_mono) auto
  finally show "x * B + y < k * B" .
qed

text \<open>One rank's table after the five splits.\<close>

definition mesh_digits :: "parallel_dims \<Rightarrow> nat \<Rightarrow> rank_info" where
  "mesh_digits d g =
     (let T = nat (pd_tp d); CT = nat (pd_cp d) * T; SCT = nat (pd_dp_shard d) * CT; RSCT = nat (pd_dp_replicate d) * SCT
      in [(''pp'', g div RSCT), (''dp_replicate'', g mod RSCT div SCT), (''dp_shard'', g mod SCT div CT),
          (''cp'', g mod CT div T), (''tp'', g mod T)])"

lemma mesh_ranks_digits:
  assumes "splits_evenly array_split" and "dims_positive d" and "nat (pd_world_size d) = mesh_size d"
  shows "mesh_ranks array_split d = map (mesh_digits d) [0..<mesh_size d]"
proof -
  define P R S C T where dims: "P = nat (pd_pp d)" "R = nat (pd_dp_replicate d)" "S = nat (pd_dp_shard d)"
    "C = nat (pd_cp d)" "T = nat (pd_tp d)"
  have pos: "0 < P" "0 < R" "0 < S" "0 < C" "0 < T" using assms(2) by (simp_all add: dims dims_positive_def)
  let ?n = "P * (R * (S * (C * T)))"
  have n: "mesh_size d = ?n" by (simp add: mesh_size_def dims)
  have start: "[[0..<?n]] = blocks 0 ?n 1" by (simp add: blocks_def)
  have paras: "dim_paras d = [(''pp'', P), (''dp_replicate'', R), (''dp_shard'', S), (''cp'', C), (''tp'', T)]"
    by (simp add: dim_paras_def dims)
  note step = split_meshes_blocks [OF assms(1)]
  have "mesh_ranks array_split d = fst (split_meshes array_split (''tp'', T) (split_meshes array_split (''cp'', C)
      (split_meshes array_split (''dp_shard'', S) (split_meshes array_split (''dp_replicate'', R)
      (split_meshes array_split (''pp'', P) (replicate ?n [], blocks 0 ?n 1))))))"
    using assms(3) n start by (simp add: mesh_ranks_def paras Let_def)
  also have "\<dots> = map (mesh_digits d) [0..<?n]"
    using step [OF pos(5), of 1] step [OF pos(4), of T] step [OF pos(3), of "C * T"]
      step [OF pos(2), of "S * (C * T)"] step [OF pos(1), of "R * (S * (C * T))"] pos
    by (auto simp: mesh_digits_def Let_def mult.assoc dims(2-5) [symmetric] intro!: nth_equalityI)
  finally show ?thesis by (simp add: n)
qed

lemma validate_ep_Inr:
  assumes "validate_ep d = Inr d'"
  shows "\<exists>k. d' = d\<lparr>pd_dp_shard_with_ep := k\<rparr>"
proof -
  have "\<exists>k. x = x\<lparr>pd_dp_shard_with_ep := k\<rparr>" for x :: parallel_dims
    by (rule exI [of _ "pd_dp_shard_with_ep x"]) simp
  then show ?thesis
    using assms unfolding validate_ep_def Let_def by (simp only: sum.simps simp_thms split: if_splits) blast+
qed

lemma validate_result:
  assumes "validate d = Inr d'"
  shows "dims_positive d'" "pd_world_size d' = pd_world_size d" "nat (pd_world_size d') = mesh_size d'"
    "pd_dp_shard d' = (if pd_dp_shard d < 0 then pd_world_size d div (pd_dp_replicate d * pd_cp d * pd_tp d * pd_pp d) else pd_dp_shard d)"
    "pd_pp d' = pd_pp d" "pd_dp_replicate d' = pd_dp_replicate d" "pd_cp d' = pd_cp d" "pd_tp d' = pd_tp d"
proof -
  define d1 where "d1 = (if pd_dp_shard d < 0
      then d\<lparr>pd_dp_shard := pd_world_size d div (pd_dp_replicate d * pd_cp d * pd_tp d * pd_pp d)\<rparr> else d)"
  have fields: "pd_world_size d1 = pd_world_size d" "pd_pp d1 = pd_pp d" "pd_dp_replicate d1 = pd_dp_replicate d"
    "pd_cp d1 = pd_cp d" "pd_tp d1 = pd_tp d"
    "pd_dp_shard d1 = (if pd_dp_shard d < 0 then pd_world_size d div (pd_dp_replicate d * pd_cp d * pd_tp d * pd_pp d) else pd_dp_shard d)"
    by (simp_all add: d1_def)
  have ok: "\<not> list_ex (\<lambda>x. x < 1) [pd_dp_replicate d, pd_cp d, pd_tp d, pd_pp d, pd_ep d]" "\<not> pd_dp_shard d1 < 1"
    "pd_dp_replicate d1 * pd_dp_shard d1 * pd_cp d1 * pd_tp d1 * pd_pp d1 = pd_world_size d1"
    "(if 1 < pd_ep d1 then validate_ep d1 else Inr d1) = Inr d'"
    using assms unfolding validate_def d1_def [symmetric] Let_def by (simp_all only: sum.simps simp_thms if_True if_False split: if_splits)
  obtain k where "d' = d1\<lparr>pd_dp_shard_with_ep := k\<rparr>"
    using ok(4) validate_ep_Inr [of d1 d'] that [of "pd_dp_shard_with_ep d1"] by (cases "1 < pd_ep d1") auto
  then have same: "pd_world_size d' = pd_world_size d1" "pd_pp d' = pd_pp d1" "pd_dp_replicate d' = pd_dp_replicate d1"
    "pd_cp d' = pd_cp d1" "pd_tp d' = pd_tp d1" "pd_dp_shard d' = pd_dp_shard d1" by simp_all
  show pos: "dims_positive d'" using ok(1,2) fields by (simp add: dims_positive_def same)
  show "nat (pd_world_size d') = mesh_size d'"
    using pos unfolding same ok(3) [symmetric] mesh_size_def dims_positive_def by (simp add: nat_mult_distrib ac_simps)
  show "pd_world_size d' = pd_world_size d" "pd_pp d' = pd_pp d" "pd_dp_replicate d' = pd_dp_replicate d"
    "pd_cp d' = pd_cp d" "pd_tp d' = pd_tp d"
    "pd_dp_shard d' = (if pd_dp_shard d < 0 then pd_world_size d div (pd_dp_replicate d * pd_cp d * pd_tp d * pd_pp d) else pd_dp_shard d)"
    by (simp_all only: same fields)
qed

text \<open>The full table of one rank.\<close>

definition full_digits :: "parallel_dims \<Rightarrow> nat \<Rightarrow> rank_info" where
  "full_digits d g =
     (let ri = mesh_digits d g; S = nat (pd_dp_shard d); C = nat (pd_cp d); T = nat (pd_tp d);
          digit = (\<lambda>dm. dict_get_or ri dm 0)
      in ri @ [(''dp_cp_tp'', digit ''dp_replicate'' * S * C * T + digit ''dp_shard'' * C * T + digit ''cp'' * T + digit ''tp''),
          (''dp_shard_cp'', digit ''dp_shard'' * C + digit ''cp''),
          (''dp'', digit ''dp_replicate'' * S + digit ''dp_shard''),
          (''pp_cp_tp'', digit ''pp'' * T * C + digit ''cp'' * T + digit ''tp'')])"

lemma add_merged_digits: "add_merged_ranks d (mesh_digits d g) = Inr (full_digits d g)"
  by (simp add: add_merged_ranks_def full_digits_def mesh_digits_def dict_item_def dict_get_or_def Let_def
      del: mult_eq_0_iff)

lemma post_init_tables:
  assumes "splits_evenly array_split" and "post_init array_split d = Inr d'"
  shows "dims_positive d'" "pd_full_rank_info d' = map (full_digits d') [0..<mesh_size d']" "mesh_size d' = nat (pd_world_size d)"
    "pd_full_world_size_info d' = world_size_info d'"
proof -
  obtain v where v: "validate d = Inr v" and b: "build_mesh_info array_split v = Inr d'"
    using assms(2) by (auto simp: post_init_def)
  note val = validate_result [OF v]
  have "mapR (add_merged_ranks v) (mesh_ranks array_split v) = Inr (map (full_digits v) [0..<mesh_size v])"
    using mesh_ranks_digits [OF assms(1) val(1,3)] add_merged_digits
    by (simp add: mapR_map)
  then have d': "d' = v\<lparr>pd_full_rank_info := map (full_digits v) [0..<mesh_size v], pd_full_world_size_info := world_size_info v\<rparr>"
    using b by (simp add: build_mesh_info_def)
  then have f: "pd_tp d' = pd_tp v" "pd_cp d' = pd_cp v" "pd_dp_shard d' = pd_dp_shard v" "pd_dp_replicate d' = pd_dp_replicate v"
    "pd_pp d' = pd_pp v" by simp_all
  then have "mesh_digits d' = mesh_digits v" by (intro ext) (simp only: mesh_digits_def)
  then have same: "full_digits d' = full_digits v" by (intro ext) (simp only: full_digits_def f)
  have same': "mesh_size d' = mesh_size v" "world_size_info d' = world_size_info v" "dims_positive d' = dims_positive v"
    by (simp_all only: f mesh_size_def world_size_info_def dim_paras_def dims_positive_def)
  show "dims_positive d'" "pd_full_rank_info d' = map (full_digits d') [0..<mesh_size d']" "mesh_size d' = nat (pd_world_size d)"
    "pd_full_world_size_info d' = world_size_info d'"
    using val(1-3) same same' d' by simp_all
qed

text \<open>The digits of the rank with given coordinates.\<close>

lemma mesh_digits_of_rank:
  assumes "p < nat (pd_pp d)" "rep < nat (pd_dp_replicate d)" "sh < nat (pd_dp_shard d)" "c < nat (pd_cp d)" "t < nat (pd_tp d)"
  shows "mesh_digits d (mesh_rank d p rep sh c t) = [(''pp'', p), (''dp_replicate'', rep), (''dp_shard'', sh), (''cp'', c), (''tp'', t)]"
    and "mesh_rank d p rep sh c t < mesh_size d"
proof -
  let ?R = "nat (pd_dp_replicate d)" and ?S = "nat (pd_dp_shard d)" and ?C = "nat (pd_cp d)" and ?T = "nat (pd_tp d)"
  note ct = digits_step [OF assms(4,5)]
  note sct = digits_step [OF assms(3) ct(3)]
  note rsct = digits_step [OF assms(2) sct(3)]
  note prsct = digits_step [OF assms(1) rsct(3)]
  have g: "mesh_rank d p rep sh c t = p * (?R * (?S * (?C * ?T))) + (rep * (?S * (?C * ?T)) + (sh * (?C * ?T) + (c * ?T + t)))"
    by (simp add: mesh_rank_def algebra_simps)
  show "mesh_rank d p rep sh c t < mesh_size d" using prsct(3) by (simp only: g mesh_size_def)
  have skip: "(x * (k * B) + y) mod B = y mod B" for x k B y :: nat
    by (metis mod_mult_self3 mult.assoc)
  note skip2 = skip [of _ "_ * _", simplified mult.assoc] and skip3 = skip [of _ "_ * (_ * _)", simplified mult.assoc]
  have "mesh_rank d p rep sh c t div (?R * (?S * (?C * ?T))) = p"
    "mesh_rank d p rep sh c t mod (?R * (?S * (?C * ?T))) div (?S * (?C * ?T)) = rep"
    "mesh_rank d p rep sh c t mod (?S * (?C * ?T)) div (?C * ?T) = sh"
    "mesh_rank d p rep sh c t mod (?C * ?T) div ?T = c" "mesh_rank d p rep sh c t mod ?T = t"
    by (simp_all only: g skip skip2 skip3 ct(1,2) sct(1,2) rsct(1,2) prsct(1,2))
  then show "mesh_digits d (mesh_rank d p rep sh c t) = [(''pp'', p), (''dp_replicate'', rep), (''dp_shard'', sh), (''cp'', c), (''tp'', t)]"
    by (simp only: mesh_digits_def Let_def)
qed

lemma digits_exist:
  assumes "(g :: nat) < k * B"
  shows "\<exists>x y. x < k \<and> y < B \<and> g = x * B + y"
proof (intro exI conjI)
  have "0 < B" using assms by (cases B) auto
  then show "g mod B < B" by simp
  show "g div B < k" using assms by (simp add: less_mult_imp_div_less)
  show "g = g div B * B + g mod B" by simp
qed

lemma mesh_rank_exists:
  assumes "g < mesh_size d"
  shows "\<exists>p rep sh c t. p < nat (pd_pp d) \<and> rep < nat (pd_dp_replicate d) \<and> sh < nat (pd_dp_shard d)
    \<and> c < nat (pd_cp d) \<and> t < nat (pd_tp d) \<and> g = mesh_rank d p rep sh c t"
proof -
  obtain p a where p: "p < nat (pd_pp d)" "a < nat (pd_dp_replicate d) * (nat (pd_dp_shard d) * (nat (pd_cp d) * nat (pd_tp d)))"
    "g = p * (nat (pd_dp_replicate d) * (nat (pd_dp_shard d) * (nat (pd_cp d) * nat (pd_tp d)))) + a"
    using digits_exist assms unfolding mesh_size_def by blast
  obtain rep b where r: "rep < nat (pd_dp_replicate d)" "b < nat (pd_dp_shard d) * (nat (pd_cp d) * nat (pd_tp d))"
    "a = rep * (nat (pd_dp_shard d) * (nat (pd_cp d) * nat (pd_tp d))) + b"
    using digits_exist [OF p(2)] by blast
  obtain sh e where s: "sh < nat (pd_dp_shard d)" "e < nat (pd_cp d) * nat (pd_tp d)" "b = sh * (nat (pd_cp d) * nat (pd_tp d)) + e"
    using digits_exist [OF r(2)] by blast
  obtain c t where c: "c < nat (pd_cp d)" "t < nat (pd_tp d)" "e = c * nat (pd_tp d) + t"
    using digits_exist [OF s(2)] by blast
  have "g = mesh_rank d p rep sh c t"
    unfolding p(3) r(3) s(3) c(3) mesh_rank_def by (simp add: algebra_simps)
  with p(1) r(1) s(1) c(1,2) show ?thesis by blast
qed

lemma rank_in_dim_table:
  assumes "splits_evenly array_split" and "post_init array_split d = Inr d'" and "g < nat (pd_world_size d)"
  shows "get_rank_in_dim d' dm g = (case dict_get (full_digits d' g) dm of None \<Rightarrow> Inl ValueError | Some r \<Rightarrow> Inr r)"
  using post_init_tables [OF assms(1,2)] assms(3) by (simp add: get_rank_in_dim_def)

lemma ranks_of_coordinates:
  assumes "splits_evenly array_split" and "post_init array_split d0 = Inr d"
    and "p < nat (pd_pp d)" "rep < nat (pd_dp_replicate d)" "sh < nat (pd_dp_shard d)" "c < nat (pd_cp d)" "t < nat (pd_tp d)"
    and g: "g = mesh_rank d p rep sh c t"
  shows "g < nat (pd_world_size d0)" "get_rank_in_dim d ''pp'' g = Inr p" "get_rank_in_dim d ''dp_replicate'' g = Inr rep"
    "get_rank_in_dim d ''dp_shard'' g = Inr sh" "get_rank_in_dim d ''cp'' g = Inr c" "get_rank_in_dim d ''tp'' g = Inr t"
    "get_rank_in_dim d ''dp'' g = Inr (rep * nat (pd_dp_shard d) + sh)"
    "get_rank_in_dim d ''dp_shard_cp'' g = Inr (sh * nat (pd_cp d) + c)"
    "get_rank_in_dim d ''dp_cp_tp'' g = Inr (((rep * nat (pd_dp_shard d) + sh) * nat (pd_cp d) + c) * nat (pd_tp d) + t)"
    "get_rank_in_dim d ''pp_cp_tp'' g = Inr ((p * nat (pd_cp d) + c) * nat (pd_tp d) + t)"
proof -
  have n: "mesh_size d = nat (pd_world_size d0)" using post_init_tables(3) [OF assms(1,2)] .
  note dig = mesh_digits_of_rank [OF assms(3-7), folded g]
  show "g < nat (pd_world_size d0)" using dig(2) n by simp
  have digits: "full_digits d g = [(''pp'', p), (''dp_replicate'', rep), (''dp_shard'', sh), (''cp'', c), (''tp'', t),
      (''dp_cp_tp'', rep * nat (pd_dp_shard d) * nat (pd_cp d) * nat (pd_tp d) + sh * nat (pd_cp d) * nat (pd_tp d) + c * nat (pd_tp d) + t),
      (''dp_shard_cp'', sh * nat (pd_cp d) + c), (''dp'', rep * nat (pd_dp_shard d) + sh),
      (''pp_cp_tp'', p * nat (pd_tp d) * nat (pd_cp d) + c * nat (pd_tp d) + t)]"
    by (simp add: full_digits_def dig(1) dict_get_or_def Let_def)
  have get: "get_rank_in_dim d dm g = (case dict_get (full_digits d g) dm of None \<Rightarrow> Inl ValueError | Some r \<Rightarrow> Inr r)" for dm
    using rank_in_dim_table [OF assms(1,2)] dig(2) n by simp
  show "get_rank_in_dim d ''pp'' g = Inr p" "get_rank_in_dim d ''dp_replicate'' g = Inr rep"
    "get_rank_in_dim d ''dp_shard'' g = Inr sh" "get_rank_in_dim d ''cp'' g = Inr c" "get_rank_in_dim d ''tp'' g = Inr t"
    "get_rank_in_dim d ''dp'' g = Inr (rep * nat (pd_dp_shard d) + sh)"
    "get_rank_in_dim d ''dp_shard_cp'' g = Inr (sh * nat (pd_cp d) + c)"
    "get_rank_in_dim d ''dp_cp_tp'' g = Inr (((rep * nat (pd_dp_shard d) + sh) * nat (pd_cp d) + c) * nat (pd_tp d) + t)"
    "get_rank_in_dim d ''pp_cp_tp'' g = Inr ((p * nat (pd_cp d) + c) * nat (pd_tp d) + t)"
    by (simp_all add: get digits algebra_simps)
qed

lemma size_in_dim:
  assumes "splits_evenly array_split" and "post_init array_split d0 = Inr d"
  shows "get_size_in_dim d ''tp'' = Inr (pd_tp d)" "get_size_in_dim d ''pp'' = Inr (pd_pp d)"
    "get_size_in_dim d ''dp_shard_cp'' = Inr (pd_dp_shard d * pd_cp d)"
    "get_size_in_dim d ''dp_cp_tp'' = Inr (pd_dp_replicate d * pd_dp_shard d * pd_cp d * pd_tp d)"
  using post_init_tables(1,4) [OF assms]
  by (simp_all add: get_size_in_dim_def world_size_info_def dim_paras_def dims_positive_def)

lemma from_config_post_init:
  assumes "from_config_for_analysis array_split cfg n = Inr d"
  obtains d0 where "post_init array_split d0 = Inr d" "pd_world_size d0 = n"
  using assms by (auto simp: from_config_for_analysis_def)

section \<open>Claims\<close>

text \<open>
  C30: The rank tables are a bijection between global ranks and mesh coordinates. If building
  the topology for \<open>n\<close> ranks succeeds, the rank with coordinates \<open>p, rep, sh, c, t\<close> (pipeline,
  replicate, shard, context, tensor; tensor varying fastest) is one of the \<open>n\<close> ranks, every
  single dimension reads its coordinate back, and the merged dimensions read the mixed-radix
  number of theirs; and every global rank below \<open>n\<close> has such coordinates.
\<close>

theorem mesh_coordinates:
  assumes "splits_evenly array_split" and "from_config_for_analysis array_split cfg n = Inr d"
    and "p < nat (pd_pp d)" "rep < nat (pd_dp_replicate d)" "sh < nat (pd_dp_shard d)" "c < nat (pd_cp d)" "t < nat (pd_tp d)"
    and g: "g = mesh_rank d p rep sh c t"
  shows "g < nat n \<and> get_rank_in_dim d ''pp'' g = Inr p \<and> get_rank_in_dim d ''dp_replicate'' g = Inr rep
    \<and> get_rank_in_dim d ''dp_shard'' g = Inr sh \<and> get_rank_in_dim d ''cp'' g = Inr c \<and> get_rank_in_dim d ''tp'' g = Inr t
    \<and> get_rank_in_dim d ''dp'' g = Inr (rep * nat (pd_dp_shard d) + sh)
    \<and> get_rank_in_dim d ''dp_shard_cp'' g = Inr (sh * nat (pd_cp d) + c)
    \<and> get_rank_in_dim d ''dp_cp_tp'' g = Inr (((rep * nat (pd_dp_shard d) + sh) * nat (pd_cp d) + c) * nat (pd_tp d) + t)
    \<and> get_rank_in_dim d ''pp_cp_tp'' g = Inr ((p * nat (pd_cp d) + c) * nat (pd_tp d) + t)
    \<and> (\<forall>h < nat n. \<exists>p' rep' sh' c' t'. p' < nat (pd_pp d) \<and> rep' < nat (pd_dp_replicate d) \<and> sh' < nat (pd_dp_shard d)
        \<and> c' < nat (pd_cp d) \<and> t' < nat (pd_tp d) \<and> h = mesh_rank d p' rep' sh' c' t')"
proof -
  obtain d0 where d0: "post_init array_split d0 = Inr d" "pd_world_size d0 = n"
    using from_config_post_init [OF assms(2)] .
  have "\<exists>p' rep' sh' c' t'. p' < nat (pd_pp d) \<and> rep' < nat (pd_dp_replicate d) \<and> sh' < nat (pd_dp_shard d)
      \<and> c' < nat (pd_cp d) \<and> t' < nat (pd_tp d) \<and> h = mesh_rank d p' rep' sh' c' t'" if "h < nat n" for h
    using mesh_rank_exists [of h d] post_init_tables(3) [OF assms(1) d0(1)] d0(2) that by simp
  then show ?thesis using ranks_of_coordinates [OF assms(1) d0(1) assms(3-7) g] d0(2) by simp
qed

section \<open>Evaluation\<close>

text \<open>A splitter with the documented behaviour on equal sections.\<close>

definition even_split :: splitter where
  "even_split xs k = map (\<lambda>i. take (length xs div k) (drop (i * (length xs div k)) xs)) [0..<k]"

lemma concat_slices: "concat (map (\<lambda>i. take B (drop (i * B) xs)) [0..<k]) = take (k * B) xs"
proof (induction k)
  case 0
  then show ?case by simp
next
  case (Suc k)
  then show ?case using take_add [of "k * B" B xs] by (simp add: add.commute)
qed

lemma even_split_ok: "splits_evenly even_split"
proof -
  have "length c = length xs div k" if "0 < k" "k dvd length xs" "c \<in> set (even_split xs k)" for xs k c
  proof -
    let ?B = "length xs div k"
    from that obtain i where i: "i < k" "c = take ?B (drop (i * ?B) xs)" by (auto simp: even_split_def)
    then have "Suc i * ?B \<le> k * ?B" by (intro mult_right_mono) auto
    then have "?B \<le> length xs - i * ?B" using that(2) by simp
    with i show ?thesis by simp
  qed
  moreover have "length (even_split xs k) = k" "k dvd length xs \<Longrightarrow> concat (even_split xs k) = xs" for xs k
    by (simp_all add: even_split_def concat_slices)
  ultimately show ?thesis unfolding splits_evenly_def by blast
qed

definition ex_parallelism :: parallelism_config where
  "ex_parallelism = \<lparr>cfg_tp_size = 2, cfg_cp_size = 1, cfg_ep_size = 1, cfg_dp_shard_size = -1, cfg_pp_size = 2,
     cfg_pp_dynamic_shape = False, cfg_pp_micro_batch_size = 1, cfg_dp_replicate_size = 1,
     cfg_pp_schedule = ''1F1B'', cfg_pp_layers_per_stage = 2\<rparr>"

definition ex_dims :: parallel_dims where
  "ex_dims = (case from_config_for_analysis even_split ex_parallelism 8 of Inr d \<Rightarrow> d)"

theorem mesh_coordinates_witness:
  "from_config_for_analysis even_split ex_parallelism 8 = Inr ex_dims \<and> mesh_rank ex_dims 1 0 1 0 1 = 7
   \<and> get_rank_in_dim ex_dims ''pp'' 7 = Inr 1 \<and> get_rank_in_dim ex_dims ''tp'' 7 = Inr 1 \<and> get_rank_in_dim ex_dims ''dp_cp_tp'' 7 = Inr 3"
proof -
  have run: "from_config_for_analysis even_split ex_parallelism 8 = Inr ex_dims" by code_simp
  have pre: "1 < nat (pd_pp ex_dims)" "0 < nat (pd_dp_replicate ex_dims)" "1 < nat (pd_dp_shard ex_dims)" "0 < nat (pd_cp ex_dims)"
    "1 < nat (pd_tp ex_dims)" "7 = mesh_rank ex_dims 1 0 1 0 1"
    by code_simp+
  have sizes: "nat (pd_dp_shard ex_dims) = 2" "nat (pd_cp ex_dims) = 1" "nat (pd_tp ex_dims) = 2" by code_simp+
  from mesh_coordinates [OF even_split_ok run pre] run pre(6) show ?thesis by (simp add: sizes)
qed

end
