(* ===== verification/Shard_Mapper.thy ===== *)
theory Shard_Mapper
  imports Dim_Slice Parallel_Dims
begin

text \<open>
  The weight-synchronisation plan (cosmos_rl/utils/parallelism_map.py): which policy rank sends
  which part of which parameter to which rollout rank. Instructions
  (\<open>WeightSyncInstruction\<close> and its groups), the assignment of replicated shards
  (\<open>policy_to_rollout_assign\<close>), the generation of the send and of the receive instructions of
  a rank, and the shard mapper the controller keeps: it collects the shard descriptions of
  both sides, generates the plan once, and serves it per rank.

  Parameters: \<open>dims_order\<close> is the order in which Python iterates over a set of dimension
  indices, \<open>groups_order\<close> the order of a set of parameter groups, \<open>unpackb\<close> and \<open>packb\<close> are
  msgpack's, \<open>array_split\<close> is numpy's.
\<close>

section \<open>Shard descriptions and instructions\<close>

text \<open>A slice as it travels: a dictionary whose keys may be missing.\<close>

record raw_slice =
  rs_offset :: "int option"
  rs_total_size :: "int option"
  rs_dim :: "string option"
  rs_length :: "int option"

type_synonym shard_info = "(int, raw_slice) dict"
type_synonym rank_shards = "(string, shard_info) dict"
type_synonym slices = "(int, dim_slice) dict"

definition slice_from_dict :: "raw_slice \<Rightarrow> py_error + dim_slice" where
  "slice_from_dict v =
     (case rs_offset v of None \<Rightarrow> Inl KeyError | Some off \<Rightarrow>
      case rs_total_size v of None \<Rightarrow> Inl KeyError | Some sz \<Rightarrow>
      Inr (mk_slice off sz (case rs_dim v of None \<Rightarrow> [] | Some dm \<Rightarrow> dm)
        (case rs_length v of None \<Rightarrow> 1 | Some len \<Rightarrow> len)))"

definition slices_of :: "shard_info \<Rightarrow> py_error + slices" where
  "slices_of info = mapR (\<lambda>(k, v). bindR (slice_from_dict v) (\<lambda>s. Inr (k, s))) info"

record inst =
  i_policy_rank :: nat
  i_rollout_rank :: nat
  i_slice_strategy :: slices

record param_insts =
  ip_param_name :: string
  ip_instructions :: "inst list"

record group_insts =
  ig_param_instructions :: "param_insts list"

section \<open>Assignment of replicated shards\<close>

text \<open>\<open>xs[a : b]\<close> for \<open>0 <= a\<close>.\<close>

definition py_slice :: "'a list \<Rightarrow> nat \<Rightarrow> nat \<Rightarrow> 'a list" where
  "py_slice xs a b = take (b - a) (drop a xs)"

definition policy_to_rollout_assign ::
  "nat list \<Rightarrow> nat list \<Rightarrow> nat \<Rightarrow> nat \<Rightarrow> py_error + (nat list \<times> nat list)" where
  "policy_to_rollout_assign policys rollouts p_rank r_rank =
     (if length rollouts \<le> length policys then
        Inr (fold (\<lambda>(i, p) res.
               if length rollouts \<le> i then res
               else if p = p_rank \<and> rollouts ! i = r_rank then ([r_rank], [p_rank])
               else res)
             (enumerate 0 policys) ([], []))
      else if policys = [] then Inl ZeroDivisionError
      else
        let group_size = (length rollouts - 1) div length policys + 1
        in Inr (fold (\<lambda>(i, p) res.
               if p = p_rank then
                 let rs = py_slice rollouts (i * group_size) (min (i * group_size + group_size) (length rollouts))
                 in if r_rank \<in> set rs then ([r_rank], [p_rank]) else res
               else res)
             (enumerate 0 policys) ([], [])))"

section \<open>The plan of one rank\<close>

text \<open>What the mapper knows once both sides have reported.\<close>

record plan_data =
  pl_policy_infos :: "rank_shards list"
  pl_rollout_infos :: "rank_shards list"
  pl_param_to_groups :: "(string, string list) dict"
  pl_param_groups :: "string list list"
  pl_sorted_policy :: "string list list"
  pl_sorted_rollout :: "string list list"
  pl_trainable :: "string list"
  pl_pp_policy :: "nat list"
  pl_pp_rollout :: "nat list"
  pl_policy_world :: nat
  pl_rollout_world :: nat

text \<open>Equality of two Python dictionaries does not depend on the order of their entries.\<close>

definition dict_eq :: "('k, 'v) dict \<Rightarrow> ('k, 'v) dict \<Rightarrow> bool" where
  "dict_eq a b \<longleftrightarrow> length a = length b \<and> list_all (\<lambda>(k, v). dict_get b k = Some v) a"

definition dup_ranks :: "rank_shards list \<Rightarrow> nat \<Rightarrow> string \<Rightarrow> py_error + nat list" where
  "dup_ranks infos rank nm =
     (if length infos \<le> rank then Inl IndexError
      else case dict_get (infos ! rank) nm of
        None \<Rightarrow> Inr []
      | Some info \<Rightarrow>
          Inr (map fst (filter (\<lambda>(i, d). case dict_get d nm of None \<Rightarrow> False | Some info' \<Rightarrow> dict_eq info' info)
            (enumerate 0 infos))))"

definition get_dup_ranks_for_policy :: "plan_data \<Rightarrow> nat \<Rightarrow> string \<Rightarrow> py_error + nat list" where
  "get_dup_ranks_for_policy m = dup_ranks (pl_policy_infos m)"

definition get_dup_ranks_for_rollout :: "plan_data \<Rightarrow> nat \<Rightarrow> string \<Rightarrow> py_error + nat list" where
  "get_dup_ranks_for_rollout m = dup_ranks (pl_rollout_infos m)"

type_synonym dims_order = "int list \<Rightarrow> int list"

text \<open>\<open>p.keys() | r.keys()\<close>, in the order of the set's iteration.\<close>

definition all_dims :: "dims_order \<Rightarrow> slices \<Rightarrow> slices \<Rightarrow> int list" where
  "all_dims dims_order p r = dims_order (remdups (dict_keys p @ dict_keys r))"

text \<open>The overlap in every dimension; the loop breaks at the first dimension without one.\<close>

fun overlap_loop :: "slices \<Rightarrow> slices \<Rightarrow> int list \<Rightarrow> slices \<times> slices \<Rightarrow> py_error + (slices \<times> slices) option" where
  "overlap_loop p r [] acc = Inr (Some acc)"
| "overlap_loop p r (d # ds) (ps, rs) =
     bindR (tensor_overlap_info_at_dim p r d) (\<lambda>ov. case ov of
         None \<Rightarrow> Inr None
       | Some (sp, sr) \<Rightarrow> overlap_loop p r ds (dict_set d sp ps, dict_set d sr rs))"

definition split_strategies :: "dims_order \<Rightarrow> slices \<Rightarrow> slices \<Rightarrow> py_error + (slices \<times> slices) option" where
  "split_strategies dims_order p r = overlap_loop p r (all_dims dims_order p r) ([], [])"

subsection \<open>Sending\<close>

definition send_param :: "dims_order \<Rightarrow> plan_data \<Rightarrow> nat \<Rightarrow> string \<Rightarrow> shard_info \<Rightarrow> py_error + inst list" where
  "send_param dims_order m p_rank nm p_info =
     bindR (slices_of p_info) (\<lambda>shard_info.
     bindR (get_dup_ranks_for_policy m p_rank nm) (\<lambda>p_dup.
     forR (enumerate 0 (pl_rollout_infos m)) (\<lambda>(r_rank, r_infos) insts.
       case dict_get r_infos nm of
         None \<Rightarrow> Inr insts
       | Some r_info \<Rightarrow>
           bindR (slices_of r_info) (\<lambda>r_shard_info.
           bindR (get_dup_ranks_for_rollout m r_rank nm) (\<lambda>r_dup.
           bindR (split_strategies dims_order shard_info r_shard_info) (\<lambda>ov. case ov of
               None \<Rightarrow> Inr insts
             | Some (p_strategys, r_strategys) \<Rightarrow>
                 bindR (policy_to_rollout_assign p_dup r_dup p_rank r_rank) (\<lambda>(p_assignments, r_assignments).
                 Inr (insts @ map (\<lambda>r. \<lparr>i_policy_rank = p_rank, i_rollout_rank = r, i_slice_strategy = p_strategys\<rparr>) p_assignments))))))
       []))"

text \<open>The parameters outside the groups: one group of instructions each, none for a parameter
  without instructions. The names that belong to a group are set aside.\<close>

definition send_single :: "dims_order \<Rightarrow> plan_data \<Rightarrow> nat \<Rightarrow> rank_shards \<Rightarrow> string \<Rightarrow>
    group_insts list \<times> string list \<Rightarrow> py_error + (group_insts list \<times> string list)" where
  "send_single dims_order m p_rank shards nm = (\<lambda>(out, in_group).
     case dict_get shards nm of
       None \<Rightarrow> Inr (out, in_group)
     | Some p_info \<Rightarrow>
         if dict_has (pl_param_to_groups m) nm then Inr (out, List.insert nm in_group)
         else
           bindR (send_param dims_order m p_rank nm p_info) (\<lambda>insts.
           Inr (if insts = [] then out
                else out @ [\<lparr>ig_param_instructions = [\<lparr>ip_param_name = nm, ip_instructions = insts\<rparr>]\<rparr>], in_group)))"

definition send_group :: "dims_order \<Rightarrow> plan_data \<Rightarrow> nat \<Rightarrow> rank_shards \<Rightarrow> string list \<Rightarrow>
    group_insts list \<times> string list \<Rightarrow> py_error + (group_insts list \<times> string list)" where
  "send_group dims_order m p_rank shards grp = (\<lambda>(out, in_group).
     bindR (forR grp (\<lambda>nm (for_group, in_group).
         case dict_get shards nm of
           None \<Rightarrow> Inr (for_group, in_group)
         | Some p_info \<Rightarrow>
             bindR (send_param dims_order m p_rank nm p_info) (\<lambda>insts.
             Inr (if insts = [] then for_group else for_group @ [\<lparr>ip_param_name = nm, ip_instructions = insts\<rparr>],
                  removeAll nm in_group)))
       ([], in_group))
     (\<lambda>(for_group, in_group).
       Inr (if for_group = [] then out else out @ [\<lparr>ig_param_instructions = for_group\<rparr>], in_group)))"

definition generate_parallelized_shard_send_insts_for_policy ::
  "dims_order \<Rightarrow> plan_data \<Rightarrow> nat \<Rightarrow> py_error + group_insts list" where
  "generate_parallelized_shard_send_insts_for_policy dims_order m p_rank =
     (if length (pl_pp_policy m) \<le> p_rank \<or> length (pl_sorted_policy m) \<le> pl_pp_policy m ! p_rank
         \<or> length (pl_policy_infos m) \<le> p_rank then Inl IndexError
      else
        let shards = pl_policy_infos m ! p_rank
        in bindR (forR (pl_sorted_policy m ! (pl_pp_policy m ! p_rank)) (send_single dims_order m p_rank shards) ([], []))
             (\<lambda>s. bindR (forR (pl_param_groups m) (send_group dims_order m p_rank shards) s)
             (\<lambda>(out, in_group). Inr out)))"

subsection \<open>Receiving\<close>

definition recv_param :: "dims_order \<Rightarrow> plan_data \<Rightarrow> nat \<Rightarrow> string \<Rightarrow> shard_info \<Rightarrow> py_error + inst list" where
  "recv_param dims_order m r_rank nm r_info =
     bindR (slices_of r_info) (\<lambda>shard_info.
     bindR (get_dup_ranks_for_rollout m r_rank nm) (\<lambda>r_dup.
     forR (enumerate 0 (pl_policy_infos m)) (\<lambda>(p_rank, p_infos) insts.
       case dict_get p_infos nm of
         None \<Rightarrow> Inr insts
       | Some p_info \<Rightarrow>
           bindR (slices_of p_info) (\<lambda>p_shard_info.
           bindR (get_dup_ranks_for_policy m p_rank nm) (\<lambda>p_dup.
           bindR (split_strategies dims_order p_shard_info shard_info) (\<lambda>ov. case ov of
               None \<Rightarrow> Inr insts
             | Some (p_strategys, r_strategys) \<Rightarrow>
                 bindR (policy_to_rollout_assign p_dup r_dup p_rank r_rank) (\<lambda>(p_assignments, r_assignments).
                 Inr (insts @ map (\<lambda>p. \<lparr>i_policy_rank = p, i_rollout_rank = r_rank, i_slice_strategy = r_strategys\<rparr>) r_assignments))))))
       []))"

text \<open>A parameter of the rollout that no policy rank sends is an error.\<close>

definition recv_single :: "dims_order \<Rightarrow> plan_data \<Rightarrow> nat \<Rightarrow> rank_shards \<Rightarrow> string \<Rightarrow>
    group_insts list \<times> string list \<Rightarrow> py_error + (group_insts list \<times> string list)" where
  "recv_single dims_order m r_rank shards nm = (\<lambda>(out, in_group).
     case dict_get shards nm of
       None \<Rightarrow> Inr (out, in_group)
     | Some r_info \<Rightarrow>
         if dict_has (pl_param_to_groups m) nm then Inr (out, List.insert nm in_group)
         else
           bindR (recv_param dims_order m r_rank nm r_info) (\<lambda>insts.
           if insts = [] then Inl ValueError
           else Inr (out @ [\<lparr>ig_param_instructions = [\<lparr>ip_param_name = nm, ip_instructions = insts\<rparr>]\<rparr>], in_group)))"

definition recv_group :: "dims_order \<Rightarrow> plan_data \<Rightarrow> nat \<Rightarrow> rank_shards \<Rightarrow> string list \<Rightarrow>
    group_insts list \<times> string list \<Rightarrow> py_error + (group_insts list \<times> string list)" where
  "recv_group dims_order m r_rank shards grp = (\<lambda>(out, in_group).
     bindR (forR grp (\<lambda>nm (for_group, in_group).
         case dict_get shards nm of
           None \<Rightarrow> Inr (for_group, in_group)
         | Some r_info \<Rightarrow>
             bindR (recv_param dims_order m r_rank nm r_info) (\<lambda>insts.
             if insts = [] then Inl ValueError
             else Inr (for_group @ [\<lparr>ip_param_name = nm, ip_instructions = insts\<rparr>], removeAll nm in_group)))
       ([], in_group))
     (\<lambda>(for_group, in_group).
       if for_group = [] then Inl ValueError else Inr (out @ [\<lparr>ig_param_instructions = for_group\<rparr>], in_group)))"

definition generate_parallelized_shard_recv_insts_for_rollout ::
  "dims_order \<Rightarrow> plan_data \<Rightarrow> nat \<Rightarrow> py_error + group_insts list" where
  "generate_parallelized_shard_recv_insts_for_rollout dims_order m r_rank =
     (if length (pl_pp_rollout m) \<le> r_rank \<or> length (pl_sorted_rollout m) \<le> pl_pp_rollout m ! r_rank
         \<or> length (pl_rollout_infos m) \<le> r_rank then Inl IndexError
      else
        let shards = pl_rollout_infos m ! r_rank
        in bindR (forR (pl_sorted_rollout m ! (pl_pp_rollout m ! r_rank)) (recv_single dims_order m r_rank shards) ([], []))
             (\<lambda>s. bindR (forR (pl_param_groups m) (recv_group dims_order m r_rank shards) s)
             (\<lambda>(out, in_group). if in_group \<noteq> [] then Inl AssertionError else Inr out)))"

definition policy_insts_generation_per_rank :: "dims_order \<Rightarrow> plan_data \<Rightarrow> nat \<Rightarrow> py_error + group_insts list option" where
  "policy_insts_generation_per_rank dims_order m rank =
     (if rank < pl_policy_world m
      then bindR (generate_parallelized_shard_send_insts_for_policy dims_order m rank) (\<lambda>x. Inr (Some x))
      else Inr None)"

definition rollout_insts_generation_per_rank :: "dims_order \<Rightarrow> plan_data \<Rightarrow> nat \<Rightarrow> py_error + group_insts list option" where
  "rollout_insts_generation_per_rank dims_order m rank =
     (if rank < pl_rollout_world m
      then bindR (generate_parallelized_shard_recv_insts_for_rollout dims_order m rank) (\<lambda>x. Inr (Some x))
      else Inr None)"

end
