(* ===== verification/Shard_Plan.thy ===== *)
theory Shard_Plan
  imports Shard_Mapper
begin

text \<open>
  Correctness of the weight-synchronisation plan. Replicated shards: every rollout rank gets
  its part from exactly one of the policy ranks that hold it. Both ends: what a policy rank
  sends to a rollout rank is, parameter by parameter and in the same order, what the rollout
  rank expects from it. Coverage: every element of a rollout shard is received exactly once.
\<close>

section \<open>Assignment\<close>

lemma fold_last_hit:
  "fold (\<lambda>(i, p) res. if Q i p then c else res) (enumerate k xs) init
   = (if \<exists>i < length xs. Q (k + i) (xs ! i) then c else init)"
proof (induction xs arbitrary: k init)
  case Nil
  then show ?case by simp
next
  case (Cons x xs)
  have "(\<exists>i < length (x # xs). Q (k + i) ((x # xs) ! i)) \<longleftrightarrow> Q k x \<or> (\<exists>i < length xs. Q (Suc k + i) (xs ! i))"
    by (auto simp: less_Suc_eq_0_disj)
  then show ?case by (auto simp: Cons.IH)
qed

text \<open>The policy that serves the rollout at position \<open>j\<close>.\<close>

definition server_index :: "nat \<Rightarrow> nat \<Rightarrow> nat \<Rightarrow> nat" where
  "server_index np nr j = (if nr \<le> np then j else j div ((nr - 1) div np + 1))"

lemma server_index_less:
  assumes "0 < np" and "j < nr"
  shows "server_index np nr j < np"
proof (cases "nr \<le> np")
  case True
  then show ?thesis using assms by (simp add: server_index_def)
next
  case False
  let ?g = "(nr - 1) div np + 1"
  have "nr - 1 = np * ((nr - 1) div np) + (nr - 1) mod np" by simp
  moreover have "(nr - 1) mod np < np" using assms(1) by simp
  ultimately have "nr - 1 < np * ?g" by (metis add_less_cancel_left distrib_left mult.right_neutral)
  then have "j < np * ?g" using assms(2) by linarith
  then have "j div ?g < np" by (rule less_mult_imp_div_less)
  then show ?thesis using False by (simp add: server_index_def)
qed

lemma in_py_slice: "x \<in> set (py_slice xs a b) \<longleftrightarrow> (\<exists>j. a \<le> j \<and> j < b \<and> j < length xs \<and> xs ! j = x)"
proof
  assume "x \<in> set (py_slice xs a b)"
  then obtain i where "i < length (py_slice xs a b)" "py_slice xs a b ! i = x" by (auto simp: in_set_conv_nth)
  then show "\<exists>j. a \<le> j \<and> j < b \<and> j < length xs \<and> xs ! j = x"
    by (intro exI [of _ "a + i"]) (auto simp: py_slice_def)
next
  assume "\<exists>j. a \<le> j \<and> j < b \<and> j < length xs \<and> xs ! j = x"
  then obtain j where "a \<le> j" "j < b" "j < length xs" "xs ! j = x" by blast
  then show "x \<in> set (py_slice xs a b)"
    unfolding in_set_conv_nth by (intro exI [of _ "j - a"]) (auto simp: py_slice_def)
qed

lemma assign_spec:
  assumes "distinct policys" and "distinct rollouts" and "policys \<noteq> []" and j: "j < length rollouts"
  shows "policy_to_rollout_assign policys rollouts p (rollouts ! j)
    = Inr (if p = policys ! server_index (length policys) (length rollouts) j
           then ([rollouts ! j], [p]) else ([], []))"
proof -
  let ?s = "server_index (length policys) (length rollouts) j"
  have s: "?s < length policys" using server_index_less [OF _ j] assms(3) by simp
  have same: "rollouts ! i = rollouts ! j \<longleftrightarrow> i = j" if "i < length rollouts" for i
    using that j assms(2) by (simp add: nth_eq_iff_index_eq)
  show ?thesis
  proof (cases "length rollouts \<le> length policys")
    case True
    let ?Q = "\<lambda>i q. \<not> length rollouts \<le> i \<and> q = p \<and> rollouts ! i = rollouts ! j"
    have "(\<exists>i < length policys. ?Q (0 + i) (policys ! i)) \<longleftrightarrow> p = policys ! j"
      using True j same by (auto intro!: exI [of _ j])
    moreover have "(\<lambda>(i, q) res. if length rollouts \<le> i then res
          else if q = p \<and> rollouts ! i = rollouts ! j then ([rollouts ! j], [p]) else res)
        = (\<lambda>(i, q) res. if ?Q i q then ([rollouts ! j], [p]) else res)"
      by (auto simp: fun_eq_iff)
    ultimately show ?thesis
      using True fold_last_hit [of ?Q "([rollouts ! j], [p])" 0 policys "([], [])"]
      by (simp add: policy_to_rollout_assign_def server_index_def)
  next
    case False
    define g where "g = (length rollouts - 1) div length policys + 1"
    let ?rs = "\<lambda>i. py_slice rollouts (i * g) (min (i * g + g) (length rollouts))"
    let ?Q = "\<lambda>i q. q = p \<and> rollouts ! j \<in> set (?rs i)"
    have g: "0 < g" by (simp add: g_def)
    have mem: "rollouts ! j \<in> set (?rs i) \<longleftrightarrow> i = j div g" for i
    proof -
      have "rollouts ! j \<in> set (?rs i) \<longleftrightarrow> i * g \<le> j \<and> j < i * g + g"
        using j same by (auto simp: in_py_slice)
      also have "\<dots> \<longleftrightarrow> i = j div g"
        using g by (metis add.commute div_nat_eqI dividend_less_div_times div_times_less_eq_dividend mult.commute mult_Suc)
      finally show ?thesis .
    qed
    have sg: "?s = j div g" using False by (simp add: server_index_def g_def)
    then have "(\<exists>i < length policys. ?Q (0 + i) (policys ! i)) \<longleftrightarrow> p = policys ! (j div g)"
      using s by (auto simp: mem)
    moreover have "(\<lambda>(i, q) res. if q = p then let rs = ?rs i in if rollouts ! j \<in> set rs then ([rollouts ! j], [p]) else res else res)
        = (\<lambda>(i, q) res. if ?Q i q then ([rollouts ! j], [p]) else res)"
      by (auto simp: fun_eq_iff Let_def)
    ultimately show ?thesis
      using False assms(3) fold_last_hit [of ?Q "([rollouts ! j], [p])" 0 policys "([], [])"] sg
      unfolding policy_to_rollout_assign_def g_def [symmetric] by simp
  qed
qed

section \<open>Ranks that hold the same shard\<close>

lemma dict_eq_get:
  assumes "wf_dict a" and "wf_dict b"
  shows "dict_eq a b \<longleftrightarrow> (\<forall>k. dict_get a k = dict_get b k)"
proof -
  have get: "dict_get d k = Some v \<longleftrightarrow> (k, v) \<in> set d" if "wf_dict d" for d :: "('a, 'b) dict" and k v
    using that by (simp add: dict_get_def wf_dict_def map_of_eq_Some_iff)
  have len: "length d = card (set d)" if "wf_dict d" for d :: "('a, 'b) dict"
    using that by (metis distinct_card distinct_map wf_dict_def)
  have "dict_eq a b \<longleftrightarrow> card (set a) = card (set b) \<and> set a \<subseteq> set b"
    using assms by (auto simp: dict_eq_def len get list_all_iff)
  also have "\<dots> \<longleftrightarrow> set a = set b" by (metis List.finite_set card_subset_eq order_refl)
  also have "\<dots> \<longleftrightarrow> (\<forall>k. dict_get a k = dict_get b k)"
  proof
    assume "set a = set b"
    then show "\<forall>k. dict_get a k = dict_get b k"
      using assms get by (metis not_None_eq)
  next
    assume "\<forall>k. dict_get a k = dict_get b k"
    then have "(k, v) \<in> set a \<longleftrightarrow> (k, v) \<in> set b" for k v using assms get by metis
    then show "set a = set b" by auto
  qed
  finally show ?thesis .
qed

text \<open>The descriptions are Python dictionaries: no key occurs twice.\<close>

definition wf_infos :: "rank_shards list \<Rightarrow> bool" where
  "wf_infos infos \<longleftrightarrow> list_all (\<lambda>d. list_all wf_dict (dict_values d)) infos"

definition holds :: "rank_shards list \<Rightarrow> nat \<Rightarrow> string \<Rightarrow> shard_info \<Rightarrow> bool" where
  "holds infos i nm info \<longleftrightarrow> i < length infos \<and> dict_get (infos ! i) nm = Some info"

lemma holds_wf: "wf_infos infos \<Longrightarrow> holds infos i nm info \<Longrightarrow> wf_dict info"
  by (auto simp: wf_infos_def holds_def list_all_iff dest!: dict_get_in_values)

text \<open>The ranks that hold the same shard, as a list.\<close>

definition same_shard :: "rank_shards list \<Rightarrow> string \<Rightarrow> shard_info \<Rightarrow> nat list" where
  "same_shard infos nm info = filter (\<lambda>i. case dict_get (infos ! i) nm of None \<Rightarrow> False | Some info' \<Rightarrow> dict_eq info' info) [0..<length infos]"

lemma enumerate_index: "enumerate 0 xs = map (\<lambda>i. (i, xs ! i)) [0..<length xs]"
  by (rule nth_equalityI) (simp_all add: nth_enumerate_eq)

lemma map_filter_enumerate: "map fst (filter (\<lambda>(i, d). Q d) (enumerate 0 xs)) = filter (\<lambda>i. Q (xs ! i)) [0..<length xs]"
  by (simp add: enumerate_index filter_map comp_def)

lemma dup_ranks_same:
  assumes "holds infos rank nm info"
  shows "dup_ranks infos rank nm = Inr (same_shard infos nm info)"
  using assms map_filter_enumerate [of "\<lambda>d. case dict_get d nm of None \<Rightarrow> False | Some info' \<Rightarrow> dict_eq info' info" infos]
  by (simp add: dup_ranks_def holds_def same_shard_def)

lemma same_shard_distinct [simp]: "distinct (same_shard infos nm info)"
  by (simp add: same_shard_def)

lemma same_shard_iff: "i \<in> set (same_shard infos nm info) \<longleftrightarrow> (\<exists>info'. holds infos i nm info' \<and> dict_eq info' info)"
  by (auto simp: same_shard_def holds_def split: option.splits)

lemma same_shard_self:
  assumes "wf_infos infos" and "holds infos i nm info"
  shows "i \<in> set (same_shard infos nm info)"
  using holds_wf [OF assms] assms(2) dict_eq_get by (auto simp: same_shard_iff)

lemma same_shard_eq:
  assumes "wf_infos infos" and "holds infos i nm a" and "holds infos j nm b" and "dict_eq a b"
  shows "same_shard infos nm a = same_shard infos nm b"
proof -
  have wf: "wf_dict a" "wf_dict b" using assms holds_wf by auto
  have "dict_eq c a \<longleftrightarrow> dict_eq c b" if "holds infos k nm c" for k c
    using holds_wf [OF assms(1) that] wf assms(4) by (simp add: dict_eq_get)
  then show ?thesis
    unfolding same_shard_def by (intro filter_cong refl) (auto simp: holds_def split: option.splits)
qed

section \<open>One transfer\<close>

text \<open>What policy rank \<open>p\<close> and rollout rank \<open>r\<close> exchange of a parameter: the parts of the
  two shards, if they overlap and \<open>p\<close> is the one that serves \<open>r\<close>.\<close>

definition transfer :: "dims_order \<Rightarrow> plan_data \<Rightarrow> string \<Rightarrow> nat \<Rightarrow> nat \<Rightarrow> py_error + (slices \<times> slices) option" where
  "transfer dims_order m nm p r =
     (case dict_get (pl_policy_infos m ! p) nm of None \<Rightarrow> Inr None | Some p_info \<Rightarrow>
      case dict_get (pl_rollout_infos m ! r) nm of None \<Rightarrow> Inr None | Some r_info \<Rightarrow>
      bindR (slices_of p_info) (\<lambda>ps.
      bindR (slices_of r_info) (\<lambda>rs.
      bindR (split_strategies dims_order ps rs) (\<lambda>ov. case ov of
          None \<Rightarrow> Inr None
        | Some parts \<Rightarrow>
            bindR (policy_to_rollout_assign (same_shard (pl_policy_infos m) nm p_info) (same_shard (pl_rollout_infos m) nm r_info) p r)
              (\<lambda>(pa, ra). Inr (if pa = [] then None else Some parts))))))"

lemma assign_cases:
  assumes "distinct policys" "distinct rollouts" "p \<in> set policys" "r \<in> set rollouts"
  shows "policy_to_rollout_assign policys rollouts p r = Inr ([], []) \<or> policy_to_rollout_assign policys rollouts p r = Inr ([r], [p])"
proof -
  obtain j where j: "j < length rollouts" "r = rollouts ! j" using assms(4) by (auto simp: in_set_conv_nth)
  have "policys \<noteq> []" using assms(3) by auto
  from assign_spec [OF assms(1,2) this j(1), of p] show ?thesis by (simp add: j(2))
qed

lemma forR_map: "forR (map g xs) f s = forR xs (\<lambda>x. f (g x)) s"
proof (induction xs arbitrary: s)
  case Nil
  then show ?case by simp
next
  case (Cons x xs)
  have "forR (map g xs) f = forR xs (\<lambda>x. f (g x))" by (rule ext) (rule Cons.IH)
  then show ?case by simp
qed

lemma forR_collect:
  assumes "\<And>x acc. x \<in> set xs \<Longrightarrow> body x acc = bindR (f x) (\<lambda>ys. Inr (acc @ ys))"
  shows "forR xs body acc = bindR (mapR f xs) (\<lambda>yss. Inr (acc @ concat yss))"
  using assms
proof (induction xs arbitrary: acc)
  case Nil
  then show ?case by simp
next
  case (Cons x xs)
  then show ?case by (cases "f x") (simp_all add: bindR_assoc)
qed

definition wf_plan :: "plan_data \<Rightarrow> bool" where
  "wf_plan m \<longleftrightarrow> wf_infos (pl_policy_infos m) \<and> wf_infos (pl_rollout_infos m)"

text \<open>The instructions of one parameter are the transfers with the ranks of the other side.\<close>

lemma send_param_transfers:
  assumes "wf_plan m" and p: "holds (pl_policy_infos m) p nm p_info"
  shows "send_param dims_order m p nm p_info = bindR (slices_of p_info) (\<lambda>_.
    bindR (mapR (\<lambda>r. bindR (transfer dims_order m nm p r) (\<lambda>t. Inr (case t of None \<Rightarrow> []
        | Some parts \<Rightarrow> [\<lparr>i_policy_rank = p, i_rollout_rank = r, i_slice_strategy = fst parts\<rparr>])))
      [0..<length (pl_rollout_infos m)]) (\<lambda>yss. Inr (concat yss)))"
proof (cases "slices_of p_info")
  case (Inl e)
  then show ?thesis by (simp add: send_param_def)
next
  case (Inr sl)
  have wf: "wf_infos (pl_policy_infos m)" "wf_infos (pl_rollout_infos m)" using assms(1) by (simp_all add: wf_plan_def)
  let ?P = "same_shard (pl_policy_infos m) nm p_info"
  have dup: "get_dup_ranks_for_policy m p nm = Inr ?P" using dup_ranks_same [OF p] by (simp add: get_dup_ranks_for_policy_def)
  have pin: "p \<in> set ?P" using same_shard_self [OF wf(1) p] .
  have pg: "dict_get (pl_policy_infos m ! p) nm = Some p_info" using p by (simp add: holds_def)
  let ?f = "\<lambda>r. bindR (transfer dims_order m nm p r) (\<lambda>t. Inr (case t of None \<Rightarrow> []
        | Some parts \<Rightarrow> [\<lparr>i_policy_rank = p, i_rollout_rank = r, i_slice_strategy = fst parts\<rparr>]))"
  show ?thesis
    unfolding send_param_def Inr dup bindR_simps enumerate_index forR_map prod.case
  proof (subst forR_collect [where f = ?f], goal_cases)
    case (1 r acc)
    show ?case
    proof (cases "dict_get (pl_rollout_infos m ! r) nm")
      case None
      then show ?thesis by (simp add: transfer_def pg)
    next
      case (Some r_info)
      have r: "holds (pl_rollout_infos m) r nm r_info" using 1 Some by (simp add: holds_def)
      let ?R = "same_shard (pl_rollout_infos m) nm r_info"
      have "get_dup_ranks_for_rollout m r nm = Inr ?R" using dup_ranks_same [OF r] by (simp add: get_dup_ranks_for_rollout_def)
      moreover have "policy_to_rollout_assign ?P ?R p r = Inr ([], []) \<or> policy_to_rollout_assign ?P ?R p r = Inr ([r], [p])"
        using assign_cases pin same_shard_self [OF wf(2) r] by simp
      ultimately show ?thesis
        by (auto simp: transfer_def pg Some Inr bindR_def split: sum.splits option.splits)
    qed
  qed simp
qed

lemma recv_param_transfers:
  assumes "wf_plan m" and r: "holds (pl_rollout_infos m) r nm r_info"
    and len: "slices_of r_info = Inr sl"
  shows "recv_param dims_order m r nm r_info =
    bindR (mapR (\<lambda>p. bindR (transfer dims_order m nm p r) (\<lambda>t. Inr (case t of None \<Rightarrow> []
        | Some parts \<Rightarrow> [\<lparr>i_policy_rank = p, i_rollout_rank = r, i_slice_strategy = snd parts\<rparr>])))
      [0..<length (pl_policy_infos m)]) (\<lambda>yss. Inr (concat yss))"
proof -
  have wf: "wf_infos (pl_policy_infos m)" "wf_infos (pl_rollout_infos m)" using assms(1) by (simp_all add: wf_plan_def)
  let ?R = "same_shard (pl_rollout_infos m) nm r_info"
  have dup: "get_dup_ranks_for_rollout m r nm = Inr ?R" using dup_ranks_same [OF r] by (simp add: get_dup_ranks_for_rollout_def)
  have rin: "r \<in> set ?R" using same_shard_self [OF wf(2) r] .
  have rg: "dict_get (pl_rollout_infos m ! r) nm = Some r_info" using r by (simp add: holds_def)
  let ?f = "\<lambda>p. bindR (transfer dims_order m nm p r) (\<lambda>t. Inr (case t of None \<Rightarrow> []
        | Some parts \<Rightarrow> [\<lparr>i_policy_rank = p, i_rollout_rank = r, i_slice_strategy = snd parts\<rparr>]))"
  show ?thesis
    unfolding recv_param_def len dup bindR_simps enumerate_index forR_map prod.case
  proof (subst forR_collect [where f = ?f], goal_cases)
    case (1 p acc)
    show ?case
    proof (cases "dict_get (pl_policy_infos m ! p) nm")
      case None
      then show ?thesis by (simp add: transfer_def)
    next
      case (Some p_info)
      have p: "holds (pl_policy_infos m) p nm p_info" using 1 Some by (simp add: holds_def)
      let ?P = "same_shard (pl_policy_infos m) nm p_info"
      have "get_dup_ranks_for_policy m p nm = Inr ?P" using dup_ranks_same [OF p] by (simp add: get_dup_ranks_for_policy_def)
      moreover have "policy_to_rollout_assign ?P ?R p r = Inr ([], []) \<or> policy_to_rollout_assign ?P ?R p r = Inr ([r], [p])"
        using assign_cases rin same_shard_self [OF wf(1) p] by simp
      ultimately show ?thesis
        by (auto simp: transfer_def rg Some len bindR_def split: sum.splits option.splits)
    qed
  qed simp
qed

section \<open>The sequence of transfers between two ranks\<close>

text \<open>The parameters and parts of the instructions that satisfy \<open>Q\<close>, in the order of the plan.\<close>

definition picked :: "(inst \<Rightarrow> bool) \<Rightarrow> param_insts \<Rightarrow> (string \<times> slices) list" where
  "picked Q pin = map (\<lambda>i. (ip_param_name pin, i_slice_strategy i)) (filter Q (ip_instructions pin))"

definition picked_all :: "(inst \<Rightarrow> bool) \<Rightarrow> group_insts list \<Rightarrow> (string \<times> slices) list" where
  "picked_all Q gs = concat (map (\<lambda>g. concat (map (picked Q) (ig_param_instructions g))) gs)"

definition sent_to :: "nat \<Rightarrow> group_insts list \<Rightarrow> (string \<times> slices) list" where
  "sent_to r = picked_all (\<lambda>i. i_rollout_rank i = r)"

definition received_from :: "nat \<Rightarrow> group_insts list \<Rightarrow> (string \<times> slices) list" where
  "received_from p = picked_all (\<lambda>i. i_policy_rank i = p)"

lemma picked_all_append [simp]: "picked_all Q (xs @ ys) = picked_all Q xs @ picked_all Q ys"
  by (simp add: picked_all_def)

lemma picked_all_Cons [simp]:
  "picked_all Q [] = []" "picked_all Q (g # gs) = concat (map (picked Q) (ig_param_instructions g)) @ picked_all Q gs"
  by (simp_all add: picked_all_def)

text \<open>A loop whose every step appends what its item contributes.\<close>

lemma forR_contributes:
  assumes "forR xs f s = Inr s'" and "\<And>x s s'. x \<in> set xs \<Longrightarrow> f x s = Inr s' \<Longrightarrow> h s' = h s @ c x"
  shows "h s' = h s @ concat (map c xs)"
  using assms
proof (induction xs arbitrary: s)
  case Nil
  then show ?case by simp
next
  case (Cons x xs)
  from Cons.prems(1) obtain s1 where s1: "f x s = Inr s1" "forR xs f s1 = Inr s'" by auto
  have "h s' = h s1 @ concat (map c xs)" using Cons.prems(2) by (intro Cons.IH [OF s1(2)]) auto
  moreover have "h s1 = h s @ c x" using Cons.prems(2) [OF _ s1(1)] by simp
  ultimately show ?case by simp
qed

text \<open>The parts of one transfer; \<open>side\<close> chooses the sender's or the receiver's.\<close>

definition parts_of :: "dims_order \<Rightarrow> plan_data \<Rightarrow> nat \<Rightarrow> nat \<Rightarrow> string \<Rightarrow> (string \<times> slices \<times> slices) list" where
  "parts_of dims_order m p r nm =
     (case transfer dims_order m nm p r of Inr (Some (ps, rs)) \<Rightarrow> [(nm, ps, rs)] | _ \<Rightarrow> [])"

abbreviation sender_part :: "string \<times> slices \<times> slices \<Rightarrow> string \<times> slices" where
  "sender_part \<equiv> \<lambda>(nm, ps, rs). (nm, ps)"

abbreviation receiver_part :: "string \<times> slices \<times> slices \<Rightarrow> string \<times> slices" where
  "receiver_part \<equiv> \<lambda>(nm, ps, rs). (nm, rs)"

lemma concat_single:
  assumes "k < n" and "\<And>i. i < n \<Longrightarrow> i \<noteq> k \<Longrightarrow> f i = []"
  shows "concat (map f [0..<n]) = f k"
proof -
  have range: "[0..<n] = [0..<k] @ k # [Suc k..<n]"
    using assms(1) by (metis upt_conv_Cons upt_add_eq_append le0 less_imp_le le_add_diff_inverse)
  have none: "concat (map f [0..<k]) = []" "concat (map f [Suc k..<n]) = []" using assms by auto
  show ?thesis unfolding range map_append concat_append list.map concat.simps none by simp
qed

lemma collected_key:
  assumes "mapR (\<lambda>x. bindR (tr x) (\<lambda>t. Inr (case t of None \<Rightarrow> [] | Some y \<Rightarrow> [g x y]))) [0..<n] = Inr yss"
    and "k < n" and "\<And>x y. key (g x y) = x"
  shows "filter (\<lambda>i. key i = k) (concat yss) = (case tr k of Inr (Some y) \<Rightarrow> [g k y] | _ \<Rightarrow> [])"
proof -
  let ?f = "\<lambda>x. case tr x of Inr (Some y) \<Rightarrow> [g x y] | _ \<Rightarrow> []"
  have "yss = map ?f [0..<n]"
    using assms(1) unfolding mapR_Inr_iff
    by (auto simp: list_all2_conv_all_nth bindR_Inr_iff intro!: nth_equalityI split: option.splits)
  moreover have "filter (\<lambda>i. key i = k) (concat (map ?f [0..<n])) = filter (\<lambda>i. key i = k) (?f k)"
    unfolding filter_concat map_map comp_def
    by (rule concat_single [OF assms(2)]) (auto simp: assms(3) split: sum.splits option.splits)
  moreover have "filter (\<lambda>i. key i = k) (?f k) = ?f k" by (auto simp: assms(3) split: sum.splits option.splits)
  ultimately show ?thesis by simp
qed

lemma send_param_picked:
  assumes "wf_plan m" and "holds (pl_policy_infos m) p nm p_info" and "r < length (pl_rollout_infos m)"
    and "send_param dims_order m p nm p_info = Inr insts"
  shows "map (\<lambda>i. (nm, i_slice_strategy i)) (filter (\<lambda>i. i_rollout_rank i = r) insts) = map sender_part (parts_of dims_order m p r nm)"
proof -
  obtain yss where y: "insts = concat yss" "mapR (\<lambda>r. bindR (transfer dims_order m nm p r) (\<lambda>t. Inr (case t of None \<Rightarrow> []
      | Some parts \<Rightarrow> [\<lparr>i_policy_rank = p, i_rollout_rank = r, i_slice_strategy = fst parts\<rparr>]))) [0..<length (pl_rollout_infos m)] = Inr yss"
    using assms(4) unfolding send_param_transfers [OF assms(1,2)] by auto
  show ?thesis
    using collected_key [OF y(2) assms(3), of i_rollout_rank] by (auto simp: y(1) parts_of_def split: sum.splits option.splits)
qed

lemma recv_param_picked:
  assumes "wf_plan m" and "holds (pl_rollout_infos m) r nm r_info" and "p < length (pl_policy_infos m)"
    and "recv_param dims_order m r nm r_info = Inr insts"
  shows "map (\<lambda>i. (nm, i_slice_strategy i)) (filter (\<lambda>i. i_policy_rank i = p) insts) = map receiver_part (parts_of dims_order m p r nm)"
proof -
  obtain sl where sl: "slices_of r_info = Inr sl" using assms(4) by (auto simp: recv_param_def)
  obtain yss where y: "insts = concat yss" "mapR (\<lambda>p. bindR (transfer dims_order m nm p r) (\<lambda>t. Inr (case t of None \<Rightarrow> []
      | Some parts \<Rightarrow> [\<lparr>i_policy_rank = p, i_rollout_rank = r, i_slice_strategy = snd parts\<rparr>]))) [0..<length (pl_policy_infos m)] = Inr yss"
    using assms(4) unfolding recv_param_transfers [OF assms(1,2) sl] by auto
  show ?thesis
    using collected_key [OF y(2) assms(3), of i_policy_rank] by (auto simp: y(1) parts_of_def split: sum.splits option.splits)
qed

lemma parts_of_absent:
  assumes "dict_get (pl_policy_infos m ! p) nm = None \<or> dict_get (pl_rollout_infos m ! r) nm = None"
  shows "parts_of dims_order m p r nm = []"
  using assms by (auto simp: parts_of_def transfer_def split: option.splits)

text \<open>The order of the plan: the names outside the groups, then the groups.\<close>

definition plan_order :: "plan_data \<Rightarrow> string list \<Rightarrow> string list" where
  "plan_order m names = filter (\<lambda>nm. \<not> dict_has (pl_param_to_groups m) nm) names @ concat (pl_param_groups m)"

lemma concat_map_filter: "concat (map (\<lambda>x. if Q x then f x else []) xs) = concat (map f (filter Q xs))"
  by (induction xs) auto

lemma plan_sequence:
  fixes single :: "string \<Rightarrow> group_insts list \<times> string list \<Rightarrow> py_error + (group_insts list \<times> string list)"
  assumes "forR names single ([], []) = Inr s1" and "forR (pl_param_groups m) grouped s1 = Inr s2"
    and "\<And>nm s s'. single nm s = Inr s' \<Longrightarrow>
      picked_all Q (fst s') = picked_all Q (fst s) @ (if \<not> dict_has (pl_param_to_groups m) nm then part nm else [])"
    and "\<And>grp s s'. grouped grp s = Inr s' \<Longrightarrow> picked_all Q (fst s') = picked_all Q (fst s) @ concat (map part grp)"
  shows "picked_all Q (fst s2) = concat (map part (plan_order m names))"
proof -
  have "picked_all Q (fst s1) = picked_all Q (fst ([] :: group_insts list, [] :: string list))
      @ concat (map (\<lambda>nm. if \<not> dict_has (pl_param_to_groups m) nm then part nm else []) names)"
    by (rule forR_contributes [OF assms(1), where h = "\<lambda>s. picked_all Q (fst s)"]) (rule assms(3))
  moreover have "picked_all Q (fst s2) = picked_all Q (fst s1) @ concat (map (\<lambda>grp. concat (map part grp)) (pl_param_groups m))"
    by (rule forR_contributes [OF assms(2), where h = "\<lambda>s. picked_all Q (fst s)"]) (rule assms(4))
  moreover have "concat (map (\<lambda>grp. concat (map part grp)) gs) = concat (map part (concat gs))" for gs
    by (induction gs) auto
  ultimately show ?thesis by (simp add: plan_order_def concat_map_filter)
qed

text \<open>A group appends what its parameters contribute.\<close>

lemma group_step:
  assumes "bindR (forR grp body ([], ig)) k = Inr s'"
    and "\<And>fg ig' s'. k (fg, ig') = Inr s' \<Longrightarrow> fst s' = (if fg = [] then out else out @ [\<lparr>ig_param_instructions = fg\<rparr>])"
    and "\<And>nm s s'. body nm s = Inr s' \<Longrightarrow> concat (map (picked Q) (fst s')) = concat (map (picked Q) (fst s)) @ part nm"
  shows "picked_all Q (fst s') = picked_all Q out @ concat (map part grp)"
proof -
  obtain fg ig' where loop: "forR grp body ([], ig) = Inr (fg, ig')" and "k (fg, ig') = Inr s'"
    using assms(1) by (auto simp: bindR_Inr_iff)
  then have "fst s' = (if fg = [] then out else out @ [\<lparr>ig_param_instructions = fg\<rparr>])" using assms(2) by blast
  moreover have "concat (map (picked Q) fg) = concat (map part grp)"
    using forR_contributes [OF loop, where h = "\<lambda>s. concat (map (picked Q) (fst s))", OF assms(3)] by simp
  ultimately show ?thesis by (auto split: if_splits)
qed

lemma send_sequence:
  assumes "wf_plan m" and "r < length (pl_rollout_infos m)"
    and "generate_parallelized_shard_send_insts_for_policy dims_order m p = Inr S"
  shows "sent_to r S = map sender_part (concat (map (parts_of dims_order m p r) (plan_order m (pl_sorted_policy m ! (pl_pp_policy m ! p)))))"
proof -
  let ?Q = "\<lambda>i. i_rollout_rank i = r" and ?shards = "pl_policy_infos m ! p" and ?part = "\<lambda>nm. map sender_part (parts_of dims_order m p r nm)"
  obtain s1 s2 where s: "forR (pl_sorted_policy m ! (pl_pp_policy m ! p)) (send_single dims_order m p ?shards) ([], []) = Inr s1"
    "forR (pl_param_groups m) (send_group dims_order m p ?shards) s1 = Inr s2" and S: "S = fst s2" and p: "p < length (pl_policy_infos m)"
    using assms(3) by (auto simp: generate_parallelized_shard_send_insts_for_policy_def Let_def bindR_Inr_iff split: if_splits)
  have part: "picked ?Q \<lparr>ip_param_name = nm, ip_instructions = insts\<rparr> = ?part nm"
    if "dict_get ?shards nm = Some info" "send_param dims_order m p nm info = Inr insts" for nm info insts
    using send_param_picked [OF assms(1) _ assms(2) that(2)] that(1) p by (simp add: picked_def holds_def)
  have none: "?part nm = []" if "dict_get ?shards nm = None" for nm using parts_of_absent [of m p nm r] that by simp
  have empty: "?part nm = []" if "dict_get ?shards nm = Some info" "send_param dims_order m p nm info = Inr []" for nm info
    using part [OF that] by (simp add: picked_def)
  have "picked_all ?Q (fst s2) = concat (map ?part (plan_order m (pl_sorted_policy m ! (pl_pp_policy m ! p))))"
  proof (rule plan_sequence [OF s])
    show "send_single dims_order m p ?shards nm t = Inr t' \<Longrightarrow>
        picked_all ?Q (fst t') = picked_all ?Q (fst t) @ (if \<not> dict_has (pl_param_to_groups m) nm then ?part nm else [])" for nm t t'
      by (auto simp: send_single_def part none empty split: option.splits if_splits prod.splits)
    show "picked_all ?Q (fst t') = picked_all ?Q (fst t) @ concat (map ?part grp)"
      if "send_group dims_order m p ?shards grp t = Inr t'" for grp t t'
      using that [unfolded send_group_def case_prod_unfold]
      by (rule group_step) (auto simp: part none empty bindR_Inr_iff split: option.splits if_splits)
  qed
  then show ?thesis by (simp add: sent_to_def S map_concat comp_def)
qed

lemma recv_sequence:
  assumes "wf_plan m" and "p < length (pl_policy_infos m)"
    and "generate_parallelized_shard_recv_insts_for_rollout dims_order m r = Inr R"
  shows "received_from p R = map receiver_part (concat (map (parts_of dims_order m p r) (plan_order m (pl_sorted_rollout m ! (pl_pp_rollout m ! r)))))"
proof -
  let ?Q = "\<lambda>i. i_policy_rank i = p" and ?shards = "pl_rollout_infos m ! r" and ?part = "\<lambda>nm. map receiver_part (parts_of dims_order m p r nm)"
  obtain s1 s2 where s: "forR (pl_sorted_rollout m ! (pl_pp_rollout m ! r)) (recv_single dims_order m r ?shards) ([], []) = Inr s1"
    "forR (pl_param_groups m) (recv_group dims_order m r ?shards) s1 = Inr s2" and R: "R = fst s2" and r: "r < length (pl_rollout_infos m)"
    using assms(3) by (auto simp: generate_parallelized_shard_recv_insts_for_rollout_def Let_def bindR_Inr_iff split: if_splits)
  have part: "picked ?Q \<lparr>ip_param_name = nm, ip_instructions = insts\<rparr> = ?part nm"
    if "dict_get ?shards nm = Some info" "recv_param dims_order m r nm info = Inr insts" for nm info insts
    using recv_param_picked [OF assms(1) _ assms(2) that(2)] that(1) r by (simp add: picked_def holds_def)
  have none: "?part nm = []" if "dict_get ?shards nm = None" for nm using parts_of_absent [of m p nm r] that by simp
  have "picked_all ?Q (fst s2) = concat (map ?part (plan_order m (pl_sorted_rollout m ! (pl_pp_rollout m ! r))))"
  proof (rule plan_sequence [OF s])
    show "recv_single dims_order m r ?shards nm t = Inr t' \<Longrightarrow>
        picked_all ?Q (fst t') = picked_all ?Q (fst t) @ (if \<not> dict_has (pl_param_to_groups m) nm then ?part nm else [])" for nm t t'
      by (auto simp: recv_single_def part none bindR_Inr_iff split: option.splits if_splits prod.splits)
    show "picked_all ?Q (fst t') = picked_all ?Q (fst t) @ concat (map ?part grp)"
      if "recv_group dims_order m r ?shards grp t = Inr t'" for grp t t'
      using that [unfolded recv_group_def case_prod_unfold]
      by (rule group_step) (auto simp: part none bindR_Inr_iff split: option.splits if_splits)
  qed
  then show ?thesis by (simp add: received_from_def R map_concat comp_def)
qed

lemma overlap_loop_result:
  assumes "\<And>d. d \<in> set ds \<Longrightarrow> tensor_overlap_info_at_dim p r d = Inr (ov d)"
    and "distinct ds" and "\<And>d. d \<in> set ds \<Longrightarrow> dict_get ps d = None \<and> dict_get rs d = None"
  shows "overlap_loop p r ds (ps, rs) = Inr (if list_ex (\<lambda>d. ov d = None) ds then None
    else Some (ps @ map (\<lambda>d. (d, fst (the (ov d)))) ds, rs @ map (\<lambda>d. (d, snd (the (ov d)))) ds))"
  using assms
proof (induction ds arbitrary: ps rs)
  case Nil
  then show ?case by simp
next
  case (Cons d ds)
  show ?case
  proof (cases "ov d")
    case None
    then show ?thesis using Cons.prems(1) by simp
  next
    case (Some s)
    have "overlap_loop p r ds (dict_set d (fst s) ps, dict_set d (snd s) rs) = Inr (if list_ex (\<lambda>d. ov d = None) ds then None
      else Some (dict_set d (fst s) ps @ map (\<lambda>d. (d, fst (the (ov d)))) ds, dict_set d (snd s) rs @ map (\<lambda>d. (d, snd (the (ov d)))) ds))"
      using Cons.prems by (intro Cons.IH) auto
    then show ?thesis using Some Cons.prems by (auto simp: dict_set_new case_prod_unfold)
  qed
qed

section \<open>Elements\<close>

text \<open>
  An element of a tensor is its index in every dimension, \<open>ix\<close>; \<open>n\<close> gives the sizes of the
  dimensions. A shard covers the elements inside all its slices; within a shard, sizes and
  indices are counted from the shard's start.
\<close>

definition in_slice :: "int \<Rightarrow> dim_slice \<Rightarrow> int \<Rightarrow> bool" where
  "in_slice n s x \<longleftrightarrow> region_start n s \<le> x \<and> x < region_start n s + region_size n s"

definition covers :: "(int \<Rightarrow> int) \<Rightarrow> slices \<Rightarrow> (int \<Rightarrow> int) \<Rightarrow> bool" where
  "covers n sl ix \<longleftrightarrow> list_all (\<lambda>(d, s). in_slice (n d) s (ix d)) sl"

definition local_size :: "(int \<Rightarrow> int) \<Rightarrow> slices \<Rightarrow> int \<Rightarrow> int" where
  "local_size n sl d = region_size (n d) (dict_get_or sl d full_slice)"

definition local_index :: "(int \<Rightarrow> int) \<Rightarrow> slices \<Rightarrow> (int \<Rightarrow> int) \<Rightarrow> int \<Rightarrow> int" where
  "local_index n sl ix d = ix d - region_start (n d) (dict_get_or sl d full_slice)"

definition well_sharded :: "(int \<Rightarrow> int) \<Rightarrow> slices \<Rightarrow> bool" where
  "well_sharded n sl \<longleftrightarrow> wf_dict sl \<and> list_all (\<lambda>(d, s). slice_ok s \<and> ds_total_size s dvd n d \<and> 0 \<le> n d) sl"

definition compatible_at :: "slices \<Rightarrow> slices \<Rightarrow> int \<Rightarrow> bool" where
  "compatible_at p r d \<longleftrightarrow> (let a = ds_total_size (dict_get_or p d full_slice); b = ds_total_size (dict_get_or r d full_slice)
     in a dvd b \<or> b dvd a)"

definition compatible :: "slices \<Rightarrow> slices \<Rightarrow> bool" where
  "compatible p r \<longleftrightarrow> list_all (compatible_at p r) (dict_keys p @ dict_keys r)"

text \<open>The iteration order of a set: each element once.\<close>

definition iterates :: "('a list \<Rightarrow> 'a list) \<Rightarrow> bool" where
  "iterates ord \<longleftrightarrow> (\<forall>xs. distinct xs \<longrightarrow> distinct (ord xs) \<and> set (ord xs) = set xs)"

lemma full_slice_facts [simp]: "slice_ok full_slice" "ds_total_size full_slice = 1" "region_start n full_slice = 0" "region_size n full_slice = n"
  by (simp_all add: full_slice_def slice_ok_def region_start_def region_size_def)

lemma wf_dict_mem: "wf_dict d \<Longrightarrow> (k, v) \<in> set d \<longleftrightarrow> dict_get d k = Some v"
  by (simp add: dict_get_def wf_dict_def map_of_eq_Some_iff)

lemma well_sharded_at:
  assumes "well_sharded n sl" and "0 \<le> n d"
  shows "slice_ok (dict_get_or sl d full_slice)" "ds_total_size (dict_get_or sl d full_slice) dvd n d"
  using assms wf_dict_mem [of sl d]
  by (auto simp: well_sharded_def dict_get_or_def list_all_iff split: option.splits)

lemma covers_at:
  assumes "well_sharded n sl" and "dict_has sl d" and "covers n sl ix"
  shows "in_slice (n d) (dict_get_or sl d full_slice) (ix d)" "0 \<le> ix d" "ix d < n d" "0 \<le> n d"
proof -
  obtain s where s: "dict_get sl d = Some s" using assms(2) by auto
  then have mem: "(d, s) \<in> set sl" using wf_dict_mem [of sl d s] assms(1) by (auto simp: well_sharded_def)
  then have ok: "slice_ok s" "ds_total_size s dvd n d" "0 \<le> n d" using assms(1) by (auto simp: well_sharded_def list_all_iff)
  show "0 \<le> n d" by (fact ok(3))
  show "in_slice (n d) (dict_get_or sl d full_slice) (ix d)" using s mem assms(3) by (auto simp: covers_def dict_get_or_def list_all_iff)
  then show "0 \<le> ix d" "ix d < n d" using region_within [OF ok] s by (auto simp: in_slice_def dict_get_or_def)
qed

lemma covers_everywhere:
  assumes "well_sharded n sl" and "covers n sl ix" and "0 \<le> ix d" "ix d < n d"
  shows "in_slice (n d) (dict_get_or sl d full_slice) (ix d)"
proof (cases "dict_get sl d")
  case None
  then show ?thesis using assms(3,4) by (simp add: dict_get_or_def in_slice_def)
next
  case (Some s)
  then show ?thesis using covers_at(1) [OF assms(1) _ assms(2), of d] by blast
qed

lemma covers_iff:
  assumes "well_sharded n sl"
  shows "covers n sl ix \<longleftrightarrow> (\<forall>d \<in> set (dict_keys sl). in_slice (n d) (dict_get_or sl d full_slice) (ix d))"
proof
  assume "covers n sl ix"
  then show "\<forall>d \<in> set (dict_keys sl). in_slice (n d) (dict_get_or sl d full_slice) (ix d)"
    using covers_at(1) [OF assms] by (simp flip: dict_has_iff)
next
  assume *: "\<forall>d \<in> set (dict_keys sl). in_slice (n d) (dict_get_or sl d full_slice) (ix d)"
  have wf: "wf_dict sl" using assms by (simp add: well_sharded_def)
  have "in_slice (n d) s (ix d)" if "(d, s) \<in> set sl" for d s
    using * that wf_dict_mem [OF wf] by (force simp: dict_keys_def dict_get_or_def)
  then show "covers n sl ix" by (auto simp: covers_def list_all_iff)
qed

text \<open>The parts two shards exchange, in elements.\<close>

lemma split_covers:
  assumes "iterates ord" and P: "well_sharded n P" and R: "well_sharded n R" and "compatible P R"
  shows "\<exists>ov. split_strategies ord P R = Inr ov \<and> (case ov of None \<Rightarrow> \<not> (covers n P ix \<and> covers n R ix)
    | Some (ps, rs) \<Rightarrow> (covers (local_size n P) ps (local_index n P ix) \<longleftrightarrow> covers n P ix \<and> covers n R ix)
        \<and> (covers (local_size n R) rs (local_index n R ix) \<longleftrightarrow> covers n P ix \<and> covers n R ix))"
proof -
  let ?D = "all_dims ord P R" and ?p = "\<lambda>d. dict_get_or P d full_slice" and ?r = "\<lambda>d. dict_get_or R d full_slice"
  let ?lo = "\<lambda>d. overlap_lo (n d) (?p d) (?r d)" and ?hi = "\<lambda>d. overlap_hi (n d) (?p d) (?r d)"
  have D: "distinct ?D" "set ?D = set (dict_keys P) \<union> set (dict_keys R)" using assms(1) by (auto simp: all_dims_def iterates_def)
  have n0: "0 \<le> n d" if "d \<in> set ?D" for d
    using that D(2) P R by (auto simp: well_sharded_def list_all_iff dict_keys_def)
  have dim: "case tensor_overlap_info_at_dim P R d of Inl e \<Rightarrow> False | Inr None \<Rightarrow> ?hi d \<le> ?lo d
      | Inr (Some (sp, sr)) \<Rightarrow> ?lo d \<le> ?hi d \<and> relative_part (n d) (?p d) sp (?lo d) (?hi d) \<and> relative_part (n d) (?r d) sr (?lo d) (?hi d)"
    if "d \<in> set ?D" for d
  proof -
    note pd = well_sharded_at [OF P n0 [OF that]] and rd = well_sharded_at [OF R n0 [OF that]]
    have c: "ds_total_size (?p d) dvd ds_total_size (?r d) \<or> ds_total_size (?r d) dvd ds_total_size (?p d)"
      using assms(4) that D(2) by (auto simp: compatible_def compatible_at_def Let_def list_all_iff)
    have "max (ds_total_size (?p d)) (ds_total_size (?r d)) dvd n d" using pd(2) rd(2) by (simp add: max_def)
    then show ?thesis by (rule overlap_regions [OF pd(1) rd(1) c _ n0 [OF that] refl refl])
  qed
  define ov where "ov d = projr (tensor_overlap_info_at_dim P R d)" for d
  have ov: "tensor_overlap_info_at_dim P R d = Inr (ov d)" if "d \<in> set ?D" for d
    using dim [OF that] by (auto simp: ov_def split: sum.splits)
  have both: "covers n P ix \<and> covers n R ix \<longleftrightarrow> (\<forall>d \<in> set ?D. ?lo d \<le> ix d \<and> ix d < ?hi d)"
  proof
    assume cov: "covers n P ix \<and> covers n R ix"
    show "\<forall>d \<in> set ?D. ?lo d \<le> ix d \<and> ix d < ?hi d"
    proof
      fix d assume "d \<in> set ?D"
      then have "dict_has P d \<or> dict_has R d" using D(2) by (simp only: dict_has_iff Un_iff)
      then have range: "0 \<le> ix d" "ix d < n d" using covers_at(2,3) P R cov by blast+
      have "in_slice (n d) (?p d) (ix d)" "in_slice (n d) (?r d) (ix d)"
        using covers_everywhere P R cov range by blast+
      then show "?lo d \<le> ix d \<and> ix d < ?hi d" by (simp add: in_slice_def overlap_lo_def overlap_hi_def)
    qed
  next
    assume "\<forall>d \<in> set ?D. ?lo d \<le> ix d \<and> ix d < ?hi d"
    then show "covers n P ix \<and> covers n R ix"
      using covers_iff [OF P] covers_iff [OF R] D(2) by (simp add: in_slice_def overlap_lo_def overlap_hi_def)
  qed
  have split: "split_strategies ord P R = Inr (if list_ex (\<lambda>d. ov d = None) ?D then None
      else Some (map (\<lambda>d. (d, fst (the (ov d)))) ?D, map (\<lambda>d. (d, snd (the (ov d)))) ?D))"
    unfolding split_strategies_def by (subst overlap_loop_result [OF ov D(1)]) auto
  show ?thesis
  proof (cases "list_ex (\<lambda>d. ov d = None) ?D")
    case True
    then obtain d where d: "d \<in> set ?D" "ov d = None" by (auto simp: list_ex_iff)
    then have "?hi d \<le> ?lo d" using dim [OF d(1)] ov [OF d(1)] by simp
    then have "\<not> (covers n P ix \<and> covers n R ix)" using d(1) unfolding both by force
    then show ?thesis using split True by simp
  next
    case False
    have part: "relative_part (n d) (?p d) (fst (the (ov d))) (?lo d) (?hi d)" "relative_part (n d) (?r d) (snd (the (ov d))) (?lo d) (?hi d)"
      if "d \<in> set ?D" for d
      using dim [OF that] ov [OF that] False that by (auto simp: list_ex_iff)
    have "covers (local_size n P) (map (\<lambda>d. (d, fst (the (ov d)))) ?D) (local_index n P ix) \<longleftrightarrow> (\<forall>d \<in> set ?D. ?lo d \<le> ix d \<and> ix d < ?hi d)"
      using part(1) by (auto simp: covers_def list_all_iff in_slice_def local_size_def local_index_def relative_part_def)
    moreover have "covers (local_size n R) (map (\<lambda>d. (d, snd (the (ov d)))) ?D) (local_index n R ix) \<longleftrightarrow> (\<forall>d \<in> set ?D. ?lo d \<le> ix d \<and> ix d < ?hi d)"
      using part(2) by (auto simp: covers_def list_all_iff in_slice_def local_size_def local_index_def relative_part_def)
    ultimately show ?thesis using split False both by simp
  qed
qed

end
