(* ===== verification/Shard_Plan_Claims.thy ===== *)
theory Shard_Plan_Claims
  imports Shard_Plan
begin

text \<open>
  The claims about the weight-synchronisation plan: both ends of every pair of ranks list the
  same transfers in the same order, and every element of a rollout shard is received from
  exactly one policy rank. Each claim is evaluated on a small plan.
\<close>

section \<open>Both ends agree\<close>

lemma parts_of_mem:
  assumes "(nm, ps, rs) \<in> set (parts_of ord m p r nm')"
  shows "nm = nm' \<and> (\<exists>p_info r_info P R. dict_get (pl_policy_infos m ! p) nm = Some p_info
    \<and> dict_get (pl_rollout_infos m ! r) nm = Some r_info \<and> slices_of p_info = Inr P \<and> slices_of r_info = Inr R
    \<and> split_strategies ord P R = Inr (Some (ps, rs)))"
proof -
  have "nm = nm'" "transfer ord m nm' p r = Inr (Some (ps, rs))"
    using assms by (auto simp: parts_of_def split: sum.splits option.splits prod.splits)
  then show ?thesis by (auto simp: transfer_def bindR_Inr_iff split: option.splits if_splits)
qed

lemma parts_of_filter:
  assumes "\<And>nm. \<not> Q nm \<Longrightarrow> f nm = []"
  shows "concat (map f xs) = concat (map f (filter Q xs))"
  using assms by (induction xs) auto

text \<open>
  C27: The two ends of every transfer agree. If the plan of a policy rank and the plan of a
  rollout rank are generated, and each lists its parameters sorted and without repetition,
  as the replicas report them, then what the first sends to the second and what the second
  expects from the first are one sequence of transfers: the same parameters in the same
  order, and each pair of parts is the overlap of the two shards of that parameter.
\<close>

theorem transfers_match:
  assumes "wf_plan m"
    and "generate_parallelized_shard_send_insts_for_policy ord m p = Inr S"
    and "generate_parallelized_shard_recv_insts_for_rollout ord m r = Inr R"
    and ns: "ns = pl_sorted_policy m ! (pl_pp_policy m ! p)" "sorted ns" "distinct ns" "set (dict_keys (pl_policy_infos m ! p)) \<subseteq> set ns"
    and nr: "nr = pl_sorted_rollout m ! (pl_pp_rollout m ! r)" "sorted nr" "distinct nr" "set (dict_keys (pl_rollout_infos m ! r)) \<subseteq> set nr"
  shows "\<exists>L. sent_to r S = map (\<lambda>(nm, ps, rs). (nm, ps)) L \<and> received_from p R = map (\<lambda>(nm, ps, rs). (nm, rs)) L
    \<and> (\<forall>(nm, ps, rs) \<in> set L. \<exists>p_info r_info P R. dict_get (pl_policy_infos m ! p) nm = Some p_info
        \<and> dict_get (pl_rollout_infos m ! r) nm = Some r_info \<and> slices_of p_info = Inr P \<and> slices_of r_info = Inr R
        \<and> split_strategies ord P R = Inr (Some (ps, rs)))"
proof -
  let ?f = "parts_of ord m p r"
  let ?Q = "\<lambda>nm. dict_has (pl_policy_infos m ! p) nm \<and> dict_has (pl_rollout_infos m ! r) nm"
  let ?free = "\<lambda>nm. \<not> dict_has (pl_param_to_groups m) nm"
  have ranks: "p < length (pl_policy_infos m)" "r < length (pl_rollout_infos m)"
    using assms(2,3) by (auto simp: generate_parallelized_shard_send_insts_for_policy_def
        generate_parallelized_shard_recv_insts_for_rollout_def split: if_splits)
  have common: "filter ?Q (filter ?free ns) = filter ?Q (filter ?free nr)"
  proof (rule sorted_distinct_set_unique)
    show "set (filter ?Q (filter ?free ns)) = set (filter ?Q (filter ?free nr))"
      using ns(4) nr(4) by (auto simp: dict_has_iff subset_iff simp del: not_None_eq)
  qed (use ns nr in \<open>auto intro!: sorted_wrt_filter\<close>)
  have "concat (map ?f (plan_order m xs)) = concat (map ?f (filter ?Q (filter ?free xs))) @ concat (map ?f (concat (pl_param_groups m)))" for xs
    unfolding plan_order_def map_append concat_append
    by (subst parts_of_filter [of ?Q]) (use parts_of_absent in auto)
  then have L: "concat (map ?f (plan_order m ns)) = concat (map ?f (plan_order m nr))" by (simp only: common)
  define T where "T = concat (map ?f (plan_order m ns))"
  have "sent_to r S = map (\<lambda>(nm, ps, rs). (nm, ps)) T"
    using send_sequence [OF assms(1) ranks(2) assms(2)] by (simp only: ns(1) T_def)
  moreover have "received_from p R = map (\<lambda>(nm, ps, rs). (nm, rs)) T"
    using recv_sequence [OF assms(1) ranks(1) assms(3)] by (simp only: T_def L nr(1))
  moreover have "\<exists>p_info r_info P R. dict_get (pl_policy_infos m ! p) nm = Some p_info
        \<and> dict_get (pl_rollout_infos m ! r) nm = Some r_info \<and> slices_of p_info = Inr P \<and> slices_of r_info = Inr R
        \<and> split_strategies ord P R = Inr (Some (ps, rs))" if "(nm, ps, rs) \<in> set T" for nm ps rs
    using that parts_of_mem [of nm ps rs ord m p r] by (auto simp: T_def)
  ultimately show ?thesis by (intro exI [of _ T]) blast
qed

section \<open>Every element arrives once\<close>

lemma slices_of_get:
  assumes "slices_of info = Inr sl"
  shows "dict_keys sl = dict_keys info"
    "dict_get sl k = (case dict_get info k of None \<Rightarrow> None | Some v \<Rightarrow> Some (projr (slice_from_dict v)))"
  using assms unfolding slices_of_def
  by (induction info arbitrary: sl) (auto simp: bindR_Inr_iff dict_keys_def)

lemma same_shard_covers:
  assumes "dict_eq a b" and "wf_dict a" "wf_dict b" and "slices_of a = Inr A" "slices_of b = Inr B" and "well_sharded n A" "well_sharded n B"
  shows "covers n A ix \<longleftrightarrow> covers n B ix"
proof -
  have get: "dict_get A k = dict_get B k" for k
    using assms(1-3) slices_of_get(2) [OF assms(4)] slices_of_get(2) [OF assms(5)] by (simp add: dict_eq_get)
  then have "dict_get_or A k full_slice = dict_get_or B k full_slice" for k by (simp add: dict_get_or_def)
  moreover have "set (dict_keys A) = set (dict_keys B)" using get by (auto simp flip: dict_has_iff)
  ultimately show ?thesis unfolding covers_iff [OF assms(6)] covers_iff [OF assms(7)] by simp
qed

text \<open>The policy rank that serves rollout rank number \<open>j\<close> of the \<open>nr\<close> that hold a shard.\<close>

definition server :: "plan_data \<Rightarrow> string \<Rightarrow> nat \<Rightarrow> nat \<Rightarrow> shard_info \<Rightarrow> nat" where
  "server m nm nr j info = (let ranks = same_shard (pl_policy_infos m) nm info in ranks ! server_index (length ranks) nr j)"

definition parts_cover :: "(int \<Rightarrow> int) \<Rightarrow> (int \<Rightarrow> int) \<Rightarrow> slices \<Rightarrow> slices \<Rightarrow> (slices \<times> slices) option \<Rightarrow> bool" where
  "parts_cover n ix P R ov \<longleftrightarrow> (case ov of None \<Rightarrow> \<not> covers n P ix
     | Some (ps, rs) \<Rightarrow> (covers (local_size n P) ps (local_index n P ix) \<longleftrightarrow> covers n P ix)
         \<and> (covers (local_size n R) rs (local_index n R ix) \<longleftrightarrow> covers n P ix))"

lemma server_holds:
  assumes "wf_plan m" and "holds (pl_policy_infos m) p0 nm info0" and "j < nr"
  obtains info where "holds (pl_policy_infos m) (server m nm nr j info0) nm info" "dict_eq info info0"
proof -
  let ?P = "same_shard (pl_policy_infos m) nm info0"
  have "p0 \<in> set ?P" using same_shard_self assms(1,2) by (simp add: wf_plan_def)
  then have "server_index (length ?P) nr j < length ?P" using assms(3) by (intro server_index_less) (auto dest: length_pos_if_in_set)
  then have "server m nm nr j info0 \<in> set ?P" by (simp add: server_def Let_def)
  then show thesis using that by (auto simp: same_shard_iff)
qed

lemma server_eq:
  assumes "wf_plan m" and "holds (pl_policy_infos m) p nm a" "holds (pl_policy_infos m) q nm b" "dict_eq a b"
  shows "server m nm nr j a = server m nm nr j b"
  using same_shard_eq [OF _ assms(2-4)] assms(1) by (simp add: server_def wf_plan_def)

lemma transfer_result:
  assumes "wf_plan m" and "iterates ord" and p: "holds (pl_policy_infos m) p nm p_info" and r: "holds (pl_rollout_infos m) r nm r_info"
    and P: "slices_of p_info = Inr P" "well_sharded n P" "compatible P R" and R: "slices_of r_info = Inr R" "well_sharded n R" "covers n R ix"
    and j: "j < length (same_shard (pl_rollout_infos m) nm r_info)" "same_shard (pl_rollout_infos m) nm r_info ! j = r"
  obtains ov where "split_strategies ord P R = Inr ov" "parts_cover n ix P R ov"
    "transfer ord m nm p r = Inr (if p = server m nm (length (same_shard (pl_rollout_infos m) nm r_info)) j p_info then ov else None)"
proof -
  let ?P = "same_shard (pl_policy_infos m) nm p_info" and ?R = "same_shard (pl_rollout_infos m) nm r_info"
  obtain ov where ov: "split_strategies ord P R = Inr ov" "parts_cover n ix P R ov"
    using split_covers [OF assms(2) P(2) R(2) P(3), of ix] R(3) by (auto simp: parts_cover_def split: option.splits)
  have "?P \<noteq> []" using same_shard_self [OF _ p] assms(1) by (auto simp: wf_plan_def)
  then have "policy_to_rollout_assign ?P ?R p r = Inr (if p = server m nm (length ?R) j p_info then ([r], [p]) else ([], []))"
    using assign_spec [OF same_shard_distinct same_shard_distinct _ j(1)] j(2) by (simp add: server_def Let_def)
  then have "transfer ord m nm p r = Inr (if p = server m nm (length ?R) j p_info then ov else None)"
    using p r P(1) R(1) ov(1) by (auto simp: transfer_def holds_def split: option.splits)
  with ov show thesis by (rule that)
qed

text \<open>
  C26: Every element of a rollout shard is received exactly once. Take a parameter of a
  rollout rank, an element of its shard, and assume that the policy ranks hold the parameter in
  well-formed shards with compatible denominators, that some policy rank holds the element and
  that all policy ranks that hold it hold the same shard (replicas). Then generating the receive
  instructions of the parameter raises nothing, exactly one instruction's part of the local
  shard contains the element, and the part that its policy rank is to send contains it too.
\<close>

theorem received_once:
  assumes "wf_plan m" and "iterates ord"
    and r: "holds (pl_rollout_infos m) r nm r_info" "slices_of r_info = Inr R" "well_sharded n R" "covers n R ix"
    and shards: "\<forall>p info. holds (pl_policy_infos m) p nm info \<longrightarrow> (\<exists>P. slices_of info = Inr P \<and> well_sharded n P \<and> compatible P R)"
    and src: "holds (pl_policy_infos m) p0 nm info0" "slices_of info0 = Inr P0" "covers n P0 ix"
    and partition: "\<forall>p info P. holds (pl_policy_infos m) p nm info \<longrightarrow> slices_of info = Inr P \<longrightarrow> covers n P ix \<longrightarrow> dict_eq info info0"
  shows "\<exists>insts i info P ps rs. recv_param ord m r nm r_info = Inr insts
    \<and> filter (\<lambda>i. covers (local_size n R) (i_slice_strategy i) (local_index n R ix)) insts = [i]
    \<and> holds (pl_policy_infos m) (i_policy_rank i) nm info \<and> slices_of info = Inr P
    \<and> split_strategies ord P R = Inr (Some (ps, rs)) \<and> i_slice_strategy i = rs
    \<and> covers (local_size n P) ps (local_index n P ix)"
proof -
  let ?R = "same_shard (pl_rollout_infos m) nm r_info" and ?N = "length (pl_policy_infos m)"
  have wf: "wf_infos (pl_policy_infos m)" "wf_infos (pl_rollout_infos m)" using assms(1) by (simp_all add: wf_plan_def)
  obtain j where j: "j < length ?R" "?R ! j = r" using same_shard_self [OF wf(2) r(1)] by (auto simp: in_set_conv_nth)
  define p where "p = server m nm (length ?R) j info0"
  obtain info where info: "holds (pl_policy_infos m) p nm info" "dict_eq info info0"
    using server_holds [OF assms(1) src(1) j(1)] unfolding p_def by metis
  let ?f = "\<lambda>q. bindR (transfer ord m nm q r) (\<lambda>t. Inr (case t of None \<Rightarrow> []
        | Some parts \<Rightarrow> [\<lparr>i_policy_rank = q, i_rollout_rank = r, i_slice_strategy = snd parts\<rparr>]))"
  let ?C = "\<lambda>i. covers (local_size n R) (i_slice_strategy i) (local_index n R ix)"
  note trans = transfer_result [OF assms(1,2) _ r(1) _ _ _ r(2,3,4) j]
  have absent: "?f q = Inr []" if "dict_get (pl_policy_infos m ! q) nm = None" for q
    using that by (simp add: transfer_def)
  have other: "\<exists>insts. ?f q = Inr insts \<and> (q \<noteq> p \<longrightarrow> filter ?C insts = [])" if q: "q < ?N" for q
  proof (cases "dict_get (pl_policy_infos m ! q) nm")
    case None
    then show ?thesis using absent by auto
  next
    case (Some info')
    then have hq: "holds (pl_policy_infos m) q nm info'" using q by (simp add: holds_def)
    obtain P' where P': "slices_of info' = Inr P'" "well_sharded n P'" "compatible P' R" using shards hq by blast
    obtain ov where "parts_cover n ix P' R ov" "transfer ord m nm q r = Inr (if q = server m nm (length ?R) j info' then ov else None)"
      using trans [OF hq P'] by metis
    moreover have "server m nm (length ?R) j info' = p" if "covers n P' ix"
      unfolding p_def using server_eq [OF assms(1) hq src(1)] partition hq P'(1) that by blast
    ultimately show ?thesis by (auto simp: parts_cover_def split: option.splits)
  qed
  have run: "recv_param ord m r nm r_info = Inr (concat (map (projr \<circ> ?f) [0..<?N]))"
    using other by (subst recv_param_transfers [OF assms(1) r(1,2)], subst mapR_totals) auto
  obtain P where P: "slices_of info = Inr P" "well_sharded n P" "compatible P R" using shards info(1) by blast
  obtain ov where ov: "split_strategies ord P R = Inr ov" "parts_cover n ix P R ov"
      "transfer ord m nm p r = Inr (if p = server m nm (length ?R) j info then ov else None)"
    using trans [OF info(1) P] by metis
  obtain P0' where "slices_of info0 = Inr P0'" "well_sharded n P0'" using shards src(1) by blast
  then have "covers n P ix"
    using same_shard_covers [OF info(2) holds_wf [OF wf(1) info(1)] holds_wf [OF wf(1) src(1)] P(1) src(2) P(2)] src(2,3) by simp
  moreover have "server m nm (length ?R) j info = p" using server_eq [OF assms(1) info(1) src(1) info(2)] by (simp add: p_def)
  ultimately obtain ps rs where hit: "ov = Some (ps, rs)" "transfer ord m nm p r = Inr (Some (ps, rs))"
      "covers (local_size n P) ps (local_index n P ix)" "covers (local_size n R) rs (local_index n R ix)"
    using ov(2,3) by (auto simp: parts_cover_def split: option.splits)
  let ?i = "\<lparr>i_policy_rank = p, i_rollout_rank = r, i_slice_strategy = rs\<rparr>"
  have "filter ?C (concat (map (projr \<circ> ?f) [0..<?N])) = filter ?C ((projr \<circ> ?f) p)"
    unfolding filter_concat map_map comp_def
    by (rule concat_single) (use info(1) other in \<open>fastforce simp: holds_def\<close>)+
  then have "filter ?C (concat (map (projr \<circ> ?f) [0..<?N])) = [?i]" using hit by simp
  then show ?thesis
    by (intro exI [of _ "concat (map (projr \<circ> ?f) [0..<?N])"] exI [of _ ?i] exI [of _ info] exI [of _ P] exI [of _ ps] exI [of _ rs])
      (use run info(1) P(1) ov(1) hit in simp)
qed

section \<open>Groups without a parameter on the rank\<close>

lemma forR_stuck:
  assumes "x \<in> set xs" and "\<And>s. \<exists>e. f x s = Inl e"
  shows "\<exists>e. forR xs f s = Inl e"
  using assms
proof (induction xs arbitrary: s)
  case Nil
  then show ?case by simp
next
  case (Cons y ys)
  show ?case
  proof (cases "f y s")
    case (Inl e)
    then show ?thesis by simp
  next
    case (Inr s')
    then have "y \<noteq> x" using Cons.prems(2) by (metis sum.simps(4))
    then show ?thesis using Cons Inr by simp
  qed
qed

text \<open>
  A rollout rank that holds no parameter of some group has no plan. The receive instructions of
  the rank are never generated: a parameter group none of whose parameters is in the rank's shard
  description makes the generation raise, although the sending side skips such groups. With
  several pipeline stages on the rollout side the groups of one stage are foreign to the others.
\<close>

theorem foreign_group_raises:
  assumes "grp \<in> set (pl_param_groups m)" and "\<forall>nm \<in> set grp. \<not> dict_has (pl_rollout_infos m ! r) nm"
  shows "\<exists>e. generate_parallelized_shard_recv_insts_for_rollout ord m r = Inl e"
proof -
  have skip: "forR names body s = Inr s" if "\<forall>nm \<in> set names. body nm s = Inr s" for names body and s :: "param_insts list \<times> string list"
    using that by (induction names) auto
  have stuck: "\<exists>e. recv_group ord m r (pl_rollout_infos m ! r) grp s = Inl e" for s
    using assms(2) unfolding recv_group_def case_prod_unfold by (subst skip) auto
  have "\<exists>e. forR (pl_param_groups m) (recv_group ord m r (pl_rollout_infos m ! r)) s = Inl e" for s
    by (rule forR_stuck [OF assms(1)]) (rule stuck)
  then show ?thesis
    unfolding generate_parallelized_shard_recv_insts_for_rollout_def Let_def bindR_def
    by (auto split: sum.splits if_splits) (metis sum.simps(4))
qed

section \<open>Evaluation\<close>

text \<open>
  One parameter, split in two over the policy ranks and whole on the rollout rank; for the last
  claim, a group on the policy side only.
\<close>

definition ex_half :: "int \<Rightarrow> raw_slice" where
  "ex_half k = \<lparr>rs_offset = Some k, rs_total_size = Some 2, rs_dim = Some ''tp'', rs_length = None\<rparr>"

definition ex_plan :: plan_data where
  "ex_plan = \<lparr>pl_policy_infos = [[(''w'', [(0, ex_half 0)])], [(''w'', [(0, ex_half 1)])]], pl_rollout_infos = [[(''w'', [])]],
     pl_param_to_groups = [], pl_param_groups = [], pl_sorted_policy = [[''w'']], pl_sorted_rollout = [[''w'']],
     pl_trainable = [''w''], pl_pp_policy = [0, 0], pl_pp_rollout = [0], pl_policy_world = 2, pl_rollout_world = 1\<rparr>"

lemma ex_plan_wf: "wf_plan ex_plan"
  by code_simp

theorem transfers_match_witness:
  "\<exists>S R L. generate_parallelized_shard_send_insts_for_policy id ex_plan 1 = Inr S
    \<and> generate_parallelized_shard_recv_insts_for_rollout id ex_plan 0 = Inr R
    \<and> sent_to 0 S = map (\<lambda>(nm, ps, rs). (nm, ps)) L \<and> received_from 1 R = map (\<lambda>(nm, ps, rs). (nm, rs)) L \<and> length L = 1"
proof -
  let ?S = "[\<lparr>ig_param_instructions = [\<lparr>ip_param_name = ''w'', ip_instructions =
      [\<lparr>i_policy_rank = 1, i_rollout_rank = 0, i_slice_strategy = [(0, mk_slice 0 1 ''tp'' 1)]\<rparr>]\<rparr>]\<rparr>]"
  let ?R = "[\<lparr>ig_param_instructions = [\<lparr>ip_param_name = ''w'', ip_instructions =
      [\<lparr>i_policy_rank = 0, i_rollout_rank = 0, i_slice_strategy = [(0, mk_slice 0 2 ''tp'' 1)]\<rparr>,
       \<lparr>i_policy_rank = 1, i_rollout_rank = 0, i_slice_strategy = [(0, mk_slice 1 2 ''tp'' 1)]\<rparr>]\<rparr>]\<rparr>]"
  have run: "generate_parallelized_shard_send_insts_for_policy id ex_plan 1 = Inr ?S"
    "generate_parallelized_shard_recv_insts_for_rollout id ex_plan 0 = Inr ?R" by code_simp+
  have names: "[''w''] = pl_sorted_policy ex_plan ! (pl_pp_policy ex_plan ! 1)" "[''w''] = pl_sorted_rollout ex_plan ! (pl_pp_rollout ex_plan ! 0)"
    "set (dict_keys (pl_policy_infos ex_plan ! 1)) \<subseteq> set [''w'']" "set (dict_keys (pl_rollout_infos ex_plan ! 0)) \<subseteq> set [''w'']"
    by code_simp+
  from transfers_match [OF ex_plan_wf run names(1) _ _ names(3) names(2) _ _ names(4)] obtain L where
    L: "sent_to 0 ?S = map (\<lambda>(nm, ps, rs). (nm, ps)) L" "received_from 1 ?R = map (\<lambda>(nm, ps, rs). (nm, rs)) L" by auto
  moreover have "sent_to 0 ?S = [(''w'', [(0, mk_slice 0 1 ''tp'' 1)])]" by code_simp
  then have "length L = 1" using L(1) by (metis length_map length_Cons list.size(3) One_nat_def)
  ultimately show ?thesis using run by blast
qed

theorem received_once_witness:
  "\<exists>insts i. recv_param id ex_plan 0 ''w'' [] = Inr insts \<and> filter (\<lambda>i. covers (local_size (\<lambda>_. 4) []) (i_slice_strategy i) (local_index (\<lambda>_. 4) [] (\<lambda>_. 3))) insts = [i]"
proof -
  have h: "holds (pl_rollout_infos ex_plan) 0 ''w'' []" "holds (pl_policy_infos ex_plan) 1 ''w'' [(0, ex_half 1)]"
    by (simp_all add: ex_plan_def holds_def)
  have sl: "slices_of [] = Inr []" "slices_of [(0, ex_half 0)] = Inr [(0, mk_slice 0 2 ''tp'' 1)]" "slices_of [(0, ex_half 1)] = Inr [(0, mk_slice 1 2 ''tp'' 1)]"
    by code_simp+
  have ok: "well_sharded (\<lambda>_. 4) []" "covers (\<lambda>_. 4) [] (\<lambda>_. 3)" "covers (\<lambda>_. 4) [(0, mk_slice 1 2 ''tp'' 1)] (\<lambda>_. 3)"
    "\<not> covers (\<lambda>_. 4) [(0, mk_slice 0 2 ''tp'' 1)] (\<lambda>_. 3)" "well_sharded (\<lambda>_. 4) [(0, mk_slice 0 2 ''tp'' 1)]" "well_sharded (\<lambda>_. 4) [(0, mk_slice 1 2 ''tp'' 1)]"
    "compatible [(0, mk_slice 0 2 ''tp'' 1)] []" "compatible [(0, mk_slice 1 2 ''tp'' 1)] []" "dict_eq [(0 :: int, ex_half 1)] [(0, ex_half 1)]"
    by code_simp+
  have cases: "info = [(0, ex_half 0)] \<or> info = [(0, ex_half 1)]" if "holds (pl_policy_infos ex_plan) p ''w'' info" for p info
    using that by (auto simp: holds_def ex_plan_def less_Suc_eq)
  have "iterates (id :: int list \<Rightarrow> int list)" by (simp add: iterates_def)
  from received_once [OF ex_plan_wf this h(1) sl(1) ok(1,2) _ h(2) sl(3) ok(3)] show ?thesis
    using cases sl ok by fastforce
qed

definition ex_foreign :: plan_data where
  "ex_foreign = ex_plan\<lparr>pl_param_groups := [[''v'']], pl_param_to_groups := [(''v'', [''v''])]\<rparr>"

theorem foreign_group_raises_witness:
  "(\<exists>e. generate_parallelized_shard_recv_insts_for_rollout id ex_foreign 0 = Inl e)
   \<and> generate_parallelized_shard_recv_insts_for_rollout id ex_foreign 0 = Inl ValueError"
proof
  show "\<exists>e. generate_parallelized_shard_recv_insts_for_rollout id ex_foreign 0 = Inl e"
    by (rule foreign_group_raises [of "[''v'']"]) (simp_all add: ex_foreign_def ex_plan_def)
  show "generate_parallelized_shard_recv_insts_for_rollout id ex_foreign 0 = Inl ValueError" by code_simp
qed

end
