(* ===== verification/Shard_Service.thy ===== *)
theory Shard_Service
  imports Shard_Mapper
begin

text \<open>
  The controller's shard mapper as the web panel drives it
  (class \<open>ParallelizedShardMapper\<close> of cosmos_rl/utils/parallelism_map.py): the reports of the two
  sides, the asynchronous task that unpacks them and generates the plan once both are there, and
  the queries of the ranks. A task runs in two steps, up to its \<open>await\<close> and after it, and other
  requests may be served in between. The generation runs in forked processes, which see the
  plan as it was when the task started them; its results are the futures of the state.
  Lemmas: in whatever order reports, tasks and queries come, the plan served is that of the
  first report of either side.
\<close>

section \<open>State\<close>

record shard_payload =
  sp_shard_infos :: "rank_shards list"
  sp_param_groups :: "string list list"
  sp_sorted_params :: "string list list"
  sp_trainable_params :: "string list"

record ('raw, 'o) shard_mapper =
  sm_policy_world :: "nat option"
  sm_rollout_world :: "nat option"
  sm_policy_raw :: "'raw option"
  sm_rollout_raw :: "'raw option"
  sm_send :: "'o option list option"
  sm_recv :: "'o option list option"
  sm_plan :: "plan_data option"
  sm_trainable :: "string list option"
  sm_policy_results :: "(py_error + 'o option) list"
  sm_rollout_results :: "(py_error + 'o option) list"
  sm_done :: bool
  sm_pool :: bool
  sm_tasks :: nat
  sm_unpacking :: "('raw \<times> 'raw) option"

text \<open>\<open>__init__\<close>, with no task pending.\<close>

definition sm_init :: "('raw, 'o) shard_mapper" where
  "sm_init = \<lparr>sm_policy_world = None, sm_rollout_world = None, sm_policy_raw = None, sm_rollout_raw = None,
     sm_send = None, sm_recv = None, sm_plan = None, sm_trainable = None, sm_policy_results = [], sm_rollout_results = [],
     sm_done = False, sm_pool = False, sm_tasks = 0, sm_unpacking = None\<rparr>"

text \<open>What is given from outside: msgpack, numpy, the iteration orders of Python's sets, and the
  two parallelism sections of the configuration.\<close>

record ('raw, 'o) mapper_env =
  me_unpackb :: "'raw \<Rightarrow> py_error + shard_payload"
  me_packb :: "group_insts list \<Rightarrow> 'o"
  me_array_split :: splitter
  me_dims_order :: dims_order
  me_groups_order :: "string list list \<Rightarrow> string list list"
  me_policy_parallelism :: parallelism_config
  me_rollout_parallelism :: parallelism_config

section \<open>Reports\<close>

definition set_shard_infos_of_policy :: "'raw \<Rightarrow> nat \<Rightarrow> ('raw, 'o) shard_mapper \<Rightarrow> ('raw, 'o) shard_mapper" where
  "set_shard_infos_of_policy raw n s =
     (if sm_policy_raw s = None
      then s\<lparr>sm_policy_world := Some n, sm_policy_raw := Some raw, sm_tasks := Suc (sm_tasks s)\<rparr> else s)"

definition set_shard_infos_of_rollout :: "'raw \<Rightarrow> nat \<Rightarrow> ('raw, 'o) shard_mapper \<Rightarrow> ('raw, 'o) shard_mapper" where
  "set_shard_infos_of_rollout raw n s =
     (if sm_rollout_raw s = None
      then s\<lparr>sm_rollout_world := Some n, sm_rollout_raw := Some raw, sm_tasks := Suc (sm_tasks s)\<rparr> else s)"

section \<open>Generating the plan\<close>

text \<open>The group of every parameter, and the set of groups.\<close>

definition note_groups :: "string list list \<Rightarrow> (string, string list) dict \<times> string list list \<Rightarrow> (string, string list) dict \<times> string list list" where
  "note_groups gs = fold (\<lambda>g (mp, groups). (fold (\<lambda>nm. dict_set nm g) g mp, List.insert g groups)) gs"

definition pp_ranks :: "splitter \<Rightarrow> parallelism_config \<Rightarrow> nat \<Rightarrow> py_error + nat list" where
  "pp_ranks array_split c n =
     bindR (from_config_for_analysis array_split c (int n)) (\<lambda>d. mapR (get_rank_in_dim d ''pp'') [0..<n])"

text \<open>\<open>sorted(groups, key=lambda x: x[0])\<close>.\<close>

definition sort_groups :: "string list list \<Rightarrow> py_error + string list list" where
  "sort_groups gs = (if [] \<in> set gs then Inl IndexError else Inr (sort_key hd gs))"

definition make_plan :: "('raw, 'o) mapper_env \<Rightarrow> 'raw \<Rightarrow> nat \<Rightarrow> 'raw \<Rightarrow> nat \<Rightarrow> py_error + plan_data" where
  "make_plan env p_raw p_world r_raw r_world =
     bindR (me_unpackb env p_raw) (\<lambda>p.
     bindR (me_unpackb env r_raw) (\<lambda>r.
     let (mp, gs) = note_groups (sp_param_groups r) (note_groups (sp_param_groups p) ([], [])) in
     bindR (sort_groups (me_groups_order env gs)) (\<lambda>groups.
     bindR (pp_ranks (me_array_split env) (me_policy_parallelism env) p_world) (\<lambda>pp_p.
     bindR (pp_ranks (me_array_split env) (me_rollout_parallelism env) r_world) (\<lambda>pp_r.
     Inr \<lparr>pl_policy_infos = sp_shard_infos p, pl_rollout_infos = sp_shard_infos r,
          pl_param_to_groups = mp, pl_param_groups = groups,
          pl_sorted_policy = sp_sorted_params p, pl_sorted_rollout = sp_sorted_params r,
          pl_trainable = sp_trainable_params p, pl_pp_policy = pp_p, pl_pp_rollout = pp_r,
          pl_policy_world = p_world, pl_rollout_world = r_world\<rparr>)))))"

text \<open>The futures: what the forked processes return or raise for every rank.\<close>

definition send_results :: "('raw, 'o) mapper_env \<Rightarrow> plan_data \<Rightarrow> (py_error + 'o option) list" where
  "send_results env plan = map (\<lambda>rank. bindR (policy_insts_generation_per_rank (me_dims_order env) plan rank)
     (\<lambda>x. Inr (map_option (me_packb env) x))) [0..<pl_policy_world plan]"

definition recv_results :: "('raw, 'o) mapper_env \<Rightarrow> plan_data \<Rightarrow> (py_error + 'o option) list" where
  "recv_results env plan = map (\<lambda>rank. bindR (rollout_insts_generation_per_rank (me_dims_order env) plan rank)
     (\<lambda>x. Inr (map_option (me_packb env) x))) [0..<pl_rollout_world plan]"

text \<open>\<open>post_set_shard_infos\<close> up to its first \<open>await\<close>, and the rest. A task that finds nothing to do ends.\<close>

definition post_start :: "('raw, 'o) shard_mapper \<Rightarrow> ('raw, 'o) shard_mapper" where
  "post_start s =
     (if sm_tasks s = 0 then s
      else
        let s1 = s\<lparr>sm_tasks := sm_tasks s - 1\<rparr>
        in case (sm_policy_raw s, sm_rollout_raw s, sm_send s, sm_recv s) of
             (Some p, Some r, None, None) \<Rightarrow> s1\<lparr>sm_send := Some [], sm_recv := Some [], sm_unpacking := Some (p, r)\<rparr>
           | _ \<Rightarrow> s1)"

definition post_finish :: "('raw, 'o) mapper_env \<Rightarrow> ('raw, 'o) shard_mapper \<Rightarrow> ('raw, 'o) shard_mapper outcome" where
  "post_finish env s =
     (case (sm_unpacking s, sm_policy_world s, sm_rollout_world s) of
        (Some (p, r), Some np, Some nr) \<Rightarrow>
          let s1 = s\<lparr>sm_unpacking := None, sm_policy_raw := None, sm_rollout_raw := None,
                sm_trainable := (case (me_unpackb env p, me_unpackb env r) of
                    (Inr pol, Inr rol) \<Rightarrow> Some (sp_trainable_params pol) | _ \<Rightarrow> sm_trainable s)\<rparr>
          in (case make_plan env p np r nr of
                Inl e \<Rightarrow> Inl (e, s1)
              | Inr plan \<Rightarrow> Inr (s1\<lparr>sm_plan := Some plan, sm_send := Some (replicate np None), sm_recv := Some (replicate nr None),
                  sm_pool := True, sm_policy_results := send_results env plan, sm_rollout_results := recv_results env plan,
                  sm_done := True\<rparr>))
      | _ \<Rightarrow> Inr s)"

section \<open>Queries\<close>

definition sm_cleanup :: "('raw, 'o) shard_mapper \<Rightarrow> ('raw, 'o) shard_mapper" where
  "sm_cleanup s =
     (case (sm_send s, sm_recv s) of
        (Some xs, Some ys) \<Rightarrow> if list_all (\<lambda>x. x \<noteq> None) xs \<and> list_all (\<lambda>y. y \<noteq> None) ys then s\<lparr>sm_pool := False\<rparr> else s
      | _ \<Rightarrow> s)"

text \<open>One query of an endpoint: it waits until the scheme is there; the state is unchanged when it raises.\<close>

definition fetch_insts :: "'o option list option \<Rightarrow> (py_error + 'o option) list \<Rightarrow>
    ('o option list \<Rightarrow> ('raw, 'o) shard_mapper \<Rightarrow> ('raw, 'o) shard_mapper) \<Rightarrow>
    nat \<Rightarrow> ('raw, 'o) shard_mapper \<Rightarrow> py_error + ('o option \<times> ('raw, 'o) shard_mapper)" where
  "fetch_insts cache results store rank s =
     (if \<not> sm_done s then Inl Blocks
      else case cache of
        None \<Rightarrow> Inl TypeError
      | Some xs \<Rightarrow>
          if length xs \<le> rank then Inl IndexError
          else case xs ! rank of
            Some x \<Rightarrow> Inr (Some x, sm_cleanup s)
          | None \<Rightarrow>
              if length results \<le> rank then Inl IndexError
              else bindR (results ! rank) (\<lambda>x. Inr (x, sm_cleanup (store (xs[rank := x]) s))))"

definition get_send_insts_for_policy :: "nat \<Rightarrow> ('raw, 'o) shard_mapper \<Rightarrow> py_error + ('o option \<times> ('raw, 'o) shard_mapper)" where
  "get_send_insts_for_policy rank s = fetch_insts (sm_send s) (sm_policy_results s) (\<lambda>xs s. s\<lparr>sm_send := Some xs\<rparr>) rank s"

definition get_recv_insts_for_rollout :: "nat \<Rightarrow> ('raw, 'o) shard_mapper \<Rightarrow> py_error + ('o option \<times> ('raw, 'o) shard_mapper)" where
  "get_recv_insts_for_rollout rank s = fetch_insts (sm_recv s) (sm_rollout_results s) (\<lambda>xs s. s\<lparr>sm_recv := Some xs\<rparr>) rank s"

section \<open>Endpoints\<close>

text \<open>The web panel's endpoints (cosmos_rl/dispatcher/run_web_panel.py); a reply is a message, an
  error response, or the packed instructions.\<close>

datatype 'o shard_reply = Message string | Invalid_request string | Internal_error string | Instructions 'o | Params "string list"

definition h_policy_shard_infos :: "string \<Rightarrow> 'raw \<Rightarrow> nat \<Rightarrow> ('raw, 'o) shard_mapper \<Rightarrow> 'o shard_reply \<times> ('raw, 'o) shard_mapper" where
  "h_policy_shard_infos content_type raw n s =
     (if content_type \<noteq> ''application/msgpack'' then (Invalid_request ''Invalid Content-Type, expected application/msgpack'', s)
      else (Message ''Policy shard infos set'', set_shard_infos_of_policy raw n s))"

definition h_rollout_shard_infos :: "string \<Rightarrow> 'raw \<Rightarrow> nat \<Rightarrow> ('raw, 'o) shard_mapper \<Rightarrow> 'o shard_reply \<times> ('raw, 'o) shard_mapper" where
  "h_rollout_shard_infos content_type raw n s =
     (if content_type \<noteq> ''application/msgpack'' then (Invalid_request ''Invalid Content-Type, expected application/msgpack'', s)
      else (Message ''Rollout shard infos set'', set_shard_infos_of_rollout raw n s))"

definition h_policy_shard_send_insts :: "nat \<Rightarrow> ('raw, 'o) shard_mapper \<Rightarrow> py_error + ('o shard_reply \<times> ('raw, 'o) shard_mapper)" where
  "h_policy_shard_send_insts rank s =
     bindR (get_send_insts_for_policy rank s) (\<lambda>(insts, s').
     Inr (case insts of None \<Rightarrow> Internal_error ''Policy shard send instructions not found'' | Some x \<Rightarrow> Instructions x, s'))"

definition h_rollout_shard_recv_insts :: "nat \<Rightarrow> ('raw, 'o) shard_mapper \<Rightarrow> py_error + ('o shard_reply \<times> ('raw, 'o) shard_mapper)" where
  "h_rollout_shard_recv_insts rank s =
     bindR (get_recv_insts_for_rollout rank s) (\<lambda>(insts, s').
     Inr (case insts of None \<Rightarrow> Internal_error ''Rollout shard receive instructions not found'' | Some x \<Rightarrow> Instructions x, s'))"

definition h_get_trainable_params :: "('raw, 'o) shard_mapper \<Rightarrow> 'o shard_reply" where
  "h_get_trainable_params s =
     (case sm_trainable s of None \<Rightarrow> Internal_error ''Error getting trainable params'' | Some ps \<Rightarrow> Params ps)"

section \<open>Events\<close>

datatype 'raw sm_event =
    Report_policy 'raw nat
  | Report_rollout 'raw nat
  | Post_start
  | Post_finish
  | Fetch_send nat
  | Fetch_recv nat

definition fetched :: "'s \<Rightarrow> py_error + ('o \<times> 's) \<Rightarrow> 's outcome" where
  "fetched s res = (case res of Inl e \<Rightarrow> Inl (e, s) | Inr (x, s') \<Rightarrow> Inr s')"

fun sm_handle :: "('raw, 'o) mapper_env \<Rightarrow> 'raw sm_event \<Rightarrow> ('raw, 'o) shard_mapper \<Rightarrow> ('raw, 'o) shard_mapper outcome" where
  "sm_handle env (Report_policy raw n) s = Inr (set_shard_infos_of_policy raw n s)"
| "sm_handle env (Report_rollout raw n) s = Inr (set_shard_infos_of_rollout raw n s)"
| "sm_handle env Post_start s = Inr (post_start s)"
| "sm_handle env Post_finish s = post_finish env s"
| "sm_handle env (Fetch_send rank) s = fetched s (get_send_insts_for_policy rank s)"
| "sm_handle env (Fetch_recv rank) s = fetched s (get_recv_insts_for_rollout rank s)"

text \<open>The first report of either side in a history.\<close>

fun first_policy :: "'raw sm_event list \<Rightarrow> ('raw \<times> nat) option" where
  "first_policy [] = None"
| "first_policy (Report_policy raw n # evs) = Some (raw, n)"
| "first_policy (_ # evs) = first_policy evs"

fun first_rollout :: "'raw sm_event list \<Rightarrow> ('raw \<times> nat) option" where
  "first_rollout [] = None"
| "first_rollout (Report_rollout raw n # evs) = Some (raw, n)"
| "first_rollout (_ # evs) = first_rollout evs"

section \<open>The invariant\<close>

text \<open>Cached answers are results of the futures.\<close>

definition cached_ok :: "'o option list \<Rightarrow> (py_error + 'o option) list \<Rightarrow> bool" where
  "cached_ok xs res \<longleftrightarrow> list_all2 (\<lambda>x r. x = None \<or> r = Inr x) xs res"

definition collecting :: "('raw \<times> nat) option \<Rightarrow> ('raw \<times> nat) option \<Rightarrow> ('raw, 'o) shard_mapper \<Rightarrow> bool" where
  "collecting fp fr s \<longleftrightarrow> sm_send s = None \<and> sm_recv s = None \<and> sm_unpacking s = None
     \<and> sm_policy_raw s = map_option fst fp \<and> sm_policy_world s = map_option snd fp
     \<and> sm_rollout_raw s = map_option fst fr \<and> sm_rollout_world s = map_option snd fr
     \<and> (fp \<noteq> None \<and> fr \<noteq> None \<longrightarrow> 0 < sm_tasks s) \<and> sm_plan s = None \<and> \<not> sm_done s"

definition unpacking :: "('raw \<times> nat) option \<Rightarrow> ('raw \<times> nat) option \<Rightarrow> ('raw, 'o) shard_mapper \<Rightarrow> bool" where
  "unpacking fp fr s \<longleftrightarrow> (\<exists>p np r nr. fp = Some (p, np) \<and> fr = Some (r, nr)
     \<and> sm_policy_raw s = Some p \<and> sm_policy_world s = Some np \<and> sm_rollout_raw s = Some r \<and> sm_rollout_world s = Some nr
     \<and> sm_unpacking s = Some (p, r)) \<and> sm_send s = Some [] \<and> sm_recv s = Some [] \<and> sm_plan s = None \<and> \<not> sm_done s"

definition failed :: "('raw, 'o) mapper_env \<Rightarrow> ('raw \<times> nat) option \<Rightarrow> ('raw \<times> nat) option \<Rightarrow> ('raw, 'o) shard_mapper \<Rightarrow> bool" where
  "failed env fp fr s \<longleftrightarrow> (\<exists>p np r nr e. fp = Some (p, np) \<and> fr = Some (r, nr) \<and> make_plan env p np r nr = Inl e)
     \<and> sm_send s = Some [] \<and> sm_recv s = Some [] \<and> sm_unpacking s = None \<and> sm_plan s = None \<and> \<not> sm_done s"

definition serving :: "('raw, 'o) mapper_env \<Rightarrow> ('raw \<times> nat) option \<Rightarrow> ('raw \<times> nat) option \<Rightarrow> ('raw, 'o) shard_mapper \<Rightarrow> bool" where
  "serving env fp fr s \<longleftrightarrow> (\<exists>p np r nr plan xs ys. fp = Some (p, np) \<and> fr = Some (r, nr) \<and> make_plan env p np r nr = Inr plan
     \<and> sm_plan s = Some plan \<and> sm_policy_results s = send_results env plan \<and> sm_rollout_results s = recv_results env plan
     \<and> sm_send s = Some xs \<and> cached_ok xs (send_results env plan) \<and> sm_recv s = Some ys \<and> cached_ok ys (recv_results env plan))
     \<and> sm_unpacking s = None \<and> sm_done s"

definition sm_inv :: "('raw, 'o) mapper_env \<Rightarrow> ('raw \<times> nat) option \<Rightarrow> ('raw \<times> nat) option \<Rightarrow> ('raw, 'o) shard_mapper \<Rightarrow> bool" where
  "sm_inv env fp fr s \<longleftrightarrow> collecting fp fr s \<or> unpacking fp fr s \<or> failed env fp fr s \<or> serving env fp fr s"

lemmas phase_defs = collecting_def unpacking_def failed_def serving_def

section \<open>Every step keeps the invariant\<close>

lemma cached_ok_length: "cached_ok xs res \<Longrightarrow> length xs = length res"
  by (simp add: cached_ok_def list_all2_lengthD)

lemma cached_ok_update: "cached_ok xs res \<Longrightarrow> k < length res \<Longrightarrow> res ! k = Inr x \<Longrightarrow> cached_ok (xs[k := x]) res"
  by (auto simp: cached_ok_def list_all2_conv_all_nth nth_list_update)

lemma cached_ok_nth: "cached_ok xs res \<Longrightarrow> k < length xs \<Longrightarrow> xs ! k = Some x \<Longrightarrow> res ! k = Inr (Some x)"
  by (auto simp: cached_ok_def list_all2_conv_all_nth)

lemma cached_ok_replicate: "cached_ok (replicate (length res) None) res"
  by (simp add: cached_ok_def list_all2_conv_all_nth)

lemma results_length [simp]:
  "length (send_results env plan) = pl_policy_world plan" "length (recv_results env plan) = pl_rollout_world plan"
  by (simp_all add: send_results_def recv_results_def)

lemma make_plan_worlds:
  "make_plan env p np r nr = Inr plan \<Longrightarrow> pl_policy_world plan = np \<and> pl_rollout_world plan = nr"
  by (auto simp: make_plan_def Let_def bindR_Inr_iff case_prod_unfold)

lemma cleanup_simps [simp]:
  "sm_plan (sm_cleanup s) = sm_plan s" "sm_send (sm_cleanup s) = sm_send s" "sm_recv (sm_cleanup s) = sm_recv s"
  "sm_policy_results (sm_cleanup s) = sm_policy_results s" "sm_rollout_results (sm_cleanup s) = sm_rollout_results s"
  "sm_unpacking (sm_cleanup s) = sm_unpacking s" "sm_done (sm_cleanup s) = sm_done s"
  by (auto simp: sm_cleanup_def split: option.splits)

lemma servingI:
  assumes "fp = Some (p, np)" "fr = Some (r, nr)" "make_plan env p np r nr = Inr plan" "sm_plan s = Some plan"
    "sm_policy_results s = send_results env plan" "sm_rollout_results s = recv_results env plan"
    "sm_send s = Some xs" "cached_ok xs (send_results env plan)" "sm_recv s = Some ys" "cached_ok ys (recv_results env plan)"
    "sm_unpacking s = None" "sm_done s"
  shows "serving env fp fr s"
  using assms unfolding serving_def by blast

lemma servingE:
  assumes "serving env fp fr s"
  obtains p np r nr plan xs ys where "fp = Some (p, np)" "fr = Some (r, nr)" "make_plan env p np r nr = Inr plan" "sm_plan s = Some plan"
    "sm_policy_results s = send_results env plan" "sm_rollout_results s = recv_results env plan"
    "sm_send s = Some xs" "cached_ok xs (send_results env plan)" "sm_recv s = Some ys" "cached_ok ys (recv_results env plan)"
    "sm_unpacking s = None" "sm_done s"
  using assms unfolding serving_def by (elim exE conjE) (rule that)

text \<open>What a query answers while a plan is served.\<close>

definition answer :: "py_error + ('x \<times> 's) \<Rightarrow> py_error + 'x" where
  "answer res = map_sum id fst res"

lemma answer_simps [simp]: "answer (Inl e) = Inl e" "answer (Inr (x, s)) = Inr x"
  by (simp_all add: answer_def)

lemma fetch_query:
  assumes "sm_done s" and "cached_ok xs res"
  shows "answer (fetch_insts (Some xs) res store k s) = (if length res \<le> k then Inl IndexError else res ! k)" (is ?answer)
    and "fetch_insts (Some xs) res store k s = Inr (x, s') \<Longrightarrow>
      s' = sm_cleanup s \<or> (\<exists>xs'. cached_ok xs' res \<and> s' = sm_cleanup (store xs' s))" (is "_ \<Longrightarrow> ?state")
proof -
  note len = cached_ok_length [OF assms(2)]
  show ?answer
  proof (cases "length res \<le> k \<or> xs ! k = None")
    case True
    then show ?thesis using assms(1) len by (cases "res ! k") (auto simp: fetch_insts_def)
  next
    case False
    then show ?thesis using assms(1) len cached_ok_nth [OF assms(2), of k] by (auto simp: fetch_insts_def)
  qed
  show ?state if "fetch_insts (Some xs) res store k s = Inr (x, s')"
  proof (cases "xs ! k")
    case None
    then have "k < length res" "res ! k = Inr x" "s' = sm_cleanup (store (xs[k := x]) s)"
      using that assms(1) len by (auto simp: fetch_insts_def bindR_Inr_iff split: if_splits)
    then show ?thesis using cached_ok_update [OF assms(2)] by blast
  next
    case (Some y)
    then show ?thesis using that assms(1) by (auto simp: fetch_insts_def split: if_splits)
  qed
qed

lemma query_answers:
  assumes "serving env fp fr s" and "sm_plan s = Some plan"
  shows "answer (get_send_insts_for_policy k s) = (if pl_policy_world plan \<le> k then Inl IndexError else send_results env plan ! k)"
    and "answer (get_recv_insts_for_rollout k s) = (if pl_rollout_world plan \<le> k then Inl IndexError else recv_results env plan ! k)"
  using assms by (auto elim!: servingE simp: get_send_insts_for_policy_def get_recv_insts_for_rollout_def fetch_query(1))

lemma query_serving:
  assumes "serving env fp fr s"
    and "get_send_insts_for_policy k s = Inr (x, s') \<or> get_recv_insts_for_rollout k s = Inr (x, s')"
  shows "serving env fp fr s'"
proof -
  from assms(1) obtain p np r nr plan xs ys where s: "fp = Some (p, np)" "fr = Some (r, nr)" "make_plan env p np r nr = Inr plan" "sm_plan s = Some plan"
    "sm_policy_results s = send_results env plan" "sm_rollout_results s = recv_results env plan"
    "sm_send s = Some xs" "cached_ok xs (send_results env plan)" "sm_recv s = Some ys" "cached_ok ys (recv_results env plan)"
    "sm_unpacking s = None" "sm_done s" by (rule servingE)
  have "s' = sm_cleanup s \<or> (\<exists>xs'. cached_ok xs' (send_results env plan) \<and> s' = sm_cleanup (s\<lparr>sm_send := Some xs'\<rparr>))
      \<or> (\<exists>ys'. cached_ok ys' (recv_results env plan) \<and> s' = sm_cleanup (s\<lparr>sm_recv := Some ys'\<rparr>))"
    using assms(2) unfolding get_send_insts_for_policy_def get_recv_insts_for_rollout_def s(5-7,9)
    by (elim disjE) (drule fetch_query(2) [OF s(12,8)] fetch_query(2) [OF s(12,10)], blast)+
  then show ?thesis
    using servingI [OF s(1-3), of s'] s by auto
qed

text \<open>A query before the scheme is there blocks and changes nothing.\<close>

lemma query_blocks:
  assumes "\<not> sm_done s"
  shows "get_send_insts_for_policy k s = Inl Blocks" "get_recv_insts_for_rollout k s = Inl Blocks"
  using assms by (simp_all add: get_send_insts_for_policy_def get_recv_insts_for_rollout_def fetch_insts_def)

lemma post_finish_inv:
  assumes "sm_inv env fp fr s"
  shows "sm_inv env fp fr (after (post_finish env s))"
proof (cases "unpacking fp fr s")
  case True
  then obtain p np r nr where u: "fp = Some (p, np)" "fr = Some (r, nr)" "sm_policy_world s = Some np" "sm_rollout_world s = Some nr"
    "sm_unpacking s = Some (p, r)" "sm_send s = Some []" "sm_recv s = Some []" "sm_plan s = None" "\<not> sm_done s"
    by (auto simp: unpacking_def)
  show ?thesis
  proof (cases "make_plan env p np r nr")
    case (Inl e)
    then have "failed env fp fr (after (post_finish env s))"
      using u by (simp add: failed_def post_finish_def Let_def)
    then show ?thesis by (simp add: sm_inv_def)
  next
    case (Inr plan)
    have "serving env fp fr (after (post_finish env s))"
      by (rule servingI [OF u(1,2) Inr, where xs = "replicate np None" and ys = "replicate nr None"])
        (use Inr u make_plan_worlds [OF Inr] cached_ok_replicate [of "send_results env plan"] cached_ok_replicate [of "recv_results env plan"]
          in \<open>simp_all add: post_finish_def Let_def\<close>)
    then show ?thesis by (simp add: sm_inv_def)
  qed
next
  case False
  then have "sm_unpacking s = None" using assms by (auto simp: sm_inv_def collecting_def failed_def serving_def)
  then show ?thesis using assms by (simp add: post_finish_def)
qed

lemma first_append:
  "first_policy (evs @ fs) = (case first_policy evs of None \<Rightarrow> first_policy fs | Some x \<Rightarrow> Some x)"
  "first_rollout (evs @ fs) = (case first_rollout evs of None \<Rightarrow> first_rollout fs | Some x \<Rightarrow> Some x)"
proof -
  show "first_policy (evs @ fs) = (case first_policy evs of None \<Rightarrow> first_policy fs | Some x \<Rightarrow> Some x)"
    by (induction evs rule: first_policy.induct) auto
  show "first_rollout (evs @ fs) = (case first_rollout evs of None \<Rightarrow> first_rollout fs | Some x \<Rightarrow> Some x)"
    by (induction evs rule: first_rollout.induct) auto
qed

lemma report_inv:
  assumes "sm_inv env fp fr s"
  shows "sm_inv env (case fp of None \<Rightarrow> Some (raw, n) | Some x \<Rightarrow> Some x) fr (set_shard_infos_of_policy raw n s)"
    "sm_inv env fp (case fr of None \<Rightarrow> Some (raw, n) | Some x \<Rightarrow> Some x) (set_shard_infos_of_rollout raw n s)"
proof -
  consider "collecting fp fr s" | "unpacking fp fr s" | "failed env fp fr s" | "serving env fp fr s"
    using assms by (auto simp: sm_inv_def)
  note phases = this
  from phases show "sm_inv env (case fp of None \<Rightarrow> Some (raw, n) | Some x \<Rightarrow> Some x) fr (set_shard_infos_of_policy raw n s)"
  proof cases
    case 4
    then show ?thesis by (auto elim!: servingE simp: sm_inv_def serving_def set_shard_infos_of_policy_def)
  qed (auto simp: sm_inv_def collecting_def unpacking_def failed_def set_shard_infos_of_policy_def split: option.splits)
  from phases show "sm_inv env fp (case fr of None \<Rightarrow> Some (raw, n) | Some x \<Rightarrow> Some x) (set_shard_infos_of_rollout raw n s)"
  proof cases
    case 4
    then show ?thesis by (auto elim!: servingE simp: sm_inv_def serving_def set_shard_infos_of_rollout_def)
  qed (auto simp: sm_inv_def collecting_def unpacking_def failed_def set_shard_infos_of_rollout_def split: option.splits)
qed

lemma post_start_inv:
  assumes "sm_inv env fp fr s"
  shows "sm_inv env fp fr (post_start s)"
proof -
  consider "collecting fp fr s" | "unpacking fp fr s" | "failed env fp fr s" | "serving env fp fr s"
    using assms by (auto simp: sm_inv_def)
  then show ?thesis
  proof cases
    case 1
    then show ?thesis
      by (cases fp; cases fr) (auto simp: sm_inv_def collecting_def unpacking_def post_start_def Let_def)
  next
    case 4
    then show ?thesis by (auto elim!: servingE simp: sm_inv_def serving_def post_start_def Let_def split: option.splits)
  qed (auto simp: sm_inv_def unpacking_def failed_def post_start_def Let_def split: option.splits)
qed

lemma query_inv:
  assumes "sm_inv env fp fr s"
  shows "sm_inv env fp fr (after (fetched s (get_send_insts_for_policy k s)))" "sm_inv env fp fr (after (fetched s (get_recv_insts_for_rollout k s)))"
proof -
  have "sm_inv env fp fr (after (fetched s q))" if "q = get_send_insts_for_policy k s \<or> q = get_recv_insts_for_rollout k s" for q
  proof (cases q)
    case (Inl e)
    then show ?thesis using assms by (simp add: fetched_def)
  next
    case (Inr r)
    obtain x s' where r: "r = (x, s')" by (cases r)
    have "sm_done s"
    proof (rule ccontr)
      assume "\<not> sm_done s"
      from query_blocks [OF this] that Inr show False by auto
    qed
    then have "serving env fp fr s" using assms by (auto simp: sm_inv_def collecting_def unpacking_def failed_def)
    then have "serving env fp fr s'" using query_serving [of env fp fr s k x s'] that Inr r by auto
    then show ?thesis using Inr r by (simp add: fetched_def sm_inv_def)
  qed
  then show "sm_inv env fp fr (after (fetched s (get_send_insts_for_policy k s)))" "sm_inv env fp fr (after (fetched s (get_recv_insts_for_rollout k s)))"
    by blast+
qed

lemma serve_sm_inv: "sm_inv env (first_policy evs) (first_rollout evs) (serve (sm_handle env) evs sm_init)"
proof (induction evs rule: rev_induct)
  case Nil
  show ?case by (simp add: sm_inv_def collecting_def sm_init_def)
next
  case (snoc ev evs)
  have fp: "first_policy (evs @ [ev]) = (case ev of
      Report_policy raw n \<Rightarrow> (case first_policy evs of None \<Rightarrow> Some (raw, n) | Some x \<Rightarrow> Some x) | _ \<Rightarrow> first_policy evs)"
    by (cases ev; cases "first_policy evs") (simp_all add: first_append)
  have fr: "first_rollout (evs @ [ev]) = (case ev of
      Report_rollout raw n \<Rightarrow> (case first_rollout evs of None \<Rightarrow> Some (raw, n) | Some x \<Rightarrow> Some x) | _ \<Rightarrow> first_rollout evs)"
    by (cases ev; cases "first_rollout evs") (simp_all add: first_append)
  from snoc show ?case
    unfolding serve_append fp fr
    by (cases ev) (simp_all add: report_inv post_start_inv post_finish_inv query_inv)
qed

text \<open>Once the generation has started it is not started again, and a served plan stays.\<close>

lemma step_stable:
  "sm_send s \<noteq> None \<Longrightarrow> sm_send (after (sm_handle env ev s)) \<noteq> None"
  "sm_done s \<Longrightarrow> sm_done (after (sm_handle env ev s))"
  by (cases ev; auto simp: set_shard_infos_of_policy_def set_shard_infos_of_rollout_def post_start_def post_finish_def Let_def
      fetched_def get_send_insts_for_policy_def get_recv_insts_for_rollout_def fetch_insts_def bindR_def
      split: option.splits sum.splits prod.splits)+

interpretation started: event_system "sm_handle env" "\<lambda>s. sm_send s \<noteq> None" "\<lambda>_ _. True"
  by unfold_locales (unfold keeps_def, rule step_stable(1))

interpretation finished: event_system "sm_handle env" sm_done "\<lambda>_ _. True"
  by unfold_locales (simp add: keeps_def step_stable(2))

section \<open>Claims\<close>

text \<open>
  C28: The plan that is served is that of the first reports. In whatever order reports, their
  repetitions, task steps and queries arrive, once the mapper says its scheme is there, every query
  of a policy or rollout rank answers the packed instructions that the generation gives for
  this rank from the first policy report and the first rollout report, or raises what the
  generation raised; a rank beyond the reported number of ranks raises \<open>IndexError\<close>.
\<close>

theorem plan_of_first_reports:
  assumes "s = serve (sm_handle env) evs sm_init" and "sm_done s"
  shows "\<exists>p np r nr plan. first_policy evs = Some (p, np) \<and> first_rollout evs = Some (r, nr) \<and> make_plan env p np r nr = Inr plan
    \<and> (\<forall>k. answer (get_send_insts_for_policy k s) = (if np \<le> k then Inl IndexError
          else bindR (generate_parallelized_shard_send_insts_for_policy (me_dims_order env) plan k) (\<lambda>x. Inr (Some (me_packb env x)))))
    \<and> (\<forall>k. answer (get_recv_insts_for_rollout k s) = (if nr \<le> k then Inl IndexError
          else bindR (generate_parallelized_shard_recv_insts_for_rollout (me_dims_order env) plan k) (\<lambda>x. Inr (Some (me_packb env x)))))"
proof -
  have srv: "serving env (first_policy evs) (first_rollout evs) s"
    using serve_sm_inv [of env evs] assms by (auto simp: sm_inv_def collecting_def unpacking_def failed_def)
  from srv obtain p np r nr plan where plan: "first_policy evs = Some (p, np)" "first_rollout evs = Some (r, nr)"
    "make_plan env p np r nr = Inr plan" "sm_plan s = Some plan" by (auto elim!: servingE)
  note worlds = make_plan_worlds [OF plan(3)]
  have "send_results env plan ! k = bindR (generate_parallelized_shard_send_insts_for_policy (me_dims_order env) plan k) (\<lambda>x. Inr (Some (me_packb env x)))"
    if "k < np" for k
    using that worlds by (simp add: send_results_def policy_insts_generation_per_rank_def bindR_assoc)
  moreover have "recv_results env plan ! k = bindR (generate_parallelized_shard_recv_insts_for_rollout (me_dims_order env) plan k) (\<lambda>x. Inr (Some (me_packb env x)))"
    if "k < nr" for k
    using that worlds by (simp add: recv_results_def rollout_insts_generation_per_rank_def bindR_assoc)
  ultimately show ?thesis using plan worlds query_answers [OF srv plan(4)] by auto
qed

text \<open>
  The plan is generated. If both sides have reported and the plan of the first reports
  exists, then after one step of a pending task and one completion, whatever else happens before,
  between and after them, the mapper's scheme is there.
\<close>

theorem plan_gets_generated:
  assumes "first_policy evs = Some (p, np)" and "first_rollout evs = Some (r, nr)" and "make_plan env p np r nr = Inr plan"
  shows "sm_done (serve (sm_handle env) (evs @ Post_start # between @ Post_finish # later) sm_init)"
proof -
  let ?s = "\<lambda>xs. serve (sm_handle env) xs sm_init"
  have inv: "sm_inv env (Some (p, np)) (Some (r, nr)) (?s (evs @ xs))" for xs
    using serve_sm_inv [of env "evs @ xs"] assms(1,2) by (simp add: first_append)
  have "sm_send (?s (evs @ [Post_start])) \<noteq> None"
  proof (cases "sm_send (?s evs)")
    case None
    then have "collecting (Some (p, np)) (Some (r, nr)) (?s evs)"
      using inv [of "[]"] by (auto simp: sm_inv_def unpacking_def failed_def serving_def)
    then show ?thesis by (simp add: serve_append collecting_def post_start_def)
  next
    case (Some xs)
    then show ?thesis using step_stable(1) [of "?s evs" env Post_start] by (simp add: serve_append)
  qed
  then have "sm_send (?s (evs @ Post_start # between)) \<noteq> None"
    using started.serve_inv [of "?s (evs @ [Post_start])" env between] by (simp add: serve_append)
  then have "unpacking (Some (p, np)) (Some (r, nr)) (?s (evs @ Post_start # between)) \<or> serving env (Some (p, np)) (Some (r, nr)) (?s (evs @ Post_start # between))"
    using inv [of "Post_start # between"] assms(3) by (auto simp: sm_inv_def collecting_def failed_def)
  then have "sm_done (after (post_finish env (?s (evs @ Post_start # between))))"
    using assms(3) by (auto simp: unpacking_def serving_def post_finish_def Let_def)
  then have "sm_done (?s (evs @ Post_start # between @ [Post_finish]))" by (simp add: serve_append)
  then show ?thesis using finished.serve_inv [of "?s (evs @ Post_start # between @ [Post_finish])" env later] by (simp add: serve_append)
qed

section \<open>Evaluation\<close>

text \<open>Two policy ranks and one rollout rank; the raw reports are the unpacked ones.\<close>

definition ex_report :: "rank_shards list \<Rightarrow> shard_payload" where
  "ex_report shards = \<lparr>sp_shard_infos = shards, sp_param_groups = [], sp_sorted_params = [[''w'']], sp_trainable_params = [''w'']\<rparr>"

definition ex_policy_report :: shard_payload where
  "ex_policy_report = ex_report (map (\<lambda>k. [(''w'', [(0, \<lparr>rs_offset = Some k, rs_total_size = Some 2, rs_dim = None, rs_length = None\<rparr>)])]) [0, 1])"

definition ex_rollout_report :: shard_payload where
  "ex_rollout_report = ex_report [[(''w'', [])]]"

definition ex_tp :: "int \<Rightarrow> parallelism_config" where
  "ex_tp n = ex_parallelism\<lparr>cfg_tp_size := n, cfg_pp_size := 1, cfg_dp_shard_size := 1\<rparr>"

definition ex_env :: "(shard_payload, group_insts list) mapper_env" where
  "ex_env = \<lparr>me_unpackb = Inr, me_packb = id, me_array_split = even_split, me_dims_order = id, me_groups_order = id,
     me_policy_parallelism = ex_tp 2, me_rollout_parallelism = ex_tp 1\<rparr>"

definition ex_history :: "shard_payload sm_event list" where
  "ex_history = [Fetch_send 0, Report_rollout ex_rollout_report 1, Post_start, Report_policy ex_policy_report 2, Report_policy ex_rollout_report 7,
     Post_start, Report_rollout ex_policy_report 3, Post_finish, Fetch_send 1]"

definition ex_served :: "(shard_payload, group_insts list) shard_mapper" where
  "ex_served = serve (sm_handle ex_env) ex_history sm_init"

theorem plan_of_first_reports_witness:
  "\<exists>plan. make_plan ex_env ex_policy_report 2 ex_rollout_report 1 = Inr plan
    \<and> answer (get_send_insts_for_policy 1 ex_served)
      = bindR (generate_parallelized_shard_send_insts_for_policy (me_dims_order ex_env) plan 1) (\<lambda>x. Inr (Some (me_packb ex_env x)))
    \<and> answer (get_send_insts_for_policy 2 ex_served) = Inl IndexError"
proof -
  have fin: "sm_done ex_served" by code_simp
  have first: "first_policy ex_history = Some (ex_policy_report, 2)" "first_rollout ex_history = Some (ex_rollout_report, 1)"
    by (simp_all add: ex_history_def)
  from plan_of_first_reports [OF ex_served_def fin] obtain plan where plan: "make_plan ex_env ex_policy_report 2 ex_rollout_report 1 = Inr plan"
    "\<And>k. answer (get_send_insts_for_policy k ex_served) = (if 2 \<le> k then Inl IndexError
          else bindR (generate_parallelized_shard_send_insts_for_policy (me_dims_order ex_env) plan k) (\<lambda>x. Inr (Some (me_packb ex_env x))))"
    unfolding first by auto
  then show ?thesis by (intro exI [of _ plan]) (simp add: plan(2))
qed

theorem plan_gets_generated_witness:
  "sm_done (serve (sm_handle ex_env) ([Report_rollout ex_rollout_report 1, Report_policy ex_policy_report 2] @ Post_start # [Fetch_recv 0] @ Post_finish # []) sm_init)"
proof -
  obtain plan where plan: "make_plan ex_env ex_policy_report 2 ex_rollout_report 1 = Inr plan"
  proof (cases "make_plan ex_env ex_policy_report 2 ex_rollout_report 1")
    case (Inl e)
    moreover have "\<not> isl (make_plan ex_env ex_policy_report 2 ex_rollout_report 1)" by code_simp
    ultimately show ?thesis by simp
  qed
  show ?thesis by (rule plan_gets_generated [OF _ _ plan]) simp_all
qed

end
