(* ===== verification/Shard_Topology.thy ===== *)
theory Shard_Topology
  imports Shard_Plan
begin

text \<open>
  Where the shard descriptions come from (classes \<open>ParallelTopoMapper\<close> and
  \<open>ParallelTopoMapperGroup\<close> of cosmos_rl/utils/parallelism_map.py,
  \<open>extract_infomation_from_dtensor\<close> of cosmos_rl/utils/dim_slice_info.py): the slices of a rank
  in the mesh dimensions, the ranks with given mesh coordinates, the shard of a parameter whose
  tensor dimensions are mapped to mesh dimensions, the table of parameters, replicated key and value
  heads, and the chunk of a distributed tensor. What the model object and the weight mapper
  supply is a parameter: the user's strategy, the name mapping, the pipeline coordinate.
  Lemmas: the shards generated for the ranks of a pipeline stage tile the tensor, which is what
  the plan of the weight transfer relies on.
\<close>

section \<open>Slices in the mesh\<close>

definition raw_of :: "dim_slice \<Rightarrow> raw_slice" where
  "raw_of s = \<lparr>rs_offset = Some (ds_offset s), rs_total_size = Some (ds_total_size s), rs_dim = Some (ds_dim s), rs_length = Some (ds_length s)\<rparr>"

type_synonym mesh_slices = "(string, dim_slice) dict"

definition ordered_dims :: "string list" where
  "ordered_dims = [''tp'', ''dp_shard_cp'', ''dp_cp_tp'']"

definition get_full_mesh_rank_info :: "parallel_dims \<Rightarrow> nat \<Rightarrow> py_error + mesh_slices" where
  "get_full_mesh_rank_info d g =
     forR (ordered_dims @ [''pp'']) (\<lambda>dm info.
       bindR (get_rank_in_dim d dm g) (\<lambda>r.
       bindR (get_size_in_dim d dm) (\<lambda>n. Inr (dict_set dm (mk_slice (int r) n dm 1) info)))) []"

definition shard_info_at_dim :: "mesh_slices \<Rightarrow> string \<Rightarrow> dim_slice" where
  "shard_info_at_dim rank_infos dm = dict_get_or rank_infos dm (mk_slice 0 1 dm 1)"

text \<open>The two dimensions merged; missing ones are added to the caller's dictionary.\<close>

definition merged_shard_info_at_dim :: "mesh_slices \<Rightarrow> py_error + (dim_slice \<times> mesh_slices)" where
  "merged_shard_info_at_dim rank_info =
     (let a = ''tp''; b = ''dp_shard_cp'';
          info1 = (if dict_has rank_info a then rank_info else dict_set a (mk_slice 0 1 a 1) rank_info);
          info2 = (if dict_has info1 b then info1 else dict_set b (mk_slice 0 1 b 1) info1)
      in bindR (dict_item info2 a) (\<lambda>outter.
         bindR (dict_item info2 b) (\<lambda>inner.
         bindR (merge_rank outter inner) (\<lambda>p. Inr (p, info2)))))"

definition get_global_ranks_for_given_mesh_rank :: "parallel_dims \<Rightarrow> (string, nat) dict \<Rightarrow> py_error + nat list" where
  "get_global_ranks_for_given_mesh_rank d coords =
     (let n = nat (pd_world_size d)
      in if coords = [] then Inr [0..<n]
         else forR [0..<n] (\<lambda>rank ranks.
           bindR (mapR (\<lambda>(dm, dimr). bindR (get_rank_in_dim d dm rank) (\<lambda>r. Inr (r = dimr))) coords) (\<lambda>eqs.
           Inr (if list_all (\<lambda>x. x) eqs then ranks @ [rank] else ranks))) [])"

definition duplicate_ranks_at_given_dimensions :: "parallel_dims \<Rightarrow> string list \<Rightarrow> nat \<Rightarrow> py_error + nat list" where
  "duplicate_ranks_at_given_dimensions d dims g =
     bindR (forR dims (\<lambda>dm mp. bindR (get_rank_in_dim d dm g) (\<lambda>r. Inr (dict_set dm r mp))) [])
       (get_global_ranks_for_given_mesh_rank d)"

section \<open>The shard of a parameter\<close>

type_synonym dim_map = "(int, string list) dict"

definition generate_local_shard_info :: "dim_map \<Rightarrow> mesh_slices \<Rightarrow> py_error + shard_info" where
  "generate_local_shard_info dim_to_parallel rank_info =
     bindR (forR dim_to_parallel (\<lambda>(idx, dims) (rank_info, out).
       if length dims = 1 then Inr (rank_info, dict_set idx (raw_of (shard_info_at_dim rank_info (hd dims))) out)
       else if length dims = 2 then
         if ''dp_cp_tp'' \<in> set dims then Inl AssertionError
         else if \<not> (''tp'' \<in> set dims \<and> ''dp_shard_cp'' \<in> set dims) then Inl AssertionError
         else bindR (merged_shard_info_at_dim rank_info) (\<lambda>(p, info). Inr (info, dict_set idx (raw_of p) out))
       else Inl ValueError) (rank_info, []))
     (\<lambda>(rank_info, out). Inr out)"

text \<open>What is known of one parameter: \<open>split_dim_map\<close>, \<open>dim_to_parallel\<close>, the pipeline rank, and
  the slices when they are already known.\<close>

record param_parallelism =
  pp_split_dim_map :: "(string, int) dict option"
  pp_dim_to_parallel :: "dim_map option"
  pp_rank :: "int option"
  pp_dims_rank_info :: "shard_info option"

definition parallelism_info_for_param :: "(string, param_parallelism) dict option \<Rightarrow> string \<Rightarrow> param_parallelism" where
  "parallelism_info_for_param table nm =
     (let none = \<lparr>pp_split_dim_map = None, pp_dim_to_parallel = None, pp_rank = None, pp_dims_rank_info = None\<rparr>
      in case table of None \<Rightarrow> none | Some t \<Rightarrow> dict_get_or t nm none)"

definition no_parallelism :: "param_parallelism \<Rightarrow> bool" where
  "no_parallelism pp \<longleftrightarrow> pp_split_dim_map pp = None \<and> pp_dim_to_parallel pp = None \<and> pp_rank pp = None"

text \<open>\<open>strategy\<close> is the user's strategy function, applied to a parameter's shape rank and name.\<close>

definition local_shard_info_for_params ::
  "(string, param_parallelism) dict option \<Rightarrow> (int \<Rightarrow> string \<Rightarrow> param_parallelism) option \<Rightarrow> mesh_slices \<Rightarrow>
    (string \<times> int) list \<Rightarrow> py_error + rank_shards" where
  "local_shard_info_for_params table strategy ranks params =
     forR params (\<lambda>(nm, shape) out.
       let own = (case strategy of
               None \<Rightarrow> \<lparr>pp_split_dim_map = None, pp_dim_to_parallel = None, pp_rank = None, pp_dims_rank_info = None\<rparr>
             | Some f \<Rightarrow> (f shape nm)\<lparr>pp_dims_rank_info := None\<rparr>);
           pp = (if no_parallelism own then parallelism_info_for_param table nm else own)
       in if no_parallelism pp then Inr out
          else bindR (dict_item ranks ''pp'') (\<lambda>here.
          if Some (ds_offset here) \<noteq> pp_rank pp then Inr out
          else case pp_dims_rank_info pp of
            Some info \<Rightarrow> Inr (dict_set nm info out)
          | None \<Rightarrow>
              (case pp_dim_to_parallel pp of
                 None \<Rightarrow> Inl AttributeError
               | Some dm \<Rightarrow> bindR (generate_local_shard_info dm ranks) (\<lambda>info. Inr (dict_set nm info out))))) []"

section \<open>The table of parameters\<close>

text \<open>\<open>k in s\<close> and \<open>s.replace(k, new)\<close> for strings.\<close>

fun py_contains :: "string \<Rightarrow> string \<Rightarrow> bool" where
  "py_contains k [] = (k = [])"
| "py_contains k (c # cs) = (take (length k) (c # cs) = k \<or> py_contains k cs)"

function py_replace :: "string \<Rightarrow> string \<Rightarrow> string \<Rightarrow> string" where
  "py_replace k new [] = (if k = [] then new else [])"
| "py_replace k new (c # cs) =
     (if k = [] then new @ c # py_replace k new cs
      else if take (length k) (c # cs) = k then new @ py_replace k new (drop (length k) (c # cs))
      else c # py_replace k new cs)"
  by pat_completeness auto
termination by (relation "measure (\<lambda>(k, new, s). length s)") auto

text \<open>\<open>dims_rank_info\<close> is a shard description, or one per name of a packed module. The only producer
  of the second kind, \<open>generate_kv_relicas_dim_rank_info\<close>, names the three parts of the packed module,
  so the source's fallback for a name that is missing there is not reached.\<close>

datatype rank_infos = Whole "shard_info option" | Per_name "(string, shard_info option) dict"

definition info_for :: "rank_infos \<Rightarrow> string \<Rightarrow> shard_info option" where
  "info_for ri rename = (case ri of Whole i \<Rightarrow> i | Per_name d \<Rightarrow> dict_get_or d rename None)"

definition invert_dims :: "(string, int) dict \<Rightarrow> dim_map" where
  "invert_dims dims_map = fold (\<lambda>(k, v) mp. dict_set v (dict_get_or mp v [] @ [k]) mp) dims_map []"

definition insert_to_parallelism_info ::
  "(string \<Rightarrow> string) \<Rightarrow> int \<Rightarrow> string \<Rightarrow> (string, int) dict \<Rightarrow> (string, string list) dict \<Rightarrow> rank_infos \<Rightarrow>
    (string, param_parallelism) dict \<Rightarrow> (string, param_parallelism) dict" where
  "insert_to_parallelism_info name_to_hf pp_coord param_name dims_map packed infos table =
     (let entry = (\<lambda>info. \<lparr>pp_split_dim_map = Some dims_map, pp_dim_to_parallel = Some (invert_dims dims_map),
            pp_rank = Some pp_coord, pp_dims_rank_info = info\<rparr>);
          hf = name_to_hf param_name
      in case find (\<lambda>(k, v). py_contains k hf) packed of
           Some (k, v) \<Rightarrow> fold (\<lambda>rename. dict_set (py_replace k rename hf) (entry (info_for infos rename))) v table
         | None \<Rightarrow> dict_set hf (entry (info_for infos hf)) table)"

text \<open>Key and value heads when there are more tensor-parallel ranks than heads.\<close>

definition generate_kv_relicas_dim_rank_info ::
  "nat \<Rightarrow> nat \<Rightarrow> nat \<Rightarrow> string \<Rightarrow> int \<Rightarrow> (string, string list) dict \<Rightarrow> py_error + (string, shard_info option) dict" where
  "generate_kv_relicas_dim_rank_info n_kv_head replicas tp_rank param_name output_dim packed =
     (case find (\<lambda>(k, v). py_contains k param_name) packed of
        None \<Rightarrow> Inl AssertionError
      | Some (k, v) \<Rightarrow>
          if length v < 3 then Inl IndexError
          else if replicas = 0 then Inl ZeroDivisionError
          else
            let kv = [(output_dim, raw_of (mk_slice (int (tp_rank div replicas)) (int n_kv_head) [] 1))]
            in Inr (dict_set (v ! 2) (Some kv) (dict_set (v ! 1) (Some kv) (dict_set (v ! 0) None []))))"

section \<open>Distributed tensors\<close>

datatype placement = Shard int | Replicate | Partial

record chunk =
  ch_offsets :: "int list"
  ch_sizes :: "int list"

definition placement_dims :: "(string \<times> placement) list \<Rightarrow> py_error + (string, int) dict" where
  "placement_dims ps = forR ps (\<lambda>(dm, pl) mp. case pl of
       Shard k \<Rightarrow> Inr (dict_set dm k mp)
     | Replicate \<Rightarrow> Inr mp
     | Partial \<Rightarrow> Inl ValueError) []"

definition extract_infomation_from_dtensor ::
  "string list \<Rightarrow> placement list \<Rightarrow> chunk list \<Rightarrow> int list \<Rightarrow> nat \<Rightarrow> py_error + (shard_info \<times> (string, int) dict)" where
  "extract_infomation_from_dtensor mesh_names placements chunks global_shape local_rank =
     (if length placements \<noteq> length mesh_names then Inl AssertionError
      else bindR (placement_dims (zip mesh_names placements)) (\<lambda>dims_map.
      if length chunks \<noteq> 1 then Inl AssertionError
      else
        let meta = hd chunks
        in if length (ch_offsets meta) \<noteq> length (ch_sizes meta) \<or> length (ch_sizes meta) \<noteq> length global_shape
             \<or> length global_shape \<noteq> local_rank then Inl AssertionError
           else
             bindR (forR (enumerate 0 global_shape) (\<lambda>(idx, total_size) info.
               let off = ch_offsets meta ! idx; len = ch_sizes meta ! idx
               in if total_size = len then if off \<noteq> 0 then Inl AssertionError else Inr info
                  else Inr (dict_set (int idx) (raw_of (mk_slice off total_size [] len)) info)) [])
             (\<lambda>info. Inr (info, dims_map))))"

section \<open>Model parts\<close>

definition cluster_params_by_model_part :: "nat \<Rightarrow> (string \<Rightarrow> nat) \<Rightarrow> (string \<times> int) list \<Rightarrow> py_error + (string \<times> int) list list" where
  "cluster_params_by_model_part n part_index params =
     (if n = 1 then Inr [params]
      else forR params (\<lambda>(nm, rank) xs.
        if length xs \<le> part_index nm then Inl IndexError
        else Inr (xs[part_index nm := xs ! part_index nm @ [(nm, rank)]])) (replicate n []))"

definition prepare_local_shard_infos ::
  "(nat \<Rightarrow> (string \<times> int) list \<Rightarrow> py_error + rank_shards) \<Rightarrow> nat \<Rightarrow> (string \<Rightarrow> nat) \<Rightarrow> (string \<times> int) list \<Rightarrow> py_error + rank_shards" where
  "prepare_local_shard_infos local_info n part_index params =
     bindR (cluster_params_by_model_part n part_index params) (\<lambda>xs.
     forR (enumerate 0 xs) (\<lambda>(i, p) out. bindR (local_info i p) (\<lambda>new. Inr (fold (\<lambda>(k, v). dict_set k v) new out))) [])"

section \<open>The shards of a stage tile the tensor\<close>

text \<open>The slices of a rank with tensor coordinate \<open>t\<close> and shard/context coordinate \<open>u\<close>.\<close>

definition stage_slice :: "parallel_dims \<Rightarrow> string list \<Rightarrow> nat \<Rightarrow> nat \<Rightarrow> dim_slice" where
  "stage_slice d dims t u =
     (let T = pd_tp d; U = pd_dp_shard d * pd_cp d
      in if dims = [''tp''] then mk_slice (int t) T ''tp'' 1
         else if dims = [''dp_shard_cp''] then mk_slice (int u) U ''dp_shard_cp'' 1
         else mk_slice (int t * U + int u) (T * U) ''tp'' 1)"

definition stage_map :: "dim_map \<Rightarrow> bool" where
  "stage_map dm \<longleftrightarrow> wf_dict dm \<and> distinct (concat (map snd dm))
     \<and> list_all (\<lambda>(idx, dims). dims \<in> {[''tp''], [''dp_shard_cp''], [''tp'', ''dp_shard_cp''], [''dp_shard_cp'', ''tp'']}) dm"

definition stage_shard :: "parallel_dims \<Rightarrow> dim_map \<Rightarrow> nat \<Rightarrow> nat \<Rightarrow> slices" where
  "stage_shard d dm t u = map (\<lambda>(idx, dims). (idx, stage_slice d dims t u)) dm"

text \<open>The shard description of a parameter on a rank.\<close>

definition param_shard :: "parallel_dims \<Rightarrow> dim_map \<Rightarrow> nat \<Rightarrow> py_error + shard_info" where
  "param_shard d dm g = bindR (get_full_mesh_rank_info d g) (generate_local_shard_info dm)"

lemma mesh_slices_of_rank:
  assumes "splits_evenly array_split" and "post_init array_split d0 = Inr d"
    and "p < nat (pd_pp d)" "rep < nat (pd_dp_replicate d)" "sh < nat (pd_dp_shard d)" "c < nat (pd_cp d)" "t < nat (pd_tp d)"
  shows "\<exists>x y. get_full_mesh_rank_info d (mesh_rank d p rep sh c t) = Inr [(''tp'', mk_slice (int t) (pd_tp d) ''tp'' 1),
    (''dp_shard_cp'', mk_slice (int (sh * nat (pd_cp d) + c)) (pd_dp_shard d * pd_cp d) ''dp_shard_cp'' 1), x, y]"
  using ranks_of_coordinates [OF assms refl] size_in_dim [OF assms(1,2)]
  by (simp add: get_full_mesh_rank_info_def ordered_dims_def)

lemma generate_stage_shard:
  assumes "stage_map dm" and "ranks = [(''tp'', mk_slice (int t) (pd_tp d) ''tp'' 1), (''dp_shard_cp'', mk_slice (int u) (pd_dp_shard d * pd_cp d) ''dp_shard_cp'' 1), x, y]"
  shows "generate_local_shard_info dm ranks = Inr (map (\<lambda>(idx, s). (idx, raw_of s)) (stage_shard d dm t u))"
proof -
  let ?body = "\<lambda>(idx, dims) (rank_info, out).
       if length dims = 1 then Inr (rank_info, dict_set idx (raw_of (shard_info_at_dim rank_info (hd dims))) out)
       else if length dims = 2 then
         if ''dp_cp_tp'' \<in> set dims then Inl AssertionError
         else if \<not> (''tp'' \<in> set dims \<and> ''dp_shard_cp'' \<in> set dims) then Inl AssertionError
         else bindR (merged_shard_info_at_dim rank_info) (\<lambda>(p, info). Inr (info, dict_set idx (raw_of p) out))
       else Inl ValueError"
  have get: "dict_get ranks ''tp'' = Some (mk_slice (int t) (pd_tp d) ''tp'' 1)"
    "dict_get ranks ''dp_shard_cp'' = Some (mk_slice (int u) (pd_dp_shard d * pd_cp d) ''dp_shard_cp'' 1)"
    by (simp_all add: assms(2))
  have merged: "merged_shard_info_at_dim ranks
      = Inr (mk_slice (int t * (pd_dp_shard d * pd_cp d) + int u) (pd_tp d * (pd_dp_shard d * pd_cp d)) ''tp'' 1, ranks)"
    by (simp add: merged_shard_info_at_dim_def Let_def get dict_item_def merge_rank_def)
  have one: "shard_info_at_dim ranks ''tp'' = mk_slice (int t) (pd_tp d) ''tp'' 1"
    "shard_info_at_dim ranks ''dp_shard_cp'' = mk_slice (int u) (pd_dp_shard d * pd_cp d) ''dp_shard_cp'' 1"
    by (simp_all add: shard_info_at_dim_def dict_get_or_def get)
  have step: "?body (idx, dims) (ranks, out) = Inr (ranks, dict_set idx (raw_of (stage_slice d dims t u)) out)"
    if dims: "dims \<in> {[''tp''], [''dp_shard_cp''], [''tp'', ''dp_shard_cp''], [''dp_shard_cp'', ''tp'']}" for idx dims out
  proof -
    from dims consider "dims = [''tp'']" | "dims = [''dp_shard_cp'']" | "dims = [''tp'', ''dp_shard_cp'']" | "dims = [''dp_shard_cp'', ''tp'']" by blast
    then show ?thesis by cases (simp_all add: one merged stage_slice_def Let_def)
  qed
  have loop: "forR dm ?body (ranks, out) = Inr (ranks, out @ map (\<lambda>(idx, dims). (idx, raw_of (stage_slice d dims t u))) dm)"
    if "distinct (map fst dm)" "\<forall>k \<in> set (map fst dm). dict_get out k = None"
      "list_all (\<lambda>(idx, dims). dims \<in> {[''tp''], [''dp_shard_cp''], [''tp'', ''dp_shard_cp''], [''dp_shard_cp'', ''tp'']}) dm" for out dm
    using that
  proof (induction dm arbitrary: out)
    case Nil
    then show ?case by simp
  next
    case (Cons a dm)
    obtain idx dims where a: "a = (idx, dims)" by (cases a)
    have ok: "dims \<in> {[''tp''], [''dp_shard_cp''], [''tp'', ''dp_shard_cp''], [''dp_shard_cp'', ''tp'']}" and new: "dict_get out idx = None"
      using Cons.prems a by auto
    let ?out = "dict_set idx (raw_of (stage_slice d dims t u)) out"
    have "forR dm ?body (ranks, ?out) = Inr (ranks, ?out @ map (\<lambda>(idx, dims). (idx, raw_of (stage_slice d dims t u))) dm)"
      using Cons.prems a by (intro Cons.IH) (auto simp: image_iff)
    then show ?case unfolding a forR.simps step [OF ok] bindR_simps by (simp add: dict_set_new [OF new])
  qed
  have "forR dm ?body (ranks, []) = Inr (ranks, [] @ map (\<lambda>(idx, dims). (idx, raw_of (stage_slice d dims t u))) dm)"
    by (rule loop) (use assms(1) in \<open>simp_all add: stage_map_def wf_dict_def\<close>)
  then show ?thesis
    unfolding generate_local_shard_info_def by (simp only: bindR_simps prod.case) (simp add: stage_shard_def comp_def case_prod_unfold)
qed

lemma slices_of_raw: "slices_of (map (\<lambda>(idx, s). (idx, raw_of s)) sl) = Inr sl"
  unfolding slices_of_def
  by (induction sl) (auto simp: slice_from_dict_def raw_of_def mk_slice_def)

lemma in_unit_slice:
  assumes "T dvd n" and "0 < T" and "0 < n"
  shows "in_slice n (mk_slice off T dm 1) x \<longleftrightarrow> x div (n div T) = off"
proof -
  let ?u = "n div T"
  have u: "0 < ?u" using assms by (simp add: pos_imp_zdiv_pos_iff zdvd_imp_le)
  have "?u * off \<le> x \<and> x < ?u * off + ?u \<longleftrightarrow> x div ?u = off"
  proof
    assume "?u * off \<le> x \<and> x < ?u * off + ?u"
    then show "x div ?u = off" by (intro int_div_pos_eq [where r = "x - ?u * off"]) auto
  next
    assume "x div ?u = off"
    then have "x = ?u * off + x mod ?u" by auto
    with u show "?u * off \<le> x \<and> x < ?u * off + ?u" by (metis add_left_mono add.right_neutral add_strict_left_mono pos_mod_sign pos_mod_bound)
  qed
  then show ?thesis by (simp add: in_slice_def region_start_def region_size_def)
qed

lemma int_div_less:
  fixes x u T :: int
  assumes "0 < u" and "x < T * u"
  shows "x div u < T"
proof (rule ccontr)
  assume "\<not> x div u < T"
  then have "T * u \<le> x div u * u" using assms(1) by (intro mult_right_mono) auto
  moreover have "x div u * u \<le> x" using assms(1) by (metis div_mult_mod_eq le_add_same_cancel1 pos_mod_sign)
  ultimately show False using assms(2) by linarith
qed

lemma unique_user:
  assumes "distinct (concat (map snd dm))" and "(i, a) \<in> set dm" "(j, b) \<in> set dm" "x \<in> set a" "x \<in> set b"
  shows "(i, a) = (j, b)"
  using assms by (induction dm) fastforce+

lemma param_shard_rank:
  assumes "splits_evenly array_split" and "post_init array_split d0 = Inr d" and "stage_map dm"
    and "p < nat (pd_pp d)" "rep < nat (pd_dp_replicate d)" "sh < nat (pd_dp_shard d)" "c < nat (pd_cp d)" "t < nat (pd_tp d)"
  shows "param_shard d dm (mesh_rank d p rep sh c t) = Inr (map (\<lambda>(idx, s). (idx, raw_of s)) (stage_shard d dm t (sh * nat (pd_cp d) + c)))"
proof -
  obtain x y where "get_full_mesh_rank_info d (mesh_rank d p rep sh c t) = Inr [(''tp'', mk_slice (int t) (pd_tp d) ''tp'' 1),
      (''dp_shard_cp'', mk_slice (int (sh * nat (pd_cp d) + c)) (pd_dp_shard d * pd_cp d) ''dp_shard_cp'' 1), x, y]"
    using mesh_slices_of_rank [OF assms(1,2,4-8)] by blast
  then show ?thesis unfolding param_shard_def by (simp only: bindR_simps generate_stage_shard [OF assms(3) refl])
qed

text \<open>The unit of a dimension that contains an index, and the mesh coordinate it belongs to.\<close>

definition stage_total :: "parallel_dims \<Rightarrow> string list \<Rightarrow> int" where
  "stage_total d dims = ds_total_size (stage_slice d dims 0 0)"

definition unit_of :: "parallel_dims \<Rightarrow> (int \<Rightarrow> int) \<Rightarrow> (int \<Rightarrow> int) \<Rightarrow> int \<times> string list \<Rightarrow> int" where
  "unit_of d n ix = (\<lambda>(idx, dims). ix idx div (n idx div stage_total d dims))"

definition coordinate :: "parallel_dims \<Rightarrow> dim_map \<Rightarrow> (int \<Rightarrow> int) \<Rightarrow> (int \<Rightarrow> int) \<Rightarrow> string \<Rightarrow> nat" where
  "coordinate d dm n ix x =
     (case find (\<lambda>(idx, dims). x \<in> set dims) dm of
        None \<Rightarrow> 0
      | Some (idx, dims) \<Rightarrow>
          let off = unit_of d n ix (idx, dims); U = pd_dp_shard d * pd_cp d
          in nat (if length dims = 1 then off else if x = ''tp'' then off div U else off mod U))"

lemma coordinate_item:
  assumes "stage_map dm" and "(idx, dims) \<in> set dm" and "x \<in> set dims"
  shows "coordinate d dm n ix x = (let off = unit_of d n ix (idx, dims); U = pd_dp_shard d * pd_cp d
    in nat (if length dims = 1 then off else if x = ''tp'' then off div U else off mod U))"
proof -
  have "find (\<lambda>(idx, dims). x \<in> set dims) dm = Some (idx, dims)"
  proof (cases "find (\<lambda>(idx, dims). x \<in> set dims) dm")
    case None
    then show ?thesis using assms(2,3) by (auto simp: find_None_iff)
  next
    case (Some item)
    then have "item \<in> set dm" "x \<in> set (snd item)" by (auto simp: find_Some_iff in_set_conv_nth)
    then have "(fst item, snd item) = (idx, dims)"
      using unique_user [of dm "fst item" "snd item" idx dims x] assms by (simp add: stage_map_def)
    then show ?thesis using Some by simp
  qed
  then show ?thesis by (simp add: coordinate_def)
qed

text \<open>The dimensions' sizes and indices are in range.\<close>

definition tiling_ok :: "parallel_dims \<Rightarrow> dim_map \<Rightarrow> (int \<Rightarrow> int) \<Rightarrow> (int \<Rightarrow> int) \<Rightarrow> bool" where
  "tiling_ok d dm n ix \<longleftrightarrow> list_all (\<lambda>(idx, dims). stage_total d dims dvd n idx \<and> 0 \<le> ix idx \<and> ix idx < n idx) dm"

lemma stage_item:
  assumes "dims_positive d" and "stage_map dm" and "tiling_ok d dm n ix" and "(idx, dims) \<in> set dm"
  shows "0 \<le> unit_of d n ix (idx, dims)" "unit_of d n ix (idx, dims) < stage_total d dims" "0 < stage_total d dims"
    "in_slice (n idx) (stage_slice d dims t u) (ix idx) \<longleftrightarrow> ds_offset (stage_slice d dims t u) = unit_of d n ix (idx, dims)"
    "ds_total_size (stage_slice d dims t u) = stage_total d dims" "stage_total d dims dvd n idx" "0 < n idx"
proof -
  have pos: "0 < pd_tp d" "0 < pd_dp_shard d * pd_cp d" using assms(1) by (auto simp: dims_positive_def)
  then show tot: "0 < stage_total d dims" by (simp add: stage_total_def stage_slice_def Let_def)
  from assms(3,4) show item: "stage_total d dims dvd n idx" "0 < n idx" by (auto simp: tiling_ok_def list_all_iff)
  have ix: "0 \<le> ix idx" "ix idx < n idx" using assms(3,4) by (auto simp: tiling_ok_def list_all_iff)
  show ts: "ds_total_size (stage_slice d dims t u) = stage_total d dims" by (simp add: stage_total_def stage_slice_def Let_def)
  have "stage_slice d dims t u = mk_slice (ds_offset (stage_slice d dims t u)) (stage_total d dims) (ds_dim (stage_slice d dims t u)) 1"
    by (simp add: stage_total_def stage_slice_def Let_def)
  then show "in_slice (n idx) (stage_slice d dims t u) (ix idx) \<longleftrightarrow> ds_offset (stage_slice d dims t u) = unit_of d n ix (idx, dims)"
    using in_unit_slice [OF item(1) tot item(2), of "ds_offset (stage_slice d dims t u)" "ds_dim (stage_slice d dims t u)" "ix idx"]
    by (auto simp: unit_of_def)
  have u: "0 < n idx div stage_total d dims" using item tot by (simp add: pos_imp_zdiv_pos_iff zdvd_imp_le)
  show "0 \<le> unit_of d n ix (idx, dims)" using ix(1) u by (simp add: unit_of_def pos_imp_zdiv_nonneg_iff)
  have "ix idx < (n idx div stage_total d dims) * stage_total d dims" using ix(2) item(1) by simp
  then show "unit_of d n ix (idx, dims) < stage_total d dims"
    using int_div_less [OF u] by (simp add: unit_of_def mult.commute)
qed

lemma stage_offset:
  assumes "dims_positive d" and "stage_map dm" and "tiling_ok d dm n ix" and item: "(idx, dims) \<in> set dm"
  shows "ds_offset (stage_slice d dims (coordinate d dm n ix ''tp'') (coordinate d dm n ix ''dp_shard_cp'')) = unit_of d n ix (idx, dims)"
    "''tp'' \<in> set dims \<Longrightarrow> coordinate d dm n ix ''tp'' < nat (pd_tp d)"
    "''dp_shard_cp'' \<in> set dims \<Longrightarrow> coordinate d dm n ix ''dp_shard_cp'' < nat (pd_dp_shard d * pd_cp d)"
proof -
  define U where "U = pd_dp_shard d * pd_cp d"
  define off where "off = unit_of d n ix (idx, dims)"
  have U: "0 < U" using assms(1) by (auto simp: U_def dims_positive_def)
  note st = stage_item [OF assms, folded off_def]
  note co = coordinate_item [OF assms(2) item, where d = d and n = n and ix = ix, unfolded Let_def, folded U_def off_def]
  have tp: "''tp'' \<in> set dims \<Longrightarrow> coordinate d dm n ix ''tp'' = nat (if length dims = 1 then off else off div U)"
    and dp: "''dp_shard_cp'' \<in> set dims \<Longrightarrow> coordinate d dm n ix ''dp_shard_cp'' = nat (if length dims = 1 then off else off mod U)"
    using co [of "''tp''"] co [of "''dp_shard_cp''"] by simp_all
  have digits: "0 \<le> off div U" "0 \<le> off mod U" "off mod U < U" using st(1) U by (simp_all add: pos_imp_zdiv_nonneg_iff)
  have recombined: "int (nat (off div U)) * U + int (nat (off mod U)) = off"
    using digits by (simp only: int_nat_eq if_True div_mult_mod_eq)
  note slice = stage_slice_def [of d, unfolded Let_def, folded U_def] stage_total_def
  have "ds_offset (stage_slice d dims (coordinate d dm n ix ''tp'') (coordinate d dm n ix ''dp_shard_cp'')) = off
    \<and> (''tp'' \<in> set dims \<longrightarrow> coordinate d dm n ix ''tp'' < nat (pd_tp d))
    \<and> (''dp_shard_cp'' \<in> set dims \<longrightarrow> coordinate d dm n ix ''dp_shard_cp'' < nat U)"
  proof -
    from assms(2) item consider "dims = [''tp'']" | "dims = [''dp_shard_cp'']" | "dims = [''tp'', ''dp_shard_cp''] \<or> dims = [''dp_shard_cp'', ''tp'']"
      by (auto simp: stage_map_def list_all_iff)
    then show ?thesis
    proof cases
      case 1
      then show ?thesis using tp st(1,2) by (simp add: slice)
    next
      case 2
      then show ?thesis using dp st(1,2) by (simp add: slice)
    next
      case 3
      then have "stage_total d dims = pd_tp d * U" by (auto simp: slice)
      then have "off div U < pd_tp d" using int_div_less [OF U] st(2) by simp
      moreover have "coordinate d dm n ix ''tp'' = nat (off div U)" "coordinate d dm n ix ''dp_shard_cp'' = nat (off mod U)"
        using 3 tp dp by auto
      ultimately show ?thesis using 3 digits recombined by (auto simp: slice)
    qed
  qed
  then show "ds_offset (stage_slice d dims (coordinate d dm n ix ''tp'') (coordinate d dm n ix ''dp_shard_cp'')) = unit_of d n ix (idx, dims)"
    "''tp'' \<in> set dims \<Longrightarrow> coordinate d dm n ix ''tp'' < nat (pd_tp d)"
    "''dp_shard_cp'' \<in> set dims \<Longrightarrow> coordinate d dm n ix ''dp_shard_cp'' < nat (pd_dp_shard d * pd_cp d)"
    by (simp_all only: U_def off_def simp_thms)
qed

text \<open>The stage's shards cover every element, and ranks that cover the same element hold the same shard.\<close>

lemma stage_shard_covers:
  assumes "dims_positive d" and "stage_map dm" and "tiling_ok d dm n ix"
  shows "covers n (stage_shard d dm t u) ix \<longleftrightarrow> list_all (\<lambda>(idx, dims). ds_offset (stage_slice d dims t u) = unit_of d n ix (idx, dims)) dm"
  using stage_item(4) [OF assms] by (auto simp: covers_def stage_shard_def list_all_iff)

lemma stage_shard_same:
  assumes "dims_positive d" and "stage_map dm" and "tiling_ok d dm n ix"
    and "covers n (stage_shard d dm t u) ix" "covers n (stage_shard d dm t' u') ix"
  shows "stage_shard d dm t u = stage_shard d dm t' u'"
proof -
  have "stage_slice d dims t u = stage_slice d dims t' u'" if "(idx, dims) \<in> set dm" for idx dims
  proof -
    have "ds_offset (stage_slice d dims t u) = ds_offset (stage_slice d dims t' u')"
      using assms(4,5) that unfolding stage_shard_covers [OF assms(1-3)] list_all_iff by fastforce
    then show ?thesis by (auto simp: stage_slice_def Let_def split: if_splits)
  qed
  then show ?thesis by (auto simp: stage_shard_def)
qed

lemma stage_shard_wf:
  assumes "dims_positive d" and "stage_map dm" and "tiling_ok d dm n ix" and "t < nat (pd_tp d)" "u < nat (pd_dp_shard d * pd_cp d)"
  shows "well_sharded n (stage_shard d dm t u)"
proof -
  have tu: "int t < pd_tp d" "int u < pd_dp_shard d * pd_cp d" using assms(4,5) by linarith+
  have "int t * (pd_dp_shard d * pd_cp d) + int u < pd_tp d * (pd_dp_shard d * pd_cp d)"
  proof -
    have "(int t + 1) * (pd_dp_shard d * pd_cp d) \<le> pd_tp d * (pd_dp_shard d * pd_cp d)"
      using tu assms(1) by (intro mult_right_mono) (auto simp: dims_positive_def)
    then show ?thesis using tu(2) by (simp add: distrib_right)
  qed
  then have "slice_ok (stage_slice d dims t u)" for dims
    using tu assms(1) by (auto simp: stage_slice_def Let_def slice_ok_def dims_positive_def)
  moreover have "wf_dict (stage_shard d dm t u)"
    using assms(2) by (simp add: wf_dict_def stage_shard_def stage_map_def comp_def case_prod_unfold)
  ultimately show ?thesis
    using stage_item(5-7) [OF assms(1-3)] by (auto simp: well_sharded_def stage_shard_def list_all_iff intro: less_imp_le)
qed

section \<open>Claims\<close>

text \<open>
  C29: The shards that the topology gives to the ranks of a pipeline stage tile the tensor. Let the
  tensor dimensions of a parameter be mapped to disjoint mesh dimensions (tensor parallel, shard and
  context parallel, or both merged) whose sizes divide them. Then for every element of the tensor
  some rank of the stage describes a well-formed shard that contains it, and all ranks of
  all stages that describe a shard containing it describe the same one.
\<close>

theorem stage_shards_tile:
  assumes "splits_evenly array_split" and "from_config_for_analysis array_split cfg N = Inr d"
    and "stage_map dm" and "tiling_ok d dm n ix" and "p < nat (pd_pp d)"
  shows "(\<exists>g info P. g < nat N \<and> get_rank_in_dim d ''pp'' g = Inr p \<and> param_shard d dm g = Inr info
      \<and> slices_of info = Inr P \<and> well_sharded n P \<and> covers n P ix)
    \<and> (\<forall>g < nat N. \<forall>h < nat N. \<forall>info info' P P'. param_shard d dm g = Inr info \<longrightarrow> param_shard d dm h = Inr info' \<longrightarrow>
        slices_of info = Inr P \<longrightarrow> slices_of info' = Inr P' \<longrightarrow> covers n P ix \<longrightarrow> covers n P' ix \<longrightarrow> info = info')"
proof
  obtain d0 where d0: "post_init array_split d0 = Inr d" "pd_world_size d0 = N"
    using from_config_post_init [OF assms(2)] .
  note pos = post_init_tables(1) [OF assms(1) d0(1)]
  let ?t = "if list_ex (\<lambda>(idx, dims). ''tp'' \<in> set dims) dm then coordinate d dm n ix ''tp'' else 0"
  let ?u = "if list_ex (\<lambda>(idx, dims). ''dp_shard_cp'' \<in> set dims) dm then coordinate d dm n ix ''dp_shard_cp'' else 0"
  have t: "?t < nat (pd_tp d)" and u: "?u < nat (pd_dp_shard d * pd_cp d)"
    using stage_offset(2,3) [OF pos assms(3,4)] pos by (auto simp: list_ex_iff dims_positive_def)
  have uC: "?u < nat (pd_dp_shard d) * nat (pd_cp d)" using u pos by (simp add: nat_mult_distrib dims_positive_def)
  obtain sh c where sh: "sh < nat (pd_dp_shard d)" "c < nat (pd_cp d)" "?u = sh * nat (pd_cp d) + c"
    using digits_exist [OF uC] by blast
  have rep: "0 < nat (pd_dp_replicate d)" using pos by (simp add: dims_positive_def)
  have shard: "param_shard d dm (mesh_rank d p 0 sh c ?t) = Inr (map (\<lambda>(idx, s). (idx, raw_of s)) (stage_shard d dm ?t ?u))"
    using param_shard_rank [OF assms(1) d0(1) assms(3,5) rep sh(1,2) t] sh(3) by simp
  have "stage_slice d dims ?t ?u = stage_slice d dims (coordinate d dm n ix ''tp'') (coordinate d dm n ix ''dp_shard_cp'')"
    if "(idx, dims) \<in> set dm" for idx dims
    using that assms(3) by (fastforce simp: stage_map_def list_all_iff list_ex_iff stage_slice_def Let_def)
  then have cov: "covers n (stage_shard d dm ?t ?u) ix"
    using stage_offset(1) [OF pos assms(3,4)] by (auto simp: stage_shard_covers [OF pos assms(3,4)] list_all_iff)
  show "\<exists>g info P. g < nat N \<and> get_rank_in_dim d ''pp'' g = Inr p \<and> param_shard d dm g = Inr info
      \<and> slices_of info = Inr P \<and> well_sharded n P \<and> covers n P ix"
    using ranks_of_coordinates(1,2) [OF assms(1) d0(1) assms(5) rep sh(1,2) t refl] d0(2) shard slices_of_raw cov
      stage_shard_wf [OF pos assms(3,4) t u] by blast
  show "\<forall>g < nat N. \<forall>h < nat N. \<forall>info info' P P'. param_shard d dm g = Inr info \<longrightarrow> param_shard d dm h = Inr info' \<longrightarrow>
        slices_of info = Inr P \<longrightarrow> slices_of info' = Inr P' \<longrightarrow> covers n P ix \<longrightarrow> covers n P' ix \<longrightarrow> info = info'"
  proof (intro allI impI)
    fix g h info info' P P'
    assume gh: "g < nat N" "h < nat N" and s: "param_shard d dm g = Inr info" "param_shard d dm h = Inr info'"
      "slices_of info = Inr P" "slices_of info' = Inr P'" "covers n P ix" "covers n P' ix"
    have form: "\<exists>t u. param_shard d dm k = Inr (map (\<lambda>(idx, s). (idx, raw_of s)) (stage_shard d dm t u))" if "k < nat N" for k
      using mesh_rank_exists [of k d] post_init_tables(3) [OF assms(1) d0(1)] d0(2) that
        param_shard_rank [OF assms(1) d0(1) assms(3)] by metis
    from form [OF gh(1)] form [OF gh(2)] obtain t u t' u' where f:
      "info = map (\<lambda>(idx, s). (idx, raw_of s)) (stage_shard d dm t u)" "info' = map (\<lambda>(idx, s). (idx, raw_of s)) (stage_shard d dm t' u')"
      using s(1,2) by auto
    then have "P = stage_shard d dm t u" "P' = stage_shard d dm t' u'" using s(3,4) slices_of_raw by simp_all
    then have "stage_shard d dm t u = stage_shard d dm t' u'" using stage_shard_same [OF pos assms(3,4)] s(5,6) by blast
    then show "info = info'" by (simp add: f)
  qed
qed

section \<open>Evaluation\<close>

definition ex_dim_map :: dim_map where
  "ex_dim_map = [(0, [''tp'', ''dp_shard_cp''])]"

theorem stage_shards_tile_witness:
  "\<exists>g info P. g < 8 \<and> get_rank_in_dim ex_dims ''pp'' g = Inr 1 \<and> param_shard ex_dims ex_dim_map g = Inr info
    \<and> slices_of info = Inr P \<and> well_sharded (\<lambda>_. 8) P \<and> covers (\<lambda>_. 8) P (\<lambda>_. 5)"
proof -
  have run: "from_config_for_analysis even_split ex_parallelism 8 = Inr ex_dims" by code_simp
  have pre: "stage_map ex_dim_map" "tiling_ok ex_dims ex_dim_map (\<lambda>_. 8) (\<lambda>_. 5)" "1 < nat (pd_pp ex_dims)"
    by code_simp+
  from stage_shards_tile [OF even_split_ok run pre] show ?thesis by simp
qed

end
