(* ===== verification/Async_Rollout.thy ===== *)
theory Async_Rollout
  imports Rollout_Loop Task_Scheduler
begin

text \<open>
  The rollout worker with asynchronous generation (rollout.mode = ''async'',
  cosmos_rl/rollout/worker/rollout_control.py): the fence that surrounds a weight transaction
  (a P2R command and the R2R broadcast that follows it), and the streaming step that feeds
  the task scheduler and collects its results. The control thread runs a handler in up to three
  steps (enter the fence, leave it, finish writing), between which the event loop of the
  scheduler goes on. Buffered modes of weight synchronisation and validation through the
  scheduler are not modelled.
\<close>

section \<open>State\<close>

text \<open>Where the control thread is: in its main loop, waiting for the scheduler to drain, rewriting
  the live parameters, or ended by an exception.\<close>

datatype control =
    Free
  | Fencing command_body
  | Writing command_body
  | Raised py_error

record async_state =
  as_worker :: rollout_worker
  as_sched :: "rollout_result scheduler"
  as_pending_step :: "int option"
  as_sync_open :: bool
  as_control :: control

definition init_async :: "worker_config \<Rightarrow> async_state" where
  "init_async c = \<lparr>as_worker = init_worker, as_sched = init_scheduler (wc_max_concurrent_requests c),
     as_pending_step = None, as_sync_open = False, as_control = Free\<rparr>"

section \<open>The fence of a weight transaction\<close>

definition pending_conflict :: "int option \<Rightarrow> async_state \<Rightarrow> bool" where
  "pending_conflict step s \<longleftrightarrow>
     as_pending_step s \<noteq> None \<and> step \<noteq> None \<and> as_pending_step s \<noteq> step"

definition record_pending :: "int option \<Rightarrow> async_state \<Rightarrow> async_state" where
  "record_pending step s =
     (if as_pending_step s = None \<and> step \<noteq> None then s\<lparr>as_pending_step := step\<rparr> else s)"

text \<open>\<open>_quiesce_async_scheduler_for_weight_sync\<close> up to the wait for the drain. It returns
  without waiting when generations are isolated by leases or when the fence is closed already.\<close>

definition quiesce_async :: "worker_config \<Rightarrow> int option \<Rightarrow> async_state \<Rightarrow> async_state outcome" where
  "quiesce_async c step s =
     (if pending_conflict step s then Inl (RuntimeError, s)
      else if wc_isolates_generation c then
        Inr (if as_sync_open s then s else s\<lparr>as_sched := sched_pause (as_sched s), as_sync_open := True\<rparr>)
      else
        case quiesce_begin (as_sched s) of
          Inl (e, sched) \<Rightarrow> Inl (e, s\<lparr>as_sched := sched\<rparr>)
        | Inr sched \<Rightarrow> Inr (s\<lparr>as_sched := sched\<rparr>))"

text \<open>\<open>_resume_async_scheduler_after_weight_sync\<close>.\<close>

definition resume_async :: "async_state \<Rightarrow> async_state outcome" where
  "resume_async s =
     (let s = s\<lparr>as_pending_step := None, as_sync_open := False\<rparr> in
      case sched_resume (as_sched s) of
        Inl (e, sched) \<Rightarrow> Inl (e, s\<lparr>as_sched := sched\<rparr>)
      | Inr sched \<Rightarrow> Inr (s\<lparr>as_sched := sched\<rparr>))"

fun command_weight_step :: "command_body \<Rightarrow> int option" where
  "command_weight_step (PolicyToRolloutUnicast a) = p2r_weight_step a"
| "command_weight_step (RolloutToRolloutBroadcast a) = r2r_weight_step a"
| "command_weight_step _ = None"

definition set_worker :: "rollout_worker outcome \<Rightarrow> async_state \<Rightarrow> async_state" where
  "set_worker r s =
     (case r of
        Inl (e, w) \<Rightarrow> s\<lparr>as_worker := w, as_control := Raised RuntimeError\<rparr>
      | Inr w \<Rightarrow> s\<lparr>as_worker := w, as_control := Free\<rparr>)"

definition enter_fence :: "worker_config \<Rightarrow> command_body \<Rightarrow> async_state \<Rightarrow> async_state" where
  "enter_fence c cmd s =
     (case quiesce_async c (command_weight_step cmd) s of
        Inl (e, s) \<Rightarrow> s\<lparr>as_control := Raised RuntimeError\<rparr>
      | Inr s \<Rightarrow>
          if ts_quiesce (as_sched s) = Draining then s\<lparr>as_control := Fencing cmd\<rparr>
          else (record_pending (command_weight_step cmd) s)\<lparr>as_control := Writing cmd\<rparr>)"

text \<open>The control thread takes a command: the ones that do not touch the weights are done at
  once. The two weight handlers initialise the engine, which starts the scheduler, and enter
  the fence.\<close>

fun take_command :: "worker_config \<Rightarrow> command_body \<Rightarrow> async_state \<Rightarrow> async_state" where
  "take_command c (Stop r) s = s\<lparr>as_worker := handle_stop (as_worker s)\<rparr>"
| "take_command c (BuildMesh ranks) s = set_worker (build_global_mesh c ranks (as_worker s)) s"
| "take_command c (PolicyToRolloutUnicast a) s =
     (let s = s\<lparr>as_sched := sched_start (as_sched s)\<rparr> in
      if p2r_dst a \<noteq> wc_replica_name c then s else enter_fence c (PolicyToRolloutUnicast a) s)"
| "take_command c (RolloutToRolloutBroadcast a) s =
     enter_fence c (RolloutToRolloutBroadcast a)
       (if wc_replica_name c \<noteq> r2r_src a then s\<lparr>as_sched := sched_start (as_sched s)\<rparr> else s)"
| "take_command c cmd s = s\<lparr>as_control := Raised GenericException\<rparr>"

text \<open>The drain is over, one way or the other, and the handler goes on.\<close>

definition leave_fence :: "async_state \<Rightarrow> async_state" where
  "leave_fence s =
     (case as_control s of
        Fencing cmd \<Rightarrow>
          (case ts_quiesce (as_sched s) of
             Draining \<Rightarrow> s
           | QuiesceFailed e \<Rightarrow> s\<lparr>as_control := Raised RuntimeError\<rparr>
           | NotQuiescing \<Rightarrow> (record_pending (command_weight_step cmd) s)\<lparr>as_control := Writing cmd\<rparr>)
      | _ \<Rightarrow> s)"

text \<open>The transfer is done: a P2R command leaves the fence closed, the broadcast publishes the
  version and reopens admission.\<close>

fun finish_write :: "worker_config \<Rightarrow> command_body \<Rightarrow> async_state \<Rightarrow> async_state" where
  "finish_write c (PolicyToRolloutUnicast a) s = set_worker (execute_p2r_recv True a (as_worker s)) s"
| "finish_write c (RolloutToRolloutBroadcast a) s =
     (case bindR (r2r_transfer c a (as_worker s)) (publish_version c a) of
        Inl (e, w) \<Rightarrow> s\<lparr>as_worker := w, as_control := Raised RuntimeError\<rparr>
      | Inr w \<Rightarrow>
      case resume_async (s\<lparr>as_worker := w\<rparr>) of
        Inl (e, s) \<Rightarrow> s\<lparr>as_control := Raised RuntimeError\<rparr>
      | Inr s \<Rightarrow>
          set_worker (Inr (if replica_should_stop (RolloutToRolloutBroadcast a)
            then (as_worker s)\<lparr>rw_shutdown := True\<rparr> else as_worker s)) s)"
| "finish_write c cmd s = s"

section \<open>The streaming step\<close>

definition rollout_task_of :: "rl_payload \<Rightarrow> rollout_task" where
  "rollout_task_of p = \<lparr>rt_idx = pl_prompt_idx p, rt_payload = p, rt_is_validation = False\<rparr>"

type_synonym 'a async_result = "(py_error \<times> async_state) + ('a \<times> async_state)"

text \<open>\<open>_stream_generation_feed_prompts\<close> for training: the number of prompts fed, and whether
  the prompts have ended.\<close>

definition feed_prompts ::
  "worker_env \<Rightarrow> worker_config \<Rightarrow> rl_payload list \<times> bool \<Rightarrow> async_state \<Rightarrow> (nat \<times> bool) async_result" where
  "feed_prompts env c answer s =
     (let sched = as_sched s; w = as_worker s in
      if is_busy sched then Inr ((0, False), s)
      else if min (wc_batch_size c)
          (ts_max_concurrent_requests sched - int (length (ts_task_queue sched)) - int (length (ts_active sched))) \<le> 0
      then Inr ((0, False), s)
      else
        case request_new_prompts env c False answer (rw_prompt_queue w) 1 w of
          Inl e \<Rightarrow> Inl (e, s)
        | Inr (queue, is_end) \<Rightarrow>
            let w = w\<lparr>rw_prompt_queue := queue\<rparr>; s = s\<lparr>as_worker := w\<rparr> in
            (case queue of
               [] \<Rightarrow> Inr ((0, is_end), s)
             | payloads # rest \<Rightarrow>
               (case batch_requested_weight_version payloads of
                  Inl e \<Rightarrow> Inl (e, s)
                | Inr requested \<Rightarrow>
                  (case prompt_version_decision requested (rw_current_weight_version w)
                      (wc_allowed_outdated_steps c) (wc_on_policy c) of
                     DROP \<Rightarrow> Inr ((0, is_end), s\<lparr>as_worker := report_discarded_samples c
                         (int (length payloads) * wc_n_generation c) (w\<lparr>rw_prompt_queue := rest\<rparr>)\<rparr>)
                   | WAIT \<Rightarrow> Inr ((0, False), s)
                   | SERVE \<Rightarrow>
                       let s = s\<lparr>as_worker := w\<lparr>rw_prompt_queue := rest\<rparr>\<rparr> in
                       (case put_rollout_batch (map rollout_task_of payloads) sched of
                          Inl (e, sched) \<Rightarrow> Inl (e, s\<lparr>as_sched := sched\<rparr>)
                        | Inr sched \<Rightarrow> Inr ((length payloads, is_end), s\<lparr>as_sched := sched\<rparr>))))))"

text \<open>\<open>_stream_generation_collect_results\<close>.\<close>

definition on_worker :: "(rollout_worker \<Rightarrow> rollout_worker outcome) \<Rightarrow> async_state \<Rightarrow> async_state outcome" where
  "on_worker f s = (case f (as_worker s) of Inl (e, w) \<Rightarrow> Inl (e, s\<lparr>as_worker := w\<rparr>) | Inr w \<Rightarrow> Inr (s\<lparr>as_worker := w\<rparr>))"

definition collect_results :: "worker_env \<Rightarrow> worker_config \<Rightarrow> async_state \<Rightarrow> async_state outcome" where
  "collect_results env c s =
     (let (results, sched) = get_all (as_sched s); s = s\<lparr>as_sched := sched\<rparr> in
      if results = [] then Inr s
      else if list_ex (\<lambda>cr. pl_weight_version (cr_payload cr) \<noteq> cr_behavior_weight_version cr) results
      then Inl (RuntimeError, s)
      else on_worker (filter_and_report env c (map cr_payload results) (map cr_result results)) s)"

record stream_input =
  si_ready :: "bool list"
  si_fetched :: fetch
  si_answer :: "rl_payload list \<times> bool"
  si_ack :: bool

text \<open>\<open>stream_generation_step\<close>.\<close>

definition update_consume_end :: "async_state \<Rightarrow> async_state outcome" where
  "update_consume_end s =
     (if prompt_fetch_end (rw_state (as_worker s)) \<and> is_all_tasks_completed (as_sched s)
         \<and> is_empty (rw_rewards (as_worker s))
      then on_worker (\<lambda>w. case set_prompt_consume_end (rw_state w) of
        Inl e \<Rightarrow> Inl (e, w) | Inr st \<Rightarrow> Inr (w\<lparr>rw_state := st\<rparr>)) s
      else Inr s)"

definition feed_step :: "worker_env \<Rightarrow> worker_config \<Rightarrow> rl_payload list \<times> bool \<Rightarrow> async_state \<Rightarrow> async_state outcome" where
  "feed_step env c answer s =
     (if prompt_fetch_end (rw_state (as_worker s)) then Inr s
      else bindR (feed_prompts env c answer s) (\<lambda>((n, is_end), s).
        Inr (if is_end then s\<lparr>as_worker := (as_worker s)\<lparr>rw_state := set_prompt_fetch_end (rw_state (as_worker s))\<rparr>\<rparr> else s)))"

definition stream_generation_step :: "worker_env \<Rightarrow> worker_config \<Rightarrow> stream_input \<Rightarrow> async_state \<Rightarrow> async_state outcome" where
  "stream_generation_step env c i s =
     (case raise_if_failed (as_sched s) of
        Inl (e, sched) \<Rightarrow> Inl (e, s)
      | Inr sched \<Rightarrow>
          bindR (update_consume_end s) (\<lambda>s.
          bindR (feed_step env c (si_answer i) s) (\<lambda>s.
          bindR (collect_results env c s) (\<lambda>s.
          if prompt_consume_end (rw_state (as_worker s)) \<and> wc_should_report c
          then on_worker (send_end_signal env c (si_fetched i) (si_ack i)) s
          else Inr s))))"

text \<open>The rest of a pass of the main loop, after the commands.\<close>

definition stream_pass :: "worker_env \<Rightarrow> worker_config \<Rightarrow> stream_input \<Rightarrow> async_state \<Rightarrow> async_state outcome" where
  "stream_pass env c i s =
     (if \<not> weight_synced (rw_state (as_worker s)) then Inr s
      else
        case report_rollouts env c False (si_ready i) (si_fetched i) (as_worker s) of
          Inl (e, w) \<Rightarrow> Inl (e, s\<lparr>as_worker := w\<rparr>)
        | Inr ((ps, v, st, emp), w) \<Rightarrow>
            if v then Inl (AssertionError, s\<lparr>as_worker := w\<rparr>)
            else stream_generation_step env c i (s\<lparr>as_worker := w\<rparr>))"

section \<open>Runs\<close>

datatype async_event =
    EventLoop "rollout_result loop_event"
  | TakeCommand command_body
  | LeaveFence
  | FenceTimeout
  | FinishWrite
  | StreamPass stream_input

definition settle :: "async_state outcome \<Rightarrow> async_state" where
  "settle r = (case r of Inl (e, s) \<Rightarrow> s\<lparr>as_control := Raised e\<rparr> | Inr s \<Rightarrow> s)"

text \<open>The event loop moves at any time; the generation function stamps a payload with the live
  version. The control thread moves as its location allows. Commands are taken until the
  shutdown signal is set; the pass during which it is set goes on to its end.\<close>

definition async_step :: "worker_env \<Rightarrow> worker_config \<Rightarrow> async_event \<Rightarrow> async_state \<Rightarrow> async_state" where
  "async_step env c ev s =
     (case (ev, as_control s) of
        (EventLoop e, _) \<Rightarrow>
          s\<lparr>as_sched := loop_step (stamp_version (rw_current_weight_version (as_worker s))) e (as_sched s)\<rparr>
      | (TakeCommand cmd, Free) \<Rightarrow> if rw_shutdown (as_worker s) then s else take_command c cmd s
      | (LeaveFence, Fencing cmd) \<Rightarrow> leave_fence s
      | (FenceTimeout, Fencing cmd) \<Rightarrow>
          if ts_quiesce (as_sched s) = Draining then s\<lparr>as_sched := quiesce_abort RuntimeError (as_sched s)\<rparr> else s
      | (FinishWrite, Writing cmd) \<Rightarrow> finish_write c cmd s
      | (StreamPass i, Free) \<Rightarrow> settle (stream_pass env c i s)
      | _ \<Rightarrow> s)"

definition async_run :: "worker_env \<Rightarrow> worker_config \<Rightarrow> async_event list \<Rightarrow> async_state \<Rightarrow> async_state" where
  "async_run env c = fold (async_step env c)"

end
