(* ===== verification/Async_Claims.thy ===== *)
theory Async_Claims
  imports Async_Rollout Rollout_Loop_Claims
begin

text \<open>
  Properties of the asynchronous rollout worker: parameters are rewritten only while the
  scheduler is quiet, a generation runs on one version of the weights, results keep that version,
  and what happens after the end of the prompts.
\<close>

section \<open>The scheduler under the fence\<close>

text \<open>\<open>closed\<close>: what the early return of \<open>quiesce_after_drain\<close> takes for a closed
  fence. The invariant says that it is one, and that a drain under way has admission closed.\<close>

definition closed :: "'r scheduler \<Rightarrow> bool" where
  "closed d \<longleftrightarrow> ts_running d \<and> \<not> ts_poisoned d \<and> ts_paused d \<and> \<not> ts_accepting d"

definition fence_ok :: "'r scheduler \<Rightarrow> bool" where
  "fence_ok d \<longleftrightarrow> (ts_quiesce d = Draining \<longrightarrow> \<not> ts_accepting d \<and> (ts_paused d \<longrightarrow> ts_poisoned d))
     \<and> (closed d \<longrightarrow> quiet d)"

lemma fence_okI:
  "(ts_quiesce d = Draining \<Longrightarrow> \<not> ts_accepting d \<and> (ts_paused d \<longrightarrow> ts_poisoned d)) \<Longrightarrow>
     (closed d \<Longrightarrow> quiet d) \<Longrightarrow> fence_ok d"
  by (simp add: fence_ok_def)

lemma fence_ok_init: "fence_ok (init_scheduler m)"
  by (simp add: fence_ok_def closed_def init_scheduler_def)

lemma fence_ok_start: "fence_ok d \<Longrightarrow> ts_quiesce d = NotQuiescing \<Longrightarrow> fence_ok (sched_start d)"
  by (auto simp: fence_ok_def closed_def sched_start_def)

lemma worker_iteration_gates:
  "ts_quiesce (worker_iteration d) = ts_quiesce d \<and> ts_accepting (worker_iteration d) = ts_accepting d
   \<and> ts_paused (worker_iteration d) = ts_paused d \<and> ts_poisoned (worker_iteration d) = ts_poisoned d
   \<and> ts_running (worker_iteration d) = ts_running d"
  by (cases d rule: worker_iteration_cases) simp_all

lemma drain_poll_cases:
  obtains (Waits) "drain_poll d = d"
  | (Aborts) e where "drain_poll d = quiesce_abort e d"
  | (Acknowledges) "ts_quiesce d = Draining" "drain_poll d = d\<lparr>ts_paused := True, ts_quiesce := NotQuiescing\<rparr>"
      "ts_task_queue d = []" "unfinished d = []"
proof (cases "ts_quiesce d = Draining \<and> ts_running d \<and> ts_fatal_error d = None
    \<and> ts_task_queue d = [] \<and> unfinished d = []")
  case True
  then show ?thesis
    by (intro Acknowledges) (auto simp: drain_poll_def raise_if_failed_def unfinished_Nil list_ex_iff)
next
  case False
  then have "drain_poll d = d \<or> (\<exists>e. drain_poll d = quiesce_abort e d)"
    by (auto simp: drain_poll_def raise_if_failed_def unfinished_Nil list_ex_iff)
  then show ?thesis using Waits Aborts by blast
qed

text \<open>A step of the event loop either leaves the gates, or poisons, or acknowledges a drain.\<close>

lemma loop_step_gates:
  obtains (Same) "ts_quiesce (loop_step stamp ev d) = ts_quiesce d" "ts_accepting (loop_step stamp ev d) = ts_accepting d"
      "ts_paused (loop_step stamp ev d) = ts_paused d" "ts_poisoned (loop_step stamp ev d) = ts_poisoned d"
      "ts_running (loop_step stamp ev d) = ts_running d"
  | (Poisoned) "ts_poisoned (loop_step stamp ev d)"
      "ts_quiesce (loop_step stamp ev d) = ts_quiesce d
        \<or> ts_quiesce d = Draining \<and> (\<exists>e. ts_quiesce (loop_step stamp ev d) = QuiesceFailed e)"
      "ts_accepting (loop_step stamp ev d) \<longrightarrow> ts_accepting d"
  | (Acknowledged) "ts_quiesce d = Draining" "loop_step stamp ev d = d\<lparr>ts_paused := True, ts_quiesce := NotQuiescing\<rparr>"
      "ts_task_queue d = []" "unfinished d = []"
proof (cases ev)
  case LoopIterate
  then show ?thesis using worker_iteration_gates [of d] by (intro Same) simp_all
next
  case (LoopBegin i)
  then show ?thesis
    by (intro Same) (auto simp: generation_begin_def set_phase_def Let_def split: loop_splits)
next
  case (LoopEnd i rs)
  show ?thesis
  proof (cases "i < length (ts_active d) \<and> (\<exists>t v. ts_active d ! i = (t, Generating v)) \<and> rs = []")
    case True
    then show ?thesis
      using LoopEnd by (intro Poisoned) (auto simp: generation_end_def poison_def set_phase_def)
  next
    case False
    then show ?thesis
      using LoopEnd by (intro Same) (auto simp: generation_end_def set_phase_def Let_def split: loop_splits)
  qed
next
  case (LoopRaise i e)
  then show ?thesis
    by (cases "loop_step stamp ev d = d")
      (auto intro: Same Poisoned simp: generation_raise_def poison_def set_phase_def split: loop_splits)
next
  case LoopDrain
  show ?thesis
  proof (cases "ts_quiesce d = Draining")
    case True
    with LoopDrain show ?thesis
      by (cases d rule: drain_poll_cases) (auto intro: Same Poisoned Acknowledged simp: quiesce_abort_def)
  next
    case False
    with LoopDrain show ?thesis by (intro Same) (simp_all add: drain_poll_def)
  qed
qed

lemma fence_ok_loop_step:
  assumes "fence_ok d"
  shows "fence_ok (loop_step stamp ev d)"
proof (cases rule: loop_step_gates [of stamp ev d])
  case Same
  then have "closed (loop_step stamp ev d) = closed d" by (simp add: closed_def)
  then show ?thesis
    using assms Same quiet_loop_step(1) [of d stamp ev] by (auto simp: fence_ok_def)
next
  case Poisoned
  then show ?thesis using assms by (auto simp: fence_ok_def closed_def)
next
  case Acknowledged
  then have "quiet (loop_step stamp ev d)"
    using assms by (simp add: fence_ok_def quiet_def unfinished_def)
  then show ?thesis using Acknowledged by (intro fence_okI) simp_all
qed

lemma quiesce_begin_fence:
  assumes "fence_ok d" "quiesce_begin d = Inr d'" "ts_quiesce d = NotQuiescing"
  shows "fence_ok d' \<and> (ts_quiesce d' = Draining \<or> ts_quiesce d' = NotQuiescing \<and> quiet d')"
  using assms by (auto simp: quiesce_begin_def fence_ok_def closed_def split: if_splits)

section \<open>Versions of generations and results\<close>

text \<open>\<open>frozen\<close>: the payload of a running generation, and of a result, carries the version that
  was frozen at its start. \<open>on_version v\<close>: every running generation started on \<open>v\<close>.\<close>

definition frozen :: "'r scheduler \<Rightarrow> bool" where
  "frozen d \<longleftrightarrow> (\<forall>a \<in> set (ts_active d). \<forall>v. snd a = Generating v \<longrightarrow> pl_weight_version (rt_payload (fst a)) = v)
     \<and> (\<forall>cr \<in> set (ts_complete_queue d). pl_weight_version (cr_payload cr) = cr_behavior_weight_version cr)"

definition on_version :: "int \<Rightarrow> 'r scheduler \<Rightarrow> bool" where
  "on_version v d \<longleftrightarrow> (\<forall>a \<in> set (ts_active d). \<forall>u. snd a = Generating u \<longrightarrow> u = v)"

lemma in_set_update: "a \<in> set (xs[i := x]) \<Longrightarrow> a = x \<or> a \<in> set xs"
  using set_update_subset_insert [of xs i x] by blast

lemma quiet_on_version: "quiet d \<Longrightarrow> on_version v d"
  by (auto simp: quiet_def on_version_def unfinished_Nil)

lemma frozen_loop_step:
  assumes "frozen d"
  shows "frozen (loop_step stamp ev d)"
proof (cases ev)
  case LoopIterate
  then show ?thesis
    using assms by (cases d rule: worker_iteration_cases) (auto simp: frozen_def)
next
  case (LoopBegin i)
  then show ?thesis
    using assms
    by (auto simp: frozen_def generation_begin_def set_phase_def Let_def split: loop_splits
        dest!: in_set_update)
next
  case (LoopEnd i rs)
  have at: "pl_weight_version (rt_payload t) = v" if "i < length (ts_active d)" "ts_active d ! i = (t, Generating v)" for t v
    using assms that nth_mem [of i "ts_active d"] by (auto simp: frozen_def)
  show ?thesis
    using LoopEnd assms at
    by (auto simp: frozen_def generation_end_def set_phase_def poison_def Let_def split: loop_splits option.splits
        dest!: in_set_update)
next
  case (LoopRaise i e)
  then show ?thesis
    using assms
    by (auto simp: frozen_def generation_raise_def set_phase_def poison_def split: loop_splits option.splits
        dest!: in_set_update)
next
  case LoopDrain
  then show ?thesis
    using assms by (cases d rule: drain_poll_cases) (auto simp: frozen_def quiesce_abort_def)
qed

lemma on_version_loop_step:
  assumes "on_version v d"
  shows "on_version v (loop_step (stamp_version v) ev d)"
proof (cases ev)
  case LoopIterate
  then show ?thesis
    using assms by (cases d rule: worker_iteration_cases) (auto simp: on_version_def)
next
  case (LoopBegin i)
  then show ?thesis
    using assms
    by (auto simp: on_version_def generation_begin_def set_phase_def stamp_version_def Let_def split: loop_splits
        dest!: in_set_update)
next
  case (LoopEnd i rs)
  then show ?thesis
    using assms
    by (auto simp: on_version_def generation_end_def set_phase_def poison_def Let_def split: loop_splits option.splits
        dest!: in_set_update)
next
  case (LoopRaise i e)
  then show ?thesis
    using assms
    by (auto simp: on_version_def generation_raise_def set_phase_def poison_def split: loop_splits option.splits
        dest!: in_set_update)
next
  case LoopDrain
  then show ?thesis
    using assms by (cases d rule: drain_poll_cases) (auto simp: on_version_def quiesce_abort_def)
qed

section \<open>The transaction invariant\<close>

fun control_ok :: "control \<Rightarrow> 'r scheduler \<Rightarrow> bool" where
  "control_ok Free d = (ts_quiesce d = NotQuiescing)"
| "control_ok (Fencing cmd) d = (ts_quiesce d = NotQuiescing \<longrightarrow> quiet d)"
| "control_ok (Writing cmd) d = (ts_quiesce d = NotQuiescing \<and> quiet d)"
| "control_ok (Raised e) d = True"

definition async_inv :: "async_state \<Rightarrow> bool" where
  "async_inv s \<longleftrightarrow> fence_ok (as_sched s) \<and> frozen (as_sched s)
     \<and> on_version (rw_current_weight_version (as_worker s)) (as_sched s)
     \<and> control_ok (as_control s) (as_sched s)"

lemma async_inv_init: "async_inv (init_async c)"
  by (simp add: async_inv_def init_async_def fence_ok_init)
    (simp add: init_scheduler_def frozen_def on_version_def)

lemma control_ok_loop_step:
  assumes "control_ok k d" "fence_ok d"
  shows "control_ok k (loop_step stamp ev d)"
proof -
  have quiet: "quiet (loop_step stamp ev d)" if "quiet d" using that by (rule quiet_loop_step)
  have ack: "quiet (d\<lparr>ts_paused := True, ts_quiesce := NotQuiescing\<rparr>)"
    if "ts_quiesce d = Draining" "ts_task_queue d = []" "unfinished d = []"
    using assms(2) that by (simp add: quiet_def fence_ok_def)
  show ?thesis
    using assms(1) quiet ack
    by (cases rule: loop_step_gates [of stamp ev d]; cases k) auto
qed

lemma async_inv_loop:
  assumes "async_inv s"
  shows "async_inv (s\<lparr>as_sched := loop_step (stamp_version (rw_current_weight_version (as_worker s))) e (as_sched s)\<rparr>)"
  using assms
  by (simp add: async_inv_def fence_ok_loop_step frozen_loop_step on_version_loop_step control_ok_loop_step)

text \<open>Operations of the control thread on the scheduler keep the running tasks and the results.\<close>

lemma same_tasks:
  assumes "ts_active d' = ts_active d" "set (ts_complete_queue d') \<subseteq> set (ts_complete_queue d)"
  shows "frozen d \<Longrightarrow> frozen d'" "on_version v d' = on_version v d"
  using assms by (auto simp: frozen_def on_version_def)

lemma start_tasks:
  "ts_active (sched_start d) = ts_active d" "ts_complete_queue (sched_start d) = ts_complete_queue d"
  "ts_quiesce (sched_start d) = ts_quiesce d"
  by (simp_all add: sched_start_def)

lemma async_inv_start:
  assumes "async_inv s" "as_control s = Free"
  shows "async_inv (s\<lparr>as_sched := sched_start (as_sched s)\<rparr>)"
  using assms same_tasks [of "sched_start (as_sched s)" "as_sched s"]
  by (auto simp: async_inv_def start_tasks fence_ok_start)

lemma record_pending_simps [simp]:
  "as_worker (record_pending st s) = as_worker s" "as_sched (record_pending st s) = as_sched s"
  by (simp_all add: record_pending_def)

lemma quiesce_begin_tasks:
  "quiesce_begin d = Inr d' \<Longrightarrow> ts_active d' = ts_active d \<and> ts_complete_queue d' = ts_complete_queue d"
  "quiesce_begin d = Inl (e, d') \<Longrightarrow> d' = d"
  by (auto simp: quiesce_begin_def split: if_splits)

lemma async_inv_enter:
  assumes "async_inv s" "as_control s = Free" "\<not> wc_isolates_generation c"
  shows "async_inv (enter_fence c cmd s)"
proof (cases "pending_conflict (command_weight_step cmd) s")
  case True
  then show ?thesis using assms by (simp add: enter_fence_def quiesce_async_def async_inv_def)
next
  case False
  show ?thesis
  proof (cases "quiesce_begin (as_sched s)")
    case (Inl ed)
    then show ?thesis
      using assms False quiesce_begin_tasks(2) [of "as_sched s"]
      by (cases ed) (auto simp: enter_fence_def quiesce_async_def async_inv_def)
  next
    case (Inr d)
    have "fence_ok d \<and> (ts_quiesce d = Draining \<or> ts_quiesce d = NotQuiescing \<and> quiet d)"
      using assms Inr by (intro quiesce_begin_fence) (auto simp: async_inv_def)
    then show ?thesis
      using assms False Inr quiesce_begin_tasks(1) [OF Inr] same_tasks [of d "as_sched s"]
      by (auto simp: enter_fence_def quiesce_async_def async_inv_def)
  qed
qed

lemma async_inv_worker:
  assumes "async_inv s" "rw_current_weight_version w = rw_current_weight_version (as_worker s)"
  shows "async_inv (s\<lparr>as_worker := w\<rparr>)"
  using assms by (simp add: async_inv_def)

lemma mesh_version: "keeps (\<lambda>w'. rw_current_weight_version w' = rw_current_weight_version w) (build_global_mesh c ranks w)"
  by (simp add: build_global_mesh_def split: option.splits)

lemma p2r_version: "keeps (\<lambda>w'. rw_current_weight_version w' = rw_current_weight_version w) (execute_p2r_recv b a w)"
  by (simp add: execute_p2r_recv_def Let_def)

lemma async_inv_set_worker:
  assumes "async_inv s" "ts_quiesce (as_sched s) = NotQuiescing"
    and "keeps (\<lambda>w. rw_current_weight_version w = rw_current_weight_version (as_worker s)) r"
  shows "async_inv (set_worker r s)"
  using assms by (auto simp: set_worker_def async_inv_def split: sum.splits prod.splits)

lemma async_inv_take:
  assumes "async_inv s" "as_control s = Free" "\<not> wc_isolates_generation c"
  shows "async_inv (take_command c cmd s)"
proof -
  have q: "ts_quiesce (as_sched s) = NotQuiescing" using assms by (simp add: async_inv_def)
  have start: "async_inv (s\<lparr>as_sched := sched_start (as_sched s)\<rparr>)" by (rule async_inv_start [OF assms(1,2)])
  have "async_inv (enter_fence c cmd' (s\<lparr>as_sched := sched_start (as_sched s)\<rparr>))" for cmd'
    using async_inv_enter [OF start _ assms(3)] assms(2) by simp
  then show ?thesis
    using assms start q async_inv_enter [OF assms, of "RolloutToRolloutBroadcast a" for a]
      async_inv_set_worker [OF assms(1) q mesh_version]
    by (cases cmd) (auto simp: Let_def handle_stop_def intro: async_inv_worker simp: async_inv_def)
qed

lemma async_inv_leave:
  assumes "async_inv s"
  shows "async_inv (leave_fence s)"
  using assms
  by (auto simp: leave_fence_def async_inv_def split: control.splits quiesce.splits)

lemma async_inv_timeout:
  assumes "async_inv s" "as_control s = Fencing cmd"
  shows "async_inv (s\<lparr>as_sched := quiesce_abort RuntimeError (as_sched s)\<rparr>)"
  using assms
  by (simp add: async_inv_def quiesce_abort_def fence_ok_def closed_def frozen_def on_version_def)

lemma resume_inv:
  assumes "async_inv s" "as_control s = Writing cmd"
    and "resume_async (s\<lparr>as_worker := w\<rparr>) = Inr t"
  shows "async_inv (t\<lparr>as_control := Free\<rparr>) \<and> as_worker t = w"
proof -
  let ?d = "as_sched s"
  have q: "quiet ?d" "ts_quiesce ?d = NotQuiescing" "frozen ?d" using assms(1,2) by (simp_all add: async_inv_def)
  obtain d where d: "sched_resume ?d = Inr d" and t: "as_sched t = d" "as_worker t = w"
    using assms(3) by (auto simp: resume_async_def Let_def split: sum.splits)
  have "d = ?d \<or> d = ?d\<lparr>ts_paused := False, ts_accepting := True\<rparr>"
    using d by (auto simp: sched_resume_def split: if_splits)
  then have "fence_ok d" "ts_quiesce d = NotQuiescing" "frozen d" "on_version (rw_current_weight_version w) d"
    using assms(1) q quiet_on_version [OF q(1)]
    by (auto simp: async_inv_def fence_ok_def closed_def frozen_def on_version_def)
  then show ?thesis using t by (simp add: async_inv_def)
qed

lemma async_inv_finish:
  assumes "async_inv s" "as_control s = Writing cmd"
  shows "async_inv (finish_write c cmd s)"
proof (cases cmd)
  case (PolicyToRolloutUnicast a)
  have "ts_quiesce (as_sched s) = NotQuiescing" using assms by (simp add: async_inv_def)
  then show ?thesis
    using PolicyToRolloutUnicast async_inv_set_worker [OF assms(1) _ p2r_version] by simp
next
  case (RolloutToRolloutBroadcast a)
  have raised: "async_inv (s\<lparr>as_worker := w, as_control := Raised e\<rparr>)" for w e
    using assms quiet_on_version [of "as_sched s"] by (simp add: async_inv_def)
  show ?thesis
  proof (cases "bindR (r2r_transfer c a (as_worker s)) (publish_version c a)")
    case (Inl ew)
    then show ?thesis using RolloutToRolloutBroadcast raised by (cases ew) simp
  next
    case (Inr w)
    show ?thesis
    proof (cases "resume_async (s\<lparr>as_worker := w\<rparr>)")
      case (Inl et)
      then have "\<exists>e t. et = (e, t) \<and> as_sched t = as_sched s \<and> as_worker t = w"
        by (auto simp: resume_async_def sched_resume_def Let_def split: if_splits)
      then show ?thesis
        using RolloutToRolloutBroadcast Inr Inl assms quiet_on_version [of "as_sched s"]
        by (auto simp: async_inv_def)
    next
      case t: (Inr t)
      then show ?thesis
        using RolloutToRolloutBroadcast Inr resume_inv [OF assms t]
        by (auto simp: set_worker_def async_inv_def)
    qed
  qed
qed (use assms in simp_all)

section \<open>The streaming step keeps the invariant\<close>

definition stream_inv :: "async_state \<Rightarrow> bool" where
  "stream_inv s \<longleftrightarrow> async_inv s \<and> as_control s = Free"

lemma on_worker_inv:
  assumes "stream_inv s"
    and "keeps (\<lambda>w. rw_current_weight_version w = rw_current_weight_version (as_worker s)) (f (as_worker s))"
  shows "keeps stream_inv (on_worker f s)"
  using assms by (auto simp: on_worker_def stream_inv_def async_inv_def split: sum.splits prod.splits)

lemma worker_inv:
  "stream_inv s \<Longrightarrow> rw_current_weight_version w = rw_current_weight_version (as_worker s) \<Longrightarrow>
     stream_inv (s\<lparr>as_worker := w\<rparr>)"
  by (auto simp: stream_inv_def async_inv_def)

lemma send_end_signal_version:
  "keeps (\<lambda>w'. rw_current_weight_version w' = rw_current_weight_version w) (send_end_signal env c f ack w)"
proof -
  let ?v = "rw_current_weight_version w"
  have r: "keeps_via snd (\<lambda>w'. rw_current_weight_version w' = ?v) (report_rollouts env c True [] f w)"
    by (rule live.rollouts_reported) simp
  show ?thesis
  proof (cases "report_rollouts env c True [] f w")
    case (Inl ew)
    then show ?thesis using r by (cases ew) (simp add: send_end_signal_def)
  next
    case (Inr x)
    obtain ps v s e w' where x: "x = ((ps, v, s, e), w')" by (metis surj_pair)
    then show ?thesis using r Inr by (simp add: send_end_signal_def Let_def post_def)
  qed
qed

lemma put_batch_inv:
  assumes "stream_inv s"
  shows "put_rollout_batch ts (as_sched s) = Inl (e, d) \<Longrightarrow> d = as_sched s"
    and "put_rollout_batch ts (as_sched s) = Inr d \<Longrightarrow> stream_inv (s\<lparr>as_sched := d\<rparr>)"
  using assms
  by (auto simp: put_rollout_batch_def require_admission_def stream_inv_def async_inv_def fence_ok_def closed_def
      frozen_def on_version_def split: if_splits)

lemma discarded_version [simp]:
  "rw_current_weight_version (report_discarded_samples c k w) = rw_current_weight_version w"
  using live.discarded_samples [of w "rw_current_weight_version w"] by simp

lemma feed_prompts_inv:
  assumes "stream_inv s"
  shows "keeps_via snd stream_inv (feed_prompts env c answer s)"
proof -
  have w: "stream_inv (s\<lparr>as_worker := (as_worker s)\<lparr>rw_prompt_queue := q\<rparr>\<rparr>)"
    "stream_inv (s\<lparr>as_worker := report_discarded_samples c k ((as_worker s)\<lparr>rw_prompt_queue := q\<rparr>)\<rparr>)" for q k
    using assms by (auto intro: worker_inv)
  have put: "stream_inv (s\<lparr>as_worker := (as_worker s)\<lparr>rw_prompt_queue := q\<rparr>, as_sched := d\<rparr>)"
    if "put_rollout_batch ts (as_sched s) = Inr d" for q ts d
    using that put_batch_inv(2) [OF w(1) [of q], of ts d] by simp
  have refused: "stream_inv (s\<lparr>as_worker := (as_worker s)\<lparr>rw_prompt_queue := q\<rparr>, as_sched := d\<rparr>)"
    if "put_rollout_batch ts (as_sched s) = Inl (e, d)" for q ts e d
    using put_batch_inv(1) [OF assms that] w(1) [of q] by simp
  show ?thesis
    using assms w put refused
    by (auto simp: feed_prompts_def Let_def split: sum.splits list.splits version_decision.splits)
qed

lemma collect_results_inv:
  assumes "stream_inv s"
  shows "keeps stream_inv (collect_results env c s)"
proof -
  let ?s = "s\<lparr>as_sched := (as_sched s)\<lparr>ts_complete_queue := []\<rparr>\<rparr>"
  have s: "stream_inv ?s"
  proof -
    have "quiet (d\<lparr>ts_complete_queue := []\<rparr>) = quiet d" "closed (d\<lparr>ts_complete_queue := []\<rparr>) = closed d"
      for d :: "rollout_result scheduler"
      by (simp_all add: quiet_def closed_def)
    then have "fence_ok (as_sched ?s)" using assms by (auto simp: stream_inv_def async_inv_def fence_ok_def)
    then show ?thesis using assms by (auto simp: stream_inv_def async_inv_def frozen_def on_version_def)
  qed
  have "keeps stream_inv (on_worker (filter_and_report env c ps rs) ?s)" for ps rs
    using s by (intro on_worker_inv live.filtered) simp_all
  then show ?thesis using s by (auto simp: collect_results_def get_all_def Let_def)
qed

lemma stream_generation_step_inv:
  assumes "stream_inv s"
  shows "keeps stream_inv (stream_generation_step env c i s)"
proof -
  have consume: "keeps stream_inv (update_consume_end s)" if "stream_inv s" for s
    using that by (auto simp: update_consume_end_def intro!: on_worker_inv split: sum.splits)
  have feed: "keeps stream_inv (feed_step env c (si_answer i) s)" if "stream_inv s" for s
  proof -
    have "keeps stream_inv (bindR (feed_prompts env c (si_answer i) s) (\<lambda>((n, is_end), s).
        Inr (if is_end then s\<lparr>as_worker := (as_worker s)\<lparr>rw_state := set_prompt_fetch_end (rw_state (as_worker s))\<rparr>\<rparr> else s)))"
      by (rule keeps_bind_via [OF feed_prompts_inv [OF that]]) (auto intro: worker_inv split: prod.splits)
    then show ?thesis using that by (simp add: feed_step_def)
  qed
  have send: "keeps stream_inv (on_worker (send_end_signal env c (si_fetched i) (si_ack i)) s)" if "stream_inv s" for s
    using that by (intro on_worker_inv send_end_signal_version)
  have "keeps stream_inv (bindR (update_consume_end s) (\<lambda>s. bindR (feed_step env c (si_answer i) s) (\<lambda>s.
      bindR (collect_results env c s) (\<lambda>s.
        if prompt_consume_end (rw_state (as_worker s)) \<and> wc_should_report c
        then on_worker (send_end_signal env c (si_fetched i) (si_ack i)) s else Inr s))))"
    using assms consume feed collect_results_inv send by (intro keeps_bindR) auto
  then show ?thesis
    using assms by (auto simp: stream_generation_step_def raise_if_failed_def)
qed

lemma stream_pass_inv:
  assumes "stream_inv s"
  shows "keeps stream_inv (stream_pass env c i s)"
proof -
  have r: "keeps_via snd (\<lambda>w. rw_current_weight_version w = rw_current_weight_version (as_worker s))
      (report_rollouts env c False (si_ready i) (si_fetched i) (as_worker s))"
    by (rule live.rollouts_reported) simp
  show ?thesis
  proof (cases "report_rollouts env c False (si_ready i) (si_fetched i) (as_worker s)")
    case (Inl ew)
    then show ?thesis
      using r assms by (cases ew) (auto simp: stream_pass_def intro: worker_inv)
  next
    case (Inr x)
    obtain ps v st e w where x: "x = ((ps, v, st, e), w)" by (metis surj_pair)
    then have "stream_inv (s\<lparr>as_worker := w\<rparr>)" using r Inr assms by (auto intro: worker_inv)
    then show ?thesis
      using Inr x assms stream_generation_step_inv by (simp add: stream_pass_def)
  qed
qed

lemma settle_inv: "keeps stream_inv r \<Longrightarrow> async_inv (settle r)"
  by (auto simp: settle_def stream_inv_def async_inv_def split: sum.splits)

lemma async_inv_step:
  assumes "async_inv s" "\<not> wc_isolates_generation c"
  shows "async_inv (async_step env c ev s)"
  using assms async_inv_loop async_inv_take async_inv_leave async_inv_timeout async_inv_finish
    stream_pass_inv [of s env c]
  by (auto simp: async_step_def stream_inv_def intro: settle_inv split: async_event.splits control.splits)

lemma async_inv_run: "\<not> wc_isolates_generation c \<Longrightarrow> async_inv s \<Longrightarrow> async_inv (async_run env c evs s)"
  by (induction evs arbitrary: s) (simp_all add: async_run_def async_inv_step)

section \<open>What the fence guarantees\<close>

text \<open>C6: In every state an asynchronous worker without leases can reach, whatever the event loop,
  the commands and the streaming passes do: while the control thread rewrites the live
  parameters, the scheduler admits and starts nothing, has nothing queued, and no generation is
  running.\<close>

theorem weights_written_quiet:
  assumes "\<not> wc_isolates_generation c"
    and "as_control (async_run env c evs (init_async c)) = Writing cmd"
  shows "ts_paused (as_sched (async_run env c evs (init_async c)))
    \<and> \<not> ts_accepting (as_sched (async_run env c evs (init_async c)))
    \<and> ts_task_queue (as_sched (async_run env c evs (init_async c))) = []
    \<and> unfinished (as_sched (async_run env c evs (init_async c))) = []"
proof -
  have "async_inv (async_run env c evs (init_async c))"
    using assms(1) async_inv_init by (rule async_inv_run)
  then show ?thesis using assms(2) by (simp add: async_inv_def quiet_def)
qed

text \<open>C7: In every reachable state of such a worker, a generation that is running started on the
  version that is still live, and its payload carries that version; and a finished rollout
  carries the version it was generated on, so that the check of the collecting step never
  fails.\<close>

theorem generations_on_live_version:
  assumes "\<not> wc_isolates_generation c" "s = async_run env c evs (init_async c)"
  shows "((t, Generating v) \<in> set (ts_active (as_sched s)) \<longrightarrow>
      v = rw_current_weight_version (as_worker s) \<and> pl_weight_version (rt_payload t) = v)
    \<and> (cr \<in> set (ts_complete_queue (as_sched s)) \<longrightarrow> pl_weight_version (cr_payload cr) = cr_behavior_weight_version cr)"
proof -
  have "async_inv s" unfolding assms(2) using assms(1) async_inv_init by (rule async_inv_run)
  then show ?thesis by (auto simp: async_inv_def frozen_def on_version_def)
qed

section \<open>The fence closes\<close>

lemma async_run_append: "async_run env c (xs @ ys) s = async_run env c ys (async_run env c xs s)"
  by (simp add: async_run_def)

lemma async_run_loop:
  "async_run env c (map EventLoop evs) s =
     s\<lparr>as_sched := loop_run (stamp_version (rw_current_weight_version (as_worker s))) evs (as_sched s)\<rparr>"
  by (induction evs arbitrary: s) (simp_all add: async_run_def async_step_def loop_run_def)

text \<open>A control thread that waits for the drain gets through: when the event loop, with room
  for at least one task, starts and finishes what it runs, then after one round more than there
  are queued tasks the drain is acknowledged and the control thread rewrites the weights.\<close>

theorem fence_drains:
  assumes "as_control s = Fencing cmd" "draining (as_sched s)" "0 < ts_max_concurrent_requests (as_sched s)"
    and "n = nat (ts_max_concurrent_requests (as_sched s))" "k = length (ts_task_queue (as_sched s)) + 1"
  shows "as_control (async_run env c (map EventLoop (drain_rounds res n k) @ [LeaveFence]) s) = Writing cmd
    \<and> quiet (as_sched (async_run env c (map EventLoop (drain_rounds res n k) @ [LeaveFence]) s))"
proof -
  let ?stamp = "stamp_version (rw_current_weight_version (as_worker s))"
  let ?d = "loop_run ?stamp (drain_rounds res n k) (as_sched s)"
  have d: "quiet ?d" "ts_quiesce ?d = NotQuiescing"
    using drain_rounds_quiet [OF assms(2,3), of ?stamp res] assms(4,5) by simp_all
  have "async_run env c (map EventLoop (drain_rounds res n k) @ [LeaveFence]) s
      = leave_fence (s\<lparr>as_sched := ?d\<rparr>)"
    using assms(1) by (simp add: async_run_append async_run_loop) (simp add: async_run_def async_step_def)
  then show ?thesis using d assms(1) by (simp add: leave_fence_def)
qed

section \<open>After the end of the prompts\<close>

lemma report_rollouts_empty:
  "report_rollouts env c block ready f w = Inr ((ps, v, s, True), w') \<Longrightarrow> rd_task_queue (rw_rewards w') = []"
proof (induction env c block ready f w rule: report_rollouts.induct)
  case (1 env c block ready f w)
  let ?dq = "dequeue_rewards_cal (we_rewards env) (block \<or> (ready \<noteq> [] \<and> hd ready)) f (rw_rewards w)"
  have none: "rd_task_queue d = []" if "?dq = Inr ((pso, u, t, True), d)" for pso u t d
    using that by (auto simp: dequeue_rewards_cal_def split: list.splits reward_task.splits sum.splits prod.splits if_splits)
  have rem: "pso = None \<or> \<not> e" if "?dq = Inr ((pso, u, t, e), d)" for pso u t e d
    using that by (auto simp: dequeue_rewards_cal_def split: list.splits reward_task.splits sum.splits prod.splits if_splits)
  show ?case
  proof (cases ?dq)
    case (Inl ed)
    then show ?thesis using "1.prems" by (subst (asm) report_rollouts.simps) (auto split: prod.splits)
  next
    case (Inr r)
    obtain pso u t e d where r: "r = ((pso, u, t, e), d)" by (metis surj_pair)
    show ?thesis
    proof (cases pso)
      case None
      then show ?thesis using Inr r none "1.prems" by (subst (asm) report_rollouts.simps) auto
    next
      case (Some qs)
      then have ne: "\<not> e" using rem Inr r by blast
      show ?thesis
      proof (cases "post_rewards env c qs (w\<lparr>rw_rewards := d\<rparr>)")
        case (Inl ew)
        then show ?thesis
          using Inr r Some ne "1.prems" by (cases ew) (subst (asm) report_rollouts.simps, simp split: if_splits)
      next
        case w'': (Inr w'')
        then show ?thesis
          using Inr r Some ne "1.prems" "1.IH" [of r "(pso, u, t, e)" d pso "(u, t, e)" qs u "(t, e)" t e w'']
          by (subst (asm) report_rollouts.simps) (simp split: if_splits)
      qed
    qed
  qed
qed

lemma send_end_signal_Inr:
  assumes "send_end_signal env c f ack w = Inr w'" "\<not> rw_rollout_end_acknowledged w"
  shows "rd_task_queue (rw_rewards w') = []" and "rw_state w' = rw_state w"
proof -
  have r: "keeps_via snd (\<lambda>u. rw_state u = rw_state w) (report_rollouts env c True [] f w)"
    by (rule flags.rollouts_reported) simp
  obtain x where x: "report_rollouts env c True [] f w = Inr x"
    using assms by (auto simp: send_end_signal_def)
  obtain ps v s e u where u: "x = ((ps, v, s, e), u)" by (metis surj_pair)
  have e: "e" using assms x u by (auto simp: send_end_signal_def split: if_splits)
  have w': "rw_rewards w' = rw_rewards u \<and> rw_state w' = rw_state u"
    using assms x u by (auto simp: send_end_signal_def Let_def post_def split: if_splits)
  show "rd_task_queue (rw_rewards w') = []"
    using report_rollouts_empty [of env c True "[]" f w ps v s u] x u e w' by simp
  show "rw_state w' = rw_state w" using r x u w' by simp
qed

lemma collect_results_Inr:
  assumes "collect_results env c s = Inr t"
  shows "as_sched t = (as_sched s)\<lparr>ts_complete_queue := []\<rparr>" and "rw_state (as_worker t) = rw_state (as_worker s)"
    and "rw_rollout_end_acknowledged (as_worker t) = rw_rollout_end_acknowledged (as_worker s)"
proof -
  let ?ps = "map cr_payload (ts_complete_queue (as_sched s))" and ?rs = "map cr_result (ts_complete_queue (as_sched s))"
  have st: "keeps (\<lambda>u. rw_state u = rw_state (as_worker s)) (filter_and_report env c ?ps ?rs (as_worker s))"
    by (rule flags.filtered) simp
  show "as_sched t = (as_sched s)\<lparr>ts_complete_queue := []\<rparr>"
    using assms by (auto simp: collect_results_def get_all_def on_worker_def Let_def split: if_splits sum.splits)
  show "rw_state (as_worker t) = rw_state (as_worker s)"
    using assms st by (auto simp: collect_results_def get_all_def on_worker_def Let_def split: if_splits sum.splits)
  show "rw_rollout_end_acknowledged (as_worker t) = rw_rollout_end_acknowledged (as_worker s)"
    using assms acknowledged.filtered [of "as_worker s" "rw_rollout_end_acknowledged (as_worker s)" env c ?ps ?rs]
    by (auto simp: collect_results_def get_all_def on_worker_def Let_def split: if_splits sum.splits)
qed

text \<open>A worker that has nothing left to do and does not know it yet.\<close>

definition finished_stream :: "async_state \<Rightarrow> bool" where
  "finished_stream s \<longleftrightarrow> weight_synced (rw_state (as_worker s)) \<and> prompt_fetch_end (rw_state (as_worker s))
     \<and> is_all_tasks_completed (as_sched s) \<and> ts_fatal_error (as_sched s) = None
     \<and> rd_task_queue (rw_rewards (as_worker s)) = []"

lemma stream_pass_finished:
  assumes "finished_stream s"
  shows "stream_pass env c i s = stream_generation_step env c i s"
proof -
  have "s\<lparr>as_worker := as_worker s\<rparr> = s" by simp
  then show ?thesis
    using assms by (simp add: stream_pass_def finished_stream_def report_rollouts_idle)
qed

text \<open>Once an asynchronous worker has recorded that all prompts are consumed and posted its
  end signal, its next pass raises an \<open>AssertionError\<close>: the streaming step records the end
  again, on every pass, and \<open>set_prompt_consume_end\<close> does not allow it twice.\<close>

theorem second_end_raises:
  assumes "finished_stream s" "wc_should_report c"
    and "\<not> prompt_consume_end (rw_state (as_worker s))" "\<not> rw_rollout_end_acknowledged (as_worker s)"
    and "stream_pass env c i s = Inr s'"
  shows "\<exists>s''. stream_pass env c j s' = Inl (AssertionError, s'')"
proof -
  let ?w = "(as_worker s)\<lparr>rw_state := rw_state (as_worker s) OR PROMPT_CONSUME_END\<rparr>"
  have u: "update_consume_end s = Inr (s\<lparr>as_worker := ?w\<rparr>)"
    using assms by (simp add: update_consume_end_def finished_stream_def is_empty_def on_worker_def set_prompt_consume_end_def)
  have step: "stream_generation_step env c i s = Inr s'"
    using assms stream_pass_finished by simp
  then obtain t where t: "collect_results env c (s\<lparr>as_worker := ?w\<rparr>) = Inr t"
    and e: "on_worker (send_end_signal env c (si_fetched i) (si_ack i)) t = Inr s'"
  proof -
    have "feed_step env c (si_answer i) (s\<lparr>as_worker := ?w\<rparr>) = Inr (s\<lparr>as_worker := ?w\<rparr>)"
      using assms(1) by (simp add: feed_step_def finished_stream_def)
    then obtain t where t: "collect_results env c (s\<lparr>as_worker := ?w\<rparr>) = Inr t"
      and "(if prompt_consume_end (rw_state (as_worker t)) \<and> wc_should_report c
          then on_worker (send_end_signal env c (si_fetched i) (si_ack i)) t else Inr t) = Inr s'"
      using step u assms(1) by (auto simp: stream_generation_step_def raise_if_failed_def finished_stream_def)
    then show thesis using that assms(2) collect_results_Inr(2) [OF t] by simp
  qed
  have st: "rw_state (as_worker t) = rw_state ?w" "\<not> rw_rollout_end_acknowledged (as_worker t)"
    "as_sched t = (as_sched s)\<lparr>ts_complete_queue := []\<rparr>"
    using collect_results_Inr [OF t] assms(4) by simp_all
  obtain w' where w': "send_end_signal env c (si_fetched i) (si_ack i) (as_worker t) = Inr w'" "s' = t\<lparr>as_worker := w'\<rparr>"
    using e by (auto simp: on_worker_def split: sum.splits)
  have over: "finished_stream s'" "prompt_consume_end (rw_state (as_worker s'))"
    using send_end_signal_Inr [OF w'(1) st(2)] st assms(1) w'(2)
    by (simp_all add: finished_stream_def is_all_tasks_completed_def)
  have "update_consume_end s' = Inl (AssertionError, s')"
    using over by (simp add: update_consume_end_def finished_stream_def is_empty_def on_worker_def set_prompt_consume_end_def)
  then have "stream_generation_step env c j s' = Inl (AssertionError, s')"
    using over by (simp add: stream_generation_step_def raise_if_failed_def finished_stream_def)
  then show ?thesis using stream_pass_finished [OF over(1)] by simp
qed

section \<open>Instances\<close>

text \<open>Two transactions: the first brings version 1; then a prompt is admitted and starts to
  generate, and the second P2R command waits for it.\<close>

definition sample_unicast :: "int \<Rightarrow> bool \<Rightarrow> command_body" where
  "sample_unicast st trainable = PolicyToRolloutUnicast \<lparr>p2r_src = ''p0'', p2r_dst = ''r0'', p2r_src_size = 1,
     p2r_dst_size = 1, p2r_do_weight_sync_check = False, p2r_trainable_only = trainable,
     p2r_weight_step = Some st, p2r_total_steps = Some 9\<rparr>"

definition sample_stream :: "(rl_payload list \<times> bool) \<Rightarrow> stream_input" where
  "sample_stream answer = \<lparr>si_ready = [], si_fetched = (\<lambda>u. None), si_answer = answer, si_ack = True\<rparr>"

definition first_fence :: "async_event list" where
  "first_fence = [TakeCommand (sample_unicast 1 False), EventLoop LoopDrain, LeaveFence]"

definition generating_run :: "async_event list" where
  "generating_run = first_fence @ [FinishWrite, TakeCommand sample_broadcast, FinishWrite,
     StreamPass (sample_stream ([default_payload\<lparr>pl_prompt_idx := 0, pl_weight_version := 1\<rparr>], False)),
     EventLoop LoopIterate, EventLoop (LoopBegin 0)]"

lemma first_fence_writes:
  "as_control (async_run sample_worker_env sample_worker_config first_fence (init_async sample_worker_config))
     = Writing (sample_unicast 1 False)"
  by code_simp

lemma generating_run_generates:
  "map snd (ts_active (as_sched (async_run sample_worker_env sample_worker_config generating_run
     (init_async sample_worker_config)))) = [Generating 1]"
  by code_simp

theorem weights_written_quiet_witness:
  "ts_paused (as_sched (async_run sample_worker_env sample_worker_config first_fence (init_async sample_worker_config)))
   \<and> as_control (async_run sample_worker_env sample_worker_config first_fence (init_async sample_worker_config))
     = Writing (sample_unicast 1 False)"
  using weights_written_quiet [OF _ first_fence_writes] first_fence_writes
  by (simp add: sample_worker_config_def)

definition generating_state :: async_state where
  "generating_state = async_run sample_worker_env sample_worker_config generating_run (init_async sample_worker_config)"

theorem generations_on_live_version_witness:
  "rw_current_weight_version (as_worker generating_state) = 1
   \<and> pl_weight_version (rt_payload (fst (hd (ts_active (as_sched generating_state))))) = 1"
proof -
  let ?d = "as_sched generating_state"
  have "ts_active ?d \<noteq> []" "snd (hd (ts_active ?d)) = Generating 1"
    using generating_run_generates by (auto simp: generating_state_def)
  then have "(fst (hd (ts_active ?d)), Generating 1) \<in> set (ts_active ?d)"
    by (metis list.set_sel(1) prod.collapse)
  then show ?thesis
    using generations_on_live_version [OF _ generating_state_def]
    by (simp add: sample_worker_config_def)
qed

definition waiting_state :: async_state where
  "waiting_state = async_step sample_worker_env sample_worker_config (TakeCommand (sample_unicast 2 True)) generating_state"

lemma waiting_state_fenced:
  "as_control waiting_state = Fencing (sample_unicast 2 True) \<and> draining (as_sched waiting_state)
   \<and> ts_max_concurrent_requests (as_sched waiting_state) = 2 \<and> ts_task_queue (as_sched waiting_state) = []"
  by code_simp

theorem fence_drains_witness:
  "as_control (async_run sample_worker_env sample_worker_config
     (map EventLoop (drain_rounds (\<lambda>i. sample_result) 2 1) @ [LeaveFence]) waiting_state) = Writing (sample_unicast 2 True)"
  using fence_drains [of waiting_state "sample_unicast 2 True" 2 1 sample_worker_env sample_worker_config "\<lambda>i. sample_result"]
    waiting_state_fenced by simp

definition finished_state :: async_state where
  "finished_state = (init_async sample_worker_config)\<lparr>as_worker := sample_ready_worker
     \<lparr>rw_state := set_prompt_fetch_end (set_weight_synced UNINITIALIZED)\<rparr>\<rparr>"

lemma finished_state_pass:
  "(case stream_pass sample_worker_env sample_worker_config (sample_stream ([], True)) finished_state of
     Inl e \<Rightarrow> False | Inr s \<Rightarrow> PostEnd \<in> set (rw_posts (as_worker s)))"
  by code_simp

theorem second_end_raises_witness:
  "\<exists>s'. stream_pass sample_worker_env sample_worker_config (sample_stream ([], True))
     (projr (stream_pass sample_worker_env sample_worker_config (sample_stream ([], True)) finished_state))
     = Inl (AssertionError, s')"
proof -
  obtain s where s: "stream_pass sample_worker_env sample_worker_config (sample_stream ([], True)) finished_state = Inr s"
    using finished_state_pass by (auto split: sum.splits)
  have "finished_stream finished_state"
    by (simp add: finished_stream_def finished_state_def init_async_def init_scheduler_def
        is_all_tasks_completed_def sample_worker_defs)
  then show ?thesis
    using second_end_raises [OF _ _ _ _ s] s by (simp add: finished_state_def init_async_def sample_worker_defs)
qed

end
