(* ===== verification/Weight_Sync.thy ===== *)
theory Weight_Sync
  imports Rollout_Loop
begin

text \<open>
  Buffered weight synchronisation (cosmos_rl/rollout/worker/weight_sync.py): the background
  thread that takes P2R and R2R commands from a priority queue and writes into a buffer, the copy
  of the buffer into the live model before a generation, the actions it leaves to the main
  thread, the fence before STOP, and the Redis barrier of a broadcast. Weights are values of an
  abstract type; what a transfer delivers, and whether the queue and the stream drain in time,
  are inputs. Streams and events are not modelled: a transfer is a step.
\<close>

section \<open>The queue\<close>

datatype wst_command = P2R p2r_args | R2R r2r_args

text \<open>An entry of the \<open>PriorityQueue\<close>: priority, sequence number, command. The queue is kept in
  the order in which its entries are taken.\<close>

type_synonym wst_entry = "nat \<times> nat \<times> wst_command"

definition entry_before :: "wst_entry \<Rightarrow> wst_entry \<Rightarrow> bool" where
  "entry_before e e' \<longleftrightarrow> fst e < fst e' \<or> fst e = fst e' \<and> fst (snd e) < fst (snd e')"

fun pq_put :: "wst_entry \<Rightarrow> wst_entry list \<Rightarrow> wst_entry list" where
  "pq_put e [] = [e]"
| "pq_put e (x # xs) = (if entry_before e x then e # x # xs else x # pq_put e xs)"

section \<open>State\<close>

record wst =
  ws_queue :: "wst_entry list"
  ws_seq :: nat
  ws_stop :: bool
  ws_fence_failed :: bool
  ws_fenced_seq :: int
  ws_task_failed :: bool
  ws_max_qdepth :: nat
  ws_executed :: nat

definition init_wst :: wst where
  "init_wst = \<lparr>ws_queue = [], ws_seq = 0, ws_stop = False, ws_fence_failed = False, ws_fenced_seq = -1,
     ws_task_failed = False, ws_max_qdepth = 0, ws_executed = 0\<rparr>"

record 'm buffered_worker =
  bw_worker :: rollout_worker
  bw_is_async :: bool
  bw_wst :: wst
  bw_buffer :: 'm
  bw_live :: 'm
  bw_buffer_version :: nat
  bw_buffer_synced_version :: nat
  bw_pending_validation_step :: "int option"
  bw_pending_shutdown :: bool

text \<open>\<open>create_buffer_model\<close> and \<open>ensure_wst\<close>: the buffer starts as a copy of the live model.\<close>

definition init_buffered :: "bool \<Rightarrow> 'm \<Rightarrow> rollout_worker \<Rightarrow> 'm buffered_worker" where
  "init_buffered is_async m w = \<lparr>bw_worker = w, bw_is_async = is_async, bw_wst = init_wst, bw_buffer = m, bw_live = m, bw_buffer_version = 0,
     bw_buffer_synced_version = 0, bw_pending_validation_step = None, bw_pending_shutdown = False\<rparr>"

section \<open>Enqueuing\<close>

definition enqueue_command :: "nat \<Rightarrow> wst_command \<Rightarrow> wst \<Rightarrow> wst" where
  "enqueue_command prio cmd t =
     (let seq = ws_seq t + 1; q = pq_put (prio, seq, cmd) (ws_queue t) in
      t\<lparr>ws_seq := seq, ws_queue := q, ws_max_qdepth := max (ws_max_qdepth t) (length q)\<rparr>)"

definition enqueue_p2r :: "p2r_args \<Rightarrow> wst \<Rightarrow> wst" where
  "enqueue_p2r a = enqueue_command 0 (P2R a)"

definition enqueue_r2r :: "r2r_args \<Rightarrow> wst \<Rightarrow> wst" where
  "enqueue_r2r a = enqueue_command 1 (R2R a)"

text \<open>The routing in \<open>query_command_from_controller\<close>, once the thread exists; the commands that
  go to the main thread are returned.\<close>

definition route_command :: "worker_config \<Rightarrow> command_body \<Rightarrow> wst \<Rightarrow> wst \<times> command_body list" where
  "route_command c cmd t =
     (case cmd of
        PolicyToRolloutUnicast a \<Rightarrow> (if p2r_dst a = wc_replica_name c then enqueue_p2r a t else t, [])
      | RolloutToRolloutBroadcast a \<Rightarrow> (enqueue_r2r a t, [])
      | _ \<Rightarrow> (t, [cmd]))"

section \<open>The background thread\<close>

definition with_worker :: "(rollout_worker \<Rightarrow> rollout_worker outcome) \<Rightarrow> 'm buffered_worker \<Rightarrow> 'm buffered_worker outcome" where
  "with_worker f s = (case f (bw_worker s) of
     Inl (e, w) \<Rightarrow> Inl (e, s\<lparr>bw_worker := w\<rparr>) | Inr w \<Rightarrow> Inr (s\<lparr>bw_worker := w\<rparr>))"

definition count_executed :: "'m buffered_worker \<Rightarrow> 'm buffered_worker" where
  "count_executed s = s\<lparr>bw_wst := (bw_wst s)\<lparr>ws_executed := ws_executed (bw_wst s) + 1\<rparr>\<rparr>"

text \<open>\<open>_execute_p2r\<close>; \<open>m\<close> is what the receive writes into the buffer.\<close>

definition execute_p2r :: "p2r_args \<Rightarrow> 'm \<Rightarrow> 'm buffered_worker \<Rightarrow> 'm buffered_worker outcome" where
  "execute_p2r a m s =
     bindR (with_worker (execute_p2r_recv (bw_is_async s) a) s) (\<lambda>s.
     Inr (count_executed (s\<lparr>bw_buffer := m, bw_buffer_version := bw_buffer_version s + 1\<rparr>)))"

text \<open>The checks of \<open>do_nccl_broadcast_grouped\<close>.\<close>

definition nccl_broadcast_grouped :: "string \<Rightarrow> rollout_worker \<Rightarrow> rollout_worker outcome" where
  "nccl_broadcast_grouped src w =
     (if rw_rank_in_rollout_repicas w < 0 then Inl (AssertionError, w)
      else if rw_replica_name_to_rank w = [] then Inl (AssertionError, w)
      else if dict_get (rw_replica_name_to_rank w) src = None then Inl (KeyError, w)
      else Inr w)"

text \<open>The validation bookkeeping of a broadcast.\<close>

definition mark_validation :: "worker_config \<Rightarrow> r2r_args \<Rightarrow> 'm buffered_worker \<Rightarrow> 'm buffered_worker outcome" where
  "mark_validation c a s =
     (case r2r_weight_step a of
        None \<Rightarrow> Inr s
      | Some st \<Rightarrow>
          if st < 0 then Inr s
          else
            case should_do_validation c st (r2r_total_steps a) of
              Inl e \<Rightarrow> Inl (e, s)
            | Inr due \<Rightarrow>
                Inr (if due then s\<lparr>bw_worker := (bw_worker s)\<lparr>rw_current_step := Some st, rw_validation_flag := True\<rparr>,
                       bw_pending_validation_step := Some st\<rparr> else s))"

text \<open>\<open>_execute_r2r\<close>; \<open>passed\<close> is the result of the barrier and \<open>m\<close> what the source has in its
  buffer. The source of a broadcast keeps its own buffer.\<close>

definition execute_r2r ::
  "worker_config \<Rightarrow> r2r_args \<Rightarrow> bool \<Rightarrow> 'm \<Rightarrow> 'm buffered_worker \<Rightarrow> 'm buffered_worker outcome" where
  "execute_r2r c a passed m s =
     (let alone = length (r2r_dsts a) \<le> 1 in
      if \<not> alone \<and> \<not> passed then Inr s
      else
        bindR (if alone then Inr s else with_worker (nccl_broadcast_grouped (r2r_src a)) s) (\<lambda>s.
        let s = count_executed (s\<lparr>bw_buffer := (if alone \<or> r2r_src a = wc_replica_name c then bw_buffer s else m),
              bw_buffer_version := bw_buffer_version s + 1\<rparr>);
            s = (case r2r_weight_step a of None \<Rightarrow> s
              | Some st \<Rightarrow> s\<lparr>bw_worker := (bw_worker s)\<lparr>rw_current_weight_version := st\<rparr>\<rparr>) in
        bindR (mark_validation c a s) (\<lambda>s.
        let s = (if replica_should_stop (RolloutToRolloutBroadcast a) then s\<lparr>bw_pending_shutdown := True\<rparr> else s) in
        Inr (s\<lparr>bw_worker := (bw_worker s)\<lparr>rw_state := set_weight_synced (rw_state (bw_worker s))\<rparr>\<rparr>))))"

text \<open>One turn of \<open>_run\<close>: an exception marks the thread as failed and the loop goes on.\<close>

definition wst_turn :: "worker_config \<Rightarrow> bool \<Rightarrow> 'm \<Rightarrow> 'm buffered_worker \<Rightarrow> 'm buffered_worker" where
  "wst_turn c passed m s =
     (if ws_stop (bw_wst s) then s
      else
        case ws_queue (bw_wst s) of
          [] \<Rightarrow> s
        | (prio, seq, cmd) # q \<Rightarrow>
            let s = s\<lparr>bw_wst := (bw_wst s)\<lparr>ws_queue := q\<rparr>\<rparr> in
            case (case cmd of P2R a \<Rightarrow> execute_p2r a m s | R2R a \<Rightarrow> execute_r2r c a passed m s) of
              Inl (e, s) \<Rightarrow> s\<lparr>bw_wst := (bw_wst s)\<lparr>ws_task_failed := True\<rparr>\<rparr>
            | Inr s \<Rightarrow> s)"

section \<open>The main thread\<close>

text \<open>\<open>sync_buffer_to_live\<close>, and \<open>_call_rollout_generation\<close> in a buffered mode: the copy, then
  the stamp of the live version.\<close>

definition sync_buffer_to_live :: "'m buffered_worker \<Rightarrow> 'm buffered_worker" where
  "sync_buffer_to_live s =
     (if bw_buffer_version s \<le> bw_buffer_synced_version s then s
      else s\<lparr>bw_live := bw_buffer s, bw_buffer_synced_version := bw_buffer_version s\<rparr>)"

definition begin_generation :: "rl_payload list \<Rightarrow> 'm buffered_worker \<Rightarrow> rl_payload list \<times> 'm buffered_worker" where
  "begin_generation ps s =
     (let s = sync_buffer_to_live s in (map (stamp_version (rw_current_weight_version (bw_worker s))) ps, s))"

text \<open>\<open>process_wst_deferred_actions\<close>.\<close>

definition validate_if_due ::
  "worker_env \<Rightarrow> worker_config \<Rightarrow> fetch \<Rightarrow> validation_round list \<Rightarrow> 'm buffered_worker \<Rightarrow> 'm buffered_worker outcome" where
  "validate_if_due env c f rounds s =
     (if rw_validation_flag (bw_worker s) then with_worker (do_validation env c f rounds) s else Inr s)"

definition process_wst_deferred_actions ::
  "worker_env \<Rightarrow> worker_config \<Rightarrow> fetch \<Rightarrow> validation_round list \<Rightarrow> 'm buffered_worker \<Rightarrow> 'm buffered_worker outcome" where
  "process_wst_deferred_actions env c f rounds s =
     bindR (if bw_pending_validation_step s \<noteq> None
         then validate_if_due env c f rounds (s\<lparr>bw_pending_validation_step := None\<rparr>) else Inr s) (\<lambda>s.
     if \<not> bw_pending_shutdown s then Inr s
     else
       bindR (validate_if_due env c f rounds (s\<lparr>bw_pending_shutdown := False\<rparr>)) (\<lambda>s.
       Inr (s\<lparr>bw_worker := (bw_worker s)\<lparr>rw_shutdown := True\<rparr>\<rparr>)))"

section \<open>The fence\<close>

text \<open>\<open>fence\<close>: \<open>queue_drained\<close> and \<open>stream_drained\<close> say whether the two waits end in time. A
  fence that failed once fails ever after.\<close>

definition wst_fence :: "bool \<Rightarrow> bool \<Rightarrow> wst \<Rightarrow> bool \<times> wst" where
  "wst_fence queue_drained stream_drained t =
     (if ws_fence_failed t then (False, t)
      else if ws_fenced_seq t = int (ws_seq t) \<and> ws_queue t = [] then (True, t)
      else
        let result = queue_drained \<and> stream_drained \<and> \<not> ws_task_failed t in
        (result, t\<lparr>ws_fence_failed := \<not> result, ws_fenced_seq := int (ws_seq t)\<rparr>))"

definition wst_stop :: "bool \<Rightarrow> bool \<Rightarrow> bool \<Rightarrow> bool \<Rightarrow> wst \<Rightarrow> bool \<times> wst" where
  "wst_stop queue_drained stream_drained exited post_drained t =
     (let (fenced, t) = wst_fence queue_drained stream_drained t in
      (fenced \<and> exited \<and> post_drained, t\<lparr>ws_stop := True\<rparr>))"

section \<open>The barrier of a broadcast\<close>

text \<open>The number of participants, and when the barrier is skipped.\<close>

definition barrier_world_size :: "int option \<Rightarrow> (string, int) dict \<Rightarrow> int \<Rightarrow> int" where
  "barrier_world_size expected ranks cached =
     (case expected of
        Some n \<Rightarrow> if 0 < n then n else if ranks \<noteq> [] then int (length ranks) else cached
      | None \<Rightarrow> if ranks \<noteq> [] then int (length ranks) else cached)"

definition barrier_skipped :: "bool \<Rightarrow> int \<Rightarrow> bool" where
  "barrier_skipped has_redis world_size \<longleftrightarrow> \<not> has_redis \<or> world_size \<le> 1"

text \<open>Where a worker is in \<open>r2r_barrier\<close>: not called yet, counted, subscribed to the channel,
  listening, or returned.\<close>

datatype barrier_pc = Outside | Counted nat | Subscribed | Listening | Passed | Aborted

text \<open>The counter of the key in Redis, the locations, and who has received the go signal.\<close>

record barrier =
  br_count :: nat
  br_pcs :: "barrier_pc list"
  br_inbox :: "bool list"

definition init_barrier :: "nat \<Rightarrow> nat \<Rightarrow> barrier" where
  "init_barrier k n = \<lparr>br_count = k, br_pcs = replicate n Outside, br_inbox = replicate n False\<rparr>"

text \<open>An error of Redis ends the call with \<open>True\<close>, as the timeout does.\<close>

datatype barrier_event = Advance nat | TimedOut nat | StopRequested nat | RedisFailed nat

definition go_to :: "nat \<Rightarrow> barrier_pc \<Rightarrow> barrier \<Rightarrow> barrier" where
  "go_to i pc b = b\<lparr>br_pcs := (br_pcs b)[i := pc]\<rparr>"

text \<open>The next Redis call of worker \<open>i\<close>, and what it does with the answer. A published signal
  reaches who is subscribed at that moment.\<close>

definition publish_go :: "barrier \<Rightarrow> barrier" where
  "publish_go b = b\<lparr>br_inbox := map (\<lambda>(pc, got). got \<or> pc = Subscribed \<or> pc = Listening) (zip (br_pcs b) (br_inbox b))\<rparr>"

definition barrier_advance :: "nat \<Rightarrow> nat \<Rightarrow> barrier \<Rightarrow> barrier" where
  "barrier_advance N i b =
     (case br_pcs b ! i of
        Outside \<Rightarrow> go_to i (Counted (br_count b + 1)) (b\<lparr>br_count := br_count b + 1\<rparr>)
      | Counted k \<Rightarrow>
          if N \<le> k then go_to i Passed (publish_go b)
          else go_to i Subscribed (b\<lparr>br_inbox := (br_inbox b)[i := False]\<rparr>)
      | Subscribed \<Rightarrow> go_to i (if N \<le> br_count b then Passed else Listening) b
      | Listening \<Rightarrow> if br_inbox b ! i then go_to i Passed b else b
      | Passed \<Rightarrow> b
      | Aborted \<Rightarrow> b)"

definition barrier_step :: "nat \<Rightarrow> barrier_event \<Rightarrow> barrier \<Rightarrow> barrier" where
  "barrier_step N ev b =
     (case ev of
        Advance i \<Rightarrow> if i < length (br_pcs b) then barrier_advance N i b else b
      | TimedOut i \<Rightarrow> if i < length (br_pcs b) \<and> br_pcs b ! i = Listening then go_to i Passed b else b
      | StopRequested i \<Rightarrow> if i < length (br_pcs b) \<and> br_pcs b ! i = Listening then go_to i Aborted b else b
      | RedisFailed i \<Rightarrow> if i < length (br_pcs b) \<and> br_pcs b ! i \<noteq> Aborted then go_to i Passed b else b)"

definition barrier_run :: "nat \<Rightarrow> barrier_event list \<Rightarrow> barrier \<Rightarrow> barrier" where
  "barrier_run N = fold (barrier_step N)"

section \<open>Runs\<close>

text \<open>What happens to a worker in a buffered mode: commands arrive, the thread takes its turn, a
  generation starts, somebody fences. A fence can only see a queue that is empty drain. The calls
  are atomic, so the version does not change between the copy and the stamp of a generation.\<close>

datatype 'm wst_event =
    Received command_body
  | Turn bool 'm
  | Generate "rl_payload list"
  | Fenced bool bool

definition wst_step :: "worker_config \<Rightarrow> 'm wst_event \<Rightarrow> 'm buffered_worker \<Rightarrow> 'm buffered_worker" where
  "wst_step c ev s =
     (case ev of
        Received cmd \<Rightarrow> s\<lparr>bw_wst := fst (route_command c cmd (bw_wst s))\<rparr>
      | Turn passed m \<Rightarrow> wst_turn c passed m s
      | Generate ps \<Rightarrow> snd (begin_generation ps s)
      | Fenced in_time stream_drained \<Rightarrow>
          s\<lparr>bw_wst := snd (wst_fence (in_time \<and> ws_queue (bw_wst s) = []) stream_drained (bw_wst s))\<rparr>)"

definition wst_run :: "worker_config \<Rightarrow> 'm wst_event list \<Rightarrow> 'm buffered_worker \<Rightarrow> 'm buffered_worker" where
  "wst_run c evs s = fold (wst_step c) evs s"

end
