(* ===== verification/Weight_Sync_Claims.thy ===== *)
theory Weight_Sync_Claims
  imports Weight_Sync Rollout_Loop_Claims
begin

text \<open>
  What the buffered weight synchronisation guarantees: the barrier of a broadcast holds every
  worker until all have arrived and then lets all of them go, the buffer a generation adopts is
  the last one written, a fence that succeeds has lost no task; and where it falls short: the
  counter of the barrier outlives the broadcast, the queue lets a P2R overtake an older broadcast,
  and the weights of a P2R are used under the version before it.
\<close>

section \<open>The barrier\<close>

definition workers_arrived :: "barrier \<Rightarrow> nat" where
  "workers_arrived b = length (filter (\<lambda>pc. pc \<noteq> Outside) (br_pcs b))"

lemma arrived_go_to_Outside:
  "i < length (br_pcs b) \<Longrightarrow> br_pcs b ! i = Outside \<Longrightarrow> pc \<noteq> Outside \<Longrightarrow> workers_arrived (go_to i pc b) = workers_arrived b + 1"
  unfolding workers_arrived_def go_to_def
  by (simp add: upd_conv_take_nth_drop) (subst (3) id_take_nth_drop, auto)

lemma arrived_go_to_inside:
  "i < length (br_pcs b) \<Longrightarrow> br_pcs b ! i \<noteq> Outside \<Longrightarrow> pc \<noteq> Outside \<Longrightarrow> workers_arrived (go_to i pc b) = workers_arrived b"
  unfolding workers_arrived_def go_to_def
  by (simp add: upd_conv_take_nth_drop) (subst (3) id_take_nth_drop, auto)

lemma all_arrived: "length (br_pcs b) \<le> workers_arrived b \<Longrightarrow> i < length (br_pcs b) \<Longrightarrow> br_pcs b ! i \<noteq> Outside"
  unfolding workers_arrived_def using length_filter_less [of "br_pcs b ! i" "br_pcs b" "\<lambda>pc. pc \<noteq> Outside"] by auto

lemma arrived_all: "\<forall>i<length (br_pcs b). br_pcs b ! i \<noteq> Outside \<Longrightarrow> workers_arrived b = length (br_pcs b)"
  unfolding workers_arrived_def by (subst filter_True) (auto simp: in_set_conv_nth)

lemma arrived_cong [simp]:
  "workers_arrived (publish_go b) = workers_arrived b" "workers_arrived (b\<lparr>br_inbox := xs\<rparr>) = workers_arrived b" "workers_arrived (b\<lparr>br_count := k\<rparr>) = workers_arrived b"
  by (simp_all add: workers_arrived_def publish_go_def)

text \<open>The invariant: the counter counts the arrivals, a worker has counted itself at most up to
  it, and once it is complete whoever listens has the signal or somebody is about to publish it.\<close>

definition barrier_inv :: "nat \<Rightarrow> barrier \<Rightarrow> bool" where
  "barrier_inv N b \<longleftrightarrow>
     length (br_pcs b) = N \<and> length (br_inbox b) = N \<and> br_count b = workers_arrived b \<and>
     (\<forall>i k. i < N \<longrightarrow> br_pcs b ! i = Counted k \<longrightarrow> k \<le> br_count b) \<and>
     (\<forall>i<N. br_pcs b ! i = Listening \<longrightarrow> N \<le> br_count b \<longrightarrow>
        br_inbox b ! i \<or> (\<exists>j k. j < N \<and> br_pcs b ! j = Counted k \<and> N \<le> k))"

lemma barrier_inv_init: "barrier_inv N (init_barrier 0 N)"
  by (simp add: barrier_inv_def init_barrier_def workers_arrived_def)

lemma go_to_sel [simp]:
  "br_pcs (go_to i pc b) = (br_pcs b)[i := pc]" "br_count (go_to i pc b) = br_count b" "br_inbox (go_to i pc b) = br_inbox b"
  by (simp_all add: go_to_def)

lemma publish_go_sel [simp]:
  "br_pcs (publish_go b) = br_pcs b" "br_count (publish_go b) = br_count b"
  "length (br_inbox (publish_go b)) = min (length (br_pcs b)) (length (br_inbox b))"
  by (simp_all add: publish_go_def)

lemma publish_go_inbox [simp]:
  "i < length (br_pcs b) \<Longrightarrow> i < length (br_inbox b) \<Longrightarrow>
   br_inbox (publish_go b) ! i \<longleftrightarrow> br_inbox b ! i \<or> br_pcs b ! i = Subscribed \<or> br_pcs b ! i = Listening"
  by (simp add: publish_go_def)

lemma barrier_inv_leave:
  assumes "barrier_inv N b" "i < N" "br_pcs b ! i \<noteq> Outside" "\<And>k. br_pcs b ! i = Counted k \<Longrightarrow> k < N"
    "pc \<noteq> Outside" "\<And>k. pc \<noteq> Counted k" "pc = Listening \<Longrightarrow> br_count b < N"
  shows "barrier_inv N (go_to i pc b)"
  using assms unfolding barrier_inv_def
  by (auto simp: arrived_go_to_inside nth_list_update) (metis leD)+

lemma barrier_inv_advance:
  assumes inv: "barrier_inv N b" and i: "i < N"
  shows "barrier_inv N (barrier_advance N i b)"
proof (cases "br_pcs b ! i")
  case Outside
  then have "workers_arrived (go_to i (Counted (br_count b + 1)) (b\<lparr>br_count := br_count b + 1\<rparr>)) = br_count b + 1"
    using inv i by (simp add: barrier_inv_def arrived_go_to_Outside)
  then show ?thesis
    using Outside inv i by (auto simp: barrier_inv_def barrier_advance_def nth_list_update le_SucI)
next
  case (Counted k)
  show ?thesis
  proof (cases "N \<le> k")
    case True
    then show ?thesis
      using Counted inv i
      by (auto simp: barrier_advance_def barrier_inv_def arrived_go_to_inside nth_list_update)
  next
    case False
    then have "barrier_inv N (b\<lparr>br_inbox := (br_inbox b)[i := False]\<rparr>)"
      using Counted inv i unfolding barrier_inv_def by (auto simp: nth_list_update)
    then show ?thesis
      using Counted False i by (auto simp: barrier_advance_def intro!: barrier_inv_leave)
  qed
next
  case Subscribed
  then show ?thesis using inv i by (auto simp: barrier_advance_def intro!: barrier_inv_leave)
next
  case Listening
  then show ?thesis using inv i by (auto simp: barrier_advance_def intro!: barrier_inv_leave)
qed (use inv in \<open>simp_all add: barrier_advance_def\<close>)

definition redis_up :: "barrier_event \<Rightarrow> bool" where
  "redis_up ev \<longleftrightarrow> (case ev of RedisFailed _ \<Rightarrow> False | _ \<Rightarrow> True)"

definition in_time :: "barrier_event \<Rightarrow> bool" where
  "in_time ev \<longleftrightarrow> (case ev of TimedOut _ \<Rightarrow> False | _ \<Rightarrow> True)"

lemma barrier_inv_step: "barrier_inv N b \<Longrightarrow> redis_up ev \<Longrightarrow> barrier_inv N (barrier_step N ev b)"
  by (cases ev) (auto simp: barrier_step_def redis_up_def barrier_inv_def [THEN iffD1] intro!: barrier_inv_advance barrier_inv_leave
      dest: barrier_inv_def [THEN iffD1])

lemma barrier_inv_run: "barrier_inv N b \<Longrightarrow> list_all redis_up evs \<Longrightarrow> barrier_inv N (barrier_run N evs b)"
  by (induction evs arbitrary: b) (auto simp: barrier_run_def barrier_inv_step)

text \<open>Who has passed, or has the signal, has seen the counter complete.\<close>

definition passes_complete :: "nat \<Rightarrow> barrier \<Rightarrow> bool" where
  "passes_complete N b \<longleftrightarrow> (\<forall>i<N. br_pcs b ! i = Passed \<or> br_inbox b ! i \<longrightarrow> N \<le> br_count b)"

lemma passes_complete_advance:
  assumes "barrier_inv N b" "passes_complete N b" "i < N"
  shows "passes_complete N (barrier_advance N i b)"
  using assms
  by (cases "br_pcs b ! i")
    (auto simp: barrier_advance_def passes_complete_def barrier_inv_def nth_list_update le_SucI split: if_splits intro: order_trans)

lemma passes_complete_step:
  "barrier_inv N b \<Longrightarrow> passes_complete N b \<Longrightarrow> redis_up ev \<Longrightarrow> in_time ev \<Longrightarrow> passes_complete N (barrier_step N ev b)"
proof (cases ev)
  case (Advance i)
  assume "barrier_inv N b" "passes_complete N b"
  then show ?thesis
    using Advance passes_complete_advance [of N b i] by (auto simp: barrier_step_def barrier_inv_def)
qed (auto simp: barrier_step_def redis_up_def in_time_def passes_complete_def barrier_inv_def nth_list_update)

lemma passes_complete_run:
  "barrier_inv N b \<Longrightarrow> passes_complete N b \<Longrightarrow> list_all (\<lambda>ev. redis_up ev \<and> in_time ev) evs \<Longrightarrow>
   passes_complete N (barrier_run N evs b)"
  by (induction evs arbitrary: b) (auto simp: barrier_run_def barrier_inv_step passes_complete_step)


definition sample_arrivals :: "barrier_event list" where
  "sample_arrivals = map Advance [0, 1, 0, 0, 1]"


text \<open>One round of advances: what every worker reaches by its own advance holds for all of them
  at the end of the round.\<close>

lemma barrier_advance_others: "j \<noteq> i \<Longrightarrow> br_pcs (barrier_advance N i b) ! j = br_pcs b ! j"
  by (cases "br_pcs b ! i") (auto simp: barrier_advance_def)

lemma barrier_round:
  assumes step: "\<And>b i. I b \<Longrightarrow> i < N \<Longrightarrow> I (barrier_advance N i b) \<and> Q (br_pcs (barrier_advance N i b) ! i)"
    and len: "\<And>b. I b \<Longrightarrow> length (br_pcs b) = N"
    and "I b" "distinct ws" "set ws \<subseteq> {..<N}"
  shows "I (barrier_run N (map Advance ws) b) \<and> (\<forall>i\<in>set ws. Q (br_pcs (barrier_run N (map Advance ws) b) ! i))"
proof -
  have "I (barrier_run N (map Advance ws) b) \<and> (\<forall>i\<in>set ws. Q (br_pcs (barrier_run N (map Advance ws) b) ! i)) \<and>
      (\<forall>j. j \<notin> set ws \<longrightarrow> br_pcs (barrier_run N (map Advance ws) b) ! j = br_pcs b ! j)"
    using assms(3-5)
  proof (induction ws arbitrary: b)
    case Nil
    then show ?case by (simp add: barrier_run_def)
  next
    case (Cons i ws)
    let ?b = "barrier_advance N i b"
    have "I ?b" "Q (br_pcs ?b ! i)" using step Cons.prems by auto
    moreover have "barrier_run N (map Advance (i # ws)) b = barrier_run N (map Advance ws) ?b"
      using Cons.prems len by (simp add: barrier_run_def barrier_step_def)
    ultimately show ?case
      using Cons.IH [of ?b] Cons.prems by (auto simp: barrier_advance_others)
  qed
  then show ?thesis by simp
qed

definition one_round :: "nat \<Rightarrow> barrier_event list" where
  "one_round N = map Advance [0..<N]"

definition all_at :: "(barrier_pc \<Rightarrow> bool) \<Rightarrow> nat \<Rightarrow> barrier \<Rightarrow> bool" where
  "all_at Q N b \<longleftrightarrow> (\<forall>i<N. Q (br_pcs b ! i))"

lemma one_round_reaches:
  assumes step: "\<And>b i. barrier_inv N b \<Longrightarrow> all_at P N b \<Longrightarrow> i < N \<Longrightarrow>
      P (br_pcs (barrier_advance N i b) ! i) \<and> Q (br_pcs (barrier_advance N i b) ! i)"
    and "barrier_inv N b" "all_at P N b"
  shows "barrier_inv N (barrier_run N (one_round N) b) \<and> all_at Q N (barrier_run N (one_round N) b)"
proof -
  have keep: "all_at P N (barrier_advance N i b)" if "barrier_inv N b" "all_at P N b" "i < N" for b i
    unfolding all_at_def using step that by (metis all_at_def barrier_advance_others)
  have "(barrier_inv N (barrier_run N (map Advance [0..<N]) b) \<and> all_at P N (barrier_run N (map Advance [0..<N]) b)) \<and>
      (\<forall>i\<in>set [0..<N]. Q (br_pcs (barrier_run N (map Advance [0..<N]) b) ! i))"
  proof (rule barrier_round [where I = "\<lambda>b. barrier_inv N b \<and> all_at P N b"])
    fix b i
    assume "barrier_inv N b \<and> all_at P N b" "i < N"
    then show "(barrier_inv N (barrier_advance N i b) \<and> all_at P N (barrier_advance N i b)) \<and> Q (br_pcs (barrier_advance N i b) ! i)"
      using step keep barrier_inv_advance by blast
  qed (use assms(2,3) in \<open>auto simp: barrier_inv_def\<close>)
  then show ?thesis
    by (simp add: one_round_def all_at_def)
qed

definition inside :: "barrier_pc \<Rightarrow> bool" where
  "inside pc \<longleftrightarrow> pc \<noteq> Outside"

definition past_count :: "barrier_pc \<Rightarrow> bool" where
  "past_count pc \<longleftrightarrow> inside pc \<and> (\<forall>k. pc \<noteq> Counted k)"

definition returned :: "barrier_pc \<Rightarrow> bool" where
  "returned pc \<longleftrightarrow> pc = Passed \<or> pc = Aborted"

lemmas barrier_pc_defs = inside_def past_count_def returned_def

lemma counter_complete: "barrier_inv N b \<Longrightarrow> all_at inside N b \<Longrightarrow> br_count b = N"
  by (auto simp: barrier_inv_def all_at_def inside_def arrived_all)

lemma first_round:
  "barrier_inv N b \<Longrightarrow> barrier_inv N (barrier_run N (one_round N) b) \<and> all_at inside N (barrier_run N (one_round N) b)"
  by (rule one_round_reaches [where P = "\<lambda>_. True"])
    (auto simp: all_at_def inside_def barrier_advance_def barrier_inv_def split: barrier_pc.splits)

lemma second_round:
  "barrier_inv N b \<Longrightarrow> all_at inside N b \<Longrightarrow>
   barrier_inv N (barrier_run N (one_round N) b) \<and> all_at past_count N (barrier_run N (one_round N) b)"
  by (rule one_round_reaches [where P = inside])
    (auto simp: all_at_def barrier_pc_defs barrier_advance_def barrier_inv_def split: barrier_pc.splits)

lemma third_round:
  "barrier_inv N b \<Longrightarrow> all_at past_count N b \<Longrightarrow>
   barrier_inv N (barrier_run N (one_round N) b) \<and> all_at returned N (barrier_run N (one_round N) b)"
proof (rule one_round_reaches [where P = past_count])
  fix b i
  assume b: "barrier_inv N b" "all_at past_count N b" "i < N"
  then have c: "br_count b = N" by (intro counter_complete) (auto simp: all_at_def past_count_def)
  have "br_inbox b ! i" if "br_pcs b ! i = Listening"
    using b c that unfolding barrier_inv_def all_at_def past_count_def by auto
  then show "past_count (br_pcs (barrier_advance N i b) ! i) \<and> returned (br_pcs (barrier_advance N i b) ! i)"
    using b c
    by (cases "br_pcs b ! i") (auto simp: barrier_advance_def barrier_inv_def all_at_def barrier_pc_defs)
qed



text \<open>The counter is not reset when the workers have passed. A second broadcast of the same
  weight step within the lifetime of the key finds it complete, and its first worker passes alone.\<close>

theorem barrier_not_reusable:
  assumes "N \<le> k" "0 < N"
  shows "br_pcs (barrier_run N [Advance 0, Advance 0] (init_barrier k N)) = Passed # replicate (N - 1) Outside"
  using assms by (cases N) (auto simp: barrier_run_def barrier_step_def barrier_advance_def init_barrier_def)

theorem barrier_not_reusable_witness:
  "br_count (barrier_run 2 sample_arrivals (init_barrier 0 2)) = 2 \<and>
   br_pcs (barrier_run 2 [Advance 0, Advance 0] (init_barrier 2 2)) = [Passed, Outside]"
  using barrier_not_reusable [of 2 2] by (simp add: numeral_2_eq_2) code_simp

section \<open>The queue\<close>

fun is_p2r :: "wst_command \<Rightarrow> bool" where
  "is_p2r (P2R a) = True"
| "is_p2r (R2R a) = False"

text \<open>The shape of the queue: the P2R commands, then the R2R commands, each in the order of their
  numbers.\<close>

definition fifo_below :: "nat \<Rightarrow> wst_entry list \<Rightarrow> bool" where
  "fifo_below n q \<longleftrightarrow> (\<forall>x\<in>set q. fst (snd x) \<le> n \<and> fst x = (if is_p2r (snd (snd x)) then 0 else 1))"

lemma pq_put_between:
  assumes "\<forall>x\<in>set ps. \<not> entry_before e x" "\<forall>x\<in>set rs. entry_before e x"
  shows "pq_put e (ps @ rs) = ps @ e # rs"
  using assms by (induction ps) (cases rs, auto)

text \<open>The queue after the commands \<open>cs\<close> have been put, with nothing taken in between.\<close>

definition queued :: "wst_command list \<Rightarrow> wst \<Rightarrow> bool" where
  "queued cs t \<longleftrightarrow> fifo_below (ws_seq t) (ws_queue t) \<and>
     (\<exists>ps rs. ws_queue t = ps @ rs \<and> map (snd \<circ> snd) ps = filter is_p2r cs \<and>
        map (snd \<circ> snd) rs = filter (\<lambda>cmd. \<not> is_p2r cmd) cs)"

definition put_command :: "wst_command \<Rightarrow> wst \<Rightarrow> wst" where
  "put_command cmd t = (case cmd of P2R a \<Rightarrow> enqueue_p2r a t | R2R a \<Rightarrow> enqueue_r2r a t)"

lemma queued_members:
  assumes "map (snd \<circ> snd) xs = filter Q cs" "x \<in> set xs"
  shows "Q (snd (snd x))"
proof -
  have "(snd \<circ> snd) x \<in> set (map (snd \<circ> snd) xs)" using assms(2) unfolding set_map by (rule imageI)
  then show ?thesis unfolding assms(1) by simp
qed

lemma queued_put: "queued cs t \<Longrightarrow> queued (cs @ [cmd]) (put_command cmd t)"
proof -
  assume "queued cs t"
  then obtain ps rs where q: "fifo_below (ws_seq t) (ws_queue t)" "ws_queue t = ps @ rs"
    and ps: "map (snd \<circ> snd) ps = filter is_p2r cs" and rs: "map (snd \<circ> snd) rs = filter (\<lambda>cmd. \<not> is_p2r cmd) cs"
    unfolding queued_def by auto
  have p: "fst x = 0 \<and> fst (snd x) \<le> ws_seq t" if "x \<in> set ps" for x
    using queued_members [OF ps that] q that by (auto simp: fifo_below_def split_beta)
  have r: "fst x = 1 \<and> fst (snd x) \<le> ws_seq t" if "x \<in> set rs" for x
    using queued_members [OF rs that] q that by (auto simp: fifo_below_def split_beta)
  show ?thesis
  proof (cases cmd)
    case (P2R a)
    let ?e = "(0, Suc (ws_seq t), P2R a)"
    have put: "pq_put ?e (ps @ rs) = ps @ ?e # rs"
      using p r by (intro pq_put_between) (fastforce simp: entry_before_def)+
    have "fifo_below (Suc (ws_seq t)) (ps @ ?e # rs)"
      using q by (force simp: fifo_below_def)
    then show ?thesis
      unfolding queued_def
      using put q(2) ps rs P2R
      by (intro conjI exI [of _ "ps @ [?e]"] exI [of _ rs]) (simp_all add: put_command_def enqueue_p2r_def enqueue_command_def Let_def)
  next
    case (R2R a)
    let ?e = "(1, Suc (ws_seq t), R2R a)"
    have put: "pq_put ?e (ps @ rs) = ps @ rs @ [?e]"
      using pq_put_between [of "ps @ rs" ?e "[]"] p r by (fastforce simp: entry_before_def)
    have "fifo_below (Suc (ws_seq t)) (ps @ rs @ [?e])"
      using q by (force simp: fifo_below_def)
    then show ?thesis
      unfolding queued_def
      using put q(2) ps rs R2R
      by (intro conjI exI [of _ ps] exI [of _ "rs @ [?e]"]) (simp_all add: put_command_def enqueue_r2r_def enqueue_command_def Let_def)
  qed
qed

lemma queued_fold: "queued cs (fold put_command cs init_wst)"
proof (induction cs rule: rev_induct)
  case Nil
  then show ?case by (simp add: queued_def fifo_below_def init_wst_def)
next
  case (snoc cmd cs)
  then show ?case using queued_put by simp
qed

definition routed :: "worker_config \<Rightarrow> command_body \<Rightarrow> wst_command list" where
  "routed c cmd = (case cmd of
     PolicyToRolloutUnicast a \<Rightarrow> if p2r_dst a = wc_replica_name c then [P2R a] else []
   | RolloutToRolloutBroadcast a \<Rightarrow> [R2R a]
   | _ \<Rightarrow> [])"

lemma route_put: "fst (route_command c cmd t) = fold put_command (routed c cmd) t"
  by (cases cmd) (auto simp: route_command_def routed_def put_command_def)

lemma route_all: "fold (\<lambda>cmd t. fst (route_command c cmd t)) cmds t = fold put_command (concat (map (routed c) cmds)) t"
  by (induction cmds arbitrary: t) (simp_all add: route_put)

text \<open>C24: The weight commands that wait are taken in this order: every P2R for this replica, in
  the order in which the controller sent them, and only then the broadcasts, in theirs.\<close>

theorem queued_p2r_first:
  "map (snd \<circ> snd) (ws_queue (fold (\<lambda>cmd t. fst (route_command c cmd t)) cmds init_wst)) =
     [P2R a. PolicyToRolloutUnicast a \<leftarrow> cmds, p2r_dst a = wc_replica_name c]
     @ [R2R a. RolloutToRolloutBroadcast a \<leftarrow> cmds]"
proof -
  have q: "map (snd \<circ> snd) (ws_queue (fold put_command cs init_wst)) = filter is_p2r cs @ filter (\<lambda>cmd. \<not> is_p2r cmd) cs" for cs
    using queued_fold [of cs] by (auto simp: queued_def)
  have "filter is_p2r (concat (map (routed c) cmds)) =
      [P2R a. PolicyToRolloutUnicast a \<leftarrow> cmds, p2r_dst a = wc_replica_name c]"
    by (induction cmds) (auto simp: routed_def split: command_body.splits)
  moreover have "filter (\<lambda>cmd. \<not> is_p2r cmd) (concat (map (routed c) cmds)) = [R2R a. RolloutToRolloutBroadcast a \<leftarrow> cmds]"
    by (induction cmds) (auto simp: routed_def split: command_body.splits)
  ultimately show ?thesis by (simp add: route_all q)
qed

section \<open>The buffer\<close>

text \<open>Nothing pending means that the live model is the buffer.\<close>

definition buffer_coherent :: "'m buffered_worker \<Rightarrow> bool" where
  "buffer_coherent s \<longleftrightarrow> bw_buffer_synced_version s \<le> bw_buffer_version s \<and>
     (bw_buffer_synced_version s = bw_buffer_version s \<longrightarrow> bw_live s = bw_buffer s)"

definition same_buffer :: "'m buffered_worker \<Rightarrow> 'm buffered_worker \<Rightarrow> bool" where
  "same_buffer s s' \<longleftrightarrow> bw_buffer s' = bw_buffer s \<and> bw_live s' = bw_live s \<and>
     bw_buffer_version s' = bw_buffer_version s \<and> bw_buffer_synced_version s' = bw_buffer_synced_version s"

lemma coherent_same: "buffer_coherent s \<Longrightarrow> same_buffer s s' \<Longrightarrow> buffer_coherent s'"
  by (simp add: buffer_coherent_def same_buffer_def)

lemma same_buffer_frame [simp]:
  "same_buffer s (s\<lparr>bw_worker := w\<rparr>)" "same_buffer s (s\<lparr>bw_wst := t\<rparr>)" "same_buffer s (s\<lparr>bw_pending_shutdown := p\<rparr>)"
  "same_buffer s (s\<lparr>bw_pending_validation_step := v\<rparr>)" "same_buffer s s" "same_buffer s (count_executed s)"
  by (simp_all add: same_buffer_def count_executed_def)

lemma same_buffer_trans: "same_buffer a b \<Longrightarrow> same_buffer b d \<Longrightarrow> same_buffer a d"
  by (simp add: same_buffer_def)

lemma with_worker_same: "same_buffer a s \<Longrightarrow> keeps (same_buffer a) (with_worker f s)"
  by (auto simp: with_worker_def keeps_def after_def same_buffer_def split: sum.splits)

lemma with_worker_coherent: "buffer_coherent s \<Longrightarrow> keeps buffer_coherent (with_worker f s)"
  by (auto simp: with_worker_def keeps_def after_def buffer_coherent_def split: sum.splits)

lemma written_coherent [simp]:
  "buffer_coherent s \<Longrightarrow> buffer_coherent (count_executed (s\<lparr>bw_buffer := m, bw_buffer_version := Suc (bw_buffer_version s)\<rparr>))"
  "buffer_coherent s \<Longrightarrow> buffer_coherent (count_executed (s\<lparr>bw_buffer_version := Suc (bw_buffer_version s)\<rparr>))"
  by (simp_all add: buffer_coherent_def count_executed_def)

lemma execute_p2r_coherent: "buffer_coherent s \<Longrightarrow> keeps buffer_coherent (execute_p2r a m s)"
  unfolding execute_p2r_def by (auto intro!: keeps_bindR with_worker_coherent)

lemma coherent_worker [simp]: "buffer_coherent (s\<lparr>bw_worker := w\<rparr>) = buffer_coherent s"
  "buffer_coherent (s\<lparr>bw_pending_shutdown := p\<rparr>) = buffer_coherent s"
  "buffer_coherent (s\<lparr>bw_pending_validation_step := v\<rparr>) = buffer_coherent s"
  "buffer_coherent (s\<lparr>bw_wst := t\<rparr>) = buffer_coherent s"
  by (simp_all add: buffer_coherent_def)

lemma mark_validation_coherent: "buffer_coherent s \<Longrightarrow> keeps buffer_coherent (mark_validation c a s)"
  by (auto simp: mark_validation_def keeps_def after_def split: option.splits sum.splits)

lemma execute_r2r_coherent: "buffer_coherent s \<Longrightarrow> keeps buffer_coherent (execute_r2r c a passed m s)"
  unfolding execute_r2r_def Let_def
  by (auto intro!: keeps_bindR with_worker_coherent mark_validation_coherent split: option.splits)

lemma wst_turn_coherent: "buffer_coherent s \<Longrightarrow> buffer_coherent (wst_turn c passed m s)"
  using execute_p2r_coherent [of "s\<lparr>bw_wst := (bw_wst s)\<lparr>ws_queue := q\<rparr>\<rparr>" for q]
    execute_r2r_coherent [of "s\<lparr>bw_wst := (bw_wst s)\<lparr>ws_queue := q\<rparr>\<rparr>" for q]
  by (fastforce simp: wst_turn_def keeps_def after_def Let_def split: list.splits wst_command.splits sum.splits)

lemma sync_coherent: "buffer_coherent s \<Longrightarrow> buffer_coherent (sync_buffer_to_live s) \<and> bw_live (sync_buffer_to_live s) = bw_buffer s
    \<and> bw_buffer (sync_buffer_to_live s) = bw_buffer s"
  by (auto simp: buffer_coherent_def sync_buffer_to_live_def)

lemma wst_run_coherent: "buffer_coherent s \<Longrightarrow> buffer_coherent (wst_run c evs s)"
proof (induction evs arbitrary: s)
  case (Cons ev evs)
  have "buffer_coherent (wst_step c ev s)"
    using Cons.prems sync_coherent [of s] by (cases ev) (auto simp: wst_step_def wst_turn_coherent begin_generation_def Let_def)
  then show ?case using Cons.IH by (simp add: wst_run_def)
qed (simp add: wst_run_def)

text \<open>Whatever commands arrived and whatever the thread did, a generation runs on the contents
  of the buffer, and the copy leaves the buffer as it was.\<close>

theorem generation_adopts_buffer:
  "bw_live (snd (begin_generation ps (wst_run c evs (init_buffered is_async m w)))) =
     bw_buffer (wst_run c evs (init_buffered is_async m w)) \<and>
   bw_buffer (snd (begin_generation ps (wst_run c evs (init_buffered is_async m w)))) =
     bw_buffer (wst_run c evs (init_buffered is_async m w))"
proof -
  have "buffer_coherent (init_buffered is_async m w)"
    by (simp add: init_buffered_def buffer_coherent_def)
  then show ?thesis
    using sync_coherent [OF wst_run_coherent, of "init_buffered is_async m w" c evs] by (simp add: begin_generation_def Let_def)
qed

text \<open>After a P2R the thread offers the new weights at once, but the version changes only with
  the broadcast that follows: a generation in between runs on the new weights, and its payloads
  carry the version before them.\<close>

theorem p2r_weights_mislabelled:
  assumes "execute_p2r a new s = Inr s'" "bw_buffer_synced_version s \<le> bw_buffer_version s"
  shows "bw_live (snd (begin_generation ps s')) = new \<and>
    fst (begin_generation ps s') = map (stamp_version (rw_current_weight_version (bw_worker s))) ps"
proof -
  obtain w where w: "execute_p2r_recv (bw_is_async s) a (bw_worker s) = Inr w"
    and s': "s' = count_executed (s\<lparr>bw_worker := w, bw_buffer := new, bw_buffer_version := bw_buffer_version s + 1\<rparr>)"
    using assms(1) by (auto simp: execute_p2r_def with_worker_def bindR_def split: sum.splits)
  have "rw_current_weight_version w = rw_current_weight_version (bw_worker s)"
    using w by (auto simp: execute_p2r_recv_def Let_def split: if_splits)
  then show ?thesis
    using assms(2) by (simp add: s' begin_generation_def Let_def count_executed_def sync_buffer_to_live_def)
qed

definition sample_p2r :: "int \<Rightarrow> p2r_args" where
  "sample_p2r step = \<lparr>p2r_src = ''p0'', p2r_dst = ''r0'', p2r_src_size = 1, p2r_dst_size = 1,
     p2r_do_weight_sync_check = False, p2r_trainable_only = (1 < step), p2r_weight_step = Some step, p2r_total_steps = Some 9\<rparr>"

definition sample_r2r :: "int \<Rightarrow> r2r_args" where
  "sample_r2r step = \<lparr>r2r_src = ''r0'', r2r_dsts = [''r0'', ''r1''], r2r_weight_step = Some step, r2r_total_steps = Some 9,
     r2r_trainable_only = False\<rparr>"

definition sample_buffered :: "int buffered_worker" where
  "sample_buffered = init_buffered False 0 (init_worker\<lparr>rw_rank_in_rollout_repicas := 0,
     rw_replica_name_to_rank := [(''r0'', 0), (''r1'', 1)]\<rparr>)"

theorem p2r_weights_mislabelled_witness:
  "case execute_p2r (sample_p2r 1) 11 sample_buffered of Inl e \<Rightarrow> False | Inr s' \<Rightarrow>
     bw_live (snd (begin_generation [default_payload] s')) = 11 \<and>
     map pl_weight_version (fst (begin_generation [default_payload] s')) = [0]"
proof -
  let ?r = "execute_p2r (sample_p2r 1) (11::int) sample_buffered"
  have ok: "case ?r of Inl e \<Rightarrow> False | Inr s' \<Rightarrow> True" by code_simp
  then obtain s' where s': "?r = Inr s'" by (auto split: sum.splits)
  have v: "pl_weight_version (stamp_version (rw_current_weight_version (bw_worker sample_buffered)) default_payload) = 0"
    "bw_buffer_synced_version sample_buffered \<le> bw_buffer_version sample_buffered" by code_simp+
  show ?thesis
    using p2r_weights_mislabelled [OF s' v(2), of "[default_payload]"] v(1) by (simp add: s')
qed

definition two_rounds :: "'m \<Rightarrow> 'm \<Rightarrow> 'm wst_event list" where
  "two_rounds m1 m2 =
     [Received (PolicyToRolloutUnicast (sample_p2r 1)), Received (RolloutToRolloutBroadcast (sample_r2r 1)),
      Received (PolicyToRolloutUnicast (sample_p2r 2)), Received (RolloutToRolloutBroadcast (sample_r2r 2)),
      Turn True m1, Turn True m2, Turn True m1]"


section \<open>The fence\<close>

text \<open>A fence that was remembered as successful for the current sequence number still holds.\<close>

definition fence_inv :: "wst \<Rightarrow> bool" where
  "fence_inv t \<longleftrightarrow> ws_fenced_seq t \<le> int (ws_seq t) \<and>
     (\<not> ws_fence_failed t \<and> ws_fenced_seq t = int (ws_seq t) \<longrightarrow> ws_queue t = [] \<and> \<not> ws_task_failed t)"

definition same_wst :: "wst \<Rightarrow> 'm buffered_worker \<Rightarrow> bool" where
  "same_wst t s \<longleftrightarrow> (\<exists>n. bw_wst s = t\<lparr>ws_executed := n\<rparr>)"

lemma same_wst_refl [simp]: "same_wst (bw_wst s) s"
  unfolding same_wst_def by (intro exI [of _ "ws_executed (bw_wst s)"]) simp

lemma same_wst_frame [simp]:
  "same_wst t (s\<lparr>bw_worker := w\<rparr>) = same_wst t s" "same_wst t (s\<lparr>bw_pending_shutdown := p\<rparr>) = same_wst t s"
  "same_wst t (s\<lparr>bw_pending_validation_step := v\<rparr>) = same_wst t s" "same_wst t (s\<lparr>bw_buffer := m\<rparr>) = same_wst t s"
  "same_wst t (s\<lparr>bw_buffer_version := k\<rparr>) = same_wst t s" "same_wst t s \<Longrightarrow> same_wst t (count_executed s)"
  by (auto simp: same_wst_def count_executed_def)

lemma with_worker_wst: "same_wst t s \<Longrightarrow> keeps (same_wst t) (with_worker f s)"
  by (auto simp: with_worker_def keeps_def after_def split: sum.splits)

lemma mark_validation_wst: "same_wst t s \<Longrightarrow> keeps (same_wst t) (mark_validation c a s)"
  by (auto simp: mark_validation_def keeps_def after_def split: option.splits sum.splits)

lemma execute_p2r_wst: "same_wst t s \<Longrightarrow> keeps (same_wst t) (execute_p2r a m s)"
  unfolding execute_p2r_def by (auto intro!: keeps_bindR with_worker_wst)

lemma execute_r2r_wst: "same_wst t s \<Longrightarrow> keeps (same_wst t) (execute_r2r c a passed m s)"
  unfolding execute_r2r_def Let_def
  by (auto intro!: keeps_bindR with_worker_wst mark_validation_wst split: option.splits)

lemma wst_turn_wst:
  assumes "ws_queue (bw_wst s) \<noteq> []"
  shows "\<exists>q n f. bw_wst (wst_turn c passed m s) = (bw_wst s)\<lparr>ws_queue := q, ws_executed := n, ws_task_failed := f\<rparr>"
proof -
  obtain prio seq cmd q where q: "ws_queue (bw_wst s) = (prio, seq, cmd) # q"
    using assms by (cases "ws_queue (bw_wst s)") auto
  let ?s = "s\<lparr>bw_wst := (bw_wst s)\<lparr>ws_queue := q\<rparr>\<rparr>"
  let ?r = "case cmd of P2R a \<Rightarrow> execute_p2r a m ?s | R2R a \<Rightarrow> execute_r2r c a passed m ?s"
  have "same_wst (bw_wst ?s) (after ?r)"
    using execute_p2r_wst [OF same_wst_refl, of ?s] execute_r2r_wst [OF same_wst_refl, of ?s]
    by (auto simp: keeps_def split: wst_command.splits)
  then obtain n where n: "bw_wst (after ?r) = (bw_wst s)\<lparr>ws_queue := q, ws_executed := n\<rparr>"
    unfolding same_wst_def by auto
  show ?thesis
  proof (cases "ws_stop (bw_wst s)")
    case True
    then show ?thesis
      by (intro exI [of _ "ws_queue (bw_wst s)"] exI [of _ "ws_executed (bw_wst s)"] exI [of _ "ws_task_failed (bw_wst s)"])
        (simp add: wst_turn_def)
  next
    case False
    then show ?thesis
      using n q
      by (intro exI [of _ q] exI [of _ n]
          exI [of _ "case ?r of Inl es \<Rightarrow> True | Inr s' \<Rightarrow> ws_task_failed (bw_wst s)"])
        (auto simp: wst_turn_def after_def Let_def split: sum.splits)
  qed
qed

lemma fence_inv_turn: "fence_inv (bw_wst s) \<Longrightarrow> fence_inv (bw_wst (wst_turn c passed m s))"
proof (cases "ws_queue (bw_wst s) = []")
  case False
  assume "fence_inv (bw_wst s)"
  moreover obtain q n f where "bw_wst (wst_turn c passed m s) = (bw_wst s)\<lparr>ws_queue := q, ws_executed := n, ws_task_failed := f\<rparr>"
    using wst_turn_wst [OF False] by blast
  ultimately show ?thesis using False by (auto simp: fence_inv_def)
qed (simp add: wst_turn_def)

lemma fence_inv_enqueue: "fence_inv t \<Longrightarrow> fence_inv (fst (route_command c cmd t))"
  by (cases cmd) (auto simp: route_command_def enqueue_p2r_def enqueue_r2r_def enqueue_command_def fence_inv_def Let_def)

lemma fence_inv_fence:
  "fence_inv t \<Longrightarrow> (drained \<Longrightarrow> ws_queue t = []) \<Longrightarrow> fence_inv (snd (wst_fence drained stream_drained t))"
  by (auto simp: wst_fence_def fence_inv_def Let_def)

lemma fence_inv_run: "fence_inv (bw_wst s) \<Longrightarrow> fence_inv (bw_wst (wst_run c evs s))"
proof (induction evs arbitrary: s)
  case (Cons ev evs)
  have "fence_inv (bw_wst (wst_step c ev s))"
    using Cons.prems
    by (cases ev) (auto simp: wst_step_def fence_inv_turn fence_inv_enqueue begin_generation_def sync_buffer_to_live_def
        Let_def intro!: fence_inv_fence)
  then show ?case using Cons.IH by (simp add: wst_run_def)
qed (simp add: wst_run_def)

text \<open>C23: A fence succeeds only when every command received before it has been taken and none of
  them failed, also when it answers from the fence before it, and when no fence before it has
  failed.\<close>

theorem fence_reports_failures:
  assumes "fst (wst_fence (on_time \<and> ws_queue (bw_wst s) = []) stream_drained (bw_wst s))"
    "s = wst_run c evs (init_buffered is_async m w)"
  shows "ws_queue (bw_wst s) = [] \<and> \<not> ws_task_failed (bw_wst s) \<and> \<not> ws_fence_failed (bw_wst s)"
proof -
  have "fence_inv (bw_wst s)"
    unfolding assms(2) by (rule fence_inv_run) (simp add: init_buffered_def init_wst_def fence_inv_def)
  then show ?thesis
    using assms(1) by (auto simp: wst_fence_def fence_inv_def Let_def split: if_splits)
qed

theorem fence_reports_failures_witness:
  "ws_queue (bw_wst (wst_run sample_worker_config (two_rounds 11 12 @ [Turn True 12]) sample_buffered)) = [] \<and>
   \<not> ws_task_failed (bw_wst (wst_run sample_worker_config (two_rounds 11 12 @ [Turn True 12]) sample_buffered))"
proof -
  let ?s = "wst_run sample_worker_config (two_rounds 11 12 @ [Turn True 12]) sample_buffered"
  have "fst (wst_fence (True \<and> ws_queue (bw_wst ?s) = []) True (bw_wst ?s))" by code_simp
  from fence_reports_failures [OF this] show ?thesis
    unfolding sample_buffered_def by blast
qed

end
