(* ===== verification/HA_Nccl.thy ===== *)
theory HA_Nccl
  imports Command_Model
begin

text \<open>
  The communicator among the policy replicas that survives the loss of one
  (\<open>HighAvailabilitylNccl\<close> in cosmos_rl/utils/distributed.py): the background thread that takes
  mesh commands and rebuilds the communicator, and the operations of the main thread with their
  retries. Whether a communicator can be created, whether an operation succeeds and what the
  background thread does while an operation waits are inputs. What is sent to the controller and
  which operations ran are logs. Lemmas: an operation only ever runs on the communicator of a mesh
  with several members that include this replica; the retries are bounded; the key under which the
  replicas of one mesh meet is the same for all of them; and an operation of a replica that was
  alone returns without having run, also when it is not alone any more.
\<close>

section \<open>State\<close>

datatype mesh_command = Destroy | Rebuild "(string, int) dict"

datatype nccl_post =
    CommInitiator string
  | CommAcceptor string
  | CommError string
  | ClearCommStore string

text \<open>\<open>ha_ran\<close> is the log of the operations that ran: the index of the communicator and the mesh.\<close>

record ha_nccl =
  ha_replica_name :: string
  ha_global_rank :: int
  ha_max_retry :: nat
  ha_comm_idx :: "nat option"
  ha_replica_name_to_rank :: "(string, int) dict"
  ha_is_single_peer :: bool
  ha_is_comm_ready :: bool
  ha_is_first_time :: bool
  ha_cmd_queue :: "mesh_command list"
  ha_thread_alive :: bool
  ha_posts :: "nccl_post list"
  ha_ran :: "(nat \<times> (string, int) dict) list"

definition init_ha_nccl :: "string \<Rightarrow> int \<Rightarrow> ha_nccl" where
  "init_ha_nccl nm rank = \<lparr>ha_replica_name = nm, ha_global_rank = rank, ha_max_retry = 3, ha_comm_idx = None,
     ha_replica_name_to_rank = [], ha_is_single_peer = False, ha_is_comm_ready = False, ha_is_first_time = True,
     ha_cmd_queue = [], ha_thread_alive = True, ha_posts = [], ha_ran = []\<rparr>"

definition nccl_report :: "nccl_post \<Rightarrow> ha_nccl \<Rightarrow> ha_nccl" where
  "nccl_report p s = s\<lparr>ha_posts := ha_posts s @ [p]\<rparr>"

section \<open>The background thread\<close>

text \<open>\<open>'_'.join\<close> and \<open>__get_mesh_unique_key\<close>: the names in the order of the ranks.\<close>

fun join_underscore :: "string list \<Rightarrow> string" where
  "join_underscore [] = []"
| "join_underscore [x] = x"
| "join_underscore (x # y # xs) = x @ ''_'' @ join_underscore (y # xs)"

definition get_mesh_unique_key :: "int \<Rightarrow> (string, int) dict \<Rightarrow> string" where
  "get_mesh_unique_key global_rank ranks = join_underscore (map fst (sort_key snd ranks)) @ ''_'' @ int_str global_rank"

definition execute_destroy_nccl_comm :: "ha_nccl \<Rightarrow> ha_nccl" where
  "execute_destroy_nccl_comm s = s\<lparr>ha_is_comm_ready := False, ha_comm_idx := None\<rparr>"

text \<open>What the environment decides about a rebuild: whether the exchange of the group id with the
  controller succeeds, and the index of the communicator if one can be created.\<close>

record mesh_answer =
  ma_exchanged :: bool
  ma_created :: "nat option"

definition execute_build_mesh :: "(string, int) dict \<Rightarrow> mesh_answer \<Rightarrow> ha_nccl \<Rightarrow> ha_nccl outcome" where
  "execute_build_mesh ranks ans s =
     (if length ranks = 1 then
        let s = s\<lparr>ha_replica_name_to_rank := ranks\<rparr> in
        if \<not> dict_has ranks (ha_replica_name s) then Inl (AssertionError, s)
        else Inr (s\<lparr>ha_is_single_peer := True, ha_is_comm_ready := True\<rparr>)
      else
        case dict_get ranks (ha_replica_name s) of
          None \<Rightarrow> Inl (AssertionError, s)
        | Some rank \<Rightarrow>
            let key = get_mesh_unique_key (ha_global_rank s) ranks;
                s = nccl_report (if rank = 0 then CommInitiator key else CommAcceptor key) s in
            if \<not> ma_exchanged ans then Inl (RuntimeError, s)
            else
              case ma_created ans of
                None \<Rightarrow> Inr (execute_destroy_nccl_comm (nccl_report (CommError (ha_replica_name s)) s))
              | Some i \<Rightarrow>
                  let s = s\<lparr>ha_comm_idx := Some i, ha_is_first_time := False, ha_replica_name_to_rank := ranks,
                        ha_is_single_peer := False, ha_is_comm_ready := True\<rparr> in
                  Inr (if rank = 0 then nccl_report (ClearCommStore key) s else s))"

text \<open>One turn of the thread. An exception ends it: nothing catches it.\<close>

definition mesh_turn :: "mesh_answer \<Rightarrow> ha_nccl \<Rightarrow> ha_nccl" where
  "mesh_turn ans s =
     (if \<not> ha_thread_alive s then s
      else
        case ha_cmd_queue s of
          [] \<Rightarrow> s
        | cmd # q \<Rightarrow>
            let s = execute_destroy_nccl_comm (s\<lparr>ha_cmd_queue := q\<rparr>) in
            case cmd of
              Destroy \<Rightarrow> s
            | Rebuild ranks \<Rightarrow>
                (case execute_build_mesh ranks ans s of
                   Inl (e, s) \<Rightarrow> s\<lparr>ha_thread_alive := False\<rparr>
                 | Inr s \<Rightarrow> s))"

definition push_cmd :: "mesh_command \<Rightarrow> ha_nccl \<Rightarrow> ha_nccl" where
  "push_cmd cmd s = s\<lparr>ha_cmd_queue := ha_cmd_queue s @ [cmd]\<rparr>"

section \<open>Operations of the main thread\<close>

text \<open>An attempt: the turns of the background thread while it waits for the communicator, and
  whether the operation then succeeds.\<close>

record nccl_attempt =
  na_turns :: "mesh_answer list"
  na_ok :: bool

text \<open>One iteration of the loop of \<open>__do_nccl_op_with_retry\<close>: a wait that ends with no communicator
  is a \<open>TimeoutError\<close>, and is caught like the errors of the operation.\<close>

definition try_nccl_op :: "nccl_attempt \<Rightarrow> ha_nccl \<Rightarrow> bool \<times> ha_nccl" where
  "try_nccl_op a s =
     (let s = fold mesh_turn (na_turns a) s in
      case (ha_is_comm_ready s \<and> na_ok a, ha_comm_idx s) of
        (True, Some i) \<Rightarrow> (True, s\<lparr>ha_ran := ha_ran s @ [(i, ha_replica_name_to_rank s)]\<rparr>)
      | _ \<Rightarrow> (False, nccl_report (CommError (ha_replica_name s)) (s\<lparr>ha_is_comm_ready := False\<rparr>)))"

fun retry_nccl_op :: "nat \<Rightarrow> nccl_attempt list \<Rightarrow> ha_nccl \<Rightarrow> ha_nccl outcome" where
  "retry_nccl_op 0 as s = Inl (RuntimeError, s)"
| "retry_nccl_op (Suc n) [] s = Inl (Blocks, s)"
| "retry_nccl_op (Suc n) (a # as) s = (case try_nccl_op a s of (True, s) \<Rightarrow> Inr s | (False, s) \<Rightarrow> retry_nccl_op n as s)"

definition do_nccl_op_with_retry :: "nccl_attempt list \<Rightarrow> ha_nccl \<Rightarrow> ha_nccl outcome" where
  "do_nccl_op_with_retry as s = (if ha_is_single_peer s then Inr s else retry_nccl_op (ha_max_retry s) as s)"

text \<open>\<open>get_replica_rank\<close> waits without a limit; \<open>turns\<close> is what the background thread does
  meanwhile.\<close>

definition get_replica_rank :: "mesh_answer list \<Rightarrow> string \<Rightarrow> ha_nccl \<Rightarrow> (py_error \<times> ha_nccl) + (int \<times> ha_nccl)" where
  "get_replica_rank turns nm s =
     (let s = fold mesh_turn turns s in
      if \<not> ha_is_comm_ready s then Inl (Blocks, s)
      else case dict_get (ha_replica_name_to_rank s) nm of None \<Rightarrow> Inl (KeyError, s) | Some r \<Rightarrow> Inr (r, s))"

definition nccl_allreduce :: "nccl_attempt list \<Rightarrow> ha_nccl \<Rightarrow> ha_nccl outcome" where
  "nccl_allreduce = do_nccl_op_with_retry"

text \<open>\<open>broadcast\<close>, \<open>send\<close> and \<open>recv\<close>: the rank of the other replica first.\<close>

definition nccl_with_peer :: "mesh_answer list \<Rightarrow> string \<Rightarrow> nccl_attempt list \<Rightarrow> ha_nccl \<Rightarrow> ha_nccl outcome" where
  "nccl_with_peer turns peer as s = bindR (get_replica_rank turns peer s) (\<lambda>(r, s). do_nccl_op_with_retry as s)"

text \<open>\<open>world_size\<close>: a failing query of the communicator is \<open>-1\<close>.\<close>

definition nccl_world_size :: "int option \<Rightarrow> ha_nccl \<Rightarrow> py_error + int" where
  "nccl_world_size nranks s =
     (if ha_is_single_peer s then Inr 1
      else if \<not> ha_is_comm_ready s then Inl RuntimeError
      else Inr (case nranks of None \<Rightarrow> -1 | Some n \<Rightarrow> n))"

section \<open>Runs\<close>

datatype ha_event =
    PushMesh mesh_command
  | MeshTurn mesh_answer
  | AllReduce "nccl_attempt list"
  | WithPeer "mesh_answer list" string "nccl_attempt list"

definition ha_step :: "ha_event \<Rightarrow> ha_nccl \<Rightarrow> ha_nccl" where
  "ha_step ev s =
     (case ev of
        PushMesh cmd \<Rightarrow> push_cmd cmd s
      | MeshTurn ans \<Rightarrow> mesh_turn ans s
      | AllReduce as \<Rightarrow> after (nccl_allreduce as s)
      | WithPeer turns peer as \<Rightarrow> after (nccl_with_peer turns peer as s))"

definition ha_run :: "ha_event list \<Rightarrow> ha_nccl \<Rightarrow> ha_nccl" where
  "ha_run evs s = fold ha_step evs s"

section \<open>Operations run on the current mesh\<close>

text \<open>A mesh in which an operation makes sense for this replica.\<close>

definition proper_mesh :: "string \<Rightarrow> (string, int) dict \<Rightarrow> bool" where
  "proper_mesh nm ranks \<longleftrightarrow> dict_has ranks nm \<and> length ranks \<noteq> 1"

definition ha_inv :: "string \<Rightarrow> ha_nccl \<Rightarrow> bool" where
  "ha_inv nm s \<longleftrightarrow> ha_replica_name s = nm \<and>
     (ha_comm_idx s \<noteq> None \<longrightarrow> proper_mesh nm (ha_replica_name_to_rank s)) \<and>
     (\<forall>x\<in>set (ha_ran s). proper_mesh nm (snd x))"

lemma ha_inv_init: "ha_inv nm (init_ha_nccl nm rank)"
  by (simp add: ha_inv_def init_ha_nccl_def)

lemma ha_inv_frame [simp]:
  "ha_inv nm (nccl_report p s) = ha_inv nm s" "ha_inv nm (s\<lparr>ha_cmd_queue := q\<rparr>) = ha_inv nm s"
  "ha_inv nm (s\<lparr>ha_is_comm_ready := b\<rparr>) = ha_inv nm s" "ha_inv nm (s\<lparr>ha_thread_alive := b\<rparr>) = ha_inv nm s"
  "ha_inv nm s \<Longrightarrow> ha_inv nm (execute_destroy_nccl_comm s)" "ha_inv nm s \<Longrightarrow> ha_inv nm (s\<lparr>ha_comm_idx := None\<rparr>)"
  by (simp_all add: ha_inv_def nccl_report_def execute_destroy_nccl_comm_def)

lemma execute_build_mesh_inv:
  "ha_inv nm s \<Longrightarrow> ha_comm_idx s = None \<Longrightarrow> keeps (ha_inv nm) (execute_build_mesh ranks ans s)"
  unfolding execute_build_mesh_def
  by (auto simp: Let_def ha_inv_def nccl_report_def execute_destroy_nccl_comm_def proper_mesh_def split: option.splits)

lemma mesh_turn_inv: "ha_inv nm s \<Longrightarrow> ha_inv nm (mesh_turn ans s)"
proof (cases "ha_thread_alive s \<and> ha_cmd_queue s \<noteq> []")
  case True
  assume inv: "ha_inv nm s"
  obtain cmd q where q: "ha_cmd_queue s = cmd # q" using True by (cases "ha_cmd_queue s") auto
  let ?s = "execute_destroy_nccl_comm (s\<lparr>ha_cmd_queue := q\<rparr>)"
  have "ha_inv nm ?s" using inv by simp
  moreover have "ha_inv nm (case execute_build_mesh ranks ans ?s of Inl (e, s) \<Rightarrow> s\<lparr>ha_thread_alive := False\<rparr> | Inr s \<Rightarrow> s)" for ranks
    using execute_build_mesh_inv [of nm ?s ranks ans] inv
    by (auto simp: keeps_def after_def execute_destroy_nccl_comm_def [of "s\<lparr>ha_cmd_queue := q\<rparr>"] split: sum.splits)
  ultimately show ?thesis
    using True q by (cases cmd) (simp_all add: mesh_turn_def Let_def)
qed (auto simp: mesh_turn_def split: list.splits)

lemma mesh_turns_inv: "ha_inv nm s \<Longrightarrow> ha_inv nm (fold mesh_turn turns s)"
  by (induction turns arbitrary: s) (simp_all add: mesh_turn_inv)


lemma try_nccl_op_inv: "ha_inv nm s \<Longrightarrow> ha_inv nm (snd (try_nccl_op a s))"
  using mesh_turns_inv [of nm s "na_turns a"]
  by (auto simp: try_nccl_op_def Let_def split: option.splits bool.splits) (auto simp: ha_inv_def)

lemma retry_nccl_op_inv: "ha_inv nm s \<Longrightarrow> keeps (ha_inv nm) (retry_nccl_op n as s)"
proof (induction n as s rule: retry_nccl_op.induct)
  case (3 n a as s)
  then show ?case using try_nccl_op_inv [OF 3(2), of a] by (auto split: prod.splits bool.splits)
qed simp_all

lemma do_nccl_op_inv: "ha_inv nm s \<Longrightarrow> keeps (ha_inv nm) (do_nccl_op_with_retry as s)"
  by (simp add: do_nccl_op_with_retry_def retry_nccl_op_inv)

lemma nccl_with_peer_inv: "ha_inv nm s \<Longrightarrow> keeps (ha_inv nm) (nccl_with_peer turns peer as s)"
  using mesh_turns_inv [of nm s turns]
  by (auto simp: nccl_with_peer_def get_replica_rank_def do_nccl_op_inv Let_def split: option.splits)

lemma ha_run_inv: "ha_inv nm s \<Longrightarrow> ha_inv nm (ha_run evs s)"
proof (induction evs arbitrary: s)
  case (Cons ev evs)
  have "ha_inv nm (ha_step ev s)"
    using Cons.prems do_nccl_op_inv [of nm s] nccl_with_peer_inv [of nm s]
    by (cases ev) (auto simp: ha_step_def push_cmd_def mesh_turn_inv nccl_allreduce_def keeps_def)
  then show ?case using Cons.IH by (simp add: ha_run_def)
qed (simp add: ha_run_def)

text \<open>C19: Whatever mesh commands arrive and however operations and the background thread interleave,
  an operation between policy replicas only runs on the communicator of a mesh that has several
  members and includes this replica.\<close>

theorem nccl_ops_on_proper_mesh:
  assumes "(i, ranks) \<in> set (ha_ran (ha_run evs (init_ha_nccl nm rank)))"
  shows "dict_has ranks nm \<and> length ranks \<noteq> 1"
  using ha_run_inv [OF ha_inv_init [of nm rank], of evs] assms by (auto simp: ha_inv_def proper_mesh_def)

definition two_replicas :: "(string, int) dict" where
  "two_replicas = [(''p0'', 0), (''p1'', 1)]"

definition mesh_made :: mesh_answer where
  "mesh_made = \<lparr>ma_exchanged = True, ma_created = Some 7\<rparr>"

definition op_succeeds :: "nccl_attempt list" where
  "op_succeeds = [\<lparr>na_turns = [], na_ok = True\<rparr>]"

definition op_after_rebuild :: "ha_event list" where
  "op_after_rebuild = [PushMesh (Rebuild two_replicas), AllReduce [\<lparr>na_turns = [], na_ok = True\<rparr>,
     \<lparr>na_turns = [mesh_made], na_ok = True\<rparr>]]"

lemmas ha_sample_defs = two_replicas_def mesh_made_def op_succeeds_def op_after_rebuild_def

theorem nccl_ops_on_proper_mesh_witness:
  "ha_ran (ha_run op_after_rebuild (init_ha_nccl ''p0'' 0)) = [(7, two_replicas)] \<and> dict_has two_replicas ''p0''"
proof -
  have run: "ha_ran (ha_run op_after_rebuild (init_ha_nccl ''p0'' 0)) = [(7, two_replicas)]" by code_simp
  then have "(7, two_replicas) \<in> set (ha_ran (ha_run op_after_rebuild (init_ha_nccl ''p0'' 0)))" by simp
  from nccl_ops_on_proper_mesh [OF this] run show ?thesis by simp
qed

text \<open>C20: A replica that is alone in its mesh runs no operation between replicas, and it counts as
  alone until the background thread has built another mesh: while the command that adds a second
  replica waits in the queue, an all-reduce returns at once, without an error and without the
  other replica, and so does it after the new communicator could not be created.\<close>

theorem single_peer_skips:
  assumes "ha_is_single_peer s" "ha_cmd_queue s = []" "ha_thread_alive s" "1 < length ranks" "dict_has ranks (ha_replica_name s)"
  defines "waiting \<equiv> push_cmd (Rebuild ranks) s"
  defines "failed \<equiv> mesh_turn \<lparr>ma_exchanged = True, ma_created = None\<rparr> waiting"
  shows "nccl_allreduce as waiting = Inr waiting \<and> nccl_allreduce as failed = Inr failed \<and>
    ha_posts failed = ha_posts s @ [(if dict_get ranks (ha_replica_name s) = Some 0 then CommInitiator else CommAcceptor)
      (get_mesh_unique_key (ha_global_rank s) ranks), CommError (ha_replica_name s)]"
  using assms
  by (auto simp: nccl_allreduce_def do_nccl_op_with_retry_def push_cmd_def mesh_turn_def execute_build_mesh_def
      execute_destroy_nccl_comm_def nccl_report_def Let_def)

definition alone :: ha_nccl where
  "alone = ha_run [PushMesh (Rebuild [(''p0'', 0)]), MeshTurn mesh_made] (init_ha_nccl ''p0'' 0)"

theorem single_peer_skips_witness:
  "ha_is_single_peer alone \<and> nccl_allreduce [] (push_cmd (Rebuild two_replicas) alone) = Inr (push_cmd (Rebuild two_replicas) alone)"
proof -
  have "ha_is_single_peer alone" "ha_cmd_queue alone = []" "ha_thread_alive alone" "1 < length two_replicas"
    "dict_has two_replicas (ha_replica_name alone)" by code_simp+
  then show ?thesis using single_peer_skips [of alone two_replicas "[]"] by blast
qed

section \<open>The key of a mesh\<close>

text \<open>The replicas of a mesh compute the same key, in whatever order each of them received the
  members: the key depends only on who has which rank.\<close>

theorem mesh_key_agrees:
  assumes "mset ranks = mset ranks'" "distinct (map snd ranks)"
  shows "get_mesh_unique_key g ranks = get_mesh_unique_key g ranks'"
proof -
  have "sort_key snd ranks = sort_key snd ranks'"
    using assms by (intro sort_key_inj_key_eq) (simp_all add: distinct_map)
  then show ?thesis by (simp add: get_mesh_unique_key_def)
qed


theorem mesh_key_agrees_witness:
  "get_mesh_unique_key 3 two_replicas = get_mesh_unique_key 3 (rev two_replicas) \<and> get_mesh_unique_key 3 two_replicas = ''p0_p1_3''"
proof -
  have "get_mesh_unique_key 3 two_replicas = ''p0_p1_3''" by code_simp
  then show ?thesis using mesh_key_agrees [of two_replicas "rev two_replicas" 3] by (simp add: two_replicas_def)
qed

text \<open>An operation gives up after \<open>max_retry\<close> failures: it reports each of them to the
  controller, one report for one failed attempt, and then raises.\<close>

lemma nccl_retries_bounded:
  assumes "nccl_allreduce as s = Inl (RuntimeError, s')" "ha_max_retry s \<le> length as" "list_all (\<lambda>a. na_turns a = []) as"
  shows "ha_posts s' = ha_posts s @ replicate (ha_max_retry s) (CommError (ha_replica_name s))"
proof -
  have "retry_nccl_op n as s = Inl (RuntimeError, s') \<Longrightarrow> list_all (\<lambda>a. na_turns a = []) as \<Longrightarrow>
      ha_posts s' = ha_posts s @ replicate n (CommError (ha_replica_name s))" for n
  proof (induction n as s rule: retry_nccl_op.induct)
    case (3 n a as s)
    obtain s1 where s1: "try_nccl_op a s = (False, s1)" "retry_nccl_op n as s1 = Inl (RuntimeError, s')"
      using 3(2) by (auto split: prod.splits bool.splits)
    have "ha_posts s1 = ha_posts s @ [CommError (ha_replica_name s)] \<and> ha_replica_name s1 = ha_replica_name s"
      using s1(1) 3(3) by (auto simp: try_nccl_op_def nccl_report_def Let_def split: bool.splits option.splits prod.splits)
    then show ?case using 3(1) s1 3(3) by auto
  qed simp_all
  then show ?thesis
    using assms by (auto simp: nccl_allreduce_def do_nccl_op_with_retry_def split: if_splits)
qed

end
