(* ===== verification/Policy_Worker.thy ===== *)
theory Policy_Worker
  imports HA_Nccl Shard_Plan Parallel_Dims
begin

text \<open>
  The worker of a policy replica (cosmos_rl/policy/worker/rl_worker.py): the threads that fetch
  commands and rollouts, the main loop, the handlers of the commands, the distribution of a batch
  over the ranks and the instructions it sends its weights by. The ranks of a replica execute the
  same commands in the same order and meet in collectives, so the state is that of the replica;
  where ranks differ a list has one entry per rank, and the communicator is that of one of them.
  The trainer is a parameter: whether a training step, a checkpoint or its invalidation succeeds
  on a rank is an input, and what was trained, sent and acknowledged is a log.
\<close>

section \<open>State\<close>

record policy_config =
  pc_replica_name :: string
  pc_dims :: parallel_dims
  pc_world_size :: nat
  pc_dp_world_size :: nat
  pc_uncentralized_training :: bool
  pc_distillation :: bool
  pc_local_dataset :: bool
  pc_data_dispatch_as_rank_in_mesh :: bool
  pc_validation_enable :: bool
  pc_resume :: bool
  pc_p2r_group_size :: int
  pc_weight_names :: "string list option"
  pc_trainable_params :: "string list"

text \<open>What the worker asks for: prompts of the local dataset, and the send instructions of a rank.\<close>

record policy_env =
  pe_prompt :: "int \<Rightarrow> pyval"
  pe_conversation :: "int \<Rightarrow> conversation option"
  pe_send_insts :: "nat \<Rightarrow> group_insts list"

record send_op =
  so_param_name :: string
  so_rollout_rank :: nat
  so_slices :: slices

record trained_step =
  tr_step :: "int option"
  tr_rollouts :: "rollout list list"
  tr_do_save :: bool

record policy_worker =
  pw_incoming :: "rollout list"
  pw_teacher_pending :: "string option"
  pw_data_queue :: "rollout list"
  pw_teacher_prefetch_queue :: "string list"
  pw_teacher_uuid_to_dp_shard :: "(string, nat) dict"
  pw_teacher_interact_queues :: "string list list"
  pw_fetch_alive :: bool
  pw_fetch_command_buffer :: "command_body list"
  pw_command_buffer :: "command_body list"
  pw_replica_batch :: int
  pw_is_master_replica :: bool
  pw_model_ready :: bool
  pw_signal_handled :: bool
  pw_nccl :: ha_nccl
  pw_send_insts :: "group_insts list list option"
  pw_synced_trainable :: "nat list option"
  pw_abort :: bool
  pw_finished :: bool
  pw_executed :: "(command_body \<times> bool) list"
  pw_trained :: "trained_step list"
  pw_sent :: "send_op list list list"
  pw_saved :: "int list"
  pw_acks :: "(int option \<times> int option) list"
  pw_resumed :: bool

definition init_policy_worker :: "policy_config \<Rightarrow> policy_worker" where
  "init_policy_worker c = \<lparr>pw_incoming = [], pw_teacher_pending = None, pw_data_queue = [],
     pw_teacher_prefetch_queue = [], pw_teacher_uuid_to_dp_shard = [],
     pw_teacher_interact_queues = replicate (pc_dp_world_size c) [], pw_fetch_alive = True,
     pw_fetch_command_buffer = [], pw_command_buffer = [], pw_replica_batch = 0, pw_is_master_replica = True,
     pw_model_ready = False, pw_signal_handled = False, pw_nccl = init_ha_nccl (pc_replica_name c) 0,
     pw_send_insts = None, pw_synced_trainable = None, pw_abort = False, pw_finished = False, pw_executed = [],
     pw_trained = [], pw_sent = [], pw_saved = [], pw_acks = [], pw_resumed = False\<rparr>"

section \<open>The fetching threads\<close>

text \<open>One statement of the loop of \<open>fetch_rollouts\<close>: a rollout is put into the queue, and its
  teacher uuid, if it has one, by the statement after it.\<close>

definition fetch_rollout_turn :: "policy_worker \<Rightarrow> policy_worker" where
  "fetch_rollout_turn s =
     (case pw_teacher_pending s of
        Some u \<Rightarrow> s\<lparr>pw_teacher_prefetch_queue := pw_teacher_prefetch_queue s @ [u], pw_teacher_pending := None\<rparr>
      | None \<Rightarrow>
          (case pw_incoming s of
             [] \<Rightarrow> s
           | r # rs \<Rightarrow> s\<lparr>pw_incoming := rs, pw_data_queue := pw_data_queue s @ [r],
               pw_teacher_pending := (if ro_teacher_result_uuid r = [] then None else Some (ro_teacher_result_uuid r))\<rparr>))"

text \<open>\<open>fetch_command\<close>: a mesh goes to the communicator at once; a mesh without this replica is a
  \<open>KeyError\<close>, which ends the thread with the rest of the commands unread.\<close>

fun fetch_commands :: "policy_config \<Rightarrow> command_body list \<Rightarrow> policy_worker \<Rightarrow> policy_worker" where
  "fetch_commands c [] s = s"
| "fetch_commands c (cmd # cmds) s =
     (if \<not> pw_fetch_alive s then s
      else
        case cmd of
          BuildMesh ranks \<Rightarrow>
            (case dict_get ranks (pc_replica_name c) of
               None \<Rightarrow> s\<lparr>pw_fetch_alive := False\<rparr>
             | Some r \<Rightarrow> fetch_commands c cmds
                 (s\<lparr>pw_is_master_replica := (r = 0), pw_nccl := push_cmd (Rebuild ranks) (pw_nccl s)\<rparr>))
        | _ \<Rightarrow> fetch_commands c cmds (s\<lparr>pw_fetch_command_buffer := pw_fetch_command_buffer s @ [cmd]\<rparr>))"

definition broadcast_command :: "policy_worker \<Rightarrow> policy_worker" where
  "broadcast_command s = s\<lparr>pw_command_buffer := pw_command_buffer s @ pw_fetch_command_buffer s, pw_fetch_command_buffer := []\<rparr>"

section \<open>The batch of a step\<close>

text \<open>\<open>prepare_teacher_uuids_for_prefetch\<close>: the uuids that are there now are handed to the
  data-parallel shards in turn, from \<open>prefetch_dp_id\<close> on.\<close>

definition wrap_id :: "nat \<Rightarrow> nat \<Rightarrow> nat" where
  "wrap_id n i = (if n \<le> i + 1 then 0 else i + 1)"

definition assign_teacher :: "nat \<Rightarrow> string \<Rightarrow> nat \<times> policy_worker \<Rightarrow> nat \<times> policy_worker" where
  "assign_teacher n u = (\<lambda>(i, s). (wrap_id n i,
     s\<lparr>pw_teacher_uuid_to_dp_shard := dict_set u i (pw_teacher_uuid_to_dp_shard s),
       pw_teacher_interact_queues := (pw_teacher_interact_queues s)[i := pw_teacher_interact_queues s ! i @ [u]]\<rparr>))"

definition prepare_teacher_uuids_for_prefetch :: "policy_config \<Rightarrow> nat \<Rightarrow> policy_worker \<Rightarrow> nat \<times> policy_worker" where
  "prepare_teacher_uuids_for_prefetch c i s =
     (if \<not> pc_distillation c then (i, s)
      else fold (assign_teacher (pc_dp_world_size c)) (pw_teacher_prefetch_queue s) (i, s\<lparr>pw_teacher_prefetch_queue := []\<rparr>))"

text \<open>The check that the teacher's result went to the shard of the rollout.\<close>

definition check_teacher_shard :: "nat \<Rightarrow> rollout \<Rightarrow> policy_worker \<Rightarrow> policy_worker outcome" where
  "check_teacher_shard dp_id r s =
     (let u = ro_teacher_result_uuid r in
      if u = [] then Inr s
      else if dict_get (pw_teacher_uuid_to_dp_shard s) u = Some dp_id
      then Inr (s\<lparr>pw_teacher_uuid_to_dp_shard := dict_pop u (pw_teacher_uuid_to_dp_shard s)\<rparr>)
      else Inl (AssertionError, s\<lparr>pw_teacher_uuid_to_dp_shard := dict_pop u (pw_teacher_uuid_to_dp_shard s)\<rparr>))"

text \<open>A rollout goes to every rank of the shard.\<close>

definition scatter_to :: "policy_config \<Rightarrow> nat \<Rightarrow> rollout \<Rightarrow> rollout list list \<Rightarrow> py_error + rollout list list" where
  "scatter_to c dp_id r scattered =
     mapR (\<lambda>(i, rs). bindR (get_rank_in_dim (pc_dims c) ''dp'' i) (\<lambda>d. Inr (if d = dp_id then rs @ [r] else rs)))
       (zip [0..<length scattered] scattered)"

text \<open>The loop of rank 0: \<open>sched k\<close> is how many statements the fetching thread executes before the
  rollout is taken and after it, when \<open>k\<close> more are to come.\<close>

fun scatter_rollouts ::
  "policy_config \<Rightarrow> (nat \<Rightarrow> nat \<times> nat) \<Rightarrow> nat \<Rightarrow> nat \<Rightarrow> nat \<Rightarrow> rollout list list \<Rightarrow> policy_worker
    \<Rightarrow> (py_error \<times> policy_worker) + (rollout list list \<times> policy_worker)" where
  "scatter_rollouts c sched 0 dp_id prefetch_dp_id scattered s = Inr (scattered, s)"
| "scatter_rollouts c sched (Suc k) dp_id prefetch_dp_id scattered s =
     (let s = (fetch_rollout_turn ^^ fst (sched k)) s in
      case pw_data_queue s of
        [] \<Rightarrow> Inl (Blocks, s)
      | r # q \<Rightarrow>
          let s = (fetch_rollout_turn ^^ snd (sched k)) (s\<lparr>pw_data_queue := q\<rparr>);
              (prefetch_dp_id, s) = prepare_teacher_uuids_for_prefetch c prefetch_dp_id s in
          bindR (check_teacher_shard dp_id r s) (\<lambda>s.
          case scatter_to c dp_id r scattered of
            Inl e \<Rightarrow> Inl (e, s)
          | Inr scattered \<Rightarrow> scatter_rollouts c sched k (wrap_id (pc_dp_world_size c) dp_id) prefetch_dp_id scattered s))"

text \<open>\<open>preprocess_rollouts\<close> on one rank.\<close>

definition belongs_here :: "policy_config \<Rightarrow> policy_worker \<Rightarrow> rollout \<Rightarrow> py_error + unit" where
  "belongs_here c s r =
     (let ranks = ha_replica_name_to_rank (pw_nccl s) in
      if ranks = [] then Inl ZeroDivisionError
      else case dict_get ranks (pc_replica_name c) of
        None \<Rightarrow> Inl KeyError
      | Some k \<Rightarrow> if ro_prompt_idx r mod int (length ranks) = k then Inr () else Inl AssertionError)"

definition preprocess_rollouts :: "policy_env \<Rightarrow> policy_config \<Rightarrow> policy_worker \<Rightarrow> rollout list \<Rightarrow> py_error + rollout list" where
  "preprocess_rollouts env c s rs =
     (if \<not> list_all (\<lambda>r. 0 \<le> ro_prompt_idx r) rs then Inl AssertionError
      else if \<not> pc_local_dataset c then Inr rs
      else
        bindR (if pc_data_dispatch_as_rank_in_mesh c then mapR (belongs_here c s) rs else Inr []) (\<lambda>_.
        Inr (map (\<lambda>r. r\<lparr>ro_prompt := pe_prompt env (ro_prompt_idx r), ro_conversation := pe_conversation env (ro_prompt_idx r)\<rparr>) rs)))"

text \<open>\<open>dispatch_rollouts\<close>: what every rank trains on. In uncentralized training every rank reads its
  own queue, and only that of rank 0 is ever filled.\<close>

definition worker_dispatch_rollouts ::
  "policy_env \<Rightarrow> policy_config \<Rightarrow> (nat \<Rightarrow> nat \<times> nat) \<Rightarrow> policy_worker
    \<Rightarrow> (py_error \<times> policy_worker) + (rollout list list \<times> policy_worker)" where
  "worker_dispatch_rollouts env c sched s =
     (let dp = pc_dp_world_size c;
          batch = nat (pw_replica_batch s div int dp * int dp) in
      if dp = 0 then Inl (ZeroDivisionError, s)
      else
        bindR (if pc_uncentralized_training c then
            let n = batch div dp; s = (fetch_rollout_turn ^^ fst (sched 0)) s in
            if 0 < n \<and> (1 < pc_world_size c \<or> length (pw_data_queue s) < n) then Inl (Blocks, s)
            else Inr (replicate (pc_world_size c) (take n (pw_data_queue s)), s\<lparr>pw_data_queue := drop n (pw_data_queue s)\<rparr>)
          else scatter_rollouts c sched batch 0 0 (replicate (pc_world_size c) []) s) (\<lambda>(scattered, s).
        case mapR (preprocess_rollouts env c s) scattered of Inl e \<Rightarrow> Inl (e, s) | Inr per_rank \<Rightarrow> Inr (per_rank, s)))"

section \<open>Sending weights\<close>

text \<open>The operations of a parameter on one rank; a parameter that is not trainable is skipped when
  only the trainable ones are synchronised.\<close>

definition send_parameter :: "policy_config \<Rightarrow> bool \<Rightarrow> nat \<Rightarrow> param_insts \<Rightarrow> py_error + (send_op list \<times> nat)" where
  "send_parameter c trainable_only rank pin =
     (if ip_param_name pin \<notin> set (pc_trainable_params c) \<and> trainable_only then Inr ([], 0)
      else
        bindR (mapR (\<lambda>i.
          if ip_param_name pin \<notin> set (case pc_weight_names c of None \<Rightarrow> [] | Some ns \<Rightarrow> ns) then Inl RuntimeError
          else if i_policy_rank i \<noteq> rank then Inl AssertionError
          else Inr \<lparr>so_param_name = ip_param_name pin, so_rollout_rank = i_rollout_rank i, so_slices = i_slice_strategy i\<rparr>)
          (ip_instructions pin)) (\<lambda>ops. Inr (ops, 1)))"

text \<open>The loop over the groups of parameters: the pending operations are sent after every
  \<open>COSMOS_P2R_NCCL_GROUP_SIZE\<close> groups, and what is left at the end.\<close>

fun send_groups ::
  "policy_config \<Rightarrow> bool \<Rightarrow> nat \<Rightarrow> group_insts list \<Rightarrow> send_op list \<Rightarrow> int \<Rightarrow> nat \<Rightarrow> py_error + (send_op list list \<times> nat)" where
  "send_groups c trainable_only rank [] pending n cnt = Inr ([pending], cnt)"
| "send_groups c trainable_only rank (g # gs) pending n cnt =
     bindR (mapR (send_parameter c trainable_only rank) (ig_param_instructions g)) (\<lambda>xs.
     let pending = pending @ concat (map fst xs); cnt = cnt + sum_list (map snd xs) in
     if pc_p2r_group_size c \<le> n + 1
     then bindR (send_groups c trainable_only rank gs [] 0 cnt) (\<lambda>(batches, cnt). Inr (pending # batches, cnt))
     else send_groups c trainable_only rank gs pending (n + 1) cnt)"

definition send_weights :: "policy_config \<Rightarrow> bool \<Rightarrow> nat \<Rightarrow> group_insts list \<Rightarrow> py_error + (send_op list list \<times> nat)" where
  "send_weights c trainable_only rank gs = send_groups c trainable_only rank gs [] 0 0"

definition execute_policy_to_rollout_unicast ::
  "policy_env \<Rightarrow> policy_config \<Rightarrow> p2r_args \<Rightarrow> policy_worker \<Rightarrow> (py_error \<times> policy_worker) + (bool \<times> policy_worker)" where
  "execute_policy_to_rollout_unicast env c a s =
     (if p2r_src_size a \<noteq> int (pc_world_size c) then Inl (AssertionError, s)
      else if p2r_src a \<noteq> pc_replica_name c then Inr (False, s)
      else if pc_weight_names c = None then Inl (AssertionError, s)
      else
        let insts = (case pw_send_insts s of Some is \<Rightarrow> is | None \<Rightarrow> map (pe_send_insts env) [0..<pc_world_size c]);
            s = s\<lparr>pw_send_insts := Some insts\<rparr> in
        case mapR (\<lambda>(rank, gs). send_weights c (p2r_trainable_only a) rank gs) (zip [0..<length insts] insts) of
          Inl e \<Rightarrow> Inl (e, s)
        | Inr xs \<Rightarrow>
            let s = s\<lparr>pw_sent := pw_sent s @ map fst xs\<rparr>; cnts = map snd xs in
            if \<not> p2r_trainable_only a then Inr (False, s)
            else
              case pw_synced_trainable s of
                None \<Rightarrow> Inr (False, s\<lparr>pw_synced_trainable := Some cnts\<rparr>)
              | Some cs \<Rightarrow> if cs = cnts then Inr (False, s) else Inl (AssertionError, s))"

section \<open>Weights between policy replicas\<close>

text \<open>\<open>sync_all_states\<close> transfers one tensor after the other, each an operation of the communicator;
  how each of them goes is an input.\<close>

type_synonym peer_op = "mesh_answer list \<times> nccl_attempt list"

definition sync_all_states :: "string \<Rightarrow> peer_op list \<Rightarrow> policy_worker \<Rightarrow> policy_worker outcome" where
  "sync_all_states peer ops s =
     (case forR ops (\<lambda>(turns, as) h. nccl_with_peer turns peer as h) (pw_nccl s) of
        Inl (e, h) \<Rightarrow> Inl (e, s\<lparr>pw_nccl := h\<rparr>) | Inr h \<Rightarrow> Inr (s\<lparr>pw_nccl := h\<rparr>))"

text \<open>The log line after the transfer asks for the ranks of the replicas it names.\<close>

definition ask_rank :: "string \<Rightarrow> policy_worker \<Rightarrow> policy_worker outcome" where
  "ask_rank nm s = (case get_replica_rank [] nm (pw_nccl s) of
     Inl (e, h) \<Rightarrow> Inl (e, s\<lparr>pw_nccl := h\<rparr>) | Inr (r, h) \<Rightarrow> Inr (s\<lparr>pw_nccl := h\<rparr>))"

definition execute_policy_to_policy_broadcast ::
  "policy_config \<Rightarrow> string \<Rightarrow> string list \<Rightarrow> peer_op list \<Rightarrow> policy_worker
    \<Rightarrow> (py_error \<times> policy_worker) + (bool \<times> policy_worker)" where
  "execute_policy_to_policy_broadcast c src dsts ops s =
     (let send = (pc_replica_name c = src); recv = (pc_replica_name c \<in> set dsts \<and> \<not> send) in
      if \<not> send \<and> \<not> recv then Inr (True, s)
      else
        bindR (sync_all_states src ops s) (\<lambda>s.
        bindR (ask_rank src (if recv then s\<lparr>pw_model_ready := True\<rparr> else s)) (\<lambda>s. Inr (False, s))))"

definition execute_policy_to_policy_unicast ::
  "policy_config \<Rightarrow> string \<Rightarrow> string \<Rightarrow> peer_op list \<Rightarrow> policy_worker
    \<Rightarrow> (py_error \<times> policy_worker) + (bool \<times> policy_worker)" where
  "execute_policy_to_policy_unicast c src dst ops s =
     (let send = (pc_replica_name c = src); recv = (pc_replica_name c = dst) in
      if \<not> send \<and> \<not> recv then Inr (False, s)
      else
        bindR (sync_all_states (if send then dst else src) ops s) (\<lambda>s.
        bindR (ask_rank src (if recv then s\<lparr>pw_model_ready := True\<rparr> else s)) (\<lambda>s.
        bindR (ask_rank dst s) (\<lambda>s. Inr (False, s)))))"

section \<open>Training\<close>

text \<open>\<open>is_master_rank\<close>: the rank that acknowledges a step; with pipeline stages the first rank of
  the last one. The quotient of the source is exact when the stages have equally many ranks.\<close>

definition is_master_rank :: "parallel_dims \<Rightarrow> nat \<Rightarrow> bool" where
  "is_master_rank d g \<longleftrightarrow>
     (if pd_pp d \<le> 1 then g = 0 else int g * pd_pp d = pd_world_size d * pd_pp d - pd_world_size d)"

definition acknowledge :: "policy_config \<Rightarrow> int option \<Rightarrow> int option \<Rightarrow> policy_worker \<Rightarrow> policy_worker" where
  "acknowledge c step total_steps s =
     s\<lparr>pw_acks := pw_acks s @ map (\<lambda>_. (step, total_steps)) (filter (is_master_rank (pc_dims c)) [0..<pc_world_size c])\<rparr>"

text \<open>What the environment decides about the execution of a command.\<close>

record exec_input =
  ei_sched :: "nat \<Rightarrow> nat \<times> nat"
  ei_signal :: bool
  ei_trained :: bool
  ei_invalidated :: "bool list"
  ei_saved :: "bool list"
  ei_ops :: "peer_op list"

definition execute_data_fetch ::
  "policy_env \<Rightarrow> policy_config \<Rightarrow> exec_input \<Rightarrow> data_fetch_args \<Rightarrow> policy_worker
    \<Rightarrow> (py_error \<times> policy_worker) + (bool \<times> policy_worker)" where
  "execute_data_fetch env c i a s =
     (if dfa_replica_name a \<noteq> pc_replica_name c then Inl (AssertionError, s)
      else
        let stopping = (ei_signal i \<and> \<not> pw_signal_handled s);
            s = s\<lparr>pw_replica_batch := dfa_items_count a, pw_signal_handled := (pw_signal_handled s \<or> ei_signal i)\<rparr> in
        bindR (worker_dispatch_rollouts env c (ei_sched i) s) (\<lambda>(per_rank, s).
        if \<not> ei_trained i then Inl (GenericException, s)
        else
          let s = s\<lparr>pw_trained := pw_trained s @ [\<lparr>tr_step = dfa_global_step a, tr_rollouts = per_rank,
                tr_do_save = (dfa_do_save a \<or> stopping)\<rparr>]\<rparr> in
          Inr (replica_should_stop (DataFetch a), acknowledge c (dfa_global_step a) (dfa_total_steps a) s)))"

text \<open>The agreement of the ranks on a checkpoint: a rank that failed raises its own error, the others
  \<open>RuntimeError\<close>; no rank goes on unless all succeeded.\<close>

definition execute_training_complete ::
  "policy_config \<Rightarrow> exec_input \<Rightarrow> training_complete_args \<Rightarrow> policy_worker
    \<Rightarrow> (py_error \<times> policy_worker) + (bool \<times> policy_worker)" where
  "execute_training_complete c i a s =
     (if tca_replica_name a \<noteq> pc_replica_name c then Inl (AssertionError, s)
      else
        let s = s\<lparr>pw_replica_batch := 0\<rparr> in
        bindR (if \<not> (tca_do_save a \<and> pw_is_master_replica s) then Inr s
            else if \<not> list_all id (ei_invalidated i) then Inl (RuntimeError, s)
            else if \<not> list_all id (ei_saved i) then Inl (RuntimeError, s)
            else Inr (s\<lparr>pw_saved := pw_saved s @ [tca_final_step a]\<rparr>)) (\<lambda>s.
        Inr (replica_should_stop (TrainingComplete a),
          acknowledge c (Some (tca_global_step a)) (Some (tca_total_steps a)) s)))"

section \<open>The main loop\<close>

text \<open>\<open>execute_command\<close>: the handler of the command; a command without one raises.\<close>

definition run_handler ::
  "policy_env \<Rightarrow> policy_config \<Rightarrow> exec_input \<Rightarrow> command_body \<Rightarrow> policy_worker
    \<Rightarrow> (py_error \<times> policy_worker) + (bool \<times> policy_worker)" where
  "run_handler env c i cmd s =
     (case cmd of
        WeightResume nm \<Rightarrow> Inr (False, s\<lparr>pw_resumed := (pw_resumed s \<or> pc_resume c)\<rparr>)
      | PolicyToPolicyBroadcast src dsts _ \<Rightarrow> execute_policy_to_policy_broadcast c src dsts (ei_ops i) s
      | PolicyToPolicyUnicast src dst _ \<Rightarrow> execute_policy_to_policy_unicast c src dst (ei_ops i) s
      | PolicyToRolloutUnicast a \<Rightarrow> execute_policy_to_rollout_unicast env c a s
      | DataFetch a \<Rightarrow> execute_data_fetch env c i a s
      | TrainingComplete a \<Rightarrow> execute_training_complete c i a s
      | _ \<Rightarrow> Inl (GenericException, s))"

definition execute_command ::
  "policy_env \<Rightarrow> policy_config \<Rightarrow> exec_input \<Rightarrow> command_body \<Rightarrow> policy_worker \<Rightarrow> policy_worker outcome" where
  "execute_command env c i cmd s =
     bindR (run_handler env c i cmd s) (\<lambda>(stop, s).
     Inr (s\<lparr>pw_executed := pw_executed s @ [(cmd, stop)], pw_abort := (stop \<or> pw_abort s)\<rparr>))"

text \<open>The commands that are in the buffer when the round begins, each with its inputs.\<close>

definition idle_input :: exec_input where
  "idle_input = \<lparr>ei_sched = (\<lambda>_. (0, 0)), ei_signal = False, ei_trained = True, ei_invalidated = [], ei_saved = [], ei_ops = []\<rparr>"

fun execute_all ::
  "policy_env \<Rightarrow> policy_config \<Rightarrow> exec_input list \<Rightarrow> command_body list \<Rightarrow> policy_worker \<Rightarrow> policy_worker outcome" where
  "execute_all env c is [] s = Inr s"
| "execute_all env c is (cmd # cmds) s =
     bindR (execute_command env c (case is of [] \<Rightarrow> idle_input | i # _ \<Rightarrow> i) cmd (s\<lparr>pw_command_buffer := cmds\<rparr>)) (\<lambda>s.
     execute_all env c (tl is) cmds s)"

text \<open>The wait for the last weight sync: every element of \<open>polls\<close> is what the fetching thread
  delivers before a poll; the deadline is the end of the list.\<close>

fun linger :: "policy_config \<Rightarrow> command_body list list \<Rightarrow> policy_worker \<Rightarrow> policy_worker" where
  "linger c [] s = s"
| "linger c (cmds # polls) s =
     (let s = broadcast_command (fetch_commands c cmds s) in
      if pw_command_buffer s \<noteq> [] then s else linger c polls s)"

record round_input =
  ri_polls :: "command_body list list"
  ri_execs :: "exec_input list"

text \<open>One round of \<open>main_loop\<close>.\<close>

definition policy_round :: "policy_env \<Rightarrow> policy_config \<Rightarrow> round_input \<Rightarrow> policy_worker \<Rightarrow> policy_worker outcome" where
  "policy_round env c i s =
     (if pw_finished s then Inr s
      else
        let abort_at_this_round = pw_abort s;
            s = (if abort_at_this_round \<and> pc_validation_enable c then linger c (ri_polls i) s else s);
            s = broadcast_command s in
        bindR (execute_all env c (ri_execs i) (pw_command_buffer s) s) (\<lambda>s.
        Inr (if abort_at_this_round then s\<lparr>pw_finished := True\<rparr> else s)))"

datatype policy_event =
    CommandsFetched "command_body list"
  | RolloutsFetched "rollout list"
  | RolloutTurn
  | NcclTurn mesh_answer
  | Round round_input

definition policy_step :: "policy_env \<Rightarrow> policy_config \<Rightarrow> policy_event \<Rightarrow> policy_worker \<Rightarrow> policy_worker outcome" where
  "policy_step env c ev s =
     (case ev of
        CommandsFetched cmds \<Rightarrow> Inr (fetch_commands c cmds s)
      | RolloutsFetched rs \<Rightarrow> Inr (s\<lparr>pw_incoming := pw_incoming s @ rs\<rparr>)
      | RolloutTurn \<Rightarrow> Inr (fetch_rollout_turn s)
      | NcclTurn ans \<Rightarrow> Inr (s\<lparr>pw_nccl := mesh_turn ans (pw_nccl s)\<rparr>)
      | Round i \<Rightarrow> policy_round env c i s)"

definition policy_run :: "policy_env \<Rightarrow> policy_config \<Rightarrow> policy_event list \<Rightarrow> policy_worker \<Rightarrow> policy_worker outcome" where
  "policy_run env c evs s = forR evs (policy_step env c) s"

end
