(* ===== verification/Policy_Worker_Claims.thy ===== *)
theory Policy_Worker_Claims
  imports Policy_Worker
begin

text \<open>
  What the worker of a policy replica does with its commands: how a batch is dealt to the ranks,
  that the weights it sends are those of its instructions, that every executed step is acknowledged
  exactly once, and when it leaves its main loop; and that the shards of the teacher results drift
  from those of the rollouts.
\<close>

section \<open>The batch\<close>

text \<open>What was delivered and not yet taken, in order.\<close>

definition delivered :: "policy_worker \<Rightarrow> rollout list" where
  "delivered s = pw_data_queue s @ pw_incoming s"

lemma delivered_turn [simp]: "delivered (fetch_rollout_turn s) = delivered s"
  by (auto simp: delivered_def fetch_rollout_turn_def split: option.splits list.splits)

lemma delivered_turns [simp]: "delivered ((fetch_rollout_turn ^^ n) s) = delivered s"
  by (induction n) simp_all

lemma delivered_teacher [simp]: "delivered (snd (prepare_teacher_uuids_for_prefetch c i s)) = delivered s"
proof -
  have "delivered (snd (fold (assign_teacher n) us (i, s))) = delivered s" for n us i s
  proof (induction us arbitrary: i s)
    case (Cons u us)
    obtain j t where t: "assign_teacher n u (i, s) = (j, t)" by fastforce
    then have "delivered t = delivered s" by (auto simp: assign_teacher_def delivered_def)
    then show ?case using Cons.IH [of j t] t by simp
  qed simp
  then show ?thesis by (simp add: prepare_teacher_uuids_for_prefetch_def) (simp add: delivered_def)
qed

lemma delivered_check: "check_teacher_shard d r s = Inr s' \<Longrightarrow> delivered s' = delivered s"
  by (auto simp: check_teacher_shard_def delivered_def Let_def split: if_splits)

text \<open>The rollouts that come round to shard \<open>d\<close> when dealing starts at shard \<open>i\<close>.\<close>

fun dealt :: "nat \<Rightarrow> nat \<Rightarrow> nat \<Rightarrow> 'a list \<Rightarrow> 'a list" where
  "dealt n d i [] = []"
| "dealt n d i (x # xs) = (if d = i then [x] else []) @ dealt n d (wrap_id n i) xs"

lemma wrap_id_less: "i < n \<Longrightarrow> wrap_id n i < n"
  by (simp add: wrap_id_def)

lemma dealt_block:
  "i < n \<Longrightarrow> d < n \<Longrightarrow> i + length xs = n \<Longrightarrow> dealt n d i (xs @ ys) = (if i \<le> d then [xs ! (d - i)] else []) @ dealt n d 0 ys"
proof (induction xs arbitrary: i)
  case (Cons x xs)
  show ?case
  proof (cases "xs = []")
    case True
    then show ?thesis using Cons.prems by (auto simp: wrap_id_def)
  next
    case False
    then have "wrap_id n i = i + 1" "i + 1 < n" using Cons.prems by (auto simp: wrap_id_def neq_Nil_conv)
    then show ?thesis using Cons.IH [of "i + 1"] Cons.prems by (auto simp: nth_Cons' Suc_diff_le)
  qed
qed simp

lemma dealt_rounds:
  assumes "d < n" "m * n \<le> length xs"
  shows "dealt n d 0 (take (m * n) xs) = map (\<lambda>k. xs ! (k * n + d)) [0..<m]"
  using assms
proof (induction m arbitrary: xs)
  case (Suc m)
  have "take (Suc m * n) xs = take n xs @ take (m * n) (drop n xs)"
    by (simp add: take_add)
  moreover have "length (take n xs) = n" using Suc.prems by simp
  ultimately have "dealt n d 0 (take (Suc m * n) xs) = [take n xs ! d] @ dealt n d 0 (take (m * n) (drop n xs))"
    using dealt_block [of 0 n d "take n xs"] Suc.prems by simp
  also have "\<dots> = xs ! d # map (\<lambda>k. drop n xs ! (k * n + d)) [0..<m]"
    using Suc.IH [of "drop n xs"] Suc.prems by simp
  also have "map (\<lambda>k. drop n xs ! (k * n + d)) [0..<m] = map (\<lambda>k. xs ! (Suc k * n + d)) [0..<m]"
    using Suc.prems by (auto simp: add.assoc)
  also have "xs ! d # map (\<lambda>k. xs ! (Suc k * n + d)) [0..<m] = map (\<lambda>k. xs ! (k * n + d)) [0..<Suc m]"
    by (simp only: upt_conv_Cons map_Suc_upt [symmetric] map_map comp_def) (simp add: upt_conv_Cons del: upt_Suc)
  finally show ?case .
qed simp

text \<open>The data-parallel coordinate of every rank.\<close>

definition dp_coordinates :: "policy_config \<Rightarrow> (nat \<Rightarrow> nat) \<Rightarrow> bool" where
  "dp_coordinates c d \<longleftrightarrow> (\<forall>i<pc_world_size c. get_rank_in_dim (pc_dims c) ''dp'' i = Inr (d i) \<and> d i < pc_dp_world_size c)"

lemma mapR_map_on: "(\<And>x. x \<in> set xs \<Longrightarrow> f (h x) = Inr (g x)) \<Longrightarrow> mapR f (map h xs) = Inr (map g xs)"
  by (induction xs) auto

lemma zip_ranks: "length xs = n \<Longrightarrow> zip [0..<n] xs = map (\<lambda>i. (i, xs ! i)) [0..<n]"
  by (rule nth_equalityI) simp_all

lemma scatter_to_ranks:
  assumes "dp_coordinates c d" "length scattered = pc_world_size c"
  shows "scatter_to c j r scattered = Inr (map (\<lambda>i. scattered ! i @ (if d i = j then [r] else [])) [0..<pc_world_size c])"
  unfolding scatter_to_def assms(2) zip_ranks [OF assms(2)]
  using assms(1) by (intro mapR_map_on) (auto simp: dp_coordinates_def)

lemma scatter_rollouts_dealt:
  assumes "dp_coordinates c d" "length scattered = pc_world_size c" "j < pc_dp_world_size c"
    and "scatter_rollouts c sched k j p scattered s = Inr (out, s')"
  shows "k \<le> length (delivered s) \<and> delivered s' = drop k (delivered s) \<and>
    out = map (\<lambda>i. scattered ! i @ dealt (pc_dp_world_size c) (d i) j (take k (delivered s))) [0..<pc_world_size c]"
  using assms(2-4)
proof (induction k arbitrary: j p scattered s)
  case 0
  then show ?case by (auto intro: nth_equalityI)
next
  case (Suc k)
  let ?s1 = "(fetch_rollout_turn ^^ fst (sched k)) s"
  obtain r q where q: "pw_data_queue ?s1 = r # q"
    using Suc.prems(3) by (auto simp: Let_def split: list.splits)
  let ?s2 = "(fetch_rollout_turn ^^ snd (sched k)) (?s1\<lparr>pw_data_queue := q\<rparr>)"
  obtain p' s3 where s3: "prepare_teacher_uuids_for_prefetch c p ?s2 = (p', s3)" by fastforce
  obtain s4 where s4: "check_teacher_shard j r s3 = Inr s4"
    using Suc.prems(3) q s3 by (auto simp: Let_def bindR_Inr_iff)
  let ?out = "map (\<lambda>i. scattered ! i @ (if d i = j then [r] else [])) [0..<pc_world_size c]"
  have rest: "scatter_rollouts c sched k (wrap_id (pc_dp_world_size c) j) p' ?out s4 = Inr (out, s')"
    using Suc.prems(3) q s3 s4 scatter_to_ranks [OF assms(1) Suc.prems(1)] by (simp add: Let_def)
  have "delivered s4 = q @ pw_incoming ?s1"
    using delivered_check [OF s4] delivered_teacher [of c p ?s2] s3 by (simp add: delivered_def [of "?s1\<lparr>pw_data_queue := q\<rparr>"])
  moreover have "delivered s = r # q @ pw_incoming ?s1"
    unfolding delivered_turns [of "fst (sched k)" s, symmetric] using q unfolding delivered_def by simp
  moreover note Suc.IH [OF _ wrap_id_less [OF Suc.prems(2)] rest]
  ultimately show ?case by (auto simp: nth_append)
qed

definition localised :: "policy_env \<Rightarrow> policy_config \<Rightarrow> rollout \<Rightarrow> rollout" where
  "localised env c r = (if pc_local_dataset c
     then r\<lparr>ro_prompt := pe_prompt env (ro_prompt_idx r), ro_conversation := pe_conversation env (ro_prompt_idx r)\<rparr> else r)"

lemma preprocess_localised: "preprocess_rollouts env c s rs = Inr rs' \<Longrightarrow> rs' = map (localised env c) rs"
  by (auto simp: preprocess_rollouts_def localised_def bindR_Inr_iff map_idI split: if_splits)

lemma mapR_Inr_map: "mapR f xs = Inr ys \<Longrightarrow> (\<And>x y. x \<in> set xs \<Longrightarrow> f x = Inr y \<Longrightarrow> y = g x) \<Longrightarrow> ys = map g xs"
  by (induction xs arbitrary: ys) (auto simp: bindR_Inr_iff)

text \<open>C15: When a step's batch has been dispatched, whatever the interleaving with the fetching
  thread, the batch is the head of what was delivered, and every rank has every \<open>dp\<close>-th rollout of
  it, beginning with its own data-parallel coordinate: ranks of one shard have the same rollouts,
  shards have disjoint ones of equal number, and the rest stays for the next step.\<close>

theorem batch_dealt:
  assumes "worker_dispatch_rollouts env c sched s = Inr (per_rank, s')" "\<not> pc_uncentralized_training c" "dp_coordinates c d"
  defines "m \<equiv> nat (pw_replica_batch s div int (pc_dp_world_size c))"
  shows "per_rank = map (\<lambda>i. map (\<lambda>k. localised env c (delivered s ! (k * pc_dp_world_size c + d i))) [0..<m]) [0..<pc_world_size c] \<and>
    delivered s' = drop (m * pc_dp_world_size c) (delivered s) \<and> m * pc_dp_world_size c \<le> length (delivered s)"
proof -
  let ?n = "pc_dp_world_size c"
  have n: "0 < ?n" using assms(1) by (auto simp: worker_dispatch_rollouts_def Let_def split: if_splits)
  have batch: "nat (pw_replica_batch s div int ?n * int ?n) = m * ?n"
    using n by (simp add: m_def nat_mult_distrib_neg nat_mult_distrib mult.commute)
  obtain out t where out: "scatter_rollouts c sched (m * ?n) 0 0 (replicate (pc_world_size c) []) s = Inr (out, t)"
    and "(case mapR (preprocess_rollouts env c t) out of Inl e \<Rightarrow> Inl (e, t) | Inr per_rank \<Rightarrow> Inr (per_rank, t)) = Inr (per_rank, s')"
    using assms(1,2) n batch by (auto simp: worker_dispatch_rollouts_def Let_def bindR_Inr_iff)
  then have pre: "mapR (preprocess_rollouts env c s') out = Inr per_rank" and t: "t = s'"
    by (auto split: sum.splits)
  note dealt = scatter_rollouts_dealt [OF assms(3) _ n out [unfolded t]]
  have "per_rank = map (map (localised env c)) out"
    by (rule mapR_Inr_map [OF pre]) (rule preprocess_localised)
  then show ?thesis
    using dealt assms(3) by (auto simp: dealt_rounds dp_coordinates_def)
qed

section \<open>A replica of two data-parallel ranks\<close>

definition policy_rollout :: "int \<Rightarrow> string \<Rightarrow> rollout" where
  "policy_rollout idx u = \<lparr>ro_prompt = PNone, ro_prompt_idx = idx, ro_conversation = None, ro_completion = PNone,
     ro_teacher_result_uuid = u, ro_teacher_logprobs = None, ro_completed_conversation = None, ro_is_end = False,
     ro_reward = 0, ro_advantage = 0, ro_n_ignore_prefix_tokens = 0, ro_filter_reward = 0, ro_completion_token_ids = None,
     ro_completion_logprobs = None, ro_prompt_logprobs = None, ro_prompt_token_ids = None, ro_extra_info = None,
     ro_weight_version = 0, ro_report_metrics = None\<rparr>"

definition two_rank_dims :: parallel_dims where
  "two_rank_dims = \<lparr>pd_dp_replicate = 1, pd_dp_shard = 2, pd_cp = 1, pd_tp = 1, pd_pp = 1, pd_world_size = 2,
     pd_pp_dynamic_shape = False, pd_pp_micro_batch_size = 1, pd_pp_schedule = [], pd_pp_layers_per_stage = 1,
     pd_enable_loss_parallel = False, pd_ep = 1, pd_dp_shard_with_ep = 1,
     pd_full_rank_info = [[(''dp'', 0)], [(''dp'', 1)]], pd_full_world_size_info = [(''dp'', 2)]\<rparr>"

definition two_ranks :: policy_config where
  "two_ranks = \<lparr>pc_replica_name = ''p0'', pc_dims = two_rank_dims, pc_world_size = 2, pc_dp_world_size = 2,
     pc_uncentralized_training = False, pc_distillation = True, pc_local_dataset = False,
     pc_data_dispatch_as_rank_in_mesh = False, pc_validation_enable = False, pc_resume = False,
     pc_p2r_group_size = 1, pc_weight_names = Some [''w'', ''b''], pc_trainable_params = [''w'']\<rparr>"

definition no_env :: policy_env where
  "no_env = \<lparr>pe_prompt = (\<lambda>_. PNone), pe_conversation = (\<lambda>_. None), pe_send_insts = (\<lambda>_. [])\<rparr>"

definition two_batches :: policy_worker where
  "two_batches = (init_policy_worker two_ranks)\<lparr>pw_replica_batch := 2,
     pw_data_queue := map (\<lambda>i. policy_rollout i []) [0, 1, 2], pw_incoming := [policy_rollout 3 []]\<rparr>"

theorem batch_dealt_witness:
  "case worker_dispatch_rollouts no_env two_ranks (\<lambda>_. (0, 0)) two_batches of Inl e \<Rightarrow> False | Inr (per_rank, s') \<Rightarrow>
     map (map ro_prompt_idx) per_rank = [[0], [1]] \<and> map ro_prompt_idx (delivered s') = [2, 3]"
proof -
  let ?r = "worker_dispatch_rollouts no_env two_ranks (\<lambda>_. (0, 0)) two_batches"
  have "case ?r of Inl e \<Rightarrow> False | Inr x \<Rightarrow> True" by code_simp
  then obtain per_rank s' where r: "?r = Inr (per_rank, s')" by (auto split: sum.splits)
  have d: "dp_coordinates two_ranks id"
    by (auto simp: dp_coordinates_def two_ranks_def two_rank_dims_def get_rank_in_dim_def less_2_cases_iff)
  have v: "\<not> pc_uncentralized_training two_ranks" "pw_replica_batch two_batches = 2"
    "pc_dp_world_size two_ranks = 2" "pc_world_size two_ranks = 2" by code_simp+
  have "delivered two_batches = map (\<lambda>i. policy_rollout i []) [0, 1, 2, 3]"
    by (simp add: delivered_def two_batches_def)
  moreover have "localised no_env two_ranks = (\<lambda>r. r)" by (simp add: localised_def two_ranks_def fun_eq_iff)
  ultimately show ?thesis
    using batch_dealt [OF r v(1) d] by (auto simp: r v(2-4) policy_rollout_def upt_rec)
qed

section \<open>The shards of the teacher\<close>

definition arrive_all :: "rollout list \<Rightarrow> policy_worker \<Rightarrow> policy_worker" where
  "arrive_all rs s = (fetch_rollout_turn ^^ (2 * length rs)) (s\<lparr>pw_incoming := pw_incoming s @ rs\<rparr>)"

definition early_uuid :: policy_worker where
  "early_uuid = arrive_all [policy_rollout 0 ''a'', policy_rollout 1 ''b'', policy_rollout 2 ''c'']
     ((init_policy_worker two_ranks)\<lparr>pw_replica_batch := 2\<rparr>)"

definition second_step :: "(py_error \<times> policy_worker) + (rollout list list \<times> policy_worker)" where
  "second_step = (case worker_dispatch_rollouts no_env two_ranks (\<lambda>_. (0, 0)) early_uuid of
     Inl x \<Rightarrow> Inl (Blocks, snd x)
   | Inr (per_rank, s) \<Rightarrow> worker_dispatch_rollouts no_env two_ranks (\<lambda>_. (0, 0)) (arrive_all [policy_rollout 3 ''d''] s))"


section \<open>The weights that are sent\<close>

definition all_instructions :: "group_insts list \<Rightarrow> param_insts list" where
  "all_instructions gs = concat (map ig_param_instructions gs)"

text \<open>The operations and the number of parameters, without the grouping.\<close>

definition op_of :: "string \<Rightarrow> inst \<Rightarrow> send_op" where
  "op_of nm i = \<lparr>so_param_name = nm, so_rollout_rank = i_rollout_rank i, so_slices = i_slice_strategy i\<rparr>"

definition skipped :: "policy_config \<Rightarrow> bool \<Rightarrow> param_insts \<Rightarrow> bool" where
  "skipped c trainable_only pin \<longleftrightarrow> trainable_only \<and> ip_param_name pin \<notin> set (pc_trainable_params c)"

definition ops_of :: "policy_config \<Rightarrow> bool \<Rightarrow> param_insts list \<Rightarrow> send_op list" where
  "ops_of c trainable_only pins =
     concat (map (\<lambda>pin. map (op_of (ip_param_name pin)) (ip_instructions pin)) (filter (\<lambda>pin. \<not> skipped c trainable_only pin) pins))"

lemma send_param_ops:
  assumes "send_parameter c tr rank pin = Inr (ops, n)"
  shows "ops = ops_of c tr [pin] \<and> n = (if skipped c tr pin then 0 else 1)"
proof (cases "skipped c tr pin")
  case False
  let ?f = "\<lambda>i. if ip_param_name pin \<notin> set (case pc_weight_names c of None \<Rightarrow> [] | Some ns \<Rightarrow> ns) then Inl RuntimeError
      else if i_policy_rank i \<noteq> rank then Inl AssertionError
      else Inr \<lparr>so_param_name = ip_param_name pin, so_rollout_rank = i_rollout_rank i, so_slices = i_slice_strategy i\<rparr>"
  have "bindR (mapR ?f (ip_instructions pin)) (\<lambda>ops. Inr (ops, 1)) = Inr (ops, n)"
    using assms False unfolding send_parameter_def skipped_def by (metis (no_types, lifting))
  then have m: "mapR ?f (ip_instructions pin) = Inr ops" "n = 1"
    unfolding bindR_Inr_iff by blast+
  have "ops = map (op_of (ip_param_name pin)) (ip_instructions pin)"
    by (rule mapR_Inr_map [OF m(1)]) (simp add: op_of_def split: if_splits)
  then show ?thesis using False m(2) by (simp add: ops_of_def)
qed (use assms in \<open>auto simp: send_parameter_def skipped_def ops_of_def\<close>)

lemma send_params_ops:
  "mapR (send_parameter c tr rank) pins = Inr xs \<Longrightarrow>
   concat (map fst xs) = ops_of c tr pins \<and> sum_list (map snd xs) = length (filter (\<lambda>pin. \<not> skipped c tr pin) pins)"
  by (induction pins arbitrary: xs)
    (auto simp: bindR_Inr_iff ops_of_def dest!: send_param_ops)

lemma send_groups_ops:
  "send_groups c tr rank gs pending n cnt = Inr (batches, m) \<Longrightarrow>
   concat batches = pending @ ops_of c tr (all_instructions gs) \<and>
   m = cnt + length (filter (\<lambda>pin. \<not> skipped c tr pin) (all_instructions gs))"
proof (induction gs arbitrary: pending n cnt batches m)
  case Nil
  then show ?case by (auto simp: all_instructions_def ops_of_def)
next
  case (Cons g gs)
  obtain xs where xs: "mapR (send_parameter c tr rank) (ig_param_instructions g) = Inr xs"
    using Cons.prems by (auto simp: bindR_Inr_iff)
  show ?case
  proof (cases "pc_p2r_group_size c \<le> n + 1")
    case True
    then obtain bs where bs: "send_groups c tr rank gs [] 0 (cnt + sum_list (map snd xs)) = Inr (bs, m)"
      "batches = (pending @ concat (map fst xs)) # bs"
      using Cons.prems xs by (auto simp: Let_def bindR_Inr_iff)
    then show ?thesis
      using Cons.IH [OF bs(1)] bs(2) send_params_ops [OF xs] by (simp add: all_instructions_def ops_of_def)
  next
    case False
    then have rest: "send_groups c tr rank gs (pending @ concat (map fst xs)) (n + 1) (cnt + sum_list (map snd xs)) = Inr (batches, m)"
      using Cons.prems xs by (simp add: Let_def)
    then show ?thesis
      using Cons.IH [OF rest] send_params_ops [OF xs] by (simp add: all_instructions_def ops_of_def)
  qed
qed

definition op_part :: "send_op \<Rightarrow> string \<times> slices" where
  "op_part op = (so_param_name op, so_slices op)"

text \<open>C16: What a policy rank sends to a rollout rank in a full transfer is what its instructions
  list for that rank, in their order, however the parameters are grouped into batches. When only the
  trainable parameters are sent it is the same without the parameters that are not, and the count
  that both sides compare is the number of parameters sent.\<close>

theorem weights_sent_as_planned:
  assumes "send_weights c trainable_only rank gs = Inr (batches, cnt)"
  shows "map op_part (filter (\<lambda>op. so_rollout_rank op = r) (concat batches)) =
      filter (\<lambda>x. trainable_only \<longrightarrow> fst x \<in> set (pc_trainable_params c)) (sent_to r gs) \<and>
    cnt = length (filter (\<lambda>pin. trainable_only \<longrightarrow> ip_param_name pin \<in> set (pc_trainable_params c)) (all_instructions gs))"
proof -
  have ops: "map op_part (filter (\<lambda>op. so_rollout_rank op = r) (ops_of c trainable_only pins)) =
      filter (\<lambda>x. trainable_only \<longrightarrow> fst x \<in> set (pc_trainable_params c)) (concat (map (picked (\<lambda>i. i_rollout_rank i = r)) pins))" for pins
    by (induction pins)
      (auto simp: ops_of_def skipped_def picked_def filter_map comp_def op_of_def op_part_def filter_empty_conv)
  have "sent_to r gs = concat (map (picked (\<lambda>i. i_rollout_rank i = r)) (all_instructions gs))"
    by (induction gs) (auto simp: sent_to_def picked_all_def all_instructions_def)
  then show ?thesis
    using send_groups_ops [OF assms [unfolded send_weights_def]] ops
    by (auto simp: skipped_def)
qed

definition one_param :: "group_insts list" where
  "one_param = [\<lparr>ig_param_instructions =
     [\<lparr>ip_param_name = ''w'', ip_instructions = [\<lparr>i_policy_rank = 0, i_rollout_rank = 1, i_slice_strategy = []\<rparr>]\<rparr>]\<rparr>,
     \<lparr>ig_param_instructions =
     [\<lparr>ip_param_name = ''b'', ip_instructions = [\<lparr>i_policy_rank = 0, i_rollout_rank = 1, i_slice_strategy = []\<rparr>]\<rparr>]\<rparr>]"

theorem weights_sent_as_planned_witness:
  "\<exists>batches. send_weights two_ranks True 0 one_param = Inr (batches, 1) \<and>
     map op_part (filter (\<lambda>op. so_rollout_rank op = 1) (concat batches)) = [(''w'', [])]"
proof -
  let ?op = "\<lparr>so_param_name = ''w'', so_rollout_rank = 1, so_slices = []\<rparr>"
  have "send_weights two_ranks True 0 one_param = Inr ([[?op], [], []], 1)" by code_simp
  moreover have "filter (\<lambda>x. True \<longrightarrow> fst x \<in> set (pc_trainable_params two_ranks)) (sent_to 1 one_param) = [(''w'', [])]" by code_simp
  ultimately show ?thesis using weights_sent_as_planned [of two_ranks True 0 one_param "[[?op], [], []]" 1 1] by auto
qed

section \<open>The log\<close>

text \<open>What the handlers leave alone, and what they may add to.\<close>

definition logs :: "policy_worker \<Rightarrow> (int option \<times> int option) list \<times> int option list \<times> (command_body \<times> bool) list \<times> bool \<times> bool" where
  "logs s = (pw_acks s, map tr_step (pw_trained s), pw_executed s, pw_abort s, pw_finished s)"

definition logs_kept :: "policy_worker \<Rightarrow> (py_error \<times> policy_worker) + ('a \<times> policy_worker) \<Rightarrow> bool" where
  "logs_kept s r = (case r of Inl x \<Rightarrow> logs (snd x) = logs s | Inr x \<Rightarrow> logs (snd x) = logs s)"

lemma logs_kept_trans: "logs t = logs s \<Longrightarrow> logs_kept t r \<Longrightarrow> logs_kept s r"
  by (auto simp: logs_kept_def split: sum.splits)

lemma logs_kept_Inl: "logs_kept s (Inl (e, t)) \<longleftrightarrow> logs t = logs s"
  by (simp add: logs_kept_def)

lemma logs_frame [simp]:
  "logs (s\<lparr>pw_data_queue := q\<rparr>) = logs s" "logs (s\<lparr>pw_replica_batch := n\<rparr>) = logs s" "logs (s\<lparr>pw_nccl := h\<rparr>) = logs s"
  "logs (s\<lparr>pw_signal_handled := b\<rparr>) = logs s" "logs (s\<lparr>pw_teacher_prefetch_queue := us\<rparr>) = logs s"
  "logs (s\<lparr>pw_teacher_uuid_to_dp_shard := d\<rparr>) = logs s" "logs (s\<lparr>pw_teacher_interact_queues := qs\<rparr>) = logs s"
  "logs (s\<lparr>pw_send_insts := is\<rparr>) = logs s" "logs (s\<lparr>pw_sent := xs\<rparr>) = logs s" "logs (s\<lparr>pw_synced_trainable := cnts\<rparr>) = logs s"
  "logs (s\<lparr>pw_model_ready := b\<rparr>) = logs s" "logs (s\<lparr>pw_saved := ns\<rparr>) = logs s" "logs (s\<lparr>pw_resumed := b\<rparr>) = logs s"
  "logs (s\<lparr>pw_command_buffer := cs\<rparr>) = logs s" "logs (s\<lparr>pw_fetch_command_buffer := cs\<rparr>) = logs s"
  "logs (s\<lparr>pw_is_master_replica := b\<rparr>) = logs s" "logs (s\<lparr>pw_fetch_alive := b\<rparr>) = logs s"
  "logs (s\<lparr>pw_incoming := rs\<rparr>) = logs s" "logs (s\<lparr>pw_teacher_pending := u\<rparr>) = logs s"
  by (simp_all add: logs_def)

lemma logs_turn [simp]: "logs (fetch_rollout_turn s) = logs s"
  by (simp add: fetch_rollout_turn_def split: option.splits list.splits)

lemma logs_turns [simp]: "logs ((fetch_rollout_turn ^^ n) s) = logs s"
  by (induction n) simp_all

lemma logs_assign: "logs (snd (fold (assign_teacher n) us x)) = logs (snd x)"
  by (induction us arbitrary: x) (simp_all add: assign_teacher_def split_beta)

lemma logs_teacher [simp]: "logs (snd (prepare_teacher_uuids_for_prefetch c i s)) = logs s"
  by (simp add: prepare_teacher_uuids_for_prefetch_def logs_assign)

lemma logs_commands [simp]: "logs (fetch_commands c cmds s) = logs s"
  by (induction c cmds s rule: fetch_commands.induct) (simp_all split: command_body.splits option.splits)

lemma logs_broadcast [simp]: "logs (broadcast_command s) = logs s"
  by (simp add: broadcast_command_def)

lemma logs_linger [simp]: "logs (linger c polls s) = logs s"
  by (induction polls arbitrary: s) (simp_all add: Let_def)

lemma scatter_rollouts_logs: "logs_kept s (scatter_rollouts c sched k j p scattered s)"
proof (induction k arbitrary: j p scattered s)
  case 0
  then show ?case by (simp add: logs_kept_def)
next
  case (Suc k)
  let ?s1 = "(fetch_rollout_turn ^^ fst (sched k)) s"
  show ?case
  proof (cases "pw_data_queue ?s1")
    case Nil
    then show ?thesis by (simp add: logs_kept_def Let_def)
  next
    case (Cons r q)
    let ?s2 = "(fetch_rollout_turn ^^ snd (sched k)) (?s1\<lparr>pw_data_queue := q\<rparr>)"
    obtain p' s3 where s3: "prepare_teacher_uuids_for_prefetch c p ?s2 = (p', s3)" by fastforce
    then have l3: "logs s3 = logs s" using logs_teacher [of c p ?s2] by simp
    show ?thesis
    proof (cases "check_teacher_shard j r s3")
      case (Inl x)
      then have "logs (snd x) = logs s" using l3 by (auto simp: check_teacher_shard_def Let_def split: if_splits)
      then show ?thesis using Cons s3 Inl by (simp add: logs_kept_def Let_def)
    next
      case (Inr s4)
      then have l4: "logs s4 = logs s" using l3 by (auto simp: check_teacher_shard_def Let_def split: if_splits)
      show ?thesis
        using Cons s3 Inr l4 logs_kept_trans [OF l4 Suc.IH]
        by (cases "scatter_to c j r scattered") (simp_all add: logs_kept_Inl Let_def)
    qed
  qed
qed

lemma dispatch_rollouts_logs: "logs_kept s (worker_dispatch_rollouts env c sched s)"
  using scatter_rollouts_logs [of s c sched "nat (pw_replica_batch s div int (pc_dp_world_size c) * int (pc_dp_world_size c))" 0 0
      "replicate (pc_world_size c) []"]
  by (cases "scatter_rollouts c sched (nat (pw_replica_batch s div int (pc_dp_world_size c) * int (pc_dp_world_size c))) 0 0
      (replicate (pc_world_size c) []) s")
    (auto simp: worker_dispatch_rollouts_def logs_kept_def Let_def split: sum.splits)

text \<open>What an executed command adds: its acknowledgements, one per master rank, and its step.\<close>

definition acks_of :: "policy_config \<Rightarrow> command_body \<Rightarrow> (int option \<times> int option) list" where
  "acks_of c cmd = (case cmd of
     DataFetch a \<Rightarrow> map (\<lambda>_. (dfa_global_step a, dfa_total_steps a)) (filter (is_master_rank (pc_dims c)) [0..<pc_world_size c])
   | TrainingComplete a \<Rightarrow> map (\<lambda>_. (Some (tca_global_step a), Some (tca_total_steps a))) (filter (is_master_rank (pc_dims c)) [0..<pc_world_size c])
   | _ \<Rightarrow> [])"

definition steps_of :: "command_body \<Rightarrow> int option list" where
  "steps_of cmd = (case cmd of DataFetch a \<Rightarrow> [dfa_global_step a] | _ \<Rightarrow> [])"

definition logs_with :: "policy_config \<Rightarrow> command_body \<Rightarrow> policy_worker \<Rightarrow> (py_error \<times> policy_worker) + (bool \<times> policy_worker) \<Rightarrow> bool" where
  "logs_with c cmd s r = (case r of
     Inl x \<Rightarrow> logs (snd x) = logs s
   | Inr x \<Rightarrow> logs (snd x) = (pw_acks s @ acks_of c cmd, map tr_step (pw_trained s) @ steps_of cmd, pw_executed s, pw_abort s, pw_finished s))"

lemma logs_eq: "logs s = (pw_acks s, map tr_step (pw_trained s), pw_executed s, pw_abort s, pw_finished s)"
  by (simp add: logs_def)

lemma execute_data_fetch_logs: "logs_with c (DataFetch a) s (execute_data_fetch env c i a s)"
proof -
  let ?s = "s\<lparr>pw_replica_batch := dfa_items_count a, pw_signal_handled := (pw_signal_handled s \<or> ei_signal i)\<rparr>"
  have "logs_kept s (worker_dispatch_rollouts env c (ei_sched i) ?s)"
    by (rule logs_kept_trans [OF _ dispatch_rollouts_logs]) simp
  then show ?thesis
    by (cases "worker_dispatch_rollouts env c (ei_sched i) ?s")
      (auto simp: execute_data_fetch_def logs_with_def logs_kept_def logs_def acknowledge_def acks_of_def steps_of_def Let_def)
qed

lemma execute_training_complete_logs: "logs_with c (TrainingComplete a) s (execute_training_complete c i a s)"
  by (auto simp: execute_training_complete_def logs_with_def logs_def acknowledge_def acks_of_def steps_of_def Let_def)

lemma sync_all_states_logs: "sync_all_states peer ops s = Inl (e, t) \<Longrightarrow> logs t = logs s" "sync_all_states peer ops s = Inr t \<Longrightarrow> logs t = logs s"
  by (auto simp: sync_all_states_def split: sum.splits)

lemma ask_rank_logs: "ask_rank nm s = Inl (e, t) \<Longrightarrow> logs t = logs s" "ask_rank nm s = Inr t \<Longrightarrow> logs t = logs s"
  by (auto simp: ask_rank_def split: sum.splits)

lemma bindR_Inl_iff: "bindR m k = Inl e \<longleftrightarrow> m = Inl e \<or> (\<exists>x. m = Inr x \<and> k x = Inl e)"
  by (cases m) auto

lemma policy_transfer_logs:
  "logs_kept s (execute_policy_to_policy_broadcast c src dsts ops s)"
  "logs_kept s (execute_policy_to_policy_unicast c src dst ops s)"
  "logs_kept s (execute_policy_to_rollout_unicast env c a s)"
proof -
  show "logs_kept s (execute_policy_to_policy_broadcast c src dsts ops s)"
    unfolding logs_kept_def execute_policy_to_policy_broadcast_def Let_def
    by (auto simp: bindR_Inl_iff bindR_Inr_iff split: sum.splits dest!: sync_all_states_logs ask_rank_logs)
  show "logs_kept s (execute_policy_to_policy_unicast c src dst ops s)"
    unfolding logs_kept_def execute_policy_to_policy_unicast_def Let_def
    by (auto simp: bindR_Inl_iff bindR_Inr_iff split: sum.splits if_splits dest!: sync_all_states_logs ask_rank_logs)
  show "logs_kept s (execute_policy_to_rollout_unicast env c a s)"
    by (simp add: execute_policy_to_rollout_unicast_def logs_kept_def Let_def split: sum.split option.split)
qed

lemma logs_kept_with: "acks_of c cmd = [] \<Longrightarrow> steps_of cmd = [] \<Longrightarrow> logs_kept s r \<Longrightarrow> logs_with c cmd s r"
  by (auto simp: logs_kept_def logs_with_def logs_eq split: sum.splits)

lemma run_handler_logs: "logs_with c cmd s (run_handler env c i cmd s)"
proof (cases cmd)
  case (WeightResume nm)
  then show ?thesis by (simp add: run_handler_def logs_with_def acks_of_def steps_of_def logs_def)
qed (auto simp: run_handler_def execute_data_fetch_logs execute_training_complete_logs acks_of_def steps_of_def
    intro!: logs_kept_with policy_transfer_logs, simp_all add: logs_kept_def)

text \<open>The invariant of the log.\<close>

definition log_inv :: "policy_config \<Rightarrow> policy_worker \<Rightarrow> bool" where
  "log_inv c s \<longleftrightarrow> pw_acks s = concat (map (\<lambda>x. acks_of c (fst x)) (pw_executed s)) \<and>
     map tr_step (pw_trained s) = concat (map (\<lambda>x. steps_of (fst x)) (pw_executed s)) \<and>
     (pw_abort s \<longleftrightarrow> (\<exists>cmd. (cmd, True) \<in> set (pw_executed s))) \<and> (pw_finished s \<longrightarrow> pw_abort s)"

lemma log_inv_logs: "logs t = logs s \<Longrightarrow> log_inv c s \<Longrightarrow> log_inv c t"
  unfolding log_inv_def logs_def by (metis prod.inject)

lemma execute_command_inv: "log_inv c s \<Longrightarrow> keeps (log_inv c) (execute_command env c i cmd s)"
proof -
  assume inv: "log_inv c s"
  show ?thesis
  proof (cases "run_handler env c i cmd s")
    case (Inl x)
    then have "logs (snd x) = logs s" using run_handler_logs [of c cmd s env i] by (simp add: logs_with_def)
    then show ?thesis using inv Inl log_inv_logs [of "snd x" s c] by (cases x) (simp add: execute_command_def)
  next
    case (Inr x)
    then have "logs (snd x) = (pw_acks s @ acks_of c cmd, map tr_step (pw_trained s) @ steps_of cmd, pw_executed s, pw_abort s, pw_finished s)"
      using run_handler_logs [of c cmd s env i] by (simp add: logs_with_def)
    then show ?thesis using inv Inr by (cases x) (auto simp: execute_command_def log_inv_def logs_def)
  qed
qed

lemma execute_all_inv: "log_inv c s \<Longrightarrow> keeps (log_inv c) (execute_all env c ins cmds s)"
proof (induction env c ins cmds s rule: execute_all.induct)
  case (2 env c ins cmd cmds s)
  have inv: "log_inv c (s\<lparr>pw_command_buffer := cmds\<rparr>)"
    by (rule log_inv_logs [OF _ 2(2)]) simp
  show ?case
    unfolding execute_all.simps
    by (rule keeps_bindR [OF execute_command_inv [OF inv]]) (rule 2(1))
qed simp

lemma execute_all_abort: "pw_abort s \<Longrightarrow> keeps pw_abort (execute_all env c ins cmds s)"
proof (induction env c ins cmds s rule: execute_all.induct)
  case (2 env c ins cmd cmds s)
  have "keeps pw_abort (execute_command env c i cmd (s\<lparr>pw_command_buffer := cmds\<rparr>))" for i
    using 2(2) run_handler_logs [of c cmd "s\<lparr>pw_command_buffer := cmds\<rparr>" env i]
    by (cases "run_handler env c i cmd (s\<lparr>pw_command_buffer := cmds\<rparr>)") (auto simp: execute_command_def logs_with_def logs_def)
  then show ?case unfolding execute_all.simps by (rule keeps_bindR) (rule 2(1))
qed simp

lemma policy_round_inv: "log_inv c s \<Longrightarrow> keeps (log_inv c) (policy_round env c i s)"
proof (cases "pw_finished s")
  case False
  assume inv: "log_inv c s"
  define w where "w = broadcast_command (if pw_abort s \<and> pc_validation_enable c then linger c (ri_polls i) s else s)"
  have w: "logs w = logs s" by (simp add: w_def)
  then have abort: "pw_abort w = pw_abort s" unfolding logs_def by blast
  let ?r = "execute_all env c (ri_execs i) (pw_command_buffer w) w"
  have "log_inv c (after ?r)" "pw_abort s \<Longrightarrow> pw_abort (after ?r)"
    using execute_all_inv [OF log_inv_logs [OF w inv]] execute_all_abort [of w] abort by (auto simp: keeps_def)
  then have "keeps (log_inv c) (bindR ?r (\<lambda>t. Inr (if pw_abort s then t\<lparr>pw_finished := True\<rparr> else t)))"
    by (cases ?r) (auto simp: keeps_def after_def log_inv_def)
  then show ?thesis using False by (simp add: policy_round_def Let_def w_def)
qed (simp add: policy_round_def)

lemma policy_run_inv: "log_inv c s \<Longrightarrow> keeps (log_inv c) (policy_run env c evs s)"
  unfolding policy_run_def
proof (rule keeps_forR)
  fix ev t
  assume "log_inv c t"
  then show "keeps (log_inv c) (policy_step env c ev t)"
    by (cases ev) (auto simp: policy_step_def policy_round_inv intro: log_inv_logs [rotated])
qed

lemma log_inv_init: "log_inv c (init_policy_worker c)"
  by (simp add: log_inv_def init_policy_worker_def)

text \<open>Exactly one rank acknowledges.\<close>

lemma one_master_rank:
  assumes "pd_world_size d = int n" "0 < n" "1 < pd_pp d \<longrightarrow> pd_pp d dvd pd_world_size d"
  shows "\<exists>g. filter (is_master_rank d) [0..<n] = [g]"
proof -
  have "\<exists>g<n. \<forall>h. is_master_rank d h \<longleftrightarrow> h = g"
  proof (cases "1 < pd_pp d")
    case True
    then obtain q where q: "pd_world_size d = pd_pp d * q" using assms(3) by (auto elim: dvdE)
    then have q0: "0 < q" using assms(1,2) True by (metis of_nat_0_less_iff zero_less_mult_pos less_trans zero_less_one)
    have "is_master_rank d h \<longleftrightarrow> h = nat (pd_world_size d - q)" for h
    proof -
      have "int h * pd_pp d = pd_world_size d * pd_pp d - pd_world_size d \<longleftrightarrow> pd_pp d * int h = pd_pp d * (pd_world_size d - q)"
        by (simp add: q algebra_simps)
      also have "\<dots> \<longleftrightarrow> int h = pd_world_size d - q" using True by simp
      also have "\<dots> \<longleftrightarrow> h = nat (pd_world_size d - q)"
        using True q q0 by (auto simp: nat_eq_iff2)
      finally show ?thesis using True by (simp add: is_master_rank_def)
    qed
    then show ?thesis using q0 assms(1,2) by (intro exI [of _ "nat (pd_world_size d - q)"]) (auto simp: nat_less_iff)
  next
    case False
    then show ?thesis using assms(2) by (auto simp: is_master_rank_def)
  qed
  then obtain g where "g < n" "is_master_rank d = (\<lambda>h. h = g)" by blast
  moreover have "filter (\<lambda>h. h = g) [0..<n] = [g]" if "g < n"
    using that by (induction n) (auto simp: filter_empty_conv less_Suc_eq)
  ultimately show ?thesis by (intro exI [of _ g]) simp
qed

definition ack_of :: "command_body \<Rightarrow> (int option \<times> int option) list" where
  "ack_of cmd = (case cmd of
     DataFetch a \<Rightarrow> [(dfa_global_step a, dfa_total_steps a)]
   | TrainingComplete a \<Rightarrow> [(Some (tca_global_step a), Some (tca_total_steps a))]
   | _ \<Rightarrow> [])"


text \<open>The commands that were read and wait.\<close>

definition waiting_commands :: "policy_worker \<Rightarrow> command_body list" where
  "waiting_commands s = pw_command_buffer s @ pw_fetch_command_buffer s"

lemma waiting_broadcast [simp]:
  "waiting_commands (broadcast_command s) = waiting_commands s" "pw_fetch_command_buffer (broadcast_command s) = []"
  by (simp_all add: waiting_commands_def broadcast_command_def)

lemma waiting_fetch: "\<exists>new. waiting_commands (fetch_commands c cmds s) = waiting_commands s @ new"
proof (induction c cmds s rule: fetch_commands.induct)
  case (2 c cmd cmds s)
  then show ?case by (cases cmd) (auto simp: waiting_commands_def split: option.splits)
qed simp

lemma waiting_linger: "\<exists>new. waiting_commands (linger c polls s) = waiting_commands s @ new"
proof (induction polls arbitrary: s)
  case (Cons cmds polls)
  obtain new where "waiting_commands (broadcast_command (fetch_commands c cmds s)) = waiting_commands s @ new"
    using waiting_fetch [of c cmds s] by auto
  then show ?case using Cons.IH [of "broadcast_command (fetch_commands c cmds s)"] by (auto simp: Let_def)
qed simp

lemma execute_all_executed:
  "execute_all env c ins cmds s = Inr t \<Longrightarrow> map fst (pw_executed t) = map fst (pw_executed s) @ cmds"
proof (induction env c ins cmds s rule: execute_all.induct)
  case (2 env c ins cmd cmds s)
  let ?i = "case ins of [] \<Rightarrow> idle_input | i # _ \<Rightarrow> i" and ?s = "s\<lparr>pw_command_buffer := cmds\<rparr>"
  obtain u where u: "execute_command env c ?i cmd ?s = Inr u" "execute_all env c (tl ins) cmds u = Inr t"
    using 2(2) by (auto simp: bindR_Inr_iff)
  have "map fst (pw_executed u) = map fst (pw_executed s) @ [cmd]"
    using u(1) run_handler_logs [of c cmd ?s env ?i] by (auto simp: execute_command_def bindR_Inr_iff logs_with_def logs_def)
  then show ?case using 2(1) [OF u(2)] by simp
qed simp


text \<open>A run in which one step is trained and ends the job; a second command arrives too late.\<close>

definition fetch_of :: "int \<Rightarrow> command_body" where
  "fetch_of step = DataFetch \<lparr>dfa_replica_name = ''p0'', dfa_items_count = 2, dfa_global_step = Some step,
     dfa_total_steps = Some 1, dfa_remain_samples_num = 0, dfa_do_save = False, dfa_profile = no_profile\<rparr>"

definition idle_round :: round_input where
  "idle_round = \<lparr>ri_polls = [], ri_execs = []\<rparr>"

definition one_step_run :: "policy_event list" where
  "one_step_run = [RolloutsFetched (map (\<lambda>i. policy_rollout i []) [0, 1]), RolloutTurn, RolloutTurn,
     CommandsFetched [fetch_of 1], Round idle_round, CommandsFetched [WeightResume ''p0'']]"

definition one_step_state :: policy_worker where
  "one_step_state = after (policy_run no_env two_ranks one_step_run (init_policy_worker two_ranks))"



end
