(* ===== verification/Spec2Isabelle.thy ===== *)
theory Spec2Isabelle
  imports Task_Scheduler Reward_Local Rollout_Loop_Claims Witnesses Seqlen_Lemmas Load_Balance_Claims Shard_Plan_Claims Shard_Service Shard_Topology Async_Claims Weight_Sync_Claims Policy_Worker_Claims
begin

text \<open>
  A verification development for cosmos-rl, an asynchronous reinforcement-learning and
  fine-tuning system for large models.

  \<^bold>\<open>The program.\<close> One controller process serves policy replicas (which train) and rollout
  replicas (which generate). Replicas register atom by atom over HTTP and form meshes. The
  controller hands out prompts, takes back rollouts, filters the outdated ones, buffers the
  rest, dispatches a training step to all policy replicas as soon as enough rollouts are
  buffered, collects the acknowledgements, and lets the new weights be sent from a policy
  replica to the rollout replicas. It keeps count of the samples in flight and throttles
  prompt requests by that count. A monitor thread reaps replicas that stop sending
  heartbeats, broadcasts STOP at the end and shuts the server down. Around this core the
  repository has libraries that do not touch tensors' contents: the balancing of sequence
  lengths, load-balanced batching, and the arithmetic of tensor slices that the weight
  transfer is planned with. The plan itself, which rank sends which part of which parameter to
  whom, is made by the controller from what both sides report of their shards.

  \<^bold>\<open>The theories\<close>, in the order of the imports:

  \<^item> \<open>Prelude\<close>: exceptions and statements that may raise, loops, ordered dictionaries, event
    systems.
  \<^item> \<open>Schema\<close>: payloads, rollouts, chat messages and \<open>extract_rollouts\<close>
    (dispatcher/data/schema.py, utils/payload.py).
  \<^item> \<open>Replica_Model\<close>: mesh names, registration requests, atoms, replicas
    (dispatcher/protocol.py, dispatcher/replica.py).
  \<^item> \<open>Command_Model\<close>: commands, their wire format, their triggers and the handler registries
    (dispatcher/command.py). The bus records what was published to whom.
  \<^item> \<open>Data_Fetcher\<close>: configuration fields with their validators (policy/config) and the
    serving of prompts (dispatcher/data/data_fetcher.py).
  \<^item> \<open>Payload_Transport\<close>: the registry of payload transports
    (utils/payload_transport/registry.py).
  \<^item> \<open>World\<close>, \<open>Rollout_Status\<close>, \<open>Policy_Status\<close>, \<open>Policy_Dispatch\<close>: the two status managers of
    dispatcher/status.py. A manager is a record of its attributes; every method is a
    function on the record or on the whole state, and an exception keeps the state reached.
  \<^item> \<open>Policy_Invariants\<close>, \<open>Dispatch_Correctness\<close>, \<open>Accounting\<close>: the structural invariant
    \<open>winv\<close>, the closed form of a dispatch, and the balance \<open>acct\<close> of samples in flight.
  \<^item> \<open>Controller_Model\<close>: \<open>Controller\<close> (dispatcher/controller.py) with its throttles.
  \<^item> \<open>Handler_Contract\<close>, \<open>Web_Panel\<close>, \<open>System_Invariants\<close>, \<open>Shutdown\<close>: the HTTP server and
    its monitor thread (dispatcher/run_web_panel.py) as an event system, the invariants of
    every run, and the end of a run.
  \<^item> \<open>Protocol_Properties\<close>: properties of single protocols of the controller.
  \<^item> \<open>Sample_World\<close>, \<open>Witnesses\<close>: a concrete state and the theorems evaluated on it.
  \<^item> \<open>Py_Heap\<close>, \<open>Seqlen_Balance\<close>, \<open>Seqlen_Lemmas\<close>: Python's binary heap and the balancing of
    sequence lengths (utils/balance_seqlen.py).
  \<^item> \<open>Load_Balance\<close>, \<open>Load_Balance_Lemmas\<close>, \<open>Load_Balance_Claims\<close>: load-balanced batching
    (dispatcher/data/load_balanced_dataset.py).
  \<^item> \<open>Dim_Slice\<close>: slices of tensor dimensions (utils/dim_slice_info.py).
  \<^item> \<open>Parallel_Dims\<close>: the parallel dimensions of a replica and its tables of ranks
    (utils/parallelism.py).
  \<^item> \<open>Shard_Mapper\<close>, \<open>Shard_Plan\<close>, \<open>Shard_Plan_Claims\<close>: the send and receive instructions of a weight
    transfer and their correctness (utils/parallelism_map.py).
  \<^item> \<open>Shard_Service\<close>: the shard mapper of the controller, its asynchronous task, its queries and
    its endpoints (utils/parallelism_map.py, dispatcher/run_web_panel.py).
  \<^item> \<open>Shard_Topology\<close>: the shard of a parameter on a rank (utils/parallelism_map.py,
    utils/dim_slice_info.py).
  \<^item> \<open>Rollout_Admission\<close>: the configuration and state of a rollout worker, its prompt queue, and
    the admission of prompts by weight version (rollout/worker/rollout_control.py).
  \<^item> \<open>Task_Scheduler\<close>: the scheduler of asynchronous generation, its loop as a step system, the
    pause, resume and drain fence (rollout/worker/asynchronous/rollout_task_scheduler.py).
  \<^item> \<open>Reward_Dispatch\<close>, \<open>Prefix_Groups\<close>, \<open>Reward_Local\<close>: the queue of the reward calculation and its
    remote requests, the trie of shared prefixes, and the local calculation (reward/*.py,
    utils/util.py).
  \<^item> \<open>Rollout_Worker\<close>, \<open>Rollout_Loop\<close>: fetching, generation steps, reports and the end signal; commands,
    the main loop and the prefetch thread as events of \<open>worker_run\<close>.
  \<^item> \<open>Rollout_Reports\<close>, \<open>Rollout_Loop_Claims\<close>: what a report keeps of the worker, once for every
    invariant, and the theorems about runs of a worker.
  \<^item> \<open>Async_Rollout\<close>, \<open>Async_Claims\<close>: the control thread, the event loop and the streaming step of an
    asynchronous worker (rollout_control.py), and its weight transactions.
  \<^item> \<open>Weight_Sync\<close>, \<open>Weight_Sync_Claims\<close>: buffered weight synchronisation
    (rollout/worker/weight_sync.py): the command queue, the background thread, the copy into the
    live model, the fence, and the Redis barrier of a broadcast as an interleaving of its calls.
  \<^item> \<open>HA_Nccl\<close>: the communicator among the policy replicas (\<open>HighAvailabilitylNccl\<close> in
    utils/distributed.py), its background thread and the operations with their retries.
  \<^item> \<open>Policy_Worker\<close>, \<open>Policy_Worker_Claims\<close>: the worker of a policy replica
    (policy/worker/rl_worker.py): its fetching threads, the handlers of its commands, the
    distribution of a batch over its ranks, the weights it sends, and its main loop.

  \<^bold>\<open>Interfaces.\<close> \<open>ordered_dict\<close> (what the managers rely on of a dictionary), \<open>event_system\<close>
  (handlers that keep an assertion, also when they raise), \<open>handler_contract\<close> (what the HTTP
  handlers rely on of the managers' operations), \<open>strict_weak_order\<close> and \<open>priority_queue\<close>
  (what the differencing method relies on of the heap), \<open>report_invariant\<close> (what a report of a
  rollout worker keeps). Each is interpreted on the model.

  \<^bold>\<open>What is shown.\<close> For every sequence of events the tables of the controller stay consistent
  and the samples in flight balance; the throttle bounds them; a step sends every replica
  exactly its batch and steps do not overlap; the staleness filter, the end-of-rollout
  barrier, the completion barrier, mesh rebuilding, weight delivery and discard reports do
  what they are meant to do; STOP is broadcast soundly and once; waiting ends. Messages and
  registration requests survive their encodings. Balanced partitions are partitions, and
  balanced; batching respects its budget, loses nothing and stops or does not stop as it
  should; both ends of a weight transfer select the same elements. The plan of a weight transfer
  is one: what a policy rank sends is what the rollout rank expects, in the same order, every
  element of a rollout shard arrives exactly once, the shards a topology assigns tile the tensor
  as this needs, and the plan served is that of the first reports whatever is interleaved.
  A rollout worker accounts for every sample of a batch and signals its end only when nothing is
  left; where it does not, or signals twice, the run is given. Asynchronous generation sees its
  weights rewritten only while it rests, and every result carries its version. Rewards stay with
  their completions, and the prefix groups are the maximal ones. The barrier of a broadcast holds
  its workers until all have arrived and cannot lose its signal; its counter outlives the
  broadcast, and a P2R can overtake the broadcast before it. A policy replica deals the head of
  what was delivered to its ranks, acknowledges every step it trained exactly once, sends the
  weights its instructions list and leaves its main loop only when told; its operations with other
  replicas run on a proper mesh or, when it was alone, not at all, even if it is not alone any more.

  \<^bold>\<open>Modelling decisions.\<close> Every HTTP handler and every pass of the monitor is one step:
  handlers run to completion on one event loop, and the one handler with an \<open>await\<close> in the
  middle (the collection of NCCL errors) is two events. The monitor thread's interleaving
  with handlers inside a pass is not modelled. Time, random identifiers, the iteration
  order of Python sets, shuffles, collective operations and tokenizers are parameters, and so are
  msgpack and \<open>numpy.array_split\<close>, of which only the documented behaviour is used. The task that
  generates the weight-transfer plan is two events, before and after its \<open>await\<close>.
  Python's integers are \<open>int\<close>; \<open>math.ceil\<close> of a quotient is \<open>ceil_div\<close>, which agrees for
  numbers below \<open>2 ^ 53\<close>. Of the metric reports only the keys are kept. \<open>Queue.get\<close> on an
  empty queue is the outcome \<open>Blocks\<close>. No definition uses fuel except \<open>yields\<close>, whose
  argument is the number of times the generator is asked, and the prompt-fetching loop,
  whose bound is the number of batches left. What a rollout worker gets from outside (answers of
  the controller, results of the engine, commands, the order of the event loop's tasks, whether a
  wait ends in time) is part of the events of its runs, so one run is one list of events and every
  theorem about runs is about all of them; a poll that would wait for ever has no answer left and
  is the outcome \<open>Blocks\<close>. The drain of a fence is reached within one round more than there are
  queued tasks.

  \<^bold>\<open>Not modelled.\<close> Models, kernels, losses and optimisers (tensor programs); the trainers,
  whose steps are tensor programs too, and the workers of supervised training; the generation engines behind a
  rollout worker, the contents of weight transfers, CUDA streams and events, NCCL itself,
  the Redis transport, teacher requests, the start and teardown of processes; reward functions and
  the remote reward service; checkpoints on disk, simulators, the analysis of model objects for
  their parallelism, PyTorch device meshes; loggers and launch scripts (input/output and
  third-party libraries); numeric contents of reports.
\<close>

end
